(* ===== verification/Prelude.thy ===== *)
theory Prelude
  imports Main
begin

text \<open>
  What every component of the development shares: the named collections its proofs use, the
  result type of an operation that may throw, and SQLite tables as lists of rows.

  A table is the list of its rows in rowid order (the order they were inserted in), a row is a
  record, and a primary key is a function from rows to keys. The four statement forms the program
  prepares are modelled by four functions: \<open>sql_get\<close> (a SELECT by key that reads one row),
  \<open>sql_update\<close> (an UPDATE by key), \<open>sql_update_where\<close> (an UPDATE with a wider WHERE clause) and
  \<open>sql_delete\<close> (a DELETE). An ORDER BY clause is a stable sort of the selected rows.
  A throwing operation still hands back the state it reached, because most of the program's
  operations run several statements outside a transaction.
\<close>

named_theorems sql_simps \<open>reading a table after it was written\<close>
named_theorems key_intros \<open>operations that keep primary keys unique\<close>

section \<open>Operations that may throw\<close>

text \<open>
  An operation on a state \<open>'s\<close> returns the state it leaves behind together with either the
  error it throws (\<open>Inl\<close>) or its value (\<open>Inr\<close>).
\<close>

type_synonym ('e, 'a, 's) outcome = "('e + 'a) \<times> 's"

definition throw :: "'e \<Rightarrow> 's \<Rightarrow> ('e, 'a, 's) outcome" where
  "throw e s = (Inl e, s)"

definition ret :: "'a \<Rightarrow> 's \<Rightarrow> ('e, 'a, 's) outcome" where
  "ret a s = (Inr a, s)"

lemma throw_ret_simps [simp]:
  "fst (throw e s) = Inl e" "snd (throw e s) = s"
  "fst (ret a s) = Inr a" "snd (ret a s) = s"
  by (simp_all add: throw_def ret_def)

section \<open>Optional values\<close>

text \<open>\<open>x ?? d\<close> on a value that may be undefined or null.\<close>

fun nullish :: "'a option \<Rightarrow> 'a \<Rightarrow> 'a" where
  "nullish (Some x) d = x"
| "nullish None d = d"

text \<open>
  A number column that is read through \<open>row.c ? new Date(row.c * 1000) : undefined\<close>: NULL and 0
  both read as undefined, any other value as the date in milliseconds.
\<close>

definition date_of :: "int option \<Rightarrow> int option" where
  "date_of c = (case c of None \<Rightarrow> None | Some s \<Rightarrow> if s = 0 then None else Some (s * 1000))"

text \<open>\<open>Math.floor(ms / 1000)\<close> on a time in milliseconds.\<close>

definition secs :: "int \<Rightarrow> int" where
  "secs ms = ms div 1000"

lemma date_of_Some [simp]: "s \<noteq> 0 \<Longrightarrow> date_of (Some s) = Some (s * 1000)"
  by (simp add: date_of_def)

lemma date_of_None [simp]: "date_of None = None"
  by (simp add: date_of_def)

section \<open>Tables\<close>

definition sql_get :: "('r \<Rightarrow> 'k) \<Rightarrow> 'k \<Rightarrow> 'r list \<Rightarrow> 'r option" where
  "sql_get key k rows = find (\<lambda>r. key r = k) rows"

definition sql_update_where :: "('r \<Rightarrow> bool) \<Rightarrow> ('r \<Rightarrow> 'r) \<Rightarrow> 'r list \<Rightarrow> 'r list" where
  "sql_update_where p f rows = map (\<lambda>r. if p r then f r else r) rows"

definition sql_update :: "('r \<Rightarrow> 'k) \<Rightarrow> 'k \<Rightarrow> ('r \<Rightarrow> 'r) \<Rightarrow> 'r list \<Rightarrow> 'r list" where
  "sql_update key k = sql_update_where (\<lambda>r. key r = k)"

definition sql_delete :: "('r \<Rightarrow> bool) \<Rightarrow> 'r list \<Rightarrow> 'r list" where
  "sql_delete p rows = filter (\<lambda>r. \<not> p r) rows"

text \<open>ORDER BY on integer columns; rows with equal columns stay in rowid order.\<close>

definition order_asc :: "('r \<Rightarrow> int) \<Rightarrow> 'r list \<Rightarrow> 'r list" where
  "order_asc f rows = sort_key f rows"

definition order_desc :: "('r \<Rightarrow> int) \<Rightarrow> 'r list \<Rightarrow> 'r list" where
  "order_desc f rows = sort_key (\<lambda>r. - f r) rows"

subsection \<open>Reading back\<close>

lemma sql_get_Nil [simp]: "sql_get key k [] = None"
  by (simp add: sql_get_def)

lemma sql_get_Cons [simp]:
  "sql_get key k (r # rs) = (if key r = k then Some r else sql_get key k rs)"
  by (simp add: sql_get_def)

lemma sql_get_append [simp]:
  "sql_get key k (xs @ ys) = (case sql_get key k xs of None \<Rightarrow> sql_get key k ys | Some r \<Rightarrow> Some r)"
  by (induction xs) auto

lemma sql_get_None_iff: "sql_get key k rows = None \<longleftrightarrow> k \<notin> key ` set rows"
  by (induction rows) auto

lemma sql_get_SomeD: "sql_get key k rows = Some r \<Longrightarrow> r \<in> set rows \<and> key r = k"
  by (induction rows) (auto split: if_splits)

lemma sql_get_unique:
  assumes "distinct (map key rows)" and "r \<in> set rows"
  shows "sql_get key (key r) rows = Some r"
  using assms by (induction rows) auto

lemma sql_get_Some_iff:
  assumes "distinct (map key rows)"
  shows "sql_get key k rows = Some r \<longleftrightarrow> r \<in> set rows \<and> key r = k"
  using assms by (auto dest: sql_get_SomeD sql_get_unique)

lemma sql_get_update_where [sql_simps]:
  assumes "\<And>r. key (f r) = key r"
  shows "sql_get key k (sql_update_where p f rows) =
         map_option (\<lambda>r. if p r then f r else r) (sql_get key k rows)"
  using assms by (induction rows) (auto simp: sql_update_where_def)

lemma sql_get_update [sql_simps]:
  assumes "\<And>r. key (f r) = key r"
  shows "sql_get key k (sql_update key k' f rows) =
         (if k = k' then map_option f (sql_get key k rows) else sql_get key k rows)"
proof -
  have "sql_get key k (sql_update key k' f rows) =
        map_option (\<lambda>r. if key r = k' then f r else r) (sql_get key k rows)"
    by (simp add: sql_update_def sql_get_update_where assms)
  then show ?thesis
    by (cases "sql_get key k rows") (auto dest: sql_get_SomeD)
qed

lemma sql_get_delete [sql_simps]:
  "sql_get key k (sql_delete (\<lambda>r. key r = k') rows) = (if k = k' then None else sql_get key k rows)"
  by (induction rows) (auto simp: sql_delete_def)

subsection \<open>Keys\<close>

lemma map_key_update_where:
  assumes "\<And>r. key (f r) = key r"
  shows "map key (sql_update_where p f rows) = map key rows"
  by (simp add: sql_update_where_def assms)

lemma distinct_update [key_intros]:
  assumes "\<And>r. key (f r) = key r"
  shows "distinct (map key (sql_update key k f rows)) = distinct (map key rows)"
  by (simp add: sql_update_def map_key_update_where assms)

lemma distinct_delete [key_intros]:
  "distinct (map key rows) \<Longrightarrow> distinct (map key (sql_delete p rows))"
  by (simp add: sql_delete_def distinct_map_filter)

lemma distinct_insert [key_intros]:
  "distinct (map key rows) \<Longrightarrow> sql_get key (key r) rows = None \<Longrightarrow> distinct (map key (rows @ [r]))"
  by (auto simp: sql_get_None_iff)

lemma set_update_where:
  "r \<in> set (sql_update_where p f rows) \<longleftrightarrow>
   (\<exists>r0 \<in> set rows. r = (if p r0 then f r0 else r0))"
  by (auto simp: sql_update_where_def)

lemma ball_update_where [simp]:
  "(\<forall>r \<in> set (sql_update_where p f rows). Q r) \<longleftrightarrow> (\<forall>r \<in> set rows. Q (if p r then f r else r))"
  by (auto simp: sql_update_where_def)

lemma set_sql_delete: "set (sql_delete p rows) = {r \<in> set rows. \<not> p r}"
  by (auto simp: sql_delete_def)

lemma length_update [simp]: "length (sql_update key k f rows) = length rows"
  by (simp add: sql_update_def sql_update_where_def)

lemma sql_update_absent:
  "k \<notin> key ` set rows \<Longrightarrow> sql_update key k f rows = rows"
  unfolding sql_update_def sql_update_where_def by (rule map_idI) auto

lemma set_order_asc [simp]: "set (order_asc f rows) = set rows"
  by (simp add: order_asc_def)

lemma set_order_desc [simp]: "set (order_desc f rows) = set rows"
  by (simp add: order_desc_def)

text \<open>Two ORDER BY columns: a stable sort by the second, then a stable sort by the first.\<close>

definition lex_le :: "('r \<Rightarrow> int) \<Rightarrow> ('r \<Rightarrow> int) \<Rightarrow> 'r \<Rightarrow> 'r \<Rightarrow> bool" where
  "lex_le h g a b = (h a < h b \<or> h a = h b \<and> g a \<le> g b)"

lemma sorted_wrt_insort_lex:
  "sorted_wrt (lex_le h g) zs \<Longrightarrow> \<forall>z \<in> set zs. g x \<le> g z \<Longrightarrow> sorted_wrt (lex_le h g) (insort_key h x zs)"
proof (induction zs)
  case Nil
  then show ?case by simp
next
  case (Cons z zs)
  then show ?case
    by (auto simp: lex_le_def set_insort_key)
qed

lemma sorted_wrt_sort_lex: "sorted (map g ys) \<Longrightarrow> sorted_wrt (lex_le h g) (sort_key h ys)"
proof (induction ys)
  case Nil
  then show ?case by simp
next
  case (Cons y ys)
  then show ?case
    by (simp add: sorted_wrt_insort_lex)
qed

lemma sorted_wrt_order_desc_asc:
  "sorted_wrt (lex_le (\<lambda>r. - f r) g) (order_desc f (order_asc g rows))"
  by (simp add: order_desc_def order_asc_def sorted_wrt_sort_lex)

lemma length_filter_keys:
  assumes "distinct (map key xs)" and "distinct (map key ys)" and "set ys \<subseteq> set xs"
  shows "length (filter (\<lambda>r. key r \<in> key ` set ys) xs) = length ys"
proof -
  have "set (filter (\<lambda>r. key r \<in> key ` set ys) xs) = set ys"
    using assms(1,3) by (auto simp: distinct_map inj_on_def)
  moreover have "distinct (filter (\<lambda>r. key r \<in> key ` set ys) xs)" and "distinct ys"
    using assms(1,2) by (simp_all add: distinct_map)
  ultimately show ?thesis by (metis distinct_card)
qed

section \<open>The end of a list\<close>

text \<open>
  \<open>xs.slice(-n)\<close>: the last \<open>n\<close> elements, and the whole array when \<open>n\<close> is 0, since
  \<open>slice(-0)\<close> is \<open>slice(0)\<close>.
\<close>

definition slice_last :: "nat \<Rightarrow> 'a list \<Rightarrow> 'a list" where
  "slice_last n xs = (if n = 0 then xs else drop (length xs - n) xs)"

lemma length_slice_last: "0 < n \<Longrightarrow> length (slice_last n xs) = min n (length xs)"
  by (simp add: slice_last_def)

lemma set_slice_last: "set (slice_last n xs) \<subseteq> set xs"
  by (simp add: slice_last_def set_drop_subset)

lemma slice_last_short: "length xs \<le> n \<Longrightarrow> slice_last n xs = xs"
  by (simp add: slice_last_def)

end
