(* ===== verification/DepGraph.thy ===== *)
theory DepGraph
  imports Prelude
begin

text \<open>
  Dependency graphs as the program stores them: a list of rows \<open>(task, parent)\<close>, and the breadth
  first search that both task stores run before they add a row
  (\<open>wouldCreateCycle\<close> in src/memory/agent/tasks.ts and in src/agent/delegation/store.ts).
  The search is correct: it finds the task exactly when the task is an ancestor of the new parent.
  The locale \<open>dag_store\<close> is the interface of a store that guards its insertions with that search;
  what follows for any such store (it stays acyclic, over any batch of insertions) is proved once.
\<close>

section \<open>The search\<close>

definition getDependencies_rows :: "('n \<times> 'n) list \<Rightarrow> 'n \<Rightarrow> 'n list" where
  "getDependencies_rows E t = map snd (filter (\<lambda>e. fst e = t) E)"

definition getDependents_rows :: "('n \<times> 'n) list \<Rightarrow> 'n \<Rightarrow> 'n list" where
  "getDependents_rows E p = map fst (filter (\<lambda>e. snd e = p) E)"

text \<open>
  The loop over \<open>queue\<close>, with the set \<open>visited\<close> kept as a list. It ends: a node that is visited leaves
  the nodes that are still to come, and any other node only shortens the queue.
\<close>

lemma search_shrinks:
  assumes "c \<notin> set vis" and "set ps \<subseteq> snd ` set E"
  shows "card ((set (q @ ps) \<union> snd ` set E) - set (c # vis)) <
         card ((set (c # q) \<union> snd ` set E) - set vis)"
proof (rule psubset_card_mono)
  show "(set (q @ ps) \<union> snd ` set E) - set (c # vis) \<subset> (set (c # q) \<union> snd ` set E) - set vis"
    using assms by auto
qed simp

lemma search_skips:
  assumes "c \<in> set vis"
  shows "(set (c # q) \<union> snd ` set E) - set vis = (set q \<union> snd ` set E) - set vis"
  using assms by auto

function cycle_search :: "('n \<times> 'n) list \<Rightarrow> 'n \<Rightarrow> 'n list \<Rightarrow> 'n list \<Rightarrow> bool" where
  "cycle_search E t visited [] = False"
| "cycle_search E t visited (current # queue) =
     (if current = t then True
      else if current \<in> set visited then cycle_search E t visited queue
      else cycle_search E t (current # visited) (queue @ getDependencies_rows E current))"
  by pat_completeness auto
termination
proof (relation "measures [\<lambda>(E, t, vis, q). card ((set q \<union> snd ` set E) - set vis),
                           \<lambda>(E, t, vis, q). length q]", goal_cases)
  case 1
  then show ?case by simp
next
  case (2 E t vis c q)
  from search_skips [OF 2(2), of q E] show ?case by simp
next
  case (3 E t vis c q)
  have "set (getDependencies_rows E c) \<subseteq> snd ` set E" by (auto simp: getDependencies_rows_def)
  from search_shrinks [OF 3(2) this] show ?case by simp
qed

definition wouldCreateCycle :: "('n \<times> 'n) list \<Rightarrow> 'n \<Rightarrow> 'n \<Rightarrow> bool" where
  "wouldCreateCycle E taskId newParentId =
     (if taskId = newParentId then True else cycle_search E taskId [] [newParentId])"

lemma set_getDependencies_rows [simp]: "set (getDependencies_rows E t) = {p. (t, p) \<in> set E}"
  by (force simp: getDependencies_rows_def)

lemma set_getDependents_rows [simp]: "set (getDependents_rows E p) = {t. (t, p) \<in> set E}"
  by (force simp: getDependents_rows_def)

section \<open>Correctness of the search\<close>

text \<open>
  The invariant of the loop: the task itself has not been visited, and whatever a visited node
  depends on is visited or queued. A path from the queue to the task therefore leaves the visited
  nodes through the queue.
\<close>

definition search_inv :: "('n \<times> 'n) list \<Rightarrow> 'n \<Rightarrow> 'n list \<Rightarrow> 'n list \<Rightarrow> bool" where
  "search_inv E t vis q \<longleftrightarrow> t \<notin> set vis \<and> (\<forall>v \<in> set vis. \<forall>p. (v, p) \<in> set E \<longrightarrow> p \<in> set vis \<union> set q)"

lemma search_inv_path:
  assumes "search_inv E t vis q" and "(v, t) \<in> (set E)\<^sup>*" and "v \<in> set vis"
  shows "\<exists>c \<in> set q. (c, t) \<in> (set E)\<^sup>*"
  using assms(2,3)
proof (induction rule: converse_rtrancl_induct)
  case base
  then show ?case using assms(1) by (simp add: search_inv_def)
next
  case (step y z)
  from assms(1) step.prems step.hyps(1) have "z \<in> set vis \<union> set q"
    by (auto simp: search_inv_def)
  then show ?case using step.IH step.hyps(2) by auto
qed

lemma search_inv_drop:
  assumes "search_inv E t vis (c # q)" and "c \<in> set vis"
  shows "search_inv E t vis q"
  using assms by (auto simp: search_inv_def)

lemma search_inv_visit:
  assumes "search_inv E t vis (c # q)" and "c \<noteq> t"
  shows "search_inv E t (c # vis) (q @ getDependencies_rows E c)"
  using assms by (auto simp: search_inv_def)

lemma cycle_search_correct:
  "search_inv E t vis q \<Longrightarrow> cycle_search E t vis q \<longleftrightarrow> (\<exists>c \<in> set q. (c, t) \<in> (set E)\<^sup>*)"
proof (induction E t vis q rule: cycle_search.induct)
  case (1 E t vis)
  then show ?case by simp
next
  case (2 E t vis c q)
  show ?case
  proof (cases "c = t")
    case True
    then show ?thesis by auto
  next
    case False
    show ?thesis
    proof (cases "c \<in> set vis")
      case True
      have inv: "search_inv E t vis q" by (rule search_inv_drop [OF "2.prems" True])
      have "(\<exists>c' \<in> set (c # q). (c', t) \<in> (set E)\<^sup>*) \<longleftrightarrow> (\<exists>c' \<in> set q. (c', t) \<in> (set E)\<^sup>*)"
        using search_inv_path [OF inv _ True] by auto
      then show ?thesis using False True "2.IH"(1) [OF False True inv] by simp
    next
      case nv: False
      have inv: "search_inv E t (c # vis) (q @ getDependencies_rows E c)"
        by (rule search_inv_visit [OF "2.prems" False])
      have "(c, t) \<in> (set E)\<^sup>* \<longleftrightarrow> (\<exists>p. (c, p) \<in> set E \<and> (p, t) \<in> (set E)\<^sup>*)"
        using False by (metis converse_rtrancl_into_rtrancl converse_rtranclE)
      then have "(\<exists>c' \<in> set (c # q). (c', t) \<in> (set E)\<^sup>*) \<longleftrightarrow>
                 (\<exists>c' \<in> set (q @ getDependencies_rows E c). (c', t) \<in> (set E)\<^sup>*)"
        by auto
      then show ?thesis using False nv "2.IH"(2) [OF False nv inv] by simp
    qed
  qed
qed

lemma wouldCreateCycle_iff: "wouldCreateCycle E t p \<longleftrightarrow> (p, t) \<in> (set E)\<^sup>*"
proof -
  have "search_inv E t [] [p]" by (simp add: search_inv_def)
  then have "cycle_search E t [] [p] \<longleftrightarrow> (p, t) \<in> (set E)\<^sup>*"
    by (subst cycle_search_correct) auto
  then show ?thesis
    by (auto simp: wouldCreateCycle_def simp del: cycle_search.simps)
qed

lemma acyclic_insert_edge: "acyclic r \<Longrightarrow> (p, t) \<notin> r\<^sup>* \<Longrightarrow> acyclic (insert (t, p) r)"
  by (simp add: acyclic_insert)

section \<open>Stores that guard their insertions\<close>

text \<open>
  The interface: the rows of a state, the states \<open>wf\<close> in which the provider's search is sound, and an
  insertion that keeps them and either throws and leaves the rows alone, or was not a cycle and
  left exactly one more row.
\<close>

locale dag_store =
  fixes edges :: "'s \<Rightarrow> ('n \<times> 'n) set"
    and wf :: "'s \<Rightarrow> bool"
    and add :: "'n \<Rightarrow> 'n \<Rightarrow> 's \<Rightarrow> ('e, unit, 's) outcome"
  assumes add_ok: "wf s \<Longrightarrow> add t p s = (Inr u, s') \<Longrightarrow>
      edges s' = insert (t, p) (edges s) \<and> (p, t) \<notin> (edges s)\<^sup>*"
    and add_err: "add t p s = (Inl e, s') \<Longrightarrow> edges s' = edges s"
    and add_wf: "wf s \<Longrightarrow> wf (snd (add t p s))"
begin

lemma add_acyclic: "wf s \<Longrightarrow> acyclic (edges s) \<Longrightarrow> acyclic (edges (snd (add t p s)))"
  by (cases "add t p s"; cases "fst (add t p s)")
    (auto dest: add_ok add_err intro: acyclic_insert_edge)

lemma add_grows: "wf s \<Longrightarrow> edges s \<subseteq> edges (snd (add t p s))"
  by (cases "add t p s"; cases "fst (add t p s)") (auto dest: add_ok add_err)

lemma add_refuses_cycle: "wf s \<Longrightarrow> (p, t) \<in> (edges s)\<^sup>* \<Longrightarrow> \<exists>e. fst (add t p s) = Inl e"
  by (cases "add t p s"; cases "fst (add t p s)") (auto dest: add_ok)

end

text \<open>
  The loop \<open>for (const parentId of dependsOn) this.addDependency(id, parentId)\<close>: the first insertion
  that throws ends it, and the rows inserted before stay.
\<close>

fun add_all :: "('n \<Rightarrow> 'n \<Rightarrow> 's \<Rightarrow> ('e, unit, 's) outcome) \<Rightarrow> 'n \<Rightarrow> 'n list \<Rightarrow> 's \<Rightarrow> ('e, unit, 's) outcome" where
  "add_all add t [] s = ret () s"
| "add_all add t (p # ps) s =
     (case add t p s of (Inl e, s') \<Rightarrow> throw e s' | (Inr _, s') \<Rightarrow> add_all add t ps s')"

lemma add_all_inv:
  assumes "\<And>s t p. I s \<Longrightarrow> I (snd (add t p s))" and "I s"
  shows "I (snd (add_all add t ps s))"
  using assms(2)
proof (induction ps arbitrary: s)
  case Nil
  then show ?case by simp
next
  case (Cons p ps)
  have "I (snd (add t p s))" using Cons.prems by (rule assms(1))
  then show ?case using Cons.IH by (auto split: prod.split sum.split)
qed

context dag_store
begin

lemma add_all_acyclic:
  assumes "wf s" and "acyclic (edges s)"
  shows "wf (snd (add_all add t ps s)) \<and> acyclic (edges (snd (add_all add t ps s)))"
  using assms
  by (intro add_all_inv [where I = "\<lambda>s. wf s \<and> acyclic (edges s)"]) (simp_all add: add_acyclic add_wf)

lemma add_all_ok:
  "wf s \<Longrightarrow> add_all add t ps s = (Inr u, s') \<Longrightarrow> wf s' \<and> edges s' = edges s \<union> {t} \<times> set ps"
proof (induction ps arbitrary: s)
  case Nil
  then show ?case by (simp add: ret_def)
next
  case (Cons p ps)
  from Cons.prems(2) obtain s1 where s1: "add t p s = (Inr (), s1)" "add_all add t ps s1 = (Inr u, s')"
    by (auto simp: throw_def split: prod.splits sum.splits)
  then have "wf s1" and "edges s1 = insert (t, p) (edges s)"
    using add_wf [OF Cons.prems(1), of t p] add_ok [OF Cons.prems(1)] by auto
  then show ?case using Cons.IH [OF _ s1(2)] by auto
qed

end

end
