(* ===== verification/TaskStore.thy ===== *)
theory TaskStore
  imports Prelude DepGraph
begin

text \<open>
  The task table and its dependency table: \<open>TaskStore\<close> of src/memory/agent/tasks.ts over the tables
  \<open>tasks\<close> and \<open>task_dependencies\<close> of src/memory/schema.ts.

  A database is the two tables; every method is a function from the database it runs on to its
  value (or the error it throws) and the database it leaves. \<open>Date.now()\<close> and \<open>randomUUID()\<close> are
  arguments: \<open>now\<close> in milliseconds, \<open>id\<close> for a new row. Dates are milliseconds. The foreign keys of
  the dependency table, which the connection enforces, are the checks that the rows exist and the
  ON DELETE CASCADE of \<open>deleteTask\<close>.
\<close>

type_synonym task_id = string

datatype task_status = T_pending | T_in_progress | T_done | T_failed | T_cancelled

section \<open>Rows and tasks\<close>

record task_row =
  t_id :: task_id
  t_description :: string
  t_status :: task_status
  t_priority :: int
  t_created_by :: "string option"
  t_created_at :: int
  t_started_at :: "int option"
  t_completed_at :: "int option"
  t_result :: "string option"
  t_error :: "string option"
  t_scheduled_for :: "int option"
  t_payload :: "string option"
  t_reason :: "string option"
  t_scheduled_message_id :: "int option"
  t_recurrence_interval :: "int option"
  t_recurrence_until :: "int option"

record task =
  tk_id :: task_id
  tk_description :: string
  tk_status :: task_status
  tk_priority :: int
  tk_createdBy :: "string option"
  tk_createdAt :: int
  tk_startedAt :: "int option"
  tk_completedAt :: "int option"
  tk_result :: "string option"
  tk_error :: "string option"
  tk_scheduledFor :: "int option"
  tk_payload :: "string option"
  tk_reason :: "string option"
  tk_scheduledMessageId :: "int option"
  tk_recurrenceInterval :: "int option"
  tk_recurrenceUntil :: "int option"

definition rowToTask :: "task_row \<Rightarrow> task" where
  "rowToTask row =
     \<lparr>tk_id = t_id row,
      tk_description = t_description row,
      tk_status = t_status row,
      tk_priority = t_priority row,
      tk_createdBy = t_created_by row,
      tk_createdAt = t_created_at row * 1000,
      tk_startedAt = date_of (t_started_at row),
      tk_completedAt = date_of (t_completed_at row),
      tk_result = t_result row,
      tk_error = t_error row,
      tk_scheduledFor = date_of (t_scheduled_for row),
      tk_payload = t_payload row,
      tk_reason = t_reason row,
      tk_scheduledMessageId = t_scheduled_message_id row,
      tk_recurrenceInterval = t_recurrence_interval row,
      tk_recurrenceUntil = date_of (t_recurrence_until row)\<rparr>"

record task_db =
  tasks :: "task_row list"
  task_dependencies :: "(task_id \<times> task_id) list"

datatype task_error =
    UniqueConstraint task_id
  | ForeignKeyConstraint task_id task_id
  | CircularDependency task_id task_id

section \<open>Reading\<close>

definition getTask_row :: "task_db \<Rightarrow> task_id \<Rightarrow> task_row option" where
  "getTask_row db tid = sql_get t_id tid (tasks db)"

definition getTask :: "task_db \<Rightarrow> task_id \<Rightarrow> task option" where
  "getTask db tid = map_option rowToTask (getTask_row db tid)"

text \<open>An empty \<open>createdBy\<close> is falsy and does not filter.\<close>

definition listTasks :: "task_db \<Rightarrow> task_status option \<Rightarrow> string option \<Rightarrow> task list" where
  "listTasks db status createdBy =
     map rowToTask
       (order_desc t_priority (order_asc t_created_at
         (filter (\<lambda>r. (case createdBy of None \<Rightarrow> True | Some c \<Rightarrow> c = [] \<or> t_created_by r = Some c))
           (filter (\<lambda>r. (case status of None \<Rightarrow> True | Some s \<Rightarrow> t_status r = s)) (tasks db)))))"

definition getActiveTasks :: "task_db \<Rightarrow> task list" where
  "getActiveTasks db =
     map rowToTask
       (order_desc t_priority (order_asc t_created_at
         (filter (\<lambda>r. t_status r \<in> {T_pending, T_in_progress}) (tasks db))))"

text \<open>Pending rows with a \<open>scheduled_for\<close> at or before \<open>nowSeconds\<close>.\<close>

definition is_due :: "int \<Rightarrow> task_row \<Rightarrow> bool" where
  "is_due nowSeconds r =
     (t_status r = T_pending \<and> (case t_scheduled_for r of None \<Rightarrow> False | Some f \<Rightarrow> f \<le> nowSeconds))"

definition getDueTasks :: "task_db \<Rightarrow> int \<Rightarrow> task list" where
  "getDueTasks db nowSeconds =
     map rowToTask
       (order_desc t_priority (order_asc (\<lambda>r. the (t_scheduled_for r))
         (filter (is_due nowSeconds) (tasks db))))"

definition getDependencies :: "task_db \<Rightarrow> task_id \<Rightarrow> task_id list" where
  "getDependencies db taskId = getDependencies_rows (task_dependencies db) taskId"

definition getDependents :: "task_db \<Rightarrow> task_id \<Rightarrow> task_id list" where
  "getDependents db taskId = getDependents_rows (task_dependencies db) taskId"

text \<open>
  The LEFT JOIN of the dependency rows of a task with the task table keeps a dependency row once
  per matching parent row, or once with no parent; the task can execute when none of these rows
  has a missing parent or a parent that is not done.
\<close>

definition pending_count :: "task_db \<Rightarrow> task_id \<Rightarrow> nat" where
  "pending_count db taskId =
     length (filter (\<lambda>p. case getTask_row db p of None \<Rightarrow> True | Some r \<Rightarrow> t_status r \<noteq> T_done)
              (getDependencies db taskId))"

definition canExecute :: "task_db \<Rightarrow> task_id \<Rightarrow> bool" where
  "canExecute db taskId = (pending_count db taskId = 0)"

text \<open>
  The results of the parents that are done; each is what \<open>JSON.parse\<close> makes of it, or the text itself
  where the parse throws. \<open>parse\<close> is \<open>JSON.parse\<close>, None where it throws.
\<close>

datatype 'j parent_value = Parsed 'j | RawText string

definition getParentResults ::
  "(string \<Rightarrow> 'j option) \<Rightarrow> task_db \<Rightarrow> task_id \<Rightarrow> (task_id \<times> string \<times> 'j parent_value) list" where
  "getParentResults parse db taskId =
     List.map_filter
       (\<lambda>p. case getTask_row db p of
              None \<Rightarrow> None
            | Some r \<Rightarrow>
                (case t_result r of
                   Some txt \<Rightarrow>
                     if t_status r = T_done
                     then Some (t_id r, t_description r,
                                case parse txt of Some j \<Rightarrow> Parsed j | None \<Rightarrow> RawText txt)
                     else None
                 | None \<Rightarrow> None))
       (getDependencies db taskId)"

section \<open>Writing\<close>

text \<open>
  \<open>addDependency\<close> throws on a cycle; otherwise INSERT OR IGNORE leaves an existing row alone and
  otherwise needs both tasks to exist.
\<close>

definition addDependency ::
  "task_id \<Rightarrow> task_id \<Rightarrow> task_db \<Rightarrow> (task_error, unit, task_db) outcome" where
  "addDependency taskId parentTaskId db =
     (if wouldCreateCycle (task_dependencies db) taskId parentTaskId
      then throw (CircularDependency taskId parentTaskId) db
      else if (taskId, parentTaskId) \<in> set (task_dependencies db) then ret () db
      else if getTask_row db taskId = None \<or> getTask_row db parentTaskId = None
      then throw (ForeignKeyConstraint taskId parentTaskId) db
      else ret () (db\<lparr>task_dependencies := task_dependencies db @ [(taskId, parentTaskId)]\<rparr>))"

record new_task =
  n_description :: string
  n_priority :: "int option"
  n_createdBy :: "string option"
  n_scheduledFor :: "int option"
  n_payload :: "string option"
  n_reason :: "string option"
  n_scheduledMessageId :: "int option"
  n_dependsOn :: "task_id list option"
  n_recurrenceInterval :: "int option"
  n_recurrenceUntil :: "int option"

definition createTask_row :: "task_id \<Rightarrow> int \<Rightarrow> new_task \<Rightarrow> task_row" where
  "createTask_row tid now n =
     \<lparr>t_id = tid,
      t_description = n_description n,
      t_status = T_pending,
      t_priority = nullish (n_priority n) 0,
      t_created_by = n_createdBy n,
      t_created_at = now,
      t_started_at = None,
      t_completed_at = None,
      t_result = None,
      t_error = None,
      t_scheduled_for = map_option secs (n_scheduledFor n),
      t_payload = n_payload n,
      t_reason = n_reason n,
      t_scheduled_message_id = n_scheduledMessageId n,
      t_recurrence_interval = n_recurrenceInterval n,
      t_recurrence_until = map_option secs (n_recurrenceUntil n)\<rparr>"

text \<open>What \<open>createTask\<close> returns is built from its argument, not read back from the table.\<close>

definition createTask_value :: "task_id \<Rightarrow> int \<Rightarrow> new_task \<Rightarrow> task" where
  "createTask_value tid now n =
     \<lparr>tk_id = tid,
      tk_description = n_description n,
      tk_status = T_pending,
      tk_priority = nullish (n_priority n) 0,
      tk_createdBy = n_createdBy n,
      tk_createdAt = now * 1000,
      tk_startedAt = None,
      tk_completedAt = None,
      tk_result = None,
      tk_error = None,
      tk_scheduledFor = n_scheduledFor n,
      tk_payload = n_payload n,
      tk_reason = n_reason n,
      tk_scheduledMessageId = n_scheduledMessageId n,
      tk_recurrenceInterval = n_recurrenceInterval n,
      tk_recurrenceUntil = n_recurrenceUntil n\<rparr>"

text \<open>
  The row is inserted first and the dependencies one by one after it, in no transaction: when an
  insertion throws, the row and the earlier dependencies stay.
\<close>

definition createTask ::
  "task_id \<Rightarrow> int \<Rightarrow> new_task \<Rightarrow> task_db \<Rightarrow> (task_error, task, task_db) outcome" where
  "createTask tid nowMs n db =
     (let now = secs nowMs in
      if getTask_row db tid \<noteq> None then throw (UniqueConstraint tid) db
      else
        let db1 = db\<lparr>tasks := tasks db @ [createTask_row tid now n]\<rparr> in
        case add_all addDependency tid (nullish (n_dependsOn n) []) db1 of
          (Inl e, db2) \<Rightarrow> throw e db2
        | (Inr _, db2) \<Rightarrow> ret (createTask_value tid now n) db2)"

record task_updates =
  u_description :: "string option"
  u_status :: "task_status option"
  u_priority :: "int option"
  u_result :: "string option"
  u_error :: "string option"
  u_scheduledMessageId :: "int option"

definition no_updates :: task_updates where
  "no_updates = \<lparr>u_description = None, u_status = None, u_priority = None, u_result = None,
                 u_error = None, u_scheduledMessageId = None\<rparr>"

definition terminal :: "task_status \<Rightarrow> bool" where
  "terminal s = (s \<in> {T_done, T_failed, T_cancelled})"

text \<open>The SET clause that \<open>updateTask\<close> assembles, from the task it read.\<close>

definition updateTask_set :: "task_updates \<Rightarrow> task \<Rightarrow> int \<Rightarrow> task_row \<Rightarrow> task_row" where
  "updateTask_set u tk now r =
     r\<lparr>t_description := nullish (u_description u) (t_description r),
       t_status := nullish (u_status u) (t_status r),
       t_started_at := (if u_status u = Some T_in_progress \<and> tk_startedAt tk = None
                        then Some now else t_started_at r),
       t_completed_at := (if (case u_status u of None \<Rightarrow> False | Some s \<Rightarrow> terminal s) \<and>
                             tk_completedAt tk = None
                          then Some now else t_completed_at r),
       t_priority := nullish (u_priority u) (t_priority r),
       t_result := (case u_result u of None \<Rightarrow> t_result r | Some x \<Rightarrow> Some x),
       t_error := (case u_error u of None \<Rightarrow> t_error r | Some x \<Rightarrow> Some x),
       t_scheduled_message_id :=
         (case u_scheduledMessageId u of None \<Rightarrow> t_scheduled_message_id r | Some x \<Rightarrow> Some x)\<rparr>"

definition updateTask :: "int \<Rightarrow> task_id \<Rightarrow> task_updates \<Rightarrow> task_db \<Rightarrow> task option \<times> task_db" where
  "updateTask nowMs taskId u db =
     (case getTask db taskId of
        None \<Rightarrow> (None, db)
      | Some tk \<Rightarrow>
          if u = no_updates then (Some tk, db)
          else
            let db' = db\<lparr>tasks := sql_update t_id taskId (updateTask_set u tk (secs nowMs)) (tasks db)\<rparr>
            in (getTask db' taskId, db'))"

definition deleteTask :: "task_id \<Rightarrow> task_db \<Rightarrow> bool \<times> task_db" where
  "deleteTask taskId db =
     (getTask_row db taskId \<noteq> None,
      \<lparr>tasks = sql_delete (\<lambda>r. t_id r = taskId) (tasks db),
       task_dependencies = filter (\<lambda>e. fst e \<noteq> taskId \<and> snd e \<noteq> taskId) (task_dependencies db)\<rparr>)"

definition completeTask :: "int \<Rightarrow> task_id \<Rightarrow> string option \<Rightarrow> task_db \<Rightarrow> task option \<times> task_db" where
  "completeTask now taskId result =
     updateTask now taskId (no_updates\<lparr>u_status := Some T_done, u_result := result\<rparr>)"

definition failTask :: "int \<Rightarrow> task_id \<Rightarrow> string \<Rightarrow> task_db \<Rightarrow> task option \<times> task_db" where
  "failTask now taskId err =
     updateTask now taskId (no_updates\<lparr>u_status := Some T_failed, u_error := Some err\<rparr>)"

definition startTask :: "int \<Rightarrow> task_id \<Rightarrow> task_db \<Rightarrow> task option \<times> task_db" where
  "startTask now taskId = updateTask now taskId (no_updates\<lparr>u_status := Some T_in_progress\<rparr>)"

text \<open>
  \<open>claimTask\<close> is one UPDATE with the status in its WHERE clause; it reports whether a row changed.
\<close>

definition claimTask :: "int \<Rightarrow> task_id \<Rightarrow> task_db \<Rightarrow> bool \<times> task_db" where
  "claimTask nowMs taskId db =
     (let claims = (\<lambda>r. t_id r = taskId \<and> t_status r = T_pending) in
      (filter claims (tasks db) \<noteq> [],
       db\<lparr>tasks := sql_update_where claims
            (\<lambda>r. r\<lparr>t_status := T_in_progress,
                    t_started_at := Some (nullish (t_started_at r) (secs nowMs))\<rparr>) (tasks db)\<rparr>))"

definition cancelTask :: "int \<Rightarrow> task_id \<Rightarrow> task_db \<Rightarrow> task option \<times> task_db" where
  "cancelTask now taskId db =
     (case getTask db taskId of
        None \<Rightarrow> (None, db)
      | Some tk \<Rightarrow>
          if terminal (tk_status tk) then (Some tk, db)
          else updateTask now taskId (no_updates\<lparr>u_status := Some T_cancelled\<rparr>) db)"

section \<open>The database invariant\<close>

text \<open>
  Task ids are unique, dependency rows are unique and name existing tasks, and no task depends on
  itself through any chain of rows.
\<close>

definition db_ok :: "task_db \<Rightarrow> bool" where
  "db_ok db \<longleftrightarrow>
     distinct (map t_id (tasks db)) \<and>
     distinct (task_dependencies db) \<and>
     (\<forall>(t, p) \<in> set (task_dependencies db). t \<in> t_id ` set (tasks db) \<and> p \<in> t_id ` set (tasks db)) \<and>
     acyclic (set (task_dependencies db))"

definition empty_task_db :: task_db where
  "empty_task_db = \<lparr>tasks = [], task_dependencies = []\<rparr>"

lemma db_ok_empty: "db_ok empty_task_db"
  by (simp add: db_ok_def empty_task_db_def acyclic_def)

text \<open>
  \<open>addDependency\<close> provides the interface of a guarded dependency store.
\<close>

interpretation task_deps: dag_store "\<lambda>db. set (task_dependencies db)" "\<lambda>_. True" addDependency
proof (unfold_locales, goal_cases)
  case (1 t p s u s')
  then show ?case
    by (auto simp: addDependency_def throw_def ret_def wouldCreateCycle_iff split: if_splits)
next
  case (2 t p s e s')
  then show ?case
    by (auto simp: addDependency_def throw_def ret_def split: if_splits)
qed

lemma tasks_addDependency [simp]: "tasks (snd (addDependency t p db)) = tasks db"
  by (simp add: addDependency_def)

lemma tasks_add_all [simp]: "tasks (snd (add_all addDependency t ps db)) = tasks db"
  by (rule add_all_inv [where I = "\<lambda>s. tasks s = tasks db"]) simp_all

lemma getTask_row_None_iff: "getTask_row db t = None \<longleftrightarrow> t \<notin> t_id ` set (tasks db)"
  by (simp add: getTask_row_def sql_get_None_iff)

lemma getTask_None_iff: "getTask db t = None \<longleftrightarrow> getTask_row db t = None"
  by (simp add: getTask_def)

lemma getTask_rowD: "getTask_row db t = Some r \<Longrightarrow> r \<in> set (tasks db) \<and> t_id r = t"
  unfolding getTask_row_def by (rule sql_get_SomeD)

lemma addDependency_cases:
  "snd (addDependency t p db) = db \<or>
   (t, p) \<notin> set (task_dependencies db) \<and> getTask_row db t \<noteq> None \<and> getTask_row db p \<noteq> None \<and>
   snd (addDependency t p db) = db\<lparr>task_dependencies := task_dependencies db @ [(t, p)]\<rparr>"
  by (simp add: addDependency_def)

lemma db_ok_addDependency:
  assumes "db_ok db"
  shows "db_ok (snd (addDependency t p db))"
proof -
  have ac: "acyclic (set (task_dependencies (snd (addDependency t p db))))"
    using assms by (intro task_deps.add_acyclic) (simp_all add: db_ok_def)
  from addDependency_cases [of t p db] show ?thesis
  proof (elim disjE conjE, goal_cases)
    case 1
    then show ?case using assms by simp
  next
    case 2
    then show ?case
      using assms ac by (simp add: db_ok_def getTask_row_None_iff)
  qed
qed

lemma updateTask_set_id [simp]: "t_id (updateTask_set u tk now r) = t_id r"
  by (simp add: updateTask_set_def)

lemma db_ok_cong:
  assumes "db_ok db" and "map t_id (tasks db') = map t_id (tasks db)"
    and "task_dependencies db' = task_dependencies db"
  shows "db_ok db'"
proof -
  have "t_id ` set (tasks db') = t_id ` set (tasks db)"
    using assms(2) by (metis set_map)
  then show ?thesis
    using assms by (simp add: db_ok_def)
qed

lemma map_t_id_update [simp]:
  "(\<And>r. t_id (f r) = t_id r) \<Longrightarrow> map t_id (sql_update_where p f rows) = map t_id rows"
  by (rule map_key_update_where)

lemma db_ok_updateTask: "db_ok db \<Longrightarrow> db_ok (snd (updateTask now t u db))"
  by (rule db_ok_cong [where db = db])
    (auto simp: updateTask_def sql_update_def Let_def split: option.split)

lemma db_ok_claimTask: "db_ok db \<Longrightarrow> db_ok (snd (claimTask now t db))"
  by (rule db_ok_cong [where db = db]) (auto simp: claimTask_def Let_def)

lemma db_ok_cancelTask: "db_ok db \<Longrightarrow> db_ok (snd (cancelTask now t db))"
  by (auto simp: cancelTask_def db_ok_updateTask split: option.split)

lemma db_ok_deleteTask:
  assumes "db_ok db"
  shows "db_ok (snd (deleteTask t db))"
proof -
  let ?db' = "snd (deleteTask t db)"
  have sub: "set (task_dependencies ?db') \<subseteq> set (task_dependencies db)"
    by (auto simp: deleteTask_def)
  have ids: "t_id ` set (tasks ?db') = t_id ` set (tasks db) - {t}"
    by (auto simp: deleteTask_def set_sql_delete)
  have other: "(a, b) \<in> set (task_dependencies ?db') \<Longrightarrow> a \<noteq> t \<and> b \<noteq> t" for a b
    by (auto simp: deleteTask_def)
  have "acyclic (set (task_dependencies ?db'))"
    using assms acyclic_subset [OF _ sub] by (simp add: db_ok_def)
  moreover have "distinct (map t_id (tasks ?db'))" and "distinct (task_dependencies ?db')"
    using assms by (simp_all add: db_ok_def deleteTask_def distinct_delete)
  moreover have "a \<in> t_id ` set (tasks ?db') \<and> b \<in> t_id ` set (tasks ?db')"
    if "(a, b) \<in> set (task_dependencies ?db')" for a b
    using that other [OF that] sub assms unfolding ids db_ok_def by blast
  ultimately show ?thesis unfolding db_ok_def by blast
qed

lemma tasks_createTask:
  "tasks (snd (createTask tid now n db)) =
   (if getTask_row db tid = None then tasks db @ [createTask_row tid (secs now) n] else tasks db)"
proof -
  let ?db1 = "db\<lparr>tasks := tasks db @ [createTask_row tid (secs now) n]\<rparr>"
  obtain r db2 where r: "add_all addDependency tid (nullish (n_dependsOn n) []) ?db1 = (r, db2)"
    by fastforce
  then have "tasks db2 = tasks ?db1"
    using tasks_add_all [of tid _ ?db1] by (metis snd_conv)
  with r show ?thesis
    by (simp add: createTask_def Let_def split: sum.split)
qed

lemma db_ok_createTask:
  assumes "db_ok db"
  shows "db_ok (snd (createTask tid now n db))"
proof (cases "getTask_row db tid = None")
  case True
  let ?db1 = "db\<lparr>tasks := tasks db @ [createTask_row tid (secs now) n]\<rparr>"
  have "db_ok ?db1"
    using assms True by (auto simp: db_ok_def getTask_row_None_iff createTask_row_def)
  then have "db_ok (snd (add_all addDependency tid (nullish (n_dependsOn n) []) ?db1))"
    by (rule add_all_inv [rotated]) (rule db_ok_addDependency)
  then show ?thesis
    using True by (auto simp: createTask_def Let_def split: prod.split sum.split)
next
  case False
  then show ?thesis using assms by (simp add: createTask_def)
qed

section \<open>Runs of the store\<close>

text \<open>
  The writing methods as calls, so that a run of the store (by the agent's tools, the scheduler
  and the resolver, in any order) is a list of calls. \<open>completeTask\<close>, \<open>failTask\<close> and \<open>startTask\<close>
  are calls of \<open>updateTask\<close>.
\<close>

datatype task_call =
    C_create task_id int new_task
  | C_depend task_id task_id
  | C_update int task_id task_updates
  | C_delete task_id
  | C_claim int task_id
  | C_cancel int task_id

fun task_exec :: "task_call \<Rightarrow> task_db \<Rightarrow> task_db" where
  "task_exec (C_create tid now n) db = snd (createTask tid now n db)"
| "task_exec (C_depend t p) db = snd (addDependency t p db)"
| "task_exec (C_update now t u) db = snd (updateTask now t u db)"
| "task_exec (C_delete t) db = snd (deleteTask t db)"
| "task_exec (C_claim now t) db = snd (claimTask now t db)"
| "task_exec (C_cancel now t) db = snd (cancelTask now t db)"

definition task_run :: "task_call list \<Rightarrow> task_db \<Rightarrow> task_db" where
  "task_run cs db = fold task_exec cs db"

inductive task_reachable :: "task_db \<Rightarrow> bool" where
  start: "task_reachable empty_task_db"
| step: "task_reachable db \<Longrightarrow> task_reachable (task_exec c db)"

lemma db_ok_exec: "db_ok db \<Longrightarrow> db_ok (task_exec c db)"
  by (cases c) (auto intro: db_ok_createTask db_ok_addDependency db_ok_updateTask
      db_ok_deleteTask db_ok_claimTask db_ok_cancelTask)

lemma task_reachable_run: "task_reachable db \<Longrightarrow> task_reachable (task_run cs db)"
  by (induction cs arbitrary: db) (auto simp: task_run_def intro: task_reachable.step)

lemma task_reachable_ok: "task_reachable db \<Longrightarrow> db_ok db"
  by (induction rule: task_reachable.induct) (auto intro: db_ok_empty db_ok_exec)

text \<open>
  C10. Whatever sequence of calls the store has served, its task ids and dependency rows are unique,
  every dependency row names two existing tasks, and the dependency graph has no cycle.
\<close>

theorem reachable_db_ok: "task_reachable db \<Longrightarrow> db_ok db"
  by (rule task_reachable_ok)

text \<open>
  \<open>addDependency\<close> throws its circular-dependency error exactly when the new parent already
  depends on the task, directly or through other tasks, or is the task itself.
\<close>

theorem addDependency_circular_iff:
  "fst (addDependency t p db) = Inl (CircularDependency t p) \<longleftrightarrow>
   (p, t) \<in> (set (task_dependencies db))\<^sup>*"
  by (simp add: addDependency_def wouldCreateCycle_iff)

section \<open>Claims\<close>

text \<open>A task is not up for claiming when no row of that id is pending.\<close>

definition not_pending :: "task_id \<Rightarrow> task_db \<Rightarrow> bool" where
  "not_pending t db = (\<forall>r \<in> set (tasks db). t_id r = t \<longrightarrow> t_status r \<noteq> T_pending)"

text \<open>The calls that make a task pending (again): its creation and an update to that status.\<close>

fun reopens :: "task_id \<Rightarrow> task_call \<Rightarrow> bool" where
  "reopens t (C_create t' _ _) = (t = t')"
| "reopens t (C_update _ t' u) = (t = t' \<and> u_status u = Some T_pending)"
| "reopens t _ = False"

lemma claimTask_won_iff: "fst (claimTask now t db) \<longleftrightarrow> \<not> not_pending t db"
  by (auto simp: claimTask_def not_pending_def Let_def filter_empty_conv)

lemma not_pending_claimed: "not_pending t (snd (claimTask now t db))"
  by (auto simp: claimTask_def not_pending_def Let_def)

lemma not_pending_update_where:
  assumes "not_pending t db"
    and "\<And>r. p r \<Longrightarrow> t_id (f r) = t_id r"
    and "\<And>r. p r \<Longrightarrow> t_id r = t \<Longrightarrow> t_status r \<noteq> T_pending \<Longrightarrow> t_status (f r) \<noteq> T_pending"
  shows "not_pending t (db\<lparr>tasks := sql_update_where p f (tasks db)\<rparr>)"
  using assms by (auto simp: not_pending_def)

lemma not_pending_updateTask:
  assumes "not_pending t db" and "\<not> (t = t' \<and> u_status u = Some T_pending)"
  shows "not_pending t (snd (updateTask now t' u db))"
proof (cases "getTask db t'")
  case None
  then show ?thesis using assms(1) by (simp add: updateTask_def)
next
  case (Some tk)
  have "not_pending t (db\<lparr>tasks := sql_update_where (\<lambda>r. t_id r = t')
          (updateTask_set u tk (secs now)) (tasks db)\<rparr>)"
    using assms by (intro not_pending_update_where; cases "u_status u")
      (auto simp: updateTask_set_def)
  then show ?thesis
    using Some assms(1) by (simp add: updateTask_def Let_def sql_update_def)
qed

lemma not_pending_exec:
  assumes "not_pending t db" and "\<not> reopens t c"
  shows "not_pending t (task_exec c db)"
proof (cases c)
  case (C_create t' now n)
  then show ?thesis
    using assms by (auto simp: not_pending_def tasks_createTask createTask_row_def)
next
  case (C_depend t' p)
  then show ?thesis using assms by (simp add: not_pending_def)
next
  case (C_update now t' u)
  then show ?thesis using assms not_pending_updateTask by simp
next
  case (C_delete t')
  then show ?thesis using assms by (simp add: not_pending_def deleteTask_def set_sql_delete)
next
  case (C_claim now t')
  then show ?thesis
    using assms by (auto simp: claimTask_def Let_def intro!: not_pending_update_where)
next
  case (C_cancel now t')
  have "not_pending t (snd (updateTask now t' (no_updates\<lparr>u_status := Some T_cancelled\<rparr>) db))"
    by (rule not_pending_updateTask) (simp_all add: assms)
  then show ?thesis
    using assms C_cancel by (auto simp: cancelTask_def split: option.split)
qed

lemma not_pending_run:
  "not_pending t db \<Longrightarrow> \<forall>c \<in> set cs. \<not> reopens t c \<Longrightarrow> not_pending t (task_run cs db)"
  by (induction cs arbitrary: db) (auto simp: task_run_def intro: not_pending_exec)

text \<open>
  C23. A task is claimed once. After a claim that won, every later claim of the same task loses,
  whatever other calls the store serves in between, unless one of them creates the task again or
  explicitly sets it back to pending.
\<close>

theorem claim_once:
  assumes "fst (claimTask now1 t db)"
    and "\<forall>c \<in> set cs. \<not> reopens t c"
  shows "\<not> fst (claimTask now2 t (task_run cs (snd (claimTask now1 t db))))"
  using not_pending_run [OF not_pending_claimed assms(2)] by (simp add: claimTask_won_iff)

section \<open>Executability\<close>

lemma sql_get_t_id_Some_iff:
  "db_ok db \<Longrightarrow> getTask_row db t = Some r \<longleftrightarrow> r \<in> set (tasks db) \<and> t_id r = t"
  unfolding getTask_row_def db_ok_def by (rule sql_get_Some_iff) simp

text \<open>
  In every reachable database, \<open>canExecute\<close> holds exactly when each task that the given task
  depends on exists and is done.
\<close>

theorem canExecute_iff:
  assumes "task_reachable db"
  shows "canExecute db t \<longleftrightarrow>
         (\<forall>p. (t, p) \<in> set (task_dependencies db) \<longrightarrow>
              (\<exists>r \<in> set (tasks db). t_id r = p \<and> t_status r = T_done))"
proof -
  have ok: "db_ok db" using assms by (rule task_reachable_ok)
  have "canExecute db t \<longleftrightarrow>
        (\<forall>p. (t, p) \<in> set (task_dependencies db) \<longrightarrow>
             (\<exists>r. getTask_row db p = Some r \<and> t_status r = T_done))"
    by (auto simp: canExecute_def pending_count_def filter_empty_conv getDependencies_def
        split: option.splits)
  then show ?thesis
    using sql_get_t_id_Some_iff [OF ok] by blast
qed

section \<open>Creating a task\<close>

lemma createTask_Inr:
  assumes "createTask tid now n db = (Inr tk, db')"
  shows "getTask_row db tid = None \<and> tk = createTask_value tid (secs now) n \<and>
         getTask_row db' tid = Some (createTask_row tid (secs now) n) \<and>
         set (task_dependencies db') =
           set (task_dependencies db) \<union> {tid} \<times> set (nullish (n_dependsOn n) [])"
proof -
  let ?ps = "nullish (n_dependsOn n) []"
  let ?db1 = "db\<lparr>tasks := tasks db @ [createTask_row tid (secs now) n]\<rparr>"
  have new: "getTask_row db tid = None"
    using assms by (auto simp: createTask_def throw_def Let_def split: if_splits)
  obtain r db2 where r: "add_all addDependency tid ?ps ?db1 = (r, db2)"
    by fastforce
  then obtain u where u: "r = Inr u" and tk: "tk = createTask_value tid (secs now) n" and db2: "db2 = db'"
    using assms new by (auto simp: createTask_def throw_def ret_def Let_def split: sum.splits)
  have "tasks db' = tasks ?db1"
    using tasks_add_all [of tid ?ps ?db1] r db2 by simp
  then have "getTask_row db' tid = Some (createTask_row tid (secs now) n)"
    using new by (simp add: getTask_row_def createTask_row_def)
  then show ?thesis
    using new tk task_deps.add_all_ok [OF TrueI r [unfolded u db2]] by simp
qed

text \<open>
  A task that \<open>createTask\<close> returns is stored: reading it back gives the returned task, pending and
  not started, with its two dates cut down to whole seconds, and its dependency rows are exactly
  the requested parents.
\<close>

theorem createTask_roundtrip:
  assumes "createTask tid now n db = (Inr tk, db')"
  shows "getTask db' tid =
           Some (tk\<lparr>tk_scheduledFor := date_of (map_option secs (tk_scheduledFor tk)),
                    tk_recurrenceUntil := date_of (map_option secs (tk_recurrenceUntil tk))\<rparr>) \<and>
         set (task_dependencies db') =
           set (task_dependencies db) \<union> {tid} \<times> set (nullish (n_dependsOn n) [])"
  using createTask_Inr [OF assms]
  by (simp add: getTask_def rowToTask_def createTask_row_def createTask_value_def)

text \<open>
  \<open>createTask\<close> is not atomic: when a dependency cannot be added, the call throws but the pending
  task stays in the table.
\<close>

theorem createTask_error_keeps_row:
  assumes "createTask tid now n db = (Inl e, db')" and "getTask_row db tid = None"
  shows "getTask_row db' tid = Some (createTask_row tid (secs now) n)"
proof -
  have "tasks db' = tasks db @ [createTask_row tid (secs now) n]"
    using tasks_createTask [of tid now n db] assms by simp
  then show ?thesis
    using assms(2) by (simp add: getTask_row_def createTask_row_def)
qed

section \<open>Due tasks\<close>

text \<open>
  \<open>getDueTasks\<close> returns the tasks of exactly those rows that are pending and whose scheduled time
  has come, by descending priority and, within a priority, by ascending scheduled time.
\<close>

theorem getDueTasks_correct:
  "\<exists>rows. getDueTasks db now = map rowToTask rows \<and>
          set rows = {r \<in> set (tasks db). is_due now r} \<and>
          sorted_wrt (\<lambda>r r'. t_priority r' < t_priority r \<or>
                             t_priority r = t_priority r' \<and>
                             the (t_scheduled_for r) \<le> the (t_scheduled_for r')) rows"
proof -
  let ?g = "\<lambda>r. the (t_scheduled_for r)"
  let ?rows = "order_desc t_priority (order_asc ?g (filter (is_due now) (tasks db)))"
  have "sorted_wrt (lex_le (\<lambda>r. - t_priority r) ?g) ?rows"
    by (rule sorted_wrt_order_desc_asc)
  then have "sorted_wrt (\<lambda>r r'. t_priority r' < t_priority r \<or>
                t_priority r = t_priority r' \<and> ?g r \<le> ?g r') ?rows"
    by (rule sorted_wrt_mono_rel [rotated]) (auto simp: lex_le_def)
  then show ?thesis
    by (intro exI [of _ ?rows]) (auto simp: getDueTasks_def)
qed

section \<open>Examples\<close>

definition example_new_task :: new_task where
  "example_new_task = \<lparr>n_description = ''report'', n_priority = None, n_createdBy = None,
     n_scheduledFor = Some 5500, n_payload = None, n_reason = None, n_scheduledMessageId = None,
     n_dependsOn = None, n_recurrenceInterval = None, n_recurrenceUntil = None\<rparr>"

text \<open>Two tasks, the second depending on the first.\<close>

definition example_calls :: "task_call list" where
  "example_calls = [C_create ''a'' 1000 example_new_task,
     C_create ''b'' 2000 (example_new_task\<lparr>n_dependsOn := Some [''a'']\<rparr>)]"

definition example_db :: task_db where
  "example_db = task_run example_calls empty_task_db"

lemma example_reachable: "task_reachable example_db"
  unfolding example_db_def by (rule task_reachable_run) (rule task_reachable.start)

theorem reachable_db_ok_witness:
  "db_ok example_db \<and> task_dependencies example_db = [(''b'', ''a'')]"
  using reachable_db_ok [OF example_reachable] by (intro conjI) (assumption, code_simp)

theorem claim_once_witness:
  "fst (claimTask 3000 ''a'' example_db) \<and>
   \<not> fst (claimTask 5000 ''a'' (task_run [C_claim 4000 ''b'', C_cancel 4500 ''a'']
            (snd (claimTask 3000 ''a'' example_db))))"
proof -
  have won: "fst (claimTask 3000 ''a'' example_db)" by code_simp
  show ?thesis
    using claim_once [OF won, of "[C_claim 4000 ''b'', C_cancel 4500 ''a'']" 5000] won by simp
qed

theorem canExecute_iff_witness:
  "\<not> canExecute example_db ''b'' \<and>
   canExecute (task_run (example_calls @ [C_update 9000 ''a'' (no_updates\<lparr>u_status := Some T_done\<rparr>)])
                empty_task_db) ''b''"
proof -
  have dep: "(''b'', ''a'') \<in> set (task_dependencies example_db)" by code_simp
  have "\<not> (\<exists>r \<in> set (tasks example_db). t_id r = ''a'' \<and> t_status r = T_done)" by code_simp
  then have "\<not> canExecute example_db ''b''"
    using canExecute_iff [OF example_reachable, of "''b''"] dep by blast
  moreover have "canExecute (task_run (example_calls @
      [C_update 9000 ''a'' (no_updates\<lparr>u_status := Some T_done\<rparr>)]) empty_task_db) ''b''"
    by code_simp
  ultimately show ?thesis by simp
qed

theorem createTask_roundtrip_witness:
  "map_option tk_scheduledFor (getTask (task_exec (C_create ''c'' 3000 example_new_task) example_db) ''c'') =
     Some (Some 5000)"
proof -
  have "createTask ''c'' 3000 example_new_task example_db =
        (Inr (createTask_value ''c'' 3 example_new_task),
         task_exec (C_create ''c'' 3000 example_new_task) example_db)"
    by code_simp
  from createTask_roundtrip [OF this] show ?thesis
    by (simp add: createTask_value_def example_new_task_def secs_def)
qed

text \<open>
  The missing parent ''x'' of the new task makes \<open>createTask\<close> throw; the task stays, and since no
  dependency row was written it can execute.
\<close>

definition orphan_task :: new_task where
  "orphan_task = example_new_task\<lparr>n_dependsOn := Some [''x'']\<rparr>"

theorem createTask_error_keeps_row_witness:
  "fst (createTask ''c'' 3000 orphan_task example_db) = Inl (ForeignKeyConstraint ''c'' ''x'') \<and>
   getTask_row (snd (createTask ''c'' 3000 orphan_task example_db)) ''c'' =
     Some (createTask_row ''c'' 3 orphan_task) \<and>
   canExecute (snd (createTask ''c'' 3000 orphan_task example_db)) ''c''"
proof -
  have err: "fst (createTask ''c'' 3000 orphan_task example_db) = Inl (ForeignKeyConstraint ''c'' ''x'')"
    by code_simp
  then have "createTask ''c'' 3000 orphan_task example_db =
    (Inl (ForeignKeyConstraint ''c'' ''x''), snd (createTask ''c'' 3000 orphan_task example_db))"
    by (simp add: prod_eq_iff)
  moreover have "getTask_row example_db ''c'' = None" by code_simp
  ultimately have "getTask_row (snd (createTask ''c'' 3000 orphan_task example_db)) ''c'' =
      Some (createTask_row ''c'' (secs 3000) orphan_task)"
    by (rule createTask_error_keeps_row)
  moreover have "canExecute (snd (createTask ''c'' 3000 orphan_task example_db)) ''c''" by code_simp
  ultimately show ?thesis using err by (simp add: secs_def)
qed

end
