(* ===== verification/JsNumber.thy ===== *)
theory JsNumber
  imports Complex_Main "HOL-Library.Log_Nat"
begin

text \<open>
  JavaScript numbers, as far as the program computes with them: binary64 values without the sign of
  zero. A finite number is the rational it denotes; a sum, a difference or a quotient is the exact
  result rounded by \<open>fl\<close>, IEEE 754 round to nearest, ties to even, with gradual underflow and
  overflow to an infinity. Comparisons with NaN are false, as in the language.
\<close>

datatype js_num = NaN | NegInf | PosInf | Num rat

section \<open>Rounding to binary64\<close>

definition pow2 :: "int \<Rightarrow> rat" where
  "pow2 e = (if 0 \<le> e then 2 ^ nat e else 1 / 2 ^ nat (- e))"

text \<open>\<open>ilog2 x\<close> is the exponent of the leading bit of a positive \<open>x\<close>.\<close>

definition ilog2 :: "rat \<Rightarrow> int" where
  "ilog2 x = (let (n, d) = quotient_of x;
                  k = int (floorlog 2 (nat n)) - int (floorlog 2 (nat d))
              in if pow2 k * of_int d \<le> of_int n then k else k - 1)"

definition round_even :: "rat \<Rightarrow> int" where
  "round_even y = (let f = \<lfloor>y\<rfloor>; r = y - of_int f
                   in if r < 1 / 2 then f else if 1 / 2 < r then f + 1
                      else if even f then f else f + 1)"

definition fl :: "rat \<Rightarrow> js_num" where
  "fl x = (if x = 0 then Num 0
           else let e = max (-1074) (ilog2 \<bar>x\<bar> - 52);
                    y = of_int (round_even (x / pow2 e)) * pow2 e
                in if 2 ^ 1024 \<le> y then PosInf else if y \<le> - (2 ^ 1024) then NegInf else Num y)"

section \<open>Operators\<close>

fun js_lt :: "js_num \<Rightarrow> js_num \<Rightarrow> bool" where
  "js_lt (Num a) (Num b) = (a < b)"
| "js_lt NegInf (Num b) = True"
| "js_lt NegInf PosInf = True"
| "js_lt (Num a) PosInf = True"
| "js_lt _ _ = False"

fun js_le :: "js_num \<Rightarrow> js_num \<Rightarrow> bool" where
  "js_le (Num a) (Num b) = (a \<le> b)"
| "js_le NegInf (Num b) = True"
| "js_le NegInf NegInf = True"
| "js_le NegInf PosInf = True"
| "js_le (Num a) PosInf = True"
| "js_le PosInf PosInf = True"
| "js_le _ _ = False"

definition js_gt :: "js_num \<Rightarrow> js_num \<Rightarrow> bool" where
  "js_gt a b = js_lt b a"

definition js_ge :: "js_num \<Rightarrow> js_num \<Rightarrow> bool" where
  "js_ge a b = js_le b a"

fun js_isFinite :: "js_num \<Rightarrow> bool" where
  "js_isFinite (Num _) = True"
| "js_isFinite _ = False"

fun js_add :: "js_num \<Rightarrow> js_num \<Rightarrow> js_num" where
  "js_add (Num a) (Num b) = fl (a + b)"
| "js_add NaN _ = NaN"
| "js_add _ NaN = NaN"
| "js_add PosInf NegInf = NaN"
| "js_add NegInf PosInf = NaN"
| "js_add PosInf _ = PosInf"
| "js_add _ PosInf = PosInf"
| "js_add NegInf _ = NegInf"
| "js_add _ NegInf = NegInf"

fun js_neg :: "js_num \<Rightarrow> js_num" where
  "js_neg (Num a) = Num (- a)"
| "js_neg PosInf = NegInf"
| "js_neg NegInf = PosInf"
| "js_neg NaN = NaN"

definition js_sub :: "js_num \<Rightarrow> js_num \<Rightarrow> js_num" where
  "js_sub a b = js_add a (js_neg b)"

text \<open>An infinite result with the sign of \<open>x\<close>; infinity times or divided into zero is NaN.\<close>

definition js_inf :: "rat \<Rightarrow> js_num" where
  "js_inf x = (if x = 0 then NaN else if 0 < x then PosInf else NegInf)"

fun js_sign :: "js_num \<Rightarrow> rat" where
  "js_sign (Num a) = sgn a"
| "js_sign PosInf = 1"
| "js_sign NegInf = -1"
| "js_sign NaN = 0"

fun js_mul :: "js_num \<Rightarrow> js_num \<Rightarrow> js_num" where
  "js_mul (Num a) (Num b) = fl (a * b)"
| "js_mul NaN _ = NaN"
| "js_mul _ NaN = NaN"
| "js_mul a b = js_inf (js_sign a * js_sign b)"

text \<open>A zero divisor counts as positive.\<close>

fun js_div :: "js_num \<Rightarrow> js_num \<Rightarrow> js_num" where
  "js_div (Num a) (Num b) = (if b = 0 then js_inf a else fl (a / b))"
| "js_div NaN _ = NaN"
| "js_div _ NaN = NaN"
| "js_div (Num _) _ = Num 0"
| "js_div a (Num b) = js_inf (js_sign a * (if b = 0 then 1 else sgn b))"
| "js_div _ _ = NaN"

text \<open>\<open>Math.round\<close>, and a number as a condition.\<close>

fun js_round :: "js_num \<Rightarrow> js_num" where
  "js_round (Num a) = Num (of_int \<lfloor>a + 1 / 2\<rfloor>)"
| "js_round a = a"

definition js_truthy :: "js_num \<Rightarrow> bool" where
  "js_truthy a = (a \<noteq> NaN \<and> a \<noteq> Num 0)"

text \<open>An integer value, and the quotient of an integer by a positive integer constant.\<close>

abbreviation js_int :: "int \<Rightarrow> js_num" where
  "js_int n \<equiv> Num (of_int n)"

definition js_int_div :: "int \<Rightarrow> int \<Rightarrow> js_num" where
  "js_int_div n d = fl (of_int n / of_int d)"

section \<open>Facts\<close>

lemma not_js_lt: "\<not> js_gt a b \<Longrightarrow> a \<noteq> NaN \<Longrightarrow> b \<noteq> NaN \<Longrightarrow> js_le a b"
  by (cases a; cases b) (auto simp: js_gt_def)

lemma js_le_trans: "js_le a b \<Longrightarrow> js_le b c \<Longrightarrow> js_le a c"
  by (cases a; cases b; cases c) auto

lemma js_lt_not_le: "js_lt a b \<Longrightarrow> \<not> js_le b a"
  by (cases a; cases b) auto

lemma round_even_int [simp]: "round_even (of_int n) = n"
  by (simp add: round_even_def)

lemma pow2_pos: "0 < pow2 e"
  by (simp add: pow2_def)

lemma round_even_error: "\<bar>of_int (round_even y) - y\<bar> \<le> 1 / 2"
proof -
  have "of_int \<lfloor>y\<rfloor> \<le> y" and "y < of_int \<lfloor>y\<rfloor> + 1"
    using floor_correct [of y] by simp_all
  then show ?thesis
    by (auto simp: round_even_def Let_def abs_le_iff)
qed

lemma round_even_mono: "x \<le> y \<Longrightarrow> round_even x \<le> round_even y"
proof -
  assume "x \<le> y"
  then have f: "\<lfloor>x\<rfloor> \<le> \<lfloor>y\<rfloor>" by (rule floor_mono)
  show ?thesis
  proof (cases "\<lfloor>x\<rfloor> = \<lfloor>y\<rfloor>")
    case True
    then show ?thesis
      using \<open>x \<le> y\<close> by (auto simp: round_even_def Let_def)
  next
    case False
    with f have "\<lfloor>x\<rfloor> + 1 \<le> \<lfloor>y\<rfloor>" by linarith
    moreover have "round_even x \<le> \<lfloor>x\<rfloor> + 1" and "\<lfloor>y\<rfloor> \<le> round_even y"
      by (auto simp: round_even_def Let_def)
    ultimately show ?thesis by linarith
  qed
qed

lemma ilog2_int_bound:
  assumes "0 < n" and "n < 2 ^ 53"
  shows "ilog2 (of_int n) \<le> 52"
proof -
  have "nat n < 2 ^ 53"
    using assms by (simp add: nat_less_iff)
  then have "floorlog 2 (nat n) \<le> 53"
    by (intro floorlog_leI) auto
  moreover have "floorlog 2 (1::nat) = 1"
    by (simp add: floorlog_def)
  ultimately show ?thesis
    using assms by (auto simp: ilog2_def Let_def)
qed

text \<open>Rounding leaves every integer below \<open>2 ^ 53\<close> alone: counters and millisecond times are exact.\<close>

lemma fl_int:
  assumes "\<bar>n\<bar> < 2 ^ 53"
  shows "fl (of_int n) = js_int n"
proof (cases "n = 0")
  case True
  then show ?thesis by (simp add: fl_def)
next
  case False
  define e where "e = max (-1074) (ilog2 \<bar>of_int n\<bar> - 52)"
  have "\<bar>of_int n\<bar> = (of_int \<bar>n\<bar> :: rat)" by simp
  then have "ilog2 \<bar>of_int n\<bar> \<le> 52"
    using ilog2_int_bound [of "\<bar>n\<bar>"] False assms by simp
  then have e: "e \<le> 0" by (simp add: e_def)
  have "of_int n / pow2 e = (of_int (n * 2 ^ nat (- e)) :: rat)"
    using e by (auto simp: pow2_def)
  then have r: "of_int (round_even (of_int n / pow2 e)) * pow2 e = (of_int n :: rat)"
    using pow2_pos [of e] by (metis nonzero_mult_div_cancel_left round_even_int
        times_divide_eq_left less_numeral_extra(3) mult.commute nonzero_eq_divide_eq)
  have "\<bar>of_int n\<bar> < (2 ^ 53 :: rat)"
    using assms by (metis of_int_abs of_int_less_iff of_int_numeral of_int_power)
  also have "(2 ^ 53 :: rat) \<le> 2 ^ 1024"
    by (rule power_increasing) auto
  finally have "\<not> 2 ^ 1024 \<le> (of_int n :: rat)" and "\<not> of_int n \<le> - (2 ^ 1024 :: rat)"
    by linarith+
  then show ?thesis
    using False r by (simp add: fl_def Let_def e_def [symmetric])
qed

text \<open>For evaluation: such an integer needs no rounding.\<close>

definition fl_rounded :: "rat \<Rightarrow> js_num" where
  "fl_rounded = fl"

lemma not_huge: "\<bar>y\<bar> \<le> 9007199254740992 \<Longrightarrow> \<not> 2 ^ 1024 \<le> y \<and> \<not> y \<le> - (2 ^ 1024 :: rat)"
proof -
  assume y: "\<bar>y\<bar> \<le> 9007199254740992"
  have "(9007199254740992 :: rat) < 2 ^ 54" by simp
  also have "(2 ^ 54 :: rat) \<le> 2 ^ 1024" by (rule power_increasing) auto
  finally show ?thesis using y by linarith
qed

lemma fl_rounded_code [code]:
  "fl_rounded x = (if x = 0 then Num 0
     else let e = max (-1074) (ilog2 \<bar>x\<bar> - 52);
              y = of_int (round_even (x / pow2 e)) * pow2 e
          in if \<bar>y\<bar> \<le> 9007199254740992 then Num y
             else if 2 ^ 1024 \<le> y then PosInf else if y \<le> - (2 ^ 1024) then NegInf else Num y)"
  using not_huge by (simp add: fl_rounded_def fl_def Let_def)

lemma pow2_code [code]:
  "pow2 e = (if 0 \<le> e then of_int (2 ^ nat e) else 1 / of_int (2 ^ nat (- e)))"
  by (simp add: pow2_def)

lemma fl_code [code]:
  "fl x = (if of_int \<lfloor>x\<rfloor> = x \<and> \<bar>\<lfloor>x\<rfloor>\<bar> < 9007199254740992 then Num x else fl_rounded x)"
proof (cases "of_int \<lfloor>x\<rfloor> = x \<and> \<bar>\<lfloor>x\<rfloor>\<bar> < 9007199254740992")
  case True
  then show ?thesis using fl_int [of "\<lfloor>x\<rfloor>"] by auto
next
  case False
  then show ?thesis by (simp only: fl_rounded_def if_False)
qed

text \<open>The length of a positive integer in binary, on integers.\<close>

function int_bits :: "int \<Rightarrow> int" where
  "int_bits n = (if n \<le> 0 then 0 else 1 + int_bits (n div 2))"
  by auto
termination by (relation "measure nat") auto

declare int_bits.simps [simp del]

lemma int_bits_floorlog: "int_bits n = int (floorlog 2 (nat n))"
proof (induction n rule: int_bits.induct)
  case (1 n)
  then show ?case
    by (simp add: int_bits.simps [of n] compute_floorlog [of 2 "nat n"] nat_div_distrib)
qed

lemma ilog2_code [code]:
  "ilog2 x = (let (n, d) = quotient_of x; k = int_bits n - int_bits d
              in if pow2 k * of_int d \<le> of_int n then k else k - 1)"
  by (simp add: ilog2_def int_bits_floorlog)

end
