(* ===== verification/Json.thy ===== *)
theory Json
  imports JsNumber
begin

text \<open>
  JSON values, as \<open>JSON.parse\<close> returns them; an object is the list of its members with distinct
  names. A TEXT column that holds JSON is modelled by what \<open>JSON.parse\<close> makes of it: a value, or a
  text that does not parse (\<open>safeJSONParse\<close> in src/memory/agent/autonomous-tasks.ts).
\<close>

datatype json =
    JNull
  | JBool bool
  | JNum js_num
  | JStr string
  | JArr "json list"
  | JObj "(string \<times> json) list"

text \<open>\<open>v.name\<close>: undefined (None) when the member is missing or \<open>v\<close> is no object; null throws.\<close>

fun json_member :: "json \<Rightarrow> string \<Rightarrow> json option" where
  "json_member (JObj kvs) name = map_of kvs name"
| "json_member _ name = None"

text \<open>\<open>{ ...a, ...b }\<close>: the members of \<open>b\<close> win, those of \<open>a\<close> keep their place.\<close>

fun spread1 :: "(string \<times> json) list \<Rightarrow> string \<times> json \<Rightarrow> (string \<times> json) list" where
  "spread1 [] m = [m]"
| "spread1 (k # ks) m = (if fst k = fst m then m # ks else k # spread1 ks m)"

definition spread :: "(string \<times> json) list \<Rightarrow> (string \<times> json) list \<Rightarrow> (string \<times> json) list" where
  "spread a b = foldl spread1 a b"

datatype 'a json_text = Text 'a | Corrupt

definition safeJSONParse :: "'a json_text \<Rightarrow> 'a \<Rightarrow> 'a" where
  "safeJSONParse value fallback = (case value of Text v \<Rightarrow> v | Corrupt \<Rightarrow> fallback)"

lemma map_of_spread1: "map_of (spread1 a m) k = (if k = fst m then Some (snd m) else map_of a k)"
  by (induction a) auto

lemma map_of_spread:
  "distinct (map fst b) \<Longrightarrow>
   map_of (spread a b) k = (case map_of b k of Some v \<Rightarrow> Some v | None \<Rightarrow> map_of a k)"
proof (induction b arbitrary: a)
  case Nil
  then show ?case by (simp add: spread_def)
next
  case (Cons m b)
  have "spread a (m # b) = spread (spread1 a m) b" by (simp add: spread_def)
  moreover have "map_of b (fst m) = None"
    using Cons.prems by (simp add: map_of_eq_None_iff)
  moreover have "map_of (spread (spread1 a m) b) k =
      (case map_of b k of Some v \<Rightarrow> Some v | None \<Rightarrow> map_of (spread1 a m) k)"
    using Cons by simp
  moreover have "map_of (m # b) k = (if k = fst m then Some (snd m) else map_of b k)"
    by (cases m) simp
  ultimately show ?case
    by (auto simp: map_of_spread1 split: option.split)
qed

section \<open>JSON.stringify\<close>

text \<open>What a value becomes on its way through \<open>JSON.stringify\<close> and \<open>JSON.parse\<close>: non-finite numbers are null.\<close>

fun jsonify :: "json \<Rightarrow> json" where
  "jsonify (JNum n) = (if js_isFinite n then JNum n else JNull)"
| "jsonify (JArr xs) = JArr (map jsonify xs)"
| "jsonify (JObj kvs) = JObj (map (\<lambda>(k, v). (k, jsonify v)) kvs)"
| "jsonify j = j"

text \<open>A field of a parsed object: missing, null, or a value.\<close>

datatype 'a jsval = Undefined | Null | Val 'a

fun coalesce :: "'a jsval \<Rightarrow> 'a \<Rightarrow> 'a" where
  "coalesce (Val x) d = x"
| "coalesce _ d = d"

fun jsonify_num :: "js_num jsval \<Rightarrow> js_num jsval" where
  "jsonify_num (Val n) = (if js_isFinite n then Val n else Null)"
| "jsonify_num v = v"

section \<open>Message texts\<close>

text \<open>
  A text built by template literals is the list of its pieces: literal text, numbers as
  \<open>String(n)\<close> writes them or as \<open>n.toFixed(d)\<close> does (with trailing zeros or without), TON amounts as \<open>formatTon\<close> writes them, and JSON as \<open>JSON.stringify\<close>
  writes it. How a number is written is not modelled.
\<close>

datatype piece = S string | N js_num | Fixed nat js_num | Trimmed nat js_num | TON js_num | J json

type_synonym msg = "piece list"

text \<open>\<open>texts.join("; ")\<close>\<close>

fun join_texts :: "msg list \<Rightarrow> msg" where
  "join_texts [] = []"
| "join_texts [t] = t"
| "join_texts (t # ts) = t @ [S ''; ''] @ join_texts ts"

end
