(* ===== verification/TaskResolver.thy ===== *)
theory TaskResolver
  imports TaskStore Json "HOL-Library.Sublist"
begin

text \<open>
  What runs when a task ends: \<open>TaskDependencyResolver\<close> of src/telegram/task-dependency-resolver.ts,
  which triggers the dependents of a completed task and cancels those of a failed one, and the tick
  of \<open>TaskScheduler\<close> in src/services/task-scheduler.ts.

  The Telegram bridge and everything else that may run while a handler awaits it is an argument: an
  await is a function on the clock and the database, which may do anything to both. \<open>sanitize\<close> is
  \<open>sanitizeTaskDescription\<close>, \<open>parse\<close> is \<open>JSON.parse\<close> (None where it throws). Code between two awaits
  runs at one instant of the clock.
\<close>

definition MAX_DEPENDENTS_PER_TASK :: nat where
  "MAX_DEPENDENTS_PER_TASK = 10"

definition MAX_CASCADE_DEPTH :: nat where
  "MAX_CASCADE_DEPTH = 20"

section \<open>Failure: the cascade\<close>

text \<open>
  A dependent is skipped unless its payload is an object whose \<open>skipOnParentFailure\<close> is false. An
  empty payload is falsy; a payload that does not parse, or is null (the member access throws inside
  the try block), leaves the default.
\<close>

definition skipOnFailure :: "(string \<Rightarrow> json option) \<Rightarrow> string option \<Rightarrow> bool" where
  "skipOnFailure parse payload =
     (case payload of
        None \<Rightarrow> True
      | Some txt \<Rightarrow>
          if txt = [] then True
          else (case parse txt of
                  None \<Rightarrow> True
                | Some j \<Rightarrow> json_member j ''skipOnParentFailure'' \<noteq> Some (JBool False)))"

text \<open>The loop over the dependents; \<open>cascade\<close> is the recursive call with the next depth.\<close>

fun cancel_dependents ::
  "(task_id \<Rightarrow> task_db \<Rightarrow> task_db) \<Rightarrow> (string \<Rightarrow> json option) \<Rightarrow> int \<Rightarrow> task_id list \<Rightarrow> task_db \<Rightarrow> task_db"
where
  "cancel_dependents cascade parse now [] db = db"
| "cancel_dependents cascade parse now (depId # rest) db =
     (case getTask db depId of
        None \<Rightarrow> cancel_dependents cascade parse now rest db
      | Some tk \<Rightarrow>
          if tk_status tk \<noteq> T_pending then cancel_dependents cascade parse now rest db
          else if skipOnFailure parse (tk_payload tk)
          then cancel_dependents cascade parse now rest (cascade depId (snd (cancelTask now depId db)))
          else cancel_dependents cascade parse now rest db)"

text \<open>\<open>left\<close> is \<open>MAX_CASCADE_DEPTH\<close> minus the depth argument of the method; at 0 the method returns.\<close>

fun onTaskFail_at :: "(string \<Rightarrow> json option) \<Rightarrow> int \<Rightarrow> nat \<Rightarrow> task_id \<Rightarrow> task_db \<Rightarrow> task_db" where
  "onTaskFail_at parse now 0 failedTaskId db = db"
| "onTaskFail_at parse now (Suc left) failedTaskId db =
     cancel_dependents (onTaskFail_at parse now left) parse now
       (take MAX_DEPENDENTS_PER_TASK (getDependents db failedTaskId)) db"

definition onTaskFail :: "(string \<Rightarrow> json option) \<Rightarrow> int \<Rightarrow> task_id \<Rightarrow> task_db \<Rightarrow> task_db" where
  "onTaskFail parse now = onTaskFail_at parse now MAX_CASCADE_DEPTH"

section \<open>Completion: triggering dependents\<close>

text \<open>
  The dependents that are triggered, all decided before the first await: of the first
  \<open>MAX_DEPENDENTS_PER_TASK\<close> dependents those that exist, are pending and can execute.
\<close>

definition tasksToTrigger :: "task_db \<Rightarrow> task_id \<Rightarrow> task_id list" where
  "tasksToTrigger db completedTaskId =
     filter (\<lambda>depId. case getTask db depId of
                        None \<Rightarrow> False
                      | Some tk \<Rightarrow> tk_status tk = T_pending \<and> canExecute db depId)
       (take MAX_DEPENDENTS_PER_TASK (getDependents db completedTaskId))"

text \<open>Decimal digits of an id, as \<open>String(adminId)\<close> writes them.\<close>

fun show_nat :: "nat \<Rightarrow> string" where
  "show_nat n = (if n < 10 then [char_of (48 + n)] else show_nat (n div 10) @ [char_of (48 + n mod 10)])"

declare show_nat.simps [simp del]

definition show_int :: "int \<Rightarrow> string" where
  "show_int i = (if i < 0 then CHR ''-'' # show_nat (nat (- i)) else show_nat (nat i))"

datatype bridge_mode = Bot_mode | User_mode

record trigger_env =
  te_mode :: bridge_mode
  te_admin_id :: "int option"  \<comment> \<open>\<open>config?.telegram?.admin_ids?.[0]\<close>\<close>
  te_own_id :: "int option"  \<comment> \<open>\<open>bridge.getOwnUserId()\<close>\<close>
  te_sanitize :: "string \<Rightarrow> string"
  te_send :: "string \<Rightarrow> string \<Rightarrow> int \<times> task_db \<Rightarrow> string option \<times> (int \<times> task_db)"
  te_delay :: "int \<times> task_db \<Rightarrow> int \<times> task_db"

text \<open>The messages handed to the bridge, with the task they trigger, oldest first.\<close>

record trigger_state =
  ts_world :: "int \<times> task_db"
  ts_sent :: "(task_id \<times> string \<times> string) list"

text \<open>An id of 0 is falsy, like a missing one.\<close>

definition trigger_chat :: "trigger_env \<Rightarrow> string option" where
  "trigger_chat env =
     (case (case te_mode env of Bot_mode \<Rightarrow> te_admin_id env | User_mode \<Rightarrow> te_own_id env) of
        None \<Rightarrow> None
      | Some i \<Rightarrow> if i = 0 then None else Some (show_int i))"

definition trigger_text :: "trigger_env \<Rightarrow> task_id \<Rightarrow> string \<Rightarrow> string" where
  "trigger_text env taskId description =
     ''[TASK:'' @ taskId @ ''] '' @ te_sanitize env description"

text \<open>
  \<open>triggerTask\<close>: when \<open>sendMessage\<close> throws, the task is marked failed with the error's text.
\<close>

definition triggerTask :: "trigger_env \<Rightarrow> task_id \<Rightarrow> trigger_state \<Rightarrow> trigger_state" where
  "triggerTask env taskId st =
     (case getTask (snd (ts_world st)) taskId of
        None \<Rightarrow> st
      | Some tk \<Rightarrow>
          (case trigger_chat env of
             None \<Rightarrow> st
           | Some chat \<Rightarrow>
               let txt = trigger_text env taskId (tk_description tk);
                   (err, now, db) = te_send env chat txt (ts_world st)
               in \<lparr>ts_world =
                     (case err of
                        None \<Rightarrow> (now, db)
                      | Some e \<Rightarrow> (now, snd (failTask now taskId (''Failed to trigger: '' @ e) db))),
                   ts_sent = ts_sent st @ [(taskId, chat, txt)]\<rparr>))"

text \<open>The trigger loop awaits a delay before every task but the first.\<close>

fun trigger_rest :: "trigger_env \<Rightarrow> task_id list \<Rightarrow> trigger_state \<Rightarrow> trigger_state" where
  "trigger_rest env [] st = st"
| "trigger_rest env (t # ts) st =
     trigger_rest env ts (triggerTask env t (st\<lparr>ts_world := te_delay env (ts_world st)\<rparr>))"

definition onTaskComplete :: "trigger_env \<Rightarrow> task_id \<Rightarrow> trigger_state \<Rightarrow> trigger_state" where
  "onTaskComplete env completedTaskId st =
     (case tasksToTrigger (snd (ts_world st)) completedTaskId of
        [] \<Rightarrow> st
      | t # ts \<Rightarrow> trigger_rest env ts (triggerTask env t st))"

section \<open>The scheduler\<close>

text \<open>Next run of a recurring task, in milliseconds.\<close>

definition computeNextRecurrence :: "int option \<Rightarrow> int option \<Rightarrow> int \<Rightarrow> int option" where
  "computeNextRecurrence recurrenceInterval recurrenceUntil now =
     (case recurrenceInterval of
        None \<Rightarrow> None
      | Some interval \<Rightarrow>
          if interval \<le> 0 then None
          else
            let nextRunAt = secs now + interval in
            (case map_option secs recurrenceUntil of
               None \<Rightarrow> Some (nextRunAt * 1000)
             | Some until \<Rightarrow> if until < nextRunAt then None else Some (nextRunAt * 1000)))"

text \<open>
  The scheduler keeps the ids it is executing; \<open>executeTask\<close> is an argument and, being awaited, may
  change the clock, the database and (through an overlapping tick) the running ids. \<open>sw_dispatched\<close>
  records each dispatch with the database it was decided on.
\<close>

record sched_world =
  sw_now :: int
  sw_db :: task_db
  sw_running :: "task_id list"
  sw_dispatched :: "(task \<times> task_id list \<times> task_db) list"

definition sched_execute ::
  "(task \<Rightarrow> int \<times> task_db \<times> task_id list \<Rightarrow> int \<times> task_db \<times> task_id list) \<Rightarrow> task \<Rightarrow> sched_world \<Rightarrow> sched_world"
where
  "sched_execute executeTask tk w =
     (let added = (if tk_id tk \<in> set (sw_running w) then sw_running w else sw_running w @ [tk_id tk]);
          (now, db, running) = executeTask tk (sw_now w, sw_db w, added)
      in \<lparr>sw_now = now, sw_db = db, sw_running = removeAll (tk_id tk) running,
          sw_dispatched = sw_dispatched w @ [(tk, sw_running w, sw_db w)]\<rparr>)"

fun tick_loop ::
  "(task \<Rightarrow> int \<times> task_db \<times> task_id list \<Rightarrow> int \<times> task_db \<times> task_id list) \<Rightarrow> task list \<Rightarrow> sched_world \<Rightarrow> sched_world"
where
  "tick_loop executeTask [] w = w"
| "tick_loop executeTask (tk # rest) w =
     (if tk_id tk \<in> set (sw_running w) then tick_loop executeTask rest w
      else if \<not> canExecute (sw_db w) (tk_id tk) then tick_loop executeTask rest w
      else tick_loop executeTask rest (sched_execute executeTask tk w))"

definition tick ::
  "(task \<Rightarrow> int \<times> task_db \<times> task_id list \<Rightarrow> int \<times> task_db \<times> task_id list) \<Rightarrow> sched_world \<Rightarrow> sched_world"
where
  "tick executeTask w = tick_loop executeTask (getDueTasks (sw_db w) (secs (sw_now w))) w"

section \<open>The cascade is confined\<close>

definition cancelled_row :: "int \<Rightarrow> task_row \<Rightarrow> task_row" where
  "cancelled_row now r =
     updateTask_set (no_updates\<lparr>u_status := Some T_cancelled\<rparr>) (rowToTask r) (secs now) r"

lemma cancelled_row_simps [simp]:
  "t_id (cancelled_row now r) = t_id r" "t_status (cancelled_row now r) = T_cancelled"
  "t_payload (cancelled_row now r) = t_payload r"
  by (simp_all add: cancelled_row_def updateTask_set_def)

lemma cancelTask_pending:
  assumes "getTask_row db d = Some r" and "t_status r = T_pending"
  shows "task_dependencies (snd (cancelTask now d db)) = task_dependencies db"
    and "getTask_row (snd (cancelTask now d db)) t =
         (if t = d then Some (cancelled_row now r) else getTask_row db t)"
proof -
  have "no_updates\<lparr>u_status := Some T_cancelled\<rparr> \<noteq> no_updates"
    by (simp add: no_updates_def)
  then have "snd (cancelTask now d db) = db\<lparr>tasks := sql_update t_id d
      (updateTask_set (no_updates\<lparr>u_status := Some T_cancelled\<rparr>) (rowToTask r) (secs now)) (tasks db)\<rparr>"
    using assms by (simp add: cancelTask_def getTask_def updateTask_def Let_def terminal_def rowToTask_def)
  then show "task_dependencies (snd (cancelTask now d db)) = task_dependencies db"
    and "getTask_row (snd (cancelTask now d db)) t =
         (if t = d then Some (cancelled_row now r) else getTask_row db t)"
    using assms(1) by (simp_all add: getTask_row_def sql_simps cancelled_row_def)
qed

text \<open>
  The change a cascade may make: the dependency rows stay, and a task's row stays or belonged to a
  pending task of \<open>D\<close> and is now its cancelled version.
\<close>

definition confined :: "int \<Rightarrow> task_id set \<Rightarrow> task_db \<Rightarrow> task_db \<Rightarrow> bool" where
  "confined now D db db' \<longleftrightarrow>
     task_dependencies db' = task_dependencies db \<and>
     (\<forall>t. getTask_row db' t = getTask_row db t \<or>
          (\<exists>r. getTask_row db t = Some r \<and> t_status r = T_pending \<and> t \<in> D \<and>
               getTask_row db' t = Some (cancelled_row now r)))"

lemma confined_refl: "confined now D db db"
  by (simp add: confined_def)

lemma confined_trans:
  assumes "confined now D db db1" and "confined now D db1 db2"
  shows "confined now D db db2"
  unfolding confined_def
proof (intro conjI allI)
  show "task_dependencies db2 = task_dependencies db"
    using assms by (simp add: confined_def)
  fix t
  from assms(1) consider (same) "getTask_row db1 t = getTask_row db t"
    | (hit) r where "getTask_row db t = Some r" "t_status r = T_pending" "t \<in> D"
        "getTask_row db1 t = Some (cancelled_row now r)"
    unfolding confined_def by metis
  then show "getTask_row db2 t = getTask_row db t \<or>
        (\<exists>r. getTask_row db t = Some r \<and> t_status r = T_pending \<and> t \<in> D \<and>
             getTask_row db2 t = Some (cancelled_row now r))"
  proof cases
    case same
    then show ?thesis using assms(2) unfolding confined_def by metis
  next
    case hit
    then have "getTask_row db2 t = getTask_row db1 t"
      using assms(2) unfolding confined_def
      by (metis cancelled_row_simps(2) option.inject task_status.distinct(7))
    with hit show ?thesis by auto
  qed
qed

lemma confined_mono: "confined now D db db' \<Longrightarrow> D \<subseteq> D' \<Longrightarrow> confined now D' db db'"
  unfolding confined_def by blast

lemma confined_cancel:
  assumes "getTask db d = Some tk" and "tk_status tk = T_pending" and "d \<in> D"
  shows "confined now D db (snd (cancelTask now d db))"
proof -
  obtain r where r: "getTask_row db d = Some r" "t_status r = T_pending"
    using assms(1,2) by (auto simp: getTask_def rowToTask_def)
  show ?thesis
    using cancelTask_pending [OF r] r assms(3) by (auto simp: confined_def)
qed

abbreviation descendants :: "task_db \<Rightarrow> task_id \<Rightarrow> task_id set" where
  "descendants db t \<equiv> {d. (d, t) \<in> (set (task_dependencies db))\<^sup>+}"

lemma confined_cancel_dependents:
  assumes "\<And>d db. confined now (descendants db d) db (cascade d db)"
    and "set ds \<subseteq> {d. (d, t) \<in> set (task_dependencies db)}"
  shows "confined now (descendants db t) db (cancel_dependents cascade parse now ds db)"
  using assms(2)
proof (induction ds arbitrary: db)
  case Nil
  then show ?case by (simp add: confined_refl)
next
  case (Cons d ds)
  show ?case
  proof (cases "\<exists>tk. getTask db d = Some tk \<and> tk_status tk = T_pending \<and> skipOnFailure parse (tk_payload tk)")
    case False
    then show ?thesis using Cons by (auto split: option.split)
  next
    case True
    then obtain tk where tk: "getTask db d = Some tk" "tk_status tk = T_pending"
      "skipOnFailure parse (tk_payload tk)" by blast
    let ?db1 = "snd (cancelTask now d db)"
    let ?db2 = "cascade d ?db1"
    have d: "(d, t) \<in> set (task_dependencies db)" using Cons.prems by simp
    then have s1: "confined now (descendants db t) db ?db1"
      using tk by (intro confined_cancel) auto
    then have e1: "task_dependencies ?db1 = task_dependencies db"
      by (simp add: confined_def)
    have s2: "confined now (descendants db t) ?db1 ?db2"
      by (rule confined_mono [OF assms(1)]) (use d in \<open>auto simp: e1 intro: trancl_into_trancl\<close>)
    then have e2: "task_dependencies ?db2 = task_dependencies db"
      using e1 by (simp add: confined_def)
    have "confined now (descendants ?db2 t) ?db2 (cancel_dependents cascade parse now ds ?db2)"
      by (rule Cons.IH) (use Cons.prems e2 in auto)
    then have rest: "confined now (descendants db t) ?db2 (cancel_dependents cascade parse now ds ?db2)"
      by (simp only: e2)
    have "confined now (descendants db t) db (cancel_dependents cascade parse now ds ?db2)"
      by (rule confined_trans [OF s1 confined_trans [OF s2 rest]])
    then show ?thesis using tk by simp
  qed
qed

lemma confined_onTaskFail_at: "confined now (descendants db t) db (onTaskFail_at parse now left t db)"
proof (induction left arbitrary: t db)
  case 0
  then show ?case by (simp add: confined_refl)
next
  case (Suc left)
  have "set (take MAX_DEPENDENTS_PER_TASK (getDependents db t)) \<subseteq> {d. (d, t) \<in> set (task_dependencies db)}"
    by (auto simp: getDependents_def dest: in_set_takeD)
  then show ?case
    by (simp add: confined_cancel_dependents Suc.IH)
qed

text \<open>
  A failure cascade cancels and does nothing else: it leaves the dependency rows and the row of
  every task alone, except that a pending task that depends on the failed task, directly or
  through others, may become cancelled.
\<close>

theorem onTaskFail_confined:
  "task_dependencies (onTaskFail parse now t db) = task_dependencies db \<and>
   (\<forall>d. getTask_row (onTaskFail parse now t db) d = getTask_row db d \<or>
        (\<exists>r. getTask_row db d = Some r \<and> t_status r = T_pending \<and>
             (d, t) \<in> (set (task_dependencies db))\<^sup>+ \<and>
             getTask_row (onTaskFail parse now t db) d = Some (cancelled_row now r)))"
  using confined_onTaskFail_at [where now = now and db = db and t = t and parse = parse and left = MAX_CASCADE_DEPTH]
  by (simp add: onTaskFail_def confined_def)

section \<open>The cascade reaches the dependents\<close>

definition must_cancel :: "(string \<Rightarrow> json option) \<Rightarrow> task_db \<Rightarrow> task_id \<Rightarrow> bool" where
  "must_cancel parse db d =
     (case getTask_row db d of None \<Rightarrow> False
      | Some r \<Rightarrow> t_status r = T_pending \<and> skipOnFailure parse (t_payload r))"

lemma confined_must_cancel:
  "confined now D db db' \<Longrightarrow> must_cancel parse db' d \<Longrightarrow> must_cancel parse db d"
proof -
  assume c: "confined now D db db'" and m: "must_cancel parse db' d"
  from m obtain r where r: "getTask_row db' d = Some r" "t_status r = T_pending"
    by (auto simp: must_cancel_def split: option.splits)
  then have "getTask_row db d = getTask_row db' d"
    using c unfolding confined_def
    by (metis cancelled_row_simps(2) option.inject task_status.distinct(7))
  then show ?thesis using m by (simp add: must_cancel_def)
qed

lemma cancel_dependents_complete:
  assumes "\<And>d db. confined now (descendants db d) db (cascade d db)"
    and "set ds \<subseteq> {d. (d, t) \<in> set (task_dependencies db)}"
  shows "\<forall>d \<in> set ds. \<not> must_cancel parse (cancel_dependents cascade parse now ds db) d"
  using assms(2)
proof (induction ds arbitrary: db)
  case Nil
  then show ?case by simp
next
  case (Cons d ds)
  let ?skip = "\<exists>tk. getTask db d = Some tk \<and> tk_status tk = T_pending \<and> skipOnFailure parse (tk_payload tk)"
  define db2 where "db2 = (if ?skip then cascade d (snd (cancelTask now d db)) else db)"
  have step: "cancel_dependents cascade parse now (d # ds) db = cancel_dependents cascade parse now ds db2"
    by (auto simp: db2_def split: option.split)
  have conf: "confined now UNIV db db2"
  proof (cases ?skip)
    case True
    then have "confined now UNIV db (snd (cancelTask now d db))"
      by (auto intro: confined_cancel)
    moreover have "confined now UNIV (snd (cancelTask now d db)) db2"
      using True confined_mono [OF assms(1) subset_UNIV] by (simp add: db2_def)
    ultimately show ?thesis by (rule confined_trans)
  next
    case False
    then show ?thesis by (simp only: db2_def if_False confined_refl)
  qed
  then have e: "task_dependencies db2 = task_dependencies db"
    by (simp add: confined_def)
  have sub: "set ds \<subseteq> {d. (d, t) \<in> set (task_dependencies db2)}"
    using Cons.prems e by simp
  have rest: "confined now (descendants db2 t) db2 (cancel_dependents cascade parse now ds db2)"
    by (rule confined_cancel_dependents [OF assms(1) sub])
  have "\<not> must_cancel parse db2 d"
  proof (cases ?skip)
    case True
    then obtain r where r: "getTask_row db d = Some r" "t_status r = T_pending"
      by (auto simp: getTask_def rowToTask_def)
    have "\<not> must_cancel parse (snd (cancelTask now d db)) d"
      using cancelTask_pending(2) [OF r, of now d] by (simp add: must_cancel_def)
    moreover have "confined now UNIV (snd (cancelTask now d db)) db2"
      using True confined_mono [OF assms(1) subset_UNIV] by (simp add: db2_def)
    ultimately show ?thesis by (metis confined_must_cancel)
  next
    case False
    then show ?thesis
      by (auto simp: db2_def must_cancel_def getTask_def rowToTask_def split: option.splits)
  qed
  then show ?case
    using Cons.IH [OF sub] confined_must_cancel [OF rest] unfolding step by auto
qed

text \<open>
  Within the limit of \<open>MAX_DEPENDENTS_PER_TASK\<close> dependents, no dependent of a failed task is left
  pending unless its payload says it survives its parent's failure.
\<close>

theorem onTaskFail_cancels_dependents:
  assumes "length (getDependents db t) \<le> MAX_DEPENDENTS_PER_TASK"
    and "(d, t) \<in> set (task_dependencies db)"
    and "getTask_row (onTaskFail parse now t db) d = Some r"
    and "skipOnFailure parse (t_payload r)"
  shows "t_status r \<noteq> T_pending"
proof -
  let ?ds = "take MAX_DEPENDENTS_PER_TASK (getDependents db t)"
  obtain left where left: "MAX_CASCADE_DEPTH = Suc left"
    by (simp add: MAX_CASCADE_DEPTH_def)
  have ds: "?ds = getDependents db t" using assms(1) by simp
  have "set ?ds \<subseteq> {d. (d, t) \<in> set (task_dependencies db)}"
    by (auto simp: getDependents_def dest: in_set_takeD)
  then have "\<forall>d \<in> set ?ds. \<not> must_cancel parse (onTaskFail parse now t db) d"
    using cancel_dependents_complete [where cascade = "onTaskFail_at parse now left", OF confined_onTaskFail_at]
    by (simp add: onTaskFail_def left)
  moreover have "d \<in> set ?ds"
    using assms(2) unfolding ds by (simp add: getDependents_def)
  ultimately show ?thesis
    using assms(3,4) by (auto simp: must_cancel_def)
qed

section \<open>What is triggered\<close>

definition sent_ok :: "trigger_env \<Rightarrow> task_id \<times> string \<times> string \<Rightarrow> bool" where
  "sent_ok env m = (trigger_chat env = Some (fst (snd m)) \<and>
     prefix (''[TASK:'' @ fst m @ ''] '') (snd (snd m)))"

lemma triggerTask_sent:
  "\<exists>xs. ts_sent (triggerTask env t st) = ts_sent st @ xs \<and> subseq (map fst xs) [t] \<and> list_all (sent_ok env) xs"
proof (cases "getTask (snd (ts_world st)) t = None \<or> trigger_chat env = None")
  case True
  then have "triggerTask env t st = st"
    by (auto simp: triggerTask_def split: option.split)
  then show ?thesis by (intro exI [of _ "[]"]) simp
next
  case False
  then obtain tk chat where "getTask (snd (ts_world st)) t = Some tk" and chat: "trigger_chat env = Some chat"
    by auto
  then have "ts_sent (triggerTask env t st) =
      ts_sent st @ [(t, chat, trigger_text env t (tk_description tk))]"
    by (simp add: triggerTask_def Let_def split: prod.split)
  then show ?thesis
    using chat by (intro exI [of _ "[(t, chat, trigger_text env t (tk_description tk))]"])
      (simp add: sent_ok_def trigger_text_def)
qed

lemma trigger_rest_sent:
  "\<exists>xs. ts_sent (trigger_rest env ts st) = ts_sent st @ xs \<and> subseq (map fst xs) ts \<and> list_all (sent_ok env) xs"
proof (induction ts arbitrary: st)
  case Nil
  then show ?case by simp
next
  case (Cons t ts)
  let ?st0 = "st\<lparr>ts_world := te_delay env (ts_world st)\<rparr>"
  obtain xs where xs: "ts_sent (triggerTask env t ?st0) = ts_sent ?st0 @ xs" "subseq (map fst xs) [t]"
    "list_all (sent_ok env) xs"
    using triggerTask_sent [of env t ?st0] by blast
  obtain ys where ys: "ts_sent (trigger_rest env ts (triggerTask env t ?st0)) =
      ts_sent (triggerTask env t ?st0) @ ys" "subseq (map fst ys) ts" "list_all (sent_ok env) ys"
    using Cons.IH [of "triggerTask env t ?st0"] by blast
  have "subseq (map fst (xs @ ys)) ([t] @ ts)"
    using list_emb_append_mono [OF xs(2) ys(2)] by simp
  then show ?case
    using xs ys by (intro exI [of _ "xs @ ys"]) simp
qed

text \<open>
  Whatever the bridge does, the messages that a completion sends trigger, in order and at most
  once each, only tasks that at the moment of completion were pending dependents of the completed
  task with all their dependencies done; there are at most \<open>MAX_DEPENDENTS_PER_TASK\<close> of them, each
  goes to the configured chat and starts with the tag of its task.
\<close>

theorem onTaskComplete_sent:
  "\<exists>xs. ts_sent (onTaskComplete env t st) = ts_sent st @ xs \<and>
        subseq (map fst xs) (tasksToTrigger (snd (ts_world st)) t) \<and>
        length xs \<le> MAX_DEPENDENTS_PER_TASK \<and>
        list_all (sent_ok env) xs"
proof -
  let ?ts = "tasksToTrigger (snd (ts_world st)) t"
  have "\<exists>xs. ts_sent (onTaskComplete env t st) = ts_sent st @ xs \<and> subseq (map fst xs) ?ts \<and>
             list_all (sent_ok env) xs"
  proof (cases ?ts)
    case Nil
    then show ?thesis by (intro exI [of _ "[]"]) (simp add: onTaskComplete_def)
  next
    case (Cons d ds)
    obtain xs where xs: "ts_sent (triggerTask env d st) = ts_sent st @ xs" "subseq (map fst xs) [d]"
      "list_all (sent_ok env) xs"
      using triggerTask_sent [of env d st] by blast
    obtain ys where ys: "ts_sent (trigger_rest env ds (triggerTask env d st)) =
        ts_sent (triggerTask env d st) @ ys" "subseq (map fst ys) ds" "list_all (sent_ok env) ys"
      using trigger_rest_sent [of env ds "triggerTask env d st"] by blast
    have "subseq (map fst (xs @ ys)) ([d] @ ds)"
      using list_emb_append_mono [OF xs(2) ys(2)] by simp
    then show ?thesis
      using xs ys Cons by (intro exI [of _ "xs @ ys"]) (simp add: onTaskComplete_def)
  qed
  then obtain xs where xs: "ts_sent (onTaskComplete env t st) = ts_sent st @ xs"
    "subseq (map fst xs) ?ts" "list_all (sent_ok env) xs" by blast
  have "length xs \<le> length ?ts"
    using list_emb_length [OF xs(2)] by simp
  also have "\<dots> \<le> length (take MAX_DEPENDENTS_PER_TASK (getDependents (snd (ts_world st)) t))"
    unfolding tasksToTrigger_def by (rule length_filter_le)
  also have "\<dots> \<le> MAX_DEPENDENTS_PER_TASK" by simp
  finally show ?thesis using xs by blast
qed

section \<open>What a tick dispatches\<close>

definition dispatch_ok :: "task \<times> task_id list \<times> task_db \<Rightarrow> bool" where
  "dispatch_ok d = (case d of (tk, running, db) \<Rightarrow> tk_id tk \<notin> set running \<and> canExecute db (tk_id tk))"

lemma tick_loop_dispatched:
  "\<exists>ds. sw_dispatched (tick_loop ex due w) = sw_dispatched w @ ds \<and> subseq (map fst ds) due \<and>
        list_all dispatch_ok ds"
proof (induction due arbitrary: w)
  case Nil
  then show ?case by simp
next
  case (Cons tk due)
  show ?case
  proof (cases "tk_id tk \<in> set (sw_running w) \<or> \<not> canExecute (sw_db w) (tk_id tk)")
    case True
    then have "tick_loop ex (tk # due) w = tick_loop ex due w" by auto
    then show ?thesis using Cons.IH [of w] by (metis list_emb_Cons)
  next
    case False
    let ?d = "(tk, sw_running w, sw_db w)"
    obtain ds where ds: "sw_dispatched (tick_loop ex due (sched_execute ex tk w)) =
        sw_dispatched (sched_execute ex tk w) @ ds" "subseq (map fst ds) due" "list_all dispatch_ok ds"
      using Cons.IH [of "sched_execute ex tk w"] by blast
    have "sw_dispatched (sched_execute ex tk w) = sw_dispatched w @ [?d]"
      by (simp add: sched_execute_def Let_def split: prod.split)
    moreover have "dispatch_ok ?d" using False by (simp add: dispatch_ok_def)
    ultimately show ?thesis
      using ds False by (intro exI [of _ "?d # ds"]) simp
  qed
qed

text \<open>
  A tick dispatches, in order and at most once each, only tasks that were due when it began; at
  the moment of each dispatch the task is not already running and all it depends on is done,
  however the executions before it changed the database.
\<close>

theorem tick_dispatches:
  "\<exists>ds. sw_dispatched (tick ex w) = sw_dispatched w @ ds \<and>
        subseq (map fst ds) (getDueTasks (sw_db w) (secs (sw_now w))) \<and>
        list_all dispatch_ok ds"
  unfolding tick_def by (rule tick_loop_dispatched)

section \<open>Examples\<close>

definition example_parse :: "string \<Rightarrow> json option" where
  "example_parse txt = (if txt = ''keep'' then Some (JObj [(''skipOnParentFailure'', JBool False)]) else None)"

theorem onTaskFail_cancels_dependents_witness:
  "map_option t_status (getTask_row (onTaskFail example_parse 9000 ''a'' example_db) ''b'') \<noteq> Some T_pending \<and>
   map_option t_status (getTask_row example_db ''b'') = Some T_pending"
proof -
  obtain r where r: "getTask_row (onTaskFail example_parse 9000 ''a'' example_db) ''b'' = Some r"
    and p: "t_payload r = None"
  proof -
    have "map_option t_payload (getTask_row (onTaskFail example_parse 9000 ''a'' example_db) ''b'') = Some None"
      by code_simp
    then show ?thesis using that by auto
  qed
  have "length (getDependents example_db ''a'') \<le> MAX_DEPENDENTS_PER_TASK" by code_simp
  moreover have "(''b'', ''a'') \<in> set (task_dependencies example_db)" by code_simp
  moreover note r
  moreover have "skipOnFailure example_parse (t_payload r)" by (simp add: p skipOnFailure_def)
  ultimately have "t_status r \<noteq> T_pending" by (rule onTaskFail_cancels_dependents)
  moreover have "map_option t_status (getTask_row example_db ''b'') = Some T_pending" by code_simp
  ultimately show ?thesis using r by simp
qed

end
