(* ===== verification/AutonomousStore.thy ===== *)
theory AutonomousStore
  imports Prelude Json
begin

text \<open>
  The store of autonomous tasks: \<open>AutonomousTaskStore\<close> of src/memory/agent/autonomous-tasks.ts over
  the tables \<open>autonomous_tasks\<close>, \<open>task_checkpoints\<close>, \<open>execution_logs\<close>, \<open>policy_state\<close> and
  \<open>autonomous_daily_ton_spend\<close> of src/memory/schema.ts. Names that clash with those of the task store
  carry the suffix \<open>_a\<close>.

  A database is the five tables. \<open>Date.now()\<close> is an argument in milliseconds and \<open>randomUUID()\<close> an
  argument id; a UTC date is the number of its day. JSON columns hold \<open>Text v\<close> for a text that parses
  to \<open>v\<close> and \<open>Corrupt\<close> otherwise. The type variable \<open>'p\<close> is the snapshot of the policy engine that
  the loop saves. SQLite's SUM of REAL values is the argument \<open>sql_sum\<close>.
\<close>

type_synonym auto_id = string

datatype auto_status =
  A_pending | A_queued | A_running | A_paused | A_completed | A_failed | A_cancelled

datatype strategy = Conservative | Balanced | Aggressive

datatype priority = Low | Medium | High | Critical

datatype event_type =
  E_plan | E_tool_call | E_tool_result | E_reflect | E_checkpoint | E_escalate | E_error | E_info

section \<open>Data\<close>

record task_constraints =
  c_maxIterations :: "js_num jsval"
  c_maxDurationHours :: "js_num jsval"
  c_allowedTools :: "string list option"
  c_restrictedTools :: "string list option"
  c_budgetTON :: "js_num jsval"

definition no_constraints :: task_constraints where
  "no_constraints = \<lparr>c_maxIterations = Undefined, c_maxDurationHours = Undefined,
     c_allowedTools = None, c_restrictedTools = None, c_budgetTON = Undefined\<rparr>"

text \<open>Constraints as they come back from \<open>JSON.parse (JSON.stringify c)\<close>.\<close>

definition jsonify_constraints :: "task_constraints \<Rightarrow> task_constraints" where
  "jsonify_constraints c = c\<lparr>c_maxIterations := jsonify_num (c_maxIterations c),
     c_maxDurationHours := jsonify_num (c_maxDurationHours c),
     c_budgetTON := jsonify_num (c_budgetTON c)\<rparr>"

datatype backoff = Linear | Exponential

record retry_policy =
  rp_maxRetries :: int
  rp_backoff :: backoff

definition default_retry_policy :: retry_policy where
  "default_retry_policy = \<lparr>rp_maxRetries = 3, rp_backoff = Exponential\<rparr>"

type_synonym context_obj = "(string \<times> json) list"

definition jsonify_obj :: "context_obj \<Rightarrow> context_obj" where
  "jsonify_obj kvs = map (\<lambda>(k, v). (k, jsonify v)) kvs"

record auto_task =
  at_id :: auto_id
  at_goal :: string
  at_successCriteria :: "string list"
  at_failureConditions :: "string list"
  at_constraints :: task_constraints
  at_strategy :: strategy
  at_retryPolicy :: retry_policy
  at_context :: context_obj
  at_priority :: priority
  at_status :: auto_status
  at_currentStep :: int
  at_lastCheckpointId :: "string option"
  at_createdAt :: int
  at_updatedAt :: "int option"
  at_startedAt :: "int option"
  at_completedAt :: "int option"
  at_pausedAt :: "int option"
  at_result :: "msg option"
  at_error :: "msg option"

record auto_row =
  ar_id :: auto_id
  ar_goal :: string
  ar_success_criteria :: "string list json_text"
  ar_failure_conditions :: "string list json_text"
  ar_constraints :: "task_constraints json_text"
  ar_strategy :: strategy
  ar_retry_policy :: "retry_policy json_text"
  ar_context :: "context_obj json_text"
  ar_priority :: priority
  ar_status :: auto_status
  ar_current_step :: int
  ar_last_checkpoint_id :: "string option"
  ar_created_at :: int
  ar_updated_at :: "int option"
  ar_started_at :: "int option"
  ar_completed_at :: "int option"
  ar_paused_at :: "int option"
  ar_result :: "msg option"
  ar_error :: "msg option"

definition rowToTask_a :: "auto_row \<Rightarrow> auto_task" where
  "rowToTask_a row =
     \<lparr>at_id = ar_id row,
      at_goal = ar_goal row,
      at_successCriteria = safeJSONParse (ar_success_criteria row) [],
      at_failureConditions = safeJSONParse (ar_failure_conditions row) [],
      at_constraints = safeJSONParse (ar_constraints row) no_constraints,
      at_strategy = ar_strategy row,
      at_retryPolicy = safeJSONParse (ar_retry_policy row) default_retry_policy,
      at_context = safeJSONParse (ar_context row) [],
      at_priority = ar_priority row,
      at_status = ar_status row,
      at_currentStep = ar_current_step row,
      at_lastCheckpointId = ar_last_checkpoint_id row,
      at_createdAt = ar_created_at row * 1000,
      at_updatedAt = date_of (ar_updated_at row),
      at_startedAt = date_of (ar_started_at row),
      at_completedAt = date_of (ar_completed_at row),
      at_pausedAt = date_of (ar_paused_at row),
      at_result = ar_result row,
      at_error = ar_error row\<rparr>"

record checkpoint_row =
  cr_id :: string
  cr_task_id :: auto_id
  cr_step :: int
  cr_state :: "context_obj json_text"
  cr_tool_calls :: "json list json_text"
  cr_next_action_hint :: "string option"
  cr_created_at :: int

record checkpoint =
  cp_id :: string
  cp_taskId :: auto_id
  cp_step :: int
  cp_state :: context_obj
  cp_toolCalls :: "json list"
  cp_nextActionHint :: "string option"
  cp_createdAt :: int

definition rowToCheckpoint :: "checkpoint_row \<Rightarrow> checkpoint" where
  "rowToCheckpoint row =
     \<lparr>cp_id = cr_id row, cp_taskId = cr_task_id row, cp_step = cr_step row,
      cp_state = safeJSONParse (cr_state row) [],
      cp_toolCalls = safeJSONParse (cr_tool_calls row) [],
      cp_nextActionHint = cr_next_action_hint row,
      cp_createdAt = cr_created_at row * 1000\<rparr>"

record log_row =
  lr_id :: int
  lr_task_id :: auto_id
  lr_step :: int
  lr_event_type :: event_type
  lr_message :: msg
  lr_data :: "json json_text option"
  lr_created_at :: int

record log_entry =
  le_id :: int
  le_taskId :: auto_id
  le_step :: int
  le_eventType :: event_type
  le_message :: msg
  le_data :: "json option"
  le_createdAt :: int

text \<open>A data column that is NULL or does not parse reads as undefined.\<close>

definition rowToLogEntry :: "log_row \<Rightarrow> log_entry" where
  "rowToLogEntry row =
     \<lparr>le_id = lr_id row, le_taskId = lr_task_id row, le_step = lr_step row,
      le_eventType = lr_event_type row, le_message = lr_message row,
      le_data = (case lr_data row of Some (Text j) \<Rightarrow> Some j | _ \<Rightarrow> None),
      le_createdAt = lr_created_at row * 1000\<rparr>"

record 'p policy_row =
  pr_task_id :: auto_id
  pr_state :: "'p json_text"
  pr_updated_at :: int

record spend_row =
  sr_wallet_key :: string
  sr_utc_date :: int
  sr_amount :: js_num

record 'p auto_db =
  autonomous_tasks :: "auto_row list"
  task_checkpoints :: "checkpoint_row list"
  execution_logs :: "log_row list"
  log_sequence :: int  \<comment> \<open>the last id handed out by AUTOINCREMENT\<close>
  policy_state :: "'p policy_row list"
  daily_ton_spend :: "spend_row list"

datatype auto_error =
    AE_Unique string
  | AE_ForeignKey auto_id
  | AE_CreateFailed string
  | AE_BadSpend js_num

section \<open>Tasks\<close>

definition getTask_row_a :: "'p auto_db \<Rightarrow> auto_id \<Rightarrow> auto_row option" where
  "getTask_row_a db tid = sql_get ar_id tid (autonomous_tasks db)"

definition getTask_a :: "'p auto_db \<Rightarrow> auto_id \<Rightarrow> auto_task option" where
  "getTask_a db tid = map_option rowToTask_a (getTask_row_a db tid)"

record auto_input =
  i_goal :: string
  i_successCriteria :: "string list option"
  i_failureConditions :: "string list option"
  i_constraints :: "task_constraints option"
  i_strategy :: "strategy option"
  i_retryPolicy :: "retry_policy option"
  i_context :: "context_obj option"
  i_priority :: "priority option"

definition createTask_row_a :: "auto_id \<Rightarrow> int \<Rightarrow> auto_input \<Rightarrow> auto_row" where
  "createTask_row_a tid now input =
     \<lparr>ar_id = tid,
      ar_goal = i_goal input,
      ar_success_criteria = Text (nullish (i_successCriteria input) []),
      ar_failure_conditions = Text (nullish (i_failureConditions input) []),
      ar_constraints = Text (jsonify_constraints (nullish (i_constraints input) no_constraints)),
      ar_strategy = nullish (i_strategy input) Balanced,
      ar_retry_policy = Text (nullish (i_retryPolicy input) default_retry_policy),
      ar_context = Text (jsonify_obj (nullish (i_context input) [])),
      ar_priority = nullish (i_priority input) Medium,
      ar_status = A_pending,
      ar_current_step = 0,
      ar_last_checkpoint_id = None,
      ar_created_at = now,
      ar_updated_at = None,
      ar_started_at = None,
      ar_completed_at = None,
      ar_paused_at = None,
      ar_result = None,
      ar_error = None\<rparr>"

definition createTask_a ::
  "auto_id \<Rightarrow> int \<Rightarrow> auto_input \<Rightarrow> 'p auto_db \<Rightarrow> (auto_error, auto_task, 'p auto_db) outcome" where
  "createTask_a tid nowMs input db =
     (if getTask_row_a db tid \<noteq> None then throw (AE_Unique tid) db
      else
        let db' = db\<lparr>autonomous_tasks :=
                       autonomous_tasks db @ [createTask_row_a tid (secs nowMs) input]\<rparr>
        in (case getTask_a db' tid of
              None \<Rightarrow> throw (AE_CreateFailed tid) db'
            | Some created \<Rightarrow> ret created db'))"

definition listTasks_a ::
  "'p auto_db \<Rightarrow> auto_status option \<Rightarrow> priority option \<Rightarrow> auto_task list" where
  "listTasks_a db status prio =
     map rowToTask_a
       (order_desc ar_created_at
         (filter (\<lambda>r. case prio of None \<Rightarrow> True | Some p \<Rightarrow> ar_priority r = p)
           (filter (\<lambda>r. case status of None \<Rightarrow> True | Some s \<Rightarrow> ar_status r = s)
             (autonomous_tasks db))))"

definition getActiveTasks_a :: "'p auto_db \<Rightarrow> auto_task list" where
  "getActiveTasks_a db =
     map rowToTask_a
       (order_asc ar_created_at
         (filter (\<lambda>r. ar_status r \<in> {A_pending, A_queued, A_running, A_paused})
           (autonomous_tasks db)))"

text \<open>The SET clause of \<open>updateTaskStatus\<close>, from the task it read.\<close>

definition updateTaskStatus_set ::
  "auto_status \<Rightarrow> msg option \<Rightarrow> msg option \<Rightarrow> auto_task \<Rightarrow> int \<Rightarrow> auto_row \<Rightarrow> auto_row" where
  "updateTaskStatus_set status result err tk now r =
     r\<lparr>ar_status := status,
       ar_updated_at := Some now,
       ar_started_at := (if status = A_running \<and> at_startedAt tk = None then Some now
                         else ar_started_at r),
       ar_completed_at := (if status \<in> {A_completed, A_failed, A_cancelled} then Some now
                           else ar_completed_at r),
       ar_paused_at := (if status = A_paused then Some now
                        else if status = A_running then None
                        else ar_paused_at r),
       ar_result := (case result of None \<Rightarrow> ar_result r | Some x \<Rightarrow> Some x),
       ar_error := (case err of None \<Rightarrow> ar_error r | Some x \<Rightarrow> Some x)\<rparr>"

definition updateTaskStatus ::
  "int \<Rightarrow> auto_id \<Rightarrow> auto_status \<Rightarrow> msg option \<Rightarrow> msg option \<Rightarrow> 'p auto_db \<Rightarrow>
   auto_task option \<times> 'p auto_db" where
  "updateTaskStatus nowMs tid status result err db =
     (case getTask_a db tid of
        None \<Rightarrow> (None, db)
      | Some tk \<Rightarrow>
          let db' = db\<lparr>autonomous_tasks := sql_update ar_id tid
                         (updateTaskStatus_set status result err tk (secs nowMs)) (autonomous_tasks db)\<rparr>
          in (getTask_a db' tid, db'))"

definition incrementStep :: "int \<Rightarrow> auto_id \<Rightarrow> 'p auto_db \<Rightarrow> auto_task option \<times> 'p auto_db" where
  "incrementStep nowMs tid db =
     (let db' = db\<lparr>autonomous_tasks := sql_update ar_id tid
                     (\<lambda>r. r\<lparr>ar_current_step := ar_current_step r + 1,
                             ar_updated_at := Some (secs nowMs)\<rparr>) (autonomous_tasks db)\<rparr>
      in (getTask_a db' tid, db'))"

definition updateLastCheckpoint :: "int \<Rightarrow> auto_id \<Rightarrow> string \<Rightarrow> 'p auto_db \<Rightarrow> 'p auto_db" where
  "updateLastCheckpoint nowMs tid checkpointId db =
     db\<lparr>autonomous_tasks := sql_update ar_id tid
          (\<lambda>r. r\<lparr>ar_last_checkpoint_id := Some checkpointId, ar_updated_at := Some (secs nowMs)\<rparr>)
          (autonomous_tasks db)\<rparr>"

definition updateContext :: "int \<Rightarrow> auto_id \<Rightarrow> context_obj \<Rightarrow> 'p auto_db \<Rightarrow> 'p auto_db" where
  "updateContext nowMs tid ctx db =
     db\<lparr>autonomous_tasks := sql_update ar_id tid
          (\<lambda>r. r\<lparr>ar_context := Text (jsonify_obj ctx), ar_updated_at := Some (secs nowMs)\<rparr>)
          (autonomous_tasks db)\<rparr>"

text \<open>ON DELETE CASCADE removes the task's checkpoints, log rows and policy snapshot.\<close>

definition deleteTask_a :: "auto_id \<Rightarrow> 'p auto_db \<Rightarrow> bool \<times> 'p auto_db" where
  "deleteTask_a tid db =
     (getTask_row_a db tid \<noteq> None,
      db\<lparr>autonomous_tasks := sql_delete (\<lambda>r. ar_id r = tid) (autonomous_tasks db),
         task_checkpoints := sql_delete (\<lambda>r. cr_task_id r = tid) (task_checkpoints db),
         execution_logs := sql_delete (\<lambda>r. lr_task_id r = tid) (execution_logs db),
         policy_state := sql_delete (\<lambda>r. pr_task_id r = tid) (policy_state db)\<rparr>)"

definition stale_paused :: "int \<Rightarrow> auto_row \<Rightarrow> bool" where
  "stale_paused cutoff r =
     (ar_status r = A_paused \<and> (case ar_paused_at r of None \<Rightarrow> False | Some p \<Rightarrow> p < cutoff))"

text \<open>The two readings of the clock are \<open>now1\<close> (the cutoff) and \<open>now2\<close> (the written time).\<close>

definition cancelStalePausedTasks ::
  "int \<Rightarrow> int \<Rightarrow> int \<Rightarrow> 'p auto_db \<Rightarrow> nat \<times> 'p auto_db" where
  "cancelStalePausedTasks timeoutHours now1 now2 db =
     (let cutoff = secs now1 - timeoutHours * 3600;
          stale = map ar_id (filter (stale_paused cutoff) (autonomous_tasks db))
      in if stale = [] then (0, db)
         else (length stale,
               db\<lparr>autonomous_tasks :=
                    fold (\<lambda>tid. sql_update ar_id tid
                           (\<lambda>r. r\<lparr>ar_status := A_cancelled, ar_error := Some [S ''timeout-paused''],
                                   ar_completed_at := Some (secs now2),
                                   ar_updated_at := Some (secs now2)\<rparr>)) stale (autonomous_tasks db)\<rparr>))"

section \<open>Checkpoints\<close>

definition DEFAULT_CHECKPOINT_KEEP_LAST_N :: nat where
  "DEFAULT_CHECKPOINT_KEEP_LAST_N = 20"

definition getCheckpoint :: "'p auto_db \<Rightarrow> string \<Rightarrow> checkpoint option" where
  "getCheckpoint db cid = map_option rowToCheckpoint (sql_get cr_id cid (task_checkpoints db))"

text \<open>
  The rows of a task that the trim keeps: the first \<open>n\<close> by descending \<open>created_at\<close>, newer rows first
  among equals (\<open>ORDER BY created_at DESC, rowid DESC LIMIT n\<close>).
\<close>

definition kept_checkpoints :: "nat \<Rightarrow> auto_id \<Rightarrow> checkpoint_row list \<Rightarrow> checkpoint_row list" where
  "kept_checkpoints n tid rows =
     take n (order_desc cr_created_at (rev (filter (\<lambda>r. cr_task_id r = tid) rows)))"

definition trim_checkpoints :: "nat \<Rightarrow> auto_id \<Rightarrow> checkpoint_row list \<Rightarrow> checkpoint_row list" where
  "trim_checkpoints n tid rows =
     sql_delete (\<lambda>r. cr_task_id r = tid \<and> cr_id r \<notin> cr_id ` set (kept_checkpoints n tid rows)) rows"

record checkpoint_input =
  ci_taskId :: auto_id
  ci_step :: int
  ci_state :: context_obj
  ci_toolCalls :: "json list option"
  ci_nextActionHint :: "string option"
  ci_keepLastN :: "nat option"

definition saveCheckpoint ::
  "string \<Rightarrow> int \<Rightarrow> checkpoint_input \<Rightarrow> 'p auto_db \<Rightarrow> (auto_error, checkpoint, 'p auto_db) outcome" where
  "saveCheckpoint cid nowMs input db =
     (let now = secs nowMs;
          keepLastN = (case ci_keepLastN input of
                         Some n \<Rightarrow> if 0 < n then n else DEFAULT_CHECKPOINT_KEEP_LAST_N
                       | None \<Rightarrow> DEFAULT_CHECKPOINT_KEEP_LAST_N);
          row = \<lparr>cr_id = cid, cr_task_id = ci_taskId input, cr_step = ci_step input,
                 cr_state = Text (jsonify_obj (ci_state input)),
                 cr_tool_calls = Text (map jsonify (nullish (ci_toolCalls input) [])),
                 cr_next_action_hint = ci_nextActionHint input, cr_created_at = now\<rparr>
      in if sql_get cr_id cid (task_checkpoints db) \<noteq> None then throw (AE_Unique cid) db
         else if getTask_row_a db (ci_taskId input) = None
         then throw (AE_ForeignKey (ci_taskId input)) db
         else
           let db' = (updateLastCheckpoint nowMs (ci_taskId input) cid db)
                       \<lparr>task_checkpoints :=
                          trim_checkpoints keepLastN (ci_taskId input) (task_checkpoints db @ [row])\<rparr>
           in (case getCheckpoint db' cid of
                 None \<Rightarrow> throw (AE_CreateFailed cid) db'
               | Some created \<Rightarrow> ret created db'))"

text \<open>\<open>ORDER BY step DESC LIMIT 1\<close>; the oldest row among equal steps.\<close>

definition getLastCheckpoint :: "'p auto_db \<Rightarrow> auto_id \<Rightarrow> checkpoint option" where
  "getLastCheckpoint db tid =
     (case order_desc cr_step (filter (\<lambda>r. cr_task_id r = tid) (task_checkpoints db)) of
        [] \<Rightarrow> None
      | r # _ \<Rightarrow> Some (rowToCheckpoint r))"

definition cleanOldCheckpoints :: "int \<Rightarrow> int \<Rightarrow> 'p auto_db \<Rightarrow> nat \<times> 'p auto_db" where
  "cleanOldCheckpoints olderThanDays nowMs db =
     (let cutoff = secs nowMs - olderThanDays * 86400;
          live = map ar_id (filter (\<lambda>r. ar_status r \<in> {A_pending, A_running, A_paused})
                              (autonomous_tasks db));
          old = (\<lambda>r. cr_created_at r < cutoff \<and> cr_task_id r \<notin> set live)
      in (length (filter old (task_checkpoints db)),
          db\<lparr>task_checkpoints := sql_delete old (task_checkpoints db)\<rparr>))"

section \<open>Execution log\<close>

definition appendLog ::
  "int \<Rightarrow> auto_id \<Rightarrow> int \<Rightarrow> event_type \<Rightarrow> msg \<Rightarrow> json option \<Rightarrow> 'p auto_db \<Rightarrow>
   (auto_error, unit, 'p auto_db) outcome" where
  "appendLog nowMs tid step ev msg data db =
     (if getTask_row_a db tid = None then throw (AE_ForeignKey tid) db
      else ret ()
        (db\<lparr>execution_logs := execution_logs db @
              [\<lparr>lr_id = log_sequence db + 1, lr_task_id = tid, lr_step = step, lr_event_type = ev,
                lr_message = msg, lr_data = map_option (\<lambda>j. Text (jsonify j)) data,
                lr_created_at = secs nowMs\<rparr>],
            log_sequence := log_sequence db + 1\<rparr>))"

definition getExecutionLogs :: "'p auto_db \<Rightarrow> auto_id \<Rightarrow> nat \<Rightarrow> log_entry list" where
  "getExecutionLogs db tid limit =
     map rowToLogEntry
       (take limit (order_asc lr_id (filter (\<lambda>r. lr_task_id r = tid) (execution_logs db))))"

section \<open>Policy snapshots\<close>

definition savePolicyState ::
  "int \<Rightarrow> auto_id \<Rightarrow> 'p \<Rightarrow> 'p auto_db \<Rightarrow> (auto_error, unit, 'p auto_db) outcome" where
  "savePolicyState nowMs tid state db =
     (if getTask_row_a db tid = None then throw (AE_ForeignKey tid) db
      else if sql_get pr_task_id tid (policy_state db) \<noteq> None
      then ret () (db\<lparr>policy_state := sql_update pr_task_id tid
                        (\<lambda>r. r\<lparr>pr_state := Text state, pr_updated_at := secs nowMs\<rparr>) (policy_state db)\<rparr>)
      else ret () (db\<lparr>policy_state := policy_state db @
                        [\<lparr>pr_task_id = tid, pr_state = Text state, pr_updated_at = secs nowMs\<rparr>]\<rparr>))"

definition getPolicyState :: "'p auto_db \<Rightarrow> auto_id \<Rightarrow> 'p option" where
  "getPolicyState db tid =
     (case sql_get pr_task_id tid (policy_state db) of
        None \<Rightarrow> None
      | Some r \<Rightarrow> (case pr_state r of Text p \<Rightarrow> Some p | Corrupt \<Rightarrow> None))"

definition clearPolicyState :: "auto_id \<Rightarrow> 'p auto_db \<Rightarrow> 'p auto_db" where
  "clearPolicyState tid db =
     db\<lparr>policy_state := sql_delete (\<lambda>r. pr_task_id r = tid) (policy_state db)\<rparr>"

section \<open>Daily TON spend\<close>

definition utc_date :: "int \<Rightarrow> int" where
  "utc_date ms = ms div 86400000"

definition spend_key :: "spend_row \<Rightarrow> string \<times> int" where
  "spend_key r = (sr_wallet_key r, sr_utc_date r)"

definition getDailyTonSpend :: "'p auto_db \<Rightarrow> string \<Rightarrow> int \<Rightarrow> js_num" where
  "getDailyTonSpend db walletKey nowMs =
     (case sql_get spend_key (walletKey, utc_date nowMs) (daily_ton_spend db) of
        None \<Rightarrow> Num 0
      | Some r \<Rightarrow> sr_amount r)"

definition getTotalDailyTonSpend :: "(js_num list \<Rightarrow> js_num) \<Rightarrow> 'p auto_db \<Rightarrow> int \<Rightarrow> js_num" where
  "getTotalDailyTonSpend sql_sum db nowMs =
     (case filter (\<lambda>r. sr_utc_date r = utc_date nowMs) (daily_ton_spend db) of
        [] \<Rightarrow> Num 0
      | rs \<Rightarrow> sql_sum (map sr_amount rs))"

definition recordDailyTonSpend ::
  "int \<Rightarrow> string \<Rightarrow> js_num \<Rightarrow> 'p auto_db \<Rightarrow> (auto_error, js_num, 'p auto_db) outcome" where
  "recordDailyTonSpend nowMs walletKey amount db =
     (if \<not> js_isFinite amount \<or> js_le amount (Num 0) then throw (AE_BadSpend amount) db
      else
        let key = (walletKey, utc_date nowMs);
            db' = (if sql_get spend_key key (daily_ton_spend db) \<noteq> None
                   then db\<lparr>daily_ton_spend := sql_update spend_key key
                             (\<lambda>r. r\<lparr>sr_amount := js_add (sr_amount r) amount\<rparr>) (daily_ton_spend db)\<rparr>
                   else db\<lparr>daily_ton_spend := daily_ton_spend db @
                             [\<lparr>sr_wallet_key = walletKey, sr_utc_date = utc_date nowMs, sr_amount = amount\<rparr>]\<rparr>)
        in ret (getDailyTonSpend db' walletKey nowMs) db')"

section \<open>What each operation does to a task's row\<close>

named_theorems store_views \<open>the row of a task after each operation of the store\<close>

lemma getTask_a_row: "getTask_a db tid = map_option rowToTask_a (getTask_row_a db tid)"
  by (simp add: getTask_a_def)

lemma rowToTask_a_simps [simp]:
  "at_id (rowToTask_a r) = ar_id r" "at_status (rowToTask_a r) = ar_status r"
  "at_currentStep (rowToTask_a r) = ar_current_step r"
  by (simp_all add: rowToTask_a_def)

lemma updateTaskStatus_set_simps [simp]:
  "ar_id (updateTaskStatus_set st res err tk now r) = ar_id r"
  "ar_status (updateTaskStatus_set st res err tk now r) = st"
  "ar_current_step (updateTaskStatus_set st res err tk now r) = ar_current_step r"
  by (simp_all add: updateTaskStatus_set_def)

lemma row_updateTaskStatus [store_views]:
  "getTask_row_a (snd (updateTaskStatus now tid st res err db)) k =
   (if k = tid then map_option (\<lambda>r. updateTaskStatus_set st res err (rowToTask_a r) (secs now) r)
                      (getTask_row_a db tid)
    else getTask_row_a db k)"
  by (cases "getTask_row_a db tid")
     (auto simp: updateTaskStatus_def getTask_a_def getTask_row_a_def Let_def sql_get_update)

lemma row_incrementStep [store_views]:
  "getTask_row_a (snd (incrementStep now tid db)) k =
   (if k = tid then map_option (\<lambda>r. r\<lparr>ar_current_step := ar_current_step r + 1,
                                        ar_updated_at := Some (secs now)\<rparr>) (getTask_row_a db tid)
    else getTask_row_a db k)"
  by (simp add: incrementStep_def getTask_row_a_def Let_def sql_get_update)

lemma row_updateLastCheckpoint [store_views]:
  "getTask_row_a (updateLastCheckpoint now tid cid db) k =
   (if k = tid then map_option (\<lambda>r. r\<lparr>ar_last_checkpoint_id := Some cid,
                                        ar_updated_at := Some (secs now)\<rparr>) (getTask_row_a db tid)
    else getTask_row_a db k)"
  by (simp add: updateLastCheckpoint_def getTask_row_a_def sql_get_update)

lemma row_updateContext [store_views]:
  "getTask_row_a (updateContext now tid ctx db) k =
   (if k = tid then map_option (\<lambda>r. r\<lparr>ar_context := Text (jsonify_obj ctx),
                                        ar_updated_at := Some (secs now)\<rparr>) (getTask_row_a db tid)
    else getTask_row_a db k)"
  by (simp add: updateContext_def getTask_row_a_def sql_get_update)

lemma tasks_saveCheckpoint:
  "autonomous_tasks (snd (saveCheckpoint cid now input db)) =
   (if sql_get cr_id cid (task_checkpoints db) = None
    then autonomous_tasks (updateLastCheckpoint now (ci_taskId input) cid db)
    else autonomous_tasks db)"
proof (cases "getTask_row_a db (ci_taskId input)")
  case None
  then have "sql_update ar_id (ci_taskId input) f (autonomous_tasks db) = autonomous_tasks db" for f
    by (intro sql_update_absent) (simp add: getTask_row_a_def sql_get_None_iff)
  with None show ?thesis
    by (simp add: saveCheckpoint_def updateLastCheckpoint_def Let_def)
next
  case (Some r)
  then show ?thesis
    by (auto simp: saveCheckpoint_def Let_def updateLastCheckpoint_def split: option.splits)
qed

lemma row_saveCheckpoint [store_views]:
  "getTask_row_a (snd (saveCheckpoint cid now input db)) k =
   (if k = ci_taskId input \<and> sql_get cr_id cid (task_checkpoints db) = None
    then map_option (\<lambda>r. r\<lparr>ar_last_checkpoint_id := Some cid,
                             ar_updated_at := Some (secs now)\<rparr>) (getTask_row_a db k)
    else getTask_row_a db k)"
  by (auto simp: getTask_row_a_def tasks_saveCheckpoint updateLastCheckpoint_def sql_get_update)

lemma tasks_others [simp]:
  "autonomous_tasks (snd (appendLog now tid step ev m d db)) = autonomous_tasks db"
  "autonomous_tasks (snd (savePolicyState now tid p db)) = autonomous_tasks db"
  "autonomous_tasks (clearPolicyState tid db) = autonomous_tasks db"
  "autonomous_tasks (snd (recordDailyTonSpend now w a db)) = autonomous_tasks db"
  by (simp_all add: appendLog_def savePolicyState_def clearPolicyState_def recordDailyTonSpend_def Let_def)

lemma row_others [simp]:
  "getTask_row_a (snd (appendLog now tid step ev m d db)) = getTask_row_a db"
  "getTask_row_a (snd (savePolicyState now tid p db)) = getTask_row_a db"
  "getTask_row_a (clearPolicyState tid db) = getTask_row_a db"
  "getTask_row_a (snd (recordDailyTonSpend now w a db)) = getTask_row_a db"
  by (simp_all add: getTask_row_a_def fun_eq_iff)

text \<open>The status of a task, and its step.\<close>

definition status_of :: "auto_id \<Rightarrow> 'p auto_db \<Rightarrow> auto_status option" where
  "status_of tid db = map_option ar_status (getTask_row_a db tid)"

definition step_of :: "auto_id \<Rightarrow> 'p auto_db \<Rightarrow> int option" where
  "step_of tid db = map_option ar_current_step (getTask_row_a db tid)"

lemma status_views [simp]:
  "status_of tid (snd (incrementStep now tid' db)) = status_of tid db"
  "status_of tid (updateContext now tid' ctx db) = status_of tid db"
  "status_of tid (snd (saveCheckpoint cid now input db)) = status_of tid db"
  "status_of tid (snd (appendLog now tid' step ev m d db)) = status_of tid db"
  "status_of tid (snd (savePolicyState now tid' p db)) = status_of tid db"
  "status_of tid (clearPolicyState tid' db) = status_of tid db"
  "status_of tid (snd (recordDailyTonSpend now w a db)) = status_of tid db"
  by (auto simp: status_of_def store_views option.map_comp comp_def)

lemma status_updateTaskStatus [simp]:
  "status_of tid (snd (updateTaskStatus now tid' st res err db)) =
   (if tid = tid' then map_option (\<lambda>_. st) (status_of tid db) else status_of tid db)"
  by (auto simp: status_of_def store_views option.map_comp comp_def)

lemma step_views [simp]:
  "step_of tid (updateContext now tid' ctx db) = step_of tid db"
  "step_of tid (snd (saveCheckpoint cid now input db)) = step_of tid db"
  "step_of tid (snd (appendLog now tid' step ev m d db)) = step_of tid db"
  "step_of tid (snd (savePolicyState now tid' p db)) = step_of tid db"
  "step_of tid (clearPolicyState tid' db) = step_of tid db"
  "step_of tid (snd (recordDailyTonSpend now w a db)) = step_of tid db"
  "step_of tid (snd (updateTaskStatus now tid' st res err db)) = step_of tid db"
  by (auto simp: step_of_def store_views option.map_comp comp_def)

lemma step_incrementStep [simp]:
  "step_of tid (snd (incrementStep now tid' db)) =
   (if tid = tid' then map_option (\<lambda>n. n + 1) (step_of tid db) else step_of tid db)"
  by (auto simp: step_of_def store_views option.map_comp comp_def)

section \<open>Checkpoint retention\<close>

definition checkpoints_of :: "auto_id \<Rightarrow> 'p auto_db \<Rightarrow> checkpoint_row list" where
  "checkpoints_of tid db = filter (\<lambda>r. cr_task_id r = tid) (task_checkpoints db)"

definition keep_limit :: "checkpoint_input \<Rightarrow> nat" where
  "keep_limit input = (case ci_keepLastN input of
                         Some n \<Rightarrow> if 0 < n then n else DEFAULT_CHECKPOINT_KEEP_LAST_N
                       | None \<Rightarrow> DEFAULT_CHECKPOINT_KEEP_LAST_N)"

definition checkpoint_row_of :: "string \<Rightarrow> int \<Rightarrow> checkpoint_input \<Rightarrow> checkpoint_row" where
  "checkpoint_row_of cid now input =
     \<lparr>cr_id = cid, cr_task_id = ci_taskId input, cr_step = ci_step input,
      cr_state = Text (jsonify_obj (ci_state input)),
      cr_tool_calls = Text (map jsonify (nullish (ci_toolCalls input) [])),
      cr_next_action_hint = ci_nextActionHint input, cr_created_at = now\<rparr>"

lemma checkpoint_row_of_simps [simp]:
  "cr_id (checkpoint_row_of cid now input) = cid"
  "cr_task_id (checkpoint_row_of cid now input) = ci_taskId input"
  "cr_created_at (checkpoint_row_of cid now input) = now"
  by (simp_all add: checkpoint_row_of_def)

lemma keep_limit_pos: "0 < keep_limit input"
  by (simp add: keep_limit_def DEFAULT_CHECKPOINT_KEEP_LAST_N_def split: option.split)

lemma saveCheckpoint_unfold:
  "saveCheckpoint cid nowMs input db =
     (if sql_get cr_id cid (task_checkpoints db) \<noteq> None then throw (AE_Unique cid) db
      else if getTask_row_a db (ci_taskId input) = None then throw (AE_ForeignKey (ci_taskId input)) db
      else
        let db' = (updateLastCheckpoint nowMs (ci_taskId input) cid db)
                    \<lparr>task_checkpoints := trim_checkpoints (keep_limit input) (ci_taskId input)
                        (task_checkpoints db @ [checkpoint_row_of cid (secs nowMs) input])\<rparr>
        in (case getCheckpoint db' cid of
              None \<Rightarrow> throw (AE_CreateFailed cid) db'
            | Some created \<Rightarrow> ret created db'))"
  by (simp add: saveCheckpoint_def keep_limit_def checkpoint_row_of_def Let_def)

text \<open>The trim keeps the newest rows, and a row that is at least as new as the task's others.\<close>

lemma kept_new_first:
  assumes "0 < n" and "cr_task_id row = tid"
    and "\<forall>r \<in> set rows. cr_task_id r = tid \<longrightarrow> cr_created_at r \<le> cr_created_at row"
  shows "kept_checkpoints n tid (rows @ [row]) = row # kept_checkpoints (n - 1) tid rows"
proof -
  have "order_desc cr_created_at (row # rev (filter (\<lambda>r. cr_task_id r = tid) rows)) =
        row # order_desc cr_created_at (rev (filter (\<lambda>r. cr_task_id r = tid) rows))"
    unfolding order_desc_def using assms(3) by (simp add: insort_is_Cons)
  then show ?thesis
    using assms(1,2) by (cases n) (simp_all add: kept_checkpoints_def)
qed

lemma kept_subset: "set (kept_checkpoints n tid rows) \<subseteq> set (filter (\<lambda>r. cr_task_id r = tid) rows)"
  unfolding kept_checkpoints_def by (rule order_trans [OF set_take_subset]) auto

lemma kept_distinct:
  assumes "distinct (map cr_id rows)"
  shows "distinct (map cr_id (kept_checkpoints n tid rows))"
proof -
  have "distinct (map cr_id (rev (filter (\<lambda>r. cr_task_id r = tid) rows)))"
    using assms by (simp add: distinct_map_filter rev_map [symmetric])
  then have "distinct (map cr_id (order_desc cr_created_at (rev (filter (\<lambda>r. cr_task_id r = tid) rows))))"
    by (simp add: order_desc_def distinct_map)
  then show ?thesis
    unfolding kept_checkpoints_def by (simp add: take_map [symmetric] del: take_map)
qed

lemma length_kept:
  "length (kept_checkpoints n tid rows) = min n (length (filter (\<lambda>r. cr_task_id r = tid) rows))"
  by (simp add: kept_checkpoints_def order_desc_def)

lemma trim_of_task:
  assumes "distinct (map cr_id rows)"
  shows "length (filter (\<lambda>r. cr_task_id r = tid) (trim_checkpoints n tid rows)) =
         min n (length (filter (\<lambda>r. cr_task_id r = tid) rows))"
proof -
  have "filter (\<lambda>r. cr_task_id r = tid) (trim_checkpoints n tid rows) =
        filter (\<lambda>r. cr_id r \<in> cr_id ` set (kept_checkpoints n tid rows))
          (filter (\<lambda>r. cr_task_id r = tid) rows)"
    unfolding trim_checkpoints_def sql_delete_def filter_filter by (rule filter_cong) auto
  moreover have "distinct (map cr_id (filter (\<lambda>r. cr_task_id r = tid) rows))"
    using assms by (rule distinct_map_filter)
  ultimately show ?thesis
    using length_filter_keys [OF _ kept_distinct [OF assms] kept_subset, of tid n]
    by (simp only: length_kept)
qed

lemma trim_others:
  "filter (\<lambda>r. cr_task_id r \<noteq> tid) (trim_checkpoints n tid rows) = filter (\<lambda>r. cr_task_id r \<noteq> tid) rows"
  unfolding trim_checkpoints_def sql_delete_def filter_filter by (rule filter_cong) auto

text \<open>
  Saving a checkpoint of an existing task, under a fresh id and with a clock that is not behind
  the task's earlier checkpoints, returns exactly what was saved (as JSON gives it back), leaves
  the task with the configured number of checkpoints at most and otherwise all of them, does not
  touch those of other tasks, and makes the new one the task's last checkpoint.
\<close>

theorem saveCheckpoint_retention:
  assumes "distinct (map cr_id (task_checkpoints db))"
    and "sql_get cr_id cid (task_checkpoints db) = None"
    and "getTask_row_a db (ci_taskId input) = Some row"
    and "list_all (\<lambda>r. cr_created_at r \<le> secs now) (checkpoints_of (ci_taskId input) db)"
  shows "fst (saveCheckpoint cid now input db) =
           Inr (rowToCheckpoint (checkpoint_row_of cid (secs now) input)) \<and>
         length (checkpoints_of (ci_taskId input) (snd (saveCheckpoint cid now input db))) =
           min (keep_limit input) (length (checkpoints_of (ci_taskId input) db) + 1) \<and>
         filter (\<lambda>r. cr_task_id r \<noteq> ci_taskId input)
             (task_checkpoints (snd (saveCheckpoint cid now input db))) =
           filter (\<lambda>r. cr_task_id r \<noteq> ci_taskId input) (task_checkpoints db) \<and>
         getTask_row_a (snd (saveCheckpoint cid now input db)) (ci_taskId input) =
           Some (row\<lparr>ar_last_checkpoint_id := Some cid, ar_updated_at := Some (secs now)\<rparr>)"
proof -
  define new where "new = checkpoint_row_of cid (secs now) input"
  define tid where "tid = ci_taskId input"
  define rows where "rows = task_checkpoints db @ [new]"
  define kept where "kept = kept_checkpoints (keep_limit input) tid rows"
  have d: "distinct (map cr_id rows)"
    unfolding rows_def using assms(1,2) by (intro distinct_insert) (simp_all add: new_def)
  have "new \<in> set kept"
    unfolding kept_def rows_def using assms(4) keep_limit_pos
    by (subst kept_new_first) (auto simp: new_def tid_def checkpoints_of_def list_all_iff)
  then have "new \<in> set (trim_checkpoints (keep_limit input) tid rows)"
    by (auto simp: trim_checkpoints_def set_sql_delete rows_def kept_def)
  moreover have "distinct (map cr_id (trim_checkpoints (keep_limit input) tid rows))"
    unfolding trim_checkpoints_def by (rule distinct_delete [OF d])
  ultimately have get: "sql_get cr_id cid (trim_checkpoints (keep_limit input) tid rows) = Some new"
    using sql_get_unique [of cr_id _ new] by (simp add: new_def)
  then have res: "saveCheckpoint cid now input db =
      (Inr (rowToCheckpoint new), (updateLastCheckpoint now tid cid db)
        \<lparr>task_checkpoints := trim_checkpoints (keep_limit input) tid rows\<rparr>)"
    using assms(2,3)
    by (simp add: saveCheckpoint_unfold Let_def getCheckpoint_def ret_def tid_def rows_def new_def)
  moreover have "length (filter (\<lambda>r. cr_task_id r = tid) rows) =
      length (checkpoints_of tid db) + 1"
    by (simp add: rows_def checkpoints_of_def new_def tid_def)
  moreover have "getTask_row_a (snd (saveCheckpoint cid now input db)) tid =
      Some (row\<lparr>ar_last_checkpoint_id := Some cid, ar_updated_at := Some (secs now)\<rparr>)"
    using assms(2,3) by (simp add: row_saveCheckpoint tid_def)
  moreover have "length (checkpoints_of tid (snd (saveCheckpoint cid now input db))) =
      min (keep_limit input) (length (filter (\<lambda>r. cr_task_id r = tid) rows))"
    using res trim_of_task [OF d, of tid "keep_limit input"] by (simp add: checkpoints_of_def)
  moreover have "filter (\<lambda>r. cr_task_id r \<noteq> tid) (task_checkpoints (snd (saveCheckpoint cid now input db))) =
      filter (\<lambda>r. cr_task_id r \<noteq> tid) (task_checkpoints db)"
    using res trim_others [of tid "keep_limit input" rows] by (simp add: rows_def new_def tid_def)
  ultimately show ?thesis by (simp add: new_def tid_def)
qed

section \<open>Policy snapshots and spend\<close>

lemma getPolicyState_save:
  "getPolicyState (snd (savePolicyState now tid p db)) k =
   (if k = tid \<and> getTask_row_a db tid \<noteq> None then Some p else getPolicyState db k)"
  by (auto simp: savePolicyState_def getPolicyState_def sql_get_update ret_def throw_def
      split: option.splits)

lemma getPolicyState_clear:
  "getPolicyState (clearPolicyState tid db) k = (if k = tid then None else getPolicyState db k)"
  by (simp add: getPolicyState_def clearPolicyState_def sql_get_delete)

lemma policy_state_others [simp]:
  "policy_state (snd (incrementStep now tid db)) = policy_state db"
  "policy_state (updateContext now tid ctx db) = policy_state db"
  "policy_state (snd (saveCheckpoint cid now input db)) = policy_state db"
  "policy_state (snd (appendLog now tid step ev m d db)) = policy_state db"
  "policy_state (snd (recordDailyTonSpend now w a db)) = policy_state db"
  "policy_state (snd (updateTaskStatus now tid st res err db)) = policy_state db"
  by (auto simp: incrementStep_def updateContext_def saveCheckpoint_unfold updateLastCheckpoint_def
      appendLog_def recordDailyTonSpend_def updateTaskStatus_def Let_def split: option.splits)

lemma spend_others [simp]:
  "daily_ton_spend (snd (incrementStep now tid db)) = daily_ton_spend db"
  "daily_ton_spend (updateContext now tid ctx db) = daily_ton_spend db"
  "daily_ton_spend (snd (saveCheckpoint cid now input db)) = daily_ton_spend db"
  "daily_ton_spend (snd (appendLog now tid step ev m d db)) = daily_ton_spend db"
  "daily_ton_spend (snd (savePolicyState now tid p db)) = daily_ton_spend db"
  "daily_ton_spend (clearPolicyState tid db) = daily_ton_spend db"
  "daily_ton_spend (snd (updateTaskStatus now tid st res err db)) = daily_ton_spend db"
  by (auto simp: incrementStep_def updateContext_def saveCheckpoint_unfold updateLastCheckpoint_def
      appendLog_def savePolicyState_def clearPolicyState_def updateTaskStatus_def Let_def
      split: option.splits)

definition valid_spend :: "js_num \<Rightarrow> bool" where
  "valid_spend amount = (js_isFinite amount \<and> \<not> js_le amount (Num 0))"

text \<open>
  The daily ledger adds up: a positive finite amount is added to the spend of its wallet and UTC
  day (a day without a row starts at the amount), which is the returned total; every other wallet
  and day keeps its spend, and any other amount is rejected without changing the ledger.
\<close>

theorem recordDailyTonSpend_ledger:
  "fst (recordDailyTonSpend now w amount db) =
     (if valid_spend amount then Inr (getDailyTonSpend (snd (recordDailyTonSpend now w amount db)) w now)
      else Inl (AE_BadSpend amount)) \<and>
   getDailyTonSpend (snd (recordDailyTonSpend now w amount db)) w' t =
     (if valid_spend amount \<and> w' = w \<and> utc_date t = utc_date now
      then (case sql_get spend_key (w, utc_date now) (daily_ton_spend db) of
              None \<Rightarrow> amount
            | Some r \<Rightarrow> js_add (getDailyTonSpend db w now) amount)
      else getDailyTonSpend db w' t)"
  by (auto simp: recordDailyTonSpend_def getDailyTonSpend_def valid_spend_def Let_def sql_get_update
      spend_key_def split: option.splits)

section \<open>Stale paused tasks\<close>

definition timeout_row :: "int \<Rightarrow> auto_row \<Rightarrow> auto_row" where
  "timeout_row now r = r\<lparr>ar_status := A_cancelled, ar_error := Some [S ''timeout-paused''],
                         ar_completed_at := Some now, ar_updated_at := Some now\<rparr>"

lemma sql_get_fold_update:
  assumes "\<And>r. key (f r) = key r" and "\<And>r. f (f r) = f r"
  shows "sql_get key k (fold (\<lambda>i. sql_update key i f) ids rows) =
         (if k \<in> set ids then map_option f (sql_get key k rows) else sql_get key k rows)"
  by (induction ids arbitrary: rows)
     (auto simp: sql_get_update assms option.map_comp comp_def)

text \<open>
  \<open>cancelStalePausedTasks\<close> cancels exactly the tasks that have been paused since before the
  cutoff, gives each the reason \<open>timeout-paused\<close>, returns their number, and leaves every other
  task alone.
\<close>

theorem cancelStalePausedTasks_exact:
  assumes "distinct (map ar_id (autonomous_tasks db))"
  shows "fst (cancelStalePausedTasks hours now1 now2 db) =
           length (filter (stale_paused (secs now1 - hours * 3600)) (autonomous_tasks db)) \<and>
         getTask_row_a (snd (cancelStalePausedTasks hours now1 now2 db)) tid =
           map_option (\<lambda>r. if stale_paused (secs now1 - hours * 3600) r then timeout_row (secs now2) r else r)
             (getTask_row_a db tid)"
proof -
  define stale where "stale = map ar_id (filter (stale_paused (secs now1 - hours * 3600)) (autonomous_tasks db))"
  have f: "(\<lambda>r. r\<lparr>ar_status := A_cancelled, ar_error := Some [S ''timeout-paused''],
                ar_completed_at := Some (secs now2), ar_updated_at := Some (secs now2)\<rparr>) = timeout_row (secs now2)"
    by (simp add: timeout_row_def fun_eq_iff)
  have "tid \<in> set stale \<longleftrightarrow> stale_paused (secs now1 - hours * 3600) r" if "getTask_row_a db tid = Some r" for r
    using that sql_get_Some_iff [OF assms, of tid r] assms
    by (auto simp: stale_def getTask_row_a_def distinct_map inj_on_def)
  then have "(if tid \<in> set stale then map_option (timeout_row (secs now2)) (getTask_row_a db tid)
              else getTask_row_a db tid) =
      map_option (\<lambda>r. if stale_paused (secs now1 - hours * 3600) r then timeout_row (secs now2) r else r)
        (getTask_row_a db tid)"
    by (cases "getTask_row_a db tid") auto
  moreover have "getTask_row_a (snd (cancelStalePausedTasks hours now1 now2 db)) tid =
      (if tid \<in> set stale then map_option (timeout_row (secs now2)) (getTask_row_a db tid)
       else getTask_row_a db tid)"
  proof -
    have "sql_get ar_id tid (fold (\<lambda>i. sql_update ar_id i (timeout_row (secs now2))) stale
              (autonomous_tasks db)) =
          (if tid \<in> set stale then map_option (timeout_row (secs now2)) (sql_get ar_id tid (autonomous_tasks db))
           else sql_get ar_id tid (autonomous_tasks db))"
      by (rule sql_get_fold_update) (simp_all add: timeout_row_def)
    then show ?thesis
      unfolding cancelStalePausedTasks_def f Let_def stale_def [symmetric] getTask_row_a_def
      by (cases "stale = []") simp_all
  qed
  moreover have "fst (cancelStalePausedTasks hours now1 now2 db) = length stale"
    unfolding cancelStalePausedTasks_def Let_def stale_def [symmetric] by simp
  ultimately show ?thesis by (simp add: stale_def)
qed

section \<open>Witnesses\<close>

definition small_input :: auto_input where
  "small_input = \<lparr>i_goal = ''g'', i_successCriteria = None, i_failureConditions = None,
     i_constraints = None, i_strategy = None, i_retryPolicy = None, i_context = None, i_priority = None\<rparr>"

definition small_db :: "unit auto_db" where
  "small_db = \<lparr>autonomous_tasks =
       [createTask_row_a ''a'' 100 small_input,
        (createTask_row_a ''b'' 100 small_input)\<lparr>ar_status := A_paused, ar_paused_at := Some 200\<rparr>],
     task_checkpoints =
       [\<lparr>cr_id = ''c1'', cr_task_id = ''a'', cr_step = 1, cr_state = Text [], cr_tool_calls = Corrupt,
         cr_next_action_hint = None, cr_created_at = 150\<rparr>],
     execution_logs = [], log_sequence = 0, policy_state = [], daily_ton_spend = []\<rparr>"

theorem saveCheckpoint_retention_witness:
  "length (checkpoints_of ''a'' (snd (saveCheckpoint ''c2'' 300000
     \<lparr>ci_taskId = ''a'', ci_step = 2, ci_state = [], ci_toolCalls = None, ci_nextActionHint = None,
      ci_keepLastN = Some 1\<rparr> small_db))) = 1"
proof -
  let ?input = "\<lparr>ci_taskId = ''a'', ci_step = 2, ci_state = [], ci_toolCalls = None,
      ci_nextActionHint = None, ci_keepLastN = Some (1::nat)\<rparr>"
  have "distinct (map cr_id (task_checkpoints small_db))"
    and "sql_get cr_id ''c2'' (task_checkpoints small_db) = None"
    and "getTask_row_a small_db (ci_taskId ?input) = Some (createTask_row_a ''a'' 100 small_input)"
    and "list_all (\<lambda>r. cr_created_at r \<le> secs 300000) (checkpoints_of (ci_taskId ?input) small_db)"
    by (simp_all add: small_db_def getTask_row_a_def createTask_row_a_def checkpoints_of_def secs_def)
  from saveCheckpoint_retention [OF this] show ?thesis by (simp add: keep_limit_def)
qed

end
