(* ===== verification/RateWindow.thy ===== *)
theory RateWindow
  imports Prelude
begin

text \<open>
  Rate limits over a sliding window, as the policy engine keeps them: a list of the timestamps that
  are still in the window, cut to the last \<open>limit\<close> ones. The locale \<open>rate_window\<close> is the contract of
  one such list in a component with any operations; inside it the bounded list is shown to decide
  the limit exactly as the unbounded log of all calls would.
\<close>

section \<open>Windows\<close>

text \<open>The timestamps less than \<open>width\<close> milliseconds old: \<open>ts.filter((t) => now - t < width)\<close>.\<close>

definition in_window :: "int \<Rightarrow> int \<Rightarrow> int list \<Rightarrow> int list" where
  "in_window width now ts = filter (\<lambda>t. now - t < width) ts"

lemma in_window_twice: "now \<le> now' \<Longrightarrow> in_window w now' (in_window w now ts) = in_window w now' ts"
  by (auto simp: in_window_def intro: filter_cong)

lemma in_window_append [simp]: "in_window w now (xs @ ys) = in_window w now xs @ in_window w now ys"
  by (simp add: in_window_def)

lemma slice_last_Cons:
  "0 < n \<Longrightarrow> slice_last n (x # xs) = (if n \<le> length xs then slice_last n xs else x # xs)"
  by (auto simp: slice_last_def Suc_diff_le)

lemma slice_last_slice_last_append:
  "0 < n \<Longrightarrow> slice_last n (slice_last n xs @ [y]) = slice_last n (xs @ [y])"
  by (cases "length xs \<le> n") (auto simp: slice_last_def Suc_diff_le)

text \<open>On an ordered list, looking at a later window commutes with keeping the last entries.\<close>

lemma in_window_slice_last:
  assumes "0 < n" and "sorted ts"
  shows "in_window w now (slice_last n ts) = slice_last n (in_window w now ts)"
  using assms(2)
proof (induction ts)
  case Nil
  then show ?case by (simp add: slice_last_def in_window_def)
next
  case (Cons t ts)
  show ?case
  proof (cases "n \<le> length ts")
    case short: False
    then have "length (in_window w now (t # ts)) \<le> n"
      using length_filter_le [of "\<lambda>t. now - t < w" "t # ts"] by (simp add: in_window_def)
    then show ?thesis
      using short assms(1) by (simp add: slice_last_Cons slice_last_short)
  next
    case long: True
    show ?thesis
    proof (cases "now - t < w")
      case True
      then have "in_window w now ts = ts"
        using Cons.prems by (auto simp: in_window_def intro!: filter_True)
      moreover have "in_window w now (t # ts) = t # in_window w now ts"
        using True by (simp add: in_window_def)
      ultimately show ?thesis
        using Cons long assms(1) by (simp add: slice_last_Cons)
    next
      case False
      then have "in_window w now (t # ts) = in_window w now ts"
        by (simp add: in_window_def)
      then show ?thesis
        using Cons long assms(1) by (simp add: slice_last_Cons)
    qed
  qed
qed

section \<open>The contract\<close>

text \<open>
  An operation \<open>c\<close> either records a call at \<open>recorded c\<close>, or only forgets what has left the window
  at \<open>pruned c\<close>, or leaves the list alone.
\<close>

definition happened :: "('c \<Rightarrow> int option) \<Rightarrow> ('c \<Rightarrow> int option) \<Rightarrow> 'c \<Rightarrow> int option" where
  "happened recorded pruned c = (case recorded c of Some t \<Rightarrow> Some t | None \<Rightarrow> pruned c)"

lemma happened_simps [simp]:
  "recorded c = Some t \<Longrightarrow> happened recorded pruned c = Some t"
  "recorded c = None \<Longrightarrow> happened recorded pruned c = pruned c"
  by (simp_all add: happened_def)

text \<open>The log of all calls, and a run whose clock readings do not go back.\<close>

definition call_log :: "('c \<Rightarrow> int option) \<Rightarrow> 'c list \<Rightarrow> int list" where
  "call_log recorded cs = List.map_filter recorded cs"

definition clock_ok :: "('c \<Rightarrow> int option) \<Rightarrow> ('c \<Rightarrow> int option) \<Rightarrow> 'c list \<Rightarrow> int \<Rightarrow> bool" where
  "clock_ok recorded pruned cs now = sorted (List.map_filter (happened recorded pruned) cs @ [now])"

locale rate_window =
  fixes calls :: "'s \<Rightarrow> int list"
    and limit :: "'s \<Rightarrow> nat"
    and width :: int
    and exec :: "'c \<Rightarrow> 's \<Rightarrow> 's"
    and recorded :: "'c \<Rightarrow> int option"
    and pruned :: "'c \<Rightarrow> int option"
  assumes record_calls: "recorded c = Some t \<Longrightarrow>
      calls (exec c s) = slice_last (limit s) (in_window width t (calls s @ [t]))"
    and prune_calls: "recorded c = None \<Longrightarrow>
      calls (exec c s) = (case pruned c of None \<Rightarrow> calls s | Some t \<Rightarrow> in_window width t (calls s))"
    and limit_exec: "limit (exec c s) = limit s"
    and width_pos: "0 < width"
begin

text \<open>The list represents a log: any window from now on shows the last calls of the log's window.\<close>

definition represents :: "int \<Rightarrow> int list \<Rightarrow> 's \<Rightarrow> bool" where
  "represents now log s \<longleftrightarrow> sorted log \<and> (\<forall>t \<in> set log. t \<le> now) \<and>
     (\<forall>now' \<ge> now. in_window width now' (calls s) = slice_last (limit s) (in_window width now' log))"

lemma represents_later: "represents now log s \<Longrightarrow> now \<le> now' \<Longrightarrow> represents now' log s"
  by (force simp: represents_def)

lemma represents_record:
  assumes "represents now log s" and "now \<le> t" and "recorded c = Some t" and "0 < limit s"
  shows "represents t (log @ [t]) (exec c s)"
proof -
  have sorted: "sorted (log @ [t])"
    using assms(1,2) by (auto simp: represents_def sorted_append)
  have "in_window width t (calls s) = slice_last (limit s) (in_window width t log)"
    using assms(1,2) by (simp add: represents_def)
  moreover have "in_window width t [t] = [t]"
    using width_pos by (simp add: in_window_def)
  ultimately have eq: "calls (exec c s) = slice_last (limit s) (in_window width t (log @ [t]))"
    using assms(3,4) by (simp add: record_calls slice_last_slice_last_append)
  have "in_window width now' (calls (exec c s)) = slice_last (limit s) (in_window width now' (log @ [t]))"
    if "t \<le> now'" for now'
  proof -
    have "sorted (in_window width t (log @ [t]))"
      using sorted unfolding in_window_def by (rule sorted_wrt_filter)
    then show ?thesis
      unfolding eq using that by (simp only: in_window_slice_last [OF assms(4)] in_window_twice)
  qed
  then show ?thesis
    using sorted assms(1,2) by (auto simp: represents_def limit_exec)
qed

lemma represents_other:
  assumes "represents now log s" and "recorded c = None"
    and "\<And>t. pruned c = Some t \<Longrightarrow> now \<le> t \<and> t \<le> now'" and "now \<le> now'"
  shows "represents now' log (exec c s)"
proof (cases "pruned c")
  case None
  then show ?thesis
    using represents_later [OF assms(1,4)] assms(2) by (simp add: represents_def prune_calls limit_exec)
next
  case (Some t)
  then show ?thesis
    using represents_later [OF assms(1,4)] assms(2) assms(3) [OF Some]
    by (auto simp: represents_def prune_calls limit_exec in_window_twice)
qed

lemma represents_run:
  assumes "represents now0 log s" and "0 < limit s"
    and "sorted (now0 # List.map_filter (happened recorded pruned) cs @ [now])"
  shows "represents now (log @ call_log recorded cs) (fold exec cs s) \<and> limit (fold exec cs s) = limit s"
  using assms
proof (induction cs arbitrary: now0 log s)
  case Nil
  then show ?case by (auto simp: call_log_def map_filter_simps intro: represents_later)
next
  case (Cons c cs)
  show ?case
  proof (cases "recorded c")
    case (Some t)
    then have "represents t (log @ [t]) (exec c s)"
      using Cons.prems by (auto simp: map_filter_simps intro: represents_record)
    moreover have "sorted (t # List.map_filter (happened recorded pruned) cs @ [now])"
      using Cons.prems(3) Some by (simp add: map_filter_simps)
    ultimately show ?thesis
      using Cons.IH [of t "log @ [t]" "exec c s"] Cons.prems(2) Some
      by (simp add: call_log_def map_filter_simps limit_exec)
  next
    case None
    define t where "t = (case pruned c of None \<Rightarrow> now0 | Some t \<Rightarrow> t)"
    have "represents t log (exec c s)"
      by (rule represents_other [OF Cons.prems(1) None])
        (use Cons.prems(3) None in \<open>auto simp: t_def map_filter_simps split: option.splits\<close>)
    moreover have "sorted (t # List.map_filter (happened recorded pruned) cs @ [now])"
      using Cons.prems(3) None by (auto simp: t_def map_filter_simps split: option.splits)
    ultimately show ?thesis
      using Cons.IH [of t log "exec c s"] Cons.prems(2) None
      by (simp add: call_log_def map_filter_simps limit_exec)
  qed
qed

text \<open>The bounded list decides the limit as the log of all calls would.\<close>

lemma limit_exact:
  assumes "calls s = []" and "0 < limit s" and "clock_ok recorded pruned cs now"
  shows "limit s \<le> length (in_window width now (calls (fold exec cs s))) \<longleftrightarrow>
         limit s \<le> length (in_window width now (call_log recorded cs))"
proof -
  define t0 where "t0 = hd (List.map_filter (happened recorded pruned) cs @ [now])"
  have "represents t0 [] s"
    using assms(1) by (simp add: represents_def in_window_def slice_last_def)
  moreover have "sorted (t0 # List.map_filter (happened recorded pruned) cs @ [now])"
    using assms(3) unfolding clock_ok_def t0_def
    by (cases "List.map_filter (happened recorded pruned) cs") auto
  ultimately have "represents now (call_log recorded cs) (fold exec cs s) \<and> limit (fold exec cs s) = limit s"
    using represents_run [of t0 "[]" s cs now] assms(2) by simp
  then have "in_window width now (calls (fold exec cs s)) =
             slice_last (limit s) (in_window width now (call_log recorded cs))"
    by (simp add: represents_def)
  then show ?thesis
    using assms(2) by (simp add: length_slice_last)
qed

end

end
