(* ===== verification/PolicyEngine.thy ===== *)
theory PolicyEngine
  imports AutonomousStore RateWindow
begin

text \<open>
  The guardrails of the autonomous loop: \<open>PolicyEngine\<close> of src/autonomous/policy-engine.ts.

  The engine's mutable state is a record; \<open>checkAction\<close> and the recording methods return it updated.
  \<open>Date.now()\<close> is an argument in milliseconds, read twice by \<open>checkAction\<close>. Tool parameters are JSON
  members. Violations carry their message as the pieces of its template literal. The configured
  limits on counts are natural numbers.
\<close>

definition DEFAULT_MAX_ITERATIONS :: js_num where
  "DEFAULT_MAX_ITERATIONS = Num 50"

datatype approval_mode = Approve_any | Approve_above_threshold | Approve_never

record policy_config =
  pc_perTask :: js_num
  pc_daily :: js_num
  pc_requireConfirmationAbove :: js_num
  pc_restrictedTools :: "string list"
  pc_requireHumanApproval :: approval_mode
  pc_uncertaintyThreshold :: js_num
  pc_maxConsecutiveUncertain :: nat
  pc_loopDetection :: bool
  pc_maxIdenticalActions :: nat
  pc_apiCallsPerMinute :: nat
  pc_toolCallsPerHour :: nat

definition DEFAULT_POLICY_CONFIG :: policy_config where
  "DEFAULT_POLICY_CONFIG =
     \<lparr>pc_perTask = fl (1 / 10),
      pc_daily = fl (1 / 2),
      pc_requireConfirmationAbove = fl (5 / 100),
      pc_restrictedTools =
        [''ton_send'', ''jetton_send'', ''dns_start_auction'', ''dns_bid'', ''dns_link'', ''dns_unlink'',
         ''dns_set_site'', ''stonfi_swap'', ''dedust_swap'', ''exec'', ''exec_run''],
      pc_requireHumanApproval = Approve_above_threshold,
      pc_uncertaintyThreshold = fl (7 / 10),
      pc_maxConsecutiveUncertain = 3,
      pc_loopDetection = True,
      pc_maxIdenticalActions = 5,
      pc_apiCallsPerMinute = 30,
      pc_toolCallsPerHour = 100\<rparr>"

record policy_snapshot =
  ps_toolCallTimestamps :: "int list"
  ps_apiCallTimestamps :: "int list"
  ps_consecutiveUncertainCount :: nat
  ps_recentActions :: "string list"

datatype violation =
    Budget_exceeded msg bool
  | Invalid_ton_amount msg "string option"
  | Restricted_tool msg string
  | Ton_confirmation msg js_num
  | Loop_detected msg
  | Rate_limit msg
  | Max_iterations msg
  | Duration_exceeded msg

fun violation_message :: "violation \<Rightarrow> msg" where
  "violation_message (Budget_exceeded m _) = m"
| "violation_message (Invalid_ton_amount m _) = m"
| "violation_message (Restricted_tool m _) = m"
| "violation_message (Ton_confirmation m _) = m"
| "violation_message (Loop_detected m) = m"
| "violation_message (Rate_limit m) = m"
| "violation_message (Max_iterations m) = m"
| "violation_message (Duration_exceeded m) = m"

record check_result =
  allowed :: bool
  requiresEscalation :: bool
  violations :: "violation list"

record policy_action =
  pa_toolName :: "string option"
  pa_params :: "context_obj option"
  pa_tonAmount :: "js_num option"
  pa_recentActions :: "string list option"

section \<open>What an action spends\<close>

datatype ton_spend = No_spend | Spend js_num | Invalid_spend msg

definition NATIVE_TON_ASSET :: string where
  "NATIVE_TON_ASSET = ''EQAAAAAAAAAAAAAAAAAAAAAAAAAAAAAAAAAAAAAAAAAAAM9c''"

definition PARAM_AMOUNT_TON_TOOLS :: "string list" where
  "PARAM_AMOUNT_TON_TOOLS = [''ton_send'', ''dns_start_auction'', ''dns_bid'']"

definition FIXED_TON_SPEND_BY_TOOL :: "(string \<times> js_num) list" where
  "FIXED_TON_SPEND_BY_TOOL =
     [(''jetton_send'', fl (5 / 100)), (''dns_link'', fl (5 / 100)),
      (''dns_unlink'', fl (5 / 100)), (''dns_set_site'', fl (5 / 100))]"

definition SWAP_TOOLS :: "string list" where
  "SWAP_TOOLS = [''stonfi_swap'', ''dedust_swap'']"

definition isFiniteNonNegativeAmount :: "js_num \<Rightarrow> bool" where
  "isFiniteNonNegativeAmount v = (js_isFinite v \<and> js_ge v (Num 0))"

text \<open>The value of a parameter: \<open>params?.name\<close>, undefined without parameters.\<close>

definition param :: "policy_action \<Rightarrow> string \<Rightarrow> json option" where
  "param action name = (case pa_params action of None \<Rightarrow> None | Some ps \<Rightarrow> map_of ps name)"

definition positiveAmount :: "json option \<Rightarrow> js_num option" where
  "positiveAmount v =
     (case v of
        Some (JNum n) \<Rightarrow> if js_isFinite n \<and> js_gt n (Num 0) then Some n else None
      | _ \<Rightarrow> None)"

text \<open>\<open>toLowerCase\<close> as far as a comparison with \<open>ton\<close> can see it.\<close>

definition lower_char :: "char \<Rightarrow> char" where
  "lower_char c = (if 65 \<le> (of_char c :: nat) \<and> (of_char c :: nat) \<le> 90
                   then char_of ((of_char c :: nat) + 32) else c)"

definition isNativeTonAsset :: "json option \<Rightarrow> bool" where
  "isNativeTonAsset v =
     (case v of
        Some (JStr s) \<Rightarrow> map lower_char s = ''ton'' \<or> s = NATIVE_TON_ASSET
      | _ \<Rightarrow> False)"

definition extractTonSpend :: "policy_action \<Rightarrow> ton_spend" where
  "extractTonSpend action =
     (case pa_toolName action of
        None \<Rightarrow> No_spend
      | Some toolName \<Rightarrow>
          if toolName = [] then No_spend
          else if toolName \<in> set PARAM_AMOUNT_TON_TOOLS then
            (case positiveAmount (param action ''amount'') of
               None \<Rightarrow> Invalid_spend [S ''Tool \"'', S toolName,
                 S ''\" requires a positive numeric params.amount for TON policy checks'']
             | Some amount \<Rightarrow> Spend amount)
          else
            (case map_of FIXED_TON_SPEND_BY_TOOL toolName of
               Some fixedAmount \<Rightarrow> Spend fixedAmount
             | None \<Rightarrow>
                 if toolName \<in> set SWAP_TOOLS then
                   (if \<not> isNativeTonAsset (param action ''from_asset'') then No_spend
                    else
                      (case positiveAmount (param action ''amount'') of
                         None \<Rightarrow> Invalid_spend [S ''Tool \"'', S toolName,
                           S ''\" requires a positive numeric params.amount when swapping from TON'']
                       | Some amount \<Rightarrow> Spend amount))
                 else
                   (case pa_tonAmount action of
                      Some a \<Rightarrow> if js_gt a (Num 0) then Spend a else No_spend
                    | None \<Rightarrow> No_spend)))"

section \<open>The engine\<close>

record engine =
  pe_toolCallTimestamps :: "int list"
  pe_apiCallTimestamps :: "int list"
  pe_consecutiveUncertainCount :: nat
  pe_recentActions :: "string list"
  pe_dailySpend :: js_num
  pe_config :: policy_config

definition new_engine :: "policy_config \<Rightarrow> engine" where
  "new_engine cfg = \<lparr>pe_toolCallTimestamps = [], pe_apiCallTimestamps = [],
     pe_consecutiveUncertainCount = 0, pe_recentActions = [], pe_dailySpend = Num 0, pe_config = cfg\<rparr>"

definition serialize :: "engine \<Rightarrow> policy_snapshot" where
  "serialize e = \<lparr>ps_toolCallTimestamps = pe_toolCallTimestamps e,
     ps_apiCallTimestamps = pe_apiCallTimestamps e,
     ps_consecutiveUncertainCount = pe_consecutiveUncertainCount e,
     ps_recentActions = pe_recentActions e\<rparr>"

text \<open>
  \<open>hydrate\<close> takes any stored object: a field that is not an array, respectively not a number, is
  replaced by its initial value. Such a field is None here.
\<close>

record partial_snapshot =
  pp_toolCallTimestamps :: "int list option"
  pp_apiCallTimestamps :: "int list option"
  pp_consecutiveUncertainCount :: "nat option"
  pp_recentActions :: "string list option"

definition partial_of :: "policy_snapshot \<Rightarrow> partial_snapshot" where
  "partial_of p = \<lparr>pp_toolCallTimestamps = Some (ps_toolCallTimestamps p),
     pp_apiCallTimestamps = Some (ps_apiCallTimestamps p),
     pp_consecutiveUncertainCount = Some (ps_consecutiveUncertainCount p),
     pp_recentActions = Some (ps_recentActions p)\<rparr>"

definition hydrate :: "partial_snapshot option \<Rightarrow> engine \<Rightarrow> engine" where
  "hydrate state e =
     (case state of
        None \<Rightarrow> e
      | Some p \<Rightarrow> e\<lparr>pe_toolCallTimestamps := nullish (pp_toolCallTimestamps p) [],
                     pe_apiCallTimestamps := nullish (pp_apiCallTimestamps p) [],
                     pe_consecutiveUncertainCount := nullish (pp_consecutiveUncertainCount p) 0,
                     pe_recentActions := nullish (pp_recentActions p) []\<rparr>)"

definition setDailySpend :: "js_num \<Rightarrow> engine \<Rightarrow> engine" where
  "setDailySpend amount e =
     e\<lparr>pe_dailySpend := (if isFiniteNonNegativeAmount amount then amount else Num 0)\<rparr>"

section \<open>The checks\<close>

text \<open>
  Each check of \<open>checkAction\<close> yields the violations it pushes, in order, each with what it does:
  count as blocking or request an escalation.
\<close>

datatype effect = Blocks | Escalates

type_synonym finding = "violation \<times> effect"

definition check_iterations :: "auto_task \<Rightarrow> finding list" where
  "check_iterations task =
     (let effectiveMax = coalesce (c_maxIterations (at_constraints task)) DEFAULT_MAX_ITERATIONS in
      if js_ge (js_int (at_currentStep task)) effectiveMax
      then [(Max_iterations [S ''Task has reached maximum iterations ('', N effectiveMax, S '')''], Blocks)]
      else [])"

text \<open>A limit of null, which is what a non-finite limit becomes in the database, compares as 0.\<close>

definition check_duration :: "int \<Rightarrow> auto_task \<Rightarrow> finding list" where
  "check_duration now task =
     (case (c_maxDurationHours (at_constraints task), at_startedAt task) of
        (Undefined, _) \<Rightarrow> []
      | (_, None) \<Rightarrow> []
      | (limit, Some startedAt) \<Rightarrow>
          if js_ge (js_int_div (now - startedAt) 3600000) (coalesce limit (Num 0))
          then [(Duration_exceeded [S ''Task has exceeded maximum duration of '',
                   (case limit of Val n \<Rightarrow> N n | _ \<Rightarrow> S ''null''), S ''h''], Blocks)]
          else [])"

definition check_tools :: "policy_config \<Rightarrow> auto_task \<Rightarrow> policy_action \<Rightarrow> finding list" where
  "check_tools cfg task action =
     (case pa_toolName action of
        None \<Rightarrow> []
      | Some toolName \<Rightarrow>
          if toolName = [] then []
          else
            (let c = at_constraints task in
             (case c_allowedTools c of
                Some tools \<Rightarrow>
                  if tools \<noteq> [] \<and> toolName \<notin> set tools
                  then [(Restricted_tool [S ''Tool \"'', S toolName, S ''\" is not in the allowed tools list'']
                          toolName, Blocks)]
                  else []
              | None \<Rightarrow> []) @
             (if toolName \<in> set (pc_restrictedTools cfg) \<or>
                 (case c_restrictedTools c of Some tools \<Rightarrow> toolName \<in> set tools | None \<Rightarrow> False)
              then [(Restricted_tool [S ''Tool \"'', S toolName,
                       S ''\" is restricted and requires user confirmation''] toolName, Escalates)]
              else [])))"

definition check_declared :: "policy_action \<Rightarrow> finding list" where
  "check_declared action =
     (case pa_tonAmount action of
        Some a \<Rightarrow>
          if isFiniteNonNegativeAmount a then []
          else [(Invalid_ton_amount
                   [S ''Declared tonAmount must be a finite non-negative number, got '', N a]
                   (pa_toolName action), Blocks)]
      | None \<Rightarrow> [])"

definition check_spend :: "policy_config \<Rightarrow> js_num \<Rightarrow> auto_task \<Rightarrow> policy_action \<Rightarrow> finding list" where
  "check_spend cfg dailySpend task action =
     (case extractTonSpend action of
        Invalid_spend m \<Rightarrow> [(Invalid_ton_amount m (pa_toolName action), Blocks)]
      | No_spend \<Rightarrow> []
      | Spend amount \<Rightarrow>
          if \<not> js_gt amount (Num 0) then []
          else
            (let budgetTON = coalesce (c_budgetTON (at_constraints task)) (pc_perTask cfg);
                 projected = js_add dailySpend amount
             in
             (if js_gt amount budgetTON
              then [(Budget_exceeded [S ''TON amount '', N amount, S '' exceeds budget '', N budgetTON,
                       S '' (per-task)''] True, Blocks)]
              else []) @
             (if js_gt projected (pc_daily cfg)
              then [(Budget_exceeded [S ''TON daily budget exceeded: '', TON dailySpend,
                       S '' already spent + '', TON amount, S '' requested = '', TON projected,
                       S '' (daily limit: '', TON (pc_daily cfg), S '')''] True, Blocks)]
              else []) @
             (if js_gt amount (pc_requireConfirmationAbove cfg)
              then [(Ton_confirmation [S ''TON amount '', N amount,
                       S '' requires user confirmation (threshold: '',
                       N (pc_requireConfirmationAbove cfg), S '')''] amount, Escalates)]
              else [])))"

abbreviation HOUR :: int where "HOUR \<equiv> 3600000"

abbreviation MINUTE :: int where "MINUTE \<equiv> 60000"

definition check_rates :: "policy_config \<Rightarrow> int list \<Rightarrow> int list \<Rightarrow> finding list" where
  "check_rates cfg toolCalls apiCalls =
     (if length toolCalls \<ge> pc_toolCallsPerHour cfg
      then [(Rate_limit [S ''Tool call rate limit exceeded ('',
               N (js_int (int (pc_toolCallsPerHour cfg))), S ''/hour)''], Blocks)]
      else []) @
     (if length apiCalls \<ge> pc_apiCallsPerMinute cfg
      then [(Rate_limit [S ''API call rate limit exceeded ('',
               N (js_int (int (pc_apiCallsPerMinute cfg))), S ''/min)''], Blocks)]
      else [])"

text \<open>\<open>lastN.every((a) => a === lastN[0])\<close> holds for an empty \<open>lastN\<close>.\<close>

definition check_loop :: "policy_config \<Rightarrow> policy_action \<Rightarrow> finding list" where
  "check_loop cfg action =
     (case pa_recentActions action of
        None \<Rightarrow> []
      | Some recent \<Rightarrow>
          if pc_loopDetection cfg \<and> length recent \<ge> pc_maxIdenticalActions cfg then
            (let lastN = slice_last (pc_maxIdenticalActions cfg) recent in
             if (\<forall>a \<in> set lastN. a = hd lastN)
             then [(Loop_detected [S ''Loop detected: same action repeated '',
                      N (js_int (int (pc_maxIdenticalActions cfg))), S '' times''], Escalates)]
             else [])
          else [])"

definition checkAction ::
  "int \<Rightarrow> int \<Rightarrow> auto_task \<Rightarrow> policy_action \<Rightarrow> engine \<Rightarrow> check_result \<times> engine" where
  "checkAction now1 now2 task action e =
     (let cfg = pe_config e;
          toolCalls = in_window HOUR now2 (pe_toolCallTimestamps e);
          apiCalls = in_window MINUTE now2 (pe_apiCallTimestamps e);
          findings = check_iterations task @ check_duration now1 task @ check_tools cfg task action @
                     check_declared action @ check_spend cfg (pe_dailySpend e) task action @
                     check_rates cfg toolCalls apiCalls @ check_loop cfg action
      in (\<lparr>allowed = (Blocks \<notin> snd ` set findings),
           requiresEscalation = (Escalates \<in> snd ` set findings),
           violations = map fst findings\<rparr>,
          e\<lparr>pe_toolCallTimestamps := toolCalls, pe_apiCallTimestamps := apiCalls\<rparr>))"

definition satisfiesPolicies ::
  "int \<Rightarrow> int \<Rightarrow> auto_task \<Rightarrow> policy_action \<Rightarrow> engine \<Rightarrow> check_result \<times> engine" where
  "satisfiesPolicies = checkAction"

section \<open>Recording\<close>

text \<open>Every recording method ends with \<open>notifyChange\<close>, which the loop connects to the store.\<close>

definition recordToolCall :: "int \<Rightarrow> engine \<Rightarrow> engine" where
  "recordToolCall now e =
     e\<lparr>pe_toolCallTimestamps :=
         slice_last (pc_toolCallsPerHour (pe_config e))
           (in_window HOUR now (pe_toolCallTimestamps e @ [now]))\<rparr>"

definition recordApiCall :: "int \<Rightarrow> engine \<Rightarrow> engine" where
  "recordApiCall now e =
     e\<lparr>pe_apiCallTimestamps :=
         slice_last (pc_apiCallsPerMinute (pe_config e))
           (in_window MINUTE now (pe_apiCallTimestamps e @ [now]))\<rparr>"

definition recordUncertain :: "engine \<Rightarrow> bool \<times> engine" where
  "recordUncertain e =
     (let n = pe_consecutiveUncertainCount e + 1 in
      (n \<ge> pc_maxConsecutiveUncertain (pe_config e), e\<lparr>pe_consecutiveUncertainCount := n\<rparr>))"

text \<open>The flag says whether the counter changed, that is, whether the change is notified.\<close>

definition resetUncertainCount :: "engine \<Rightarrow> bool \<times> engine" where
  "resetUncertainCount e =
     (if pe_consecutiveUncertainCount e = 0 then (False, e)
      else (True, e\<lparr>pe_consecutiveUncertainCount := 0\<rparr>))"

definition recordAction :: "string \<Rightarrow> engine \<Rightarrow> engine" where
  "recordAction toolName e =
     (let actions = pe_recentActions e @ [toolName] in
      e\<lparr>pe_recentActions := (if length actions > 20 then tl actions else actions)\<rparr>)"

definition getRecentActions :: "engine \<Rightarrow> string list" where
  "getRecentActions e = pe_recentActions e"

section \<open>What an allowed action satisfies\<close>

lemma allowed_iff:
  "allowed (fst (checkAction now1 now2 task action e)) \<longleftrightarrow>
   Blocks \<notin> snd ` set (check_iterations task) \<and> Blocks \<notin> snd ` set (check_duration now1 task) \<and>
   Blocks \<notin> snd ` set (check_tools (pe_config e) task action) \<and>
   Blocks \<notin> snd ` set (check_declared action) \<and>
   Blocks \<notin> snd ` set (check_spend (pe_config e) (pe_dailySpend e) task action) \<and>
   Blocks \<notin> snd ` set (check_rates (pe_config e) (in_window HOUR now2 (pe_toolCallTimestamps e))
                          (in_window MINUTE now2 (pe_apiCallTimestamps e))) \<and>
   Blocks \<notin> snd ` set (check_loop (pe_config e) action)"
  by (simp add: checkAction_def Let_def image_Un)

lemma escalation_iff:
  "requiresEscalation (fst (checkAction now1 now2 task action e)) \<longleftrightarrow>
   Escalates \<in> snd ` set (check_tools (pe_config e) task action) \<or>
   Escalates \<in> snd ` set (check_spend (pe_config e) (pe_dailySpend e) task action) \<or>
   Escalates \<in> snd ` set (check_loop (pe_config e) action)"
proof -
  have "Escalates \<notin> snd ` set (check_iterations task)"
    and "Escalates \<notin> snd ` set (check_declared action)"
    and "Escalates \<notin> snd ` set (check_rates (pe_config e) xs ys)" for xs ys
    by (auto simp: check_iterations_def check_declared_def check_rates_def Let_def split: option.splits)
  moreover have "Escalates \<notin> snd ` set (check_duration now1 task)"
    by (auto simp: check_duration_def split: jsval.splits option.splits)
  ultimately show ?thesis
    by (simp add: checkAction_def Let_def image_Un)
qed

lemma checkAction_engine:
  "snd (checkAction now1 now2 task action e) =
   e\<lparr>pe_toolCallTimestamps := in_window HOUR now2 (pe_toolCallTimestamps e),
     pe_apiCallTimestamps := in_window MINUTE now2 (pe_apiCallTimestamps e)\<rparr>"
  by (simp add: checkAction_def Let_def)

text \<open>The tools a task may not use on its own, by its configuration or its own constraints.\<close>

definition restricted :: "policy_config \<Rightarrow> auto_task \<Rightarrow> string \<Rightarrow> bool" where
  "restricted cfg task toolName =
     (toolName \<in> set (pc_restrictedTools cfg) \<or>
      (case c_restrictedTools (at_constraints task) of Some tools \<Rightarrow> toolName \<in> set tools | None \<Rightarrow> False))"

definition let_through :: "check_result \<Rightarrow> bool" where
  "let_through r = (allowed r \<and> \<not> requiresEscalation r)"

text \<open>Whether a task's list of allowed tools admits a tool: an absent or empty list admits all.\<close>

definition admitted :: "auto_task \<Rightarrow> string \<Rightarrow> bool" where
  "admitted task toolName =
     (case c_allowedTools (at_constraints task) of
        None \<Rightarrow> True
      | Some tools \<Rightarrow> tools = [] \<or> toolName \<in> set tools)"

text \<open>What an amount may not exceed: the task's budget, the confirmation threshold, the day's rest.\<close>

definition within_limits :: "engine \<Rightarrow> auto_task \<Rightarrow> js_num \<Rightarrow> bool" where
  "within_limits e task a =
     (\<not> js_gt a (coalesce (c_budgetTON (at_constraints task)) (pc_perTask (pe_config e))) \<and>
      \<not> js_gt a (pc_requireConfirmationAbove (pe_config e)) \<and>
      \<not> js_gt (js_add (pe_dailySpend e) a) (pc_daily (pe_config e)))"

lemma check_tools_let_through:
  assumes "pa_toolName action = Some toolName" and "toolName \<noteq> []"
  shows "Blocks \<notin> snd ` set (check_tools cfg task action) \<longleftrightarrow> admitted task toolName"
    and "Escalates \<notin> snd ` set (check_tools cfg task action) \<longleftrightarrow> \<not> restricted cfg task toolName"
  using assms
  by (cases "c_allowedTools (at_constraints task)",
      auto simp: check_tools_def restricted_def admitted_def Let_def image_Un split: if_splits)+

lemma check_spend_let_through:
  "Blocks \<notin> snd ` set (check_spend (pe_config e) (pe_dailySpend e) task action) \<and>
   Escalates \<notin> snd ` set (check_spend (pe_config e) (pe_dailySpend e) task action) \<longleftrightarrow>
   (case extractTonSpend action of
      No_spend \<Rightarrow> True
    | Invalid_spend m \<Rightarrow> False
    | Spend a \<Rightarrow> js_gt a (Num 0) \<longrightarrow> within_limits e task a)"
  by (cases "extractTonSpend action") (auto simp: check_spend_def within_limits_def Let_def)

lemma let_through_tools:
  assumes "let_through (fst (checkAction now1 now2 task action e))"
    and "pa_toolName action = Some toolName" and "toolName \<noteq> []"
  shows "\<not> restricted (pe_config e) task toolName \<and> admitted task toolName"
  using assms(1) check_tools_let_through [OF assms(2,3), of "pe_config e" task]
  by (simp only: let_through_def allowed_iff escalation_iff) blast

lemma let_through_spend:
  assumes "let_through (fst (checkAction now1 now2 task action e))"
  shows "case extractTonSpend action of
           No_spend \<Rightarrow> True
         | Invalid_spend m \<Rightarrow> False
         | Spend a \<Rightarrow> js_gt a (Num 0) \<longrightarrow> within_limits e task a"
  using assms check_spend_let_through [of e task action]
  by (simp only: let_through_def allowed_iff escalation_iff) blast

text \<open>
  C29. An action that the engine lets through without asking (allowed, no escalation) names no
  restricted tool and only a tool that the task admits, and what it spends, which is never
  invalid, neither exceeds the task's budget nor the confirmation threshold nor brings the day's
  spend above the daily limit.
\<close>

theorem let_through_safe:
  assumes "let_through (fst (checkAction now1 now2 task action e))"
    and "pa_toolName action = Some toolName" and "toolName \<noteq> []"
  shows "\<not> restricted (pe_config e) task toolName \<and> admitted task toolName \<and>
         (case extractTonSpend action of
            No_spend \<Rightarrow> True
          | Invalid_spend m \<Rightarrow> False
          | Spend a \<Rightarrow> js_gt a (Num 0) \<longrightarrow> within_limits e task a)"
  using let_through_tools [OF assms] let_through_spend [OF assms(1)] by blast

section \<open>Rate limits\<close>

text \<open>The methods of the engine as operations of a run, with their readings of the clock.\<close>

datatype engine_call =
    K_tool int
  | K_api int
  | K_check int int auto_task policy_action
  | K_uncertain
  | K_reset
  | K_action string
  | K_spend js_num

fun engine_exec :: "engine_call \<Rightarrow> engine \<Rightarrow> engine" where
  "engine_exec (K_tool now) e = recordToolCall now e"
| "engine_exec (K_api now) e = recordApiCall now e"
| "engine_exec (K_check now1 now2 task action) e = snd (checkAction now1 now2 task action e)"
| "engine_exec K_uncertain e = snd (recordUncertain e)"
| "engine_exec K_reset e = snd (resetUncertainCount e)"
| "engine_exec (K_action t) e = recordAction t e"
| "engine_exec (K_spend a) e = setDailySpend a e"

fun tool_time :: "engine_call \<Rightarrow> int option" where
  "tool_time (K_tool now) = Some now"
| "tool_time _ = None"

fun api_time :: "engine_call \<Rightarrow> int option" where
  "api_time (K_api now) = Some now"
| "api_time _ = None"

fun check_time :: "engine_call \<Rightarrow> int option" where
  "check_time (K_check _ now _ _) = Some now"
| "check_time _ = None"

text \<open>Both windows of the engine satisfy the contract of a rate window.\<close>

interpretation tool_window: rate_window pe_toolCallTimestamps "\<lambda>e. pc_toolCallsPerHour (pe_config e)"
  HOUR engine_exec tool_time check_time
proof (unfold_locales, goal_cases)
  case (1 c t s)
  then show ?case by (cases c) (simp_all add: recordToolCall_def)
next
  case (2 c s)
  then show ?case
    by (cases c) (simp_all add: recordApiCall_def checkAction_engine recordUncertain_def Let_def
        resetUncertainCount_def recordAction_def setDailySpend_def)
next
  case (3 c s)
  then show ?case
    by (cases c) (simp_all add: recordToolCall_def recordApiCall_def checkAction_engine
        recordUncertain_def Let_def resetUncertainCount_def recordAction_def setDailySpend_def)
next
  case 4
  then show ?case by simp
qed

interpretation api_window: rate_window pe_apiCallTimestamps "\<lambda>e. pc_apiCallsPerMinute (pe_config e)"
  MINUTE engine_exec api_time check_time
proof (unfold_locales, goal_cases)
  case (1 c t s)
  then show ?case by (cases c) (simp_all add: recordApiCall_def)
next
  case (2 c s)
  then show ?case
    by (cases c) (simp_all add: recordToolCall_def checkAction_engine recordUncertain_def Let_def
        resetUncertainCount_def recordAction_def setDailySpend_def)
next
  case (3 c s)
  then show ?case
    by (cases c) (simp_all add: recordToolCall_def recordApiCall_def checkAction_engine
        recordUncertain_def Let_def resetUncertainCount_def recordAction_def setDailySpend_def)
next
  case 4
  then show ?case by simp
qed

lemma config_fold: "pe_config (fold engine_exec cs e) = pe_config e"
proof (induction cs arbitrary: e)
  case Nil
  then show ?case by simp
next
  case (Cons c cs)
  have "pe_config (engine_exec c e) = pe_config e"
    by (cases c) (simp_all add: recordToolCall_def recordApiCall_def checkAction_engine
        recordUncertain_def Let_def resetUncertainCount_def recordAction_def setDailySpend_def)
  then show ?case using Cons.IH by simp
qed

text \<open>
  The tool-call limit is exact although the engine forgets: after any operations at clock
  readings that do not go back, an engine that started empty blocks an action for its tool-call
  rate exactly when the last hour of the complete log of tool calls holds the limit or more.
\<close>

theorem tool_rate_exact:
  assumes "0 < pc_toolCallsPerHour cfg" and "clock_ok tool_time check_time cs now"
  shows "(Rate_limit [S ''Tool call rate limit exceeded ('', N (js_int (int (pc_toolCallsPerHour cfg))),
            S ''/hour)''], Blocks)
           \<in> set (check_rates cfg (in_window HOUR now (pe_toolCallTimestamps (fold engine_exec cs (new_engine cfg)))) apiCalls)
         \<longleftrightarrow> pc_toolCallsPerHour cfg \<le> length (in_window HOUR now (call_log tool_time cs))"
proof -
  have "pe_toolCallTimestamps (new_engine cfg) = []" and c: "pe_config (new_engine cfg) = cfg"
    by (simp_all add: new_engine_def)
  then have "pc_toolCallsPerHour cfg \<le>
      length (in_window HOUR now (pe_toolCallTimestamps (fold engine_exec cs (new_engine cfg)))) \<longleftrightarrow>
      pc_toolCallsPerHour cfg \<le> length (in_window HOUR now (call_log tool_time cs))"
    using tool_window.limit_exact [of "new_engine cfg" cs now] assms by simp
  then show ?thesis by (auto simp: check_rates_def)
qed

section \<open>Snapshots\<close>

text \<open>
  Pausing does not forget: hydrating a fresh engine of the same configuration from the snapshot
  of an engine gives that engine back, up to the daily spend, which the loop reads from the
  store before every check.
\<close>

theorem hydrate_serialize:
  "hydrate (Some (partial_of (serialize e))) (new_engine (pe_config e)) = e\<lparr>pe_dailySpend := Num 0\<rparr>"
  by (simp add: hydrate_def partial_of_def serialize_def new_engine_def)

section \<open>Loop detection\<close>

text \<open>The tool names recorded in a run, oldest first, and what the engine keeps of them.\<close>

fun recorded_action :: "engine_call \<Rightarrow> string option" where
  "recorded_action (K_action t) = Some t"
| "recorded_action _ = None"

definition action_log :: "engine_call list \<Rightarrow> string list" where
  "action_log cs = List.map_filter recorded_action cs"

lemma recordAction_slice:
  "pe_recentActions e = slice_last 20 hist \<Longrightarrow>
   pe_recentActions (recordAction t e) = slice_last 20 (hist @ [t])"
proof (cases "length hist \<le> 19")
  case False
  then have "Suc (length hist - 20) = length hist - 19" by simp
  then have "tl (drop (length hist - 20) hist) = drop (length hist - 19) hist"
    by (metis drop_Suc tl_drop)
  moreover assume "pe_recentActions e = slice_last 20 hist"
  ultimately show ?thesis
    using False by (simp add: recordAction_def Let_def slice_last_def)
qed (simp add: recordAction_def Let_def slice_last_def)

lemma recentActions_exec:
  "pe_recentActions e = slice_last 20 hist \<Longrightarrow>
   pe_recentActions (engine_exec c e) =
   slice_last 20 (hist @ (case recorded_action c of Some t \<Rightarrow> [t] | None \<Rightarrow> []))"
  by (cases c) (simp_all add: recordToolCall_def recordApiCall_def checkAction_engine
      recordUncertain_def Let_def resetUncertainCount_def setDailySpend_def recordAction_slice)

lemma recentActions_fold:
  "pe_recentActions e = slice_last 20 hist \<Longrightarrow>
   pe_recentActions (fold engine_exec cs e) = slice_last 20 (hist @ action_log cs)"
proof (induction cs arbitrary: e hist)
  case Nil
  then show ?case by (simp add: action_log_def map_filter_simps)
next
  case (Cons c cs)
  show ?case
    using Cons.IH [OF recentActions_exec [OF Cons.prems, of c]]
    by (simp add: action_log_def map_filter_simps split: option.splits)
qed

lemma recentActions_run:
  "pe_recentActions (fold engine_exec cs (new_engine cfg)) = slice_last 20 (action_log cs)"
  using recentActions_fold [of "new_engine cfg" "[]" cs] by (simp add: new_engine_def slice_last_def)

lemma slice_last_of_slice_last:
  "0 < n \<Longrightarrow> n \<le> m \<Longrightarrow> slice_last n (slice_last m xs) = slice_last n xs"
proof -
  assume "0 < n" "n \<le> m"
  moreover have "length xs - (length xs - m + n) + (length xs - m) = length xs - n"
    if "m \<le> length xs" using that \<open>n \<le> m\<close> by simp
  ultimately show ?thesis by (cases "m \<le> length xs") (simp_all add: slice_last_def)
qed

text \<open>The history says that the last \<open>n\<close> actions were recorded and are all the same.\<close>

definition repeated :: "nat \<Rightarrow> string list \<Rightarrow> bool" where
  "repeated n hist = (n \<le> length hist \<and> list_all (\<lambda>a. a = hd (slice_last n hist)) (slice_last n hist))"

lemma check_loop_iff:
  "pa_recentActions action = Some recent \<Longrightarrow>
   Escalates \<in> snd ` set (check_loop cfg action) \<longleftrightarrow>
   pc_loopDetection cfg \<and> repeated (pc_maxIdenticalActions cfg) recent"
  by (cases "pc_loopDetection cfg \<and> repeated (pc_maxIdenticalActions cfg) recent")
     (auto simp: check_loop_def repeated_def Let_def list_all_iff)

lemma repeated_window: "0 < n \<Longrightarrow> repeated n (slice_last 20 hist) \<longleftrightarrow> n \<le> 20 \<and> repeated n hist"
proof (cases "n \<le> 20")
  case True
  assume "0 < n"
  then show ?thesis
    using True by (auto simp: repeated_def slice_last_of_slice_last length_slice_last)
next
  case False
  then show ?thesis by (simp add: repeated_def length_slice_last)
qed

text \<open>
  Loop detection sees exactly the repetitions of up to 20 actions: checked with the history
  that the engine keeps, an action that is otherwise unrestricted requires an escalation if and
  only if detection is enabled, the configured number of repetitions is at most 20, and the
  complete log of recorded actions ends with that many identical ones. A configured number
  above 20 is therefore never detected.
\<close>

theorem loop_detection_exact:
  assumes "0 < pc_maxIdenticalActions cfg"
    and "pa_recentActions action = Some (getRecentActions (fold engine_exec cs (new_engine cfg)))"
  shows "Escalates \<in> snd ` set (check_loop cfg action) \<longleftrightarrow>
         pc_loopDetection cfg \<and> pc_maxIdenticalActions cfg \<le> 20 \<and>
         repeated (pc_maxIdenticalActions cfg) (action_log cs)"
  using check_loop_iff [OF assms(2)]
  by (simp add: getRecentActions_def recentActions_run repeated_window [OF assms(1)])

section \<open>Witnesses\<close>

definition example_input :: auto_input where
  "example_input = \<lparr>i_goal = ''watch the floor price'', i_successCriteria = Some [''alert sent''],
     i_failureConditions = None, i_constraints = None, i_strategy = None, i_retryPolicy = None,
     i_context = None, i_priority = None\<rparr>"

definition example_task :: auto_task where
  "example_task = rowToTask_a (createTask_row_a ''a1'' 1000 example_input)"

definition example_action :: policy_action where
  "example_action = \<lparr>pa_toolName = Some ''gift_buy'', pa_params = Some [],
     pa_tonAmount = Some (Num 1), pa_recentActions = Some []\<rparr>"

definition example_cfg :: policy_config where
  "example_cfg = \<lparr>pc_perTask = Num 3, pc_daily = Num 5, pc_requireConfirmationAbove = Num 2,
     pc_restrictedTools = [''ton_send'', ''exec''], pc_requireHumanApproval = Approve_above_threshold,
     pc_uncertaintyThreshold = Num 1, pc_maxConsecutiveUncertain = 3, pc_loopDetection = True,
     pc_maxIdenticalActions = 2, pc_apiCallsPerMinute = 30, pc_toolCallsPerHour = 2\<rparr>"

lemma example_checks:
  "check_iterations example_task = []"
  "check_duration 5 example_task = []"
  "check_tools example_cfg example_task example_action = []"
  "check_declared example_action = []"
  "check_rates example_cfg [] [] = []"
  "check_loop example_cfg example_action = []"
  "extractTonSpend example_action = Spend (Num 1)"
  "at_constraints example_task = no_constraints"
  by (simp_all add: example_task_def rowToTask_a_def createTask_row_a_def example_input_def
      no_constraints_def jsonify_constraints_def safeJSONParse_def check_iterations_def
      DEFAULT_MAX_ITERATIONS_def check_duration_def check_tools_def example_cfg_def
      example_action_def check_declared_def isFiniteNonNegativeAmount_def js_ge_def js_gt_def
      check_rates_def check_loop_def extractTonSpend_def PARAM_AMOUNT_TON_TOOLS_def
      FIXED_TON_SPEND_BY_TOOL_def SWAP_TOOLS_def)

lemma example_within: "within_limits (new_engine example_cfg) example_task (Num 1)"
proof -
  have "fl (0 + 1) = Num 1" using fl_int [of 1] by simp
  then show ?thesis
    by (simp add: within_limits_def example_checks no_constraints_def new_engine_def example_cfg_def js_gt_def)
qed

theorem let_through_safe_witness:
  "extractTonSpend example_action = Spend (Num 1) \<and> admitted example_task ''gift_buy'' \<and>
   within_limits (new_engine example_cfg) example_task (Num 1)"
proof -
  have c: "pe_config (new_engine example_cfg) = example_cfg" by (simp add: new_engine_def)
  have "check_spend example_cfg (pe_dailySpend (new_engine example_cfg)) example_task example_action = []"
    using example_within by (simp add: check_spend_def example_checks within_limits_def c)
  then have a: "let_through (fst (checkAction 5 5 example_task example_action (new_engine example_cfg)))"
    by (simp add: let_through_def checkAction_def Let_def c example_checks new_engine_def in_window_def)
  have b: "pa_toolName example_action = Some ''gift_buy''" by code_simp
  have d: "js_gt (Num 1) (Num 0)" by code_simp
  show ?thesis using let_through_safe [OF a b] example_checks(7) d by simp
qed

definition example_engine_calls :: "engine_call list" where
  "example_engine_calls = [K_tool 0, K_action ''a'', K_tool 1000, K_action ''b'',
     K_check 2000 2000 example_task example_action, K_tool 3000, K_action ''b'']"

theorem tool_rate_exact_witness:
  "(Rate_limit [S ''Tool call rate limit exceeded ('', N (js_int 2), S ''/hour)''], Blocks)
     \<in> set (check_rates example_cfg (in_window HOUR 3600000
             (pe_toolCallTimestamps (fold engine_exec example_engine_calls (new_engine example_cfg)))) [])"
proof -
  have l: "pc_toolCallsPerHour example_cfg = 2" by (simp add: example_cfg_def)
  then have a: "0 < pc_toolCallsPerHour example_cfg" by simp
  have b: "clock_ok tool_time check_time example_engine_calls 3600000" by code_simp
  have "2 \<le> length (in_window HOUR 3600000 (call_log tool_time example_engine_calls))" by code_simp
  then show ?thesis using tool_rate_exact [OF a b, of "[]"] l by simp
qed

theorem loop_detection_exact_witness:
  "Escalates \<in> snd ` set (check_loop example_cfg (example_action\<lparr>pa_recentActions :=
     Some (getRecentActions (fold engine_exec example_engine_calls (new_engine example_cfg)))\<rparr>))"
proof -
  have a: "0 < pc_maxIdenticalActions example_cfg" by code_simp
  have "pc_loopDetection example_cfg \<and> pc_maxIdenticalActions example_cfg \<le> 20 \<and>
        repeated (pc_maxIdenticalActions example_cfg) (action_log example_engine_calls)"
    by code_simp
  then show ?thesis
    using loop_detection_exact [OF a, of "example_action\<lparr>pa_recentActions :=
      Some (getRecentActions (fold engine_exec example_engine_calls (new_engine example_cfg)))\<rparr>"] by simp
qed

end
