(* ===== verification/AutonomousLoop.thy ===== *)
theory AutonomousLoop
  imports PolicyEngine
begin

text \<open>
  The autonomous loop: \<open>AutonomousLoop\<close> of src/autonomous/loop.ts over the task store and the policy
  engine.

  The loop is asynchronous. While it awaits one of its dependencies, other callers may do anything
  to the world outside: change the database (pause, cancel or delete the task), call \<open>stop()\<close>, let
  time pass. A dependency is therefore a parameter: a function of the outside world that returns how
  its promise settled together with an arbitrary new outside world. Between two awaits the loop runs
  to completion alone, and the clock is read as one instant. A planner that has not settled after 30
  seconds is \<open>None\<close>; the other dependencies are assumed to settle. The local variables of \<open>run\<close> that
  its catch block still reads are part of the loop's state. Two components are not in the program
  and only observe it: \<open>ls_executed\<close> lists the tool calls made, each with the task, the engine and
  the day's spend it was decided on, and \<open>ls_seen\<close> is the task's status when the last await returned.
  Log output and the metrics counter are left out.
\<close>

definition MAX_GLOBAL_ITERATIONS :: int where
  "MAX_GLOBAL_ITERATIONS = 500"

section \<open>Data\<close>

record planned_action =
  pl_toolName :: string
  pl_params :: context_obj
  pl_reasoning :: "string option"
  pl_tonAmount :: "js_num option"
  pl_confidence :: "js_num option"

record tool_result =
  tr_success :: bool
  tr_data :: "json option"
  tr_error :: "string option"
  tr_durationMs :: "int option"

record adjustments =
  adj_contextAdditions :: "context_obj option"
  adj_nextActionHint :: "string option"

record reflection =
  rf_progressSummary :: string
  rf_isStuck :: bool
  rf_goalAchieved :: "bool option"
  rf_adjustments :: "adjustments option"
  rf_shouldEscalate :: "bool option"
  rf_escalationReason :: "string option"

datatype loop_status = L_completed | L_failed | L_paused | L_cancelled

record loop_result =
  lres_status :: loop_status
  lres_output :: "json option"
  lres_error :: "msg option"
  lres_totalSteps :: int
  lres_durationMs :: int

text \<open>The world outside the loop, and how a promise settles.\<close>

record 'e outside =
  out_db :: "partial_snapshot auto_db"
  out_now :: int
  out_aborted :: bool
  out_rest :: 'e

datatype 'a settled = Resolved 'a | Rejected string

type_synonym history = "(planned_action \<times> tool_result) list"

record 'e loop_env =
  planNextAction :: "auto_task \<Rightarrow> history \<Rightarrow> checkpoint option \<Rightarrow> 'e outside \<Rightarrow>
                       planned_action settled option \<times> 'e outside"
  executeTool :: "string \<Rightarrow> context_obj \<Rightarrow> 'e outside \<Rightarrow> tool_result settled \<times> 'e outside"
  evaluateSuccess :: "auto_task \<Rightarrow> tool_result \<Rightarrow> 'e outside \<Rightarrow> bool settled \<times> 'e outside"
  selfReflect :: "auto_task \<Rightarrow> planned_action \<Rightarrow> tool_result \<Rightarrow> 'e outside \<Rightarrow> reflection settled \<times> 'e outside"
  escalate :: "auto_task \<Rightarrow> msg \<Rightarrow> planned_action option \<Rightarrow> 'e outside \<Rightarrow> unit settled \<times> 'e outside"
  randomUUID :: "'e outside \<Rightarrow> string"
  sqlSum :: "js_num list \<Rightarrow> js_num"

record executed =
  ex_task :: auto_task
  ex_action :: planned_action
  ex_engine :: engine
  ex_spent :: js_num

record 'e loop_state =
  ls_out :: "'e outside"
  ls_engine :: engine
  ls_connected :: bool
  ls_current :: auto_task
  ls_history :: history
  ls_checkpoint :: "checkpoint option"
  ls_executed :: "executed list"
  ls_seen :: "auto_status option option"

datatype loop_exn = Loop_aborted | Js_error msg

type_synonym ('e, 'a) act = "'e loop_state \<Rightarrow> (loop_exn, 'a, 'e loop_state) outcome"

text \<open>A phase of the loop body either returns from \<open>run\<close> or goes on.\<close>

datatype 'a flow = Return loop_result | Go 'a

section \<open>Sequencing\<close>

definition bind_act :: "('e, 'a) act \<Rightarrow> ('a \<Rightarrow> ('e, 'b) act) \<Rightarrow> ('e, 'b) act" where
  "bind_act m f s = (case m s of (Inl e, s') \<Rightarrow> (Inl e, s') | (Inr x, s') \<Rightarrow> f x s')"

definition then_act :: "('e, 'a) act \<Rightarrow> ('e, 'b) act \<Rightarrow> ('e, 'b) act" where
  "then_act m k = bind_act m (\<lambda>_. k)"

text \<open>\<open>try m catch (err) h\<close>, with the abort signal rethrown.\<close>

definition catch_js :: "('e, 'a) act \<Rightarrow> (msg \<Rightarrow> ('e, 'a) act) \<Rightarrow> ('e, 'a) act" where
  "catch_js m h s = (case m s of
                       (Inl (Js_error e), s') \<Rightarrow> h e s'
                     | (Inl Loop_aborted, s') \<Rightarrow> (Inl Loop_aborted, s')
                     | (Inr x, s') \<Rightarrow> (Inr x, s'))"

text \<open>After a phase that may return.\<close>

definition unless_returned :: "('e, 'a flow) act \<Rightarrow> ('a \<Rightarrow> ('e, 'b flow) act) \<Rightarrow> ('e, 'b flow) act" where
  "unless_returned m f =
     bind_act m (\<lambda>fl. case fl of Return r \<Rightarrow> ret (Return r) | Go x \<Rightarrow> f x)"

section \<open>The store and the engine\<close>

definition ls_db :: "'e loop_state \<Rightarrow> partial_snapshot auto_db" where
  "ls_db s = out_db (ls_out s)"

definition ls_now :: "'e loop_state \<Rightarrow> int" where
  "ls_now s = out_now (ls_out s)"

definition set_db :: "partial_snapshot auto_db \<Rightarrow> 'e loop_state \<Rightarrow> 'e loop_state" where
  "set_db db s = s\<lparr>ls_out := (ls_out s)\<lparr>out_db := db\<rparr>\<rparr>"

fun auto_error_message :: "auto_error \<Rightarrow> msg" where
  "auto_error_message (AE_Unique k) = [S ''UNIQUE constraint failed: task_checkpoints.id'']"
| "auto_error_message (AE_ForeignKey k) = [S ''FOREIGN KEY constraint failed'']"
| "auto_error_message (AE_CreateFailed k) = [S ''Failed to create task checkpoint: '', S k]"
| "auto_error_message (AE_BadSpend n) = [S ''Daily TON spend must be a positive finite number, got '', N n]"

text \<open>A call of the store: what it throws becomes a JavaScript error.\<close>

definition store_act ::
  "(int \<Rightarrow> partial_snapshot auto_db \<Rightarrow> (auto_error, 'a, partial_snapshot auto_db) outcome) \<Rightarrow> ('e, 'a) act" where
  "store_act f s = (case f (ls_now s) (ls_db s) of
                      (Inl err, db') \<Rightarrow> throw (Js_error (auto_error_message err)) (set_db db' s)
                    | (Inr x, db') \<Rightarrow> ret x (set_db db' s))"

definition log_act :: "auto_id \<Rightarrow> event_type \<Rightarrow> msg \<Rightarrow> json option \<Rightarrow> ('e, unit) act" where
  "log_act tid ev m data s =
     store_act (\<lambda>now. appendLog now tid (at_currentStep (ls_current s)) ev m data) s"

text \<open>A mutation of the engine, written through to the store while the callback is connected.\<close>

definition engine_act :: "auto_id \<Rightarrow> (int \<Rightarrow> engine \<Rightarrow> engine) \<Rightarrow> ('e, unit) act" where
  "engine_act tid f s =
     (let s' = s\<lparr>ls_engine := f (ls_now s) (ls_engine s)\<rparr> in
      if ls_connected s'
      then store_act (\<lambda>now. savePolicyState now tid (partial_of (serialize (ls_engine s')))) s'
      else ret () s')"

definition syncDailySpend :: "'e loop_env \<Rightarrow> ('e, unit) act" where
  "syncDailySpend env s =
     ret () (s\<lparr>ls_engine := setDailySpend (getTotalDailyTonSpend (sqlSum env) (ls_db s) (ls_now s))
                             (ls_engine s)\<rparr>)"

definition throwIfAborted :: "('e, unit) act" where
  "throwIfAborted s = (if out_aborted (ls_out s) then throw Loop_aborted s else ret () s)"

definition EXTERNAL_TERMINAL_STATUSES :: "auto_status list" where
  "EXTERNAL_TERMINAL_STATUSES = [A_paused, A_cancelled, A_completed, A_failed]"

definition safeUpdateStatus ::
  "auto_id \<Rightarrow> auto_status \<Rightarrow> msg option \<Rightarrow> msg option \<Rightarrow> ('e, bool) act" where
  "safeUpdateStatus tid status result err s =
     (case getTask_a (ls_db s) tid of
        Some existing \<Rightarrow>
          if at_status existing \<in> set EXTERNAL_TERMINAL_STATUSES \<and> at_status existing \<noteq> status
          then ret False s
          else ret True (set_db (snd (updateTaskStatus (ls_now s) tid status result err (ls_db s))) s)
      | None \<Rightarrow> ret True (set_db (snd (updateTaskStatus (ls_now s) tid status result err (ls_db s))) s))"

definition clearStateOnTerminal :: "auto_id \<Rightarrow> ('e, unit) act" where
  "clearStateOnTerminal tid s =
     (case getTask_a (ls_db s) tid of
        Some now \<Rightarrow> if at_status now = A_paused then ret () s
                    else ret () (set_db (clearPolicyState tid (ls_db s)) s)
      | None \<Rightarrow> ret () (set_db (clearPolicyState tid (ls_db s)) s))"

text \<open>\<open>current = this.store.getTask(task.id) ?? current\<close>\<close>

definition refresh :: "auto_id \<Rightarrow> ('e, unit) act" where
  "refresh tid s = ret () (s\<lparr>ls_current := nullish (getTask_a (ls_db s) tid) (ls_current s)\<rparr>)"

definition awaiting :: "auto_id \<Rightarrow> ('e outside \<Rightarrow> 'a \<times> 'e outside) \<Rightarrow> ('e, 'a) act" where
  "awaiting tid f s =
     (case f (ls_out s) of
        (x, out') \<Rightarrow> ret x (s\<lparr>ls_out := out', ls_seen := Some (status_of tid (out_db out'))\<rparr>))"

text \<open>\<open>await p\<close>: a rejection is thrown.\<close>

definition await :: "auto_id \<Rightarrow> ('e outside \<Rightarrow> 'a settled \<times> 'e outside) \<Rightarrow> ('e, 'a) act" where
  "await tid f =
     bind_act (awaiting tid f)
       (\<lambda>r. case r of Resolved x \<Rightarrow> ret x | Rejected m \<Rightarrow> throw (Js_error [S m]))"

definition result_act ::
  "int \<Rightarrow> loop_status \<Rightarrow> json option \<Rightarrow> msg option \<Rightarrow> ('e, 'a flow) act" where
  "result_act startTime status output err s =
     ret (Return \<lparr>lres_status = status, lres_output = output, lres_error = err,
                  lres_totalSteps = at_currentStep (ls_current s),
                  lres_durationMs = ls_now s - startTime\<rparr>) s"

section \<open>JSON of what the loop stores\<close>

definition opt_member :: "string \<Rightarrow> json option \<Rightarrow> (string \<times> json) list" where
  "opt_member name v = (case v of None \<Rightarrow> [] | Some j \<Rightarrow> [(name, j)])"

definition action_json :: "planned_action \<Rightarrow> json" where
  "action_json a = JObj
     ([(''toolName'', JStr (pl_toolName a)), (''params'', JObj (pl_params a))] @
      opt_member ''reasoning'' (map_option JStr (pl_reasoning a)) @
      opt_member ''tonAmount'' (map_option JNum (pl_tonAmount a)) @
      opt_member ''confidence'' (map_option JNum (pl_confidence a)))"

definition result_json :: "tool_result \<Rightarrow> json" where
  "result_json r = JObj
     ([(''success'', JBool (tr_success r))] @ opt_member ''data'' (tr_data r) @
      opt_member ''error'' (map_option JStr (tr_error r)) @
      opt_member ''durationMs'' (map_option (\<lambda>n. JNum (js_int n)) (tr_durationMs r)))"

definition adjustments_json :: "adjustments \<Rightarrow> json" where
  "adjustments_json a = JObj
     (opt_member ''contextAdditions'' (map_option JObj (adj_contextAdditions a)) @
      opt_member ''nextActionHint'' (map_option JStr (adj_nextActionHint a)))"

definition checkpoint_state :: "auto_task \<Rightarrow> tool_result \<Rightarrow> history \<Rightarrow> context_obj" where
  "checkpoint_state current result history =
     [(''context'', JObj (at_context current)),
      (''lastResult'', result_json result),
      (''history'', JArr (map (\<lambda>(a, r). JObj [(''action'', action_json a), (''result'', result_json r)])
                            (slice_last 5 history)))]"

section \<open>The phases of one iteration\<close>

text \<open>The top of the loop body: external pauses and cancellations, and the global cap.\<close>

definition loop_head :: "auto_id \<Rightarrow> int \<Rightarrow> ('e, unit flow) act" where
  "loop_head tid startTime =
     then_act (refresh tid)
       (\<lambda>s. if at_status (ls_current s) = A_cancelled then
              then_act (clearStateOnTerminal tid) (result_act startTime L_cancelled None None) s
            else if at_status (ls_current s) = A_paused then
              result_act startTime L_paused None None s
            else if at_currentStep (ls_current s) \<ge> MAX_GLOBAL_ITERATIONS then
              (let err = [S ''Global max-iteration cap exceeded''] in
               then_act (log_act tid E_error err None)
                 (then_act (safeUpdateStatus tid A_failed None (Some err))
                   (then_act (clearStateOnTerminal tid)
                     (result_act startTime L_failed None (Some err)))) s)
            else ret (Go ()) s)"

text \<open>\<open>deps_planWithTimeout\<close>: the race of the planner against 30 seconds.\<close>

definition deps_planWithTimeout :: "'e loop_env \<Rightarrow> auto_id \<Rightarrow> ('e, planned_action) act" where
  "deps_planWithTimeout env tid s =
     await tid (\<lambda>out. case planNextAction env (ls_current s) (ls_history s) (ls_checkpoint s) out of
                        (Some r, out') \<Rightarrow> (r, out')
                      | (None, out') \<Rightarrow> (Rejected ''Planning timed out after 30s'', out')) s"

definition plan_phase :: "'e loop_env \<Rightarrow> auto_id \<Rightarrow> int \<Rightarrow> ('e, planned_action flow) act" where
  "plan_phase env tid startTime =
     catch_js
       (then_act (engine_act tid recordApiCall)
         (bind_act (deps_planWithTimeout env tid)
           (\<lambda>action. then_act throwIfAborted (\<lambda>s. ret (Go action) (s\<lparr>ls_checkpoint := None\<rparr>)))))
       (\<lambda>err. then_act (log_act tid E_error (S ''Planning failed: '' # err) None)
                (then_act (safeUpdateStatus tid A_failed None (Some err))
                  (then_act (clearStateOnTerminal tid)
                    (result_act startTime L_failed None (Some err)))))"

text \<open>The UTF-8 bytes of an em dash between spaces.\<close>

definition EM_DASH :: string where
  "EM_DASH = CHR '' '' # map char_of [226, 128, 148 :: nat] @ '' ''"

definition planned_message :: "planned_action \<Rightarrow> msg" where
  "planned_message action =
     [S ''Planned: '', S (pl_toolName action)] @
     (case pl_reasoning action of
        Some r \<Rightarrow> if r = [] then [] else [S EM_DASH, S r]
      | None \<Rightarrow> [])"

definition policy_action_of :: "planned_action \<Rightarrow> engine \<Rightarrow> policy_action" where
  "policy_action_of action e =
     \<lparr>pa_toolName = Some (pl_toolName action), pa_params = Some (pl_params action),
      pa_tonAmount = pl_tonAmount action, pa_recentActions = Some (getRecentActions e)\<rparr>"

definition violation_texts :: "check_result \<Rightarrow> msg" where
  "violation_texts r = join_texts (map violation_message (violations r))"

text \<open>The policy check, and what a violation or an escalation leads to.\<close>

definition policy_verdict :: "'e loop_env \<Rightarrow> auto_id \<Rightarrow> int \<Rightarrow> planned_action \<Rightarrow> ('e, executed flow) act" where
  "policy_verdict env tid startTime action s =
     (let e = ls_engine s;
          checked = satisfiesPolicies (ls_now s) (ls_now s) (ls_current s) (policy_action_of action e) e;
          policyCheck = fst checked;
          s' = s\<lparr>ls_engine := snd checked\<rparr>;
          reasons = violation_texts policyCheck
      in if \<not> allowed policyCheck then
           then_act (log_act tid E_error (S ''Policy violation: '' # reasons) None)
             (then_act (safeUpdateStatus tid A_failed None (Some (S ''Policy violation: '' # reasons)))
               (then_act (clearStateOnTerminal tid)
                 (result_act startTime L_failed None (Some reasons)))) s'
         else if requiresEscalation policyCheck then
           (let reason = (if reasons = [] then [S ''Requires confirmation''] else reasons) in
            then_act (log_act tid E_escalate (S ''Escalating: '' # reason) None)
              (then_act (await tid (escalate env (ls_current s') reason (Some action)))
                (then_act throwIfAborted
                  (then_act (safeUpdateStatus tid A_paused None None)
                    (result_act startTime L_paused None None)))) s')
         else ret (Go \<lparr>ex_task = ls_current s, ex_action = action, ex_engine = e,
                       ex_spent = getTotalDailyTonSpend (sqlSum env) (ls_db s) (ls_now s)\<rparr>) s')"

text \<open>The plan's log entry, then the check against today's spend.\<close>

definition policy_phase :: "'e loop_env \<Rightarrow> auto_id \<Rightarrow> int \<Rightarrow> planned_action \<Rightarrow> ('e, executed flow) act" where
  "policy_phase env tid startTime action =
     then_act (log_act tid E_plan (planned_message action)
                (Some (JObj [(''toolName'', JStr (pl_toolName action)), (''params'', JObj (pl_params action))])))
       (then_act (syncDailySpend env) (policy_verdict env tid startTime action))"

definition wallet_of :: "tool_result \<Rightarrow> string" where
  "wallet_of result =
     (case tr_data result of
        Some d \<Rightarrow> (case json_member d ''from'' of
                      Some (JStr w) \<Rightarrow> if w = [] then ''default'' else w
                    | _ \<Rightarrow> ''default'')
      | None \<Rightarrow> ''default'')"

text \<open>What a successful call spent is added to the day's ledger.\<close>

definition record_spend :: "'e loop_env \<Rightarrow> planned_action \<Rightarrow> tool_result \<Rightarrow> ('e, unit) act" where
  "record_spend env action result =
     (if tr_success result then
        (case extractTonSpend \<lparr>pa_toolName = Some (pl_toolName action), pa_params = Some (pl_params action),
                pa_tonAmount = pl_tonAmount action, pa_recentActions = None\<rparr> of
           Spend amount \<Rightarrow>
             then_act (store_act (\<lambda>now. recordDailyTonSpend now (wallet_of result) amount))
               (syncDailySpend env)
         | _ \<Rightarrow> ret ())
      else ret ())"

definition log_result :: "auto_id \<Rightarrow> tool_result \<Rightarrow> ('e, unit) act" where
  "log_result tid result =
     log_act tid E_tool_result
       (if tr_success result then [S ''Tool succeeded'']
        else [S ''Tool failed: '', S (nullish (tr_error result) ''undefined'')])
       (Some (JObj ([(''success'', JBool (tr_success result))] @ opt_member ''data'' (tr_data result) @
                    opt_member ''error'' (map_option JStr (tr_error result)))))"

text \<open>
  A tool that fails by rejecting gives a failed result, without looking at the abort signal. The
  call itself is noted in \<open>ls_executed\<close>.
\<close>

definition call_tool :: "'e loop_env \<Rightarrow> auto_id \<Rightarrow> executed \<Rightarrow> ('e, tool_result) act" where
  "call_tool env tid ex s =
     bind_act (awaiting tid (executeTool env (pl_toolName (ex_action ex)) (pl_params (ex_action ex))))
       (\<lambda>r. case r of
              Resolved result \<Rightarrow> then_act throwIfAborted (ret result)
            | Rejected m \<Rightarrow> ret \<lparr>tr_success = False, tr_data = None, tr_error = Some m,
                                tr_durationMs = None\<rparr>)
       (s\<lparr>ls_executed := ls_executed s @ [ex]\<rparr>)"

definition execute_phase :: "'e loop_env \<Rightarrow> auto_id \<Rightarrow> executed \<Rightarrow> ('e, tool_result) act" where
  "execute_phase env tid ex =
     (let action = ex_action ex in
      then_act (engine_act tid recordToolCall)
        (then_act (log_act tid E_tool_call [S ''Calling tool: '', S (pl_toolName action)]
                     (Some (JObj (pl_params action))))
          (bind_act (call_tool env tid ex)
            (\<lambda>result. then_act (log_result tid result)
               (then_act (record_spend env action result)
                 (then_act (\<lambda>s. ret () (s\<lparr>ls_history := ls_history s @ [(action, result)]\<rparr>))
                   (then_act (engine_act tid (\<lambda>_. recordAction (pl_toolName action)))
                     (ret result))))))))"

definition reflection_data :: "reflection \<Rightarrow> json" where
  "reflection_data r = JObj
     ([(''isStuck'', JBool (rf_isStuck r))] @
      opt_member ''goalAchieved'' (map_option JBool (rf_goalAchieved r)) @
      opt_member ''adjustments'' (map_option adjustments_json (rf_adjustments r)))"

definition reflect_phase ::
  "'e loop_env \<Rightarrow> auto_id \<Rightarrow> planned_action \<Rightarrow> tool_result \<Rightarrow> ('e, reflection) act" where
  "reflect_phase env tid action result =
     bind_act
       (catch_js
         (then_act (engine_act tid recordApiCall)
           (bind_act (\<lambda>s. await tid (selfReflect env (ls_current s) action result) s)
             (\<lambda>r. then_act throwIfAborted (ret r))))
         (\<lambda>_. ret \<lparr>rf_progressSummary = ''Reflection unavailable'', rf_isStuck = False,
                  rf_goalAchieved = None, rf_adjustments = None, rf_shouldEscalate = None,
                  rf_escalationReason = None\<rparr>))
       (\<lambda>r. then_act (log_act tid E_reflect [S (rf_progressSummary r)] (Some (reflection_data r))) (ret r))"

definition goal_achieved :: "reflection \<Rightarrow> bool" where
  "goal_achieved r = (rf_goalAchieved r = Some True)"

definition escalate_and_pause :: "'e loop_env \<Rightarrow> auto_id \<Rightarrow> int \<Rightarrow> msg \<Rightarrow> ('e, unit flow) act" where
  "escalate_and_pause env tid startTime reason =
     then_act (\<lambda>s. await tid (escalate env (ls_current s) reason None) s)
       (then_act throwIfAborted
         (then_act (safeUpdateStatus tid A_paused None None)
           (result_act startTime L_paused None None)))"

text \<open>What the reflection leads to: an escalation on request, or after too many stuck reflections.\<close>

definition judge_phase :: "'e loop_env \<Rightarrow> auto_id \<Rightarrow> int \<Rightarrow> reflection \<Rightarrow> ('e, unit flow) act" where
  "judge_phase env tid startTime r =
     (if \<not> goal_achieved r \<and> rf_shouldEscalate r = Some True then
        escalate_and_pause env tid startTime
          [S (nullish (rf_escalationReason r) ''Agent flagged uncertainty'')]
      else if \<not> goal_achieved r \<and> rf_isStuck r then
        (\<lambda>s. let shouldEscalate = fst (recordUncertain (ls_engine s)) in
             then_act (engine_act tid (\<lambda>_ e. snd (recordUncertain e)))
               (if shouldEscalate
                then escalate_and_pause env tid startTime [S ''Agent appears stuck after 3 reflections'']
                else ret (Go ())) s)
      else
        (\<lambda>s. if fst (resetUncertainCount (ls_engine s))
             then then_act (engine_act tid (\<lambda>_ e. snd (resetUncertainCount e))) (ret (Go ())) s
             else ret (Go ()) s))"

text \<open>The context, the step counter and the checkpoint.\<close>

definition apply_additions :: "auto_id \<Rightarrow> reflection \<Rightarrow> ('e, unit) act" where
  "apply_additions tid r s =
     (case Option.bind (rf_adjustments r) adj_contextAdditions of
        Some additions \<Rightarrow>
          refresh tid (set_db (updateContext (ls_now s) tid
                                (spread (at_context (ls_current s)) additions) (ls_db s)) s)
      | None \<Rightarrow> ret () s)"

definition advance_step :: "auto_id \<Rightarrow> ('e, unit) act" where
  "advance_step tid s = refresh tid (set_db (snd (incrementStep (ls_now s) tid (ls_db s))) s)"

definition save_step :: "'e loop_env \<Rightarrow> auto_id \<Rightarrow> tool_result \<Rightarrow> reflection \<Rightarrow> ('e, unit) act" where
  "save_step env tid result r s =
     bind_act
       (store_act (\<lambda>now. saveCheckpoint (randomUUID env (ls_out s)) now
          \<lparr>ci_taskId = tid, ci_step = at_currentStep (ls_current s),
           ci_state = checkpoint_state (ls_current s) result (ls_history s),
           ci_toolCalls = Some (map (\<lambda>(a, _). action_json a) (slice_last 10 (ls_history s))),
           ci_nextActionHint = Option.bind (rf_adjustments r) adj_nextActionHint,
           ci_keepLastN = None\<rparr>))
       (\<lambda>cp. log_act tid E_checkpoint
          [S ''Checkpoint saved (step '', N (js_int (at_currentStep (ls_current s))), S '')'']
          (Some (JObj [(''checkpointId'', JStr (cp_id cp))]))) s"

definition advance_phase :: "'e loop_env \<Rightarrow> auto_id \<Rightarrow> tool_result \<Rightarrow> reflection \<Rightarrow> ('e, unit) act" where
  "advance_phase env tid result r =
     then_act (apply_additions tid r) (then_act (advance_step tid) (save_step env tid result r))"

definition output_text :: "tool_result \<Rightarrow> msg" where
  "output_text result =
     [J (case tr_data result of Some d \<Rightarrow> if d = JNull then JStr ''completed'' else d
                              | None \<Rightarrow> JStr ''completed'')]"

definition success_phase ::
  "'e loop_env \<Rightarrow> auto_id \<Rightarrow> int \<Rightarrow> tool_result \<Rightarrow> reflection \<Rightarrow> ('e, unit flow) act" where
  "success_phase env tid startTime result r =
     bind_act
       (\<lambda>s. if goal_achieved r then ret True s
            else await tid (evaluateSuccess env (ls_current s) result) s)
       (\<lambda>succeeded. then_act throwIfAborted
          (if succeeded then
             then_act (safeUpdateStatus tid A_completed (Some (output_text result)) None)
               (then_act (clearStateOnTerminal tid)
                 (result_act startTime L_completed (tr_data result) None))
           else ret (Go ())))"

section \<open>run\<close>

definition loop_iteration :: "'e loop_env \<Rightarrow> auto_id \<Rightarrow> int \<Rightarrow> ('e, unit flow) act" where
  "loop_iteration env tid startTime =
     unless_returned (loop_head tid startTime)
       (\<lambda>_. unless_returned (plan_phase env tid startTime)
         (\<lambda>action. unless_returned (policy_phase env tid startTime action)
           (\<lambda>ex. bind_act (execute_phase env tid ex)
             (\<lambda>result. bind_act (reflect_phase env tid action result)
               (\<lambda>r. unless_returned (judge_phase env tid startTime r)
                 (\<lambda>_. then_act (advance_phase env tid result r)
                   (success_phase env tid startTime result r)))))))"

text \<open>What follows the while loop once \<open>stop()\<close> was called.\<close>

definition after_loop :: "auto_id \<Rightarrow> int \<Rightarrow> ('e, unit flow) act" where
  "after_loop tid startTime =
     then_act (safeUpdateStatus tid A_cancelled None None)
       (then_act (refresh tid)
         (\<lambda>s. then_act
            (if at_status (ls_current s) = A_cancelled then clearStateOnTerminal tid else ret ())
            (result_act startTime
              (if at_status (ls_current s) = A_paused then L_paused else L_cancelled) None None) s))"

text \<open>The while loop, with fuel; None when the fuel runs out.\<close>

fun run_while ::
  "nat \<Rightarrow> 'e loop_env \<Rightarrow> auto_id \<Rightarrow> int \<Rightarrow> 'e loop_state \<Rightarrow>
   (loop_exn, unit flow, 'e loop_state) outcome option" where
  "run_while 0 env tid startTime s = None"
| "run_while (Suc n) env tid startTime s =
     (if out_aborted (ls_out s) then Some (after_loop tid startTime s)
      else (case loop_iteration env tid startTime s of
              (Inr (Go _), s') \<Rightarrow> run_while n env tid startTime s'
            | r \<Rightarrow> Some r))"

text \<open>The outer catch block.\<close>

definition crash :: "auto_id \<Rightarrow> int \<Rightarrow> loop_exn \<Rightarrow> ('e, unit flow) act" where
  "crash tid startTime exn =
     (case exn of
        Loop_aborted \<Rightarrow>
          (\<lambda>s. let final = getTask_a (ls_db s) tid;
                   status = (case final of Some t \<Rightarrow> at_status t | None \<Rightarrow> A_cancelled);
                   clears = status \<in> {A_cancelled, A_completed, A_failed};
                   s' = (if clears then snd (clearStateOnTerminal tid s) else s)
               in ret (Return
                    \<lparr>lres_status = (if status = A_paused then L_paused
                                    else if status = A_completed then L_completed
                                    else if status = A_failed then L_failed else L_cancelled),
                     lres_output = None, lres_error = None,
                     lres_totalSteps = (case final of Some t \<Rightarrow> at_currentStep t
                                                    | None \<Rightarrow> at_currentStep (ls_current s)),
                     lres_durationMs = ls_now s - startTime\<rparr>) s')
      | Js_error err \<Rightarrow>
          then_act (safeUpdateStatus tid A_failed None (Some err))
            (then_act (clearStateOnTerminal tid) (result_act startTime L_failed None (Some err))))"

text \<open>The body of \<open>run\<close> before the loop: hydrate, connect, mark as running, resume.\<close>

definition run_start :: "auto_id \<Rightarrow> auto_task \<Rightarrow> ('e, unit) act" where
  "run_start tid task s =
     (let s1 = s\<lparr>ls_engine := hydrate (getPolicyState (ls_db s) tid) (ls_engine s), ls_connected := True\<rparr>;
          s2 = set_db (snd (updateTaskStatus (ls_now s1) tid A_running None None (ls_db s1))) s1;
          s3 = snd (refresh tid s2)
      in case at_lastCheckpointId task of
           None \<Rightarrow> ret () s3
         | Some c \<Rightarrow>
             if c = [] then ret () s3
             else
               (case getLastCheckpoint (ls_db s3) tid of
                  None \<Rightarrow> ret () s3
                | Some cp \<Rightarrow>
                    store_act (\<lambda>now. appendLog now tid (cp_step cp) E_info
                      [S ''Resuming from checkpoint at step '', N (js_int (cp_step cp))] None)
                      (s3\<lparr>ls_checkpoint := Some cp\<rparr>)))"

text \<open>\<open>finally\<close>: the write-through callback is disconnected.\<close>

definition disconnect :: "'e loop_state \<Rightarrow> 'e loop_state" where
  "disconnect s = s\<lparr>ls_connected := False\<rparr>"

definition new_loop :: "policy_config \<Rightarrow> auto_task \<Rightarrow> 'e outside \<Rightarrow> 'e loop_state" where
  "new_loop cfg task out =
     \<lparr>ls_out = out, ls_engine = new_engine cfg, ls_connected = False, ls_current = task,
      ls_history = [], ls_checkpoint = None, ls_executed = [], ls_seen = None\<rparr>"

definition run ::
  "nat \<Rightarrow> 'e loop_env \<Rightarrow> policy_config \<Rightarrow> auto_task \<Rightarrow> 'e outside \<Rightarrow>
   (loop_exn, unit flow, 'e loop_state) outcome option" where
  "run fuel env cfg task out =
     (let tid = at_id task; startTime = out_now out; s = new_loop cfg task out in
      if out_aborted out then Some (result_act startTime L_cancelled None None s)
      else
        (case run_start tid task s of
           (Inl e, s') \<Rightarrow> Some (Inl e, s')
         | (Inr _, s') \<Rightarrow>
             (case run_while fuel env tid startTime s' of
                None \<Rightarrow> None
              | Some (Inr r, s'') \<Rightarrow> Some (Inr r, disconnect s'')
              | Some (Inl e, s'') \<Rightarrow>
                  (case crash tid startTime e s'' of (r, s3) \<Rightarrow> Some (r, disconnect s3)))))"

section \<open>Invariants of the loop\<close>

text \<open>
  The grounds on which a tool call was made: the engine, of the loop's configuration and told the
  day's spend, let the action through without an escalation.
\<close>

definition justified :: "policy_config \<Rightarrow> executed \<Rightarrow> bool" where
  "justified cfg ex =
     (pe_config (ex_engine ex) = cfg \<and>
      pe_dailySpend (ex_engine ex) = pe_dailySpend (setDailySpend (ex_spent ex) (ex_engine ex)) \<and>
      (\<exists>now. let_through (fst (checkAction now now (ex_task ex)
                (policy_action_of (ex_action ex) (ex_engine ex)) (ex_engine ex)))))"

lemma then_act_Inr:
  "then_act m k s = (Inr x, s'') \<longleftrightarrow> (\<exists>y s'. m s = (Inr y, s') \<and> k s' = (Inr x, s''))"
  by (auto simp: then_act_def bind_act_def split: prod.splits sum.splits)

lemma bind_act_Inr:
  "bind_act m f s = (Inr x, s'') \<longleftrightarrow> (\<exists>y s'. m s = (Inr y, s') \<and> f y s' = (Inr x, s''))"
  by (auto simp: bind_act_def split: prod.splits sum.splits)

lemma checkAction_config [simp]: "pe_config (snd (checkAction now1 now2 task action e)) = pe_config e"
  by (simp add: checkAction_engine)

text \<open>A task's step may grow, and a deleted task stays deleted.\<close>

fun step_le :: "int option \<Rightarrow> int option \<Rightarrow> bool" where
  "step_le (Some n) (Some m) = (n \<le> m)"
| "step_le None (Some m) = False"
| "step_le _ None = True"

lemma step_le_refl [simp]: "step_le a a"
  by (cases a) simp_all

lemma step_le_increment [simp]: "step_le a (map_option (\<lambda>n. n + 1) a)"
  by (cases a) simp_all

text \<open>Every await leaves the outside world related by \<open>R\<close> to what it was.\<close>

definition deps_satisfy :: "('e outside \<Rightarrow> 'e outside \<Rightarrow> bool) \<Rightarrow> 'e loop_env \<Rightarrow> bool" where
  "deps_satisfy R env \<longleftrightarrow>
     (\<forall>out t h c. R out (snd (planNextAction env t h c out))) \<and>
     (\<forall>out n p. R out (snd (executeTool env n p out))) \<and>
     (\<forall>out t r. R out (snd (evaluateSuccess env t r out))) \<and>
     (\<forall>out t a r. R out (snd (selfReflect env t a r out))) \<and>
     (\<forall>out t m a. R out (snd (escalate env t m a out)))"

text \<open>
  The contract between a property of the loop's state and the loop: each elementary effect of the
  loop keeps the property, as long as the awaited dependencies change the world outside as \<open>R\<close>
  says. Writes to the database come in two forms, those that keep the task's status and the
  guarded status write.
\<close>

locale loop_invariant =
  fixes tid :: auto_id
    and cfg :: policy_config
    and env :: "'e loop_env"
    and R :: "'e outside \<Rightarrow> 'e outside \<Rightarrow> bool"
    and I :: "'e loop_state \<Rightarrow> bool"
  assumes deps: "deps_satisfy R env"
    and inv_store: "I s \<Longrightarrow> status_of tid db = status_of tid (ls_db s) \<Longrightarrow>
           step_le (step_of tid (ls_db s)) (step_of tid db) \<Longrightarrow> I (set_db db s)"
    and inv_status: "I s \<Longrightarrow>
           (\<And>st. status_of tid (ls_db s) = Some st \<Longrightarrow> st \<in> set EXTERNAL_TERMINAL_STATUSES \<Longrightarrow> st = st') \<Longrightarrow>
           I (set_db (snd (updateTaskStatus now tid st' res err (ls_db s))) s)"
    and inv_engine: "I s \<Longrightarrow> pe_config e = cfg \<Longrightarrow> I (s\<lparr>ls_engine := e\<rparr>)"
    and inv_current: "I s \<Longrightarrow> I (s\<lparr>ls_current := c\<rparr>)"
    and inv_history: "I s \<Longrightarrow> I (s\<lparr>ls_history := h\<rparr>)"
    and inv_checkpoint: "I s \<Longrightarrow> I (s\<lparr>ls_checkpoint := cp\<rparr>)"
    and inv_await: "I s \<Longrightarrow> R (ls_out s) out' \<Longrightarrow>
           I (s\<lparr>ls_out := out', ls_seen := Some (status_of tid (out_db out'))\<rparr>)"
    and inv_execute: "I s \<Longrightarrow> justified cfg ex \<Longrightarrow> I (s\<lparr>ls_executed := ls_executed s @ [ex]\<rparr>)"
    and inv_config: "I s \<Longrightarrow> pe_config (ls_engine s) = cfg"
begin

named_theorems keeps \<open>the phases that keep the invariant\<close>

lemma deps_related [simp]:
  "R out (snd (planNextAction env t h c out))" "R out (snd (executeTool env n p out))"
  "R out (snd (evaluateSuccess env t r out))" "R out (snd (selfReflect env t a r out))"
  "R out (snd (escalate env t m act out))"
  using deps by (simp_all add: deps_satisfy_def)

lemma keeps_ret [keeps]: "I s \<Longrightarrow> I (snd (ret x s))"
  by simp

lemma keeps_throw [keeps]: "I s \<Longrightarrow> I (snd (throw e s))"
  by simp

lemma keeps_bind [keeps]:
  "I (snd (m s)) \<Longrightarrow> (\<And>x s'. m s = (Inr x, s') \<Longrightarrow> I s' \<Longrightarrow> I (snd (f x s'))) \<Longrightarrow> I (snd (bind_act m f s))"
  by (auto simp: bind_act_def split: prod.splits sum.splits)

lemma keeps_then [keeps]:
  "I (snd (m s)) \<Longrightarrow> (\<And>s'. I s' \<Longrightarrow> I (snd (k s'))) \<Longrightarrow> I (snd (then_act m k s))"
  unfolding then_act_def by (rule keeps_bind)

lemma keeps_catch [keeps]:
  "I (snd (m s)) \<Longrightarrow> (\<And>e s'. I s' \<Longrightarrow> I (snd (h e s'))) \<Longrightarrow> I (snd (catch_js m h s))"
  by (auto simp: catch_js_def split: prod.splits sum.splits loop_exn.splits)

lemma keeps_unless [keeps]:
  "I (snd (m s)) \<Longrightarrow> (\<And>x s'. m s = (Inr (Go x), s') \<Longrightarrow> I s' \<Longrightarrow> I (snd (f x s'))) \<Longrightarrow>
   I (snd (unless_returned m f s))"
  by (auto simp: unless_returned_def bind_act_def split: prod.splits sum.splits flow.splits)

lemma keeps_store:
  "(\<And>now db. status_of tid (snd (f now db)) = status_of tid db) \<Longrightarrow>
   (\<And>now db. step_of tid (snd (f now db)) = step_of tid db) \<Longrightarrow> I s \<Longrightarrow> I (snd (store_act f s))"
  using inv_store [of s "snd (f (ls_now s) (ls_db s))"]
  by (auto simp: store_act_def split: prod.splits sum.splits)

lemma keeps_log [keeps]: "I s \<Longrightarrow> I (snd (log_act tid ev m d s))"
  unfolding log_act_def by (rule keeps_store) simp_all

lemma keeps_engine [keeps]:
  "(\<And>e. pe_config (f (ls_now s) e) = pe_config e) \<Longrightarrow> I s \<Longrightarrow> I (snd (engine_act tid f s))"
  using inv_config [of s] by (auto simp: engine_act_def Let_def intro!: keeps_store inv_engine)

lemma keeps_sync [keeps]: "I s \<Longrightarrow> I (snd (syncDailySpend env s))"
  using inv_config [of s] by (auto simp: syncDailySpend_def setDailySpend_def intro!: inv_engine)

lemma keeps_throwIfAborted [keeps]: "I s \<Longrightarrow> I (snd (throwIfAborted s))"
  by (simp add: throwIfAborted_def)

lemma keeps_safe [keeps]: "I s \<Longrightarrow> I (snd (safeUpdateStatus tid st res err s))"
  by (auto simp: safeUpdateStatus_def getTask_a_def status_of_def intro!: inv_status split: option.splits)

lemma keeps_clear [keeps]: "I s \<Longrightarrow> I (snd (clearStateOnTerminal tid s))"
  by (auto simp: clearStateOnTerminal_def intro!: inv_store split: option.splits)

lemma keeps_refresh [keeps]: "I s \<Longrightarrow> I (snd (refresh tid s))"
  by (simp add: refresh_def inv_current)

lemma keeps_awaiting [keeps]:
  "R (ls_out s) (snd (f (ls_out s))) \<Longrightarrow> I s \<Longrightarrow> I (snd (awaiting tid f s))"
  by (cases "f (ls_out s)") (simp add: awaiting_def inv_await)

lemma keeps_await [keeps]:
  "R (ls_out s) (snd (f (ls_out s))) \<Longrightarrow> I s \<Longrightarrow> I (snd (await tid f s))"
  unfolding await_def by (auto intro!: keeps split: settled.splits)

lemma keeps_planWithTimeout [keeps]: "I s \<Longrightarrow> I (snd (deps_planWithTimeout env tid s))"
  using deps_related(1) [of "ls_out s" "ls_current s" "ls_history s" "ls_checkpoint s"]
  unfolding deps_planWithTimeout_def
  by (auto intro!: keeps simp del: deps_related split: prod.splits option.splits)

lemma keeps_result [keeps]: "I s \<Longrightarrow> I (snd (result_act t st out err s))"
  by (simp add: result_act_def)

lemma keeps_head [keeps]: "I s \<Longrightarrow> I (snd (loop_head tid t s))"
  unfolding loop_head_def Let_def by (auto intro!: keeps)

lemma keeps_plan [keeps]: "I s \<Longrightarrow> I (snd (plan_phase env tid t s))"
  unfolding plan_phase_def
  by (auto intro!: keeps inv_checkpoint simp: recordApiCall_def)

lemma keeps_verdict [keeps]: "I s \<Longrightarrow> I (snd (policy_verdict env tid t action s))"
  unfolding policy_verdict_def satisfiesPolicies_def Let_def
  by (auto intro!: keeps inv_engine simp: inv_config)

lemma keeps_policy [keeps]: "I s \<Longrightarrow> I (snd (policy_phase env tid t action s))"
  unfolding policy_phase_def by (auto intro!: keeps)

lemma policy_verdict_Go:
  assumes "policy_verdict env tid t action s = (Inr (Go ex), s')"
  shows "let_through (fst (checkAction (ls_now s) (ls_now s) (ls_current s)
           (policy_action_of action (ls_engine s)) (ls_engine s))) \<and>
         ex = \<lparr>ex_task = ls_current s, ex_action = action, ex_engine = ls_engine s,
               ex_spent = getTotalDailyTonSpend (sqlSum env) (ls_db s) (ls_now s)\<rparr>"
  using assms unfolding policy_verdict_def satisfiesPolicies_def Let_def
  by (auto simp: then_act_Inr result_act_def ret_def let_through_def split: if_splits)

text \<open>The policy phase lets an action pass only on the grounds above.\<close>

lemma policy_phase_Go:
  assumes "I s" and "policy_phase env tid t action s = (Inr (Go ex), s')"
  shows "justified cfg ex \<and> ex_action ex = action"
proof -
  obtain y s1 where l: "log_act tid E_plan (planned_message action)
        (Some (JObj [(''toolName'', JStr (pl_toolName action)), (''params'', JObj (pl_params action))])) s
        = (Inr y, s1)" and v: "then_act (syncDailySpend env) (policy_verdict env tid t action) s1 = (Inr (Go ex), s')"
    using assms(2) unfolding policy_phase_def then_act_Inr by blast
  have "I s1" using keeps_log [OF assms(1)] l by (metis snd_conv)
  define s2 where "s2 = snd (syncDailySpend env s1)"
  have "syncDailySpend env s1 = (Inr (), s2)" by (simp add: s2_def syncDailySpend_def ret_def)
  then have v: "policy_verdict env tid t action s2 = (Inr (Go ex), s')"
    using v unfolding then_act_Inr by auto
  have "I s2" using keeps_sync [OF \<open>I s1\<close>] by (simp add: s2_def)
  moreover have "ls_engine s2 = setDailySpend (getTotalDailyTonSpend (sqlSum env) (ls_db s2) (ls_now s2))
      (ls_engine s1)"
    by (simp add: s2_def syncDailySpend_def ls_db_def ls_now_def)
  ultimately show ?thesis
    using policy_verdict_Go [OF v] inv_config [of s2] by (auto simp: justified_def setDailySpend_def)
qed

lemma keeps_call [keeps]: "I s \<Longrightarrow> justified cfg ex \<Longrightarrow> I (snd (call_tool env tid ex s))"
  unfolding call_tool_def by (auto intro!: keeps inv_execute split: settled.splits)

lemma keeps_record_spend [keeps]: "I s \<Longrightarrow> I (snd (record_spend env action result s))"
  unfolding record_spend_def by (auto intro!: keeps keeps_store split: ton_spend.splits)

lemma keeps_execute [keeps]: "I s \<Longrightarrow> justified cfg ex \<Longrightarrow> I (snd (execute_phase env tid ex s))"
  unfolding execute_phase_def log_result_def Let_def
  by (auto intro!: keeps inv_history simp: recordToolCall_def recordAction_def Let_def)

lemma keeps_reflect [keeps]: "I s \<Longrightarrow> I (snd (reflect_phase env tid action result s))"
  unfolding reflect_phase_def by (auto intro!: keeps simp: recordApiCall_def)

lemma keeps_escalate [keeps]: "I s \<Longrightarrow> I (snd (escalate_and_pause env tid t reason s))"
  unfolding escalate_and_pause_def by (auto intro!: keeps)

lemma keeps_judge [keeps]: "I s \<Longrightarrow> I (snd (judge_phase env tid t r s))"
  unfolding judge_phase_def Let_def
  by (auto intro!: keeps simp: recordUncertain_def resetUncertainCount_def Let_def)

lemma keeps_additions [keeps]: "I s \<Longrightarrow> I (snd (apply_additions tid r s))"
  unfolding apply_additions_def by (auto intro!: keeps inv_store simp: ls_db_def split: option.splits)

lemma keeps_step [keeps]: "I s \<Longrightarrow> I (snd (advance_step tid s))"
  unfolding advance_step_def by (auto intro!: keeps inv_store simp: ls_db_def)

lemma keeps_save [keeps]: "I s \<Longrightarrow> I (snd (save_step env tid result r s))"
  unfolding save_step_def by (auto intro!: keeps keeps_store)

lemma keeps_advance [keeps]: "I s \<Longrightarrow> I (snd (advance_phase env tid result r s))"
  unfolding advance_phase_def by (auto intro!: keeps)

lemma keeps_success [keeps]: "I s \<Longrightarrow> I (snd (success_phase env tid t result r s))"
  unfolding success_phase_def by (auto intro!: keeps)

lemma keeps_iteration [keeps]: "I s \<Longrightarrow> I (snd (loop_iteration env tid t s))"
  unfolding loop_iteration_def by (auto intro!: keeps dest: policy_phase_Go)

lemma keeps_after_loop [keeps]: "I s \<Longrightarrow> I (snd (after_loop tid t s))"
  unfolding after_loop_def by (auto intro!: keeps)

lemma keeps_run_while: "I s \<Longrightarrow> run_while n env tid t s = Some r \<Longrightarrow> I (snd r)"
proof (induction n arbitrary: s)
  case 0
  then show ?case by simp
next
  case (Suc n)
  obtain a s' where it: "loop_iteration env tid t s = (a, s')" by fastforce
  have "I s'" using keeps_iteration [OF Suc.prems(1), of t] it by simp
  show ?case
  proof (cases "out_aborted (ls_out s)")
    case True
    then show ?thesis using Suc.prems keeps_after_loop by auto
  next
    case False
    show ?thesis
    proof (cases "a = Inr (Go ())")
      case True
      then show ?thesis using Suc.prems(2) Suc.IH [OF \<open>I s'\<close>] False it by simp
    next
      case other: False
      then have "r = (a, s')"
        using Suc.prems(2) False it by (simp split: sum.splits flow.splits)
      then show ?thesis using \<open>I s'\<close> by simp
    qed
  qed
qed

lemma keeps_crash [keeps]: "I s \<Longrightarrow> I (snd (crash tid t e s))"
  unfolding crash_def Let_def by (auto intro!: keeps split: loop_exn.splits)

end

text \<open>A property that also survives disconnecting the write-through callback holds after a run.\<close>

locale run_invariant = loop_invariant +
  assumes inv_connected: "I s \<Longrightarrow> I (s\<lparr>ls_connected := b\<rparr>)"
begin

text \<open>Once the loop has started in a state with the invariant, it ends in one.\<close>

lemma keeps_run:
  assumes "run fuel env cfg task out = Some r" and "at_id task = tid"
    and "I (new_loop cfg task out)" and "I (snd (run_start tid task (new_loop cfg task out)))"
  shows "I (snd r)"
proof (cases "out_aborted out")
  case True
  then show ?thesis using assms by (auto simp: run_def Let_def result_act_def)
next
  case False
  obtain a s' where s': "run_start tid task (new_loop cfg task out) = (a, s')" by fastforce
  then have "I s'" using assms(4) by simp
  show ?thesis
  proof (cases a)
    case (Inl e)
    then show ?thesis using assms(1,2) False s' \<open>I s'\<close> by (auto simp: run_def Let_def)
  next
    case (Inr u)
    then obtain b s'' where w: "run_while fuel env tid (out_now out) s' = Some (b, s'')"
      and r: "snd r = (case b of Inl e \<Rightarrow> disconnect (snd (crash tid (out_now out) e s''))
                       | Inr x \<Rightarrow> disconnect s'')"
      using assms(1,2) False s'
      by (auto simp: run_def Let_def split: option.splits sum.splits prod.splits)
    have "I s''" using keeps_run_while [OF \<open>I s'\<close> w] by simp
    then show ?thesis
      using r by (auto simp: disconnect_def intro!: inv_connected keeps split: sum.splits)
  qed
qed

end

section \<open>Only let-through calls are executed\<close>

abbreviation anything :: "'e outside \<Rightarrow> 'e outside \<Rightarrow> bool" where
  "anything \<equiv> (\<lambda>_ _. True)"

lemma deps_anything: "deps_satisfy anything env"
  by (simp add: deps_satisfy_def)

definition on_grounds :: "policy_config \<Rightarrow> 'e loop_state \<Rightarrow> bool" where
  "on_grounds cfg s = (pe_config (ls_engine s) = cfg \<and> list_all (justified cfg) (ls_executed s))"

interpretation grounds: run_invariant tid cfg env anything "on_grounds cfg" for tid cfg env
  by unfold_locales (auto simp: on_grounds_def set_db_def deps_anything)

text \<open>The status that an external caller left behind when the last await returned is still there.\<close>

definition status_kept :: "auto_id \<Rightarrow> policy_config \<Rightarrow> 'e loop_state \<Rightarrow> bool" where
  "status_kept tid cfg s =
     (pe_config (ls_engine s) = cfg \<and>
      (case ls_seen s of
         Some (Some st) \<Rightarrow> st \<in> set EXTERNAL_TERMINAL_STATUSES \<longrightarrow> status_of tid (ls_db s) = Some st
       | Some None \<Rightarrow> status_of tid (ls_db s) = None
       | None \<Rightarrow> True))"

lemma ls_db_simps [simp]:
  "ls_db (set_db db s) = db" "ls_db (s\<lparr>ls_engine := e\<rparr>) = ls_db s" "ls_db (s\<lparr>ls_current := c\<rparr>) = ls_db s"
  "ls_db (s\<lparr>ls_history := h\<rparr>) = ls_db s" "ls_db (s\<lparr>ls_checkpoint := cp\<rparr>) = ls_db s"
  "ls_db (s\<lparr>ls_executed := x\<rparr>) = ls_db s" "ls_db (s\<lparr>ls_connected := b\<rparr>) = ls_db s"
  "ls_db (s\<lparr>ls_seen := y\<rparr>) = ls_db s" "ls_db (s\<lparr>ls_out := out'\<rparr>) = out_db out'"
  by (simp_all add: ls_db_def set_db_def)

lemma set_db_simps [simp]:
  "ls_engine (set_db db s) = ls_engine s" "ls_executed (set_db db s) = ls_executed s"
  "ls_seen (set_db db s) = ls_seen s" "ls_connected (set_db db s) = ls_connected s"
  "ls_current (set_db db s) = ls_current s" "out_aborted (ls_out (set_db db s)) = out_aborted (ls_out s)"
  by (simp_all add: set_db_def)

interpretation kept: run_invariant tid cfg env anything "status_kept tid cfg" for tid cfg env
  by unfold_locales (auto simp: status_kept_def deps_anything split: option.splits)

lemma store_act_simps [simp]:
  "ls_engine (snd (store_act f s)) = ls_engine s" "ls_executed (snd (store_act f s)) = ls_executed s"
  "ls_seen (snd (store_act f s)) = ls_seen s" "ls_connected (snd (store_act f s)) = ls_connected s"
  "ls_current (snd (store_act f s)) = ls_current s"
  "ls_db (snd (store_act f s)) = snd (f (ls_now s) (ls_db s))"
  "out_aborted (ls_out (snd (store_act f s))) = out_aborted (ls_out s)"
  by (simp_all add: store_act_def split: prod.splits sum.splits)

lemma run_start_simps:
  "pe_config (ls_engine (snd (run_start tid task s))) = pe_config (ls_engine s)"
  "ls_executed (snd (run_start tid task s)) = ls_executed s"
  "ls_seen (snd (run_start tid task s)) = ls_seen s"
  "ls_connected (snd (run_start tid task s))"
  by (simp_all add: run_start_def Let_def refresh_def hydrate_def split: option.splits)

text \<open>What the reader of the code expects of an executed call.\<close>

definition executed_ok :: "policy_config \<Rightarrow> executed \<Rightarrow> bool" where
  "executed_ok cfg ex =
     (let name = pl_toolName (ex_action ex);
          e = setDailySpend (ex_spent ex) (new_engine cfg)
      in (name = [] \<or> \<not> restricted cfg (ex_task ex) name \<and> admitted (ex_task ex) name) \<and>
         (case extractTonSpend (policy_action_of (ex_action ex) (ex_engine ex)) of
            No_spend \<Rightarrow> True
          | Invalid_spend m \<Rightarrow> False
          | Spend a \<Rightarrow> js_gt a (Num 0) \<longrightarrow> within_limits e (ex_task ex) a))"

lemma justified_executed_ok: "justified cfg ex \<Longrightarrow> executed_ok cfg ex"
proof -
  assume j: "justified cfg ex"
  define action where "action = policy_action_of (ex_action ex) (ex_engine ex)"
  obtain now where l: "let_through (fst (checkAction now now (ex_task ex) action (ex_engine ex)))"
    using j by (auto simp: justified_def action_def)
  note facts = let_through_tools [OF l] let_through_spend [OF l]
  have "within_limits (ex_engine ex) (ex_task ex) a =
        within_limits (setDailySpend (ex_spent ex) (new_engine cfg)) (ex_task ex) a" for a
    using j by (simp add: justified_def within_limits_def setDailySpend_def new_engine_def)
  then show ?thesis
    using facts j
    by (auto simp: executed_ok_def Let_def justified_def action_def policy_action_of_def
        split: ton_spend.splits)
qed

text \<open>
  C1. The loop executes nothing that its guardrails forbid, whatever the planner, the tools and all
  other callers do while it waits: every tool call it makes names no restricted tool and only one
  that the task admits, and what it spends is within the task's budget, the confirmation threshold
  and the daily limit, counting what the store's ledger had recorded for the day.
\<close>

theorem loop_executes_only_allowed:
  assumes "run fuel env cfg task out = Some (r, s')"
  shows "list_all (executed_ok cfg) (ls_executed s')"
proof -
  have "on_grounds cfg (new_loop cfg task out)"
    by (simp add: on_grounds_def new_loop_def new_engine_def)
  moreover from this have "on_grounds cfg (snd (run_start (at_id task) task (new_loop cfg task out)))"
    by (simp add: on_grounds_def run_start_simps)
  ultimately have "on_grounds cfg s'"
    using grounds.keeps_run [OF assms refl] by simp
  then show ?thesis
    by (auto simp: on_grounds_def list_all_iff intro: justified_executed_ok)
qed


section \<open>Termination\<close>

text \<open>While the loop waits, nobody lowers the task's step counter or re-creates a deleted task.\<close>

definition steady :: "auto_id \<Rightarrow> 'e outside \<Rightarrow> 'e outside \<Rightarrow> bool" where
  "steady tid out out' = step_le (step_of tid (out_db out)) (step_of tid (out_db out'))"

definition reached :: "auto_id \<Rightarrow> policy_config \<Rightarrow> 'e loop_env \<Rightarrow> int \<Rightarrow> 'e loop_state \<Rightarrow> bool" where
  "reached tid cfg env n s =
     (deps_satisfy (steady tid) env \<and> pe_config (ls_engine s) = cfg \<and> ls_connected s \<and>
      (case step_of tid (ls_db s) of None \<Rightarrow> True | Some m \<Rightarrow> n \<le> m))"

definition steady_if :: "auto_id \<Rightarrow> 'e loop_env \<Rightarrow> 'e outside \<Rightarrow> 'e outside \<Rightarrow> bool" where
  "steady_if tid env out out' = (deps_satisfy (steady tid) env \<longrightarrow> steady tid out out')"

lemma step_le_bound:
  "step_le a b \<Longrightarrow> (case a of None \<Rightarrow> True | Some m \<Rightarrow> n \<le> m) \<Longrightarrow> (case b of None \<Rightarrow> True | Some m \<Rightarrow> n \<le> m)"
  by (cases a; cases b) auto

lemma reached_set_db:
  "reached tid cfg env n s \<Longrightarrow> step_le (step_of tid (ls_db s)) (step_of tid db) \<Longrightarrow>
   reached tid cfg env n (set_db db s)"
  using step_le_bound [of "step_of tid (ls_db s)" "step_of tid db" n] by (simp add: reached_def)

lemma reached_await:
  "reached tid cfg env n s \<Longrightarrow> steady_if tid env (ls_out s) out' \<Longrightarrow>
   reached tid cfg env n (s\<lparr>ls_out := out', ls_seen := x\<rparr>)"
  using step_le_bound [of "step_of tid (ls_db s)" "step_of tid (out_db out')" n]
  by (simp add: reached_def steady_if_def steady_def ls_db_def)

interpretation progress: loop_invariant tid cfg env "steady_if tid env" "reached tid cfg env n"
  for tid cfg env n
proof (unfold_locales, goal_cases)
  case 1
  then show ?case by (auto simp: deps_satisfy_def steady_if_def)
next
  case (3 s st' now res err)
  then show ?case by (intro reached_set_db) simp_all
next
  case (2 s db)
  then show ?case by (intro reached_set_db)
next
  case (8 s out')
  then show ?case by (rule reached_await)
qed (simp_all add: reached_def)

lemma unless_returned_Go:
  "unless_returned m f s = (Inr (Go y), s'') \<longleftrightarrow>
   (\<exists>x s'. m s = (Inr (Go x), s') \<and> f x s' = (Inr (Go y), s''))"
  by (auto simp: unless_returned_def bind_act_def ret_def split: prod.splits sum.splits flow.splits)

lemma loop_head_Go:
  "loop_head tid t s = (Inr (Go u), s') \<Longrightarrow>
   s' = s\<lparr>ls_current := nullish (getTask_a (ls_db s) tid) (ls_current s)\<rparr> \<and>
   at_currentStep (ls_current s') < MAX_GLOBAL_ITERATIONS"
  by (auto simp: loop_head_def then_act_Inr refresh_def ret_def result_act_def Let_def split: if_splits)

text \<open>A task that is no longer in the store ends the loop: its engine snapshot cannot be saved.\<close>

lemma plan_phase_alive:
  assumes "plan_phase env tid t s = (Inr (Go a), s')" and "ls_connected s"
  shows "step_of tid (ls_db s) \<noteq> None"
proof
  assume "step_of tid (ls_db s) = None"
  then have "getTask_row_a (ls_db s) tid = None" by (simp add: step_of_def)
  then show False
    using assms
    by (simp add: plan_phase_def catch_js_def then_act_def bind_act_def engine_act_def Let_def
        store_act_def savePolicyState_def throw_def log_act_def appendLog_def)
qed

lemma advance_phase_progress:
  assumes "reached tid cfg env n s" and "advance_phase env tid result r s = (Inr u, s')"
  shows "reached tid cfg env (n + 1) s'"
proof -
  obtain y1 s1 y2 s2 where s1: "apply_additions tid r s = (Inr y1, s1)"
    and s2: "advance_step tid s1 = (Inr y2, s2)" and s': "save_step env tid result r s2 = (Inr u, s')"
    using assms(2) unfolding advance_phase_def then_act_Inr by blast
  have "reached tid cfg env n s1"
    using progress.keeps_additions [OF assms(1), of r] s1 by simp
  moreover have "step_of tid (ls_db s2) = map_option (\<lambda>n. n + 1) (step_of tid (ls_db s1))"
    and "pe_config (ls_engine s2) = pe_config (ls_engine s1)" and "ls_connected s2 = ls_connected s1"
    using s2 by (auto simp: advance_step_def refresh_def ret_def)
  ultimately have "reached tid cfg env (n + 1) s2"
    by (auto simp: reached_def split: option.splits)
  then show ?thesis
    using progress.keeps_save [of tid cfg env "n + 1" s2 result r] s' by simp
qed

lemma iteration_Go:
  assumes "loop_iteration env tid t s = (Inr (Go u), s')" and "reached tid cfg env k s"
  shows "\<exists>n. step_of tid (ls_db s) = Some n \<and> n < MAX_GLOBAL_ITERATIONS \<and> reached tid cfg env (n + 1) s'"
proof -
  obtain u1 s1 action s2 ex s3 result s4 r s5 u6 s6 u7 s7
    where 1: "loop_head tid t s = (Inr (Go u1), s1)"
      and 2: "plan_phase env tid t s1 = (Inr (Go action), s2)"
      and 3: "policy_phase env tid t action s2 = (Inr (Go ex), s3)"
      and 4: "execute_phase env tid ex s3 = (Inr result, s4)"
      and 5: "reflect_phase env tid action result s4 = (Inr r, s5)"
      and 6: "judge_phase env tid t r s5 = (Inr (Go u6), s6)"
      and 7: "advance_phase env tid result r s6 = (Inr u7, s7)"
      and 8: "success_phase env tid t result r s7 = (Inr (Go u), s')"
    using assms(1) unfolding loop_iteration_def unless_returned_Go then_act_Inr bind_act_Inr by blast
  note head = loop_head_Go [OF 1]
  then have db: "ls_db s1 = ls_db s" by simp
  have "ls_connected s1" using head assms(2) by (simp add: reached_def)
  then obtain n where n: "step_of tid (ls_db s) = Some n"
    using plan_phase_alive [OF 2] db by auto
  then have "at_currentStep (ls_current s1) = n"
    using head by (auto simp: step_of_def getTask_a_def)
  then have small: "n < MAX_GLOBAL_ITERATIONS" using head by metis
  have s0: "reached tid cfg env n s" using assms(2) n by (simp add: reached_def)
  have s1: "reached tid cfg env n s1" using progress.keeps_head [OF s0, of t] 1 by simp
  have s2: "reached tid cfg env n s2" using progress.keeps_plan [OF s1, of t] 2 by simp
  have s3: "reached tid cfg env n s3" using progress.keeps_policy [OF s2, of t action] 3 by simp
  have "justified cfg ex" using progress.policy_phase_Go [OF s2 3] by simp
  then have s4: "reached tid cfg env n s4" using progress.keeps_execute [OF s3] 4 by force
  have s5: "reached tid cfg env n s5" using progress.keeps_reflect [OF s4, of action result] 5 by simp
  have s6: "reached tid cfg env n s6" using progress.keeps_judge [OF s5, of t r] 6 by simp
  have s7: "reached tid cfg env (n + 1) s7" by (rule advance_phase_progress [OF s6 7])
  have "reached tid cfg env (n + 1) s'"
    using progress.keeps_success [OF s7, of t result r] 8 by simp
  then show ?thesis using n small by blast
qed

lemma run_start_step: "step_of tid (ls_db (snd (run_start tid task s))) = step_of tid (ls_db s)"
  by (simp add: run_start_def Let_def refresh_def split: option.splits)

text \<open>The fuel that is enough from a state.\<close>

definition enough_fuel :: "int option \<Rightarrow> nat" where
  "enough_fuel step = (case step of None \<Rightarrow> 1 | Some n \<Rightarrow> nat (MAX_GLOBAL_ITERATIONS - n) + 2)"

lemma run_while_returns:
  "reached tid cfg env k s \<Longrightarrow> enough_fuel (step_of tid (ls_db s)) \<le> fuel \<Longrightarrow>
   \<exists>r. run_while fuel env tid t s = Some r"
proof (induction fuel arbitrary: k s)
  case 0
  then show ?case by (simp add: enough_fuel_def split: option.splits)
next
  case (Suc fuel)
  obtain a s' where it: "loop_iteration env tid t s = (a, s')" by fastforce
  show ?case
  proof (cases "\<not> out_aborted (ls_out s) \<and> a = Inr (Go ())")
    case True
    then obtain n where n: "step_of tid (ls_db s) = Some n" "n < MAX_GLOBAL_ITERATIONS"
        and s': "reached tid cfg env (n + 1) s'"
      using iteration_Go [of env tid t s "()" s' cfg k] it Suc.prems(1) by auto
    have "enough_fuel (step_of tid (ls_db s')) < enough_fuel (step_of tid (ls_db s))"
      using s' n by (auto simp: enough_fuel_def reached_def split: option.splits)
    then have "enough_fuel (step_of tid (ls_db s')) \<le> fuel" using Suc.prems(2) by simp
    then show ?thesis using Suc.IH [OF s'] True it by simp
  next
    case False
    then show ?thesis using it by (auto split: sum.splits flow.splits)
  qed
qed

text \<open>
  C3. The loop ends. If nobody lowers the task's step counter or re-creates a deleted task while the
  loop waits, a run returns within the global cap of 500 iterations: from step \<open>n\<close>, after at most
  \<open>500 - n\<close> completed iterations, however planner, tools and reflection answer.
\<close>

theorem run_terminates:
  assumes "deps_satisfy (steady (at_id task)) env"
    and "enough_fuel (step_of (at_id task) (out_db out)) \<le> fuel"
  shows "\<exists>r. run fuel env cfg task out = Some r"
proof -
  define s where "s = snd (run_start (at_id task) task (new_loop cfg task out))"
  have "step_of (at_id task) (ls_db s) = step_of (at_id task) (out_db out)"
    by (simp add: s_def run_start_step) (simp add: new_loop_def ls_db_def)
  moreover have "reached (at_id task) cfg env (case step_of (at_id task) (ls_db s) of None \<Rightarrow> 0 | Some n \<Rightarrow> n) s"
    using assms(1)
    by (simp add: reached_def s_def run_start_simps new_loop_def new_engine_def split: option.split)
  ultimately obtain r where "run_while fuel env (at_id task) (out_now out) s = Some r"
    using run_while_returns assms(2) by metis
  then show ?thesis
    by (auto simp: run_def Let_def s_def split: prod.splits sum.splits)
qed

section \<open>Examples\<close>

definition example_plan :: planned_action where
  "example_plan = \<lparr>pl_toolName = ''gift_buy'', pl_params = [], pl_reasoning = None,
     pl_tonAmount = Some (Num 1), pl_confidence = None\<rparr>"

definition example_db :: "partial_snapshot auto_db" where
  "example_db = \<lparr>autonomous_tasks = [createTask_row_a ''a1'' 1000 example_input], task_checkpoints = [],
     execution_logs = [], log_sequence = 0, policy_state = [], daily_ton_spend = []\<rparr>"

definition example_out :: "unit outside" where
  "example_out = \<lparr>out_db = example_db, out_now = 1000000, out_aborted = False, out_rest = ()\<rparr>"

text \<open>Everything succeeds, and the goal is achieved after one step.\<close>

definition example_env :: "unit loop_env" where
  "example_env =
     \<lparr>planNextAction = (\<lambda>t h c out. (Some (Resolved example_plan), out)),
      executeTool = (\<lambda>n p out. (Resolved \<lparr>tr_success = True, tr_data = None, tr_error = None,
                                        tr_durationMs = None\<rparr>, out)),
      evaluateSuccess = (\<lambda>t r out. (Resolved (at_currentStep t = 1), out)),
      selfReflect = (\<lambda>t a r out. (Resolved \<lparr>rf_progressSummary = ''ok'', rf_isStuck = False,
                       rf_goalAchieved = None, rf_adjustments = None, rf_shouldEscalate = None,
                       rf_escalationReason = None\<rparr>, out)),
      escalate = (\<lambda>t m a out. (Resolved (), out)),
      randomUUID = (\<lambda>out. replicate (length (task_checkpoints (out_db out))) CHR ''c''),
      sqlSum = (\<lambda>xs. Num 0)\<rparr>"

text \<open>The same, but the task is paused and the loop stopped while the tool runs.\<close>

definition pausing_env :: "unit loop_env" where
  "pausing_env = example_env\<lparr>executeTool :=
     (\<lambda>n p out. (Resolved \<lparr>tr_success = True, tr_data = None, tr_error = None, tr_durationMs = None\<rparr>,
        out\<lparr>out_db := snd (updateTaskStatus (out_now out) ''a1'' A_paused None None (out_db out)),
            out_aborted := True\<rparr>))\<rparr>"

text \<open>What is observed of the end of a run: tool calls and their spend, status, ledger.\<close>

definition observe ::
  "unit loop_state \<Rightarrow> nat \<times> ton_spend list \<times> auto_status option option \<times> auto_status option \<times> js_num list" where
  "observe s = (length (ls_executed s),
     map (\<lambda>ex. extractTonSpend (policy_action_of (ex_action ex) (ex_engine ex))) (ls_executed s),
     ls_seen s, status_of ''a1'' (ls_db s), map sr_amount (daily_ton_spend (ls_db s)))"

lemma example_run:
  "map_option (\<lambda>r. observe (snd r)) (run 3 example_env example_cfg example_task example_out) =
   Some (1, [Spend (Num 1)], Some (Some A_running), Some A_completed, [Num 1])"
  by code_simp

lemma pausing_run:
  "map_option (\<lambda>r. observe (snd r)) (run 3 pausing_env example_cfg example_task example_out) =
   Some (1, [Spend (Num 1)], Some (Some A_paused), Some A_paused, [])"
  by code_simp

theorem loop_executes_only_allowed_witness:
  "\<exists>r s. run 3 example_env example_cfg example_task example_out = Some (r, s) \<and>
         length (ls_executed s) = 1 \<and> list_all (executed_ok example_cfg) (ls_executed s)"
proof -
  obtain r s where rs: "run 3 example_env example_cfg example_task example_out = Some (r, s)"
    and "length (ls_executed s) = 1"
    using example_run by (auto simp: observe_def)
  then show ?thesis using loop_executes_only_allowed [OF rs] by blast
qed


theorem run_terminates_witness:
  "\<exists>r. run 502 example_env example_cfg example_task example_out = Some r"
proof -
  have a: "deps_satisfy (steady (at_id example_task)) example_env"
    by (simp add: deps_satisfy_def steady_def example_env_def)
  have "step_of (at_id example_task) (out_db example_out) = Some 0" by code_simp
  then have b: "enough_fuel (step_of (at_id example_task) (out_db example_out)) \<le> 502"
    by (simp add: enough_fuel_def MAX_GLOBAL_ITERATIONS_def)
  show ?thesis by (rule run_terminates [OF a b])
qed

text \<open>
  Stopping the loop while a tool runs loses what the tool spent. The two runs differ only in
  that the second is paused and stopped while its tool runs; in both the tool call succeeds and
  spends 1 TON, but only the first one's ledger shows it, so that the resumed task starts with an
  unspent daily limit.
\<close>

theorem stopped_call_spend_lost:
  "\<exists>r s r' s'. run 3 example_env example_cfg example_task example_out = Some (r, s) \<and>
     run 3 pausing_env example_cfg example_task example_out = Some (r', s') \<and>
     observe s = (1, [Spend (Num 1)], Some (Some A_running), Some A_completed, [Num 1]) \<and>
     observe s' = (1, [Spend (Num 1)], Some (Some A_paused), Some A_paused, [])"
  using example_run pausing_run by fastforce

end
