(* ===== verification/AutonomousManager.thy ===== *)
theory AutonomousManager
  imports AutonomousLoop
begin

text \<open>
  The manager of the autonomous tasks: \<open>AutonomousTaskManager\<close> of src/autonomous/manager.ts.

  The manager starts loops and forgets about them until their promises settle. A loop object is a
  number; \<open>mg_running\<close> is the Map \<open>runningLoops\<close> in insertion order, \<open>mg_completions\<close> the loops whose
  promises have not settled (\<open>loopCompletions\<close>, with the task of each), \<open>mg_stopped\<close> the loops whose
  \<open>stop()\<close> was called, and \<open>mg_queue\<close> the waiting tasks. \<open>loop.run\<close> runs synchronously up to its
  first await, which is the call of the planner; \<open>loop_prefix\<close> is what that part does to the
  database. What a loop does later reaches the manager as a change of the database and as the
  settling of its promise.
\<close>

definition MAX_PARALLEL_TASKS :: nat where
  "MAX_PARALLEL_TASKS = 10"

section \<open>State\<close>

record manager =
  mg_db :: "partial_snapshot auto_db"
  mg_running :: "(auto_id \<times> nat) list"
  mg_completions :: "(nat \<times> auto_id) list"
  mg_stopped :: "nat list"
  mg_queue :: "auto_task list"
  mg_next :: nat
  mg_policyConfig :: policy_config
  mg_maxParallelTasks :: nat

definition new_manager :: "partial_snapshot auto_db \<Rightarrow> policy_config option \<Rightarrow> nat option \<Rightarrow> manager" where
  "new_manager db policyConfig maxParallelTasks =
     \<lparr>mg_db = db, mg_running = [], mg_completions = [], mg_stopped = [], mg_queue = [], mg_next = 0,
      mg_policyConfig = nullish policyConfig DEFAULT_POLICY_CONFIG,
      mg_maxParallelTasks = nullish maxParallelTasks MAX_PARALLEL_TASKS\<rparr>"

text \<open>\<open>Map.set\<close> and \<open>Map.delete\<close> on a Map in insertion order.\<close>

definition map_set :: "'k \<Rightarrow> 'v \<Rightarrow> ('k \<times> 'v) list \<Rightarrow> ('k \<times> 'v) list" where
  "map_set k v m = (if k \<in> fst ` set m then map (\<lambda>e. if fst e = k then (k, v) else e) m else m @ [(k, v)])"

definition map_delete :: "'k \<Rightarrow> ('k \<times> 'v) list \<Rightarrow> ('k \<times> 'v) list" where
  "map_delete k m = filter (\<lambda>e. fst e \<noteq> k) m"

text \<open>\<open>findIndex\<close> and \<open>splice\<close>: the first queue entry of the task is taken out.\<close>

fun dequeue_task :: "auto_id \<Rightarrow> auto_task list \<Rightarrow> auto_task list" where
  "dequeue_task tid [] = []"
| "dequeue_task tid (t # ts) = (if at_id t = tid then ts else t # dequeue_task tid ts)"

section \<open>Operations\<close>

definition loop_prefix ::
  "policy_config \<Rightarrow> int \<Rightarrow> auto_task \<Rightarrow> partial_snapshot auto_db \<Rightarrow> partial_snapshot auto_db" where
  "loop_prefix cfg now task db =
     (let tid = at_id task in
      ls_db (snd (unless_returned (then_act (run_start tid task) (loop_head tid now))
                    (\<lambda>_. then_act (engine_act tid recordApiCall) (ret (Go ())))
                    (new_loop cfg task
                       \<lparr>out_db = db, out_now = now, out_aborted = False, out_rest = ()\<rparr>))))"

definition runLoop :: "int \<Rightarrow> auto_task \<Rightarrow> manager \<Rightarrow> manager" where
  "runLoop now task m =
     (let loop = mg_next m in
      m\<lparr>mg_running := map_set (at_id task) loop (mg_running m),
        mg_db := loop_prefix (mg_policyConfig m) now task (mg_db m),
        mg_completions := mg_completions m @ [(loop, at_id task)],
        mg_next := loop + 1\<rparr>)"

text \<open>The \<open>finally\<close> handler of a loop whose promise has settled.\<close>

definition loop_settled :: "int \<Rightarrow> nat \<Rightarrow> manager \<Rightarrow> manager" where
  "loop_settled now loop m =
     (case map_of (mg_completions m) loop of
        None \<Rightarrow> m
      | Some tid \<Rightarrow>
          let m1 = (if map_of (mg_running m) tid = Some loop
                    then m\<lparr>mg_running := map_delete tid (mg_running m)\<rparr> else m);
              m2 = m1\<lparr>mg_completions := map_delete loop (mg_completions m1)\<rparr>
          in (case mg_queue m2 of
                [] \<Rightarrow> m2
              | t # ts \<Rightarrow> runLoop now t (m2\<lparr>mg_queue := ts\<rparr>)))"

definition at_capacity :: "manager \<Rightarrow> bool" where
  "at_capacity m = (length (mg_running m) \<ge> mg_maxParallelTasks m)"

definition startTask_m ::
  "auto_id \<Rightarrow> int \<Rightarrow> auto_input \<Rightarrow> manager \<Rightarrow> (auto_error, auto_task, manager) outcome" where
  "startTask_m tid now input m =
     (case createTask_a tid now input (mg_db m) of
        (Inl e, db') \<Rightarrow> throw e (m\<lparr>mg_db := db'\<rparr>)
      | (Inr task, db') \<Rightarrow>
          if at_capacity m then
            (let (updated, db'') = updateTaskStatus now (at_id task) A_queued None None db';
                 queued = nullish updated task
             in ret queued (m\<lparr>mg_db := db'', mg_queue := mg_queue m @ [queued]\<rparr>))
          else ret task (runLoop now task (m\<lparr>mg_db := db'\<rparr>)))"

text \<open>\<open>stop()\<close> on the registered loop, if there is one, and its removal from the Map and the queue.\<close>

definition detach :: "auto_id \<Rightarrow> manager \<Rightarrow> manager" where
  "detach tid m =
     (let m1 = (case map_of (mg_running m) tid of
                  Some loop \<Rightarrow> m\<lparr>mg_stopped := loop # mg_stopped m,
                                 mg_running := map_delete tid (mg_running m)\<rparr>
                | None \<Rightarrow> m)
      in m1\<lparr>mg_queue := dequeue_task tid (mg_queue m1)\<rparr>)"

definition set_status_m :: "int \<Rightarrow> auto_id \<Rightarrow> auto_status \<Rightarrow> manager \<Rightarrow> auto_task option \<times> manager" where
  "set_status_m now tid status m =
     (case updateTaskStatus now tid status None None (mg_db m) of
        (t, db') \<Rightarrow> (t, m\<lparr>mg_db := db'\<rparr>))"

definition pauseTask :: "int \<Rightarrow> auto_id \<Rightarrow> manager \<Rightarrow> auto_task option \<times> manager" where
  "pauseTask now tid m =
     (case getTask_a (mg_db m) tid of
        None \<Rightarrow> (None, m)
      | Some _ \<Rightarrow> set_status_m now tid A_paused (detach tid m))"

definition resumeTask :: "int \<Rightarrow> auto_id \<Rightarrow> manager \<Rightarrow> auto_task option \<times> manager" where
  "resumeTask now tid m =
     (case getTask_a (mg_db m) tid of
        None \<Rightarrow> (None, m)
      | Some task \<Rightarrow>
          if at_status task \<noteq> A_paused then (Some task, m)
          else let m' = runLoop now task m in (getTask_a (mg_db m') tid, m'))"

definition stopTask :: "int \<Rightarrow> auto_id \<Rightarrow> manager \<Rightarrow> auto_task option \<times> manager" where
  "stopTask now tid m = set_status_m now tid A_cancelled (detach tid m)"

definition stopAll :: "manager \<Rightarrow> manager" where
  "stopAll m = m\<lparr>mg_stopped := map snd (mg_running m) @ mg_stopped m, mg_running := [], mg_queue := []\<rparr>"

text \<open>
  One task of \<open>restoreInterruptedTasks\<close>. The log entry cannot fail, since the task was just read.
\<close>

definition restore_one :: "int \<Rightarrow> auto_task \<Rightarrow> nat \<times> manager \<Rightarrow> nat \<times> manager" where
  "restore_one now task rm =
     (case rm of (restored, m) \<Rightarrow>
        if at_status task \<notin> {A_running, A_pending, A_queued} then (restored, m)
        else if at_capacity m then
          (let (queued, db') = (if at_status task = A_queued then (task, mg_db m)
                                else (case updateTaskStatus now (at_id task) A_queued None None (mg_db m) of
                                        (t, db') \<Rightarrow> (nullish t task, db')))
           in (restored + 1, m\<lparr>mg_db := db', mg_queue := mg_queue m @ [queued]\<rparr>))
        else if at_status task = A_queued then (restored + 1, runLoop now task m)
        else
          (let text = (if at_status task = A_running
                       then ''Agent restarted'' @ EM_DASH @ ''resuming from last checkpoint''
                       else ''Agent started'' @ EM_DASH @ ''starting queued task'');
               db' = snd (appendLog now (at_id task) (at_currentStep task) E_info [S text] None (mg_db m))
           in (restored + 1, runLoop now task (m\<lparr>mg_db := db'\<rparr>))))"

definition restoreInterruptedTasks :: "int \<Rightarrow> manager \<Rightarrow> nat \<times> manager" where
  "restoreInterruptedTasks now m = fold (restore_one now) (getActiveTasks_a (mg_db m)) (0, m)"

definition getRunningTaskIds :: "manager \<Rightarrow> auto_id list" where
  "getRunningTaskIds m = map fst (mg_running m)"

definition isTaskRunning :: "auto_id \<Rightarrow> manager \<Rightarrow> bool" where
  "isTaskRunning tid m = (tid \<in> fst ` set (mg_running m))"

section \<open>Runs\<close>

text \<open>The calls that reach the manager; \<open>M_outside\<close> is any write of a loop or of another caller.\<close>

datatype manager_call =
    M_start auto_id int auto_input
  | M_pause int auto_id
  | M_resume int auto_id
  | M_stop int auto_id
  | M_stopAll
  | M_restore int
  | M_settled int nat
  | M_outside "partial_snapshot auto_db"

fun manager_exec :: "manager_call \<Rightarrow> manager \<Rightarrow> manager" where
  "manager_exec (M_start tid now input) m = snd (startTask_m tid now input m)"
| "manager_exec (M_pause now tid) m = snd (pauseTask now tid m)"
| "manager_exec (M_resume now tid) m = snd (resumeTask now tid m)"
| "manager_exec (M_stop now tid) m = snd (stopTask now tid m)"
| "manager_exec M_stopAll m = stopAll m"
| "manager_exec (M_restore now) m = snd (restoreInterruptedTasks now m)"
| "manager_exec (M_settled now loop) m = loop_settled now loop m"
| "manager_exec (M_outside db) m = m\<lparr>mg_db := db\<rparr>"

inductive manager_step :: "manager \<Rightarrow> manager \<Rightarrow> bool" where
  "manager_step m (manager_exec c m)"

inductive manager_reachable :: "manager \<Rightarrow> bool" where
  start: "manager_reachable (new_manager db cfg cap)"
| step: "manager_reachable m \<Longrightarrow> manager_step m m' \<Longrightarrow> manager_reachable m'"

inductive_cases manager_stepE: "manager_step m m'"

section \<open>Lemmas\<close>

lemma length_map_set: "length (map_set k v m) = (if k \<in> fst ` set m then length m else length m + 1)"
  by (simp add: map_set_def)

lemma map_fst_replace: "map fst (map (\<lambda>e. if fst e = k then (k, v) else e) m) = map fst m"
  by (induction m) auto

lemma keys_map_set: "fst ` set (map_set k v m) = insert k (fst ` set m)"
proof (cases "k \<in> fst ` set m")
  case True
  have "fst ` set (map_set k v m) = set (map fst (map_set k v m))" by simp
  also have "\<dots> = set (map fst m)" unfolding map_set_def if_P [OF True] map_fst_replace ..
  finally show ?thesis using True by auto
next
  case False
  then show ?thesis by (simp add: map_set_def)
qed

lemma distinct_map_set: "distinct (map fst m) \<Longrightarrow> distinct (map fst (map_set k v m))"
  by (cases "k \<in> fst ` set m") (simp_all add: map_set_def map_fst_replace del: map_map)

lemma map_of_map_set: "map_of (map_set k v m) k = Some v"
proof (cases "k \<in> fst ` set m")
  case True
  then show ?thesis
    unfolding map_set_def if_P [OF True] by (induction m) auto
next
  case False
  then have "map_of m k = None" by (simp add: map_of_eq_None_iff)
  then show ?thesis using False by (simp add: map_set_def map_add_def)
qed

lemma distinct_map_delete: "distinct (map fst m) \<Longrightarrow> distinct (map fst (map_delete k m))"
  by (simp add: map_delete_def distinct_map_filter)

lemma map_delete_absent: "k \<notin> fst ` set m \<Longrightarrow> map_delete k m = m"
  by (induction m) (auto simp: map_delete_def)

lemma length_map_delete:
  "distinct (map fst m) \<Longrightarrow> length (map_delete k m) = (if k \<in> fst ` set m then length m - 1 else length m)"
proof (induction m)
  case Nil
  then show ?case by (simp add: map_delete_def)
next
  case (Cons e m)
  show ?case
  proof (cases "fst e = k")
    case True
    then have "map_delete k (e # m) = m"
      using Cons.prems map_delete_absent [of k m] by (simp add: map_delete_def)
    then show ?thesis using True by simp
  next
    case False
    moreover have "k \<in> fst ` set m \<Longrightarrow> 0 < length m" by auto
    ultimately show ?thesis using Cons by (auto simp: map_delete_def)
  qed
qed

lemma runLoop_simps [simp]:
  "mg_running (runLoop now t m) = map_set (at_id t) (mg_next m) (mg_running m)"
  "mg_queue (runLoop now t m) = mg_queue m"
  "mg_maxParallelTasks (runLoop now t m) = mg_maxParallelTasks m"
  "mg_stopped (runLoop now t m) = mg_stopped m"
  by (simp_all add: runLoop_def Let_def)

lemma detach_running: "mg_running (detach tid m) = map_delete tid (mg_running m)"
proof (cases "map_of (mg_running m) tid")
  case None
  then have "map_delete tid (mg_running m) = mg_running m"
    by (force simp: map_delete_def map_of_eq_None_iff intro: filter_True)
  then show ?thesis using None by (simp add: detach_def)
next
  case (Some l)
  then show ?thesis by (simp add: detach_def)
qed

lemma set_status_running [simp]:
  "mg_running (snd (set_status_m now tid st m)) = mg_running m"
  "mg_queue (snd (set_status_m now tid st m)) = mg_queue m"
  "mg_maxParallelTasks (snd (set_status_m now tid st m)) = mg_maxParallelTasks m"
  "mg_stopped (snd (set_status_m now tid st m)) = mg_stopped m"
  "mg_db (snd (set_status_m now tid st m)) = snd (updateTaskStatus now tid st None None (mg_db m))"
  by (simp_all add: set_status_m_def split: prod.splits)

lemma detach_db [simp]: "mg_db (detach tid m) = mg_db m"
  by (simp add: detach_def Let_def split: option.splits)

text \<open>The Map has one entry per task, in every reachable state.\<close>

definition running_ok :: "manager \<Rightarrow> bool" where
  "running_ok m = distinct (map fst (mg_running m))"

lemma running_ok_runLoop: "running_ok m \<Longrightarrow> running_ok (runLoop now t m)"
  by (simp add: running_ok_def distinct_map_set)

lemma running_ok_detach: "running_ok m \<Longrightarrow> running_ok (detach tid m)"
  by (simp add: running_ok_def detach_running distinct_map_delete)

lemma running_ok_cong: "mg_running m' = mg_running m \<Longrightarrow> running_ok m \<Longrightarrow> running_ok m'"
  by (simp add: running_ok_def)

lemma running_ok_restore_one: "running_ok (snd rm) \<Longrightarrow> running_ok (snd (restore_one now t rm))"
  by (auto simp: restore_one_def Let_def running_ok_def distinct_map_set split: prod.splits)

lemma running_ok_restore: "running_ok (snd rm) \<Longrightarrow> running_ok (snd (fold (restore_one now) ts rm))"
  by (induction ts arbitrary: rm) (simp_all add: running_ok_restore_one)

lemma running_ok_exec: "running_ok m \<Longrightarrow> running_ok (manager_exec c m)"
proof (cases c)
  case (M_start tid now input)
  then show "running_ok m \<Longrightarrow> ?thesis"
    by (auto simp: startTask_m_def Let_def running_ok_def distinct_map_set split: prod.splits sum.splits)
next
  case (M_restore now)
  then show "running_ok m \<Longrightarrow> ?thesis"
    using running_ok_restore [of "(0, m)"] by (simp add: restoreInterruptedTasks_def)
next
  case (M_settled now loop)
  then show "running_ok m \<Longrightarrow> ?thesis"
    by (auto simp: loop_settled_def Let_def running_ok_def distinct_map_set distinct_map_delete
        split: option.splits list.splits)
qed (auto simp: pauseTask_def resumeTask_def stopTask_def stopAll_def running_ok_def detach_running
    distinct_map_delete distinct_map_set Let_def split: option.splits)

lemma reachable_running_ok: "manager_reachable m \<Longrightarrow> running_ok m"
  by (induction rule: manager_reachable.induct)
     (auto simp: new_manager_def elim!: manager_stepE intro: running_ok_exec,
      simp add: running_ok_def)

section \<open>The limit on parallel tasks\<close>

text \<open>A loop is detached once a pause, a stop or a newer loop of its task took its place in the Map.\<close>

definition registered :: "manager \<Rightarrow> nat \<Rightarrow> bool" where
  "registered m loop =
     (case map_of (mg_completions m) loop of
        None \<Rightarrow> True
      | Some tid \<Rightarrow> map_of (mg_running m) tid = Some loop)"

fun admitting :: "manager \<Rightarrow> manager_call \<Rightarrow> bool" where
  "admitting m (M_resume now tid) = False"
| "admitting m (M_settled now loop) = registered m loop"
| "admitting m _ = True"

lemma restore_one_cap:
  "length (mg_running (snd (restore_one now t rm))) \<le>
     max (length (mg_running (snd rm))) (mg_maxParallelTasks (snd rm)) \<and>
   mg_maxParallelTasks (snd (restore_one now t rm)) = mg_maxParallelTasks (snd rm)"
  by (auto simp: restore_one_def Let_def at_capacity_def length_map_set split: prod.splits)

lemma restore_cap:
  "length (mg_running (snd (fold (restore_one now) ts rm))) \<le>
     max (length (mg_running (snd rm))) (mg_maxParallelTasks (snd rm))"
proof (induction ts arbitrary: rm)
  case Nil
  then show ?case by simp
next
  case (Cons t ts)
  then show ?case
    using Cons.IH [of "restore_one now t rm"] restore_one_cap [of now t rm] by auto
qed

lemma settled_cap:
  assumes "running_ok m" and "registered m loop"
  shows "length (mg_running (loop_settled now loop m)) \<le> length (mg_running m)"
proof (cases "map_of (mg_completions m) loop")
  case None
  then show ?thesis by (simp add: loop_settled_def)
next
  case (Some tid)
  then have r: "map_of (mg_running m) tid = Some loop" using assms(2) by (simp add: registered_def)
  then have "tid \<in> fst ` set (mg_running m)" by (force dest: map_of_SomeD)
  moreover from this have "0 < length (mg_running m)" by auto
  ultimately have "length (map_delete tid (mg_running m)) + 1 = length (mg_running m)"
    using assms(1) by (simp add: running_ok_def length_map_delete)
  then show ?thesis
    using Some r by (auto simp: loop_settled_def Let_def length_map_set split: list.splits)
qed

text \<open>
  The limit on parallel tasks is respected by every call except two: a call that is neither a
  resume nor the settling of a detached loop never raises the number of running loops above the
  larger of what it was and the configured limit.
\<close>

theorem admission_respects_cap:
  assumes "manager_reachable m" and "admitting m c"
  shows "length (mg_running (manager_exec c m)) \<le> max (length (mg_running m)) (mg_maxParallelTasks m)"
proof (cases c)
  case (M_start tid now input)
  then show ?thesis
    by (auto simp: startTask_m_def Let_def at_capacity_def length_map_set split: prod.splits sum.splits)
next
  case (M_restore now)
  then show ?thesis using restore_cap [of now _ "(0, m)"] by (simp add: restoreInterruptedTasks_def)
next
  case (M_settled now loop)
  then show ?thesis
    using settled_cap [OF reachable_running_ok [OF assms(1)], of loop now] assms(2) by simp
qed (use assms(2) in \<open>auto simp: pauseTask_def stopTask_def stopAll_def detach_running map_delete_def
        le_max_iff_disj split: option.splits\<close>)

section \<open>Pausing\<close>

lemma map_of_map_delete: "map_of (map_delete k m) k' = (if k' = k then None else map_of m k')"
  by (induction m) (auto simp: map_delete_def)

text \<open>
  Pausing an existing task takes it out of the set of running tasks, signals its loop to stop,
  removes its entry from the waiting queue and leaves it paused in the store, without touching
  the loops and the waiting order of the other tasks.
\<close>

theorem pauseTask_detaches:
  assumes "getTask_row_a (mg_db m) tid = Some row"
  shows "\<not> isTaskRunning tid (snd (pauseTask now tid m)) \<and>
         status_of tid (mg_db (snd (pauseTask now tid m))) = Some A_paused \<and>
         mg_queue (snd (pauseTask now tid m)) = dequeue_task tid (mg_queue m) \<and>
         map_of (mg_running (snd (pauseTask now tid m))) = (map_of (mg_running m))(tid := None) \<and>
         mg_stopped (snd (pauseTask now tid m)) =
           (case map_of (mg_running m) tid of None \<Rightarrow> [] | Some loop \<Rightarrow> [loop]) @ mg_stopped m"
proof -
  have "snd (pauseTask now tid m) = snd (set_status_m now tid A_paused (detach tid m))"
    using assms by (simp add: pauseTask_def getTask_a_def)
  moreover have "mg_queue (detach tid m) = dequeue_task tid (mg_queue m)"
    and "mg_stopped (detach tid m) =
           (case map_of (mg_running m) tid of None \<Rightarrow> [] | Some loop \<Rightarrow> [loop]) @ mg_stopped m"
    by (simp_all add: detach_def Let_def split: option.splits)
  moreover have "tid \<notin> fst ` set (map_delete tid (mg_running m))"
    by (auto simp: map_delete_def)
  moreover have "map_of (map_delete tid (mg_running m)) = (map_of (mg_running m))(tid := None)"
    by (rule ext) (simp add: map_of_map_delete)
  ultimately show ?thesis
    using assms by (simp add: isTaskRunning_def detach_running) (simp add: status_of_def)
qed

section \<open>Examples\<close>

definition example_manager :: manager where
  "example_manager = new_manager (example_db\<lparr>autonomous_tasks := []\<rparr>) (Some example_cfg) (Some 1)"

definition example_manager_calls :: "manager_call list" where
  "example_manager_calls = [M_start ''a1'' 1000 example_input, M_start ''b1'' 1000 example_input]"

lemma manager_reachable_fold: "manager_reachable m \<Longrightarrow> manager_reachable (fold manager_exec cs m)"
  by (induction cs arbitrary: m) (auto intro: manager_reachable.step manager_step.intros)

lemma example_manager_state:
  "map fst (mg_running (fold manager_exec example_manager_calls example_manager)) = [''a1''] \<and>
   map at_id (mg_queue (fold manager_exec example_manager_calls example_manager)) = [''b1'']"
  by code_simp

text \<open>
  The limit can be exceeded. With a limit of one task, of which one runs and another waits,
  pausing the running task frees its place for a third one, and when the paused task's loop
  settles, its handler starts the waiting task although that place is taken: two loops run.
\<close>

theorem cap_exceeded:
  "mg_maxParallelTasks example_manager = 1 \<and>
   map fst (mg_running (fold manager_exec
     (example_manager_calls @ [M_pause 2000 ''a1'', M_start ''c1'' 3000 example_input, M_settled 4000 0])
     example_manager)) = [''c1'', ''b1'']"
  by (intro conjI; code_simp)

theorem admission_respects_cap_witness:
  "length (mg_running (manager_exec (M_start ''c1'' 3000 example_input)
     (fold manager_exec example_manager_calls example_manager))) \<le> 1"
proof -
  define m where "m = fold manager_exec example_manager_calls example_manager"
  have a: "manager_reachable m"
    unfolding m_def example_manager_def by (intro manager_reachable_fold manager_reachable.start)
  have b: "admitting m (M_start ''c1'' 3000 example_input)" by simp
  have "length (mg_running m) = 1"
    using example_manager_state unfolding m_def by (metis length_map One_nat_def list.size(3,4) add_0)
  moreover have "mg_maxParallelTasks m = 1" unfolding m_def by code_simp
  ultimately show ?thesis using admission_respects_cap [OF a b] by (simp add: m_def)
qed

theorem pauseTask_detaches_witness:
  "\<not> isTaskRunning ''a1'' (snd (pauseTask 2000 ''a1'' (fold manager_exec example_manager_calls example_manager)))"
proof -
  define m where "m = fold manager_exec example_manager_calls example_manager"
  have "getTask_row_a (mg_db m) ''a1'' \<noteq> None" unfolding m_def by code_simp
  then obtain row where "getTask_row_a (mg_db m) ''a1'' = Some row" by auto
  from pauseTask_detaches [OF this, of 2000] show ?thesis by (simp add: m_def)
qed

end
