(* ===== verification/PipelineResolver.thy ===== *)
theory PipelineResolver
  imports Prelude
begin

text \<open>
  Resolving the steps of a pipeline: \<open>resolvePipelineSteps\<close> of src/services/pipeline/resolver.ts,
  Kahn's algorithm by levels.

  The Maps \<open>indegree\<close> and \<open>dependents\<close> are functions on step ids whose default is what the code
  reads for a missing key (0 and the empty array). The levels are computed by \<open>kahn\<close>, one call for
  each turn of the while loop; \<open>order\<close> is their concatenation, since the code pushes each step
  of a level in turn.
\<close>

datatype error_strategy = Fail_fast | Continue | Retry

record pipeline_step =
  s_id :: string
  s_agent :: string
  s_action :: string
  s_output :: string
  s_dependsOn :: "string list"
  s_errorStrategy :: "error_strategy option"
  s_retryCount :: "nat option"
  s_timeoutSeconds :: "nat option"

record resolution =
  r_order :: "pipeline_step list"
  r_levels :: "pipeline_step list list"
  r_dependents :: "string \<Rightarrow> string list"

datatype resolve_error =
    Duplicate_step string
  | Self_dependency string
  | Unknown_dependency string string
  | Cycle_near "string list"

section \<open>The algorithm\<close>

fun first_duplicate :: "string list \<Rightarrow> pipeline_step list \<Rightarrow> resolve_error option" where
  "first_duplicate seen [] = None"
| "first_duplicate seen (step # steps) =
     (if s_id step \<in> set seen then Some (Duplicate_step (s_id step))
      else first_duplicate (s_id step # seen) steps)"

type_synonym counts = "(string \<Rightarrow> int) \<times> (string \<Rightarrow> string list)"

text \<open>The inner loop over \<open>dependsOn\<close>, and the loop over the steps.\<close>

fun link_deps :: "string list \<Rightarrow> string \<Rightarrow> string list \<Rightarrow> counts \<Rightarrow> resolve_error + counts" where
  "link_deps ids sid [] c = Inr c"
| "link_deps ids sid (d # ds) (indegree, dependents) =
     (if d = sid then Inl (Self_dependency sid)
      else if d \<notin> set ids then Inl (Unknown_dependency sid d)
      else link_deps ids sid ds
             (indegree(sid := indegree sid + 1), dependents(d := dependents d @ [sid])))"

fun link_steps :: "string list \<Rightarrow> pipeline_step list \<Rightarrow> counts \<Rightarrow> resolve_error + counts" where
  "link_steps ids [] c = Inr c"
| "link_steps ids (step # steps) c =
     (case link_deps ids (s_id step) (s_dependsOn step) c of
        Inl e \<Rightarrow> Inl e
      | Inr c' \<Rightarrow> link_steps ids steps c')"

type_synonym frontier = "(string \<Rightarrow> int) \<times> pipeline_step list"

text \<open>One dependent of a finished step: its count drops, and at 0 it joins the queue.\<close>

definition release_one :: "pipeline_step list \<Rightarrow> string \<Rightarrow> frontier \<Rightarrow> frontier" where
  "release_one steps dependentId fr =
     (case fr of (indegree, queue) \<Rightarrow>
        let next = indegree dependentId - 1;
            indegree' = indegree(dependentId := next)
        in if next = 0 then
             (case sql_get s_id dependentId steps of
                Some dependent \<Rightarrow> (indegree', queue @ [dependent])
              | None \<Rightarrow> (indegree', queue))
           else (indegree', queue))"

definition release_step ::
  "pipeline_step list \<Rightarrow> (string \<Rightarrow> string list) \<Rightarrow> pipeline_step \<Rightarrow> frontier \<Rightarrow> frontier" where
  "release_step steps dependents step fr = fold (release_one steps) (dependents (s_id step)) fr"

definition release_level ::
  "pipeline_step list \<Rightarrow> (string \<Rightarrow> string list) \<Rightarrow> pipeline_step list \<Rightarrow> (string \<Rightarrow> int) \<Rightarrow> frontier" where
  "release_level steps dependents level indegree =
     fold (release_step steps dependents) level (indegree, [])"

text \<open>The steps that still wait: a count that the loop can only bring down.\<close>

definition waiting :: "pipeline_step list \<Rightarrow> (string \<Rightarrow> int) \<Rightarrow> nat" where
  "waiting steps indegree = length (filter (\<lambda>s. 0 < indegree (s_id s)) steps)"

lemma release_one_fst: "fst (release_one steps i fr) = (fst fr)(i := fst fr i - 1)"
  by (simp add: release_one_def Let_def split: prod.split option.split)

lemma waiting_mono: "(\<And>i. ind' i \<le> ind i) \<Longrightarrow> waiting steps ind' \<le> waiting steps ind"
proof (induction steps)
  case Nil
  then show ?case by (simp add: waiting_def)
next
  case (Cons s steps)
  have "ind' (s_id s) \<le> ind (s_id s)" by (rule Cons.prems)
  moreover have "waiting steps ind' \<le> waiting steps ind" by (rule Cons.IH [OF Cons.prems])
  ultimately show ?case by (auto simp: waiting_def)
qed

lemma waiting_less:
  assumes "\<And>i. ind' i \<le> ind i" and "s \<in> set steps" and "ind' (s_id s) \<le> 0" and "0 < ind (s_id s)"
  shows "waiting steps ind' < waiting steps ind"
  using assms(2)
proof (induction steps)
  case Nil
  then show ?case by simp
next
  case (Cons t steps)
  have t: "ind' (s_id t) \<le> ind (s_id t)" by (rule assms(1))
  have "waiting steps ind' \<le> waiting steps ind" by (rule waiting_mono [OF assms(1)])
  then show ?case using Cons assms(3,4) t by (auto simp: waiting_def)
qed

text \<open>Releasing dependents lowers counts, and lowers the number of waiting steps if one joins.\<close>

lemma release_many_waiting:
  "(\<forall>i. fst (fold (release_one steps) ids fr) i \<le> fst fr i) \<and>
   (snd (fold (release_one steps) ids fr) \<noteq> snd fr \<longrightarrow>
      waiting steps (fst (fold (release_one steps) ids fr)) < waiting steps (fst fr))"
proof (induction ids arbitrary: fr)
  case Nil
  then show ?case by simp
next
  case (Cons i ids)
  define fr' where "fr' = release_one steps i fr"
  have le: "fst fr' j \<le> fst fr j" for j by (simp add: fr'_def release_one_fst)
  have IH: "\<forall>i. fst (fold (release_one steps) ids fr') i \<le> fst fr' i"
    "snd (fold (release_one steps) ids fr') \<noteq> snd fr' \<longrightarrow>
      waiting steps (fst (fold (release_one steps) ids fr')) < waiting steps (fst fr')"
    using Cons.IH [of fr'] by blast+
  have low: "fst (fold (release_one steps) ids fr') j \<le> fst fr j" for j
    using IH(1) le order_trans by blast
  have "waiting steps (fst (fold (release_one steps) ids fr')) < waiting steps (fst fr)"
    if "snd (fold (release_one steps) ids fr') \<noteq> snd fr"
  proof (cases "snd fr' = snd fr")
    case True
    then have "waiting steps (fst (fold (release_one steps) ids fr')) < waiting steps (fst fr')"
      using that IH(2) by simp
    then show ?thesis using waiting_mono [of "fst fr'" "fst fr" steps, OF le] by linarith
  next
    case False
    then obtain s where s: "sql_get s_id i steps = Some s" and z: "fst fr i - 1 = 0"
      by (auto simp: fr'_def release_one_def Let_def split: prod.splits option.splits if_splits)
    then have "s \<in> set steps" "s_id s = i" by (auto dest: sql_get_SomeD)
    moreover have "fst (fold (release_one steps) ids fr') i \<le> 0"
      using IH(1) [rule_format, of i] z by (simp add: fr'_def release_one_fst)
    ultimately show ?thesis using z by (intro waiting_less [OF low]) auto
  qed
  then show ?case using low by (simp add: fr'_def)
qed

lemma release_level_flat:
  "release_level steps dependents level ind =
   fold (release_one steps) (concat (map (\<lambda>s. dependents (s_id s)) level)) (ind, [])"
proof -
  have "fold (release_step steps dependents) level fr =
        fold (release_one steps) (concat (map (\<lambda>s. dependents (s_id s)) level)) fr" for fr
    by (induction level arbitrary: fr) (simp_all add: release_step_def)
  then show ?thesis by (simp add: release_level_def)
qed

function kahn ::
  "pipeline_step list \<Rightarrow> (string \<Rightarrow> string list) \<Rightarrow> (string \<Rightarrow> int) \<Rightarrow> pipeline_step list \<Rightarrow>
   pipeline_step list list" where
  "kahn steps dependents indegree queue =
     (if queue = [] then []
      else queue # kahn steps dependents (fst (release_level steps dependents queue indegree))
                     (snd (release_level steps dependents queue indegree)))"
  by pat_completeness auto
termination
proof (relation "measure (\<lambda>(steps, dependents, ind, queue).
    2 * waiting steps ind + (if queue = [] then 0 else 1))", goal_cases)
  case 1
  then show ?case by simp
next
  case (2 steps dependents ind queue)
  define fr where "fr = release_level steps dependents queue ind"
  have fr: "fr = fold (release_one steps) (concat (map (\<lambda>s. dependents (s_id s)) queue)) (ind, [])"
    by (simp add: fr_def release_level_flat)
  have "\<forall>i. fst fr i \<le> ind i" and less: "snd fr \<noteq> [] \<longrightarrow> waiting steps (fst fr) < waiting steps ind"
    using release_many_waiting [of steps "concat (map (\<lambda>s. dependents (s_id s)) queue)" "(ind, [])"]
    by (simp_all add: fr)
  then have "waiting steps (fst fr) \<le> waiting steps ind" by (intro waiting_mono) simp
  then show ?case using 2 less by (cases fr) (auto simp flip: fr_def)
qed

declare kahn.simps [simp del]

definition resolvePipelineSteps :: "pipeline_step list \<Rightarrow> resolve_error + resolution" where
  "resolvePipelineSteps steps =
     (case first_duplicate [] steps of
        Some e \<Rightarrow> Inl e
      | None \<Rightarrow>
          (case link_steps (map s_id steps) steps (\<lambda>_. 0, \<lambda>_. []) of
             Inl e \<Rightarrow> Inl e
           | Inr (indegree, dependents) \<Rightarrow>
               let queue = filter (\<lambda>s. indegree (s_id s) = 0) steps;
                   levels = kahn steps dependents indegree queue;
                   order = concat levels
               in if length order \<noteq> length steps
                  then Inl (Cycle_near (map s_id
                         (filter (\<lambda>s. s_id s \<notin> s_id ` set order) steps)))
                  else Inr \<lparr>r_order = order, r_levels = levels, r_dependents = dependents\<rparr>))"

section \<open>What linking computes\<close>

definition deps_of :: "pipeline_step list \<Rightarrow> string \<Rightarrow> string list" where
  "deps_of steps i = concat (map s_dependsOn (filter (\<lambda>s. s_id s = i) steps))"

definition deps_known :: "string list \<Rightarrow> pipeline_step \<Rightarrow> bool" where
  "deps_known ids s = list_all (\<lambda>d. d \<noteq> s_id s \<and> d \<in> set ids) (s_dependsOn s)"

lemma first_duplicate_None:
  "first_duplicate seen steps = None \<longleftrightarrow> distinct (map s_id steps) \<and> set seen \<inter> s_id ` set steps = {}"
  by (induction seen steps rule: first_duplicate.induct) auto

lemma link_deps_Inr:
  "link_deps ids sid ds c = Inr c' \<longleftrightarrow>
   list_all (\<lambda>d. d \<noteq> sid \<and> d \<in> set ids) ds \<and>
   c' = ((fst c)(sid := fst c sid + int (length ds)), \<lambda>d. snd c d @ replicate (count_list ds d) sid)"
proof (induction ids sid ds c rule: link_deps.induct)
  case (1 ids sid c)
  then show ?case by (auto simp: prod_eq_iff)
next
  case (2 ids sid d ds ind dep)
  show ?case
  proof (cases "d \<noteq> sid \<and> d \<in> set ids")
    case True
    have "(ind(sid := ind sid + 1))(sid := (ind(sid := ind sid + 1)) sid + int (length ds)) =
          ind(sid := ind sid + int (length (d # ds)))"
      by (simp add: fun_eq_iff)
    moreover have "(\<lambda>x. (dep(d := dep d @ [sid])) x @ replicate (count_list ds x) sid) =
          (\<lambda>x. dep x @ replicate (count_list (d # ds) x) sid)"
      by (simp add: fun_eq_iff)
    moreover have "link_deps ids sid (d # ds) (ind, dep) =
          link_deps ids sid ds (ind(sid := ind sid + 1), dep(d := dep d @ [sid]))"
      using True by simp
    ultimately show ?thesis
      using 2 [OF _ _] True by (simp only: fst_conv snd_conv list_all_iff list.set ball_simps) simp
  next
    case False
    then show ?thesis by auto
  qed
qed

lemma count_list_replicate: "count_list (replicate n x) y = (if x = y then n else 0)"
  by (induction n) auto

lemma link_steps_Inr:
  "link_steps ids steps c = Inr (ind, dep) \<Longrightarrow>
   (\<forall>i. ind i = fst c i + int (length (deps_of steps i))) \<and>
   (\<forall>d i. count_list (dep d) i = count_list (snd c d) i + count_list (deps_of steps i) d)"
proof (induction ids steps c rule: link_steps.induct)
  case (1 ids c)
  then show ?case by (simp add: deps_of_def)
next
  case (2 ids s steps c)
  from 2(2) obtain c' where l: "link_deps ids (s_id s) (s_dependsOn s) c = Inr c'"
    and r: "link_steps ids steps c' = Inr (ind, dep)"
    by (auto split: sum.splits)
  have c': "fst c' = (fst c)(s_id s := fst c (s_id s) + int (length (s_dependsOn s)))"
    "snd c' = (\<lambda>d. snd c d @ replicate (count_list (s_dependsOn s) d) (s_id s))"
    using l by (simp_all add: link_deps_Inr)
  have IH: "\<forall>i. ind i = fst c' i + int (length (deps_of steps i))"
    "\<forall>d i. count_list (dep d) i = count_list (snd c' d) i + count_list (deps_of steps i) d"
    using 2(1) [OF l r] by blast+
  show ?case
    by (simp add: IH c' deps_of_def count_list_replicate)
qed

lemma link_steps_ok:
  "(\<exists>c'. link_steps ids steps c = Inr c') \<longleftrightarrow> list_all (deps_known ids) steps"
proof (induction ids steps c rule: link_steps.induct)
  case (1 ids c)
  then show ?case by simp
next
  case (2 ids s steps c)
  show ?case
  proof (cases "link_deps ids (s_id s) (s_dependsOn s) c")
    case (Inl e)
    then have "\<not> deps_known ids s"
      using link_deps_Inr [of ids "s_id s" "s_dependsOn s" c] by (auto simp: deps_known_def)
    then show ?thesis using Inl by simp
  next
    case (Inr c')
    then have "deps_known ids s" by (simp add: link_deps_Inr deps_known_def)
    then show ?thesis using Inr 2 by simp
  qed
qed

lemma deps_of_step:
  "distinct (map s_id steps) \<Longrightarrow> s \<in> set steps \<Longrightarrow> deps_of steps (s_id s) = s_dependsOn s"
proof (induction steps)
  case Nil
  then show ?case by simp
next
  case (Cons t steps)
  then have none: "filter (\<lambda>u. s_id u = s_id t) steps = []"
    by (metis (mono_tags, lifting) distinct.simps(2) filter_False image_eqI list.map(2) set_map)
  show ?case
  proof (cases "s = t")
    case True
    then show ?thesis using none by (simp add: deps_of_def)
  next
    case False
    then have "s \<in> set steps" using Cons.prems by simp
    moreover from this have "s_id t \<noteq> s_id s" using Cons.prems by force
    ultimately show ?thesis using Cons by (simp add: deps_of_def)
  qed
qed

section \<open>What releasing a level computes\<close>

lemma sum_count_list:
  "distinct ys \<Longrightarrow> sum_list (map (count_list zs) ys) = length (filter (\<lambda>d. d \<in> set ys) zs)"
proof (induction zs)
  case Nil
  then show ?case by (induction ys) simp_all
next
  case (Cons z zs)
  have eq: "sum_list (map (count_list (z # zs)) ys) =
        sum_list (map (count_list zs) ys) + (if z \<in> set ys then 1 else 0)"
    using Cons.prems by (induction ys) auto
  show ?case unfolding eq using Cons by simp
qed

lemma release_many:
  assumes "distinct (map s_id steps)"
  shows "(\<forall>i. int (count_list xs i) \<le> ind i) \<Longrightarrow>
     (\<forall>i. fst (fold (release_one steps) xs (ind, q)) i = ind i - int (count_list xs i)) \<and>
     (\<exists>new. snd (fold (release_one steps) xs (ind, q)) = q @ new \<and> distinct new \<and>
        set new = {s \<in> set steps. s_id s \<in> set xs \<and> ind (s_id s) = int (count_list xs (s_id s))})"
proof (induction xs arbitrary: ind q)
  case Nil
  then show ?case by simp
next
  case (Cons i xs)
  define ind1 where "ind1 = ind(i := ind i - 1)"
  define q1 where "q1 = snd (release_one steps i (ind, q))"
  have r1: "release_one steps i (ind, q) = (ind1, q1)"
    by (simp add: q1_def ind1_def release_one_fst prod_eq_iff)
  have le: "int (count_list xs j) \<le> ind1 j" for j
    using Cons.prems [rule_format, of j] by (simp add: ind1_def split: if_splits)
  obtain new where IH: "\<forall>j. fst (fold (release_one steps) xs (ind1, q1)) j = ind1 j - int (count_list xs j)"
    and q: "snd (fold (release_one steps) xs (ind1, q1)) = q1 @ new" and d: "distinct new"
    and new: "set new = {s \<in> set steps. s_id s \<in> set xs \<and> ind1 (s_id s) = int (count_list xs (s_id s))}"
    using Cons.IH [of ind1 q1] le by blast
  have fst_eq: "\<forall>j. fst (fold (release_one steps) (i # xs) (ind, q)) j = ind j - int (count_list (i # xs) j)"
    using IH by (simp add: r1 ind1_def)
  show ?case
  proof (cases "ind i = 1 \<and> (\<exists>s \<in> set steps. s_id s = i)")
    case True
    then obtain s where s: "s \<in> set steps" "s_id s = i" by auto
    then have "sql_get s_id i steps = Some s" using sql_get_unique [OF assms, of s] by simp
    then have q1: "q1 = q @ [s]" using True by (simp add: q1_def release_one_def)
    have "count_list xs i = 0" using le [of i] True by (simp add: ind1_def)
    then have "i \<notin> set xs" by (simp add: count_list_0_iff)
    have other: "s_id t \<noteq> i" if "t \<in> set steps" "t \<noteq> s" for t
      using that s assms by (auto simp: distinct_map inj_on_def)
    have "t \<in> set (s # new) \<longleftrightarrow> t \<in> set steps \<and> s_id t \<in> set (i # xs) \<and>
        ind (s_id t) = int (count_list (i # xs) (s_id t))" for t
    proof (cases "t = s")
      case t: True
      then show ?thesis using True s \<open>count_list xs i = 0\<close> by simp
    next
      case False
      then show ?thesis using other [of t] by (auto simp: new ind1_def)
    qed
    then have "set (s # new) = {t \<in> set steps. s_id t \<in> set (i # xs) \<and> ind (s_id t) = int (count_list (i # xs) (s_id t))}"
      by blast
    moreover have "distinct (s # new)" using d s \<open>i \<notin> set xs\<close> by (auto simp: new)
    ultimately show ?thesis
      using fst_eq q q1 by (intro conjI exI [of _ "s # new"]) (simp_all add: r1)
  next
    case False
    then have "q1 = q"
      by (auto simp: q1_def release_one_def Let_def dest: sql_get_SomeD split: option.splits)
    moreover have "set new = {t \<in> set steps. s_id t \<in> set (i # xs) \<and> ind (s_id t) = int (count_list (i # xs) (s_id t))}"
    proof -
      have "s_id t \<in> set xs" if "t \<in> set steps" "s_id t = i" "ind i = int (count_list (i # xs) i)" for t
        using False that count_list_0_iff [of xs i] by auto
      then show ?thesis by (auto simp: new ind1_def)
    qed
    ultimately show ?thesis
      using fst_eq q d by (intro conjI exI [of _ new]) (simp_all add: r1)
  qed
qed

section \<open>Kahn's algorithm\<close>

text \<open>Every level only depends on steps of earlier levels.\<close>

fun levels_ok :: "string set \<Rightarrow> pipeline_step list list \<Rightarrow> bool" where
  "levels_ok before [] = True"
| "levels_ok before (level # levels) =
     (list_all (\<lambda>s. set (s_dependsOn s) \<subseteq> before) level \<and>
      levels_ok (before \<union> s_id ` set level) levels)"

text \<open>The state of the while loop, after the steps with an id in \<open>D\<close> were taken.\<close>

definition kahn_inv ::
  "pipeline_step list \<Rightarrow> string set \<Rightarrow> (string \<Rightarrow> int) \<Rightarrow> pipeline_step list \<Rightarrow> bool" where
  "kahn_inv steps D ind queue \<longleftrightarrow>
     (\<forall>i. ind i = int (length (filter (\<lambda>d. d \<notin> D) (deps_of steps i)))) \<and>
     (\<forall>s \<in> set steps. s_id s \<in> D \<longrightarrow> ind (s_id s) = 0) \<and>
     set queue = {s \<in> set steps. s_id s \<notin> D \<and> ind (s_id s) = 0} \<and> distinct queue"

lemma filter_split_length:
  "S \<inter> D = {} \<Longrightarrow> length (filter (\<lambda>d. d \<notin> D) xs) =
     length (filter (\<lambda>d. d \<in> S) xs) + length (filter (\<lambda>d. d \<notin> D \<union> S) xs)"
  by (induction xs) auto

lemma kahn_step:
  assumes dist: "distinct (map s_id steps)"
    and dep: "\<forall>d i. count_list (dependents d) i = count_list (deps_of steps i) d"
    and inv: "kahn_inv steps D ind queue"
  shows "kahn_inv steps (D \<union> s_id ` set queue) (fst (release_level steps dependents queue ind))
           (snd (release_level steps dependents queue ind))"
proof -
  define xs where "xs = concat (map (\<lambda>s. dependents (s_id s)) queue)"
  define S where "S = s_id ` set queue"
  have qs: "set queue \<subseteq> set steps" and disj: "S \<inter> D = {}"
    using inv by (auto simp: kahn_inv_def S_def)
  have "distinct (map s_id queue)"
    using inv dist qs by (auto simp: kahn_inv_def distinct_map inj_on_subset)
  then have cnt: "count_list xs i = length (filter (\<lambda>d. d \<in> S) (deps_of steps i))" for i
  proof -
    have "count_list xs i = sum_list (map (\<lambda>s. count_list (dependents (s_id s)) i) queue)"
      unfolding xs_def by (induction queue) simp_all
    also have "\<dots> = sum_list (map (count_list (deps_of steps i)) (map s_id queue))"
      by (simp add: dep comp_def)
    also have "\<dots> = length (filter (\<lambda>d. d \<in> set (map s_id queue)) (deps_of steps i))"
      by (rule sum_count_list) fact
    finally show ?thesis by (simp add: S_def)
  qed
  have ind: "ind i = int (count_list xs i) + int (length (filter (\<lambda>d. d \<notin> D \<union> S) (deps_of steps i)))" for i
    using inv filter_split_length [OF disj, of "deps_of steps i"] by (simp add: kahn_inv_def cnt)
  then have le: "\<forall>i. int (count_list xs i) \<le> ind i" by simp
  define fr where "fr = release_level steps dependents queue ind"
  have fr: "fr = fold (release_one steps) xs (ind, [])"
    by (simp add: fr_def release_level_flat xs_def)
  have i': "fst fr i = ind i - int (count_list xs i)" for i
    using release_many [OF dist le, of "[]"] by (simp add: fr)
  have d': "distinct (snd fr)" and
    q': "set (snd fr) = {s \<in> set steps. s_id s \<in> set xs \<and> ind (s_id s) = int (count_list xs (s_id s))}"
    using release_many [OF dist le, of "[]"] by (auto simp: fr)
  have zero: "ind (s_id s) = 0" if "s \<in> set steps" "s_id s \<in> D \<union> S" for s :: pipeline_step
  proof (cases "s_id s \<in> D")
    case True
    then show ?thesis using inv that unfolding kahn_inv_def by blast
  next
    case False
    then have "s_id s \<in> s_id ` set queue" using that(2) unfolding S_def by blast
    then obtain q where "q \<in> set queue" "s_id s = s_id q" by (rule imageE) auto
    then show ?thesis using inv unfolding kahn_inv_def by auto
  qed
  have q'': "set (snd fr) = {s \<in> set steps. s_id s \<notin> D \<union> S \<and> fst fr (s_id s) = 0}"
  proof (rule set_eqI)
    fix s :: pipeline_step
    have mem: "s_id s \<in> set xs \<longleftrightarrow> count_list xs (s_id s) \<noteq> 0" by (simp add: count_list_0_iff)
    have "s_id s \<notin> D \<union> S \<longleftrightarrow> ind (s_id s) \<noteq> 0" if "s \<in> set steps"
      using zero [OF that] inv that by (auto simp: kahn_inv_def S_def)
    then show "s \<in> set (snd fr) \<longleftrightarrow> s \<in> {s \<in> set steps. s_id s \<notin> D \<union> S \<and> fst fr (s_id s) = 0}"
      using mem by (auto simp: q' i')
  qed
  moreover have "fst fr (s_id s) = 0" if "s \<in> set steps" "s_id s \<in> D \<union> S" for s
    using zero [OF that] ind [of "s_id s"] by (simp add: i')
  moreover have "fst fr i = int (length (filter (\<lambda>d. d \<notin> D \<union> S) (deps_of steps i)))" for i
    using ind [of i] by (simp add: i')
  ultimately show ?thesis
    using d' unfolding kahn_inv_def fr_def [symmetric] S_def [symmetric] by blast
qed

text \<open>What the levels computed from a state of the loop achieve, given the steps taken before.\<close>

definition levels_good :: "pipeline_step list \<Rightarrow> string set \<Rightarrow> pipeline_step list list \<Rightarrow> bool" where
  "levels_good steps D levels \<longleftrightarrow>
     levels_ok D levels \<and> distinct (concat levels) \<and>
     set (concat levels) \<subseteq> {s \<in> set steps. s_id s \<notin> D} \<and>
     (\<forall>s \<in> set steps. s_id s \<notin> D \<union> s_id ` set (concat levels) \<longrightarrow>
        (\<exists>d \<in> set (s_dependsOn s). d \<notin> D \<union> s_id ` set (concat levels)))"

lemma levels_good_Nil:
  assumes dist: "distinct (map s_id steps)" and inv: "kahn_inv steps D ind []"
  shows "levels_good steps D []"
proof -
  have "\<exists>d \<in> set (s_dependsOn s). d \<notin> D" if "s \<in> set steps" "s_id s \<notin> D" for s
  proof -
    have "ind (s_id s) \<noteq> 0" using inv that by (auto simp: kahn_inv_def)
    moreover have "ind (s_id s) = int (length (filter (\<lambda>d. d \<notin> D) (s_dependsOn s)))"
      using inv that deps_of_step [OF dist] by (simp add: kahn_inv_def)
    ultimately show ?thesis by (auto simp: filter_empty_conv)
  qed
  then show ?thesis by (simp add: levels_good_def)
qed

lemma levels_good_Cons:
  assumes dist: "distinct (map s_id steps)" and inv: "kahn_inv steps D ind queue"
    and good: "levels_good steps (D \<union> s_id ` set queue) levels"
  shows "levels_good steps D (queue # levels)"
proof -
  have q: "distinct queue" "set queue = {s \<in> set steps. s_id s \<notin> D \<and> ind (s_id s) = 0}"
    using inv by (simp_all add: kahn_inv_def)
  have "set (s_dependsOn s) \<subseteq> D" if "s \<in> set queue" for s
  proof -
    have "ind (s_id s) = 0" "s \<in> set steps" using that q by auto
    then have "filter (\<lambda>d. d \<notin> D) (s_dependsOn s) = []"
      using inv deps_of_step [OF dist] by (auto simp: kahn_inv_def)
    then show ?thesis by (auto simp: filter_empty_conv)
  qed
  moreover have "set queue \<inter> set (concat levels) = {}"
    using good by (auto simp: levels_good_def)
  moreover have "D \<union> s_id ` set (concat (queue # levels)) = D \<union> s_id ` set queue \<union> s_id ` set (concat levels)"
    by auto
  ultimately show ?thesis
    using good q unfolding levels_good_def by (auto simp: list_all_iff)
qed

lemma kahn_correct:
  "distinct (map s_id steps) \<Longrightarrow>
   \<forall>d i. count_list (dependents d) i = count_list (deps_of steps i) d \<Longrightarrow>
   kahn_inv steps D ind queue \<Longrightarrow> levels_good steps D (kahn steps dependents ind queue)"
proof (induction steps dependents ind queue arbitrary: D rule: kahn.induct)
  case (1 steps dependents ind queue)
  show ?case
  proof (cases "queue = []")
    case True
    then show ?thesis using levels_good_Nil 1 by (simp add: kahn.simps)
  next
    case False
    have "levels_good steps (D \<union> s_id ` set queue)
        (kahn steps dependents (fst (release_level steps dependents queue ind))
           (snd (release_level steps dependents queue ind)))"
      using 1(1) [OF False 1(2,3) kahn_step [OF 1(2,3,4)]] .
    from levels_good_Cons [OF 1(2,4) this] show ?thesis
      using False by (simp add: kahn.simps [of steps dependents ind queue])
  qed
qed

section \<open>Properties\<close>

text \<open>The dependency relation of the steps: from a step's id to its dependencies.\<close>

definition depends :: "pipeline_step list \<Rightarrow> (string \<times> string) set" where
  "depends steps = {(s_id s, d) | s d. s \<in> set steps \<and> d \<in> set (s_dependsOn s)}"

lemma finite_depends: "finite (depends steps)"
proof -
  have "depends steps \<subseteq> s_id ` set steps \<times> \<Union> (set ` s_dependsOn ` set steps)"
    by (auto simp: depends_def)
  then show ?thesis by (rule finite_subset) auto
qed

definition valid_steps :: "pipeline_step list \<Rightarrow> bool" where
  "valid_steps steps = (distinct (map s_id steps) \<and> list_all (deps_known (map s_id steps)) steps)"

lemma resolve_valid:
  assumes "valid_steps steps"
  shows "\<exists>ind dep. (\<forall>d i. count_list (dep d) i = count_list (deps_of steps i) d) \<and>
           kahn_inv steps {} ind (filter (\<lambda>s. ind (s_id s) = 0) steps) \<and>
           resolvePipelineSteps steps =
             (let levels = kahn steps dep ind (filter (\<lambda>s. ind (s_id s) = 0) steps) in
              if length (concat levels) \<noteq> length steps
              then Inl (Cycle_near (map s_id (filter (\<lambda>s. s_id s \<notin> s_id ` set (concat levels)) steps)))
              else Inr \<lparr>r_order = concat levels, r_levels = levels, r_dependents = dep\<rparr>)"
proof -
  have d: "distinct (map s_id steps)" and k: "list_all (deps_known (map s_id steps)) steps"
    using assms by (auto simp: valid_steps_def)
  obtain ind dep where l: "link_steps (map s_id steps) steps (\<lambda>_. 0, \<lambda>_. []) = Inr (ind, dep)"
    using k link_steps_ok by (metis prod.exhaust)
  have "\<forall>i. ind i = int (length (deps_of steps i))"
    and "\<forall>d i. count_list (dep d) i = count_list (deps_of steps i) d"
    using link_steps_Inr [OF l] by simp_all
  moreover from this have "kahn_inv steps {} ind (filter (\<lambda>s. ind (s_id s) = 0) steps)"
    using d by (auto simp: kahn_inv_def distinct_map)
  moreover have "first_duplicate [] steps = None" using d by (simp add: first_duplicate_None)
  ultimately show ?thesis
    by (intro exI [of _ ind] exI [of _ dep]) (simp add: resolvePipelineSteps_def l Let_def)
qed

lemma resolve_Inr_valid: "resolvePipelineSteps steps = Inr r \<Longrightarrow> valid_steps steps"
  using first_duplicate_None [of "[]" steps] link_steps_ok [of "map s_id steps" steps "(\<lambda>_. 0, \<lambda>_. [])"]
  by (auto simp: resolvePipelineSteps_def valid_steps_def split: option.splits sum.splits)

lemma resolve_Inr:
  assumes "resolvePipelineSteps steps = Inr r"
  shows "levels_ok {} (r_levels r) \<and> r_order r = concat (r_levels r) \<and> distinct (r_order r) \<and>
         set (r_order r) = set steps"
proof -
  note v = resolve_Inr_valid [OF assms]
  then have d: "distinct (map s_id steps)" by (simp add: valid_steps_def)
  obtain ind dep where dep: "\<forall>d i. count_list (dep d) i = count_list (deps_of steps i) d"
    and inv: "kahn_inv steps {} ind (filter (\<lambda>s. ind (s_id s) = 0) steps)"
    and r: "r = \<lparr>r_order = concat (kahn steps dep ind (filter (\<lambda>s. ind (s_id s) = 0) steps)),
                 r_levels = kahn steps dep ind (filter (\<lambda>s. ind (s_id s) = 0) steps), r_dependents = dep\<rparr>"
    and len: "length (concat (kahn steps dep ind (filter (\<lambda>s. ind (s_id s) = 0) steps))) = length steps"
    using resolve_valid [OF v] assms by (auto simp: Let_def split: if_splits)
  have g: "levels_good steps {} (kahn steps dep ind (filter (\<lambda>s. ind (s_id s) = 0) steps))"
    by (rule kahn_correct [OF d dep inv])
  have "set (concat (kahn steps dep ind (filter (\<lambda>s. ind (s_id s) = 0) steps))) = set steps"
  proof (rule card_subset_eq)
    show "set (concat (kahn steps dep ind (filter (\<lambda>s. ind (s_id s) = 0) steps))) \<subseteq> set steps"
      using g by (auto simp: levels_good_def)
    show "card (set (concat (kahn steps dep ind (filter (\<lambda>s. ind (s_id s) = 0) steps)))) = card (set steps)"
      using g len d by (simp add: levels_good_def distinct_card distinct_map del: set_concat)
  qed simp
  then show ?thesis using g by (simp add: r levels_good_def)
qed

text \<open>The level of a step is a rank that its dependencies are below.\<close>

fun level_of :: "pipeline_step list list \<Rightarrow> string \<Rightarrow> nat" where
  "level_of [] i = 0"
| "level_of (level # levels) i = (if i \<in> s_id ` set level then 0 else 1 + level_of levels i)"

lemma level_of_less:
  "levels_ok D levels \<Longrightarrow> distinct (map s_id (concat levels)) \<Longrightarrow> s \<in> set (concat levels) \<Longrightarrow>
   d \<in> set (s_dependsOn s) \<Longrightarrow> d \<in> D \<or> level_of levels d < level_of levels (s_id s)"
proof (induction D levels rule: levels_ok.induct)
  case (1 D)
  then show ?case by simp
next
  case (2 D level levels)
  show ?case
  proof (cases "s \<in> set level")
    case True
    then show ?thesis using 2 by (auto simp: list_all_iff)
  next
    case False
    then have s: "s \<in> set (concat levels)" using 2(4) by simp
    have disj: "set (map s_id level) \<inter> set (map s_id (concat levels)) = {}"
      and dist: "distinct (map s_id (concat levels))"
      using 2(3) by (simp_all add: map_concat)
    have "s_id s \<in> set (map s_id (concat levels))" using s by (simp only: set_map) (rule imageI)
    then have ns: "s_id s \<notin> s_id ` set level" using disj by auto
    have "levels_ok (D \<union> s_id ` set level) levels" using 2(2) by simp
    from 2(1) [OF this dist s 2(5)]
    have "d \<in> D \<union> s_id ` set level \<or> level_of levels d < level_of levels (s_id s)" .
    then show ?thesis using ns by auto
  qed
qed

lemma resolve_Inr_acyclic:
  assumes "resolvePipelineSteps steps = Inr r"
  shows "acyclic (depends steps)"
proof (rule acyclicI_order)
  fix i d
  assume "(i, d) \<in> depends steps"
  then obtain s where s: "s \<in> set steps" "i = s_id s" "d \<in> set (s_dependsOn s)"
    by (auto simp: depends_def)
  note r = resolve_Inr [OF assms]
  have "distinct (map s_id steps)" using resolve_Inr_valid [OF assms] by (simp add: valid_steps_def)
  then have "distinct (map s_id (concat (r_levels r)))"
    using r by (metis distinct_map)
  moreover have "s \<in> set (concat (r_levels r))" using r s by metis
  ultimately show "level_of (r_levels r) d < level_of (r_levels r) i"
    using level_of_less [of "{}" "r_levels r" s d] r s by simp
qed

lemma acyclic_resolve_Inr:
  assumes v: "valid_steps steps" and a: "acyclic (depends steps)"
  shows "\<exists>r. resolvePipelineSteps steps = Inr r"
proof -
  have d: "distinct (map s_id steps)" using v by (simp add: valid_steps_def)
  obtain ind dep where dep: "\<forall>d i. count_list (dep d) i = count_list (deps_of steps i) d"
    and inv: "kahn_inv steps {} ind (filter (\<lambda>s. ind (s_id s) = 0) steps)"
    and res: "resolvePipelineSteps steps =
        (let levels = kahn steps dep ind (filter (\<lambda>s. ind (s_id s) = 0) steps) in
         if length (concat levels) \<noteq> length steps
         then Inl (Cycle_near (map s_id (filter (\<lambda>s. s_id s \<notin> s_id ` set (concat levels)) steps)))
         else Inr \<lparr>r_order = concat levels, r_levels = levels, r_dependents = dep\<rparr>)"
    using resolve_valid [OF v] by blast
  define order where "order = concat (kahn steps dep ind (filter (\<lambda>s. ind (s_id s) = 0) steps))"
  have g: "distinct order" "set order \<subseteq> set steps"
    and stuck: "\<And>s. s \<in> set steps \<Longrightarrow> s_id s \<notin> s_id ` set order \<Longrightarrow>
                  \<exists>d \<in> set (s_dependsOn s). d \<notin> s_id ` set order"
    using kahn_correct [OF d dep inv] by (auto simp: levels_good_def order_def simp del: set_concat)
  define U where "U = {s_id s | s. s \<in> set steps \<and> s_id s \<notin> s_id ` set order}"
  have "U = {}"
  proof (rule ccontr)
    assume "U \<noteq> {}"
    then obtain z where z: "z \<in> U" and least: "\<And>y. (y, z) \<in> (depends steps)\<inverse> \<Longrightarrow> y \<notin> U"
      using wfE_min [OF finite_acyclic_wf_converse [OF finite_depends a]] by blast
    then obtain s where s: "s \<in> set steps" "z = s_id s" "s_id s \<notin> s_id ` set order"
      by (auto simp: U_def)
    then obtain dd where dd: "dd \<in> set (s_dependsOn s)" "dd \<notin> s_id ` set order" using stuck by blast
    then have "dd \<in> s_id ` set steps"
      using v s by (auto simp: valid_steps_def deps_known_def list_all_iff)
    then have "dd \<in> U" using dd by (auto simp: U_def)
    moreover have "(dd, z) \<in> (depends steps)\<inverse>" using s dd by (auto simp: depends_def)
    ultimately show False using least by blast
  qed
  then have "set order = set steps"
    using g(2) d by (auto simp: U_def distinct_map inj_on_def)
  then have "length order = length steps"
    using g(1) d by (metis distinct_card distinct_map)
  then show ?thesis using res by (simp add: order_def Let_def)
qed

text \<open>
  C9. A resolution is a topological order: it lists the pipeline's steps, each exactly once, level
  after level, and every step's dependencies lie in earlier levels than the step.
\<close>

theorem resolve_topological:
  assumes "resolvePipelineSteps steps = Inr r"
  shows "distinct (r_order r) \<and> set (r_order r) = set steps \<and> r_order r = concat (r_levels r) \<and>
         levels_ok {} (r_levels r)"
  using resolve_Inr [OF assms] by metis

text \<open>
  C8. Resolution succeeds exactly for the acyclic pipelines: those whose step ids are distinct, whose
  dependencies all name other steps of the pipeline, and whose dependency relation has no cycle.
\<close>

theorem resolve_iff_acyclic:
  "(\<exists>r. resolvePipelineSteps steps = Inr r) \<longleftrightarrow> valid_steps steps \<and> acyclic (depends steps)"
  using resolve_Inr_valid resolve_Inr_acyclic acyclic_resolve_Inr by blast

section \<open>Witnesses\<close>

definition a_step :: "string \<Rightarrow> string list \<Rightarrow> pipeline_step" where
  "a_step i ds = \<lparr>s_id = i, s_agent = ''primary'', s_action = ''go'', s_output = i, s_dependsOn = ds,
                  s_errorStrategy = None, s_retryCount = None, s_timeoutSeconds = None\<rparr>"

definition example_steps :: "pipeline_step list" where
  "example_steps = [a_step ''c'' [''a'', ''b''], a_step ''a'' [], a_step ''b'' [''a'']]"

theorem resolve_topological_witness:
  "\<exists>r. resolvePipelineSteps example_steps = Inr r \<and> map (map s_id) (r_levels r) = [[''a''], [''b''], [''c'']] \<and>
       levels_ok {} (r_levels r)"
proof -
  have "map_sum id (\<lambda>r. map (map s_id) (r_levels r)) (resolvePipelineSteps example_steps) =
        Inr [[''a''], [''b''], [''c'']]"
    by code_simp
  then obtain r where r: "resolvePipelineSteps example_steps = Inr r"
    and l: "map (map s_id) (r_levels r) = [[''a''], [''b''], [''c'']]"
    by (cases "resolvePipelineSteps example_steps") simp_all
  show ?thesis using resolve_topological [OF r] r l by metis
qed

end
