(* ===== verification/JsString.thy ===== *)
theory JsString
  imports Main "HOL-Library.Sublist"
begin

text \<open>
  The operations on strings and arrays of strings that the stores use to clean their input:
  \<open>trim\<close>, removal of repetitions, and decimal notation of array indices. Characters are code
  points below 256.
\<close>

section \<open>trim\<close>

definition code :: "char \<Rightarrow> nat" where
  "code c = of_char c"

definition is_space :: "char \<Rightarrow> bool" where
  "is_space c = (code c \<in> {9, 10, 11, 12, 13, 32, 160})"

definition trim :: "string \<Rightarrow> string" where
  "trim s = rev (dropWhile is_space (rev (dropWhile is_space s)))"

lemma dropWhile_twice: "dropWhile p (dropWhile p xs) = dropWhile p xs"
  by (induction xs) auto

lemma trim_idem: "trim (trim s) = trim s"
proof -
  define t where "t = dropWhile is_space s"
  have "dropWhile is_space (rev (dropWhile is_space (rev t))) = rev (dropWhile is_space (rev t))"
  proof (cases "rev (dropWhile is_space (rev t))")
    case Nil
    show ?thesis by (simp only: Nil dropWhile.simps)
  next
    case (Cons c cs)
    have "suffix (dropWhile is_space (rev t)) (rev t)" by (rule suffix_dropWhile)
    then have "prefix (rev (dropWhile is_space (rev t))) t"
      by (simp add: suffix_to_prefix)
    then have "t \<noteq> []" "hd t = c" using Cons by (auto simp: prefix_def)
    moreover have "t \<noteq> [] \<Longrightarrow> \<not> is_space (hd t)" unfolding t_def by (rule hd_dropWhile)
    ultimately show ?thesis using Cons by simp
  qed
  then show ?thesis by (simp add: trim_def t_def [symmetric] dropWhile_twice)
qed

section \<open>toLowerCase\<close>

definition lower_char :: "char \<Rightarrow> char" where
  "lower_char c =
     (let n = code c in
      if 65 \<le> n \<and> n \<le> 90 \<or> 192 \<le> n \<and> n \<le> 222 \<and> n \<noteq> 215 then char_of (n + 32) else c)"

definition to_lower :: "string \<Rightarrow> string" where
  "to_lower s = map lower_char s"

section \<open>Sets of strings\<close>

text \<open>\<open>[...new Set(xs)]\<close>: the first of equal elements stays.\<close>

definition unique :: "'a list \<Rightarrow> 'a list" where
  "unique xs = rev (remdups (rev xs))"

lemma set_unique [simp]: "set (unique xs) = set xs"
  by (simp add: unique_def)

lemma distinct_unique: "distinct (unique xs)"
  by (simp add: unique_def)

lemma unique_distinct: "distinct xs \<Longrightarrow> unique xs = xs"
  by (simp add: unique_def distinct_remdups_id)

text \<open>
  \<open>[...new Set(input.map((item) => item.trim()).filter(Boolean))]\<close>
\<close>

definition clean_strings :: "string list \<Rightarrow> string list" where
  "clean_strings xs = unique (filter (\<lambda>s. s \<noteq> []) (map trim xs))"

lemma clean_strings_clean:
  "list_all (\<lambda>d. trim d = d \<and> d \<noteq> []) (clean_strings xs)" "distinct (clean_strings xs)"
  by (auto simp: clean_strings_def list_all_iff distinct_unique trim_idem)

lemma clean_strings_id:
  assumes "list_all (\<lambda>d. trim d = d \<and> d \<noteq> []) xs"
  shows "map trim xs = xs" "filter (\<lambda>s. s \<noteq> []) xs = xs"
  using assms by (induction xs) simp_all

section \<open>split\<close>

text \<open>\<open>s.split(d)\<close> for one character.\<close>

fun split_on :: "char \<Rightarrow> string \<Rightarrow> string list" where
  "split_on d [] = [[]]"
| "split_on d (c # cs) =
     (if c = d then [] # split_on d cs
      else (case split_on d cs of [] \<Rightarrow> [[c]] | p # ps \<Rightarrow> (c # p) # ps))"

lemma split_on_not_Nil [simp]: "split_on d s \<noteq> []"
  by (induction s) (auto split: list.split)

lemma split_on_without: "p \<in> set (split_on d s) \<Longrightarrow> d \<notin> set p"
  by (induction s arbitrary: p) (auto split: if_splits list.splits)

lemma split_on_single: "d \<notin> set s \<Longrightarrow> split_on d s = [s]"
  by (induction s) auto

lemma split_on_first: "d \<notin> set s \<Longrightarrow> split_on d (s @ d # r) = s # split_on d r"
  by (induction s) auto

section \<open>Missing strings\<close>

text \<open>A string that may be missing or empty counts as missing: \<open>x?.trim() || null\<close> and \<open>if (x)\<close>.\<close>

definition non_empty :: "string option \<Rightarrow> string option" where
  "non_empty x = (case x of Some s \<Rightarrow> if s = [] then None else Some s | None \<Rightarrow> None)"

section \<open>Decimal notation\<close>

text \<open>\<open>String(n)\<close> on an array index.\<close>

fun decimal :: "nat \<Rightarrow> string" where
  "decimal n = (if n < 10 then [char_of (48 + n)] else decimal (n div 10) @ [char_of (48 + n mod 10)])"

declare decimal.simps [simp del]

lemma digit_inj: "a < 10 \<Longrightarrow> b < 10 \<Longrightarrow> (char_of (48 + a) :: char) = char_of (48 + b) \<longleftrightarrow> a = (b :: nat)"
  by (simp add: char_of_eq_iff take_bit_nat_eq_self)

lemma decimal_not_Nil [simp]: "decimal n \<noteq> []" "[] \<noteq> decimal n"
  by (subst decimal.simps, simp)+

lemma decimal_inj: "decimal m = decimal n \<Longrightarrow> m = n"
proof (induction m arbitrary: n rule: decimal.induct)
  case (1 m)
  show ?case
  proof (cases "m < 10 \<or> n < 10")
    case True
    then show ?thesis
      using 1(2)
      by (subst (asm) (1 2) decimal.simps) (auto simp: digit_inj split: if_splits)
  next
    case False
    then have "decimal (m div 10) @ [char_of (48 + m mod 10)] = decimal (n div 10) @ [char_of (48 + n mod 10)]"
      using 1(2) by (subst (asm) (1 2) decimal.simps) simp
    then have "decimal (m div 10) = decimal (n div 10)"
      and "(char_of (48 + m mod 10) :: char) = char_of (48 + n mod 10)" by simp_all
    then have "m div 10 = n div 10" and "m mod 10 = n mod 10"
      using 1(1) False by (simp_all add: digit_inj)
    then show ?thesis by (metis div_mult_mod_eq)
  qed
qed

end
