(* ===== verification/PipelineStore.thy ===== *)
theory PipelineStore
  imports PipelineResolver Json JsString
begin

text \<open>
  Pipelines and their runs: src/services/pipeline/definition.ts, the checks on a pipeline's steps
  (\<open>normalizePipelineSteps\<close>) and \<open>PipelineStore\<close> over the tables \<open>pipelines\<close>, \<open>pipeline_runs\<close> and
  \<open>pipeline_run_steps\<close>.

  The input of the checks is JSON, with None for undefined. Two conversions of the language are
  parameters, since how a number is written is not modelled: \<open>toStr\<close> is \<open>String\<close> on JSON values that
  are no strings and \<open>toNumber\<close> is \<open>Number\<close> on strings. Characters are code points below 256. A
  context column holds the object that its text parses to; \<open>JSON.stringify\<close> on the way in is
  \<open>jsonify\<close>. An output value of NULL and one of \<open>null\<close> read alike and are \<open>JNull\<close>.
\<close>

type_synonym pipeline_context = "(string \<times> json) list"

definition MAX_STEPS :: nat where "MAX_STEPS = 20"
definition MAX_STEP_ACTION_LENGTH :: nat where "MAX_STEP_ACTION_LENGTH = 4000"
definition MAX_STEP_ID_LENGTH :: nat where "MAX_STEP_ID_LENGTH = 80"
definition MAX_OUTPUT_LENGTH :: nat where "MAX_OUTPUT_LENGTH = 80"

section \<open>Checking steps\<close>

datatype pipeline_error =
    PE_message msg
  | PE_resolve resolve_error
  | PE_syntax
  | PE_unique string
  | PE_foreign_key string

record conversions =
  toStr :: "json \<Rightarrow> string"
  toNumber :: "string \<Rightarrow> js_num"

text \<open>The two patterns.\<close>

definition is_letter :: "char \<Rightarrow> bool" where
  "is_letter c = (65 \<le> code c \<and> code c \<le> 90 \<or> 97 \<le> code c \<and> code c \<le> 122)"

definition is_digit :: "char \<Rightarrow> bool" where
  "is_digit c = (48 \<le> code c \<and> code c \<le> 57)"

fun step_id_pattern :: "string \<Rightarrow> bool" where
  "step_id_pattern [] = False"
| "step_id_pattern (c # cs) =
     (is_letter c \<and> list_all (\<lambda>c. is_letter c \<or> is_digit c \<or> c = CHR ''_'' \<or> c = CHR ''-'') cs)"

fun output_pattern :: "string \<Rightarrow> bool" where
  "output_pattern [] = False"
| "output_pattern (c # cs) =
     ((is_letter c \<or> c = CHR ''_'') \<and>
      list_all (\<lambda>c. is_letter c \<or> is_digit c \<or> c = CHR ''_'' \<or> c = CHR ''.'' \<or> c = CHR ''-'') cs)"

text \<open>\<open>a ?? b\<close> on JSON values that may be undefined.\<close>

fun either :: "json option \<Rightarrow> json option \<Rightarrow> json option" where
  "either None b = b"
| "either (Some JNull) b = b"
| "either a b = a"

definition stringValue :: "json option \<Rightarrow> msg \<Rightarrow> nat \<Rightarrow> pipeline_error + string" where
  "stringValue v field maxLength =
     (case v of
        Some (JStr s) \<Rightarrow>
          let trimmed = trim s in
          if trimmed = [] then Inl (PE_message (field @ [S '' is required'']))
          else if length trimmed > maxLength
          then Inl (PE_message (field @ [S '' cannot exceed '', N (js_int (int maxLength)), S '' characters'']))
          else Inr trimmed
      | _ \<Rightarrow> Inl (PE_message (field @ [S '' must be a string''])))"

definition item_string :: "conversions \<Rightarrow> json \<Rightarrow> string" where
  "item_string conv j = (case j of JStr s \<Rightarrow> s | _ \<Rightarrow> toStr conv j)"

definition stringArrayValue :: "conversions \<Rightarrow> json option \<Rightarrow> msg \<Rightarrow> pipeline_error + string list" where
  "stringArrayValue conv v field =
     (case v of
        None \<Rightarrow> Inr []
      | Some JNull \<Rightarrow> Inr []
      | Some (JArr items) \<Rightarrow>
          Inr (unique (filter (\<lambda>s. s \<noteq> []) (map (\<lambda>j. trim (item_string conv j)) items)))
      | _ \<Rightarrow> Inl (PE_message (field @ [S '' must be an array''])))"

text \<open>\<open>Number\<close> on JSON; arrays and objects go through their string.\<close>

definition number_of :: "conversions \<Rightarrow> json \<Rightarrow> js_num" where
  "number_of conv v =
     (case v of
        JNull \<Rightarrow> Num 0
      | JBool b \<Rightarrow> Num (if b then 1 else 0)
      | JNum n \<Rightarrow> n
      | JStr s \<Rightarrow> toNumber conv s
      | _ \<Rightarrow> toNumber conv (toStr conv v))"

definition bounded_int ::
  "conversions \<Rightarrow> nat \<Rightarrow> json option \<Rightarrow> msg \<Rightarrow> nat \<Rightarrow> pipeline_error + nat option" where
  "bounded_int conv lower v field upper =
     (if v = None \<or> v = Some JNull \<or> v = Some (JStr []) then Inr None
      else
        (case number_of conv (the v) of
           Num q \<Rightarrow>
             if of_int \<lfloor>q\<rfloor> \<noteq> q \<or> q < of_nat lower \<or> of_nat upper < q
             then Inl (PE_message (field @ [S '' must be an integer between '', N (js_int (int lower)),
                                            S '' and '', N (js_int (int upper))]))
             else Inr (Some (nat \<lfloor>q\<rfloor>))
         | _ \<Rightarrow> Inl (PE_message (field @ [S '' must be an integer between '', N (js_int (int lower)),
                                         S '' and '', N (js_int (int upper))]))))"

definition optionalNonNegativeInt ::
  "conversions \<Rightarrow> json option \<Rightarrow> msg \<Rightarrow> nat \<Rightarrow> pipeline_error + nat option" where
  "optionalNonNegativeInt conv = bounded_int conv 0"

definition optionalPositiveInt ::
  "conversions \<Rightarrow> json option \<Rightarrow> msg \<Rightarrow> nat \<Rightarrow> pipeline_error + nat option" where
  "optionalPositiveInt conv = bounded_int conv 1"

definition strategy_name :: "error_strategy \<Rightarrow> string" where
  "strategy_name s = (case s of Fail_fast \<Rightarrow> ''fail_fast'' | Continue \<Rightarrow> ''continue'' | Retry \<Rightarrow> ''retry'')"

definition isErrorStrategy :: "json \<Rightarrow> error_strategy option" where
  "isErrorStrategy j =
     (if j = JStr ''fail_fast'' then Some Fail_fast
      else if j = JStr ''continue'' then Some Continue
      else if j = JStr ''retry'' then Some Retry
      else None)"

definition strategyValue :: "json option \<Rightarrow> msg \<Rightarrow> pipeline_error + error_strategy option" where
  "strategyValue v field =
     (case v of
        None \<Rightarrow> Inr None
      | Some j \<Rightarrow>
          (case isErrorStrategy j of
             Some s \<Rightarrow> Inr (Some s)
           | None \<Rightarrow> Inl (PE_message (field @ [S '' must be one of: fail_fast, continue, retry'']))))"

definition bind_sum :: "'e + 'a \<Rightarrow> ('a \<Rightarrow> 'e + 'b) \<Rightarrow> 'e + 'b" where
  "bind_sum m f = (case m of Inl e \<Rightarrow> Inl e | Inr x \<Rightarrow> f x)"

definition require :: "bool \<Rightarrow> msg \<Rightarrow> pipeline_error + unit" where
  "require b m = (if b then Inr () else Inl (PE_message m))"

definition normalizePipelineStep :: "conversions \<Rightarrow> json \<Rightarrow> nat \<Rightarrow> pipeline_error + pipeline_step" where
  "normalizePipelineStep conv input index =
     (let get = json_member input;
          field = (\<lambda>name. [S ''steps['', N (js_int (int index)), S (''].'' @ name)])
      in bind_sum (stringValue (get ''id'') (field ''id'') MAX_STEP_ID_LENGTH) (\<lambda>sid.
         bind_sum (require (step_id_pattern sid)
           (field ''id'' @ [S '' must start with a letter and contain only letters, numbers, _ or -''])) (\<lambda>_.
         bind_sum (stringValue (either (get ''output'') (Some (JStr sid))) (field ''output'') MAX_OUTPUT_LENGTH)
           (\<lambda>out.
         bind_sum (require (output_pattern out) (field ''output'' @ [S '' must be a valid variable name''])) (\<lambda>_.
         bind_sum (strategyValue (either (get ''errorStrategy'') (get ''error_strategy'')) (field ''errorStrategy''))
           (\<lambda>strategy.
         bind_sum (optionalNonNegativeInt conv (either (get ''retryCount'') (get ''retry_count''))
                     (field ''retryCount'') 10) (\<lambda>retryCount.
         bind_sum (optionalPositiveInt conv (either (get ''timeoutSeconds'') (get ''timeout_seconds''))
                     (field ''timeoutSeconds'') 86400) (\<lambda>timeoutSeconds.
         bind_sum (stringValue (either (get ''agent'') (Some (JStr ''primary''))) (field ''agent'') 120) (\<lambda>agent.
         bind_sum (stringValue (get ''action'') (field ''action'') MAX_STEP_ACTION_LENGTH) (\<lambda>action.
         bind_sum (stringArrayValue conv (either (get ''dependsOn'') (get ''depends_on'')) (field ''dependsOn''))
           (\<lambda>dependsOn.
         Inr \<lparr>s_id = sid, s_agent = agent, s_action = action, s_output = out, s_dependsOn = dependsOn,
              s_errorStrategy = strategy, s_retryCount = retryCount, s_timeoutSeconds = timeoutSeconds\<rparr>)))))))))))"

text \<open>\<open>(step ?? {})\<close>: a null step has no members.\<close>

fun normalize_from :: "conversions \<Rightarrow> nat \<Rightarrow> json list \<Rightarrow> pipeline_error + pipeline_step list" where
  "normalize_from conv index [] = Inr []"
| "normalize_from conv index (j # js) =
     bind_sum (normalizePipelineStep conv j index) (\<lambda>s.
     bind_sum (normalize_from conv (index + 1) js) (\<lambda>ss. Inr (s # ss)))"

definition normalizePipelineSteps :: "conversions \<Rightarrow> json \<Rightarrow> pipeline_error + pipeline_step list" where
  "normalizePipelineSteps conv input =
     (case input of
        JArr js \<Rightarrow>
          if js = [] then Inl (PE_message [S ''steps must include at least one step''])
          else if length js > MAX_STEPS
          then Inl (PE_message [S ''pipelines support at most '', N (js_int (int MAX_STEPS)), S '' steps''])
          else bind_sum (normalize_from conv 0 js) (\<lambda>steps.
               (case resolvePipelineSteps steps of
                  Inl e \<Rightarrow> Inl (PE_resolve e)
                | Inr _ \<Rightarrow> Inr steps))
      | _ \<Rightarrow> Inl (PE_message [S ''steps must be an array'']))"

text \<open>What \<open>JSON.stringify\<close> makes of steps: absent fields are left out.\<close>

definition opt_field :: "string \<Rightarrow> json option \<Rightarrow> (string \<times> json) list" where
  "opt_field name v = (case v of None \<Rightarrow> [] | Some j \<Rightarrow> [(name, j)])"

definition step_json :: "pipeline_step \<Rightarrow> json" where
  "step_json s = JObj
     ([(''id'', JStr (s_id s)), (''agent'', JStr (s_agent s)), (''action'', JStr (s_action s)),
       (''output'', JStr (s_output s)), (''dependsOn'', JArr (map JStr (s_dependsOn s)))] @
      opt_field ''errorStrategy'' (map_option (\<lambda>e. JStr (strategy_name e)) (s_errorStrategy s)) @
      opt_field ''retryCount'' (map_option (\<lambda>n. JNum (js_int (int n))) (s_retryCount s)) @
      opt_field ''timeoutSeconds'' (map_option (\<lambda>n. JNum (js_int (int n))) (s_timeoutSeconds s)))"

definition steps_json :: "pipeline_step list \<Rightarrow> json" where
  "steps_json steps = JArr (map step_json steps)"

section \<open>What normalized steps satisfy\<close>

definition step_in_bounds :: "pipeline_step \<Rightarrow> bool" where
  "step_in_bounds s =
     (step_id_pattern (s_id s) \<and> length (s_id s) \<le> MAX_STEP_ID_LENGTH \<and>
      output_pattern (s_output s) \<and> length (s_output s) \<le> MAX_OUTPUT_LENGTH \<and>
      s_agent s \<noteq> [] \<and> length (s_agent s) \<le> 120 \<and>
      s_action s \<noteq> [] \<and> length (s_action s) \<le> MAX_STEP_ACTION_LENGTH \<and>
      (case s_retryCount s of None \<Rightarrow> True | Some n \<Rightarrow> n \<le> 10) \<and>
      (case s_timeoutSeconds s of None \<Rightarrow> True | Some n \<Rightarrow> 1 \<le> n \<and> n \<le> 86400))"

text \<open>Strings without surrounding space, and a list of such without repetitions.\<close>

definition step_trimmed :: "pipeline_step \<Rightarrow> bool" where
  "step_trimmed s =
     (trim (s_id s) = s_id s \<and> trim (s_agent s) = s_agent s \<and> trim (s_action s) = s_action s \<and>
      trim (s_output s) = s_output s \<and> list_all (\<lambda>d. trim d = d \<and> d \<noteq> []) (s_dependsOn s) \<and>
      distinct (s_dependsOn s))"

lemma bind_sum_Inr: "bind_sum m f = Inr y \<longleftrightarrow> (\<exists>x. m = Inr x \<and> f x = Inr y)"
  by (cases m) (simp_all add: bind_sum_def)

lemma bind_sum_simps [simp]: "bind_sum (Inr x) f = f x" "bind_sum (Inl e) f = Inl e"
  by (simp_all add: bind_sum_def)

lemma require_Inr [simp]: "require b m = Inr u \<longleftrightarrow> b"
  by (simp add: require_def)

lemma stringValue_Inr:
  "stringValue v field n = Inr t \<longleftrightarrow>
   (\<exists>s. v = Some (JStr s) \<and> t = trim s \<and> t \<noteq> [] \<and> length t \<le> n)"
  by (auto simp: stringValue_def Let_def split: option.splits json.splits)

lemma bounded_int_Inr:
  "bounded_int conv lower v field upper = Inr (Some n) \<Longrightarrow> lower \<le> n \<and> n \<le> upper"
proof -
  assume "bounded_int conv lower v field upper = Inr (Some n)"
  then obtain q where q: "of_int \<lfloor>q\<rfloor> = q" "of_nat lower \<le> q" "q \<le> (of_nat upper :: rat)" "n = nat \<lfloor>q\<rfloor>"
    by (auto simp: bounded_int_def not_less split: if_splits js_num.splits)
  have "int lower \<le> \<lfloor>q\<rfloor>" using q(2) by (simp add: le_floor_iff)
  moreover have "\<lfloor>q\<rfloor> \<le> int upper" using q(3) floor_mono [OF q(3)] by simp
  ultimately show ?thesis using q(4) by linarith
qed

lemma bounded_int_again:
  "lower \<le> n \<Longrightarrow> n \<le> upper \<Longrightarrow>
   bounded_int conv lower (Some (JNum (js_int (int n)))) field upper = Inr (Some n)"
  by (simp add: bounded_int_def number_of_def)

lemma bounded_int_None [simp]: "bounded_int conv lower None field upper = Inr None"
  by (simp add: bounded_int_def)

lemma stringArrayValue_Inr:
  "stringArrayValue conv v field = Inr ds \<Longrightarrow> list_all (\<lambda>d. trim d = d \<and> d \<noteq> []) ds \<and> distinct ds"
  by (auto simp: stringArrayValue_def list_all_iff distinct_unique trim_idem
      split: option.splits json.splits)

lemma stringArrayValue_again:
  assumes "list_all (\<lambda>d. trim d = d \<and> d \<noteq> []) ds" and "distinct ds"
  shows "stringArrayValue conv (Some (JArr (map JStr ds))) field = Inr ds"
proof -
  have "map (\<lambda>j. trim (item_string conv j)) (map JStr ds) = ds"
    using assms(1) by (induction ds) (simp_all add: item_string_def)
  moreover have "filter (\<lambda>s. s \<noteq> []) ds = ds"
    using assms(1) by (induction ds) simp_all
  ultimately show ?thesis
    by (simp only: stringArrayValue_def option.case json.case unique_distinct [OF assms(2)])
qed

lemma strategyValue_again:
  "strategyValue (map_option (\<lambda>e. JStr (strategy_name e)) v) field = Inr v"
proof (cases v)
  case None
  then show ?thesis by (simp add: strategyValue_def)
next
  case (Some e)
  then show ?thesis
    by (cases e) (simp_all add: strategyValue_def isErrorStrategy_def strategy_name_def)
qed

lemma normalizePipelineStep_Inr:
  assumes "normalizePipelineStep conv j i = Inr s"
  shows "step_in_bounds s \<and> step_trimmed s"
  using assms
  by (auto simp: normalizePipelineStep_def Let_def bind_sum_Inr stringValue_Inr step_in_bounds_def
      step_trimmed_def trim_idem optionalNonNegativeInt_def optionalPositiveInt_def
      dest: bounded_int_Inr stringArrayValue_Inr split: option.splits)

lemma normalizePipelineStep_again:
  assumes "step_in_bounds s" and "step_trimmed s"
  shows "normalizePipelineStep conv (step_json s) i = Inr s"
proof -
  have ne: "s_id s \<noteq> []" "s_output s \<noteq> []"
    using assms by (auto simp: step_in_bounds_def)
  define m where "m = json_member (step_json s)"
  have get: "m ''id'' = Some (JStr (s_id s))" "m ''agent'' = Some (JStr (s_agent s))"
    "m ''action'' = Some (JStr (s_action s))" "m ''output'' = Some (JStr (s_output s))"
    "m ''dependsOn'' = Some (JArr (map JStr (s_dependsOn s)))"
    "m ''errorStrategy'' = map_option (\<lambda>e. JStr (strategy_name e)) (s_errorStrategy s)"
    "m ''error_strategy'' = None" "m ''retry_count'' = None" "m ''timeout_seconds'' = None"
    "m ''retryCount'' = map_option (\<lambda>n. JNum (js_int (int n))) (s_retryCount s)"
    "m ''timeoutSeconds'' = map_option (\<lambda>n. JNum (js_int (int n))) (s_timeoutSeconds s)"
    by (simp_all add: m_def step_json_def opt_field_def split: option.split)
  have sv: "stringValue (Some (JStr t)) f n = Inr t" if "trim t = t" "t \<noteq> []" "length t \<le> n" for t f n
    using that by (simp add: stringValue_def Let_def)
  have e: "either (map_option (\<lambda>e. JStr (strategy_name e)) v) None = map_option (\<lambda>e. JStr (strategy_name e)) v"
    "either (map_option (\<lambda>n. JNum (js_int (int n))) w) None = map_option (\<lambda>n. JNum (js_int (int n))) w" for v w
    by (cases v; simp) (cases w; simp)
  have r: "optionalNonNegativeInt conv (map_option (\<lambda>n. JNum (js_int (int n))) (s_retryCount s)) f 10 = Inr (s_retryCount s)" for f
    using assms(1) by (cases "s_retryCount s")
      (simp_all add: optionalNonNegativeInt_def step_in_bounds_def bounded_int_again del: of_int_of_nat_eq)
  have t: "optionalPositiveInt conv (map_option (\<lambda>n. JNum (js_int (int n))) (s_timeoutSeconds s)) f 86400 = Inr (s_timeoutSeconds s)" for f
    using assms(1) by (cases "s_timeoutSeconds s")
      (simp_all add: optionalPositiveInt_def step_in_bounds_def bounded_int_again del: of_int_of_nat_eq)
  have d: "stringArrayValue conv (Some (JArr (map JStr (s_dependsOn s)))) f = Inr (s_dependsOn s)" for f
    using assms(2) by (intro stringArrayValue_again) (simp_all add: step_trimmed_def)
  have "either (Some (JStr x)) y = Some (JStr x)" "either (Some (JArr z)) y = Some (JArr z)" for x y z
    by simp_all
  then show ?thesis
    using assms ne unfolding normalizePipelineStep_def Let_def m_def [symmetric] get e r t d
    by (simp add: sv d r t step_in_bounds_def step_trimmed_def require_def strategyValue_again)
qed

lemma normalize_from_Inr:
  "normalize_from conv i js = Inr steps \<Longrightarrow>
   length steps = length js \<and> list_all (\<lambda>s. step_in_bounds s \<and> step_trimmed s) steps"
  by (induction conv i js arbitrary: steps rule: normalize_from.induct)
     (auto simp: bind_sum_Inr dest: normalizePipelineStep_Inr)

lemma normalize_from_again:
  "list_all (\<lambda>s. step_in_bounds s \<and> step_trimmed s) steps \<Longrightarrow>
   normalize_from conv i (map step_json steps) = Inr steps"
  by (induction steps arbitrary: i) (simp_all add: normalizePipelineStep_again)

lemma normalizePipelineSteps_Inr:
  assumes "normalizePipelineSteps conv input = Inr steps"
  shows "steps \<noteq> [] \<and> length steps \<le> MAX_STEPS \<and>
         list_all (\<lambda>s. step_in_bounds s \<and> step_trimmed s) steps \<and>
         (\<exists>r. resolvePipelineSteps steps = Inr r)"
proof -
  obtain js where js: "js \<noteq> []" "length js \<le> MAX_STEPS" "normalize_from conv 0 js = Inr steps"
    and res: "\<nexists>e. resolvePipelineSteps steps = Inl e"
    using assms
    by (auto simp: normalizePipelineSteps_def bind_sum_Inr split: json.splits if_splits)
       (auto split: sum.splits)
  have "\<exists>r. resolvePipelineSteps steps = Inr r"
    using res by (cases "resolvePipelineSteps steps") auto
  then show ?thesis using js normalize_from_Inr [OF js(3)] by auto
qed

text \<open>
  Accepted steps are within all limits: between 1 and 20 steps, each with an id and an output
  name of the required form and length, a non-empty agent and action of bounded length, at most
  10 retries and a timeout of at least 1 second and at most a day; and they can be resolved.
\<close>

theorem normalizePipelineSteps_bounds:
  assumes "normalizePipelineSteps conv input = Inr steps"
  shows "1 \<le> length steps \<and> length steps \<le> 20 \<and> list_all step_in_bounds steps \<and>
         (\<exists>r. resolvePipelineSteps steps = Inr r)"
  using normalizePipelineSteps_Inr [OF assms]
  by (auto simp: MAX_STEPS_def list_all_iff Suc_le_eq)

lemma normalizePipelineSteps_again:
  assumes "normalizePipelineSteps conv input = Inr steps"
  shows "normalizePipelineSteps conv' (steps_json steps) = Inr steps"
proof -
  note n = normalizePipelineSteps_Inr [OF assms]
  then obtain r where "resolvePipelineSteps steps = Inr r" by blast
  then show ?thesis
    using n by (simp add: normalizePipelineSteps_def steps_json_def normalize_from_again)
qed

text \<open>
  C39. What was accepted is read back unchanged: the JSON stored for accepted steps passes the checks
  again and yields the same steps, so that a stored pipeline always reads.
\<close>

theorem normalizePipelineSteps_roundtrip:
  assumes "normalizePipelineSteps conv input = Inr steps"
  shows "normalizePipelineSteps conv (steps_json steps) = Inr steps"
  by (rule normalizePipelineSteps_again [OF assms])

section \<open>Witnesses\<close>

definition example_conv :: conversions where
  "example_conv = \<lparr>toStr = (\<lambda>_. ''?''), toNumber = (\<lambda>_. NaN)\<rparr>"

definition example_pipeline_input :: json where
  "example_pipeline_input = JArr
     [JObj [(''id'', JStr '' b ''), (''action'', JStr ''sum up {a}''),
            (''depends_on'', JArr [JStr ''a'', JStr '' a'']), (''retryCount'', JNum (Num 2))],
      JObj [(''id'', JStr ''a''), (''action'', JStr ''fetch''), (''agent'', JStr ''scout'')]]"

definition example_normalized :: "pipeline_step list" where
  "example_normalized =
     [\<lparr>s_id = ''b'', s_agent = ''primary'', s_action = ''sum up {a}'', s_output = ''b'',
       s_dependsOn = [''a''], s_errorStrategy = None, s_retryCount = Some 2, s_timeoutSeconds = None\<rparr>,
      \<lparr>s_id = ''a'', s_agent = ''scout'', s_action = ''fetch'', s_output = ''a'', s_dependsOn = [],
       s_errorStrategy = None, s_retryCount = None, s_timeoutSeconds = None\<rparr>]"

lemma example_step_normalizes:
  "normalizePipelineStep example_conv (JObj [(''id'', JStr '' b ''), (''action'', JStr ''sum up {a}''),
      (''depends_on'', JArr [JStr ''a'', JStr '' a'']), (''retryCount'', JNum (Num 2))]) 0 =
     Inr (example_normalized ! 0)"
  "normalizePipelineStep example_conv
     (JObj [(''id'', JStr ''a''), (''action'', JStr ''fetch''), (''agent'', JStr ''scout'')]) 1 =
     Inr (example_normalized ! 1)"
  by (simp_all add: normalizePipelineStep_def Let_def stringValue_def trim_def is_space_def code_def
      require_def is_letter_def is_digit_def strategyValue_def optionalNonNegativeInt_def
      optionalPositiveInt_def bounded_int_def number_of_def stringArrayValue_def unique_def item_string_def
      MAX_STEP_ID_LENGTH_def MAX_OUTPUT_LENGTH_def MAX_STEP_ACTION_LENGTH_def example_normalized_def)

lemma example_resolves: "\<exists>r. resolvePipelineSteps example_normalized = Inr r"
proof -
  have "map_sum id (\<lambda>r. map s_id (r_order r)) (resolvePipelineSteps example_normalized) = Inr [''a'', ''b'']"
    by code_simp
  then show ?thesis by (cases "resolvePipelineSteps example_normalized") simp_all
qed

lemma example_normalizes:
  "normalizePipelineSteps example_conv example_pipeline_input = Inr example_normalized"
proof -
  have "normalize_from example_conv 0 [j, k] = Inr example_normalized"
    if "normalizePipelineStep example_conv j 0 = Inr (example_normalized ! 0)"
      "normalizePipelineStep example_conv k 1 = Inr (example_normalized ! 1)" for j k
    using that by (simp add: example_normalized_def)
  from this [OF example_step_normalizes] example_resolves show ?thesis
    by (auto simp: normalizePipelineSteps_def example_pipeline_input_def MAX_STEPS_def simp del: normalize_from.simps)
qed

theorem normalizePipelineSteps_bounds_witness:
  "list_all step_in_bounds example_normalized \<and> (\<exists>r. resolvePipelineSteps example_normalized = Inr r)"
  using normalizePipelineSteps_bounds [OF example_normalizes] by blast

theorem normalizePipelineSteps_roundtrip_witness:
  "normalizePipelineSteps example_conv (steps_json example_normalized) = Inr example_normalized"
  by (rule normalizePipelineSteps_roundtrip [OF example_normalizes])

end
