(* ===== verification/PipelineRuns.thy ===== *)
theory PipelineRuns
  imports PipelineStore
begin

text \<open>
  \<open>PipelineStore\<close> of src/services/pipeline/definition.ts: pipelines, runs and the steps of runs.
  \<open>nowSeconds()\<close> is an argument, and so is a fresh \<open>randomUUID()\<close>. The CHECK constraints of the
  tables make the status columns take the listed values only. A transaction that fails leaves the
  database as it was.
\<close>

datatype run_status = Run_pending | Run_running | Run_completed | Run_failed | Run_cancelled

datatype step_status =
  Step_pending | Step_running | Step_completed | Step_failed | Step_skipped | Step_cancelled

record pipeline_row =
  p_id :: string
  p_name :: string
  p_description :: "string option"
  p_enabled :: bool
  p_steps :: "json json_text"
  p_error_strategy :: error_strategy
  p_max_retries :: nat
  p_timeout_seconds :: "int option"
  p_created_at :: int
  p_updated_at :: int

record pipeline_definition =
  pd_id :: string
  pd_name :: string
  pd_description :: "string option"
  pd_enabled :: bool
  pd_steps :: "pipeline_step list"
  pd_errorStrategy :: error_strategy
  pd_maxRetries :: nat
  pd_timeoutSeconds :: "int option"
  pd_createdAt :: int
  pd_updatedAt :: int

text \<open>A run and a run's step, whose rows read as they are.\<close>

record pipeline_run =
  pr_id :: string
  pr_pipelineId :: string
  pr_status :: run_status
  pr_errorStrategy :: error_strategy
  pr_inputContext :: pipeline_context
  pr_context :: pipeline_context
  pr_error :: "msg option"
  pr_createdAt :: int
  pr_startedAt :: "int option"
  pr_completedAt :: "int option"
  pr_updatedAt :: int

record pipeline_run_step =
  rs_runId :: string
  rs_pipelineId :: string
  rs_stepId :: string
  rs_agent :: string
  rs_action :: string
  rs_output :: string
  rs_dependsOn :: "string list"
  rs_status :: step_status
  rs_inputContext :: "pipeline_context option"
  rs_outputValue :: json
  rs_error :: "msg option"
  rs_attempts :: nat
  rs_startedAt :: "int option"
  rs_completedAt :: "int option"
  rs_updatedAt :: int

record pipeline_db =
  pipelines :: "pipeline_row list"
  pipeline_runs :: "pipeline_run list"
  pipeline_run_steps :: "pipeline_run_step list"

definition TERMINAL_RUN_STATUSES :: "run_status list" where
  "TERMINAL_RUN_STATUSES = [Run_completed, Run_failed, Run_cancelled]"

definition isTerminalRunStatus :: "run_status \<Rightarrow> bool" where
  "isTerminalRunStatus status = (status \<in> set TERMINAL_RUN_STATUSES)"

section \<open>Pipelines\<close>

definition rowToPipeline :: "conversions \<Rightarrow> pipeline_row \<Rightarrow> pipeline_error + pipeline_definition" where
  "rowToPipeline conv row =
     (case p_steps row of
        Corrupt \<Rightarrow> Inl PE_syntax
      | Text j \<Rightarrow> bind_sum (normalizePipelineSteps conv j) (\<lambda>steps.
          Inr \<lparr>pd_id = p_id row, pd_name = p_name row, pd_description = p_description row,
               pd_enabled = p_enabled row, pd_steps = steps, pd_errorStrategy = p_error_strategy row,
               pd_maxRetries = p_max_retries row, pd_timeoutSeconds = p_timeout_seconds row,
               pd_createdAt = p_created_at row, pd_updatedAt = p_updated_at row\<rparr>))"

fun map_sum_list :: "('a \<Rightarrow> 'e + 'b) \<Rightarrow> 'a list \<Rightarrow> 'e + 'b list" where
  "map_sum_list f [] = Inr []"
| "map_sum_list f (x # xs) = bind_sum (f x) (\<lambda>y. bind_sum (map_sum_list f xs) (\<lambda>ys. Inr (y # ys)))"

definition list_pipelines :: "conversions \<Rightarrow> pipeline_db \<Rightarrow> pipeline_error + pipeline_definition list" where
  "list_pipelines conv db = map_sum_list (rowToPipeline conv) (order_desc p_created_at (pipelines db))"

definition get_pipeline :: "conversions \<Rightarrow> pipeline_db \<Rightarrow> string \<Rightarrow> pipeline_error + pipeline_definition option" where
  "get_pipeline conv db pid =
     (case sql_get p_id pid (pipelines db) of
        None \<Rightarrow> Inr None
      | Some row \<Rightarrow> bind_sum (rowToPipeline conv row) (\<lambda>p. Inr (Some p)))"

record pipeline_input =
  in_name :: string
  in_description :: "string option"
  in_enabled :: "bool option"
  in_steps :: json
  in_errorStrategy :: "error_strategy option"
  in_maxRetries :: "nat option"
  in_timeoutSeconds :: "int option"

definition create_pipeline ::
  "conversions \<Rightarrow> string \<Rightarrow> int \<Rightarrow> pipeline_input \<Rightarrow> pipeline_db \<Rightarrow>
   (pipeline_error, pipeline_definition, pipeline_db) outcome" where
  "create_pipeline conv pid now data db =
     (case normalizePipelineSteps conv (in_steps data) of
        Inl e \<Rightarrow> throw e db
      | Inr steps \<Rightarrow>
          if sql_get p_id pid (pipelines db) \<noteq> None then throw (PE_unique pid) db
          else
            let db' = db\<lparr>pipelines := pipelines db @
                  [\<lparr>p_id = pid, p_name = in_name data, p_description = in_description data,
                    p_enabled = nullish (in_enabled data) True, p_steps = Text (steps_json steps),
                    p_error_strategy = nullish (in_errorStrategy data) Fail_fast,
                    p_max_retries = nullish (in_maxRetries data) 0,
                    p_timeout_seconds = in_timeoutSeconds data,
                    p_created_at = now, p_updated_at = now\<rparr>]\<rparr>
            in (case get_pipeline conv db' pid of
                  Inl e \<Rightarrow> throw e db'
                | Inr None \<Rightarrow> throw (PE_message [S ''Pipeline '', S pid, S '' not found after insert'']) db'
                | Inr (Some created) \<Rightarrow> ret created db'))"

text \<open>In an update None is an absent field; a description or timeout may also be set to null.\<close>

record pipeline_update =
  up_name :: "string option"
  up_description :: "string option option"
  up_enabled :: "bool option"
  up_steps :: "json option"
  up_errorStrategy :: "error_strategy option"
  up_maxRetries :: "nat option"
  up_timeoutSeconds :: "int option option"

definition update_pipeline ::
  "conversions \<Rightarrow> string \<Rightarrow> int \<Rightarrow> pipeline_update \<Rightarrow> pipeline_db \<Rightarrow>
   (pipeline_error, pipeline_definition option, pipeline_db) outcome" where
  "update_pipeline conv pid now data db =
     (case get_pipeline conv db pid of
        Inl e \<Rightarrow> throw e db
      | Inr None \<Rightarrow> ret None db
      | Inr (Some existing) \<Rightarrow>
          (case (case up_steps data of
                   Some j \<Rightarrow> normalizePipelineSteps conv j
                 | None \<Rightarrow> Inr (pd_steps existing)) of
             Inl e \<Rightarrow> throw e db
           | Inr steps \<Rightarrow>
               let db' = db\<lparr>pipelines := sql_update p_id pid
                     (\<lambda>r. r\<lparr>p_name := nullish (up_name data) (pd_name existing),
                             p_description := nullish (up_description data) (pd_description existing),
                             p_enabled := nullish (up_enabled data) (pd_enabled existing),
                             p_steps := Text (steps_json steps),
                             p_error_strategy := nullish (up_errorStrategy data) (pd_errorStrategy existing),
                             p_max_retries := nullish (up_maxRetries data) (pd_maxRetries existing),
                             p_timeout_seconds := nullish (up_timeoutSeconds data) (pd_timeoutSeconds existing),
                             p_updated_at := now\<rparr>) (pipelines db)\<rparr>
               in (case get_pipeline conv db' pid of
                     Inl e \<Rightarrow> throw e db'
                   | Inr p \<Rightarrow> ret p db')))"

text \<open>ON DELETE CASCADE removes the pipeline's runs and their steps.\<close>

definition delete_pipeline :: "string \<Rightarrow> pipeline_db \<Rightarrow> bool \<times> pipeline_db" where
  "delete_pipeline pid db =
     (sql_get p_id pid (pipelines db) \<noteq> None,
      db\<lparr>pipelines := sql_delete (\<lambda>r. p_id r = pid) (pipelines db),
         pipeline_runs := sql_delete (\<lambda>r. pr_pipelineId r = pid) (pipeline_runs db),
         pipeline_run_steps :=
           sql_delete (\<lambda>r. rs_pipelineId r = pid \<or>
                           rs_runId r \<in> pr_id ` set (filter (\<lambda>q. pr_pipelineId q = pid) (pipeline_runs db)))
             (pipeline_run_steps db)\<rparr>)"

section \<open>Runs\<close>

definition getRun :: "pipeline_db \<Rightarrow> string \<Rightarrow> pipeline_run option" where
  "getRun db runId = sql_get pr_id runId (pipeline_runs db)"

definition getRunSteps :: "pipeline_db \<Rightarrow> string \<Rightarrow> pipeline_run_step list" where
  "getRunSteps db runId = filter (\<lambda>r. rs_runId r = runId) (pipeline_run_steps db)"

definition listRuns :: "pipeline_db \<Rightarrow> string \<Rightarrow> int \<Rightarrow> pipeline_run list" where
  "listRuns db pid limit =
     take (nat (max 1 (min limit 200)))
       (order_desc pr_createdAt (filter (\<lambda>r. pr_pipelineId r = pid) (pipeline_runs db)))"

definition getRunDetail ::
  "pipeline_db \<Rightarrow> string \<Rightarrow> string \<Rightarrow> (pipeline_run \<times> pipeline_run_step list) option" where
  "getRunDetail db pid runId =
     (case getRun db runId of
        None \<Rightarrow> None
      | Some run \<Rightarrow> if pr_pipelineId run \<noteq> pid then None else Some (run, getRunSteps db runId))"

definition new_run_step :: "string \<Rightarrow> string \<Rightarrow> int \<Rightarrow> pipeline_step \<Rightarrow> pipeline_run_step" where
  "new_run_step runId pid now step =
     \<lparr>rs_runId = runId, rs_pipelineId = pid, rs_stepId = s_id step, rs_agent = s_agent step,
      rs_action = s_action step, rs_output = s_output step, rs_dependsOn = s_dependsOn step,
      rs_status = Step_pending, rs_inputContext = None, rs_outputValue = JNull, rs_error = None,
      rs_attempts = 0, rs_startedAt = None, rs_completedAt = None, rs_updatedAt = now\<rparr>"

text \<open>The key of a run's step; two steps of one id make the transaction of \<open>createRun\<close> fail.\<close>

definition createRun ::
  "string \<Rightarrow> int \<Rightarrow> pipeline_definition \<Rightarrow> pipeline_context option \<Rightarrow> error_strategy option \<Rightarrow> pipeline_db \<Rightarrow>
   (pipeline_error, pipeline_run, pipeline_db) outcome" where
  "createRun runId now pipeline inputContext strategy db =
     (let context = map (\<lambda>(k, v). (k, jsonify v)) (nullish inputContext []);
          run = \<lparr>pr_id = runId, pr_pipelineId = pd_id pipeline, pr_status = Run_pending,
                 pr_errorStrategy = nullish strategy (pd_errorStrategy pipeline),
                 pr_inputContext = context, pr_context = context, pr_error = None,
                 pr_createdAt = now, pr_startedAt = None, pr_completedAt = None, pr_updatedAt = now\<rparr>;
          steps = map (new_run_step runId (pd_id pipeline) now) (pd_steps pipeline)
      in if getRun db runId \<noteq> None then throw (PE_unique runId) db
         else if sql_get p_id (pd_id pipeline) (pipelines db) = None
         then throw (PE_foreign_key (pd_id pipeline)) db
         else if \<not> distinct (map s_id (pd_steps pipeline)) \<or> getRunSteps db runId \<noteq> [] \<and> steps \<noteq> []
         then throw (PE_unique runId) db
         else
           let db' = db\<lparr>pipeline_runs := pipeline_runs db @ [run],
                        pipeline_run_steps := pipeline_run_steps db @ steps\<rparr>
           in (case getRun db' runId of
                 None \<Rightarrow> throw (PE_message [S ''Pipeline run '', S runId, S '' not found after insert'']) db'
               | Some r \<Rightarrow> ret r db'))"

text \<open>An absent field is None; \<open>error\<close> and the times may also be set to null.\<close>

record run_update =
  ru_status :: "run_status option"
  ru_context :: "pipeline_context option"
  ru_error :: "msg option option"
  ru_startedAt :: "int option option"
  ru_completedAt :: "int option option"

definition updateRun_set :: "run_update \<Rightarrow> pipeline_run \<Rightarrow> int \<Rightarrow> pipeline_run \<Rightarrow> pipeline_run" where
  "updateRun_set data existing now r =
     r\<lparr>pr_status := nullish (ru_status data) (pr_status existing),
       pr_context := map (\<lambda>(k, v). (k, jsonify v)) (nullish (ru_context data) (pr_context existing)),
       pr_error := nullish (ru_error data) (pr_error existing),
       pr_startedAt := nullish (ru_startedAt data) (pr_startedAt existing),
       pr_completedAt := nullish (ru_completedAt data) (pr_completedAt existing),
       pr_updatedAt := now\<rparr>"

definition updateRun ::
  "int \<Rightarrow> string \<Rightarrow> run_update \<Rightarrow> pipeline_db \<Rightarrow> pipeline_run option \<times> pipeline_db" where
  "updateRun now runId data db =
     (case getRun db runId of
        None \<Rightarrow> (None, db)
      | Some existing \<Rightarrow>
          if isTerminalRunStatus (pr_status existing) then (Some existing, db)
          else
            let db' = db\<lparr>pipeline_runs := sql_update pr_id runId
                           (updateRun_set data existing now) (pipeline_runs db)\<rparr>
            in (getRun db' runId, db'))"

record step_update =
  su_status :: "step_status option"
  su_inputContext :: "pipeline_context option option"
  su_outputValue :: "json option"
  su_error :: "msg option option"
  su_attempts :: "nat option"
  su_startedAt :: "int option option"
  su_completedAt :: "int option option"

definition find_step :: "pipeline_db \<Rightarrow> string \<Rightarrow> string \<Rightarrow> pipeline_run_step option" where
  "find_step db runId stepId = find (\<lambda>s. rs_stepId s = stepId) (getRunSteps db runId)"

definition updateStep_set :: "step_update \<Rightarrow> pipeline_run_step \<Rightarrow> int \<Rightarrow> pipeline_run_step \<Rightarrow> pipeline_run_step" where
  "updateStep_set data existing now r =
     r\<lparr>rs_status := nullish (su_status data) (rs_status existing),
       rs_inputContext := map_option (map (\<lambda>(k, v). (k, jsonify v)))
                            (nullish (su_inputContext data) (rs_inputContext existing)),
       rs_outputValue := jsonify (nullish (su_outputValue data) (rs_outputValue existing)),
       rs_error := nullish (su_error data) (rs_error existing),
       rs_attempts := nullish (su_attempts data) (rs_attempts existing),
       rs_startedAt := nullish (su_startedAt data) (rs_startedAt existing),
       rs_completedAt := nullish (su_completedAt data) (rs_completedAt existing),
       rs_updatedAt := now\<rparr>"

definition updateStep ::
  "int \<Rightarrow> string \<Rightarrow> string \<Rightarrow> step_update \<Rightarrow> pipeline_db \<Rightarrow> pipeline_run_step option \<times> pipeline_db" where
  "updateStep now runId stepId data db =
     (if (case getRun db runId of Some run \<Rightarrow> isTerminalRunStatus (pr_status run) | None \<Rightarrow> False)
      then (find_step db runId stepId, db)
      else
        (case find_step db runId stepId of
           None \<Rightarrow> (None, db)
         | Some existing \<Rightarrow>
             let db' = db\<lparr>pipeline_run_steps := sql_update_where
                            (\<lambda>r. rs_runId r = runId \<and> rs_stepId r = stepId)
                            (updateStep_set data existing now) (pipeline_run_steps db)\<rparr>
             in (find_step db' runId stepId, db')))"

definition cancelRun :: "int \<Rightarrow> string \<Rightarrow> string \<Rightarrow> pipeline_db \<Rightarrow> pipeline_run option \<times> pipeline_db" where
  "cancelRun now pid runId db =
     (case getRun db runId of
        None \<Rightarrow> (None, db)
      | Some run \<Rightarrow>
          if pr_pipelineId run \<noteq> pid then (None, db)
          else if pr_status run \<in> {Run_completed, Run_failed, Run_cancelled} then (Some run, db)
          else
            let db' = db\<lparr>pipeline_runs := sql_update pr_id runId
                  (\<lambda>r. r\<lparr>pr_status := Run_cancelled, pr_completedAt := Some now, pr_updatedAt := now\<rparr>)
                  (pipeline_runs db),
                 pipeline_run_steps := sql_update_where
                  (\<lambda>r. rs_runId r = runId \<and> rs_status r \<in> {Step_pending, Step_running})
                  (\<lambda>r. r\<lparr>rs_status := Step_cancelled,
                         rs_error := Some (nullish (rs_error r) [S ''Pipeline run cancelled'']),
                         rs_updatedAt := now\<rparr>) (pipeline_run_steps db)\<rparr>
            in (getRun db' runId, db'))"

definition finish_steps :: "int \<Rightarrow> string \<Rightarrow> step_status \<Rightarrow> step_status \<Rightarrow> msg \<Rightarrow> pipeline_db \<Rightarrow> pipeline_db" where
  "finish_steps now runId old new reason db =
     db\<lparr>pipeline_run_steps := sql_update_where (\<lambda>r. rs_runId r = runId \<and> rs_status r = old)
          (\<lambda>r. r\<lparr>rs_status := new, rs_error := Some reason, rs_completedAt := Some now,
                 rs_updatedAt := now\<rparr>) (pipeline_run_steps db)\<rparr>"

definition markPendingStepsSkipped :: "int \<Rightarrow> string \<Rightarrow> msg \<Rightarrow> pipeline_db \<Rightarrow> pipeline_db" where
  "markPendingStepsSkipped now runId reason db = finish_steps now runId Step_pending Step_skipped reason db"

definition markTimedOutSteps :: "int \<Rightarrow> string \<Rightarrow> msg \<Rightarrow> pipeline_db \<Rightarrow> pipeline_db" where
  "markTimedOutSteps now runId reason db =
     finish_steps now runId Step_pending Step_skipped reason
       (finish_steps now runId Step_running Step_failed reason db)"

section \<open>Creating a pipeline\<close>

text \<open>
  Creating a pipeline under a fresh id succeeds exactly when its steps are accepted; then the
  created pipeline is what the store returns for its id, holds the accepted steps, and is enabled
  with strategy \<open>fail_fast\<close> and no retries unless the input says otherwise. When the steps are
  not accepted the store is unchanged.
\<close>

theorem create_pipeline_correct:
  assumes "sql_get p_id pid (pipelines db) = None"
  shows "case normalizePipelineSteps conv (in_steps data) of
           Inl e \<Rightarrow> create_pipeline conv pid now data db = (Inl e, db)
         | Inr steps \<Rightarrow>
             (\<exists>created db'. create_pipeline conv pid now data db = (Inr created, db') \<and>
                get_pipeline conv db' pid = Inr (Some created) \<and> pd_steps created = steps \<and>
                pd_enabled created = nullish (in_enabled data) True \<and>
                pd_errorStrategy created = nullish (in_errorStrategy data) Fail_fast \<and>
                pd_maxRetries created = nullish (in_maxRetries data) 0)"
proof (cases "normalizePipelineSteps conv (in_steps data)")
  case (Inl e)
  then show ?thesis by (simp add: create_pipeline_def throw_def)
next
  case (Inr steps)
  define row where "row = \<lparr>p_id = pid, p_name = in_name data, p_description = in_description data,
      p_enabled = nullish (in_enabled data) True, p_steps = Text (steps_json steps),
      p_error_strategy = nullish (in_errorStrategy data) Fail_fast,
      p_max_retries = nullish (in_maxRetries data) 0, p_timeout_seconds = in_timeoutSeconds data,
      p_created_at = now, p_updated_at = now\<rparr>"
  define db' where "db' = db\<lparr>pipelines := pipelines db @ [row]\<rparr>"
  define created where "created = \<lparr>pd_id = pid, pd_name = in_name data, pd_description = in_description data,
      pd_enabled = nullish (in_enabled data) True, pd_steps = steps,
      pd_errorStrategy = nullish (in_errorStrategy data) Fail_fast,
      pd_maxRetries = nullish (in_maxRetries data) 0, pd_timeoutSeconds = in_timeoutSeconds data,
      pd_createdAt = now, pd_updatedAt = now\<rparr>"
  have "rowToPipeline conv row = Inr created"
    unfolding rowToPipeline_def row_def created_def pipeline_row.simps json_text.case
      normalizePipelineSteps_again [OF Inr] bind_sum_simps ..
  then have get: "get_pipeline conv db' pid = Inr (Some created)"
    using assms by (simp add: get_pipeline_def db'_def) (simp add: row_def)
  then have "create_pipeline conv pid now data db = (Inr created, db')"
    using assms by (simp add: create_pipeline_def Inr Let_def db'_def row_def ret_def)
  then show ?thesis using get by (simp add: Inr) (simp add: created_def)
qed

section \<open>Cancelling a run\<close>

lemma cancelRun_open:
  assumes "getRun db runId = Some run" and "pr_pipelineId run = pid"
    and "\<not> isTerminalRunStatus (pr_status run)"
  shows "pipeline_run_steps (snd (cancelRun now pid runId db)) =
           sql_update_where (\<lambda>r. rs_runId r = runId \<and> rs_status r \<in> {Step_pending, Step_running})
             (\<lambda>r. r\<lparr>rs_status := Step_cancelled,
                    rs_error := Some (nullish (rs_error r) [S ''Pipeline run cancelled'']),
                    rs_updatedAt := now\<rparr>) (pipeline_run_steps db)"
    and "map_option pr_status (fst (cancelRun now pid runId db)) = Some Run_cancelled"
proof -
  have "pr_status run \<notin> {Run_completed, Run_failed, Run_cancelled}"
    using assms(3) by (simp add: isTerminalRunStatus_def TERMINAL_RUN_STATUSES_def)
  then show "map_option pr_status (fst (cancelRun now pid runId db)) = Some Run_cancelled"
    and "pipeline_run_steps (snd (cancelRun now pid runId db)) =
           sql_update_where (\<lambda>r. rs_runId r = runId \<and> rs_status r \<in> {Step_pending, Step_running})
             (\<lambda>r. r\<lparr>rs_status := Step_cancelled,
                    rs_error := Some (nullish (rs_error r) [S ''Pipeline run cancelled'']),
                    rs_updatedAt := now\<rparr>) (pipeline_run_steps db)"
    using assms(1,2) by (simp_all add: cancelRun_def Let_def getRun_def sql_get_update)
qed

lemma cancel_step_status:
  "r \<in> set (sql_update_where (\<lambda>r. rs_runId r = runId \<and> rs_status r \<in> {Step_pending, Step_running})
             (\<lambda>r. r\<lparr>rs_status := Step_cancelled, rs_error := e r, rs_updatedAt := now\<rparr>) rows) \<Longrightarrow>
   rs_runId r = runId \<Longrightarrow> rs_status r \<notin> {Step_pending, Step_running}"
proof -
  assume run: "rs_runId r = runId" and "r \<in> set (sql_update_where
      (\<lambda>r. rs_runId r = runId \<and> rs_status r \<in> {Step_pending, Step_running})
      (\<lambda>r. r\<lparr>rs_status := Step_cancelled, rs_error := e r, rs_updatedAt := now\<rparr>) rows)"
  then obtain r0 where r: "r = (if rs_runId r0 = runId \<and> rs_status r0 \<in> {Step_pending, Step_running}
      then r0\<lparr>rs_status := Step_cancelled, rs_error := e r0, rs_updatedAt := now\<rparr> else r0)"
    unfolding set_update_where by blast
  show "rs_status r \<notin> {Step_pending, Step_running}"
  proof (cases "rs_runId r0 = runId \<and> rs_status r0 \<in> {Step_pending, Step_running}")
    case True
    then show ?thesis unfolding r if_P [OF True] by simp
  next
    case False
    then show ?thesis using run unfolding r if_not_P [OF False] by simp
  qed
qed

text \<open>
  Cancelling a run of the pipeline that has not ended leaves the run cancelled and none of its
  steps pending or running, whatever the store holds besides.
\<close>

theorem cancelRun_stops_steps:
  assumes "getRun db runId = Some run" and "pr_pipelineId run = pid"
    and "\<not> isTerminalRunStatus (pr_status run)"
  shows "map_option pr_status (fst (cancelRun now pid runId db)) = Some Run_cancelled \<and>
         list_all (\<lambda>r. rs_status r \<notin> {Step_pending, Step_running})
           (getRunSteps (snd (cancelRun now pid runId db)) runId)"
proof -
  have "rs_status r \<notin> {Step_pending, Step_running}"
    if "r \<in> set (getRunSteps (snd (cancelRun now pid runId db)) runId)" for r
  proof (rule cancel_step_status)
    show "r \<in> set (sql_update_where (\<lambda>r. rs_runId r = runId \<and> rs_status r \<in> {Step_pending, Step_running})
             (\<lambda>r. r\<lparr>rs_status := Step_cancelled,
                    rs_error := Some (nullish (rs_error r) [S ''Pipeline run cancelled'']),
                    rs_updatedAt := now\<rparr>) (pipeline_run_steps db))"
      using that cancelRun_open(1) [OF assms, of now] unfolding getRunSteps_def by simp
    show "rs_runId r = runId" using that by (simp add: getRunSteps_def)
  qed
  then show ?thesis
    using cancelRun_open(2) [OF assms, of now] by (simp only: list_all_iff simp_thms) blast
qed

section \<open>Ended runs\<close>

datatype run_call =
    C_create string int pipeline_definition "pipeline_context option" "error_strategy option"
  | C_update_run int string run_update
  | C_update_step int string string step_update
  | C_cancel int string string
  | C_skip int string msg
  | C_time_out int string msg
  | C_create_pipeline conversions string int pipeline_input
  | C_update_pipeline conversions string int pipeline_update
  | C_delete_pipeline string

fun run_exec :: "run_call \<Rightarrow> pipeline_db \<Rightarrow> pipeline_db" where
  "run_exec (C_create runId now p ctx st) db = snd (createRun runId now p ctx st db)"
| "run_exec (C_update_run now runId data) db = snd (updateRun now runId data db)"
| "run_exec (C_update_step now runId stepId data) db = snd (updateStep now runId stepId data db)"
| "run_exec (C_cancel now pid runId) db = snd (cancelRun now pid runId db)"
| "run_exec (C_skip now runId reason) db = markPendingStepsSkipped now runId reason db"
| "run_exec (C_time_out now runId reason) db = markTimedOutSteps now runId reason db"
| "run_exec (C_create_pipeline conv pid now data) db = snd (create_pipeline conv pid now data db)"
| "run_exec (C_update_pipeline conv pid now data) db = snd (update_pipeline conv pid now data db)"
| "run_exec (C_delete_pipeline pid) db = snd (delete_pipeline pid db)"

text \<open>The calls that are not guarded by the run's status: the bulk marks on it, and a deletion.\<close>

fun guarded :: "string \<Rightarrow> run_call \<Rightarrow> bool" where
  "guarded runId (C_skip now k reason) = (k \<noteq> runId)"
| "guarded runId (C_time_out now k reason) = (k \<noteq> runId)"
| "guarded runId (C_delete_pipeline pid) = False"
| "guarded runId _ = True"

lemma filter_update_where:
  "(\<And>r. p r \<Longrightarrow> q r \<longleftrightarrow> q (f r)) \<Longrightarrow> (\<And>r. p r \<Longrightarrow> \<not> q r) \<Longrightarrow>
   filter q (sql_update_where p f rows) = filter q rows"
  by (induction rows) (auto simp: sql_update_where_def)

lemma finish_steps_other:
  "k \<noteq> runId \<Longrightarrow> getRunSteps (finish_steps now k old new reason db) runId = getRunSteps db runId"
  unfolding getRunSteps_def finish_steps_def by (simp, rule filter_update_where) auto

lemma ended_run_kept:
  assumes "getRun db runId = Some run" and "isTerminalRunStatus (pr_status run)" and "guarded runId c"
  shows "getRun (run_exec c db) runId = Some run \<and> getRunSteps (run_exec c db) runId = getRunSteps db runId"
proof (cases c)
  case (C_create k now p ctx st)
  show ?thesis
  proof (cases "k = runId")
    case True
    then show ?thesis using C_create assms(1) by (simp add: createRun_def Let_def)
  next
    case False
    then have "filter (\<lambda>r. rs_runId r = runId) (map (new_run_step k pid now) ss) = []" for pid now ss
      by (simp add: filter_empty_conv new_run_step_def)
    then show ?thesis
      using C_create assms(1)
      by (auto simp: createRun_def Let_def getRun_def getRunSteps_def split: option.splits)
  qed
next
  case (C_update_run now k data)
  then show ?thesis
    using assms(1,2)
    by (auto simp: updateRun_def Let_def getRun_def getRunSteps_def sql_get_update updateRun_set_def
        split: option.splits)
next
  case (C_update_step now k stepId data)
  then show ?thesis
  proof (cases "k = runId")
    case True
    then show ?thesis using C_update_step assms(1,2) by (simp add: updateStep_def)
  next
    case False
    then have "filter (\<lambda>r. rs_runId r = runId)
        (sql_update_where (\<lambda>r. rs_runId r = k \<and> rs_stepId r = stepId) (updateStep_set data e now) rows) =
        filter (\<lambda>r. rs_runId r = runId) rows" for e rows
      by (intro filter_update_where) (auto simp: updateStep_set_def)
    then show ?thesis
      using C_update_step assms(1)
      by (auto simp: updateStep_def Let_def getRun_def getRunSteps_def split: option.splits)
  qed
next
  case (C_cancel now pid k)
  show ?thesis
  proof (cases "k = runId")
    case True
    then show ?thesis
      using C_cancel assms(1,2)
      by (auto simp: cancelRun_def isTerminalRunStatus_def TERMINAL_RUN_STATUSES_def)
  next
    case False
    then have "filter (\<lambda>r. rs_runId r = runId) (sql_update_where (\<lambda>r. rs_runId r = k \<and> Q r)
        (\<lambda>r. r\<lparr>rs_status := x, rs_error := y r, rs_updatedAt := z\<rparr>) rows) =
        filter (\<lambda>r. rs_runId r = runId) rows" for Q x y z rows
      by (intro filter_update_where) auto
    then show ?thesis
      using C_cancel assms(1) False
      by (auto simp: cancelRun_def Let_def getRun_def getRunSteps_def sql_get_update split: option.splits)
  qed
next
  case (C_skip now k reason)
  then show ?thesis
    using assms by (simp add: markPendingStepsSkipped_def finish_steps_other getRun_def)
      (simp add: finish_steps_def)
next
  case (C_time_out now k reason)
  then show ?thesis
    using assms by (simp add: markTimedOutSteps_def finish_steps_other getRun_def)
      (simp add: finish_steps_def)
next
  case (C_create_pipeline conv pid now data)
  then show ?thesis
    using assms(1)
    by (auto simp: create_pipeline_def Let_def getRun_def getRunSteps_def split: sum.splits option.splits)
next
  case (C_update_pipeline conv pid now data)
  then show ?thesis
    using assms(1)
    by (auto simp: update_pipeline_def Let_def getRun_def getRunSteps_def split: sum.splits option.splits)
next
  case (C_delete_pipeline pid)
  then show ?thesis using assms(3) by simp
qed

text \<open>
  An ended run is immutable: once a run is completed, failed or cancelled, no sequence of calls
  (late status and step writes, cancellations, new runs, bulk marks on other runs, changes of
  pipelines) changes the run or any of its steps, short of deleting a pipeline or bulk-marking the
  run itself.
\<close>

theorem ended_run_immutable:
  assumes "getRun db runId = Some run" and "isTerminalRunStatus (pr_status run)"
    and "list_all (guarded runId) cs"
  shows "getRun (fold run_exec cs db) runId = Some run \<and>
         getRunSteps (fold run_exec cs db) runId = getRunSteps db runId"
  using assms
proof (induction cs arbitrary: db)
  case Nil
  then show ?case by simp
next
  case (Cons c cs)
  have "getRun (run_exec c db) runId = Some run" "getRunSteps (run_exec c db) runId = getRunSteps db runId"
    using ended_run_kept [OF Cons.prems(1,2)] Cons.prems(3) by simp_all
  then show ?case using Cons by simp
qed

section \<open>Witnesses\<close>

definition example_pipeline_data :: pipeline_input where
  "example_pipeline_data = \<lparr>in_name = ''digest'', in_description = None, in_enabled = None,
     in_steps = example_pipeline_input, in_errorStrategy = None, in_maxRetries = None,
     in_timeoutSeconds = None\<rparr>"

definition example_run :: "run_status \<Rightarrow> pipeline_run" where
  "example_run st = \<lparr>pr_id = ''r1'', pr_pipelineId = ''p1'', pr_status = st, pr_errorStrategy = Fail_fast,
     pr_inputContext = [], pr_context = [], pr_error = None, pr_createdAt = 1, pr_startedAt = Some 1,
     pr_completedAt = None, pr_updatedAt = 1\<rparr>"

definition example_runs_db :: "run_status \<Rightarrow> pipeline_db" where
  "example_runs_db st = \<lparr>pipelines = [], pipeline_runs = [example_run st],
     pipeline_run_steps = map (new_run_step ''r1'' ''p1'' 1) example_normalized\<rparr>"

theorem create_pipeline_correct_witness:
  "\<exists>created db'. create_pipeline example_conv ''p1'' 7 example_pipeline_data (example_runs_db Run_failed) =
       (Inr created, db') \<and> pd_steps created = example_normalized"
proof -
  have a: "sql_get p_id ''p1'' (pipelines (example_runs_db Run_failed)) = None"
    by (simp add: example_runs_db_def)
  have "in_steps example_pipeline_data = example_pipeline_input"
    by (simp add: example_pipeline_data_def)
  then have "normalizePipelineSteps example_conv (in_steps example_pipeline_data) = Inr example_normalized"
    using example_normalizes by simp
  then show ?thesis
    using create_pipeline_correct [OF a, where conv = example_conv and data = example_pipeline_data and now = 7] by auto
qed

theorem cancelRun_stops_steps_witness:
  "list_all (\<lambda>r. rs_status r \<notin> {Step_pending, Step_running})
     (getRunSteps (snd (cancelRun 9 ''p1'' ''r1'' (example_runs_db Run_running))) ''r1'')"
proof -
  have a: "getRun (example_runs_db Run_running) ''r1'' = Some (example_run Run_running)"
    by (simp add: getRun_def example_runs_db_def example_run_def)
  have b: "pr_pipelineId (example_run Run_running) = ''p1''"
    and c: "\<not> isTerminalRunStatus (pr_status (example_run Run_running))"
    by (simp_all add: example_run_def isTerminalRunStatus_def TERMINAL_RUN_STATUSES_def)
  show ?thesis using cancelRun_stops_steps [OF a b c] by blast
qed

theorem ended_run_immutable_witness:
  "getRun (fold run_exec
     [C_update_step 5 ''r1'' ''a'' \<lparr>su_status = Some Step_completed, su_inputContext = None,
        su_outputValue = None, su_error = None, su_attempts = None, su_startedAt = None,
        su_completedAt = None\<rparr>, C_cancel 6 ''p1'' ''r1'']
     (example_runs_db Run_failed)) ''r1'' = Some (example_run Run_failed)"
proof -
  have a: "getRun (example_runs_db Run_failed) ''r1'' = Some (example_run Run_failed)"
    by (simp add: getRun_def example_runs_db_def example_run_def)
  have b: "isTerminalRunStatus (pr_status (example_run Run_failed))"
    by (simp add: example_run_def isTerminalRunStatus_def TERMINAL_RUN_STATUSES_def)
  have c: "list_all (guarded ''r1'')
     [C_update_step 5 ''r1'' ''a'' \<lparr>su_status = Some Step_completed, su_inputContext = None,
        su_outputValue = None, su_error = None, su_attempts = None, su_startedAt = None,
        su_completedAt = None\<rparr>, C_cancel 6 ''p1'' ''r1'']"
    by simp
  show ?thesis using ended_run_immutable [OF a b c] by blast
qed

end
