(* ===== verification/PipelineExecutor.thy ===== *)
theory PipelineExecutor
  imports PipelineRuns
begin

text \<open>
  \<open>PipelineExecutor\<close> of src/services/pipeline/executor.ts: how a run of a pipeline is started and
  executed, level after level, the steps of a level side by side.

  What runs between two awaits is one step of the model. The state \<open>px\<close> is the database, what each
  step of the current level waits for, and where \<open>executeRun\<close> is; an event is an answer to a step, a
  timer, the continuation of \<open>executeRun\<close>, or a call that somebody else makes of the store. The time is
  in milliseconds and stands still within an event. The prompts, the agents and the writing of JSON
  are parameters (\<open>executor_env\<close>), and so is what a sent message returns. Log output is left out.
\<close>

section \<open>Actions\<close>

text \<open>
  \<open>String\<close> on numbers and booleans, \<open>JSON.stringify\<close>, the snapshots of the managed agents (None when
  there is no such service), whether that service can wait for results, and its \<open>sendMessage\<close>, which
  throws or gives the id and the time of the message.
\<close>

record agent_snapshot =
  ag_id :: string
  ag_name :: string
  ag_type :: string

record executor_env =
  ee_conv :: conversions
  ee_stringify :: "json \<Rightarrow> string"
  ee_agents :: "agent_snapshot list option"
  ee_correlates :: bool
  ee_send :: "string \<Rightarrow> string \<Rightarrow> msg + string \<times> json"

definition stringifyContextValue :: "executor_env \<Rightarrow> json \<Rightarrow> string" where
  "stringifyContextValue env v =
     (case v of
        JNull \<Rightarrow> []
      | JStr s \<Rightarrow> s
      | JNum _ \<Rightarrow> toStr (ee_conv env) v
      | JBool _ \<Rightarrow> toStr (ee_conv env) v
      | _ \<Rightarrow> ee_stringify env v)"

text \<open>
  \<open>context[name]\<close> also finds what every object inherits; a function is written as undefined, the
  prototype as an empty object. A missing member is the empty text.
\<close>

definition INHERITED :: "string list" where
  "INHERITED = [''constructor'', ''hasOwnProperty'', ''isPrototypeOf'', ''propertyIsEnumerable'',
     ''toLocaleString'', ''toString'', ''valueOf'', ''__defineGetter__'', ''__defineSetter__'',
     ''__lookupGetter__'', ''__lookupSetter__'']"

definition context_text :: "executor_env \<Rightarrow> pipeline_context \<Rightarrow> string \<Rightarrow> string" where
  "context_text env context name =
     (case map_of context name of
        Some v \<Rightarrow> stringifyContextValue env v
      | None \<Rightarrow>
          if name \<in> set INHERITED then ''undefined''
          else if name = ''__proto__'' then [char_of (123::nat), char_of (125::nat)]
          else [])"

text \<open>The pattern: a brace, a letter or underscore, name characters, a brace.\<close>

definition name_start :: "char \<Rightarrow> bool" where
  "name_start c = (is_letter c \<or> code c = 95)"

definition name_char :: "char \<Rightarrow> bool" where
  "name_char c = (is_letter c \<or> is_digit c \<or> code c \<in> {95, 46, 45})"

definition placeholder :: "string \<Rightarrow> (string \<times> string) option" where
  "placeholder s =
     (let name = takeWhile name_char s; rest = dropWhile name_char s in
      if name \<noteq> [] \<and> name_start (hd name) \<and> rest \<noteq> [] \<and> code (hd rest) = 125
      then Some (name, tl rest) else None)"

lemma placeholder_shorter [termination_simp]:
  "placeholder s = Some (name, rest) \<Longrightarrow> length rest < Suc (length s)"
proof -
  assume "placeholder s = Some (name, rest)"
  then have "rest = tl (dropWhile name_char s)"
    by (auto simp: placeholder_def Let_def split: if_splits)
  moreover have "length (dropWhile name_char s) \<le> length s" by (rule length_dropWhile_le)
  ultimately show ?thesis by (cases "dropWhile name_char s") auto
qed

fun interpolateAction :: "executor_env \<Rightarrow> string \<Rightarrow> pipeline_context \<Rightarrow> string" where
  "interpolateAction env [] context = []"
| "interpolateAction env (c # cs) context =
     (if code c = 123 then
        (case placeholder cs of
           Some (name, rest) \<Rightarrow> context_text env context name @ interpolateAction env rest context
         | None \<Rightarrow> c # interpolateAction env cs context)
      else c # interpolateAction env cs context)"

definition findManagedAgent :: "agent_snapshot list \<Rightarrow> string \<Rightarrow> agent_snapshot option" where
  "findManagedAgent agents requestedAgent =
     (let lookup = to_lower (trim requestedAgent) in
      find (\<lambda>a. to_lower (ag_id a) = lookup \<or> to_lower (ag_name a) = lookup \<or> to_lower (ag_type a) = lookup) agents)"

section \<open>Dispatching a step\<close>

text \<open>What a step was handed to, and the answers.\<close>

datatype dispatched = To_primary | To_agent string | Not_dispatched msg

datatype reply =
    R_primary "string option" string
  | R_managed "string option" "json option" "string option"
  | R_rejected msg

definition no_update :: step_update where
  "no_update = \<lparr>su_status = None, su_inputContext = None, su_outputValue = None, su_error = None,
                su_attempts = None, su_startedAt = None, su_completedAt = None\<rparr>"

definition NEWLINE :: string where "NEWLINE = [char_of (10::nat)]"
definition QUOTE :: string where "QUOTE = [char_of (34::nat)]"

definition step_message :: "pipeline_step \<Rightarrow> string \<Rightarrow> string" where
  "step_message step action = ''[PIPELINE STEP - '' @ s_id step @ '']'' @ NEWLINE @ action"

definition pending_output :: "string \<Rightarrow> agent_snapshot \<Rightarrow> json \<Rightarrow> string \<Rightarrow> json" where
  "pending_output messageId agent createdAt action =
     JObj [(''messageId'', JStr messageId), (''toAgentId'', JStr (ag_id agent)),
           (''toAgentName'', JStr (ag_name agent)), (''createdAt'', createdAt),
           (''pending'', JBool True), (''action'', JStr action)]"

definition dispatchStep ::
  "executor_env \<Rightarrow> int \<Rightarrow> string \<Rightarrow> pipeline_step \<Rightarrow> string \<Rightarrow> pipeline_db \<Rightarrow> dispatched \<times> pipeline_db" where
  "dispatchStep env now runId step action db =
     (let requestedAgent = trim (s_agent step) in
      if requestedAgent = [] \<or> to_lower requestedAgent = ''primary'' then (To_primary, db)
      else
        case ee_agents env of
          None \<Rightarrow>
            (Not_dispatched [S (''Managed agent service unavailable for '' @ QUOTE @ requestedAgent @ QUOTE)], db)
        | Some agents \<Rightarrow>
            (case findManagedAgent agents requestedAgent of
               None \<Rightarrow> (Not_dispatched [S (''Managed agent not found: '' @ requestedAgent)], db)
             | Some agent \<Rightarrow>
                 if \<not> ee_correlates env then
                   (Not_dispatched [S (''Managed agent result correlation unavailable for pipeline step '' @
                      QUOTE @ s_id step @ QUOTE)], db)
                 else
                   (case ee_send env (ag_id agent) (step_message step action) of
                      Inl m \<Rightarrow> (Not_dispatched m, db)
                    | Inr (messageId, createdAt) \<Rightarrow>
                        (To_agent (ag_name agent),
                         snd (updateStep (secs now) runId (s_id step)
                           (no_update\<lparr>su_outputValue := Some (pending_output messageId agent createdAt action)\<rparr>)
                           db)))))"

text \<open>What \<open>dispatchStep\<close> makes of the answer: an error or a value. Other answers leave it waiting.\<close>

definition NO_RESPONSE :: string where
  "NO_RESPONSE = ''Internal error: Agent loop failed to produce a response.''"

fun settle :: "pipeline_step \<Rightarrow> dispatched \<Rightarrow> reply \<Rightarrow> (msg + json) option" where
  "settle step (Not_dispatched m) r = Some (Inl m)"
| "settle step d (R_rejected m) = Some (Inl m)"
| "settle step To_primary (R_primary err content) =
     Some (case non_empty err of
             Some e \<Rightarrow> Inl [S e]
           | None \<Rightarrow> if content = NO_RESPONSE then Inl [S content] else Inr (JStr content))"
| "settle step (To_agent name) (R_managed st content err) =
     (let status = nullish st ''completed'' in
      if status = ''completed'' then Some (Inr (nullish content JNull))
      else
        let reason = nullish err (if status = ''cancelled'' then ''managed agent cancelled the message''
                                  else ''managed agent failed'')
        in Some (Inl [S (''Managed agent '' @ QUOTE @ name @ QUOTE @ '' '' @ status @ '' pipeline step '' @
             QUOTE @ s_id step @ QUOTE @ '': '' @ reason)]))"
| "settle step _ _ = None"

section \<open>The state of a run under execution\<close>

text \<open>
  \<open>px_deadline\<close> is the deadline of the pipeline; \<open>px_begun\<close> records the ids of the steps of which an
  attempt has begun, in order, and influences nothing.
\<close>

record step_wait =
  sw_step :: pipeline_step
  sw_attempt :: nat
  sw_startedAt :: int
  sw_context :: pipeline_context
  sw_dispatched :: dispatched
  sw_timeout :: "js_num option"

record step_result =
  sr_step :: pipeline_step
  sr_outputValue :: json
  sr_failed :: bool
  sr_cancelled :: bool
  sr_error :: "msg option"
  sr_strategy :: error_strategy

datatype step_job = Waiting step_wait | Finished step_result

datatype main = Awaiting "pipeline_step list list" pipeline_context | Returned | Threw msg

record px =
  px_db :: pipeline_db
  px_deadline :: "int option"
  px_jobs :: "step_job list"
  px_main :: main
  px_begun :: "string list"

datatype interruption = Cancelled | Timeout msg

definition pipelineTimeoutMessage :: "pipeline_definition \<Rightarrow> msg" where
  "pipelineTimeoutMessage pl =
     [S ''Pipeline timed out after '', N (case pd_timeoutSeconds pl of Some t \<Rightarrow> js_int t | None \<Rightarrow> NaN),
      S '' seconds'']"

definition isRunCancelled :: "pipeline_db \<Rightarrow> string \<Rightarrow> bool" where
  "isRunCancelled db runId = (map_option pr_status (getRun db runId) = Some Run_cancelled)"

text \<open>A deadline of 0 counts as none.\<close>

definition getRunInterruption ::
  "int \<Rightarrow> pipeline_db \<Rightarrow> string \<Rightarrow> pipeline_definition \<Rightarrow> int option \<Rightarrow> interruption option" where
  "getRunInterruption now db runId pl deadline =
     (case getRun db runId of
        None \<Rightarrow> Some Cancelled
      | Some run \<Rightarrow>
          if pr_status run = Run_cancelled then Some Cancelled
          else
            case deadline of
              None \<Rightarrow> None
            | Some d \<Rightarrow> if d \<noteq> 0 \<and> d \<le> now then Some (Timeout (pipelineTimeoutMessage pl)) else None)"

definition no_run_update :: run_update where
  "no_run_update = \<lparr>ru_status = None, ru_context = None, ru_error = None, ru_startedAt = None,
                    ru_completedAt = None\<rparr>"

definition failRunForTimeout :: "int \<Rightarrow> string \<Rightarrow> msg \<Rightarrow> pipeline_db \<Rightarrow> pipeline_db" where
  "failRunForTimeout now runId m db =
     (case getRun db runId of
        None \<Rightarrow> db
      | Some run \<Rightarrow>
          if pr_status run = Run_cancelled then db
          else snd (updateRun (secs now) runId
                 (no_run_update\<lparr>ru_status := Some Run_failed, ru_error := Some (Some m),
                                ru_completedAt := Some (Some (secs now))\<rparr>)
                 (markTimedOutSteps (secs now) runId m db)))"

section \<open>Executing a step\<close>

definition step_strategy :: "pipeline_definition \<Rightarrow> pipeline_step \<Rightarrow> error_strategy" where
  "step_strategy pl step = nullish (s_errorStrategy step) (pd_errorStrategy pl)"

definition max_attempts :: "pipeline_definition \<Rightarrow> pipeline_step \<Rightarrow> nat" where
  "max_attempts pl step =
     (if step_strategy pl step = Retry then nullish (s_retryCount step) (pd_maxRetries pl) else 0) + 1"

definition cancelledResult :: "pipeline_definition \<Rightarrow> pipeline_step \<Rightarrow> step_result" where
  "cancelledResult pl step =
     \<lparr>sr_step = step, sr_outputValue = JNull, sr_failed = True, sr_cancelled = True,
      sr_error = Some [S ''Pipeline run cancelled''], sr_strategy = step_strategy pl step\<rparr>"

definition resolveStepTimeoutSeconds :: "int \<Rightarrow> pipeline_step \<Rightarrow> int option \<Rightarrow> js_num option" where
  "resolveStepTimeoutSeconds now step deadline =
     (let own = (case s_timeoutSeconds step of
                   Some t \<Rightarrow> if 0 < t then Some (js_int (int t)) else None | None \<Rightarrow> None);
          left = (case deadline of
                    None \<Rightarrow> None
                  | Some d \<Rightarrow>
                      if d = 0 then None
                      else let s = js_div (js_int (d - now)) (js_int 1000)
                           in Some (if js_lt s (Num 0) then Num 0 else s))
      in case (own, left) of
           (Some a, Some b) \<Rightarrow> Some (if js_lt b a then b else a)
         | (Some a, None) \<Rightarrow> Some a
         | (None, b) \<Rightarrow> b)"

definition formatSeconds :: "js_num \<Rightarrow> piece" where
  "formatSeconds n = (case n of Num a \<Rightarrow> if of_int \<lfloor>a\<rfloor> = a then N n else Trimmed 3 n | _ \<Rightarrow> Trimmed 3 n)"

definition stepTimeoutMessage :: "pipeline_step \<Rightarrow> js_num \<Rightarrow> msg" where
  "stepTimeoutMessage step t =
     [S (''Pipeline step '' @ QUOTE @ s_id step @ QUOTE @ '' timed out after ''), formatSeconds t, S '' seconds'']"

text \<open>An attempt up to its await. It notes the step as running and hands it over.\<close>

definition begin_attempt ::
  "executor_env \<Rightarrow> int \<Rightarrow> string \<Rightarrow> int option \<Rightarrow> pipeline_context \<Rightarrow> pipeline_step \<Rightarrow> int \<Rightarrow> nat \<Rightarrow>
   msg option \<Rightarrow> pipeline_db \<Rightarrow> step_wait \<times> pipeline_db" where
  "begin_attempt env now runId deadline context step startedAt attempt lastError db =
     (let db1 = snd (updateStep (secs now) runId (s_id step)
            (no_update\<lparr>su_status := Some Step_running, su_inputContext := Some (Some context),
                       su_attempts := Some attempt, su_startedAt := Some (Some startedAt),
                       su_error := Some lastError\<rparr>) db);
          (d, db2) = dispatchStep env now runId step (interpolateAction env (s_action step) context) db1
      in (\<lparr>sw_step = step, sw_attempt = attempt, sw_startedAt = startedAt, sw_context = context,
           sw_dispatched = d, sw_timeout = resolveStepTimeoutSeconds now step deadline\<rparr>, db2))"

text \<open>After the last attempt.\<close>

definition fail_step ::
  "int \<Rightarrow> string \<Rightarrow> pipeline_definition \<Rightarrow> pipeline_step \<Rightarrow> msg \<Rightarrow> pipeline_db \<Rightarrow> step_result \<times> pipeline_db" where
  "fail_step now runId pl step lastError db =
     (if isRunCancelled db runId then (cancelledResult pl step, db)
      else
        (\<lparr>sr_step = step, sr_outputValue = JNull, sr_failed = True, sr_cancelled = False,
          sr_error = Some lastError, sr_strategy = step_strategy pl step\<rparr>,
         snd (updateStep (secs now) runId (s_id step)
           (no_update\<lparr>su_status := Some Step_failed, su_error := Some (Some lastError),
                      su_attempts := Some (max_attempts pl step),
                      su_completedAt := Some (Some (secs now))\<rparr>) db)))"

text \<open>An attempt has an outcome: None when the wait ended because the run was cancelled.\<close>

definition step_outcome ::
  "executor_env \<Rightarrow> int \<Rightarrow> string \<Rightarrow> pipeline_definition \<Rightarrow> int option \<Rightarrow> step_wait \<Rightarrow> (msg + json) option \<Rightarrow>
   pipeline_db \<Rightarrow> step_job \<times> pipeline_db \<times> string list" where
  "step_outcome env now runId pl deadline w outcome db =
     (let step = sw_step w in
      case outcome of
        None \<Rightarrow> (Finished (cancelledResult pl step), db, [])
      | Some (Inr value) \<Rightarrow>
          if isRunCancelled db runId then (Finished (cancelledResult pl step), db, [])
          else
            (Finished \<lparr>sr_step = step, sr_outputValue = value, sr_failed = False, sr_cancelled = False,
                       sr_error = None, sr_strategy = step_strategy pl step\<rparr>,
             snd (updateStep (secs now) runId (s_id step)
               (no_update\<lparr>su_status := Some Step_completed, su_outputValue := Some value,
                          su_error := Some None, su_attempts := Some (sw_attempt w),
                          su_completedAt := Some (Some (secs now))\<rparr>) db), [])
      | Some (Inl m) \<Rightarrow>
          if isRunCancelled db runId then (Finished (cancelledResult pl step), db, [])
          else
            case getRunInterruption now db runId pl deadline of
              Some (Timeout tm) \<Rightarrow> (let (r, db') = fail_step now runId pl step tm db in (Finished r, db', []))
            | _ \<Rightarrow>
                if sw_attempt w < max_attempts pl step then
                  let (w', db') = begin_attempt env now runId deadline (sw_context w) step (sw_startedAt w)
                        (sw_attempt w + 1) (Some m) db
                  in (Waiting w', db', [s_id step])
                else (let (r, db') = fail_step now runId pl step m db in (Finished r, db', [])))"

section \<open>Executing a run\<close>

fun begin_steps ::
  "executor_env \<Rightarrow> int \<Rightarrow> string \<Rightarrow> int option \<Rightarrow> pipeline_context \<Rightarrow> pipeline_step list \<Rightarrow> pipeline_db \<Rightarrow>
   step_job list \<times> pipeline_db" where
  "begin_steps env now runId deadline context [] db = ([], db)"
| "begin_steps env now runId deadline context (step # steps) db =
     (let (w, db1) = begin_attempt env now runId deadline context step (secs now) 1 None db;
          (js, db2) = begin_steps env now runId deadline context steps db1
      in (Waiting w # js, db2))"

text \<open>The head of the loop over the levels, and what follows the loop.\<close>

definition enter_level ::
  "executor_env \<Rightarrow> int \<Rightarrow> string \<Rightarrow> pipeline_definition \<Rightarrow> pipeline_step list list \<Rightarrow> pipeline_context \<Rightarrow> px \<Rightarrow> px" where
  "enter_level env now runId pl levels context w =
     (case getRunInterruption now (px_db w) runId pl (px_deadline w) of
        Some Cancelled \<Rightarrow> w\<lparr>px_main := Returned\<rparr>
      | Some (Timeout m) \<Rightarrow> w\<lparr>px_db := failRunForTimeout now runId m (px_db w), px_main := Returned\<rparr>
      | None \<Rightarrow>
          (case levels of
             [] \<Rightarrow> w\<lparr>px_db := snd (updateRun (secs now) runId
                         (no_run_update\<lparr>ru_status := Some Run_completed, ru_context := Some context,
                                        ru_error := Some None, ru_completedAt := Some (Some (secs now))\<rparr>)
                         (px_db w)),
                      px_main := Returned\<rparr>
           | level # rest \<Rightarrow>
               let (js, db) = begin_steps env now runId (px_deadline w) context level (px_db w)
               in w\<lparr>px_db := db, px_jobs := js, px_main := Awaiting rest context,
                    px_begun := px_begun w @ map s_id level\<rparr>))"

fun results :: "step_job list \<Rightarrow> step_result list option" where
  "results [] = Some []"
| "results (Waiting _ # js) = None"
| "results (Finished r # js) = map_option (Cons r) (results js)"

text \<open>\<open>{ ...context, [outputName]: outputValue }\<close> for every step that did not fail.\<close>

fun add_outputs :: "pipeline_context \<Rightarrow> step_result list \<Rightarrow> pipeline_context" where
  "add_outputs context [] = context"
| "add_outputs context (r # rs) =
     add_outputs (if sr_failed r then context else spread1 context (s_output (sr_step r), sr_outputValue r)) rs"

definition blocking :: "step_result \<Rightarrow> bool" where
  "blocking r = (sr_failed r \<and> sr_strategy r \<noteq> Continue)"

text \<open>All steps of a level have ended.\<close>

definition level_done ::
  "executor_env \<Rightarrow> int \<Rightarrow> string \<Rightarrow> pipeline_definition \<Rightarrow> pipeline_step list list \<Rightarrow> pipeline_context \<Rightarrow>
   step_result list \<Rightarrow> px \<Rightarrow> px" where
  "level_done env now runId pl rest context rs w =
     (case getRunInterruption now (px_db w) runId pl (px_deadline w) of
        Some Cancelled \<Rightarrow> w\<lparr>px_main := Returned\<rparr>
      | Some (Timeout m) \<Rightarrow> w\<lparr>px_db := failRunForTimeout now runId m (px_db w), px_main := Returned\<rparr>
      | None \<Rightarrow>
          if list_ex sr_cancelled rs then w\<lparr>px_main := Returned\<rparr>
          else
            let context' = add_outputs context rs;
                db = snd (updateRun (secs now) runId (no_run_update\<lparr>ru_context := Some context'\<rparr>) (px_db w))
            in (case find blocking rs of
                  Some r \<Rightarrow>
                    w\<lparr>px_db := snd (updateRun (secs now) runId
                          (no_run_update\<lparr>ru_status := Some Run_failed, ru_error := Some (sr_error r),
                                         ru_completedAt := Some (Some (secs now))\<rparr>)
                          (markPendingStepsSkipped (secs now) runId [S ''Skipped after pipeline failure''] db)),
                      px_main := Returned\<rparr>
                | None \<Rightarrow> enter_level env now runId pl rest context' (w\<lparr>px_db := db\<rparr>)))"

text \<open>\<open>executeRun\<close> rejects: the handler that \<open>start\<close> has installed.\<close>

definition run_threw :: "int \<Rightarrow> string \<Rightarrow> msg \<Rightarrow> px \<Rightarrow> px" where
  "run_threw now runId m w =
     w\<lparr>px_db := (if isRunCancelled (px_db w) runId then px_db w
                 else snd (updateRun (secs now) runId
                   (no_run_update\<lparr>ru_status := Some Run_failed, ru_error := Some (Some m),
                                  ru_completedAt := Some (Some (secs now))\<rparr>) (px_db w))),
       px_main := Threw m\<rparr>"

text \<open>The timer around a level fires before all its steps have ended; the steps go on by themselves.\<close>

definition level_timeout :: "int \<Rightarrow> string \<Rightarrow> pipeline_definition \<Rightarrow> px \<Rightarrow> px" where
  "level_timeout now runId pl w =
     (case getRunInterruption now (px_db w) runId pl (px_deadline w) of
        Some Cancelled \<Rightarrow> w\<lparr>px_main := Returned\<rparr>
      | Some (Timeout m) \<Rightarrow> w\<lparr>px_db := failRunForTimeout now runId m (px_db w), px_main := Returned\<rparr>
      | None \<Rightarrow> run_threw now runId (pipelineTimeoutMessage pl) w)"

fun join_strings :: "string \<Rightarrow> string list \<Rightarrow> string" where
  "join_strings sep [] = []"
| "join_strings sep [x] = x"
| "join_strings sep (x # xs) = x @ sep @ join_strings sep xs"

definition resolve_message :: "resolve_error \<Rightarrow> msg" where
  "resolve_message e =
     (case e of
        Duplicate_step i \<Rightarrow> [S (''Duplicate pipeline step id '' @ QUOTE @ i @ QUOTE)]
      | Self_dependency i \<Rightarrow> [S (''Pipeline step '' @ QUOTE @ i @ QUOTE @ '' cannot depend on itself'')]
      | Unknown_dependency i d \<Rightarrow>
          [S (''Pipeline step '' @ QUOTE @ i @ QUOTE @ '' depends on unknown step '' @ QUOTE @ d @ QUOTE)]
      | Cycle_near ids \<Rightarrow>
          [S (''Pipeline steps must form a DAG; cycle detected near: '' @ join_strings '', '' ids)])"

text \<open>\<open>executeRun\<close> up to its first await, on a run that was just created.\<close>

definition executeRun ::
  "executor_env \<Rightarrow> int \<Rightarrow> pipeline_definition \<Rightarrow> string \<Rightarrow> pipeline_db \<Rightarrow> px" where
  "executeRun env now pl runId db =
     (let w = \<lparr>px_db = db, px_deadline = None, px_jobs = [], px_main = Returned, px_begun = []\<rparr> in
      case resolvePipelineSteps (pd_steps pl) of
        Inl e \<Rightarrow> run_threw now runId (resolve_message e) w
      | Inr resolution \<Rightarrow>
          (case getRun db runId of
             None \<Rightarrow> run_threw now runId [S (''Pipeline run not found: '' @ runId)] w
           | Some run \<Rightarrow>
               if pr_status run = Run_cancelled then w
               else
                 let db1 = snd (updateRun (secs now) runId
                       (no_run_update\<lparr>ru_status := Some Run_running, ru_startedAt := Some (Some (secs now))\<rparr>) db);
                     deadline = (case pd_timeoutSeconds pl of
                                   Some t \<Rightarrow> if 0 < t then Some (now + t * 1000) else None | None \<Rightarrow> None)
                 in enter_level env now runId pl (r_levels resolution) (pr_context run)
                      (w\<lparr>px_db := db1, px_deadline := deadline\<rparr>)))"

definition start_run ::
  "executor_env \<Rightarrow> string \<Rightarrow> int \<Rightarrow> pipeline_definition \<Rightarrow> pipeline_context option \<Rightarrow> error_strategy option \<Rightarrow>
   pipeline_db \<Rightarrow> pipeline_error + pipeline_run \<times> px" where
  "start_run env runId now pl inputContext strategy db =
     (case createRun runId (secs now) pl inputContext strategy db of
        (Inl e, _) \<Rightarrow> Inl e
      | (Inr run, db') \<Rightarrow> Inr (run, executeRun env now pl runId db'))"

section \<open>Events\<close>

datatype px_event =
    E_reply nat int reply
  | E_step_timer nat int
  | E_cancel_poll nat int
  | E_level_timer int
  | E_go_on int
  | E_store run_call

text \<open>
  What ends a wait. A timeout of 0 has rejected at once, so no other answer counts; the poll only
  rejects when the run is cancelled.
\<close>

definition wait_over :: "string \<Rightarrow> pipeline_db \<Rightarrow> step_wait \<Rightarrow> px_event \<Rightarrow> (msg + json) option option" where
  "wait_over runId db w e =
     (let step = sw_step w;
          timed_out = map_option (\<lambda>t. Some (Inl (stepTimeoutMessage step t))) (sw_timeout w) in
      case e of
        E_reply _ _ r \<Rightarrow>
          (case sw_timeout w of
             Some t \<Rightarrow> if js_le t (Num 0) then timed_out else map_option Some (settle step (sw_dispatched w) r)
           | None \<Rightarrow> map_option Some (settle step (sw_dispatched w) r))
      | E_step_timer _ _ \<Rightarrow> timed_out
      | E_cancel_poll _ _ \<Rightarrow> if isRunCancelled db runId then Some None else None
      | _ \<Rightarrow> None)"

definition step_event ::
  "executor_env \<Rightarrow> string \<Rightarrow> pipeline_definition \<Rightarrow> nat \<Rightarrow> int \<Rightarrow> px_event \<Rightarrow> px \<Rightarrow> px" where
  "step_event env runId pl i now e w =
     (if i < length (px_jobs w) then
        (case px_jobs w ! i of
           Finished _ \<Rightarrow> w
         | Waiting sw \<Rightarrow>
             (case wait_over runId (px_db w) sw e of
                None \<Rightarrow> w
              | Some outcome \<Rightarrow>
                  let (j, db, begun) = step_outcome env now runId pl (px_deadline w) sw outcome (px_db w)
                  in w\<lparr>px_db := db, px_jobs := (px_jobs w)[i := j], px_begun := px_begun w @ begun\<rparr>))
      else w)"

fun px_step :: "executor_env \<Rightarrow> string \<Rightarrow> pipeline_definition \<Rightarrow> px_event \<Rightarrow> px \<Rightarrow> px" where
  "px_step env runId pl (E_reply i now r) w = step_event env runId pl i now (E_reply i now r) w"
| "px_step env runId pl (E_step_timer i now) w = step_event env runId pl i now (E_step_timer i now) w"
| "px_step env runId pl (E_cancel_poll i now) w = step_event env runId pl i now (E_cancel_poll i now) w"
| "px_step env runId pl (E_level_timer now) w =
     (case px_main w of
        Awaiting _ _ \<Rightarrow> if px_deadline w = None then w else level_timeout now runId pl w
      | _ \<Rightarrow> w)"
| "px_step env runId pl (E_go_on now) w =
     (case px_main w of
        Awaiting rest context \<Rightarrow>
          (case results (px_jobs w) of
             None \<Rightarrow> w
           | Some rs \<Rightarrow> level_done env now runId pl rest context rs w)
      | _ \<Rightarrow> w)"
| "px_step env runId pl (E_store c) w = w\<lparr>px_db := run_exec c (px_db w)\<rparr>"

definition px_run ::
  "string \<Rightarrow> pipeline_definition \<Rightarrow> (executor_env \<times> px_event) list \<Rightarrow> px \<Rightarrow> px" where
  "px_run runId pl evs w = fold (\<lambda>(env, e). px_step env runId pl e) evs w"

end
