(* ===== verification/PipelineExecution.thy ===== *)
theory PipelineExecution
  imports PipelineExecutor
begin

text \<open>
  What the executor of pipelines guarantees, whatever the agents answer, whichever timers fire, and
  whatever else is done with the store meanwhile: the order of the steps, the state a run ends in, that
  it ends, and that a cancelled run does nothing more.
\<close>

section \<open>The view of a run\<close>

text \<open>Of the database only the status of the run and of its steps matters.\<close>

definition run_state :: "pipeline_db \<Rightarrow> string \<Rightarrow> run_status option" where
  "run_state db runId = map_option pr_status (getRun db runId)"

definition row_status :: "pipeline_db \<Rightarrow> string \<Rightarrow> string \<Rightarrow> step_status option" where
  "row_status db runId stepId = map_option rs_status (find_step db runId stepId)"

definition same_view :: "string \<Rightarrow> pipeline_db \<Rightarrow> pipeline_db \<Rightarrow> bool" where
  "same_view runId db db' = (run_state db' runId = run_state db runId \<and> row_status db' runId = row_status db runId)"

definition run_ended :: "pipeline_db \<Rightarrow> string \<Rightarrow> bool" where
  "run_ended db runId = (case run_state db runId of None \<Rightarrow> False | Some s \<Rightarrow> isTerminalRunStatus s)"

lemma same_view_refl [simp]: "same_view runId db db"
  by (simp add: same_view_def)

lemma same_view_trans: "same_view runId a b \<Longrightarrow> same_view runId b c \<Longrightarrow> same_view runId a c"
  by (simp add: same_view_def)

lemma terminal_simps [simp]:
  "isTerminalRunStatus Run_completed" "isTerminalRunStatus Run_failed" "isTerminalRunStatus Run_cancelled"
  "\<not> isTerminalRunStatus Run_running" "\<not> isTerminalRunStatus Run_pending"
  by (simp_all add: isTerminalRunStatus_def TERMINAL_RUN_STATUSES_def)

lemma isRunCancelled_state: "isRunCancelled db runId \<longleftrightarrow> run_state db runId = Some Run_cancelled"
  by (simp add: isRunCancelled_def run_state_def)

text \<open>Updates of the run.\<close>

lemma run_state_updateRun:
  "run_state (snd (updateRun now runId data db)) runId =
     map_option (\<lambda>s. if isTerminalRunStatus s then s else nullish (ru_status data) s) (run_state db runId)"
  by (auto simp: run_state_def updateRun_def getRun_def Let_def sql_get_update updateRun_set_def split: option.split)

lemma row_status_updateRun: "row_status (snd (updateRun now k data db)) runId = row_status db runId"
  by (auto simp: row_status_def find_step_def getRunSteps_def updateRun_def Let_def fun_eq_iff split: option.split)

text \<open>Updates of rows of steps, row by row.\<close>

lemma find_map_if:
  assumes "\<And>r. p r \<Longrightarrow> rs_stepId (f r) = rs_stepId r \<and> rs_runId (f r) = rs_runId r"
  shows "find (\<lambda>r. rs_stepId r = i) (filter (\<lambda>r. rs_runId r = k) (sql_update_where p f rows)) =
         map_option (\<lambda>r. if p r then f r else r) (find (\<lambda>r. rs_stepId r = i) (filter (\<lambda>r. rs_runId r = k) rows))"
  using assms by (induction rows) (auto simp: sql_update_where_def)

lemma find_step_update:
  assumes "\<And>r. p r \<Longrightarrow> rs_stepId (f r) = rs_stepId r \<and> rs_runId (f r) = rs_runId r"
  shows "find_step (db\<lparr>pipeline_run_steps := sql_update_where p f (pipeline_run_steps db)\<rparr>) runId i =
         map_option (\<lambda>r. if p r then f r else r) (find_step db runId i)"
  using find_map_if [OF assms] by (simp add: find_step_def getRunSteps_def)

lemma run_state_steps [simp]: "run_state (db\<lparr>pipeline_run_steps := rows\<rparr>) runId = run_state db runId"
  by (simp add: run_state_def getRun_def)

lemma find_stepD: "find_step db runId i = Some r \<Longrightarrow> rs_stepId r = i \<and> rs_runId r = runId"
  by (auto simp: find_step_def getRunSteps_def find_Some_iff dest!: nth_mem)

lemma run_state_updateStep [simp]: "run_state (snd (updateStep now k i data db)) runId = run_state db runId"
  by (auto simp: updateStep_def Let_def split: option.split)

lemma row_status_updateStep:
  "row_status (snd (updateStep now runId i data db)) runId =
     (if run_ended db runId then row_status db runId
      else (row_status db runId)(i := map_option (nullish (su_status data)) (row_status db runId i)))"
proof -
  have ended: "(case getRun db runId of Some run \<Rightarrow> isTerminalRunStatus (pr_status run) | None \<Rightarrow> False) =
      run_ended db runId"
    by (simp add: run_ended_def run_state_def split: option.split)
  show ?thesis
  proof (cases "run_ended db runId \<or> find_step db runId i = None")
    case True
    then show ?thesis
      by (auto simp: updateStep_def ended row_status_def fun_eq_iff)
  next
    case False
    then obtain e where e: "find_step db runId i = Some e" by auto
    have "find_step (snd (updateStep now runId i data db)) runId k =
        map_option (\<lambda>r. if rs_runId r = runId \<and> rs_stepId r = i then updateStep_set data e now r else r)
          (find_step db runId k)" for k
      using False e unfolding updateStep_def ended
      by (simp add: Let_def) (subst find_step_update; simp add: updateStep_set_def)
    then show ?thesis
      using False e find_stepD by (auto simp: row_status_def fun_eq_iff updateStep_set_def option.map_comp
          split: option.split intro!: map_option_cong)
  qed
qed

lemma row_status_finish:
  "row_status (finish_steps now runId old new reason db) runId =
     (\<lambda>i. map_option (\<lambda>s. if s = old then new else s) (row_status db runId i))"
proof
  fix i
  have "find_step (finish_steps now runId old new reason db) runId i =
      map_option (\<lambda>r. if rs_runId r = runId \<and> rs_status r = old
        then r\<lparr>rs_status := new, rs_error := Some reason, rs_completedAt := Some now, rs_updatedAt := now\<rparr> else r)
        (find_step db runId i)"
    unfolding finish_steps_def by (rule find_step_update) simp
  then show "row_status (finish_steps now runId old new reason db) runId i =
      map_option (\<lambda>s. if s = old then new else s) (row_status db runId i)"
    using find_stepD [of db runId i] by (cases "find_step db runId i") (auto simp: row_status_def)
qed

lemma run_state_finish [simp]: "run_state (finish_steps now k old new reason db) runId = run_state db runId"
  by (simp add: finish_steps_def)

text \<open>Both together; a name for the view of a status update of a step.\<close>

definition put :: "(string \<Rightarrow> step_status option) \<Rightarrow> string \<Rightarrow> step_status \<Rightarrow> string \<Rightarrow> step_status option" where
  "put row i s = row(i := map_option (\<lambda>_. s) (row i))"

lemma put_simps:
  "put row i s k = (if k = i then map_option (\<lambda>_. s) (row i) else row k)"
  by (simp add: put_def)

lemma run_ended_updateStep [simp]: "run_ended (snd (updateStep now k i data db)) runId = run_ended db runId"
  by (simp add: run_ended_def)

lemma nullish_fun: "nullish None = (\<lambda>d. d)" "nullish (Some x) = (\<lambda>d. x)"
  by (simp_all add: fun_eq_iff)

lemma dispatchStep_view [simp]:
  "run_state (snd (dispatchStep env now runId step action db)) runId = run_state db runId"
  "row_status (snd (dispatchStep env now runId step action db)) runId = row_status db runId"
  by (auto simp: dispatchStep_def Let_def row_status_updateStep no_update_def nullish_fun map_option.identity
      split: option.split sum.split)

lemma begin_attempt_view:
  "run_state (snd (begin_attempt env now runId dl ctx step st att err db)) runId = run_state db runId"
  "row_status (snd (begin_attempt env now runId dl ctx step st att err db)) runId =
     (if run_ended db runId then row_status db runId else put (row_status db runId) (s_id step) Step_running)"
  by (simp_all add: begin_attempt_def Let_def split_beta row_status_updateStep no_update_def put_def nullish_fun)

lemma begin_attempt_wait [simp]:
  "sw_step (fst (begin_attempt env now runId dl ctx step st att err db)) = step"
  "sw_attempt (fst (begin_attempt env now runId dl ctx step st att err db)) = att"
  by (simp_all add: begin_attempt_def Let_def split_beta)

section \<open>The rows of one pipeline\<close>

text \<open>The run and its rows belong to the pipeline, so that deleting another pipeline leaves them alone.\<close>

definition home :: "string \<Rightarrow> string \<Rightarrow> pipeline_db \<Rightarrow> bool" where
  "home runId P db =
     (list_all (\<lambda>(k, q). k = runId \<longrightarrow> q = P) (map (\<lambda>r. (pr_id r, pr_pipelineId r)) (pipeline_runs db)) \<and>
      list_all (\<lambda>(k, q). k = runId \<longrightarrow> q = P) (map (\<lambda>r. (rs_runId r, rs_pipelineId r)) (pipeline_run_steps db)))"

lemma map_update_where: "(\<And>r. g (f r) = g r) \<Longrightarrow> map g (sql_update_where p f rows) = map g rows"
  by (induction rows) (simp_all add: sql_update_where_def)

lemma home_updateRun [simp]: "home runId P (snd (updateRun now k data db)) = home runId P db"
proof -
  have "map (\<lambda>r. (pr_id r, pr_pipelineId r)) (sql_update pr_id k (updateRun_set data e now) rows) =
        map (\<lambda>r. (pr_id r, pr_pipelineId r)) rows" for e rows
    unfolding sql_update_def by (rule map_update_where) (simp add: updateRun_set_def)
  then show ?thesis
    by (simp add: updateRun_def Let_def home_def del: list.map_comp list.pred_map split: option.split)
qed

lemma home_updateStep [simp]: "home runId P (snd (updateStep now k i data db)) = home runId P db"
proof -
  have "map (\<lambda>r. (rs_runId r, rs_pipelineId r)) (sql_update_where p (updateStep_set data e now) rows) =
        map (\<lambda>r. (rs_runId r, rs_pipelineId r)) rows" for p e rows
    by (rule map_update_where) (simp add: updateStep_set_def)
  then show ?thesis
    by (simp add: updateStep_def Let_def home_def del: list.map_comp list.pred_map split: option.split)
qed

lemma home_finish [simp]: "home runId P (finish_steps now k old new reason db) = home runId P db"
  by (simp add: finish_steps_def home_def map_update_where del: list.map_comp list.pred_map)

lemma home_dispatchStep [simp]: "home runId P (snd (dispatchStep env now k step action db)) = home runId P db"
  by (simp add: dispatchStep_def Let_def split: option.split sum.split)

lemma home_begin_attempt [simp]:
  "home runId P (snd (begin_attempt env now k dl ctx step st att err db)) = home runId P db"
  by (simp add: begin_attempt_def Let_def split_beta)

lemma home_failRun [simp]: "home runId P (failRunForTimeout now k m db) = home runId P db"
  by (simp add: failRunForTimeout_def markTimedOutSteps_def split: option.split)

lemma home_fail_step [simp]: "home runId P (snd (fail_step now k pl step err db)) = home runId P db"
  by (simp add: fail_step_def)

lemma home_step_outcome [simp]:
  "home runId P (fst (snd (step_outcome env now k pl dl sw out db))) = home runId P db"
  by (simp add: step_outcome_def Let_def split_beta split: option.split sum.split interruption.split)

lemma home_begin_steps [simp]:
  "home runId P (snd (begin_steps env now k dl ctx steps db)) = home runId P db"
  by (induction steps arbitrary: db) (simp_all add: Let_def split_beta)

section \<open>Beginning the steps of a level\<close>

lemma begin_steps_view:
  "run_state (snd (begin_steps env now runId dl ctx steps db)) runId = run_state db runId"
  "row_status (snd (begin_steps env now runId dl ctx steps db)) runId i =
     (if run_ended db runId \<or> i \<notin> s_id ` set steps then row_status db runId i
      else map_option (\<lambda>_. Step_running) (row_status db runId i))"
proof (induction steps arbitrary: db)
  case Nil
  case 1 show ?case by simp
  case 2 show ?case by simp
next
  case (Cons s steps)
  case 1 show ?case using Cons by (simp add: Let_def split_beta begin_attempt_view)
  case 2 show ?case
    using Cons by (auto simp: Let_def split_beta begin_attempt_view put_simps run_ended_def option.map_comp comp_def)
qed

definition job_step :: "step_job \<Rightarrow> pipeline_step" where
  "job_step j = (case j of Waiting w \<Rightarrow> sw_step w | Finished r \<Rightarrow> sr_step r)"

lemma job_step_simps [simp]: "job_step (Waiting w) = sw_step w" "job_step (Finished r) = sr_step r"
  by (simp_all add: job_step_def)

definition is_waiting :: "nat \<Rightarrow> step_job \<Rightarrow> bool" where
  "is_waiting n j = (case j of Waiting w \<Rightarrow> sw_attempt w = n | Finished _ \<Rightarrow> False)"

lemma begin_steps_jobs:
  "map job_step (fst (begin_steps env now runId dl ctx steps db)) = steps"
  "list_all (is_waiting 1) (fst (begin_steps env now runId dl ctx steps db))"
  by (induction steps arbitrary: db) (simp_all add: Let_def split_beta is_waiting_def)

section \<open>The other calls of the store\<close>

text \<open>Nobody else creates, updates or marks this run, but anybody may cancel it or delete its pipeline.\<close>

fun foreign :: "string \<Rightarrow> run_call \<Rightarrow> bool" where
  "foreign runId (C_create k now p ctx st) = (k \<noteq> runId)"
| "foreign runId (C_update_run now k data) = (k \<noteq> runId)"
| "foreign runId (C_update_step now k i data) = (k \<noteq> runId)"
| "foreign runId (C_skip now k reason) = (k \<noteq> runId)"
| "foreign runId (C_time_out now k reason) = (k \<noteq> runId)"
| "foreign runId _ = True"

lemma getRun_updateRun_other: "k \<noteq> runId \<Longrightarrow> getRun (snd (updateRun now k data db)) runId = getRun db runId"
  by (simp add: updateRun_def getRun_def Let_def sql_get_update updateRun_set_def split: option.split)

lemma other_rows:
  "k \<noteq> runId \<Longrightarrow> (\<And>r. p r \<Longrightarrow> rs_runId r = k) \<Longrightarrow> (\<And>r. rs_runId (f r) = rs_runId r) \<Longrightarrow>
   filter (\<lambda>r. rs_runId r = runId) (sql_update_where p f rows) = filter (\<lambda>r. rs_runId r = runId) rows"
  by (rule filter_update_where) auto

lemma getRunSteps_updateStep_other:
  "k \<noteq> runId \<Longrightarrow> getRunSteps (snd (updateStep now k i data db)) runId = getRunSteps db runId"
  by (auto simp: updateStep_def getRunSteps_def Let_def updateStep_set_def split: option.split intro: other_rows)

lemma getRunSteps_cancelRun_other:
  "k \<noteq> runId \<Longrightarrow> getRunSteps (snd (cancelRun now pid k db)) runId = getRunSteps db runId"
  by (auto simp: cancelRun_def getRunSteps_def Let_def split: option.split intro!: other_rows)

lemma same_viewI:
  "run_state db' runId = run_state db runId \<Longrightarrow> getRunSteps db' runId = getRunSteps db runId \<Longrightarrow> same_view runId db db'"
  by (simp add: same_view_def row_status_def find_step_def fun_eq_iff)

text \<open>A cancellation.\<close>

definition cancelled_rows :: "(string \<Rightarrow> step_status option) \<Rightarrow> string \<Rightarrow> step_status option" where
  "cancelled_rows row i =
     map_option (\<lambda>s. if s \<in> {Step_pending, Step_running} then Step_cancelled else s) (row i)"

lemma cancelRun_view:
  "same_view runId db (snd (cancelRun now pid k db)) \<or>
   run_state (snd (cancelRun now pid k db)) runId = Some Run_cancelled \<and>
   row_status (snd (cancelRun now pid k db)) runId = cancelled_rows (row_status db runId)"
proof (cases "k = runId \<and> (\<exists>run. getRun db runId = Some run \<and> pr_pipelineId run = pid \<and>
    \<not> isTerminalRunStatus (pr_status run))")
  case True
  then obtain run where k: "k = runId" and run: "getRun db runId = Some run" "pr_pipelineId run = pid"
    "\<not> isTerminalRunStatus (pr_status run)" by blast
  let ?db = "snd (cancelRun now pid runId db)"
  let ?f = "\<lambda>r. r\<lparr>rs_status := Step_cancelled,
      rs_error := Some (nullish (rs_error r) [S ''Pipeline run cancelled'']), rs_updatedAt := now\<rparr>"
  let ?p = "\<lambda>r. rs_runId r = runId \<and> rs_status r \<in> {Step_pending, Step_running}"
  have "run_state ?db runId = Some Run_cancelled"
    using run by (simp add: cancelRun_def Let_def run_state_def getRun_def sql_get_update isTerminalRunStatus_def
        TERMINAL_RUN_STATUSES_def)
  moreover have "row_status ?db runId i = cancelled_rows (row_status db runId) i" for i
  proof -
    have "find_step ?db runId i = map_option (\<lambda>r. if ?p r then ?f r else r) (find_step db runId i)"
      using find_map_if [of ?p ?f] unfolding find_step_def getRunSteps_def cancelRun_open(1) [OF run] by simp
    then show ?thesis
      using find_stepD [of db runId i] by (cases "find_step db runId i") (auto simp: row_status_def cancelled_rows_def)
  qed
  ultimately show ?thesis using k by auto
next
  case False
  have "getRun (snd (cancelRun now pid k db)) runId = getRun db runId"
    using False by (auto simp: cancelRun_def Let_def getRun_def sql_get_update isTerminalRunStatus_def
        TERMINAL_RUN_STATUSES_def split: option.split)
  moreover have "getRunSteps (snd (cancelRun now pid k db)) runId = getRunSteps db runId"
  proof (cases "k = runId")
    case True
    then show ?thesis
      using False by (auto simp: cancelRun_def Let_def isTerminalRunStatus_def TERMINAL_RUN_STATUSES_def split: option.split)
  next
    case False
    then show ?thesis by (rule getRunSteps_cancelRun_other)
  qed
  ultimately show ?thesis by (simp add: same_viewI run_state_def)
qed

lemma home_iff:
  "home runId P db \<longleftrightarrow>
     (\<forall>r\<in>set (pipeline_runs db). pr_id r = runId \<longrightarrow> pr_pipelineId r = P) \<and>
     (\<forall>r\<in>set (pipeline_run_steps db). rs_runId r = runId \<longrightarrow> rs_pipelineId r = P)"
  by (simp add: home_def list_all_iff)

lemma home_cancelRun [simp]: "home runId P (snd (cancelRun now pid k db)) = home runId P db"
  by (simp add: cancelRun_def Let_def home_def sql_update_def map_update_where
      del: list.map_comp list.pred_map split: option.split)

lemma delete_other_view:
  assumes "home runId P db" and "pid \<noteq> P"
  shows "same_view runId db (snd (delete_pipeline pid db))"
proof (rule same_viewI)
  have keep: "pr_pipelineId r \<noteq> pid" if "r \<in> set (pipeline_runs db)" "pr_id r = runId" for r
    using assms that by (auto simp: home_iff)
  have "sql_get pr_id runId (sql_delete (\<lambda>r. pr_pipelineId r = pid) rows) = sql_get pr_id runId rows"
    if "set rows \<subseteq> set (pipeline_runs db)" for rows
    using that by (induction rows) (auto simp: sql_delete_def keep)
  then show "run_state (snd (delete_pipeline pid db)) runId = run_state db runId"
    by (simp add: run_state_def getRun_def delete_pipeline_def)
  show "getRunSteps (snd (delete_pipeline pid db)) runId = getRunSteps db runId"
    using assms keep by (auto simp: getRunSteps_def delete_pipeline_def sql_delete_def home_iff intro!: filter_cong)
qed

lemma delete_own_view:
  assumes "home runId P db"
  shows "run_state (snd (delete_pipeline P db)) runId = None"
proof -
  have "sql_get pr_id runId (sql_delete (\<lambda>r. pr_pipelineId r = P) (pipeline_runs db)) = None"
    using assms by (auto simp: sql_get_None_iff sql_delete_def home_iff)
  then show ?thesis by (simp add: run_state_def getRun_def delete_pipeline_def)
qed

lemma foreign_view:
  assumes "foreign runId c" and "home runId P db"
  shows "home runId P (run_exec c db) \<and>
    (same_view runId db (run_exec c db) \<or>
     run_state (run_exec c db) runId = Some Run_cancelled \<and>
       row_status (run_exec c db) runId = cancelled_rows (row_status db runId) \<or>
     run_state (run_exec c db) runId = None)"
proof (cases c)
  case (C_create k now p ctx st)
  then have "filter (\<lambda>r. rs_runId r = runId) (map (new_run_step k pid now) ss) = []" for pid now ss
    using assms(1) by (simp add: filter_empty_conv new_run_step_def)
  then show ?thesis
    using C_create assms
    by (auto simp: createRun_def Let_def run_state_def getRun_def getRunSteps_def home_iff new_run_step_def
        intro!: same_viewI split: option.splits)
next
  case (C_update_run now k data)
  then show ?thesis
    using assms getRun_updateRun_other [of k runId now data db]
    by (simp add: same_view_def row_status_updateRun run_state_def)
next
  case (C_update_step now k i data)
  then show ?thesis
    using assms getRunSteps_updateStep_other [of k runId now i data db] by (auto intro!: same_viewI)
next
  case (C_cancel now pid k)
  then show ?thesis using assms cancelRun_view [of runId db now pid k] by simp blast
next
  case (C_skip now k reason)
  then show ?thesis
    using assms by (auto simp: markPendingStepsSkipped_def finish_steps_other intro!: same_viewI)
next
  case (C_time_out now k reason)
  then show ?thesis
    using assms by (auto simp: markTimedOutSteps_def finish_steps_other intro!: same_viewI)
next
  case (C_create_pipeline conv pid now data)
  then show ?thesis
    using assms by (auto simp: create_pipeline_def Let_def run_state_def getRun_def getRunSteps_def home_iff
        intro!: same_viewI split: sum.split option.split)
next
  case (C_update_pipeline conv pid now data)
  then show ?thesis
    using assms by (auto simp: update_pipeline_def Let_def run_state_def getRun_def getRunSteps_def home_iff
        intro!: same_viewI split: sum.split option.split)
next
  case (C_delete_pipeline pid)
  have "home runId P (snd (delete_pipeline pid db))"
    using assms(2) by (auto simp: home_iff delete_pipeline_def sql_delete_def)
  then show ?thesis
    using C_delete_pipeline delete_own_view [OF assms(2)] delete_other_view [OF assms(2), of pid]
    by (cases "pid = P") simp_all
qed

section \<open>The invariant\<close>

definition passed :: "pipeline_definition \<Rightarrow> (string \<Rightarrow> step_status option) \<Rightarrow> pipeline_step \<Rightarrow> bool" where
  "passed pl row s =
     (row (s_id s) = Some Step_completed \<or> row (s_id s) = Some Step_failed \<and> step_strategy pl s = Continue)"

definition job_ok :: "pipeline_definition \<Rightarrow> (string \<Rightarrow> step_status option) \<Rightarrow> step_job \<Rightarrow> bool" where
  "job_ok pl row j =
     (case j of
        Waiting w \<Rightarrow> row (s_id (sw_step w)) = Some Step_running
      | Finished r \<Rightarrow> \<not> sr_cancelled r \<and> sr_strategy r = step_strategy pl (sr_step r) \<and>
          row (s_id (sr_step r)) = Some (if sr_failed r then Step_failed else Step_completed))"

definition settled :: "(string \<Rightarrow> step_status option) \<Rightarrow> bool" where
  "settled row = (\<forall>i. row i \<notin> {Some Step_pending, Some Step_running})"

text \<open>While a run is running: the levels before have passed, the levels behind have not begun.\<close>

definition in_progress ::
  "pipeline_definition \<Rightarrow> (string \<Rightarrow> step_status option) \<Rightarrow> pipeline_step list list \<Rightarrow> step_job list \<Rightarrow>
   pipeline_step list list \<Rightarrow> bool" where
  "in_progress pl row before jobs rest =
     ((\<forall>s\<in>set (concat before). passed pl row s) \<and> (\<forall>j\<in>set jobs. job_ok pl row j) \<and>
      (\<forall>s\<in>set (concat rest). row (s_id s) = Some Step_pending) \<and>
      (\<forall>i. row i \<noteq> None \<longrightarrow> i \<in> s_id ` set (concat before @ map job_step jobs @ concat rest)))"

text \<open>How a run may look when nothing of \<open>executeRun\<close> is left; None: the pipeline was deleted.\<close>

definition ended_well ::
  "pipeline_definition \<Rightarrow> pipeline_step list list \<Rightarrow> run_status option \<Rightarrow> (string \<Rightarrow> step_status option) \<Rightarrow> bool" where
  "ended_well pl levels st row =
     (case st of
        None \<Rightarrow> True
      | Some s \<Rightarrow> isTerminalRunStatus s \<and> settled row \<and>
          (s = Run_completed \<longrightarrow> (\<forall>x\<in>set (concat levels). passed pl row x)))"

definition awaiting_ok ::
  "pipeline_definition \<Rightarrow> run_status option \<Rightarrow> (string \<Rightarrow> step_status option) \<Rightarrow> pipeline_step list list \<Rightarrow>
   step_job list \<Rightarrow> pipeline_step list list \<Rightarrow> bool" where
  "awaiting_ok pl st row before jobs rest =
     (case st of
        None \<Rightarrow> True
      | Some s \<Rightarrow> s = Run_running \<and> in_progress pl row before jobs rest \<or> s = Run_cancelled \<and> settled row)"

definition px_inv :: "pipeline_step list list \<Rightarrow> string \<Rightarrow> pipeline_definition \<Rightarrow> px \<Rightarrow> bool" where
  "px_inv levels runId pl w =
     (home runId (pd_id pl) (px_db w) \<and>
      (let st = run_state (px_db w) runId; row = row_status (px_db w) runId in
       case px_main w of
         Awaiting rest ctx \<Rightarrow>
           (\<exists>before. levels = before @ map job_step (px_jobs w) # rest \<and> awaiting_ok pl st row before (px_jobs w) rest)
       | Returned \<Rightarrow> ended_well pl levels st row
       | Threw m \<Rightarrow> st \<in> {None, Some Run_failed, Some Run_cancelled} \<and> (st = Some Run_cancelled \<longrightarrow> settled row)))"

lemma settled_cancelled_rows: "settled (cancelled_rows row)"
  by (auto simp: settled_def cancelled_rows_def)

lemma settled_progress:
  assumes "in_progress pl row before jobs []" and "\<forall>j\<in>set jobs. \<exists>r. j = Finished r"
  shows "settled row"
proof -
  have "row i \<notin> {Some Step_pending, Some Step_running}" for i
  proof (cases "row i")
    case (Some st)
    then have "(\<exists>s\<in>set (concat before). i = s_id s) \<or> (\<exists>j\<in>set jobs. i = s_id (job_step j))"
      using assms(1) by (fastforce simp: in_progress_def)
    then show ?thesis
      using assms by (fastforce simp: in_progress_def passed_def job_ok_def split: if_splits)
  qed simp
  then show ?thesis by (simp add: settled_def)
qed

section \<open>Steps of a level\<close>

lemma run_ended_state: "run_state db runId = Some s \<Longrightarrow> run_ended db runId = isTerminalRunStatus s"
  by (simp add: run_ended_def)

lemma fail_step_view:
  "run_state (snd (fail_step now runId pl step err db)) runId = run_state db runId"
  "row_status (snd (fail_step now runId pl step err db)) runId =
     (if run_ended db runId then row_status db runId else put (row_status db runId) (s_id step) Step_failed)"
  "sr_step (fst (fail_step now runId pl step err db)) = step"
  by (simp_all add: fail_step_def row_status_updateStep no_update_def nullish_fun put_def isRunCancelled_state
      run_ended_def cancelledResult_def)

lemma step_outcome_view:
  "job_step (fst (step_outcome env now runId pl dl sw out db)) = sw_step sw"
  "run_state (fst (snd (step_outcome env now runId pl dl sw out db))) runId = run_state db runId"
  "run_ended db runId \<Longrightarrow>
   row_status (fst (snd (step_outcome env now runId pl dl sw out db))) runId = row_status db runId"
  by (auto simp: step_outcome_def Let_def split_beta cancelledResult_def fail_step_view begin_attempt_view
      row_status_updateStep split: option.split sum.split interruption.split)

lemma step_outcome_running:
  assumes "run_state db runId = Some Run_running" and "out \<noteq> None"
    and "row_status db runId (s_id (sw_step sw)) \<noteq> None"
  shows "\<exists>s. row_status (fst (snd (step_outcome env now runId pl dl sw out db))) runId =
             put (row_status db runId) (s_id (sw_step sw)) s \<and>
           job_ok pl (put (row_status db runId) (s_id (sw_step sw)) s) (fst (step_outcome env now runId pl dl sw out db))"
proof -
  have ended: "\<not> run_ended db runId" and canc: "\<not> isRunCancelled db runId"
    using assms(1) by (simp_all add: run_ended_def isRunCancelled_state)
  obtain st where st: "row_status db runId (s_id (sw_step sw)) = Some st" using assms(3) by blast
  have upd: "row_status (snd (updateStep n runId (s_id (sw_step sw)) data db)) runId =
      put (row_status db runId) (s_id (sw_step sw)) s" if "su_status data = Some s" for n data s
    using ended that by (simp add: row_status_updateStep put_def nullish_fun)
  have fail: "row_status (snd (fail_step now runId pl (sw_step sw) err db)) runId =
      put (row_status db runId) (s_id (sw_step sw)) Step_failed \<and>
      job_ok pl (put (row_status db runId) (s_id (sw_step sw)) Step_failed)
        (Finished (fst (fail_step now runId pl (sw_step sw) err db)))" for err
    using ended canc st by (simp add: fail_step_view) (simp add: fail_step_def job_ok_def put_simps)
  consider v where "out = Some (Inr v)" | m where "out = Some (Inl m)"
    using assms(2) by (metis option.exhaust sum.exhaust)
  then show ?thesis
  proof cases
    case 1
    then show ?thesis
      using canc st
      by (intro exI [of _ Step_completed]) (simp add: step_outcome_def Let_def upd no_update_def job_ok_def put_simps)
  next
    case (2 m)
    show ?thesis
    proof (cases "(\<exists>tm. getRunInterruption now db runId pl dl = Some (Timeout tm)) \<or>
        sw_attempt sw \<ge> max_attempts pl (sw_step sw)")
      case True
      then show ?thesis
        using 2 canc fail
        by (intro exI [of _ Step_failed])
           (auto simp: step_outcome_def Let_def split_beta split: option.split interruption.split)
    next
      case False
      then show ?thesis
        using 2 canc st ended
        by (intro exI [of _ Step_running])
           (auto simp: step_outcome_def Let_def split_beta begin_attempt_view job_ok_def put_simps
             split: option.split interruption.split)
    qed
  qed
qed

text \<open>One job of the level goes on.\<close>

lemma map_job_step_update:
  "job_step j = job_step (jobs ! i) \<Longrightarrow> map job_step (jobs[i := j]) = map job_step jobs"
  by (metis list_update_id map_update)

lemma job_ok_other: "k \<noteq> s_id (job_step j) \<Longrightarrow> job_ok pl (put row k s) j = job_ok pl row j"
  by (cases j) (simp_all add: job_ok_def put_simps)

lemma distinct_middle: "distinct (map f (xs @ ys @ zs)) \<Longrightarrow> f ` set (xs @ zs) \<inter> f ` set ys = {}"
  by auto

lemma in_progress_put:
  assumes prog: "in_progress pl row before jobs rest"
    and dist: "distinct (map s_id (concat (before @ map job_step jobs # rest)))"
    and i: "i < length jobs" and j: "job_step j = job_step (jobs ! i)"
    and ok: "job_ok pl (put row (s_id (job_step j)) st) j"
  shows "in_progress pl (put row (s_id (job_step j)) st) before (jobs[i := j]) rest"
proof -
  let ?k = "s_id (job_step j)"
  have k: "?k \<in> s_id ` set (map job_step jobs)" using i j by auto
  moreover have "s_id ` set (concat before @ concat rest) \<inter> s_id ` set (map job_step jobs) = {}"
    by (rule distinct_middle) (use dist in simp)
  ultimately have "s_id s \<noteq> ?k" if "s \<in> set (concat before) \<or> s \<in> set (concat rest)" for s
    using that by (metis IntI Un_iff emptyE imageI set_append)
  then have "\<forall>s\<in>set (concat before). passed pl (put row ?k st) s"
    and "\<forall>s\<in>set (concat rest). put row ?k st (s_id s) = Some Step_pending"
    using prog by (auto simp: in_progress_def passed_def put_simps)
  moreover have "\<forall>x\<in>set (jobs[i := j]). job_ok pl (put row ?k st) x"
  proof
    fix x assume "x \<in> set (jobs[i := j])"
    then obtain n where n: "n < length jobs" "x = jobs[i := j] ! n" by (auto simp: in_set_conv_nth)
    show "job_ok pl (put row ?k st) x"
    proof (cases "n = i")
      case True
      then show ?thesis using n ok by simp
    next
      case False
      have "distinct (map (\<lambda>j. s_id (job_step j)) jobs)" using dist by (simp add: comp_def)
      then have "?k \<noteq> s_id (job_step (jobs ! n))"
        using False n(1) i j by (simp add: distinct_conv_nth)
      then have "job_ok pl (put row ?k st) (jobs ! n) = job_ok pl row (jobs ! n)" by (rule job_ok_other)
      then show ?thesis using n False prog by (simp add: in_progress_def)
    qed
  qed
  moreover have "\<forall>x. put row ?k st x \<noteq> None \<longrightarrow> x \<in> s_id ` set (concat before @ map job_step (jobs[i := j]) @ concat rest)"
    using prog unfolding map_job_step_update [OF j] by (simp add: in_progress_def put_simps)
  ultimately show ?thesis by (simp add: in_progress_def)
qed

lemma wait_over_None:
  "wait_over runId db sw e = Some None \<Longrightarrow> isRunCancelled db runId"
  by (auto simp: wait_over_def Let_def split: px_event.splits option.splits if_splits)

lemma step_event_inv:
  assumes inv: "px_inv levels runId pl w" and dist: "distinct (map s_id (concat levels))"
  shows "px_inv levels runId pl (step_event env runId pl i now e w)"
proof (cases "i < length (px_jobs w) \<and> (\<exists>sw out. px_jobs w ! i = Waiting sw \<and> wait_over runId (px_db w) sw e = Some out)")
  case False
  then show ?thesis using inv by (auto simp: step_event_def split: step_job.split option.split)
next
  case True
  then obtain sw out where i: "i < length (px_jobs w)" and sw: "px_jobs w ! i = Waiting sw"
    and out: "wait_over runId (px_db w) sw e = Some out" by blast
  obtain j db' b where so: "step_outcome env now runId pl (px_deadline w) sw out (px_db w) = (j, db', b)"
    by (cases "step_outcome env now runId pl (px_deadline w) sw out (px_db w)") auto
  note view = step_outcome_view [where env = env and now = now and runId = runId and pl = pl and dl = "px_deadline w" and
      sw = sw and out = out and db = "px_db w", unfolded so fst_conv snd_conv]
  have w': "step_event env runId pl i now e w =
      w\<lparr>px_db := db', px_jobs := (px_jobs w)[i := j], px_begun := px_begun w @ b\<rparr>"
    using i sw out so by (simp add: step_event_def)
  have home: "home runId (pd_id pl) db'"
    using home_step_outcome [of runId "pd_id pl" env now runId pl "px_deadline w" sw out "px_db w"] inv so
    by (simp add: px_inv_def)
  have jobs: "map job_step ((px_jobs w)[i := j]) = map job_step (px_jobs w)"
    using view(1) sw by (simp add: map_job_step_update)
  show ?thesis
  proof (cases "px_main w")
    case (Awaiting rest ctx)
    then obtain before where levels: "levels = before @ map job_step (px_jobs w) # rest"
      and ok: "awaiting_ok pl (run_state (px_db w) runId) (row_status (px_db w) runId) before (px_jobs w) rest"
      using inv by (auto simp: px_inv_def Let_def)
    have "awaiting_ok pl (run_state db' runId) (row_status db' runId) before ((px_jobs w)[i := j]) rest"
    proof (cases "run_state (px_db w) runId = Some Run_running")
      case True
      then have prog: "in_progress pl (row_status (px_db w) runId) before (px_jobs w) rest"
        using ok by (simp add: awaiting_ok_def)
      have "out \<noteq> None" using wait_over_None [of runId "px_db w" sw e] out True by (auto simp: isRunCancelled_state)
      moreover have "job_ok pl (row_status (px_db w) runId) (Waiting sw)"
        using prog i sw unfolding in_progress_def by (metis nth_mem)
      ultimately obtain s where row: "row_status db' runId = put (row_status (px_db w) runId) (s_id (sw_step sw)) s"
        and j_ok: "job_ok pl (put (row_status (px_db w) runId) (s_id (sw_step sw)) s) j"
        using step_outcome_running [OF True, where out = out and sw = sw and env = env and now = now and pl = pl
            and dl = "px_deadline w"] so by (auto simp: job_ok_def)
      have "in_progress pl (put (row_status (px_db w) runId) (s_id (job_step j)) s) before ((px_jobs w)[i := j]) rest"
        using in_progress_put [OF prog _ i, of j s] dist levels j_ok view(1) sw by simp
      then show ?thesis using view(1,2) row True by (simp add: awaiting_ok_def)
    next
      case False
      then show ?thesis
        using ok view by (auto simp: awaiting_ok_def run_ended_def split: option.splits)
    qed
    then show ?thesis
      using home levels jobs Awaiting by (auto simp: w' px_inv_def Let_def)
  next
    case Returned
    then have "ended_well pl levels (run_state (px_db w) runId) (row_status (px_db w) runId)"
      using inv by (simp add: px_inv_def Let_def)
    then have "ended_well pl levels (run_state db' runId) (row_status db' runId)"
      using view by (auto simp: ended_well_def run_ended_def split: option.splits)
    then show ?thesis using home Returned by (simp add: w' px_inv_def Let_def)
  next
    case (Threw m)
    then show ?thesis
      using inv home view by (auto simp: w' px_inv_def Let_def run_ended_def)
  qed
qed

section \<open>The loop over the levels\<close>

lemma interruption_cases:
  "getRunInterruption now db runId pl dl = Some Cancelled \<longleftrightarrow> run_state db runId \<in> {None, Some Run_cancelled}"
  "getRunInterruption now db runId pl dl \<noteq> Some Cancelled \<longleftrightarrow>
   (\<exists>s. run_state db runId = Some s \<and> s \<noteq> Run_cancelled)"
  by (auto simp: getRunInterruption_def run_state_def split: option.splits)

lemma failRun_view:
  assumes "run_state db runId = Some Run_running"
  shows "run_state (failRunForTimeout now runId m db) runId = Some Run_failed"
    and "settled (row_status (failRunForTimeout now runId m db) runId)"
proof -
  obtain run where run: "getRun db runId = Some run" "pr_status run = Run_running"
    using assms by (auto simp: run_state_def)
  show "run_state (failRunForTimeout now runId m db) runId = Some Run_failed"
    using run assms by (simp add: failRunForTimeout_def run_state_updateRun markTimedOutSteps_def no_run_update_def)
  show "settled (row_status (failRunForTimeout now runId m db) runId)"
    using run by (auto simp: failRunForTimeout_def row_status_updateRun markTimedOutSteps_def row_status_finish settled_def)
qed

text \<open>Between two levels the run is running with everything before passed, cancelled, or gone.\<close>

definition between ::
  "pipeline_definition \<Rightarrow> pipeline_step list list \<Rightarrow> pipeline_step list list \<Rightarrow> string \<Rightarrow> pipeline_db \<Rightarrow> bool" where
  "between pl before rest runId db =
     (home runId (pd_id pl) db \<and> awaiting_ok pl (run_state db runId) (row_status db runId) before [] rest)"

lemma ended_well_other:
  "awaiting_ok pl st row before jobs rest \<Longrightarrow> st \<in> {None, Some Run_cancelled} \<Longrightarrow> ended_well pl levels st row"
  by (auto simp: awaiting_ok_def ended_well_def)

lemma awaiting_running:
  "awaiting_ok pl st row before jobs rest \<Longrightarrow> st \<notin> {None, Some Run_cancelled} \<Longrightarrow>
   st = Some Run_running \<and> in_progress pl row before jobs rest"
  by (auto simp: awaiting_ok_def split: option.splits)

lemma ended_failed: "settled row \<Longrightarrow> ended_well pl levels (Some Run_failed) row"
  by (simp add: ended_well_def)

lemma begin_level_progress:
  assumes "in_progress pl (row_status db runId) before [] (level # rest)" and "\<not> run_ended db runId"
    and dist: "distinct (map s_id (concat (before @ level # rest)))"
    and b: "begin_steps env now runId dl ctx level db = (js, db')"
  shows "in_progress pl (row_status db' runId) before js rest"
proof -
  note view = begin_steps_view(2) [of env now runId dl ctx level db, unfolded b snd_conv]
  note jobs = begin_steps_jobs [of env now runId dl ctx level db, unfolded b fst_conv]
  have "s_id ` set (concat before @ concat rest) \<inter> s_id ` set level = {}"
    by (rule distinct_middle) (use dist in simp)
  then have out: "row_status db' runId (s_id s) = row_status db runId (s_id s)"
    if "s \<in> set (concat before) \<or> s \<in> set (concat rest)" for s
    using that view by (metis IntI Un_iff emptyE imageI set_append)
  have "job_ok pl (row_status db' runId) j" if "j \<in> set js" for j
  proof -
    have "is_waiting 1 j" using jobs(2) that by (simp add: list_all_iff)
    then obtain sw where sw: "j = Waiting sw" by (cases j) (simp_all add: is_waiting_def)
    have "sw_step sw \<in> set level" using jobs(1) that sw by force
    then show ?thesis using assms(1,2) view sw by (simp add: job_ok_def in_progress_def)
  qed
  moreover have "\<forall>i. row_status db' runId i \<noteq> None \<longrightarrow> i \<in> s_id ` set (concat before @ map job_step js @ concat rest)"
    using assms(1) view by (auto simp: in_progress_def jobs(1) split: if_splits)
  ultimately show ?thesis
    using assms(1) out by (simp add: in_progress_def passed_def)
qed

lemma enter_level_inv:
  assumes btw: "between pl before rest runId (px_db w)" and levels: "levels = before @ rest"
    and dist: "distinct (map s_id (concat levels))"
  shows "px_inv levels runId pl (enter_level env now runId pl rest ctx w)"
proof -
  let ?db = "px_db w"
  have home: "home runId (pd_id pl) ?db"
    and ok: "awaiting_ok pl (run_state ?db runId) (row_status ?db runId) before [] rest"
    using btw by (simp_all add: between_def)
  show ?thesis
  proof (cases "run_state ?db runId \<in> {None, Some Run_cancelled}")
    case True
    then have "enter_level env now runId pl rest ctx w = w\<lparr>px_main := Returned\<rparr>"
      using interruption_cases(1) [THEN iffD2, OF True] by (simp add: enter_level_def)
    then show ?thesis using home ended_well_other [OF ok True] by (simp add: px_inv_def Let_def)
  next
    case False
    then have run: "run_state ?db runId = Some Run_running"
      and prog: "in_progress pl (row_status ?db runId) before [] rest" using awaiting_running [OF ok] by simp_all
    have nocanc: "getRunInterruption now ?db runId pl (px_deadline w) \<noteq> Some Cancelled"
      using run by (simp add: interruption_cases)
    consider m where "getRunInterruption now ?db runId pl (px_deadline w) = Some (Timeout m)"
      | "getRunInterruption now ?db runId pl (px_deadline w) = None" "rest = []"
      | level rest' where "getRunInterruption now ?db runId pl (px_deadline w) = None" "rest = level # rest'"
      using nocanc by (metis interruption.exhaust neq_Nil_conv option.exhaust)
    then show ?thesis
    proof cases
      case (1 m)
      then show ?thesis
        using home failRun_view [OF run] by (simp add: enter_level_def px_inv_def Let_def ended_failed)
    next
      case 2
      have "settled (row_status ?db runId)" using prog 2(2) by (intro settled_progress [of pl _ before "[]"]) auto
      then show ?thesis
        using 2 home run prog levels
        by (simp add: enter_level_def px_inv_def Let_def run_state_updateRun row_status_updateRun no_run_update_def
            ended_well_def in_progress_def)
    next
      case (3 level rest')
      obtain js db' where b: "begin_steps env now runId (px_deadline w) ctx level ?db = (js, db')"
        by (metis surj_pair)
      have prog': "in_progress pl (row_status db' runId) before js rest'"
      proof (rule begin_level_progress [OF _ _ _ b])
        show "in_progress pl (row_status ?db runId) before [] (level # rest')" using prog 3(2) by simp
        show "\<not> run_ended ?db runId" using run by (simp add: run_ended_state)
        show "distinct (map s_id (concat (before @ level # rest')))" using dist levels 3(2) by simp
      qed
      have "run_state db' runId = Some Run_running"
        using begin_steps_view(1) [of env now runId "px_deadline w" ctx level ?db] b run by simp
      moreover have "home runId (pd_id pl) db'"
        using home_begin_steps [of runId "pd_id pl" env now runId "px_deadline w" ctx level ?db] b home by simp
      moreover have "map job_step js = level"
        using begin_steps_jobs(1) [of env now runId "px_deadline w" ctx level ?db] b by simp
      ultimately show ?thesis
        using 3 b prog' levels by (simp add: enter_level_def px_inv_def Let_def awaiting_ok_def)
    qed
  qed
qed

lemma results_Some: "results js = Some rs \<longleftrightarrow> js = map Finished rs"
proof (induction js arbitrary: rs)
  case Nil
  then show ?case by auto
next
  case (Cons j js)
  then show ?case by (cases j) (auto simp: Cons_eq_map_conv)
qed

lemma finished_progress:
  assumes "in_progress pl row before (map Finished rs) rest" and "\<not> list_ex blocking rs"
  shows "in_progress pl row (before @ [map sr_step rs]) [] rest"
proof -
  have "passed pl row (sr_step r)" if "r \<in> set rs" for r
    using assms that by (auto simp: in_progress_def job_ok_def passed_def blocking_def list_ex_iff)
  then show ?thesis using assms(1) by (auto simp: in_progress_def comp_def)
qed

lemma skip_settled:
  assumes "in_progress pl (row_status db runId) before (map Finished rs) rest"
  shows "settled (row_status (markPendingStepsSkipped now runId m db) runId)"
proof -
  have "row_status db runId i \<noteq> Some Step_running" for i
  proof
    assume run: "row_status db runId i = Some Step_running"
    then have "i \<in> s_id ` set (concat before @ map job_step (map Finished rs) @ concat rest)"
      using assms unfolding in_progress_def by (metis option.distinct(1))
    then have "i \<in> s_id ` set (concat before) \<or> i \<in> (\<lambda>r. s_id (sr_step r)) ` set rs \<or> i \<in> s_id ` set (concat rest)"
      by (simp add: image_Un image_image del: set_concat)
    then consider s where "s \<in> set (concat before)" "i = s_id s" | r where "r \<in> set rs" "i = s_id (sr_step r)"
      | s where "s \<in> set (concat rest)" "i = s_id s"
      by blast
    then show False
    proof cases
      case (1 s)
      then have "passed pl (row_status db runId) s" using assms unfolding in_progress_def by blast
      then show False using run 1 by (simp add: passed_def)
    next
      case (2 r)
      then have "job_ok pl (row_status db runId) (Finished r)" using assms by (simp add: in_progress_def)
      then show False using run 2 by (simp add: job_ok_def split: if_splits)
    next
      case (3 s)
      then have "row_status db runId (s_id s) = Some Step_pending"
        using assms unfolding in_progress_def by blast
      then show False using run 3 by simp
    qed
  qed
  then show ?thesis by (auto simp: settled_def markPendingStepsSkipped_def row_status_finish)
qed

lemma level_done_inv:
  assumes inv: "px_inv levels runId pl w" and main: "px_main w = Awaiting rest ctx"
    and rs: "results (px_jobs w) = Some rs" and dist: "distinct (map s_id (concat levels))"
  shows "px_inv levels runId pl (level_done env now runId pl rest ctx rs w)"
proof -
  let ?db = "px_db w"
  have jobs: "px_jobs w = map Finished rs" using rs by (simp add: results_Some)
  obtain before where levels: "levels = before @ map sr_step rs # rest" and home: "home runId (pd_id pl) ?db"
    and ok: "awaiting_ok pl (run_state ?db runId) (row_status ?db runId) before (map Finished rs) rest"
    using inv main jobs by (auto simp: px_inv_def Let_def comp_def)
  show ?thesis
  proof (cases "run_state ?db runId \<in> {None, Some Run_cancelled}")
    case True
    then have "level_done env now runId pl rest ctx rs w = w\<lparr>px_main := Returned\<rparr>"
      using interruption_cases(1) [THEN iffD2, OF True] by (simp add: level_done_def)
    then show ?thesis using home ended_well_other [OF ok True] by (simp add: px_inv_def Let_def)
  next
    case False
    then have run: "run_state ?db runId = Some Run_running"
      and prog: "in_progress pl (row_status ?db runId) before (map Finished rs) rest"
      using awaiting_running [OF ok] by simp_all
    have nocanc: "getRunInterruption now ?db runId pl (px_deadline w) \<noteq> Some Cancelled"
      using run by (simp add: interruption_cases)
    have live: "\<not> list_ex sr_cancelled rs"
      using prog by (auto simp: in_progress_def job_ok_def list_ex_iff)
    show ?thesis
    proof (cases "getRunInterruption now ?db runId pl (px_deadline w)")
      case (Some int)
      then obtain m where "getRunInterruption now ?db runId pl (px_deadline w) = Some (Timeout m)"
        using nocanc by (cases int) simp_all
      then show ?thesis
        using home failRun_view [OF run] by (simp add: level_done_def px_inv_def Let_def ended_failed)
    next
      case None
      define db' where "db' = snd (updateRun (secs now) runId (no_run_update\<lparr>ru_context := Some (add_outputs ctx rs)\<rparr>) ?db)"
      have run': "run_state db' runId = Some Run_running" and row': "row_status db' runId = row_status ?db runId"
        and home': "home runId (pd_id pl) db'"
        using run home by (simp_all add: db'_def run_state_updateRun row_status_updateRun no_run_update_def)
      show ?thesis
      proof (cases "find blocking rs")
        case bl: None
        then have "\<not> list_ex blocking rs" by (simp add: find_None_iff list_ex_iff)
        then have "between pl (before @ [map sr_step rs]) rest runId (px_db (w\<lparr>px_db := db'\<rparr>))"
          using home' run' row' finished_progress [OF prog] by (simp add: between_def awaiting_ok_def)
        then have "px_inv levels runId pl (enter_level env now runId pl rest (add_outputs ctx rs) (w\<lparr>px_db := db'\<rparr>))"
          by (rule enter_level_inv [OF _ _ dist]) (simp add: levels)
        then show ?thesis using None live bl by (simp add: level_done_def Let_def db'_def)
      next
        case (Some r)
        define db2 where "db2 = markPendingStepsSkipped (secs now) runId [S ''Skipped after pipeline failure''] db'"
        define db3 where "db3 = snd (updateRun (secs now) runId (no_run_update\<lparr>ru_status := Some Run_failed,
            ru_error := Some (sr_error r), ru_completedAt := Some (Some (secs now))\<rparr>) db2)"
        have "settled (row_status db2 runId)"
          using skip_settled [of pl db' runId before rs rest] prog row' by (simp add: db2_def)
        moreover have "run_state db2 runId = Some Run_running"
          using run' by (simp add: db2_def markPendingStepsSkipped_def)
        ultimately have "run_state db3 runId = Some Run_failed" "settled (row_status db3 runId)"
          by (simp_all add: db3_def run_state_updateRun row_status_updateRun no_run_update_def)
        moreover have "home runId (pd_id pl) db3"
          using home' by (simp add: db3_def db2_def markPendingStepsSkipped_def)
        moreover have "level_done env now runId pl rest ctx rs w = w\<lparr>px_db := db3, px_main := Returned\<rparr>"
          using None live Some by (simp add: level_done_def Let_def db'_def db2_def db3_def)
        ultimately show ?thesis by (simp add: px_inv_def Let_def ended_failed)
      qed
    qed
  qed
qed

lemma run_threw_view:
  "run_state (px_db (run_threw now runId m w)) runId =
     map_option (\<lambda>s. if isTerminalRunStatus s then s else Run_failed) (run_state (px_db w) runId)"
  "row_status (px_db (run_threw now runId m w)) runId = row_status (px_db w) runId"
  "home runId P (px_db (run_threw now runId m w)) = home runId P (px_db w)"
  by (cases "run_state (px_db w) runId";
      auto simp: run_threw_def isRunCancelled_state run_state_updateRun row_status_updateRun no_run_update_def)+

lemma level_timeout_inv:
  assumes inv: "px_inv levels runId pl w" and main: "px_main w = Awaiting rest ctx"
  shows "px_inv levels runId pl (level_timeout now runId pl w)"
proof -
  let ?db = "px_db w"
  obtain before where home: "home runId (pd_id pl) ?db"
    and ok: "awaiting_ok pl (run_state ?db runId) (row_status ?db runId) before (px_jobs w) rest"
    using inv main by (auto simp: px_inv_def Let_def)
  show ?thesis
  proof (cases "run_state ?db runId \<in> {None, Some Run_cancelled}")
    case True
    then have "level_timeout now runId pl w = w\<lparr>px_main := Returned\<rparr>"
      using interruption_cases(1) [THEN iffD2, OF True] by (simp add: level_timeout_def)
    then show ?thesis using home ended_well_other [OF ok True] by (simp add: px_inv_def Let_def)
  next
    case False
    then have run: "run_state ?db runId = Some Run_running" using awaiting_running [OF ok] by simp
    show ?thesis
    proof (cases "getRunInterruption now ?db runId pl (px_deadline w)")
      case None
      then show ?thesis
        using home run run_threw_view [where now = now and runId = runId and m = "pipelineTimeoutMessage pl" and w = w]
        by (simp add: level_timeout_def px_inv_def Let_def) (simp add: run_threw_def)
    next
      case (Some int)
      then obtain m where "getRunInterruption now ?db runId pl (px_deadline w) = Some (Timeout m)"
        using run interruption_cases(1) by (cases int) simp_all
      then show ?thesis
        using home failRun_view [OF run] by (simp add: level_timeout_def px_inv_def Let_def ended_failed)
    qed
  qed
qed

end
