(* ===== verification/PipelineGuarantees.thy ===== *)
theory PipelineGuarantees
  imports PipelineExecution
begin

text \<open>
  What holds in every reachable state of a run of a pipeline under execution: the order of the steps,
  the state a run ends in, that it ends, the number of attempts, and that a cancelled run does nothing
  more.
\<close>

section \<open>The start\<close>

definition levels_of :: "pipeline_definition \<Rightarrow> pipeline_step list list" where
  "levels_of pl = (case resolvePipelineSteps (pd_steps pl) of Inl e \<Rightarrow> [] | Inr r \<Rightarrow> r_levels r)"

lemma levels_of_distinct: "distinct (map s_id (concat (levels_of pl)))"
proof (cases "resolvePipelineSteps (pd_steps pl)")
  case (Inr r)
  then have "distinct (map s_id (pd_steps pl))" using resolve_Inr_valid by (simp add: valid_steps_def)
  then have "inj_on s_id (set (pd_steps pl))" by (simp add: distinct_map)
  then show ?thesis using resolve_Inr [OF Inr] by (simp add: levels_of_def Inr distinct_map del: set_concat) metis
qed (simp add: levels_of_def)

lemma levels_of_ok: "levels_ok {} (levels_of pl)"
  using resolve_Inr by (auto simp: levels_of_def split: sum.split)

lemma levels_of_set:
  "resolvePipelineSteps (pd_steps pl) = Inr r \<Longrightarrow> set (concat (levels_of pl)) = set (pd_steps pl)"
  using resolve_Inr [of "pd_steps pl" r] by (simp add: levels_of_def del: set_concat) metis

lemma levels_of_subset: "set (concat (levels_of pl)) \<subseteq> set (pd_steps pl)"
  using levels_of_set by (cases "resolvePipelineSteps (pd_steps pl)") (simp_all add: levels_of_def)

lemma find_SomeD: "find p xs = Some x \<Longrightarrow> p x \<and> x \<in> set xs"
  by (auto simp: find_Some_iff)

lemma find_new_step:
  "find (\<lambda>r. rs_stepId r = i) (map (new_run_step runId P now) steps) =
   map_option (new_run_step runId P now) (find (\<lambda>s. s_id s = i) steps)"
  by (induction steps) (simp_all add: new_run_step_def)

lemma createRun_view:
  assumes c: "createRun runId now pl ctx st db = (Inr run, db')" and rows: "getRunSteps db runId = []"
  shows "getRun db' runId = Some run" "pr_status run = Run_pending" "home runId (pd_id pl) db'"
    "row_status db' runId = (\<lambda>i. if i \<in> s_id ` set (pd_steps pl) then Some Step_pending else None)"
proof -
  let ?steps = "map (new_run_step runId (pd_id pl) now) (pd_steps pl)"
  have none: "getRun db runId = None" using c by (auto simp: createRun_def Let_def throw_def split: if_splits)
  define r where "r = \<lparr>pr_id = runId, pr_pipelineId = pd_id pl, pr_status = Run_pending,
      pr_errorStrategy = nullish st (pd_errorStrategy pl),
      pr_inputContext = map (\<lambda>(k, v). (k, jsonify v)) (nullish ctx []),
      pr_context = map (\<lambda>(k, v). (k, jsonify v)) (nullish ctx []), pr_error = None,
      pr_createdAt = now, pr_startedAt = None, pr_completedAt = None, pr_updatedAt = now\<rparr>"
  let ?db = "db\<lparr>pipeline_runs := pipeline_runs db @ [r], pipeline_run_steps := pipeline_run_steps db @ ?steps\<rparr>"
  have r: "pr_id r = runId" "pr_pipelineId r = pd_id pl" "pr_status r = Run_pending" by (simp_all add: r_def)
  have get: "getRun ?db runId = Some r" using none r by (simp add: getRun_def)
  then have run: "run = r" and db': "db' = ?db"
    using c none by (auto simp: createRun_def Let_def r_def [symmetric] throw_def ret_def split: if_splits)
  then show "getRun db' runId = Some run" "pr_status run = Run_pending" using get r db' by simp_all
  have "getRunSteps db' runId = ?steps"
    using rows by (simp add: db' getRunSteps_def filter_id_conv new_run_step_def)
  then have row: "row_status db' runId i = map_option (\<lambda>_. Step_pending) (find (\<lambda>s. s_id s = i) (pd_steps pl))" for i
    by (simp add: row_status_def find_step_def find_new_step option.map_comp comp_def) (simp add: new_run_step_def)
  show "row_status db' runId = (\<lambda>i. if i \<in> s_id ` set (pd_steps pl) then Some Step_pending else None)"
  proof
    fix i
    show "row_status db' runId i = (if i \<in> s_id ` set (pd_steps pl) then Some Step_pending else None)"
      by (cases "find (\<lambda>s. s_id s = i) (pd_steps pl)") (auto simp: row find_None_iff dest: find_SomeD)
  qed
  show "home runId (pd_id pl) db'"
    using none rows r unfolding db' home_iff getRun_def sql_get_None_iff getRunSteps_def
    by (auto simp: filter_empty_conv new_run_step_def image_iff)
qed

lemma start_inv:
  assumes s: "start_run env runId now pl ctx st db = Inr (run, w)" and rows: "getRunSteps db runId = []"
  shows "px_inv (levels_of pl) runId pl w"
proof -
  obtain db' where c: "createRun runId (secs now) pl ctx st db = (Inr run, db')"
    and w: "w = executeRun env now pl runId db'"
    using s by (auto simp: start_run_def split: prod.splits sum.splits)
  note view = createRun_view [OF c rows]
  show ?thesis
  proof (cases "resolvePipelineSteps (pd_steps pl)")
    case (Inl e)
    then show ?thesis
      using view run_threw_view(1) [where now = now and runId = runId and m = "resolve_message e"]
      by (simp add: w executeRun_def px_inv_def Let_def run_threw_view) (simp add: run_threw_def run_state_def)
  next
    case (Inr r)
    define db1 where "db1 = snd (updateRun (secs now) runId
        (no_run_update\<lparr>ru_status := Some Run_running, ru_startedAt := Some (Some (secs now))\<rparr>) db')"
    define d where "d = (case pd_timeoutSeconds pl of
        Some t \<Rightarrow> if 0 < t then Some (now + t * 1000) else None | None \<Rightarrow> None)"
    let ?w = "\<lparr>px_db = db1, px_deadline = d, px_jobs = [], px_main = Returned, px_begun = []\<rparr>"
    have pending: "run_state db' runId = Some Run_pending" using view by (simp add: run_state_def)
    then have "run_state db1 runId = Some Run_running" "row_status db1 runId = row_status db' runId"
      "home runId (pd_id pl) db1"
      using view pending by (simp_all add: db1_def run_state_updateRun row_status_updateRun no_run_update_def)
    then have "between pl [] (r_levels r) runId (px_db ?w)"
      using view(4) levels_of_set [OF Inr]
      by (auto simp: between_def awaiting_ok_def in_progress_def levels_of_def Inr)
    then have "px_inv (levels_of pl) runId pl (enter_level env now runId pl (r_levels r) (pr_context run) ?w)"
      by (rule enter_level_inv [OF _ _ levels_of_distinct]) (simp add: levels_of_def Inr)
    then show ?thesis
      using view by (simp add: w executeRun_def Inr Let_def db1_def d_def)
  qed
qed

section \<open>Reachable states\<close>

fun own_event :: "string \<Rightarrow> px_event \<Rightarrow> bool" where
  "own_event runId (E_store c) = foreign runId c"
| "own_event runId _ = True"

inductive px_reachable :: "string \<Rightarrow> pipeline_definition \<Rightarrow> px \<Rightarrow> bool" for runId pl where
  started: "start_run env runId now pl ctx st db = Inr (run, w) \<Longrightarrow> getRunSteps db runId = [] \<Longrightarrow>
            px_reachable runId pl w"
| happens: "px_reachable runId pl w \<Longrightarrow> own_event runId e \<Longrightarrow> px_reachable runId pl (px_step env runId pl e w)"

lemma foreign_inv:
  assumes inv: "px_inv levels runId pl w" and c: "foreign runId c"
  shows "px_inv levels runId pl (w\<lparr>px_db := run_exec c (px_db w)\<rparr>)"
proof -
  have home: "home runId (pd_id pl) (px_db w)" using inv by (simp add: px_inv_def)
  note f = foreign_view [OF c home]
  consider (same) "same_view runId (px_db w) (run_exec c (px_db w))"
    | (cancelled) "run_state (run_exec c (px_db w)) runId = Some Run_cancelled"
        "row_status (run_exec c (px_db w)) runId = cancelled_rows (row_status (px_db w) runId)"
    | (gone) "run_state (run_exec c (px_db w)) runId = None"
    using f by metis
  then show ?thesis
  proof cases
    case same
    then show ?thesis using inv f by (auto simp: px_inv_def same_view_def Let_def split: main.splits)
  next
    case cancelled
    then show ?thesis
      using inv f settled_cancelled_rows [of "row_status (px_db w) runId"]
      by (auto simp: px_inv_def Let_def awaiting_ok_def ended_well_def split: main.splits)
  next
    case gone
    then show ?thesis
      using inv f by (auto simp: px_inv_def Let_def awaiting_ok_def ended_well_def split: main.splits)
  qed
qed

lemma px_step_inv:
  assumes inv: "px_inv (levels_of pl) runId pl w" and e: "own_event runId e"
  shows "px_inv (levels_of pl) runId pl (px_step env runId pl e w)"
proof (cases e)
  case (E_store c)
  then show ?thesis using foreign_inv [OF inv] e by simp
next
  case (E_level_timer now)
  then show ?thesis using inv level_timeout_inv by (auto split: main.split)
next
  case (E_go_on now)
  then show ?thesis using inv level_done_inv [OF _ _ _ levels_of_distinct] by (auto split: main.split option.split)
qed (use step_event_inv [OF inv levels_of_distinct] in simp_all)

lemma px_reachable_inv: "px_reachable runId pl w \<Longrightarrow> px_inv (levels_of pl) runId pl w"
  by (induction rule: px_reachable.induct) (use start_inv px_step_inv in blast)+

lemma px_reachable_run:
  "px_reachable runId pl w \<Longrightarrow> list_all (\<lambda>(env, e). own_event runId e) evs \<Longrightarrow>
   px_reachable runId pl (px_run runId pl evs w)"
  unfolding px_run_def by (induction evs arbitrary: w) (auto intro: happens)

section \<open>What a run ends in\<close>

text \<open>
  C4. When \<open>executeRun\<close> has returned, the run has ended (or its pipeline was deleted), none of its
  steps is still pending or running, and a completed run has completed every step, except for steps
  that failed under the strategy \<open>continue\<close>. This holds whatever the agents answered, whichever
  timers fired, and whatever others did to the store meanwhile, cancelling included.
\<close>

theorem returned_run_settled:
  assumes "px_reachable runId pl w" and "px_main w = Returned"
  shows "case run_state (px_db w) runId of
           None \<Rightarrow> True
         | Some st \<Rightarrow>
             isTerminalRunStatus st \<and>
             list_all (\<lambda>s. row_status (px_db w) runId (s_id s) \<notin> {Some Step_pending, Some Step_running})
               (pd_steps pl) \<and>
             (st = Run_completed \<longrightarrow> list_all (passed pl (row_status (px_db w) runId)) (concat (levels_of pl)))"
  using px_reachable_inv [OF assms(1)] assms(2)
  by (auto simp: px_inv_def Let_def ended_well_def settled_def list_all_iff split: option.split)

lemma levels_ok_middle:
  "levels_ok D (before @ level # rest) \<Longrightarrow> s \<in> set level \<Longrightarrow> d \<in> set (s_dependsOn s) \<Longrightarrow>
   d \<in> D \<union> s_id ` set (concat before)"
proof (induction before arbitrary: D)
  case Nil
  then show ?case by (auto simp: list_all_iff)
next
  case (Cons l before)
  then have "d \<in> (D \<union> s_id ` set l) \<union> s_id ` set (concat before)" by (intro Cons.IH) simp_all
  then show ?case by auto
qed

text \<open>The steps that are being worked on while the run is running.\<close>

definition working :: "px \<Rightarrow> step_wait list" where
  "working w = concat (map (\<lambda>j. case j of Waiting sw \<Rightarrow> [sw] | Finished _ \<Rightarrow> []) (px_jobs w))"

lemma set_working: "sw \<in> set (working w) \<longleftrightarrow> Waiting sw \<in> set (px_jobs w)"
  by (force simp: working_def split: step_job.splits)

text \<open>
  C40. While a run is running, every step being worked on has all its dependencies behind it: each is a
  step of the pipeline that has completed, or has failed under the strategy \<open>continue\<close>.
\<close>

theorem steps_wait_for_dependencies:
  assumes "px_reachable runId pl w" and "run_state (px_db w) runId = Some Run_running"
  shows "list_all (\<lambda>sw. list_all (\<lambda>d. list_ex (\<lambda>s. s_id s = d \<and> passed pl (row_status (px_db w) runId) s)
                                          (pd_steps pl))
                      (s_dependsOn (sw_step sw))) (working w)"
proof -
  note inv = px_reachable_inv [OF assms(1)]
  have "\<exists>rest ctx. px_main w = Awaiting rest ctx"
    using inv assms(2) by (auto simp: px_inv_def Let_def ended_well_def split: main.splits)
  then obtain rest before where levels: "levels_of pl = before @ map job_step (px_jobs w) # rest"
    and prog: "in_progress pl (row_status (px_db w) runId) before (px_jobs w) rest"
    using inv assms(2) by (auto simp: px_inv_def Let_def awaiting_ok_def)
  have "\<exists>s\<in>set (pd_steps pl). s_id s = d \<and> passed pl (row_status (px_db w) runId) s"
    if "Waiting sw \<in> set (px_jobs w)" "d \<in> set (s_dependsOn (sw_step sw))" for sw d
  proof -
    have "sw_step sw \<in> set (map job_step (px_jobs w))" using that(1) by force
    then have "d \<in> s_id ` set (concat before)"
      using levels_ok_middle [of "{}" before "map job_step (px_jobs w)" rest "sw_step sw" d] that(2)
        levels_of_ok [of pl] levels by simp
    then obtain s where s: "s \<in> set (concat before)" "d = s_id s" by blast
    then have "passed pl (row_status (px_db w) runId) s" using prog unfolding in_progress_def by blast
    moreover have "s \<in> set (pd_steps pl)" using levels_of_subset [of pl] s levels by auto
    ultimately show ?thesis using s by blast
  qed
  then show ?thesis by (auto simp: list_all_iff list_ex_iff set_working)
qed

section \<open>Cancelled runs\<close>

text \<open>Calls after which a run that has ended is as it was.\<close>

fun guarded_event :: "string \<Rightarrow> px_event \<Rightarrow> bool" where
  "guarded_event runId (E_store c) = guarded runId c"
| "guarded_event runId _ = True"

lemma step_outcome_cancelled:
  "isRunCancelled db runId \<Longrightarrow> snd (step_outcome env now runId pl dl sw out db) = (db, [])"
  by (simp add: step_outcome_def Let_def split: option.split sum.split)

lemma isRunCancelled_get:
  "isRunCancelled db runId \<Longrightarrow> getRunInterruption now db runId pl dl = Some Cancelled"
  by (simp add: interruption_cases isRunCancelled_state)

lemma cancelled_step:
  assumes canc: "isRunCancelled (px_db w) runId" and e: "guarded_event runId e"
  shows "getRun (px_db (px_step env runId pl e w)) runId = getRun (px_db w) runId \<and>
         getRunSteps (px_db (px_step env runId pl e w)) runId = getRunSteps (px_db w) runId \<and>
         px_begun (px_step env runId pl e w) = px_begun w"
proof -
  have se: "px_db (step_event env runId pl i now ev w) = px_db w \<and> px_begun (step_event env runId pl i now ev w) = px_begun w"
    for i now ev
  proof -
    have "fst (snd (step_outcome env now runId pl (px_deadline w) sw out (px_db w))) = px_db w"
      "snd (snd (step_outcome env now runId pl (px_deadline w) sw out (px_db w))) = []" for sw out
      using step_outcome_cancelled [OF canc] by simp_all
    then show ?thesis by (simp add: step_event_def Let_def split_beta split: step_job.split option.split)
  qed
  show ?thesis
  proof (cases e)
    case (E_store c)
    obtain run where "getRun (px_db w) runId = Some run" "isTerminalRunStatus (pr_status run)"
      using canc by (auto simp: isRunCancelled_def)
    then show ?thesis using ended_run_kept [of "px_db w" runId run c] E_store e by simp
  next
    case (E_level_timer now)
    then show ?thesis using isRunCancelled_get [OF canc] by (simp add: level_timeout_def split: main.split)
  next
    case (E_go_on now)
    then show ?thesis using isRunCancelled_get [OF canc] by (simp add: level_done_def split: main.split option.split)
  qed (use se in simp_all)
qed

text \<open>
  Once a run is cancelled, nothing more is done for it: whatever arrives afterwards (late answers,
  timers, store calls that respect the end of the run), no attempt of any step begins, and the run and
  its steps stay exactly as the cancellation left them.
\<close>

theorem cancelled_run_inert:
  assumes "isRunCancelled (px_db w) runId" and "list_all (\<lambda>(env, e). guarded_event runId e) evs"
  shows "px_begun (px_run runId pl evs w) = px_begun w \<and>
         getRun (px_db (px_run runId pl evs w)) runId = getRun (px_db w) runId \<and>
         getRunSteps (px_db (px_run runId pl evs w)) runId = getRunSteps (px_db w) runId"
  using assms
proof (induction evs arbitrary: w)
  case Nil
  then show ?case by (simp add: px_run_def)
next
  case (Cons ee evs)
  obtain env e where ee: "ee = (env, e)" by force
  note st = cancelled_step [of w runId e env pl]
  have "isRunCancelled (px_db (px_step env runId pl e w)) runId"
    using st Cons.prems ee by (simp add: isRunCancelled_def)
  then show ?case using Cons.IH [of "px_step env runId pl e w"] Cons.prems st ee by (simp add: px_run_def)
qed

section \<open>A run ends\<close>

text \<open>How many more things can happen: the attempts that are left, and the levels.\<close>

definition remaining :: "pipeline_definition \<Rightarrow> step_job \<Rightarrow> nat" where
  "remaining pl j =
     (case j of Waiting sw \<Rightarrow> max_attempts pl (sw_step sw) - sw_attempt sw + 1 | Finished r \<Rightarrow> 0)"

definition level_work :: "pipeline_definition \<Rightarrow> pipeline_step list list \<Rightarrow> nat" where
  "level_work pl levels = length levels + sum_list (map (max_attempts pl) (concat levels))"

definition work :: "pipeline_definition \<Rightarrow> px \<Rightarrow> nat" where
  "work pl w = sum_list (map (remaining pl) (px_jobs w)) +
     (case px_main w of Awaiting rest ctx \<Rightarrow> 1 + level_work pl rest | _ \<Rightarrow> 0)"

definition moved :: "px \<Rightarrow> px \<Rightarrow> bool" where
  "moved w w' = (px_jobs w' \<noteq> px_jobs w \<or> px_main w' \<noteq> px_main w)"

fun moves :: "string \<Rightarrow> pipeline_definition \<Rightarrow> (executor_env \<times> px_event) list \<Rightarrow> px \<Rightarrow> nat" where
  "moves runId pl [] w = 0"
| "moves runId pl ((env, e) # evs) w =
     (if moved w (px_step env runId pl e w) then 1 else 0) + moves runId pl evs (px_step env runId pl e w)"

lemma max_attempts_pos [simp]: "0 < max_attempts pl s"
  by (simp add: max_attempts_def)

lemma step_outcome_remaining:
  "remaining pl (fst (step_outcome env now runId pl dl sw out db)) < remaining pl (Waiting sw)"
  by (auto simp: step_outcome_def remaining_def Let_def split_beta
      split: option.split sum.split interruption.split)

lemma step_event_work:
  "work pl (step_event env runId pl i now e w) < work pl w \<or> step_event env runId pl i now e w = w"
proof (cases "i < length (px_jobs w) \<and> (\<exists>sw out. px_jobs w ! i = Waiting sw \<and> wait_over runId (px_db w) sw e = Some out)")
  case False
  then show ?thesis by (auto simp: step_event_def split: step_job.split option.split)
next
  case True
  then obtain sw out where i: "i < length (px_jobs w)" and sw: "px_jobs w ! i = Waiting sw"
    and out: "wait_over runId (px_db w) sw e = Some out" by blast
  define j where "j = fst (step_outcome env now runId pl (px_deadline w) sw out (px_db w))"
  have less: "remaining pl j < remaining pl (px_jobs w ! i)"
    unfolding j_def sw by (rule step_outcome_remaining)
  have jobs: "px_jobs (step_event env runId pl i now e w) = (px_jobs w)[i := j]"
    "px_main (step_event env runId pl i now e w) = px_main w"
    using i sw out by (simp_all add: step_event_def j_def Let_def split_beta)
  have le: "remaining pl (px_jobs w ! i) \<le> sum_list (map (remaining pl) (px_jobs w))"
    by (rule member_le_sum_list) (use i in simp_all)
  have "sum_list (map (remaining pl) ((px_jobs w)[i := j])) < sum_list (map (remaining pl) (px_jobs w))"
    using i less le by (simp add: map_update sum_list_update)
  then show ?thesis by (simp add: work_def jobs)
qed

lemma begin_steps_work:
  assumes "begin_steps env now runId dl ctx level db = (js, db')"
  shows "sum_list (map (remaining pl) js) = sum_list (map (max_attempts pl) level)"
proof -
  note jobs = begin_steps_jobs [of env now runId dl ctx level db, unfolded assms fst_conv]
  have "remaining pl j = max_attempts pl (job_step j)" if "j \<in> set js" for j
    using that jobs(2) by (auto simp: list_all_iff is_waiting_def remaining_def split: step_job.splits)
  then have "map (remaining pl) js = map (max_attempts pl) (map job_step js)" by simp
  then show ?thesis using jobs(1) by simp
qed

lemma enter_level_work:
  "sum_list (map (remaining pl) (px_jobs w)) = 0 \<Longrightarrow>
   work pl (enter_level env now runId pl rest ctx w) \<le> level_work pl rest"
  by (auto simp: enter_level_def work_def level_work_def begin_steps_work simp del: sum_list_eq_0_iff
      split: option.split interruption.split list.split prod.split)

lemma results_work: "results js = Some rs \<Longrightarrow> sum_list (map (remaining pl) js) = 0"
  by (auto simp: results_Some remaining_def)

lemma level_done_work:
  assumes "px_main w = Awaiting rest ctx" and "results (px_jobs w) = Some rs"
  shows "work pl (level_done env now runId pl rest ctx rs w) < work pl w"
  using enter_level_work [of pl] results_work [OF assms(2), of pl] assms(1)
  by (auto simp: level_done_def Let_def work_def le_imp_less_Suc simp del: sum_list_eq_0_iff split: option.split interruption.split)

lemma level_timeout_work:
  "px_main w = Awaiting rest ctx \<Longrightarrow> work pl (level_timeout now runId pl w) < work pl w"
  by (auto simp: level_timeout_def work_def run_threw_def split: option.split interruption.split)

lemma px_step_work: "work pl (px_step env runId pl e w) < work pl w \<or> \<not> moved w (px_step env runId pl e w)"
proof (cases e)
  case (E_store c)
  then show ?thesis by (simp add: moved_def)
next
  case (E_level_timer now)
  then show ?thesis using level_timeout_work by (auto simp: moved_def split: main.split)
next
  case (E_go_on now)
  then show ?thesis using level_done_work by (auto simp: moved_def split: main.split option.split)
qed (use step_event_work moved_def in fastforce)+

lemma moves_work: "moves runId pl evs w \<le> work pl w"
proof (induction evs arbitrary: w)
  case Nil
  then show ?case by simp
next
  case (Cons ee evs)
  obtain env e where ee: "ee = (env, e)" by force
  have "work pl (px_step env runId pl e w) \<le> work pl w"
    using px_step_work [of pl env runId e w] by (auto simp: moved_def work_def)
  then show ?case
    using Cons.IH [of "px_step env runId pl e w"] px_step_work [of pl env runId e w] by (auto simp: ee)
qed

lemma work_idle: "px_jobs w = [] \<Longrightarrow> (\<forall>rest ctx. px_main w \<noteq> Awaiting rest ctx) \<Longrightarrow> work pl w = 0"
  by (simp add: work_def split: main.split)

lemma start_work:
  assumes "start_run env runId now pl ctx st db = Inr (run, w)"
  shows "work pl w \<le> length (levels_of pl) + sum_list (map (max_attempts pl) (pd_steps pl))"
proof -
  obtain db' where w: "w = executeRun env now pl runId db'"
    using assms by (auto simp: start_run_def split: prod.splits sum.splits)
  show ?thesis
  proof (cases "resolvePipelineSteps (pd_steps pl)")
    case (Inl e)
    then show ?thesis by (simp add: w executeRun_def run_threw_def work_def Let_def)
  next
    case (Inr r)
    have "distinct (pd_steps pl)"
      using resolve_Inr_valid [OF Inr] by (simp add: valid_steps_def distinct_map)
    moreover have "distinct (concat (r_levels r))" "set (concat (r_levels r)) = set (pd_steps pl)"
      using resolve_Inr [OF Inr] by metis+
    ultimately have "sum_list (map (max_attempts pl) (concat (r_levels r))) = sum_list (map (max_attempts pl) (pd_steps pl))"
      by (simp only: sum_list_distinct_conv_sum_set)
    moreover have "work pl (executeRun env now pl runId db') \<le> level_work pl (r_levels r)"
      unfolding executeRun_def Inr Let_def
      by (auto simp: run_threw_def work_idle intro!: enter_level_work split: option.split)
    ultimately show ?thesis by (simp add: w levels_of_def Inr level_work_def)
  qed
qed

lemma rejected_over: "\<exists>out. wait_over runId db sw (E_reply i t (R_rejected m)) = Some out"
proof -
  have "\<exists>x. settle (sw_step sw) (sw_dispatched sw) (R_rejected m) = Some x"
    by (cases "sw_dispatched sw") simp_all
  then show ?thesis by (cases "sw_timeout sw") (auto simp: wait_over_def Let_def)
qed

lemma results_None: "results js = None \<Longrightarrow> \<exists>i<length js. \<exists>sw. js ! i = Waiting sw"
proof (induction js)
  case (Cons j js)
  show ?case
  proof (cases j)
    case (Waiting sw)
    then show ?thesis by (intro exI [of _ 0]) simp
  next
    case (Finished r)
    then have "results js = None" using Cons.prems by simp
    then obtain i sw where "i < length js" "js ! i = Waiting sw" using Cons.IH by blast
    then show ?thesis by (intro exI [of _ "Suc i"]) simp
  qed
qed simp

lemma not_stuck:
  assumes "px_main w = Awaiting rest ctx"
  shows "list_ex (\<lambda>i. moved w (px_step env runId pl (E_reply i t (R_rejected m)) w)) [0..<length (px_jobs w)] \<or>
         moved w (px_step env runId pl (E_go_on t) w)"
proof (cases "results (px_jobs w)")
  case (Some rs)
  have "work pl (px_step env runId pl (E_go_on t) w) < work pl w"
    using level_done_work [OF assms Some] assms Some by simp
  then show ?thesis by (auto simp: moved_def work_def)
next
  case None
  have "\<exists>i<length (px_jobs w). \<exists>sw. px_jobs w ! i = Waiting sw" by (rule results_None [OF None])
  then obtain i sw where i: "i < length (px_jobs w)" "px_jobs w ! i = Waiting sw" by blast
  obtain out where out: "wait_over runId (px_db w) sw (E_reply i t (R_rejected m)) = Some out"
    using rejected_over by blast
  define j where "j = fst (step_outcome env t runId pl (px_deadline w) sw out (px_db w))"
  have "remaining pl j < remaining pl (Waiting sw)" unfolding j_def by (rule step_outcome_remaining)
  then have "j \<noteq> px_jobs w ! i" using i by auto
  then have "px_jobs (px_step env runId pl (E_reply i t (R_rejected m)) w) ! i \<noteq> px_jobs w ! i"
    using i out by (simp add: step_event_def Let_def split_beta j_def)
  then have "moved w (px_step env runId pl (E_reply i t (R_rejected m)) w)" by (metis moved_def)
  then show ?thesis using i by (auto simp: list_ex_iff)
qed

text \<open>
  C5. A run ends. However its events are ordered, at most as many of them have an effect on the
  execution as the pipeline has levels and its steps have attempts together; and as long as
  \<open>executeRun\<close> has not returned, some pending answer, or else its continuation, has an effect at any
  time. So once everything that is waited for is answered the run has ended.
\<close>

theorem run_ends:
  assumes "start_run env runId now pl ctx st db = Inr (run, w)"
  shows "moves runId pl evs w \<le> length (levels_of pl) + sum_list (map (max_attempts pl) (pd_steps pl)) \<and>
         (case px_main (px_run runId pl evs w) of
            Awaiting rest ctx' \<Rightarrow>
              list_ex (\<lambda>i. moved (px_run runId pl evs w)
                             (px_step env' runId pl (E_reply i t (R_rejected m)) (px_run runId pl evs w)))
                [0..<length (px_jobs (px_run runId pl evs w))] \<or>
              moved (px_run runId pl evs w) (px_step env' runId pl (E_go_on t) (px_run runId pl evs w))
          | _ \<Rightarrow> True)"
  using start_work [OF assms] moves_work [of runId pl evs w] not_stuck by (auto split: main.split)

section \<open>The number of attempts\<close>

text \<open>How often the steps before, of and behind the current level were begun.\<close>

definition job_begun :: "pipeline_definition \<Rightarrow> (string \<Rightarrow> nat) \<Rightarrow> step_job \<Rightarrow> bool" where
  "job_begun pl c j =
     (c (s_id (job_step j)) \<le> max_attempts pl (job_step j) \<and>
      (case j of Waiting sw \<Rightarrow> c (s_id (sw_step sw)) = sw_attempt sw | Finished r \<Rightarrow> True))"

definition begun_ok ::
  "pipeline_definition \<Rightarrow> (string \<Rightarrow> nat) \<Rightarrow> pipeline_step list list \<Rightarrow> step_job list \<Rightarrow> pipeline_step list list \<Rightarrow> bool" where
  "begun_ok pl c before jobs rest =
     ((\<forall>s\<in>set (concat before). c (s_id s) \<le> max_attempts pl s) \<and> (\<forall>j\<in>set jobs. job_begun pl c j) \<and>
      (\<forall>s\<in>set (concat rest). c (s_id s) = 0))"

definition begun_inv :: "pipeline_step list list \<Rightarrow> pipeline_definition \<Rightarrow> px \<Rightarrow> bool" where
  "begun_inv levels pl w =
     (px_begun w = [] \<and> px_jobs w = [] \<and> (\<forall>rest ctx. px_main w \<noteq> Awaiting rest ctx) \<or>
      (\<exists>before rest. levels = before @ map job_step (px_jobs w) # rest \<and>
         begun_ok pl (count_list (px_begun w)) before (px_jobs w) rest \<and>
         (case px_main w of Awaiting r ctx \<Rightarrow> r = rest | _ \<Rightarrow> True)))"

lemma step_outcome_begun:
  "case step_outcome env now runId pl dl sw out db of
     (Finished r, db', b) \<Rightarrow> b = []
   | (Waiting sw', db', b) \<Rightarrow>
       b = [s_id (sw_step sw)] \<and> sw_step sw' = sw_step sw \<and> sw_attempt sw' = sw_attempt sw + 1 \<and>
       sw_attempt sw < max_attempts pl (sw_step sw)"
  by (auto simp: step_outcome_def Let_def split_beta split: option.split sum.split interruption.split)

lemma begun_inv_cong:
  "px_begun w' = px_begun w \<Longrightarrow> px_jobs w' = px_jobs w \<Longrightarrow> (\<forall>rest ctx. px_main w' \<noteq> Awaiting rest ctx) \<Longrightarrow>
   begun_inv levels pl w \<Longrightarrow> begun_inv levels pl w'"
  by (cases "px_main w'") (auto simp: begun_inv_def)

text \<open>The steps before and behind the level keep their counts.\<close>

lemma begun_ok_other:
  assumes "begun_ok pl c before jobs (levels @ rest)" and "list_all (job_begun pl c') jobs'"
    and "\<And>s. s \<in> set (concat before) \<or> s \<in> set (concat rest) \<Longrightarrow> c' (s_id s) = c (s_id s)"
  shows "begun_ok pl c' before jobs' rest"
  unfolding begun_ok_def
proof (intro conjI ballI)
  fix s
  show "c' (s_id s) \<le> max_attempts pl s" if "s \<in> set (concat before)"
    using assms(1) assms(3) [of s] that unfolding begun_ok_def by (simp del: set_concat)
  show "c' (s_id s) = 0" if "s \<in> set (concat rest)"
    using assms(1) assms(3) [of s] that unfolding begun_ok_def by simp
qed (use assms(2) in \<open>simp add: list_all_iff\<close>)

lemma count_list_distinct: "distinct xs \<Longrightarrow> count_list xs x = (if x \<in> set xs then 1 else 0)"
  by (induction xs) auto

lemma begun_put:
  assumes ok: "begun_ok pl c before jobs rest"
    and dist: "distinct (map s_id (concat (before @ map job_step jobs # rest)))"
    and i: "i < length jobs" and sw: "jobs ! i = Waiting sw"
    and sw': "sw_step sw' = sw_step sw" "sw_attempt sw' = sw_attempt sw + 1"
      "sw_attempt sw < max_attempts pl (sw_step sw)"
    and c': "\<And>k. c' k = c k + (if k = s_id (sw_step sw) then 1 else 0)"
  shows "begun_ok pl c' before (jobs[i := Waiting sw']) rest"
proof -
  let ?k = "s_id (sw_step sw)"
  have "Waiting sw \<in> set jobs" using i sw by (metis nth_mem)
  then have k: "?k \<in> s_id ` set (map job_step jobs)" by force
  moreover have "s_id ` set (concat before @ concat rest) \<inter> s_id ` set (map job_step jobs) = {}"
    by (rule distinct_middle) (use dist in simp)
  ultimately have "s_id s \<noteq> ?k" if "s \<in> set (concat before) \<or> s \<in> set (concat rest)" for s
    using that by (metis IntI Un_iff emptyE imageI set_append)
  then have other: "c' (s_id s) = c (s_id s)" if "s \<in> set (concat before) \<or> s \<in> set (concat rest)" for s
    using that c' by simp
  have "list_all (job_begun pl c') (jobs[i := Waiting sw'])"
    unfolding list_all_iff
  proof
    fix j assume "j \<in> set (jobs[i := Waiting sw'])"
    then obtain n where n: "n < length jobs" "j = jobs[i := Waiting sw'] ! n" by (auto simp: in_set_conv_nth)
    show "job_begun pl c' j"
    proof (cases "n = i")
      case True
      have "job_begun pl c (Waiting sw)" using ok \<open>Waiting sw \<in> set jobs\<close> by (simp add: begun_ok_def)
      then show ?thesis using True n sw' c' by (simp add: job_begun_def)
    next
      case False
      have "distinct (map (\<lambda>j. s_id (job_step j)) jobs)" using dist by (simp add: comp_def)
      then have "s_id (job_step (jobs ! n)) \<noteq> s_id (job_step (jobs ! i))"
        using False n(1) i by (simp add: distinct_conv_nth)
      then have "c' (s_id (job_step (jobs ! n))) = c (s_id (job_step (jobs ! n)))" using c' sw by simp
      moreover have "job_begun pl c (jobs ! n)" using ok n(1) by (simp add: begun_ok_def)
      ultimately show ?thesis using n False by (cases "jobs ! n") (simp_all add: job_begun_def)
    qed
  qed
  then show ?thesis using begun_ok_other [where levels = "[]"] ok other by simp
qed

lemma begun_finish:
  assumes "begun_ok pl c before jobs rest" and "i < length jobs" and "job_step (jobs ! i) = sr_step r"
  shows "begun_ok pl c before (jobs[i := Finished r]) rest"
proof -
  have "job_begun pl c (jobs ! i)" using assms(1,2) by (simp add: begun_ok_def)
  then have "job_begun pl c (Finished r)" using assms(3) by (simp add: job_begun_def)
  then show ?thesis using assms(1) by (auto simp: begun_ok_def dest!: set_update_subset_insert [THEN subsetD])
qed

lemma step_event_begun:
  assumes inv: "begun_inv levels pl w" and dist: "distinct (map s_id (concat levels))"
  shows "begun_inv levels pl (step_event env runId pl i now e w)"
proof (cases "i < length (px_jobs w) \<and> (\<exists>sw out. px_jobs w ! i = Waiting sw \<and> wait_over runId (px_db w) sw e = Some out)")
  case False
  then show ?thesis using inv by (auto simp: step_event_def split: step_job.split option.split)
next
  case True
  then obtain sw out where i: "i < length (px_jobs w)" and sw: "px_jobs w ! i = Waiting sw"
    and out: "wait_over runId (px_db w) sw e = Some out" by blast
  obtain j db' b where so: "step_outcome env now runId pl (px_deadline w) sw out (px_db w) = (j, db', b)"
    by (cases "step_outcome env now runId pl (px_deadline w) sw out (px_db w)") auto
  note outcome = step_outcome_begun [where env = env and now = now and runId = runId and pl = pl and
      dl = "px_deadline w" and sw = sw and out = out and db = "px_db w", unfolded so prod.case]
  have step: "job_step j = sw_step sw"
    using step_outcome_view(1) [where env = env and now = now and runId = runId and pl = pl and
      dl = "px_deadline w" and sw = sw and out = out and db = "px_db w"] so by simp
  obtain before rest where levels: "levels = before @ map job_step (px_jobs w) # rest"
    and ok: "begun_ok pl (count_list (px_begun w)) before (px_jobs w) rest"
    and main: "case px_main w of Awaiting r ctx \<Rightarrow> r = rest | _ \<Rightarrow> True"
    using inv i by (auto simp: begun_inv_def)
  have "begun_ok pl (count_list (px_begun w @ b)) before ((px_jobs w)[i := j]) rest"
  proof (cases j)
    case (Waiting sw')
    then show ?thesis
      using outcome begun_put [OF ok dist [unfolded levels] i sw, of sw'] by (simp add: count_list_append)
  next
    case (Finished r)
    then show ?thesis using outcome begun_finish [OF ok i] sw step by simp
  qed
  moreover have "map job_step ((px_jobs w)[i := j]) = map job_step (px_jobs w)"
    using step sw by (simp add: map_job_step_update)
  ultimately show ?thesis
    using levels main i sw out so by (auto simp: begun_inv_def step_event_def)
qed

lemma enter_level_begun:
  assumes inv: "begun_inv levels pl (w\<lparr>px_main := Returned\<rparr>)" and levels: "levels = before @ rest"
    and ok: "begun_ok pl (count_list (px_begun w)) before [] rest" and dist: "distinct (map s_id (concat levels))"
  shows "begun_inv levels pl (enter_level env now runId pl rest ctx w)"
proof (cases "getRunInterruption now (px_db w) runId pl (px_deadline w) = None \<and> rest \<noteq> []")
  case False
  then have "px_begun (enter_level env now runId pl rest ctx w) = px_begun w"
    "px_jobs (enter_level env now runId pl rest ctx w) = px_jobs w"
    "px_main (enter_level env now runId pl rest ctx w) = Returned"
    by (auto simp: enter_level_def split: option.split interruption.split list.split)
  then show ?thesis by (intro begun_inv_cong [OF _ _ _ inv]) simp_all
next
  case True
  then obtain level rest' where rest: "rest = level # rest'" by (cases rest) simp_all
  obtain js db' where b: "begin_steps env now runId (px_deadline w) ctx level (px_db w) = (js, db')"
    by (metis surj_pair)
  note jobs = begin_steps_jobs [of env now runId "px_deadline w" ctx level "px_db w", unfolded b fst_conv]
  let ?c = "count_list (px_begun w @ map s_id level)"
  have count: "?c k = count_list (px_begun w) k + (if k \<in> s_id ` set level then 1 else 0)" for k
    using dist levels rest by (simp add: count_list_append count_list_distinct)
  have "s_id ` set (concat before @ concat rest') \<inter> s_id ` set level = {}"
    by (rule distinct_middle) (use dist levels rest in simp)
  then have "s_id s \<notin> s_id ` set level" if "s \<in> set (concat before) \<or> s \<in> set (concat rest')" for s
    using that by (metis IntI Un_iff emptyE imageI set_append)
  then have out: "?c (s_id s) = count_list (px_begun w) (s_id s)"
    if "s \<in> set (concat before) \<or> s \<in> set (concat rest')" for s
    using that by (simp only: count if_False add_0_right)
  have "job_begun pl ?c j" if "j \<in> set js" for j
  proof -
    have "is_waiting 1 j" using jobs(2) that by (simp add: list_all_iff)
    then obtain sw where sw: "j = Waiting sw" "sw_attempt sw = 1" by (cases j) (simp_all add: is_waiting_def)
    have "sw_step sw \<in> set level" using jobs(1) that sw by force
    moreover from this have "count_list (px_begun w) (s_id (sw_step sw)) = 0"
      using ok rest by (auto simp: begun_ok_def)
    ultimately show ?thesis
      using sw count [of "s_id (sw_step sw)"] max_attempts_pos [of pl "sw_step sw"]
      by (simp add: job_begun_def del: max_attempts_pos)
  qed
  then have all: "list_all (job_begun pl ?c) js" by (simp add: list_all_iff)
  have "begun_ok pl (count_list (px_begun w)) before [] ([level] @ rest')" using ok rest by simp
  then have "begun_ok pl ?c before js rest'" by (rule begun_ok_other [OF _ all]) (rule out)
  moreover have "enter_level env now runId pl rest ctx w = w\<lparr>px_db := db', px_jobs := js,
      px_main := Awaiting rest' ctx, px_begun := px_begun w @ map s_id level\<rparr>"
    using True rest b by (simp add: enter_level_def)
  ultimately show ?thesis using levels rest jobs(1) by (auto simp: begun_inv_def)
qed

lemma begun_finished:
  assumes "begun_ok pl c before (map Finished rs) rest"
  shows "begun_ok pl c (before @ [map sr_step rs]) [] rest"
  using assms by (auto simp: begun_ok_def job_begun_def)

lemma level_done_begun:
  assumes inv: "begun_inv levels pl w" and main: "px_main w = Awaiting rest ctx"
    and rs: "results (px_jobs w) = Some rs" and dist: "distinct (map s_id (concat levels))"
  shows "begun_inv levels pl (level_done env now runId pl rest ctx rs w)"
proof (cases "\<exists>db. level_done env now runId pl rest ctx rs w = w\<lparr>px_db := db, px_main := Returned\<rparr>")
  case True
  then show ?thesis using inv by (auto intro!: begun_inv_cong [OF _ _ _ inv])
next
  case False
  have jobs: "px_jobs w = map Finished rs" using rs by (simp add: results_Some)
  obtain db where w': "level_done env now runId pl rest ctx rs w =
      enter_level env now runId pl rest (add_outputs ctx rs) (w\<lparr>px_db := db\<rparr>)"
    using False by (auto simp: level_done_def Let_def split: option.splits interruption.splits if_splits
        dest: spec [of _ "px_db w"])
  obtain before where levels: "levels = before @ map sr_step rs # rest"
    and ok: "begun_ok pl (count_list (px_begun w)) before (map Finished rs) rest"
    using inv main jobs by (auto simp: begun_inv_def comp_def)
  have "begun_inv levels pl (w\<lparr>px_db := db, px_main := Returned\<rparr>)"
    by (rule begun_inv_cong [OF _ _ _ inv]) simp_all
  then show ?thesis
    unfolding w' by (intro enter_level_begun [OF _ _ _ dist, where before = "before @ [map sr_step rs]"])
      (simp_all add: levels begun_finished [OF ok])
qed

lemma px_step_begun:
  assumes inv: "begun_inv (levels_of pl) pl w"
  shows "begun_inv (levels_of pl) pl (px_step env runId pl e w)"
proof (cases e)
  case (E_store c)
  then show ?thesis using inv by (simp add: begun_inv_def)
next
  case (E_level_timer now)
  have "px_begun (level_timeout now runId pl w) = px_begun w \<and> px_jobs (level_timeout now runId pl w) = px_jobs w \<and>
      (\<forall>rest ctx. px_main (level_timeout now runId pl w) \<noteq> Awaiting rest ctx)"
    by (auto simp: level_timeout_def run_threw_def split: option.split interruption.split)
  then have "begun_inv (levels_of pl) pl (level_timeout now runId pl w)"
    using begun_inv_cong [OF _ _ _ inv] by blast
  then show ?thesis using E_level_timer inv by (simp split: main.split)
next
  case (E_go_on now)
  then show ?thesis using inv level_done_begun [OF inv _ _ levels_of_distinct] by (auto split: main.split option.split)
qed (use step_event_begun [OF inv levels_of_distinct] in simp_all)

lemma start_begun:
  assumes "start_run env runId now pl ctx st db = Inr (run, w)"
  shows "begun_inv (levels_of pl) pl w"
proof -
  obtain db' where w: "w = executeRun env now pl runId db'"
    using assms by (auto simp: start_run_def split: prod.splits sum.splits)
  have idle: "begun_inv (levels_of pl) pl v"
    if "px_begun v = []" "px_jobs v = []" "\<forall>rest ctx. px_main v \<noteq> Awaiting rest ctx" for v
    using that by (simp add: begun_inv_def)
  show ?thesis
  proof (cases "resolvePipelineSteps (pd_steps pl)")
    case (Inl e)
    then show ?thesis unfolding w by (intro idle) (simp_all add: executeRun_def run_threw_def Let_def)
  next
    case (Inr r)
    have enter: "begun_inv (levels_of pl) pl (enter_level env now runId pl (r_levels r) ctx'
        \<lparr>px_db = db1, px_deadline = d, px_jobs = [], px_main = Returned, px_begun = []\<rparr>)" for db1 d ctx'
      by (rule enter_level_begun [where before = "[]", OF _ _ _ levels_of_distinct])
        (simp_all add: begun_inv_def levels_of_def Inr begun_ok_def)
    show ?thesis
    proof (cases "\<exists>run. getRun db' runId = Some run \<and> pr_status run \<noteq> Run_cancelled")
      case True
      then show ?thesis using enter by (auto simp: w executeRun_def Inr Let_def)
    next
      case False
      then show ?thesis
        unfolding w by (intro idle) (auto simp: executeRun_def Inr Let_def run_threw_def split: option.split)
    qed
  qed
qed

text \<open>
  No step is attempted more often than its retries allow: at most once, or once and as often as its
  retry count (or the pipeline's) says when its strategy is \<open>retry\<close>. This holds for every order of
  answers, timers and store calls, also after the run has ended or been cancelled.
\<close>

theorem attempts_bounded:
  assumes "px_reachable runId pl w"
  shows "list_all (\<lambda>s. count_list (px_begun w) (s_id s) \<le> max_attempts pl s) (pd_steps pl)"
proof -
  have inv: "begun_inv (levels_of pl) pl w"
    using assms by (induction rule: px_reachable.induct) (use start_begun px_step_begun in blast)+
  have "count_list (px_begun w) (s_id s) \<le> max_attempts pl s" if s: "s \<in> set (pd_steps pl)" for s
  proof (cases "px_begun w = []")
    case False
    then obtain before rest where levels: "levels_of pl = before @ map job_step (px_jobs w) # rest"
      and ok: "begun_ok pl (count_list (px_begun w)) before (px_jobs w) rest"
      using inv by (auto simp: begun_inv_def)
    obtain r where "resolvePipelineSteps (pd_steps pl) = Inr r"
      using levels by (cases "resolvePipelineSteps (pd_steps pl)") (simp_all add: levels_of_def)
    then have "s \<in> set (concat before) \<or> s \<in> job_step ` set (px_jobs w) \<or> s \<in> set (concat rest)"
      using levels_of_set [of pl r] s levels by auto
    then show ?thesis using ok unfolding begun_ok_def job_begun_def by (elim disjE imageE) (auto simp del: set_concat)
  qed simp
  then show ?thesis by (simp add: list_all_iff)
qed

section \<open>Sample runs\<close>

definition sample_env :: executor_env where
  "sample_env = \<lparr>ee_conv = example_conv, ee_stringify = (\<lambda>_. []), ee_agents = None, ee_correlates = False,
                  ee_send = (\<lambda>_ _. Inl [])\<rparr>"

definition sample_pipeline :: "pipeline_step list \<Rightarrow> pipeline_definition" where
  "sample_pipeline steps = \<lparr>pd_id = ''p1'', pd_name = ''sample'', pd_description = None, pd_enabled = True,
     pd_steps = steps, pd_errorStrategy = Fail_fast, pd_maxRetries = 1, pd_timeoutSeconds = None,
     pd_createdAt = 1, pd_updatedAt = 1\<rparr>"

definition sample_pipelines_db :: pipeline_db where
  "sample_pipelines_db = \<lparr>pipelines = [\<lparr>p_id = ''p1'', p_name = ''sample'', p_description = None,
     p_enabled = True, p_steps = Corrupt, p_error_strategy = Fail_fast, p_max_retries = 1,
     p_timeout_seconds = None, p_created_at = 1, p_updated_at = 1\<rparr>], pipeline_runs = [],
     pipeline_run_steps = []\<rparr>"

definition one_step :: pipeline_definition where
  "one_step = sample_pipeline [a_step ''a'' []]"

definition retrying :: pipeline_definition where
  "retrying = sample_pipeline [(a_step ''a'' [])\<lparr>s_errorStrategy := Some Retry\<rparr>]"

definition two_steps :: pipeline_definition where
  "two_steps = sample_pipeline [a_step ''a'' [], a_step ''b'' [''a'']]"

definition sample_after ::
  "pipeline_definition \<Rightarrow> error_strategy option \<Rightarrow> px_event list \<Rightarrow> (px \<Rightarrow> 'b) \<Rightarrow> 'b option" where
  "sample_after pl strategy evs f =
     (case start_run sample_env ''r1'' 5000 pl None strategy sample_pipelines_db of
        Inl e \<Rightarrow> None
      | Inr (run, w) \<Rightarrow> Some (f (px_run ''r1'' pl (map (Pair sample_env) evs) w)))"

definition is_returned :: "px \<Rightarrow> bool" where
  "is_returned w = (case px_main w of Returned \<Rightarrow> True | _ \<Rightarrow> False)"

lemma is_returnedD: "is_returned w \<Longrightarrow> px_main w = Returned"
  by (simp add: is_returned_def split: main.splits)

lemma sample_run_reachable:
  assumes "sample_after pl strategy evs f = Some y" and "list_all (own_event ''r1'') evs"
  shows "\<exists>w :: px. px_reachable ''r1'' pl w \<and> f w = y"
proof -
  obtain run and w :: px where st: "start_run sample_env ''r1'' 5000 pl None strategy sample_pipelines_db = Inr (run, w)"
    and y: "f (px_run ''r1'' pl (map (Pair sample_env) evs) w) = y"
    using assms(1) by (auto simp: sample_after_def split: sum.splits prod.splits)
  have "px_reachable ''r1'' pl w"
    by (rule px_reachable.started [OF st]) (simp add: sample_pipelines_db_def getRunSteps_def)
  then have "px_reachable ''r1'' pl (px_run ''r1'' pl (map (Pair sample_env) evs) w)"
    by (rule px_reachable_run) (use assms(2) in \<open>simp add: list_all_iff\<close>)
  then show ?thesis using y by blast
qed

lemma one_step_completes:
  "sample_after one_step None [E_reply 0 6000 (R_primary None ''A''), E_go_on 6000]
     (\<lambda>w. (is_returned w, run_state (px_db w) ''r1'')) = Some (True, Some Run_completed)"
  by code_simp

theorem returned_run_settled_witness:
  "\<exists>w :: px. px_main w = Returned \<and> run_state (px_db w) ''r1'' = Some Run_completed \<and>
       list_all (passed one_step (row_status (px_db w) ''r1'')) (concat (levels_of one_step))"
proof -
  obtain w :: px where w: "px_reachable ''r1'' one_step w"
    "(is_returned w, run_state (px_db w) ''r1'') = (True, Some Run_completed)"
    using sample_run_reachable [OF one_step_completes] by auto
  have r: "px_main w = Returned" using w(2) by (simp add: is_returnedD)
  show ?thesis using returned_run_settled [OF w(1) r] r w(2) by auto
qed

lemma second_level:
  "sample_after two_steps None [E_reply 0 6000 (R_primary None ''A''), E_go_on 6000]
     (\<lambda>w. (run_state (px_db w) ''r1'', map (\<lambda>sw. s_dependsOn (sw_step sw)) (working w))) =
   Some (Some Run_running, [[''a'']])"
  by code_simp

theorem steps_wait_for_dependencies_witness:
  "\<exists>w :: px. map (\<lambda>sw. s_dependsOn (sw_step sw)) (working w) = [[''a'']] \<and>
       list_ex (\<lambda>s. s_id s = ''a'' \<and> passed two_steps (row_status (px_db w) ''r1'') s) (pd_steps two_steps)"
proof -
  obtain w :: px where w: "px_reachable ''r1'' two_steps w"
    "(run_state (px_db w) ''r1'', map (\<lambda>sw. s_dependsOn (sw_step sw)) (working w)) = (Some Run_running, [[''a'']])"
    using sample_run_reachable [OF second_level] by auto
  then have r: "run_state (px_db w) ''r1'' = Some Run_running" by simp
  obtain sw where "working w = [sw]" "s_dependsOn (sw_step sw) = [''a'']" using w(2) by auto
  then have d: "list_ex (\<lambda>s. s_id s = ''a'' \<and> passed two_steps (row_status (px_db w) ''r1'') s) (pd_steps two_steps)"
    using steps_wait_for_dependencies [OF w(1) r] by (simp only: list.pred_inject simp_thms)
  show ?thesis by (intro exI [of _ w] conjI d) (use w(2) in simp)
qed

lemma cancelled_sample:
  "sample_after one_step None [E_store (C_cancel 6 ''p1'' ''r1'')]
     (\<lambda>w. isRunCancelled (px_db w) ''r1'') = Some True"
  by code_simp

theorem cancelled_run_inert_witness:
  "\<exists>w :: px. isRunCancelled (px_db w) ''r1'' \<and>
       px_begun (px_run ''r1'' one_step [(sample_env, E_reply 0 7000 (R_primary None ''A'')),
         (sample_env, E_store (C_skip 8 ''r2'' []))] w) = px_begun w"
proof -
  obtain w :: px where w: "isRunCancelled (px_db w) ''r1''" using sample_run_reachable [OF cancelled_sample] by auto
  have g: "list_all (\<lambda>(env, e). guarded_event ''r1'' e) [(sample_env, E_reply 0 7000 (R_primary None ''A'')),
      (sample_env, E_store (C_skip 8 ''r2'' []))]" by simp
  show ?thesis using cancelled_run_inert [OF w g] w by blast
qed

theorem run_ends_witness:
  "\<exists>run (w :: px). start_run sample_env ''r1'' 5000 retrying None None sample_pipelines_db = Inr (run, w) \<and>
     moves ''r1'' retrying [(sample_env, E_reply 0 6000 (R_rejected []))] w \<le> 3"
proof -
  have "sample_after retrying None [] (\<lambda>w. ()) = Some ()" by code_simp
  then obtain run and w :: px where st: "start_run sample_env ''r1'' 5000 retrying None None sample_pipelines_db = Inr (run, w)"
    by (auto simp: sample_after_def split: sum.splits prod.splits)
  have "length (levels_of retrying) + sum_list (map (max_attempts retrying) (pd_steps retrying)) = 3" by code_simp
  then show ?thesis using run_ends [OF st, of "[(sample_env, E_reply 0 6000 (R_rejected []))]"] st by auto
qed

lemma retried:
  "sample_after retrying None [E_reply 0 6000 (R_rejected [])] px_begun = Some [''a'', ''a'']"
  by code_simp

theorem attempts_bounded_witness:
  "\<exists>w :: px. px_begun w = [''a'', ''a''] \<and>
       list_all (\<lambda>s. count_list (px_begun w) (s_id s) \<le> max_attempts retrying s) (pd_steps retrying)"
proof -
  obtain w :: px where w: "px_reachable ''r1'' retrying w" "px_begun w = [''a'', ''a'']"
    using sample_run_reachable [OF retried] by auto
  show ?thesis using attempts_bounded [OF w(1)] w(2) by blast
qed

section \<open>Two runs that do not do what they should\<close>

text \<open>
  A run started with the strategy \<open>continue\<close> still fails with its first failing step: the strategy of
  the run is stored and never read.
\<close>

lemma run_strategy_ignored:
  "sample_after one_step (Some Continue) [E_reply 0 6000 (R_rejected []), E_go_on 6000]
     (\<lambda>w. (map_option pr_errorStrategy (getRun (px_db w) ''r1''), run_state (px_db w) ''r1'')) =
   Some (Some Continue, Some Run_failed)"
  by code_simp

text \<open>When the pipeline is deleted, a failing step of its run is attempted again all the same.\<close>

lemma deleted_run_retries:
  "sample_after retrying None [E_store (C_delete_pipeline ''p1''), E_reply 0 6000 (R_rejected [])]
     (\<lambda>w. (run_state (px_db w) ''r1'', px_begun w)) = Some (None, [''a'', ''a''])"
  by code_simp

end
