(* ===== verification/DelegationStore.thy ===== *)
theory DelegationStore
  imports TaskStore JsString Json JsNumber "HOL-Library.List_Lexorder" "HOL-Library.Char_ord"
begin

text \<open>
  Tasks split into subtasks for other agents: \<open>TaskDelegationStore\<close> of src/agent/delegation/store.ts
  over the tables \<open>task_subtasks\<close> and \<open>task_subtask_dependencies\<close>, beside the tables of the task store.

  The columns \<open>required_skills\<close> and \<open>required_tools\<close> hold arrays of strings in JSON, which this store
  alone writes; a column is the array its text parses to. \<open>randomUUID()\<close> in the call for several
  subtasks is \<open>ids\<close>, from the index of a plan to its id. A row's \<open>status\<close> is one of the six that the
  CHECK constraint of the table allows, so that the test of \<open>rowToSubtask\<close> on it always succeeds.
\<close>

type_synonym subtask_id = string

definition MAX_DELEGATION_DEPTH :: nat where "MAX_DELEGATION_DEPTH = 3"

datatype subtask_status =
  ST_pending | ST_delegated | ST_in_progress | ST_done | ST_failed | ST_cancelled

section \<open>Rows and subtasks\<close>

record subtask_row =
  sr_id :: subtask_id
  sr_task_id :: task_id
  sr_parent_id :: "subtask_id option"
  sr_description :: string
  sr_required_skills :: "string list json_text"
  sr_required_tools :: "string list json_text"
  sr_agent_id :: "string option"
  sr_status :: subtask_status
  sr_result :: "string option"
  sr_error :: "string option"
  sr_depth :: nat
  sr_created_at :: int
  sr_updated_at :: int
  sr_started_at :: "int option"
  sr_completed_at :: "int option"

record task_subtask =
  st_id :: subtask_id
  st_taskId :: task_id
  st_parentId :: "subtask_id option"
  st_description :: string
  st_requiredSkills :: "string list"
  st_requiredTools :: "string list"
  st_agentId :: "string option"
  st_status :: subtask_status
  st_result :: "string option"
  st_error :: "string option"
  st_depth :: nat
  st_createdAt :: int
  st_updatedAt :: int
  st_startedAt :: "int option"
  st_completedAt :: "int option"
  st_dependencies :: "subtask_id list"

record delegation_db =
  task_tables :: task_db
  subtasks :: "subtask_row list"
  subtask_dependencies :: "(subtask_id \<times> subtask_id) list"

datatype subtask_error =
    TaskNotFound task_id
  | ParentNotFound subtask_id
  | ParentOfOtherTask
  | TooDeep nat
  | DescriptionRequired
  | AgentRequired
  | SubtaskNotFound subtask_id
  | InvalidStatus string
  | UnknownDependency subtask_id
  | DependencyOfOtherTask
  | CircularSubtasks
  | CreationFailed nat
  | Disappeared subtask_id
  | SubtaskIdTaken subtask_id

text \<open>The names of the statuses, and \<open>statusIsValid\<close> with the status it recognises.\<close>

definition SUBTASK_STATUSES :: "(string \<times> subtask_status) list" where
  "SUBTASK_STATUSES =
     [(''pending'', ST_pending), (''delegated'', ST_delegated), (''in_progress'', ST_in_progress),
      (''done'', ST_done), (''failed'', ST_failed), (''cancelled'', ST_cancelled)]"

definition statusIsValid :: "string \<Rightarrow> subtask_status option" where
  "statusIsValid s = map_of SUBTASK_STATUSES s"

definition parseStringArray :: "string list json_text \<Rightarrow> string list" where
  "parseStringArray v =
     (case v of Text items \<Rightarrow> filter (\<lambda>s. s \<noteq> []) (map trim items) | Corrupt \<Rightarrow> [])"

definition normalizeStringArray :: "string list option \<Rightarrow> string list" where
  "normalizeStringArray input = (case input of None \<Rightarrow> [] | Some xs \<Rightarrow> clean_strings xs)"

definition rowToSubtask :: "subtask_row \<Rightarrow> subtask_id list \<Rightarrow> task_subtask" where
  "rowToSubtask row deps =
     \<lparr>st_id = sr_id row,
      st_taskId = sr_task_id row,
      st_parentId = sr_parent_id row,
      st_description = sr_description row,
      st_requiredSkills = parseStringArray (sr_required_skills row),
      st_requiredTools = parseStringArray (sr_required_tools row),
      st_agentId = sr_agent_id row,
      st_status = sr_status row,
      st_result = sr_result row,
      st_error = sr_error row,
      st_depth = sr_depth row,
      st_createdAt = sr_created_at row * 1000,
      st_updatedAt = sr_updated_at row * 1000,
      st_startedAt = date_of (sr_started_at row),
      st_completedAt = date_of (sr_completed_at row),
      st_dependencies = deps\<rparr>"

section \<open>Reading\<close>

definition taskExists :: "delegation_db \<Rightarrow> task_id \<Rightarrow> bool" where
  "taskExists db taskId = (getTask_row (task_tables db) taskId \<noteq> None)"

text \<open>ORDER BY on a text column is the order of the character codes.\<close>

definition getDependencies_d :: "(subtask_id \<times> subtask_id) list \<Rightarrow> subtask_id \<Rightarrow> subtask_id list" where
  "getDependencies_d E subtaskId = sort (getDependencies_rows E subtaskId)"

definition getSubtask_row :: "delegation_db \<Rightarrow> subtask_id \<Rightarrow> subtask_row option" where
  "getSubtask_row db subtaskId = sql_get sr_id subtaskId (subtasks db)"

definition getSubtask :: "delegation_db \<Rightarrow> subtask_id \<Rightarrow> task_subtask option" where
  "getSubtask db subtaskId =
     (case getSubtask_row db subtaskId of
        None \<Rightarrow> None
      | Some row \<Rightarrow> Some (rowToSubtask row (getDependencies_d (subtask_dependencies db) subtaskId)))"

text \<open>The join of the dependency rows with the subtasks of a task, gathered into a map.\<close>

definition getDependencyMap :: "delegation_db \<Rightarrow> task_id \<Rightarrow> subtask_id \<Rightarrow> subtask_id list option" where
  "getDependencyMap db taskId =
     (let rows = sort_key snd
        (filter (\<lambda>e. \<exists>s \<in> set (subtasks db). sr_id s = fst e \<and> sr_task_id s = taskId)
          (subtask_dependencies db))
      in fold (\<lambda>(s, d) m. m(s \<mapsto> nullish (m s) [] @ [d])) rows Map.empty)"

definition listSubtasks :: "delegation_db \<Rightarrow> task_id \<Rightarrow> task_subtask list" where
  "listSubtasks db taskId =
     (let rows = order_asc (\<lambda>r. int (sr_depth r)) (order_asc sr_created_at
            (filter (\<lambda>r. sr_task_id r = taskId) (subtasks db)));
          dependencyMap = getDependencyMap db taskId
      in map (\<lambda>row. rowToSubtask row (nullish (dependencyMap (sr_id row)) [])) rows)"

text \<open>
  The share of the finished subtasks of an agent that are done, for the agents that finished any.
\<close>

definition getAgentPerformance :: "delegation_db \<Rightarrow> string \<Rightarrow> js_num option" where
  "getAgentPerformance db agentId =
     (let rows = filter (\<lambda>r. sr_agent_id r = Some agentId) (subtasks db);
          done_count = length (filter (\<lambda>r. sr_status r = ST_done) rows);
          failed_count = length (filter (\<lambda>r. sr_status r = ST_failed) rows);
          total = done_count + failed_count
      in if 0 < total then Some (js_int_div (int done_count) (int total)) else None)"

section \<open>Dependencies\<close>

text \<open>
  The search for a cycle. Unlike the one of the task store it gives up at an empty id.
\<close>

function subtask_search ::
  "(subtask_id \<times> subtask_id) list \<Rightarrow> subtask_id \<Rightarrow> subtask_id list \<Rightarrow> subtask_id list \<Rightarrow> bool" where
  "subtask_search E t visited [] = False"
| "subtask_search E t visited (current # queue) =
     (if current = [] then False
      else if current = t then True
      else if current \<in> set visited then subtask_search E t visited queue
      else subtask_search E t (current # visited) (queue @ getDependencies_d E current))"
  by pat_completeness auto
termination
proof (relation "measures [\<lambda>(E, t, vis, q). card ((set q \<union> snd ` set E) - set vis),
                           \<lambda>(E, t, vis, q). length q]", goal_cases)
  case 1
  then show ?case by simp
next
  case (2 E t vis c q)
  from search_skips [OF 2(3), of q E] show ?case by simp
next
  case (3 E t vis c q)
  have "set (getDependencies_d E c) \<subseteq> snd ` set E"
    by (auto simp: getDependencies_d_def getDependencies_rows_def)
  from search_shrinks [OF 3(3) this] show ?case by simp
qed

definition wouldCreateCycle_d :: "(subtask_id \<times> subtask_id) list \<Rightarrow> subtask_id \<Rightarrow> subtask_id \<Rightarrow> bool" where
  "wouldCreateCycle_d E subtaskId dependencyId =
     (if subtaskId = dependencyId then True else subtask_search E subtaskId [] [dependencyId])"

text \<open>
  Both subtasks exist when the row is inserted, so the foreign keys hold; INSERT OR IGNORE leaves a
  row that is there alone.
\<close>

definition addDependency_d ::
  "subtask_id \<Rightarrow> subtask_id \<Rightarrow> delegation_db \<Rightarrow> (subtask_error, unit, delegation_db) outcome" where
  "addDependency_d subtaskId dependencyId db =
     (case (getSubtask db subtaskId, getSubtask db dependencyId) of
        (Some subtask, Some dependency) \<Rightarrow>
          if st_taskId subtask \<noteq> st_taskId dependency then throw DependencyOfOtherTask db
          else if wouldCreateCycle_d (subtask_dependencies db) subtaskId dependencyId
          then throw CircularSubtasks db
          else if (subtaskId, dependencyId) \<in> set (subtask_dependencies db) then ret () db
          else ret () (db\<lparr>subtask_dependencies := subtask_dependencies db @ [(subtaskId, dependencyId)]\<rparr>)
      | _ \<Rightarrow> throw (UnknownDependency dependencyId) db)"

section \<open>Creating subtasks\<close>

record subtask_plan =
  p_planId :: "string option"
  p_description :: string
  p_requiredSkills :: "string list option"
  p_requiredTools :: "string list option"
  p_dependsOn :: "string list option"
  p_agentId :: "string option"

definition subtask_insert ::
  "subtask_id \<Rightarrow> task_id \<Rightarrow> subtask_id option \<Rightarrow> nat \<Rightarrow> int \<Rightarrow> subtask_plan \<Rightarrow> subtask_row" where
  "subtask_insert sid taskId parentId depth now plan =
     (let agentId = non_empty (map_option trim (p_agentId plan)) in
      \<lparr>sr_id = sid,
       sr_task_id = taskId,
       sr_parent_id = parentId,
       sr_description = trim (p_description plan),
       sr_required_skills = Text (normalizeStringArray (p_requiredSkills plan)),
       sr_required_tools = Text (normalizeStringArray (p_requiredTools plan)),
       sr_agent_id = agentId,
       sr_status = (if agentId = None then ST_pending else ST_delegated),
       sr_result = None,
       sr_error = None,
       sr_depth = depth,
       sr_created_at = now,
       sr_updated_at = now,
       sr_started_at = None,
       sr_completed_at = None\<rparr>)"

text \<open>\<open>planIdToSubtaskId\<close> after the plan at \<open>index\<close> has been inserted.\<close>

definition name_plan ::
  "nat \<Rightarrow> subtask_plan \<Rightarrow> subtask_id \<Rightarrow> (string \<rightharpoonup> subtask_id) \<Rightarrow> (string \<rightharpoonup> subtask_id)" where
  "name_plan index plan sid m =
     (let m1 = m(decimal index \<mapsto> sid);
          m2 = m1(decimal (index + 1) \<mapsto> sid)
      in case non_empty (map_option trim (p_planId plan)) of
           None \<Rightarrow> m2
         | Some planId \<Rightarrow> m2(planId \<mapsto> sid))"

text \<open>The first \<open>plans.forEach\<close>: insert the rows and name the plans.\<close>

fun insert_plans ::
  "(nat \<Rightarrow> subtask_id) \<Rightarrow> task_id \<Rightarrow> subtask_id option \<Rightarrow> nat \<Rightarrow> int \<Rightarrow> nat \<Rightarrow> subtask_plan list \<Rightarrow>
   (string \<rightharpoonup> subtask_id) \<Rightarrow> delegation_db \<Rightarrow>
   (subtask_error, string \<rightharpoonup> subtask_id, delegation_db) outcome" where
  "insert_plans ids taskId parentId depth now index [] m db = ret m db"
| "insert_plans ids taskId parentId depth now index (plan # plans) m db =
     (if trim (p_description plan) = [] then throw DescriptionRequired db
      else
        let sid = ids index in
        if getSubtask_row db sid \<noteq> None then throw (SubtaskIdTaken sid) db
        else
          insert_plans ids taskId parentId depth now (index + 1) plans (name_plan index plan sid m)
            (db\<lparr>subtasks := subtasks db @ [subtask_insert sid taskId parentId depth now plan]\<rparr>))"

definition plan_ref :: "(string \<rightharpoonup> subtask_id) \<Rightarrow> string \<Rightarrow> subtask_id" where
  "plan_ref m dependencyRef = nullish (m dependencyRef) dependencyRef"

text \<open>The second \<open>plans.forEach\<close>: insert the dependencies.\<close>

fun link_plans ::
  "(nat \<Rightarrow> subtask_id) \<Rightarrow> (string \<rightharpoonup> subtask_id) \<Rightarrow> nat \<Rightarrow> subtask_plan list \<Rightarrow> delegation_db \<Rightarrow>
   (subtask_error, unit, delegation_db) outcome" where
  "link_plans ids m index [] db = ret () db"
| "link_plans ids m index (plan # plans) db =
     (let subtaskId = ids index in
      if subtaskId = [] then throw (CreationFailed index) db
      else
        case add_all addDependency_d subtaskId (map (plan_ref m) (nullish (p_dependsOn plan) [])) db of
          (Inl e, db') \<Rightarrow> throw e db'
        | (Inr _, db') \<Rightarrow> link_plans ids m (index + 1) plans db')"

text \<open>Both loops run in a transaction: when one of them throws, the database is as before.\<close>

definition createSubtasks ::
  "(nat \<Rightarrow> subtask_id) \<Rightarrow> int \<Rightarrow> task_id \<Rightarrow> subtask_plan list \<Rightarrow> subtask_id option \<Rightarrow> delegation_db \<Rightarrow>
   (subtask_error, task_subtask list, delegation_db) outcome" where
  "createSubtasks ids nowMs taskId plans parentId db =
     (if \<not> taskExists db taskId then throw (TaskNotFound taskId) db
      else if plans = [] then ret [] db
      else
        let parent = (case non_empty parentId of None \<Rightarrow> None | Some p \<Rightarrow> getSubtask db p) in
        if non_empty parentId \<noteq> None \<and> parent = None then throw (ParentNotFound (the parentId)) db
        else if (case parent of None \<Rightarrow> False | Some p \<Rightarrow> st_taskId p \<noteq> taskId) then throw ParentOfOtherTask db
        else
          let depth = (case parent of None \<Rightarrow> 1 | Some p \<Rightarrow> st_depth p + 1) in
          if depth > MAX_DELEGATION_DEPTH then throw (TooDeep MAX_DELEGATION_DEPTH) db
          else
            case insert_plans ids taskId (map_option st_id parent) depth (secs nowMs) 0 plans Map.empty db of
              (Inl e, _) \<Rightarrow> throw e db
            | (Inr m, db1) \<Rightarrow>
                (case link_plans ids m 0 plans db1 of
                   (Inl e, _) \<Rightarrow> throw e db
                 | (Inr _, db2) \<Rightarrow>
                     ret (List.map_filter (\<lambda>i. getSubtask db2 (ids i)) [0..<length plans]) db2))"

section \<open>Updating\<close>

record subtask_updates =
  su_description :: "string option"
  su_requiredSkills :: "string list option"
  su_requiredTools :: "string list option"
  su_agentId :: "string jsval"
  su_status :: "string option"
  su_result :: "string jsval"
  su_error :: "string jsval"

definition no_subtask_updates :: subtask_updates where
  "no_subtask_updates =
     \<lparr>su_description = None, su_requiredSkills = None, su_requiredTools = None, su_agentId = Undefined,
      su_status = None, su_result = Undefined, su_error = Undefined\<rparr>"

text \<open>A column that an update may leave alone, set to NULL, or set.\<close>

fun set_column :: "'a jsval \<Rightarrow> 'a option \<Rightarrow> 'a option" where
  "set_column Undefined old = old"
| "set_column Null old = None"
| "set_column (Val x) old = Some x"

text \<open>The SET clause, from the subtask that was read and the status recognised in the update.\<close>

definition updateSubtask_set ::
  "subtask_updates \<Rightarrow> subtask_status option \<Rightarrow> task_subtask \<Rightarrow> int \<Rightarrow> subtask_row \<Rightarrow> subtask_row" where
  "updateSubtask_set u status existing now r =
     r\<lparr>sr_description := nullish (map_option trim (su_description u)) (sr_description r),
       sr_required_skills := (case su_requiredSkills u of None \<Rightarrow> sr_required_skills r
                              | Some xs \<Rightarrow> Text (normalizeStringArray (Some xs))),
       sr_required_tools := (case su_requiredTools u of None \<Rightarrow> sr_required_tools r
                             | Some xs \<Rightarrow> Text (normalizeStringArray (Some xs))),
       sr_agent_id := (case su_agentId u of Undefined \<Rightarrow> sr_agent_id r | Null \<Rightarrow> None
                       | Val a \<Rightarrow> non_empty (Some (trim a))),
       sr_status := nullish status (sr_status r),
       sr_started_at := (if status = Some ST_in_progress \<and> st_startedAt existing = None
                         then Some now else sr_started_at r),
       sr_completed_at := (if status \<in> Some ` {ST_done, ST_failed, ST_cancelled} \<and>
                              st_completedAt existing = None
                           then Some now else sr_completed_at r),
       sr_result := set_column (su_result u) (sr_result r),
       sr_error := set_column (su_error u) (sr_error r),
       sr_updated_at := now\<rparr>"

definition updateSubtask ::
  "int \<Rightarrow> subtask_id \<Rightarrow> subtask_updates \<Rightarrow> delegation_db \<Rightarrow>
   (subtask_error, task_subtask, delegation_db) outcome" where
  "updateSubtask nowMs subtaskId u db =
     (case getSubtask db subtaskId of
        None \<Rightarrow> throw (SubtaskNotFound subtaskId) db
      | Some existing \<Rightarrow>
          if (case su_description u of None \<Rightarrow> False | Some d \<Rightarrow> trim d = []) then throw DescriptionRequired db
          else if (case su_status u of None \<Rightarrow> False | Some s \<Rightarrow> statusIsValid s = None)
          then throw (InvalidStatus (the (su_status u))) db
          else if u = no_subtask_updates then ret existing db
          else
            let status = (case su_status u of None \<Rightarrow> None | Some s \<Rightarrow> statusIsValid s);
                db' = db\<lparr>subtasks := sql_update sr_id subtaskId
                           (updateSubtask_set u status existing (secs nowMs)) (subtasks db)\<rparr>
            in case getSubtask db' subtaskId of
                 None \<Rightarrow> throw (Disappeared subtaskId) db'
               | Some updated \<Rightarrow> ret updated db')"

definition assignSubtask ::
  "int \<Rightarrow> subtask_id \<Rightarrow> string \<Rightarrow> delegation_db \<Rightarrow> (subtask_error, task_subtask, delegation_db) outcome" where
  "assignSubtask nowMs subtaskId agentId db =
     (if trim agentId = [] then throw AgentRequired db
      else updateSubtask nowMs subtaskId
        (no_subtask_updates\<lparr>su_agentId := Val (trim agentId), su_status := Some ''delegated'',
                            su_error := Null\<rparr>) db)"

definition retrySubtask ::
  "int \<Rightarrow> task_id \<Rightarrow> subtask_id \<Rightarrow> delegation_db \<Rightarrow>
   (subtask_error, task_subtask, delegation_db) outcome" where
  "retrySubtask nowMs taskId subtaskId db =
     (case getSubtask db subtaskId of
        None \<Rightarrow> throw (SubtaskNotFound subtaskId) db
      | Some existing \<Rightarrow>
          if st_taskId existing \<noteq> taskId then throw (SubtaskNotFound subtaskId) db
          else
            let nextStatus = (if non_empty (st_agentId existing) = None then ST_pending else ST_delegated);
                db' = db\<lparr>subtasks := sql_update sr_id subtaskId
                  (\<lambda>r. r\<lparr>sr_status := nextStatus, sr_result := None, sr_error := None,
                         sr_started_at := None, sr_completed_at := None,
                         sr_updated_at := secs nowMs\<rparr>) (subtasks db)\<rparr>
            in case getSubtask db' subtaskId of
                 None \<Rightarrow> throw (Disappeared subtaskId) db'
               | Some updated \<Rightarrow> ret updated db')"

text \<open>
  Deleting a task deletes its subtasks and their dependency rows (ON DELETE CASCADE). Parents and
  children are subtasks of one task, so the cascade along \<open>parent_id\<close> reaches no other row.
\<close>

definition deleteTask_cascade :: "task_id \<Rightarrow> delegation_db \<Rightarrow> delegation_db" where
  "deleteTask_cascade taskId db =
     (let gone = (\<lambda>sid. \<exists>r \<in> set (subtasks db). sr_id r = sid \<and> sr_task_id r = taskId) in
      \<lparr>task_tables = snd (deleteTask taskId (task_tables db)),
       subtasks = sql_delete (\<lambda>r. sr_task_id r = taskId) (subtasks db),
       subtask_dependencies = filter (\<lambda>e. \<not> gone (fst e) \<and> \<not> gone (snd e)) (subtask_dependencies db)\<rparr>)"

section \<open>The task tree\<close>

datatype timeline_type = Created | Delegated | Started | Completed | Failed | Cancelled

record timeline_event =
  e_id :: string
  e_type :: timeline_type
  e_subtaskId :: subtask_id
  e_subtaskDescription :: string
  e_agentId :: "string option"
  e_at :: int
  e_message :: string

definition quoted :: "string \<Rightarrow> string" where
  "quoted s = [CHR 0x22] @ s @ [CHR 0x22]"

definition created_event :: "task_subtask \<Rightarrow> timeline_event list" where
  "created_event s =
     [\<lparr>e_id = st_id s @ '':created'', e_type = Created, e_subtaskId = st_id s,
       e_subtaskDescription = st_description s, e_agentId = None, e_at = st_createdAt s,
       e_message = ''Created subtask '' @ quoted (st_description s)\<rparr>]"

definition delegated_event :: "task_subtask \<Rightarrow> timeline_event list" where
  "delegated_event s =
     (case non_empty (st_agentId s) of
        None \<Rightarrow> []
      | Some a \<Rightarrow>
          [\<lparr>e_id = st_id s @ '':delegated'', e_type = Delegated, e_subtaskId = st_id s,
            e_subtaskDescription = st_description s, e_agentId = Some a, e_at = st_updatedAt s,
            e_message = ''Delegated to '' @ a\<rparr>])"

definition started_event :: "task_subtask \<Rightarrow> timeline_event list" where
  "started_event s =
     (case st_startedAt s of
        None \<Rightarrow> []
      | Some t \<Rightarrow>
          [\<lparr>e_id = st_id s @ '':started'', e_type = Started, e_subtaskId = st_id s,
            e_subtaskDescription = st_description s, e_agentId = st_agentId s, e_at = t,
            e_message = ''Started '' @ quoted (st_description s)\<rparr>])"

text \<open>The parts of the last event that depend on the status: its id, its type, its message.\<close>

definition end_words :: "subtask_status \<Rightarrow> (string \<times> timeline_type \<times> string) option" where
  "end_words st =
     (case st of
        ST_done \<Rightarrow> Some ('':done'', Completed, ''Completed '')
      | ST_failed \<Rightarrow> Some ('':failed'', Failed, ''failed '')
      | ST_cancelled \<Rightarrow> Some ('':cancelled'', Cancelled, ''cancelled '')
      | _ \<Rightarrow> None)"

definition ended_event :: "task_subtask \<Rightarrow> timeline_event list" where
  "ended_event s =
     (case (st_completedAt s, end_words (st_status s)) of
        (Some t, Some (i, ty, m)) \<Rightarrow>
          [\<lparr>e_id = st_id s @ i, e_type = ty, e_subtaskId = st_id s,
            e_subtaskDescription = st_description s, e_agentId = st_agentId s, e_at = t,
            e_message = m @ quoted (st_description s)\<rparr>]
      | _ \<Rightarrow> [])"

text \<open>
  The comparison of the sort: by time, then by id as \<open>localeCompare\<close> orders them; \<open>le\<close> says that
  \<open>a.localeCompare(b) <= 0\<close>. The sort is stable.
\<close>

definition event_le :: "(string \<Rightarrow> string \<Rightarrow> bool) \<Rightarrow> timeline_event \<Rightarrow> timeline_event \<Rightarrow> bool" where
  "event_le le a b = (e_at a < e_at b \<or> e_at a = e_at b \<and> le (e_id a) (e_id b))"

fun insert_event :: "(string \<Rightarrow> string \<Rightarrow> bool) \<Rightarrow> timeline_event \<Rightarrow> timeline_event list \<Rightarrow> timeline_event list" where
  "insert_event le a [] = [a]"
| "insert_event le a (b # bs) = (if event_le le a b then a # b # bs else b # insert_event le a bs)"

definition buildTimeline :: "(string \<Rightarrow> string \<Rightarrow> bool) \<Rightarrow> task_subtask list \<Rightarrow> timeline_event list" where
  "buildTimeline le ss =
     foldr (insert_event le)
       (concat (map (\<lambda>s. created_event s @ delegated_event s @ started_event s @ ended_event s) ss)) []"

text \<open>
  The nodes are objects whose \<open>children\<close> arrays the loop fills; \<open>children\<close> maps the id of a node to
  its array. \<open>read_node\<close> is what a reader sees who follows the arrays down from a node; subtasks are
  at most three deep, so that many levels are enough (\<open>getTaskTree_complete\<close>).
\<close>

datatype subtask_node = Node task_subtask "subtask_node list"

definition link_node ::
  "subtask_id list \<Rightarrow> task_subtask \<Rightarrow> (subtask_id \<Rightarrow> task_subtask list) \<times> task_subtask list \<Rightarrow>
   (subtask_id \<Rightarrow> task_subtask list) \<times> task_subtask list" where
  "link_node byId node st =
     (case st of (children, roots) \<Rightarrow>
        (case non_empty (st_parentId node) of
           Some p \<Rightarrow>
             if p \<in> set byId then (children(p := children p @ [node]), roots)
             else (children, roots @ [node])
         | None \<Rightarrow> (children, roots @ [node])))"

definition link_nodes ::
  "task_subtask list \<Rightarrow> (subtask_id \<Rightarrow> task_subtask list) \<times> task_subtask list" where
  "link_nodes nodes = fold (link_node (map st_id nodes)) nodes (\<lambda>_. [], [])"

fun read_node :: "nat \<Rightarrow> (subtask_id \<Rightarrow> task_subtask list) \<Rightarrow> task_subtask \<Rightarrow> subtask_node" where
  "read_node 0 children s = Node s []"
| "read_node (Suc n) children s = Node s (map (read_node n children) (children (st_id s)))"

record delegation_tree =
  tr_taskId :: task_id
  tr_subtasks :: "task_subtask list"
  tr_roots :: "subtask_node list"
  tr_timeline :: "timeline_event list"

definition getTaskTree :: "(string \<Rightarrow> string \<Rightarrow> bool) \<Rightarrow> delegation_db \<Rightarrow> task_id \<Rightarrow> delegation_tree" where
  "getTaskTree le db taskId =
     (let ss = listSubtasks db taskId in
      case link_nodes ss of (children, roots) \<Rightarrow>
        \<lparr>tr_taskId = taskId, tr_subtasks = ss,
         tr_roots = map (read_node MAX_DELEGATION_DEPTH children) roots,
         tr_timeline = buildTimeline le ss\<rparr>)"

end
