(* ===== verification/Delegation.thy ===== *)
theory Delegation
  imports DelegationStore "HOL-Library.Multiset"
begin

text \<open>
  What holds of the delegation store in every state its calls can reach: subtasks of one task form a
  forest at most three deep and an acyclic dependency graph. The store provides the interface
  \<open>dag_store\<close> in the states where no id is empty and dependency rows name subtasks.
\<close>

section \<open>The search for a cycle\<close>

lemma set_getDependencies_d [simp]: "set (getDependencies_d E s) = {d. (s, d) \<in> set E}"
  by (simp add: getDependencies_d_def)

lemma getDependencies_sorted_rows: "getDependencies_rows (sort_key snd E) s = getDependencies_d E s"
  unfolding getDependencies_d_def getDependencies_rows_def
  by (rule properties_for_sort [symmetric])
    (simp_all add: filter_sort)

text \<open>
  Without empty ids the search visits what the search of the task store visits in the rows ordered
  by the new parent.
\<close>

lemma subtask_search_eq:
  "[] \<notin> snd ` set E \<Longrightarrow> [] \<notin> set q \<Longrightarrow> subtask_search E t vis q = cycle_search (sort_key snd E) t vis q"
proof (induction E t vis q rule: subtask_search.induct)
  case (1 E t vis)
  then show ?case by simp
next
  case (2 E t vis c q)
  have "c \<noteq> []" and "[] \<notin> set q" and "[] \<notin> set (getDependencies_d E c)"
    using 2(3,4) by force+
  then show ?case
    using 2(1,2,3) by (cases "c = t") (simp_all add: getDependencies_sorted_rows)
qed

lemma wouldCreateCycle_d_iff:
  assumes "[] \<notin> snd ` set E" and "d \<noteq> []"
  shows "wouldCreateCycle_d E s d \<longleftrightarrow> (d, s) \<in> (set E)\<^sup>*"
proof -
  have "wouldCreateCycle_d E s d = wouldCreateCycle (sort_key snd E) s d"
    using subtask_search_eq [OF assms(1), of "[d]"] assms(2)
    by (simp add: wouldCreateCycle_d_def wouldCreateCycle_def del: subtask_search.simps cycle_search.simps)
  then show ?thesis by (simp add: wouldCreateCycle_iff)
qed

section \<open>Rows that name subtasks\<close>

abbreviation subtask_ids :: "delegation_db \<Rightarrow> subtask_id set" where
  "subtask_ids db \<equiv> sr_id ` set (subtasks db)"

definition deps_wf :: "delegation_db \<Rightarrow> bool" where
  "deps_wf db \<longleftrightarrow>
     [] \<notin> subtask_ids db \<and>
     (\<forall>(s, d) \<in> set (subtask_dependencies db). s \<in> subtask_ids db \<and> d \<in> subtask_ids db)"

lemma getSubtask_row_None_iff: "getSubtask_row db i = None \<longleftrightarrow> i \<notin> subtask_ids db"
  by (simp add: getSubtask_row_def sql_get_None_iff)

lemma getSubtask_None_iff: "getSubtask db i = None \<longleftrightarrow> i \<notin> subtask_ids db"
  by (simp add: getSubtask_def getSubtask_row_None_iff [symmetric] split: option.split)

lemma getSubtask_SomeE:
  assumes "getSubtask db i = Some s"
  obtains r where "r \<in> set (subtasks db)" and "sr_id r = i" and "getSubtask_row db i = Some r"
    and "s = rowToSubtask r (getDependencies_d (subtask_dependencies db) i)"
  using assms by (auto simp: getSubtask_def getSubtask_row_def dest: sql_get_SomeD split: option.splits)

lemma st_id_getSubtask: "getSubtask db i = Some s \<Longrightarrow> st_id s = i"
  by (auto simp: rowToSubtask_def elim: getSubtask_SomeE)

lemma deps_wf_no_empty:
  assumes "deps_wf db"
  shows "[] \<notin> snd ` set (subtask_dependencies db)"
  using assms by (force simp: deps_wf_def)

text \<open>The three ways \<open>addDependency\<close> ends.\<close>

lemma addDependency_d_cases:
  obtains (error) e where "addDependency_d s d db = (Inl e, db)"
  | (ignored) "addDependency_d s d db = (Inr (), db)" and "(s, d) \<in> set (subtask_dependencies db)"
      and "\<not> wouldCreateCycle_d (subtask_dependencies db) s d" and "d \<in> subtask_ids db"
  | (added) a b where "addDependency_d s d db =
        (Inr (), db\<lparr>subtask_dependencies := subtask_dependencies db @ [(s, d)]\<rparr>)"
      and "(s, d) \<notin> set (subtask_dependencies db)"
      and "\<not> wouldCreateCycle_d (subtask_dependencies db) s d"
      and "a \<in> set (subtasks db)" and "b \<in> set (subtasks db)" and "sr_id a = s" and "sr_id b = d"
      and "sr_task_id a = sr_task_id b"
proof (cases "getSubtask db s")
  case None
  then show ?thesis by (intro error) (simp add: addDependency_d_def throw_def)
next
  case a: (Some sa)
  show ?thesis
  proof (cases "getSubtask db d")
    case None
    then show ?thesis using a by (intro error) (simp add: addDependency_d_def throw_def)
  next
    case b: (Some sb)
    from a obtain ra where ra: "ra \<in> set (subtasks db)" "sr_id ra = s" "st_taskId sa = sr_task_id ra"
      by (elim getSubtask_SomeE) (simp add: rowToSubtask_def)
    from b obtain rb where rb: "rb \<in> set (subtasks db)" "sr_id rb = d" "st_taskId sb = sr_task_id rb"
      by (elim getSubtask_SomeE) (simp add: rowToSubtask_def)
    note simps = addDependency_d_def a b throw_def ret_def
    show ?thesis
    proof (cases "sr_task_id ra = sr_task_id rb \<and> \<not> wouldCreateCycle_d (subtask_dependencies db) s d")
      case False
      then show ?thesis
        using ra rb
        by (intro error [of "if sr_task_id ra = sr_task_id rb then CircularSubtasks else DependencyOfOtherTask"])
          (auto simp: simps)
    next
      case True
      then show ?thesis
        using ra rb ignored added [of ra rb]
        by (cases "(s, d) \<in> set (subtask_dependencies db)") (auto simp: simps)
    qed
  qed
qed

lemma subtasks_addDependency_d [simp]: "subtasks (snd (addDependency_d s d db)) = subtasks db"
  and task_tables_addDependency_d [simp]: "task_tables (snd (addDependency_d s d db)) = task_tables db"
  by (rule addDependency_d_cases [of s d db]; simp)+

interpretation subtask_deps: dag_store "\<lambda>db. set (subtask_dependencies db)" deps_wf addDependency_d
proof (unfold_locales, goal_cases)
  case (1 db s d u db')
  have search: "wouldCreateCycle_d (subtask_dependencies db) s d \<longleftrightarrow> (d, s) \<in> (set (subtask_dependencies db))\<^sup>*"
    if "d \<in> subtask_ids db"
  proof -
    have "d \<noteq> []" using that 1(1) unfolding deps_wf_def by metis
    then show ?thesis by (rule wouldCreateCycle_d_iff [OF deps_wf_no_empty [OF 1(1)]])
  qed
  show ?case
    by (rule addDependency_d_cases [of s d db]) (use 1(2) search in auto)
next
  case (2 s d db e db')
  then show ?case by (rule_tac addDependency_d_cases [of s d db]) auto
next
  case (3 db s d)
  then show ?case by (rule_tac addDependency_d_cases [of s d db]) (auto simp: deps_wf_def)
qed

section \<open>The invariant\<close>

text \<open>
  A subtask belongs to a task that exists, is at depth 1 without a parent, and otherwise one below a
  parent of the same task; no depth exceeds the maximum. Dependencies join subtasks of one task and
  have no cycle.
\<close>

definition parent_ok :: "delegation_db \<Rightarrow> subtask_row \<Rightarrow> bool" where
  "parent_ok db r \<longleftrightarrow>
     (case sr_parent_id r of
        None \<Rightarrow> sr_depth r = 1
      | Some p \<Rightarrow> \<exists>q \<in> set (subtasks db).
          sr_id q = p \<and> sr_task_id q = sr_task_id r \<and> sr_depth r = Suc (sr_depth q))"

definition row_ok :: "delegation_db \<Rightarrow> subtask_row \<Rightarrow> bool" where
  "row_ok db r \<longleftrightarrow>
     sr_id r \<noteq> [] \<and> taskExists db (sr_task_id r) \<and> sr_depth r \<le> MAX_DELEGATION_DEPTH \<and> parent_ok db r"

definition one_task :: "delegation_db \<Rightarrow> subtask_id \<times> subtask_id \<Rightarrow> bool" where
  "one_task db e \<longleftrightarrow>
     (\<exists>a \<in> set (subtasks db). \<exists>b \<in> set (subtasks db).
        sr_id a = fst e \<and> sr_id b = snd e \<and> sr_task_id a = sr_task_id b)"

definition delegation_ok :: "delegation_db \<Rightarrow> bool" where
  "delegation_ok db \<longleftrightarrow>
     db_ok (task_tables db) \<and>
     distinct (map sr_id (subtasks db)) \<and>
     (\<forall>r \<in> set (subtasks db). row_ok db r) \<and>
     distinct (subtask_dependencies db) \<and>
     (\<forall>e \<in> set (subtask_dependencies db). one_task db e) \<and>
     acyclic (set (subtask_dependencies db))"

lemma delegation_ok_wf: "delegation_ok db \<Longrightarrow> deps_wf db"
  by (fastforce simp: delegation_ok_def deps_wf_def row_ok_def one_task_def)

lemma one_task_addDependency: "one_task (snd (addDependency_d s d db)) e = one_task db e"
  and row_ok_addDependency: "row_ok (snd (addDependency_d s d db)) r = row_ok db r"
  by (simp_all add: one_task_def row_ok_def parent_ok_def taskExists_def cong: option.case_cong)

lemma delegation_ok_addDependency:
  assumes "delegation_ok db"
  shows "delegation_ok (snd (addDependency_d s d db))"
proof -
  have ac: "acyclic (set (subtask_dependencies (snd (addDependency_d s d db))))"
    using assms by (intro subtask_deps.add_acyclic delegation_ok_wf) (simp_all add: delegation_ok_def)
  have "distinct (subtask_dependencies (snd (addDependency_d s d db))) \<and>
        (\<forall>e \<in> set (subtask_dependencies (snd (addDependency_d s d db))). one_task db e)"
    by (rule addDependency_d_cases [of s d db])
      (use assms in \<open>auto simp: delegation_ok_def one_task_def\<close>)
  then show ?thesis
    using assms ac by (simp add: delegation_ok_def one_task_addDependency row_ok_addDependency)
qed

lemma delegation_ok_add_all:
  "delegation_ok db \<Longrightarrow> delegation_ok (snd (add_all addDependency_d s ds db))"
  by (rule add_all_inv [where I = delegation_ok]) (rule delegation_ok_addDependency)

lemma subtasks_add_all [simp]: "subtasks (snd (add_all addDependency_d s ds db)) = subtasks db"
  and task_tables_add_all [simp]: "task_tables (snd (add_all addDependency_d s ds db)) = task_tables db"
  by (rule add_all_inv [where I = "\<lambda>s. subtasks s = subtasks db"],
      rule subtasks_addDependency_d [THEN trans], assumption, rule refl)
     (rule add_all_inv [where I = "\<lambda>s. task_tables s = task_tables db"],
      rule task_tables_addDependency_d [THEN trans], assumption, rule refl)

text \<open>
  The invariant only looks at the id, the task, the parent and the depth of a subtask, which no
  update changes.
\<close>

definition skeleton :: "subtask_row \<Rightarrow> subtask_id \<times> task_id \<times> subtask_id option \<times> nat" where
  "skeleton r = (sr_id r, sr_task_id r, sr_parent_id r, sr_depth r)"

lemma skeleton_image:
  assumes "map skeleton (subtasks db') = map skeleton (subtasks db)" and "r' \<in> set (subtasks db')"
  shows "\<exists>r \<in> set (subtasks db). skeleton r = skeleton r'"
proof -
  have "skeleton r' \<in> skeleton ` set (subtasks db)"
    using assms by (metis image_eqI set_map)
  then show ?thesis by force
qed

lemma delegation_ok_cong:
  assumes ok: "delegation_ok db"
    and sk: "map skeleton (subtasks db') = map skeleton (subtasks db)"
    and deps: "subtask_dependencies db' = subtask_dependencies db"
    and tasks: "db_ok (task_tables db')" "\<And>t. taskExists db t \<Longrightarrow> taskExists db' t"
  shows "delegation_ok db'"
proof -
  note sk' = skeleton_image [OF sk [symmetric]]
  have "map sr_id (subtasks db') = map sr_id (subtasks db)"
    using arg_cong [OF sk, of "map fst"] by (simp add: skeleton_def comp_def)
  moreover have "row_ok db' r'" if "r' \<in> set (subtasks db')" for r'
  proof -
    from skeleton_image [OF sk that]
    obtain r where r: "r \<in> set (subtasks db)" "skeleton r = skeleton r'" by blast
    then have "row_ok db r" using ok by (simp add: delegation_ok_def)
    then show ?thesis
      using r tasks(2) sk' by (fastforce simp: row_ok_def parent_ok_def skeleton_def split: option.splits)
  qed
  moreover have "one_task db' e" if "one_task db e" for e
  proof -
    from that obtain a b where ab: "a \<in> set (subtasks db)" "b \<in> set (subtasks db)"
      "sr_id a = fst e" "sr_id b = snd e" "sr_task_id a = sr_task_id b"
      unfolding one_task_def by blast
    from sk' [OF ab(1)] sk' [OF ab(2)] ab(3-) show ?thesis
      unfolding one_task_def skeleton_def by auto metis
  qed
  ultimately show ?thesis
    using ok tasks(1) deps by (simp add: delegation_ok_def)
qed

lemma skeleton_sql_update:
  "(\<And>r. skeleton (f r) = skeleton r) \<Longrightarrow> map skeleton (sql_update key k f rows) = map skeleton rows"
  by (simp add: sql_update_def sql_update_where_def)

lemma delegation_ok_update:
  assumes "delegation_ok db" and "\<And>r. skeleton (f r) = skeleton r"
  shows "delegation_ok (db\<lparr>subtasks := sql_update sr_id i f (subtasks db)\<rparr>)"
  using assms
  by (intro delegation_ok_cong [OF assms(1)])
    (simp_all add: skeleton_sql_update taskExists_def delegation_ok_def)

lemma skeleton_updateSubtask_set [simp]: "skeleton (updateSubtask_set u st ex now r) = skeleton r"
  by (simp add: skeleton_def updateSubtask_set_def)

lemma updateSubtask_snd:
  "snd (updateSubtask now i u db) = db \<or>
   (\<exists>st ex. snd (updateSubtask now i u db) =
      db\<lparr>subtasks := sql_update sr_id i (updateSubtask_set u st ex (secs now)) (subtasks db)\<rparr>)"
  by (auto simp: updateSubtask_def Let_def split: option.split)

lemma delegation_ok_updateSubtask: "delegation_ok db \<Longrightarrow> delegation_ok (snd (updateSubtask now i u db))"
  using updateSubtask_snd [of now i u db] by (elim disjE exE) (simp_all add: delegation_ok_update)

lemma delegation_ok_assignSubtask: "delegation_ok db \<Longrightarrow> delegation_ok (snd (assignSubtask now i a db))"
  by (simp add: assignSubtask_def delegation_ok_updateSubtask)

lemma delegation_ok_retrySubtask: "delegation_ok db \<Longrightarrow> delegation_ok (snd (retrySubtask now t i db))"
  by (auto simp: retrySubtask_def Let_def skeleton_def split: option.split intro!: delegation_ok_update)

lemma taskExists_delete: "t \<noteq> taskId \<Longrightarrow> taskExists db t \<Longrightarrow> taskExists (deleteTask_cascade taskId db) t"
  by (simp add: taskExists_def deleteTask_cascade_def Let_def deleteTask_def getTask_row_def sql_get_delete)

lemma delegation_ok_delete:
  assumes ok: "delegation_ok db"
  shows "delegation_ok (deleteTask_cascade t db)"
proof -
  let ?db' = "deleteTask_cascade t db"
  have rows: "set (subtasks ?db') = {r \<in> set (subtasks db). sr_task_id r \<noteq> t}"
    by (simp add: deleteTask_cascade_def Let_def set_sql_delete)
  have sub: "set (subtask_dependencies ?db') \<subseteq> set (subtask_dependencies db)"
    by (auto simp: deleteTask_cascade_def Let_def)
  have "row_ok ?db' r" if r: "r \<in> set (subtasks ?db')" for r
  proof -
    from r have "row_ok db r" and "sr_task_id r \<noteq> t"
      using ok rows by (simp_all add: delegation_ok_def)
    then show ?thesis
      using taskExists_delete by (auto simp: row_ok_def parent_ok_def rows split: option.splits)
  qed
  moreover have "one_task ?db' e" if e: "e \<in> set (subtask_dependencies ?db')" for e
  proof -
    from e sub ok have "one_task db e" by (auto simp: delegation_ok_def)
    then obtain a b where ab: "a \<in> set (subtasks db)" "b \<in> set (subtasks db)"
      "sr_id a = fst e" "sr_id b = snd e" "sr_task_id a = sr_task_id b"
      unfolding one_task_def by blast
    moreover from e ab have "sr_task_id a \<noteq> t"
      by (auto simp: deleteTask_cascade_def Let_def)
    ultimately show ?thesis unfolding one_task_def rows by auto
  qed
  moreover have "distinct (map sr_id (subtasks ?db')) \<and> distinct (subtask_dependencies ?db') \<and>
      db_ok (task_tables ?db')"
    using ok by (simp add: delegation_ok_def deleteTask_cascade_def Let_def distinct_delete db_ok_deleteTask)
  moreover have "acyclic (set (subtask_dependencies ?db'))"
    using ok acyclic_subset [OF _ sub] by (simp add: delegation_ok_def)
  ultimately show ?thesis by (simp add: delegation_ok_def)
qed

text \<open>The rows that the first loop of \<open>createSubtasks\<close> adds, and the names it gives them.\<close>

definition plan_rows ::
  "(nat \<Rightarrow> subtask_id) \<Rightarrow> task_id \<Rightarrow> subtask_id option \<Rightarrow> nat \<Rightarrow> int \<Rightarrow> nat \<Rightarrow> subtask_plan list \<Rightarrow> subtask_row list" where
  "plan_rows ids taskId parentId depth now index plans =
     map (\<lambda>(i, p). subtask_insert (ids i) taskId parentId depth now p) (enumerate index plans)"

definition plan_names :: "(nat \<Rightarrow> subtask_id) \<Rightarrow> nat \<Rightarrow> subtask_plan list \<Rightarrow> (string \<rightharpoonup> subtask_id) \<Rightarrow> (string \<rightharpoonup> subtask_id)" where
  "plan_names ids index plans = fold (\<lambda>(i, p). name_plan i p (ids i)) (enumerate index plans)"

lemma plan_rows_Cons:
  "plan_rows ids taskId parentId depth now index (p # plans) =
   subtask_insert (ids index) taskId parentId depth now p # plan_rows ids taskId parentId depth now (Suc index) plans"
  and plan_names_Cons:
  "plan_names ids index (p # plans) m = plan_names ids (Suc index) plans (name_plan index p (ids index) m)"
  by (simp_all add: plan_rows_def plan_names_def)

lemma sr_id_subtask_insert [simp]: "sr_id (subtask_insert i taskId parentId depth now p) = i"
  by (simp add: subtask_insert_def Let_def)

text \<open>One round of the loop that did not throw.\<close>

lemma insert_plans_ConsE:
  assumes "insert_plans ids taskId parentId depth now index (p # plans) m db = (Inr m', db')"
  obtains "trim (p_description p) \<noteq> []" and "ids index \<notin> subtask_ids db"
    and "insert_plans ids taskId parentId depth now (Suc index) plans (name_plan index p (ids index) m)
      (db\<lparr>subtasks := subtasks db @ [subtask_insert (ids index) taskId parentId depth now p]\<rparr>) = (Inr m', db')"
  using assms by (simp add: throw_def Let_def getSubtask_row_None_iff split: if_splits)

lemma insert_plans_fresh:
  "insert_plans ids taskId parentId depth now index plans m db = (Inr m', db') \<Longrightarrow>
   i \<in> {index..<index + length plans} \<Longrightarrow> ids i \<notin> subtask_ids db"
proof (induction plans arbitrary: index m db)
  case Nil
  then show ?case by simp
next
  case (Cons p plans)
  from Cons.prems(1) show ?case
  proof (rule insert_plans_ConsE, goal_cases)
    case 1
    show ?case
    proof (cases "i = index")
      case True
      then show ?thesis using 1(2) by simp
    next
      case False
      then have "i \<in> {Suc index..<Suc index + length plans}" using Cons.prems(2) by simp
      from Cons.IH [OF 1(3) this] show ?thesis by simp
    qed
  qed
qed

lemma insert_plans_Inr:
  "insert_plans ids taskId parentId depth now index plans m db = (Inr m', db') \<Longrightarrow>
     m' = plan_names ids index plans m \<and>
     db' = db\<lparr>subtasks := subtasks db @ plan_rows ids taskId parentId depth now index plans\<rparr> \<and>
     list_all (\<lambda>p. trim (p_description p) \<noteq> []) plans \<and>
     distinct (map ids [index..<index + length plans])"
proof (induction plans arbitrary: index m db)
  case Nil
  then show ?case by (simp add: ret_def plan_names_def plan_rows_def)
next
  case (Cons p plans)
  from Cons.prems show ?case
  proof (rule insert_plans_ConsE, goal_cases)
    case 1
    have "ids i \<noteq> ids index" if "i \<in> {Suc index..<Suc index + length plans}" for i
      using insert_plans_fresh [OF 1(3) that] by auto
    then have "ids index \<notin> ids ` {Suc index..<Suc (index + length plans)}" by fastforce
    then show ?case
      using Cons.IH [OF 1(3)] 1(1)
      by (simp add: plan_names_Cons plan_rows_Cons upt_conv_Cons del: upt_Suc)
  qed
qed

definition fits_below :: "delegation_db \<Rightarrow> task_id \<Rightarrow> subtask_id option \<Rightarrow> nat \<Rightarrow> bool" where
  "fits_below db taskId parentId depth \<longleftrightarrow>
     taskExists db taskId \<and> depth \<le> MAX_DELEGATION_DEPTH \<and>
     (case parentId of
        None \<Rightarrow> depth = 1
      | Some p \<Rightarrow> \<exists>q \<in> set (subtasks db). sr_id q = p \<and> sr_task_id q = taskId \<and> depth = Suc (sr_depth q))"

lemma delegation_ok_insert:
  assumes ok: "delegation_ok db" and new: "i \<noteq> []" "i \<notin> subtask_ids db"
    and fits: "fits_below db taskId parentId depth"
  shows "delegation_ok (db\<lparr>subtasks := subtasks db @ [subtask_insert i taskId parentId depth now p]\<rparr>)"
    (is "delegation_ok ?db'")
proof -
  let ?row = "subtask_insert i taskId parentId depth now p"
  have "row_ok ?db' r" if "r \<in> set (subtasks db)" for r
  proof -
    from that ok have "row_ok db r" by (simp add: delegation_ok_def)
    then show ?thesis by (auto simp: row_ok_def parent_ok_def taskExists_def split: option.splits)
  qed
  moreover have "row_ok ?db' ?row"
    using fits new
    by (auto simp: fits_below_def row_ok_def parent_ok_def taskExists_def subtask_insert_def Let_def
        split: option.splits)
  moreover have "one_task ?db' e" if "one_task db e" for e
    using that unfolding one_task_def by auto
  ultimately show ?thesis
    using ok new by (auto simp: delegation_ok_def subtask_insert_def Let_def)
qed

lemma fits_below_insert:
  "fits_below db taskId parentId depth \<Longrightarrow>
   fits_below (db\<lparr>subtasks := subtasks db @ rows\<rparr>) taskId parentId depth"
  by (auto simp: fits_below_def taskExists_def split: option.splits)

lemma delegation_ok_insert_plans:
  assumes "insert_plans ids taskId parentId depth now index plans m db = (Inr m', db')"
    and "delegation_ok db" and "fits_below db taskId parentId depth"
    and "list_all (\<lambda>i. ids i \<noteq> []) [index..<index + length plans]"
  shows "delegation_ok db'"
  using assms
proof (induction plans arbitrary: index m db)
  case Nil
  then show ?case by (simp add: ret_def)
next
  case (Cons p plans)
  let ?db1 = "db\<lparr>subtasks := subtasks db @ [subtask_insert (ids index) taskId parentId depth now p]\<rparr>"
  from Cons.prems(1) show ?case
  proof (rule insert_plans_ConsE, goal_cases)
    case 1
    have ne: "ids index \<noteq> []" and rest: "list_all (\<lambda>i. ids i \<noteq> []) [Suc index..<Suc index + length plans]"
      using Cons.prems(4) by (simp_all add: upt_conv_Cons del: upt_Suc)
    have "delegation_ok ?db1" by (rule delegation_ok_insert) (use Cons.prems 1(2) ne in simp_all)
    then show ?case by (rule Cons.IH [OF 1(3) _ fits_below_insert [OF Cons.prems(3)] rest])
  qed
qed

lemma link_plans_Inr:
  "link_plans ids m index plans db = (Inr u, db') \<Longrightarrow>
     list_all (\<lambda>i. ids i \<noteq> []) [index..<index + length plans] \<and>
     subtasks db' = subtasks db \<and> task_tables db' = task_tables db \<and>
     (delegation_ok db \<longrightarrow> delegation_ok db')"
proof (induction plans arbitrary: index db)
  case Nil
  then show ?case by (simp add: ret_def)
next
  case (Cons p plans)
  let ?r = "add_all addDependency_d (ids index) (map (plan_ref m) (nullish (p_dependsOn p) [])) db"
  from Cons.prems have p: "ids index \<noteq> []" "link_plans ids m (index + 1) plans (snd ?r) = (Inr u, db')"
    by (auto simp: throw_def Let_def split: if_splits prod.splits sum.splits)
  from Cons.IH [OF p(2)] p(1) show ?case
    by (auto simp: upt_conv_Cons delegation_ok_add_all simp del: upt_Suc)
qed

text \<open>What a call that creates subtasks leaves behind: nothing new, or the rows and links of all plans.\<close>

lemma createSubtasks_cases:
  obtains (error) e where "createSubtasks ids now taskId plans parentId db = (Inl e, db)"
  | (none) "createSubtasks ids now taskId plans parentId db = (Inr [], db)" and "plans = []"
      and "taskExists db taskId"
  | (created) parent depth m db1 db2 where
      "createSubtasks ids now taskId plans parentId db =
         (Inr (List.map_filter (\<lambda>i. getSubtask db2 (ids i)) [0..<length plans]), db2)"
      and "parent = (case non_empty parentId of None \<Rightarrow> None | Some p \<Rightarrow> getSubtask db p)"
      and "non_empty parentId = None \<or> parent \<noteq> None" and "plans \<noteq> []"
      and "taskExists db taskId" and "\<And>p. parent = Some p \<Longrightarrow> st_taskId p = taskId"
      and "depth = (case parent of None \<Rightarrow> 1 | Some p \<Rightarrow> st_depth p + 1)" and "depth \<le> MAX_DELEGATION_DEPTH"
      and "insert_plans ids taskId (map_option st_id parent) depth (secs now) 0 plans Map.empty db = (Inr m, db1)"
      and "link_plans ids m 0 plans db1 = (Inr (), db2)"
proof (cases "createSubtasks ids now taskId plans parentId db")
  case (Pair r db')
  define parent where "parent = (case non_empty parentId of None \<Rightarrow> None | Some p \<Rightarrow> getSubtask db p)"
  define depth where "depth = (case parent of None \<Rightarrow> 1 | Some p \<Rightarrow> st_depth p + 1)"
  note unf = Pair [unfolded createSubtasks_def Let_def, folded parent_def, folded depth_def]
  show ?thesis
  proof (cases r)
    case (Inl e)
    with unf have "db' = db"
      by (auto simp: throw_def ret_def split: if_splits prod.splits sum.splits)
    with Pair Inl show ?thesis by (intro error) simp
  next
    case (Inr ss)
    show ?thesis
    proof (cases "plans = []")
      case True
      with unf Inr have "ss = []" "db' = db" "taskExists db taskId"
        by (auto simp: throw_def ret_def split: if_splits)
      with Pair Inr True show ?thesis by (intro none) simp_all
    next
      case False
      from unf Inr False have g: "taskExists db taskId" "non_empty parentId = None \<or> parent \<noteq> None"
        "\<not> (case parent of None \<Rightarrow> False | Some p \<Rightarrow> st_taskId p \<noteq> taskId)" "\<not> depth > MAX_DELEGATION_DEPTH"
        by (auto simp: throw_def split: if_splits)
      obtain rm db1 where i: "insert_plans ids taskId (map_option st_id parent) depth (secs now) 0 plans Map.empty db = (rm, db1)"
        by fastforce
      with unf Inr False g obtain m where m: "rm = Inr m"
        by (cases rm) (auto simp: throw_def)
      obtain rl db2 where l: "link_plans ids m 0 plans db1 = (rl, db2)"
        by fastforce
      with unf Inr False g i m have "rl = Inr ()"
        and "ss = List.map_filter (\<lambda>i. getSubtask db2 (ids i)) [0..<length plans]" and "db' = db2"
        by (cases rl; auto simp: throw_def ret_def)+
      with Pair Inr i m l g False show ?thesis
        by (intro created [of db2 parent depth m db1]) (auto simp: parent_def depth_def)
    qed
  qed
qed

lemma delegation_ok_createSubtasks:
  assumes ok: "delegation_ok db"
  shows "delegation_ok (snd (createSubtasks ids now taskId plans parentId db))"
proof (rule createSubtasks_cases [of ids now taskId plans parentId db], goal_cases)
  case (3 parent depth m db1 db2)
  have fits: "fits_below db taskId (map_option st_id parent) depth"
  proof (cases parent)
    case None
    then show ?thesis using 3 by (simp add: fits_below_def)
  next
    case (Some p)
    with 3(2) obtain i where "getSubtask db i = Some p" by (auto split: option.splits)
    then obtain q where "q \<in> set (subtasks db)" "sr_id q = st_id p" "sr_task_id q = st_taskId p"
      "sr_depth q = st_depth p"
      by (elim getSubtask_SomeE) (simp add: rowToSubtask_def)
    then show ?thesis using Some 3(5,6,7,8) by (auto simp: fits_below_def)
  qed
  note link = link_plans_Inr [OF 3(10)]
  have "delegation_ok db1"
    by (rule delegation_ok_insert_plans [OF 3(9) ok fits]) (use link in simp)
  then show ?case using 3(1) link by simp
qed (use ok in simp_all)

section \<open>Runs of the store\<close>

text \<open>
  The calls of the delegation store and of the task store on the same database. Other calls of the
  task store than \<open>deleteTask\<close> do not touch the subtasks.
\<close>

datatype delegation_call =
    D_create "nat \<Rightarrow> subtask_id" int task_id "subtask_plan list" "subtask_id option"
  | D_update int subtask_id subtask_updates
  | D_assign int subtask_id string
  | D_retry int task_id subtask_id
  | D_task task_call

fun delegation_exec :: "delegation_call \<Rightarrow> delegation_db \<Rightarrow> delegation_db" where
  "delegation_exec (D_create ids now taskId plans parentId) db = snd (createSubtasks ids now taskId plans parentId db)"
| "delegation_exec (D_update now i u) db = snd (updateSubtask now i u db)"
| "delegation_exec (D_assign now i a) db = snd (assignSubtask now i a db)"
| "delegation_exec (D_retry now t i) db = snd (retrySubtask now t i db)"
| "delegation_exec (D_task (C_delete t)) db = deleteTask_cascade t db"
| "delegation_exec (D_task c) db = db\<lparr>task_tables := task_exec c (task_tables db)\<rparr>"

definition empty_delegation_db :: delegation_db where
  "empty_delegation_db = \<lparr>task_tables = empty_task_db, subtasks = [], subtask_dependencies = []\<rparr>"

definition delegation_run :: "delegation_call list \<Rightarrow> delegation_db \<Rightarrow> delegation_db" where
  "delegation_run cs db = fold delegation_exec cs db"

inductive delegation_reachable :: "delegation_db \<Rightarrow> bool" where
  start: "delegation_reachable empty_delegation_db"
| step: "delegation_reachable db \<Longrightarrow> delegation_reachable (delegation_exec c db)"

lemma delegation_reachable_run: "delegation_reachable db \<Longrightarrow> delegation_reachable (delegation_run cs db)"
  by (induction cs arbitrary: db) (auto simp: delegation_run_def intro: delegation_reachable.step)

lemma task_exec_keeps_ids:
  assumes "\<And>t. c \<noteq> C_delete t"
  shows "t_id ` set (tasks db) \<subseteq> t_id ` set (tasks (task_exec c db))"
proof (cases c)
  case (C_create t now n)
  then show ?thesis by (auto simp: tasks_createTask)
next
  case (C_depend t p)
  then show ?thesis by simp
next
  case (C_update now t u)
  have "map t_id (tasks (snd (updateTask now t u db))) = map t_id (tasks db)"
    by (auto simp: updateTask_def sql_update_def Let_def split: option.split)
  then show ?thesis using C_update by (metis equalityE set_map task_exec.simps(3))
next
  case (C_delete t)
  then show ?thesis using assms by simp
next
  case (C_claim now t)
  have "map t_id (tasks (snd (claimTask now t db))) = map t_id (tasks db)"
    by (simp add: claimTask_def Let_def)
  then show ?thesis using C_claim by (metis equalityE set_map task_exec.simps(5))
next
  case (C_cancel now t)
  have "map t_id (tasks (snd (cancelTask now t db))) = map t_id (tasks db)"
    by (auto simp: cancelTask_def updateTask_def sql_update_def Let_def split: option.split)
  then show ?thesis using C_cancel by (metis equalityE set_map task_exec.simps(6))
qed

lemma delegation_ok_task:
  assumes "delegation_ok db" and "\<And>t. c \<noteq> C_delete t"
  shows "delegation_ok (db\<lparr>task_tables := task_exec c (task_tables db)\<rparr>)"
  using assms(1) task_exec_keeps_ids [OF assms(2), of "task_tables db"]
  by (intro delegation_ok_cong [OF assms(1)])
    (auto simp: delegation_ok_def taskExists_def getTask_row_None_iff intro: db_ok_exec
      simp flip: not_None_eq)

lemma delegation_ok_exec: "delegation_ok db \<Longrightarrow> delegation_ok (delegation_exec c db)"
  by (induction c db rule: delegation_exec.induct)
    (simp_all add: delegation_ok_createSubtasks delegation_ok_updateSubtask delegation_ok_assignSubtask
      delegation_ok_retrySubtask delegation_ok_delete delegation_ok_task del: task_exec.simps)

lemma delegation_ok_empty: "delegation_ok empty_delegation_db"
  by (simp add: delegation_ok_def empty_delegation_db_def db_ok_empty acyclic_def)

lemma delegation_reachable_ok: "delegation_reachable db \<Longrightarrow> delegation_ok db"
  by (induction rule: delegation_reachable.induct) (auto intro: delegation_ok_empty delegation_ok_exec)

text \<open>
  C11. Whatever calls the delegation store and the task store have served: every subtask belongs to
  an existing task, is at most three levels deep and one level below a parent of the same task;
  dependencies join subtasks of one task and form no cycle.
\<close>

theorem reachable_delegation_ok: "delegation_reachable db \<Longrightarrow> delegation_ok db"
  by (rule delegation_reachable_ok)

section \<open>What the operations do\<close>

lemma link_plans_edges:
  "link_plans ids m index plans db = (Inr u, db') \<Longrightarrow> deps_wf db \<Longrightarrow>
   set (subtask_dependencies db') = set (subtask_dependencies db) \<union>
     (\<Union>(i, p) \<in> set (enumerate index plans). {ids i} \<times> plan_ref m ` set (nullish (p_dependsOn p) []))"
proof (induction plans arbitrary: index db)
  case Nil
  then show ?case by (simp add: ret_def)
next
  case (Cons p plans)
  obtain db1 where a: "add_all addDependency_d (ids index) (map (plan_ref m) (nullish (p_dependsOn p) [])) db = (Inr (), db1)"
    and l: "link_plans ids m (Suc index) plans db1 = (Inr u, db')"
    using Cons.prems(1) by (auto simp: throw_def Let_def split: if_splits prod.splits sum.splits)
  from subtask_deps.add_all_ok [OF Cons.prems(2) a] have "deps_wf db1"
    and "set (subtask_dependencies db1) = set (subtask_dependencies db) \<union>
      {ids index} \<times> plan_ref m ` set (nullish (p_dependsOn p) [])" by simp_all
  with Cons.IH [OF l] show ?case by auto
qed

lemma map_filter_all_Some:
  "(\<And>x. x \<in> set xs \<Longrightarrow> f x = Some (g x)) \<Longrightarrow> List.map_filter f xs = map g xs"
  by (induction xs) (simp_all add: map_filter_simps)

lemma ids_plan_rows: "map sr_id (plan_rows ids taskId parentId depth now index plans) = map ids [index..<index + length plans]"
  by (induction plans arbitrary: index)
    (simp_all add: plan_rows_Cons upt_conv_Cons del: upt_Suc, simp add: plan_rows_def)

lemma set_ids_plan_rows [simp]:
  "sr_id ` set (plan_rows ids taskId parentId depth now index plans) = ids ` {index..<index + length plans}"
  by (metis ids_plan_rows set_map set_upt)

lemma plan_rows_nth:
  "i < length plans \<Longrightarrow>
   subtask_insert (ids (index + i)) taskId parentId depth now (plans ! i)
     \<in> set (plan_rows ids taskId parentId depth now index plans)"
  by (force simp: plan_rows_def in_set_enumerate_eq intro!: image_eqI [of _ _ "(index + i, plans ! i)"])

lemma normalized_again: "parseStringArray (Text (normalizeStringArray x)) = normalizeStringArray x"
  by (cases x) (simp_all add: parseStringArray_def normalizeStringArray_def clean_strings_id
      [OF clean_strings_clean(1)])

text \<open>
  What a call promises of the subtask it makes of a plan, when the plans have the names \<open>m\<close>: the
  plan's texts without surrounding space, nothing started, and as dependencies exactly the subtasks
  that the plan's references name.
\<close>

definition planned ::
  "(string \<rightharpoonup> subtask_id) \<Rightarrow> task_id \<Rightarrow> subtask_id option \<Rightarrow> subtask_plan \<Rightarrow> task_subtask \<Rightarrow> bool" where
  "planned m taskId parentId p s \<longleftrightarrow>
     st_taskId s = taskId \<and> st_parentId s = parentId \<and>
     st_description s = trim (p_description p) \<and> st_description s \<noteq> [] \<and>
     st_requiredSkills s = normalizeStringArray (p_requiredSkills p) \<and>
     st_requiredTools s = normalizeStringArray (p_requiredTools p) \<and>
     st_agentId s = non_empty (map_option trim (p_agentId p)) \<and>
     st_status s = (if st_agentId s = None then ST_pending else ST_delegated) \<and>
     st_startedAt s = None \<and> st_completedAt s = None \<and> st_result s = None \<and> st_error s = None \<and>
     set (st_dependencies s) = plan_ref m ` set (nullish (p_dependsOn p) [])"

lemma createSubtasks_created:
  assumes ok: "delegation_ok db"
    and call: "createSubtasks ids now taskId plans parentId db = (Inr ss, db')" and "plans \<noteq> []"
  obtains depth where
    "subtasks db' = subtasks db @ plan_rows ids taskId (non_empty parentId) depth (secs now) 0 plans"
    and "ss = map (\<lambda>i. rowToSubtask
            (subtask_insert (ids i) taskId (non_empty parentId) depth (secs now) (plans ! i))
            (getDependencies_d (subtask_dependencies db') (ids i))) [0..<length plans]"
    and "list_all (\<lambda>p. trim (p_description p) \<noteq> []) plans"
    and "set (subtask_dependencies db') = set (subtask_dependencies db) \<union>
      (\<Union>(i, p) \<in> set (enumerate 0 plans).
        {ids i} \<times> plan_ref (plan_names ids 0 plans Map.empty) ` set (nullish (p_dependsOn p) []))"
    and "distinct (map ids [0..<length plans])" and "distinct (map sr_id (subtasks db'))"
proof (rule createSubtasks_cases [of ids now taskId plans parentId db], goal_cases)
  case (3 parent depth m db1 db2)
  have ss: "ss = List.map_filter (\<lambda>i. getSubtask db2 (ids i)) [0..<length plans]" and db': "db' = db2"
    using 3(2) call by auto
  have ok': "delegation_ok db'"
    using delegation_ok_createSubtasks [OF ok, of ids now taskId plans parentId] call by simp
  have par: "map_option st_id parent = non_empty parentId"
    using 3(3,4) by (auto dest: st_id_getSubtask split: option.splits)
  note ins = insert_plans_Inr [OF 3(10)] and link = link_plans_Inr [OF 3(11)]
  have rows: "subtasks db' = subtasks db @ plan_rows ids taskId (non_empty parentId) depth (secs now) 0 plans"
    using ins link par db' by simp
  have dist: "distinct (map sr_id (subtasks db'))" using ok' by (simp add: delegation_ok_def)
  have "deps_wf db1"
    using ins link delegation_ok_wf [OF ok] by (auto simp: deps_wf_def list_all_iff image_Un)
  from link_plans_edges [OF 3(11) this] ins db' have edges:
    "set (subtask_dependencies db') = set (subtask_dependencies db) \<union>
      (\<Union>(i, p) \<in> set (enumerate 0 plans).
        {ids i} \<times> plan_ref (plan_names ids 0 plans Map.empty) ` set (nullish (p_dependsOn p) []))"
    by simp
  let ?row = "\<lambda>i. subtask_insert (ids i) taskId (non_empty parentId) depth (secs now) (plans ! i)"
  have "getSubtask db2 (ids i) =
      Some (rowToSubtask (?row i) (getDependencies_d (subtask_dependencies db') (ids i)))"
    if "i \<in> set [0..<length plans]" for i
  proof -
    have "?row i \<in> set (subtasks db')"
      using plan_rows_nth [of i plans ids 0] that by (simp add: rows)
    from sql_get_unique [OF dist this] show ?thesis
      by (simp add: getSubtask_def getSubtask_row_def db')
  qed
  then have "ss = map (\<lambda>i. rowToSubtask (?row i) (getDependencies_d (subtask_dependencies db') (ids i))) [0..<length plans]"
    unfolding ss by (rule map_filter_all_Some)
  then show ?case using rows edges dist ins by (intro that [of depth]) simp_all
qed (use call \<open>plans \<noteq> []\<close> in auto)

lemma getSubtask_keeps:
  assumes "i \<in> subtask_ids db" and "subtasks db' = subtasks db @ rows"
    and "\<And>d. (i, d) \<in> set (subtask_dependencies db') \<longleftrightarrow> (i, d) \<in> set (subtask_dependencies db)"
    and "distinct (subtask_dependencies db)" and "distinct (subtask_dependencies db')"
  shows "getSubtask db' i = getSubtask db i"
proof -
  have "getDependencies_d (subtask_dependencies db') i = getDependencies_d (subtask_dependencies db) i"
  proof (rule sorted_distinct_set_unique)
    have "distinct (getDependencies_rows E i)" if "distinct E" for E :: "(subtask_id \<times> subtask_id) list"
      using that by (auto simp: getDependencies_rows_def distinct_map inj_on_def)
    then show "distinct (getDependencies_d (subtask_dependencies db') i)"
      and "distinct (getDependencies_d (subtask_dependencies db) i)"
      using assms(4,5) by (simp_all add: getDependencies_d_def)
  qed (use assms(3) in \<open>auto simp: getDependencies_d_def\<close>)
  moreover have "getSubtask_row db' i = getSubtask_row db i"
    using assms(1,2) by (auto simp: getSubtask_row_def sql_get_None_iff split: option.split)
  ultimately show ?thesis by (simp add: getSubtask_def cong: option.case_cong)
qed

text \<open>
  A call of \<open>createSubtasks\<close> that returns made one subtask of every plan, in the order of the plans
  and under their new ids, as \<open>planned\<close> says; the subtasks that were there read as before.
\<close>

theorem createSubtasks_correct:
  assumes "delegation_reachable db"
    and call: "createSubtasks ids now taskId plans parentId db = (Inr ss, db')"
  shows "list_all2 (planned (plan_names ids 0 plans Map.empty) taskId (non_empty parentId)) plans ss \<and>
         map st_id ss = map ids [0..<length plans] \<and>
         map sr_id (subtasks db') = map sr_id (subtasks db) @ map st_id ss \<and>
         map (getSubtask db') (map sr_id (subtasks db)) = map (getSubtask db) (map sr_id (subtasks db))"
proof (cases "plans = []")
  case True
  with call have "ss = []" and "db' = db" by (auto simp: createSubtasks_def throw_def ret_def split: if_splits)
  with True show ?thesis by simp
next
  case False
  have ok: "delegation_ok db" by (rule delegation_reachable_ok) fact
  have ok': "delegation_ok db'"
    using delegation_ok_createSubtasks [OF ok, of ids now taskId plans parentId] call by simp
  obtain depth where rows: "subtasks db' = subtasks db @ plan_rows ids taskId (non_empty parentId) depth (secs now) 0 plans"
    and ss: "ss = map (\<lambda>i. rowToSubtask
            (subtask_insert (ids i) taskId (non_empty parentId) depth (secs now) (plans ! i))
            (getDependencies_d (subtask_dependencies db') (ids i))) [0..<length plans]"
    and descr: "list_all (\<lambda>p. trim (p_description p) \<noteq> []) plans"
    and edges: "set (subtask_dependencies db') = set (subtask_dependencies db) \<union>
      (\<Union>(i, p) \<in> set (enumerate 0 plans).
        {ids i} \<times> plan_ref (plan_names ids 0 plans Map.empty) ` set (nullish (p_dependsOn p) []))"
    and inj: "distinct (map ids [0..<length plans])" and dist: "distinct (map sr_id (subtasks db'))"
    by (rule createSubtasks_created [OF ok call False])
  have new: "ids i \<notin> subtask_ids db" if "i < length plans" for i
  proof -
    have "ids i \<in> ids ` {0..<length plans}" using that by simp
    then show ?thesis using dist by (simp add: rows disjoint_iff del: image_iff) blast
  qed
  have edge_iff: "(a, d) \<in> set (subtask_dependencies db') \<longleftrightarrow> (a, d) \<in> set (subtask_dependencies db) \<or>
      (\<exists>j < length plans. a = ids j \<and>
        d \<in> plan_ref (plan_names ids 0 plans Map.empty) ` set (nullish (p_dependsOn (plans ! j)) []))" for a d
    unfolding edges by (force simp: in_set_enumerate_eq)
  have deps: "{d. (ids i, d) \<in> set (subtask_dependencies db')} =
      plan_ref (plan_names ids 0 plans Map.empty) ` set (nullish (p_dependsOn (plans ! i)) [])"
    if i: "i < length plans" for i
  proof -
    have "(ids i, d) \<notin> set (subtask_dependencies db)" for d
      using new [OF i] delegation_ok_wf [OF ok] by (auto simp: deps_wf_def)
    moreover have "ids i = ids j \<longleftrightarrow> i = j" if "j < length plans" for j
      using inj i that by (auto simp: distinct_map inj_on_def)
    ultimately show ?thesis
      using i by (auto simp: edge_iff cong: conj_cong)
  qed
  have "getSubtask db' i = getSubtask db i" if "i \<in> subtask_ids db" for i
  proof (rule getSubtask_keeps [OF that rows])
    show "(i, d) \<in> set (subtask_dependencies db') \<longleftrightarrow> (i, d) \<in> set (subtask_dependencies db)" for d
      using that new by (metis edge_iff)
  qed (use ok ok' in \<open>simp_all add: delegation_ok_def\<close>)
  moreover have "list_all2 (planned (plan_names ids 0 plans Map.empty) taskId (non_empty parentId)) plans ss"
    using descr deps by (auto simp: list_all2_conv_all_nth ss planned_def rowToSubtask_def
        subtask_insert_def Let_def normalized_again list_all_length)
  moreover have "map st_id ss = map ids [0..<length plans]"
    by (simp add: ss rowToSubtask_def comp_def)
  ultimately show ?thesis by (simp add: rows ids_plan_rows)
qed

section \<open>The task tree\<close>

lemma fold_dependency_map:
  "fold (\<lambda>(s, d) m. m(s \<mapsto> nullish (m s) [] @ [d])) rows m i =
   (if getDependencies_rows rows i = [] then m i else Some (nullish (m i) [] @ getDependencies_rows rows i))"
  by (induction rows arbitrary: m) (auto simp: getDependencies_rows_def)

lemma getDependencies_rows_filter:
  "(\<And>d. (i, d) \<in> set E \<Longrightarrow> P (i, d)) \<Longrightarrow> getDependencies_rows (filter P E) i = getDependencies_rows E i"
  by (induction E) (auto simp: getDependencies_rows_def)

lemma getDependencyMap_eq:
  assumes "r \<in> set (subtasks db)" and "sr_task_id r = taskId"
  shows "nullish (getDependencyMap db taskId (sr_id r)) [] = getDependencies_d (subtask_dependencies db) (sr_id r)"
proof -
  let ?P = "\<lambda>e. \<exists>s \<in> set (subtasks db). sr_id s = fst e \<and> sr_task_id s = taskId"
  have "getDependencies_rows (filter ?P (sort_key snd (subtask_dependencies db))) (sr_id r) =
        getDependencies_rows (sort_key snd (subtask_dependencies db)) (sr_id r)"
    by (rule getDependencies_rows_filter) (use assms in auto)
  then have "getDependencies_rows (sort_key snd (filter ?P (subtask_dependencies db))) (sr_id r) =
        getDependencies_d (subtask_dependencies db) (sr_id r)"
    by (simp only: filter_sort getDependencies_sorted_rows)
  then show ?thesis
    by (simp add: getDependencyMap_def Let_def fold_dependency_map)
qed

lemma listSubtasks_set:
  assumes "delegation_ok db"
  shows "set (listSubtasks db taskId) =
      {s. \<exists>r \<in> set (subtasks db). sr_task_id r = taskId \<and> getSubtask db (sr_id r) = Some s}"
    and "distinct (map st_id (listSubtasks db taskId))"
    and "mset (listSubtasks db taskId) = image_mset (\<lambda>r. the (getSubtask db (sr_id r)))
           (mset (filter (\<lambda>r. sr_task_id r = taskId) (subtasks db)))"
proof -
  let ?rows = "filter (\<lambda>r. sr_task_id r = taskId) (subtasks db)"
  let ?sorted = "order_asc (\<lambda>r. int (sr_depth r)) (order_asc sr_created_at ?rows)"
  have dist: "distinct (map sr_id (subtasks db))" using assms by (simp add: delegation_ok_def)
  have get: "getSubtask db (sr_id r) = Some (rowToSubtask r (getDependencies_d (subtask_dependencies db) (sr_id r)))"
    if "r \<in> set (subtasks db)" for r
    using sql_get_unique [OF dist that] by (simp add: getSubtask_def getSubtask_row_def)
  have list: "listSubtasks db taskId = map (\<lambda>r. the (getSubtask db (sr_id r))) ?sorted"
    by (auto simp: listSubtasks_def Let_def get getDependencyMap_eq)
  show "set (listSubtasks db taskId) =
      {s. \<exists>r \<in> set (subtasks db). sr_task_id r = taskId \<and> getSubtask db (sr_id r) = Some s}"
    by (force simp: list get)
  have perm: "mset ?sorted = mset ?rows" by (simp add: order_asc_def)
  then show "mset (listSubtasks db taskId) = image_mset (\<lambda>r. the (getSubtask db (sr_id r))) (mset ?rows)"
    by (simp add: list)
  have "map st_id (listSubtasks db taskId) = map sr_id ?sorted"
    by (auto simp: list get rowToSubtask_def)
  moreover have "distinct (map sr_id ?sorted)"
    using perm dist by (metis distinct_map_filter mset_eq_imp_distinct_iff mset_map)
  ultimately show "distinct (map st_id (listSubtasks db taskId))" by simp
qed

text \<open>
  The trees below the nodes: \<open>flatten\<close> lists the subtasks in a tree, and in a well nested tree every
  child names its parent.
\<close>

fun flatten :: "subtask_node \<Rightarrow> task_subtask list" where
  "flatten (Node s cs) = s # concat (map flatten cs)"

fun node_subtask :: "subtask_node \<Rightarrow> task_subtask" where
  "node_subtask (Node s cs) = s"

fun well_nested :: "subtask_node \<Rightarrow> bool" where
  "well_nested (Node s cs) =
     (list_all (\<lambda>c. st_parentId (node_subtask c) = Some (st_id s)) cs \<and> list_all well_nested cs)"

lemma link_nodes_eq:
  "link_nodes ns =
     (\<lambda>p. filter (\<lambda>n. non_empty (st_parentId n) = Some p \<and> p \<in> st_id ` set ns) ns,
      filter (\<lambda>n. case non_empty (st_parentId n) of None \<Rightarrow> True | Some p \<Rightarrow> p \<notin> st_id ` set ns) ns)"
proof -
  have "fold (link_node ids) xs (ch, rs) =
     (\<lambda>p. ch p @ filter (\<lambda>n. non_empty (st_parentId n) = Some p \<and> p \<in> set ids) xs,
      rs @ filter (\<lambda>n. case non_empty (st_parentId n) of None \<Rightarrow> True | Some p \<Rightarrow> p \<notin> set ids) xs)"
    for ids xs ch rs
    by (induction xs arbitrary: ch rs) (auto simp: link_node_def fun_eq_iff split: option.split)
  then show ?thesis by (simp add: link_nodes_def cong: option.case_cong)
qed

text \<open>Subtasks that form a forest: what the invariant gives for the subtasks of one task.\<close>

definition forest :: "task_subtask list \<Rightarrow> bool" where
  "forest ns \<longleftrightarrow>
     distinct (map st_id ns) \<and>
     (\<forall>n \<in> set ns. st_id n \<noteq> [] \<and> st_depth n \<le> MAX_DELEGATION_DEPTH \<and>
        (case st_parentId n of
           None \<Rightarrow> st_depth n = 1
         | Some p \<Rightarrow> \<exists>q \<in> set ns. st_id q = p \<and> st_depth n = Suc (st_depth q)))"

lemma forest_listSubtasks:
  assumes ok: "delegation_ok db"
  shows "forest (listSubtasks db taskId)"
proof -
  have dist: "distinct (map sr_id (subtasks db))" using ok by (simp add: delegation_ok_def)
  have get: "getSubtask db (sr_id r) = Some (rowToSubtask r (getDependencies_d (subtask_dependencies db) (sr_id r)))"
    if "r \<in> set (subtasks db)" for r
    using sql_get_unique [OF dist that] by (simp add: getSubtask_def getSubtask_row_def)
  have "st_id n \<noteq> [] \<and> st_depth n \<le> MAX_DELEGATION_DEPTH \<and>
        (case st_parentId n of
           None \<Rightarrow> st_depth n = 1
         | Some p \<Rightarrow> \<exists>q \<in> set (listSubtasks db taskId). st_id q = p \<and> st_depth n = Suc (st_depth q))"
    if n: "n \<in> set (listSubtasks db taskId)" for n
  proof -
    from n obtain r where r: "r \<in> set (subtasks db)" "sr_task_id r = taskId"
      "n = rowToSubtask r (getDependencies_d (subtask_dependencies db) (sr_id r))"
      by (auto simp: listSubtasks_set [OF ok] get)
    then have "row_ok db r" using ok by (simp add: delegation_ok_def)
    moreover have "\<exists>s \<in> set (listSubtasks db taskId). st_id s = sr_id q \<and> st_depth s = sr_depth q"
      if "q \<in> set (subtasks db)" "sr_task_id q = taskId" for q
      using that by (auto simp: listSubtasks_set [OF ok] get rowToSubtask_def)
    ultimately show ?thesis
      using r by (fastforce simp: row_ok_def parent_ok_def rowToSubtask_def split: option.splits)
  qed
  then show ?thesis using listSubtasks_set(2) [OF ok] by (simp add: forest_def)
qed

lemma forestD:
  assumes "forest ns" and "n \<in> set ns"
  shows "st_depth n \<le> MAX_DELEGATION_DEPTH" and "st_parentId n = None \<longleftrightarrow> st_depth n \<le> 1"
    and "st_parentId n = Some p \<Longrightarrow> \<exists>q \<in> set ns. st_id q = p \<and> st_depth n = Suc (st_depth q)"
    and "non_empty (st_parentId n) = st_parentId n" and "1 \<le> st_depth n"
proof -
  have depth: "1 \<le> st_depth m" if "m \<in> set ns" for m
    using assms(1) that by (cases "st_parentId m"; force simp: forest_def)
  show "st_depth n \<le> MAX_DELEGATION_DEPTH"
    using assms by (simp add: forest_def)
  show par: "st_parentId n = Some p \<Longrightarrow> \<exists>q \<in> set ns. st_id q = p \<and> st_depth n = Suc (st_depth q)" for p
    using assms by (force simp: forest_def)
  show "st_parentId n = None \<longleftrightarrow> st_depth n \<le> 1"
  proof (cases "st_parentId n")
    case None
    then show ?thesis using assms by (force simp: forest_def)
  next
    case (Some p)
    then show ?thesis using par [OF Some] depth by force
  qed
  show "non_empty (st_parentId n) = st_parentId n"
    using par assms(1) by (cases "st_parentId n") (auto simp: non_empty_def forest_def)
  show "1 \<le> st_depth n" by (rule depth) fact
qed

definition level :: "nat \<Rightarrow> task_subtask list \<Rightarrow> task_subtask list" where
  "level d ns = filter (\<lambda>n. st_depth n = d) ns"

definition children_in :: "task_subtask list \<Rightarrow> subtask_id \<Rightarrow> task_subtask list" where
  "children_in ns p = filter (\<lambda>n. st_parentId n = Some p) ns"

lemma link_nodes_forest:
  assumes "forest ns"
  shows "link_nodes ns = (children_in ns, level 1 ns)"
proof -
  note f = forestD [OF assms]
  have "(non_empty (st_parentId n) = Some p \<and> p \<in> st_id ` set ns) \<longleftrightarrow> st_parentId n = Some p"
    if "n \<in> set ns" for n p
    using f(3,4) [OF that] by force
  moreover have "(case non_empty (st_parentId n) of None \<Rightarrow> True | Some p \<Rightarrow> p \<notin> st_id ` set ns) \<longleftrightarrow> st_depth n = 1"
    if n: "n \<in> set ns" for n
  proof (cases "st_parentId n")
    case None
    then show ?thesis using assms n by (force simp: forest_def non_empty_def)
  next
    case (Some p)
    then show ?thesis using f(2,3,4) [OF n] by force
  qed
  ultimately show ?thesis
    by (auto simp: link_nodes_eq children_in_def level_def fun_eq_iff intro!: filter_cong)
qed

text \<open>The children of the nodes of one level are the nodes of the next.\<close>

lemma mset_filter_split:
  assumes "\<And>x. \<not> (P x \<and> Q x)"
  shows "mset (filter P xs) + mset (filter Q xs) = mset (filter (\<lambda>x. P x \<or> Q x) xs)"
  using assms by (induction xs) auto

lemma children_of_list:
  "distinct (map st_id qs) \<Longrightarrow>
   mset (concat (map (\<lambda>q. children_in ns (st_id q)) qs)) =
   mset (filter (\<lambda>n. st_parentId n \<in> Some ` st_id ` set qs) ns)"
proof (induction qs)
  case Nil
  then show ?case by simp
next
  case (Cons q qs)
  have "mset (filter (\<lambda>n. st_parentId n = Some (st_id q)) ns) + mset (filter (\<lambda>n. st_parentId n \<in> Some ` st_id ` set qs) ns) =
      mset (filter (\<lambda>n. st_parentId n = Some (st_id q) \<or> st_parentId n \<in> Some ` st_id ` set qs) ns)"
    by (rule mset_filter_split) (use Cons.prems in auto)
  then show ?case using Cons by (simp add: children_in_def)
qed

lemma children_of_level:
  assumes "forest ns" and "1 \<le> d"
  shows "mset (concat (map (\<lambda>q. children_in ns (st_id q)) (level d ns))) = mset (level (Suc d) ns)"
proof -
  have dist: "distinct (map st_id ns)" using assms(1) by (simp add: forest_def)
  have "st_parentId n \<in> Some ` st_id ` set (level d ns) \<longleftrightarrow> st_depth n = Suc d" if n: "n \<in> set ns" for n
  proof (cases "st_parentId n")
    case None
    then show ?thesis using forestD(2) [OF assms(1) n] assms(2) by auto
  next
    case (Some p)
    then obtain q where q: "q \<in> set ns" "st_id q = p" "st_depth n = Suc (st_depth q)"
      using forestD(3) [OF assms(1) n] by blast
    have only: "q' = q" if "q' \<in> set ns" "st_id q' = p" for q'
      using dist q(1,2) that unfolding distinct_map inj_on_def by metis
    have "p \<in> st_id ` set (level d ns) \<longleftrightarrow> st_depth q = d"
    proof
      assume "p \<in> st_id ` set (level d ns)"
      then obtain q' where "q' \<in> set ns" "st_depth q' = d" "st_id q' = p" by (auto simp: level_def)
      with only show "st_depth q = d" by blast
    next
      assume "st_depth q = d"
      with q(1) have "q \<in> set (level d ns)" by (simp add: level_def)
      with q(2) show "p \<in> st_id ` set (level d ns)" by blast
    qed
    then show ?thesis using Some q(3) by auto
  qed
  then have "filter (\<lambda>n. st_parentId n \<in> Some ` st_id ` set (level d ns)) ns = level (Suc d) ns"
    unfolding level_def by (intro filter_cong) simp_all
  moreover have "distinct (map st_id (level d ns))"
    using dist by (simp add: level_def distinct_map_filter)
  ultimately show ?thesis by (simp add: children_of_list)
qed

lemma mset_concat_map_sum: "mset (concat (map f xs)) = sum_mset (image_mset (\<lambda>x. mset (f x)) (mset xs))"
  by (induction xs) simp_all

lemma mset_concat_map: "mset xs = mset ys \<Longrightarrow> mset (concat (map f xs)) = mset (concat (map f ys))"
  by (simp only: mset_concat_map_sum)

lemma concat_map_concat: "concat (map (\<lambda>s. concat (map f (g s))) xs) = concat (map f (concat (map g xs)))"
  by (induction xs) simp_all

lemma mset_concat_Cons:
  "mset (concat (map (\<lambda>s. s # f s) xs)) = mset xs + mset (concat (map f xs))"
  by (induction xs) auto

text \<open>
  With as many levels as there are below, reading the trees of a level finds every deeper subtask
  once.
\<close>

lemma flatten_level:
  assumes "forest ns"
  shows "1 \<le> d \<Longrightarrow> MAX_DELEGATION_DEPTH \<le> d + n \<Longrightarrow>
    mset (concat (map (\<lambda>s. flatten (read_node n (children_in ns) s)) (level d ns))) =
    mset (filter (\<lambda>s. d \<le> st_depth s) ns)"
proof (induction n arbitrary: d)
  case 0
  have "filter (\<lambda>s. d \<le> st_depth s) ns = level d ns"
    unfolding level_def using 0 forestD(1) [OF assms] by (intro filter_cong) force+
  then show ?case by simp
next
  case (Suc n)
  let ?f = "\<lambda>s. flatten (read_node n (children_in ns) s)"
  have "mset (concat (map (\<lambda>s. flatten (read_node (Suc n) (children_in ns) s)) (level d ns))) =
        mset (level d ns) + mset (concat (map ?f (concat (map (\<lambda>q. children_in ns (st_id q)) (level d ns)))))"
    by (simp add: mset_concat_Cons comp_def concat_map_concat)
  also have "\<dots> = mset (level d ns) + mset (filter (\<lambda>s. Suc d \<le> st_depth s) ns)"
    using Suc by (simp add: mset_concat_map [OF children_of_level [OF assms Suc.prems(1)]])
  also have "\<dots> = mset (filter (\<lambda>s. st_depth s = d \<or> Suc d \<le> st_depth s) ns)"
    unfolding level_def by (rule mset_filter_split) simp
  also have "filter (\<lambda>s. st_depth s = d \<or> Suc d \<le> st_depth s) ns = filter (\<lambda>s. d \<le> st_depth s) ns"
    by (rule filter_cong) auto
  finally show ?case .
qed

lemma node_subtask_read [simp]: "node_subtask (read_node n ch s) = s"
  by (cases n) simp_all

lemma well_nested_read: "well_nested (read_node n (children_in ns) s)"
  by (induction n arbitrary: s) (auto simp: list_all_iff children_in_def)

text \<open>
  The tree of a task is complete: its trees hold every subtask of the task exactly once and each
  reads as \<open>getSubtask\<close> gives it; roots have no parent and every child is below its parent.
\<close>

theorem getTaskTree_complete:
  assumes "delegation_reachable db"
  shows "mset (concat (map flatten (tr_roots (getTaskTree le db taskId)))) =
           image_mset (\<lambda>r. the (getSubtask db (sr_id r)))
             (mset (filter (\<lambda>r. sr_task_id r = taskId) (subtasks db))) \<and>
         list_all well_nested (tr_roots (getTaskTree le db taskId)) \<and>
         list_all (\<lambda>t. st_parentId (node_subtask t) = None) (tr_roots (getTaskTree le db taskId))"
proof -
  have ok: "delegation_ok db" by (rule delegation_reachable_ok) fact
  let ?ns = "listSubtasks db taskId"
  have forest: "forest ?ns" by (rule forest_listSubtasks [OF ok])
  have roots: "tr_roots (getTaskTree le db taskId) = map (read_node MAX_DELEGATION_DEPTH (children_in ?ns)) (level 1 ?ns)"
    by (simp add: getTaskTree_def Let_def link_nodes_forest [OF forest])
  have "filter (\<lambda>s. 1 \<le> st_depth s) ?ns = ?ns"
    using forestD(5) [OF forest] by (intro filter_True) simp
  then have "mset (concat (map flatten (tr_roots (getTaskTree le db taskId)))) = mset ?ns"
    using flatten_level [OF forest, of 1 MAX_DELEGATION_DEPTH] by (simp add: roots comp_def)
  moreover have "st_parentId s = None" if "s \<in> set (level 1 ?ns)" for s
    using that forestD(2) [OF forest, of s] by (simp add: level_def)
  ultimately show ?thesis
    by (simp add: listSubtasks_set(3) [OF ok] roots list_all_iff well_nested_read)
qed

section \<open>References by number\<close>

lemma plan_names_unnamed:
  assumes "list_all (\<lambda>p. non_empty (map_option trim (p_planId p)) = None) plans"
  shows "plan_names ids index plans m (decimal k) =
    (if index \<le> k \<and> k < index + length plans then Some (ids k)
     else if k = index + length plans \<and> plans \<noteq> [] then Some (ids (k - 1))
     else m (decimal k))"
  using assms
proof (induction plans arbitrary: index m)
  case Nil
  then show ?case by (auto simp: plan_names_def)
next
  case (Cons p plans)
  have dec: "decimal i = decimal j \<longleftrightarrow> i = j" for i j by (auto dest: decimal_inj)
  have np: "non_empty (map_option trim (p_planId p)) = None" using Cons.prems by simp
  show ?case
  proof (cases "k = index \<or> k = Suc index")
    case True
    then show ?thesis
      using Cons np by (cases plans) (auto simp: plan_names_Cons name_plan_def Let_def dec)
  next
    case False
    have "name_plan index p (ids index) m (decimal k) = m (decimal k)"
      using False np by (simp add: name_plan_def Let_def dec)
    then show ?thesis using Cons False by (auto simp: plan_names_Cons)
  qed
qed

text \<open>
  The store registers each plan under its index and under its index plus one, but the next plan
  takes over the second name: a number below the number of plans always means the zero-based index,
  and only the last plan is reached by its one-based position.
\<close>

theorem numeric_references:
  assumes "list_all (\<lambda>p. non_empty (map_option trim (p_planId p)) = None) plans" and "plans \<noteq> []"
  shows "map (\<lambda>k. plan_ref (plan_names ids 0 plans Map.empty) (decimal k)) [0..<length plans] = map ids [0..<length plans] \<and>
         plan_ref (plan_names ids 0 plans Map.empty) (decimal (length plans)) = ids (length plans - 1)"
  using assms(2) by (simp add: plan_ref_def plan_names_unnamed [OF assms(1)])

section \<open>Examples\<close>

definition example_plan :: subtask_plan where
  "example_plan = \<lparr>p_planId = None, p_description = '' dig '', p_requiredSkills = Some [''code'', '' code''],
     p_requiredTools = None, p_dependsOn = None, p_agentId = None\<rparr>"

definition example_ids :: "nat \<Rightarrow> subtask_id" where
  "example_ids i = ''s'' @ decimal i"

text \<open>A task with two subtasks, the second waiting for the first, and a third below the first.\<close>

definition example_delegation_calls :: "delegation_call list" where
  "example_delegation_calls =
     [D_task (C_create ''t'' 1000 example_new_task),
      D_create example_ids 2000 ''t'' [example_plan\<lparr>p_planId := Some ''a''\<rparr>,
        example_plan\<lparr>p_dependsOn := Some [''a''], p_agentId := Some ''x''\<rparr>] None,
      D_create (\<lambda>_. ''u'') 3000 ''t'' [example_plan] (Some ''s0'')]"

definition example_delegation :: delegation_db where
  "example_delegation = delegation_run example_delegation_calls empty_delegation_db"

lemma example_delegation_reachable: "delegation_reachable example_delegation"
  unfolding example_delegation_def by (rule delegation_reachable_run) (rule delegation_reachable.start)

theorem reachable_delegation_ok_witness:
  "delegation_ok example_delegation \<and> subtask_dependencies example_delegation = [(''s1'', ''s0'')] \<and>
   map sr_depth (subtasks example_delegation) = [1, 1, 2]"
  by (intro conjI reachable_delegation_ok [OF example_delegation_reachable]) code_simp+

theorem createSubtasks_correct_witness:
  "list_all2 (planned (plan_names (\<lambda>_. ''v'') 0 [example_plan] Map.empty) ''t'' (Some ''u'')) [example_plan]
     (projr (fst (createSubtasks (\<lambda>_. ''v'') 4000 ''t'' [example_plan] (Some ''u'') example_delegation)))"
proof -
  let ?c = "createSubtasks (\<lambda>_. ''v'') 4000 ''t'' [example_plan] (Some ''u'') example_delegation"
  have "isl (fst ?c) = False" by code_simp
  then have "?c = (Inr (projr (fst ?c)), snd ?c)"
    by (cases ?c; cases "fst ?c") auto
  from createSubtasks_correct [OF example_delegation_reachable this] show ?thesis
    by (simp add: non_empty_def)
qed

theorem getTaskTree_complete_witness:
  "list_all well_nested (tr_roots (getTaskTree (\<le>) example_delegation ''t'')) \<and>
   map (\<lambda>t. map st_id (flatten t)) (tr_roots (getTaskTree (\<le>) example_delegation ''t'')) = [[''s0'', ''u''], [''s1'']]"
proof (rule conjI)
  show "list_all well_nested (tr_roots (getTaskTree (\<le>) example_delegation ''t''))"
    using getTaskTree_complete [OF example_delegation_reachable] by blast
qed code_simp

text \<open>A second plan that names the first one by its position, 1, is refused: it depends on itself.\<close>

theorem numeric_references_witness:
  "map (\<lambda>k. plan_ref (plan_names example_ids 0 [example_plan, example_plan] Map.empty) (decimal k)) [0, 1] =
     [''s0'', ''s1''] \<and>
   fst (createSubtasks example_ids 4000 ''t'' [example_plan, example_plan\<lparr>p_dependsOn := Some [''1'']\<rparr>] None
     (delegation_run [D_task (C_create ''t'' 1000 example_new_task)] empty_delegation_db)) = Inl CircularSubtasks"
proof (rule conjI)
  have "list_all (\<lambda>p. non_empty (map_option trim (p_planId p)) = None) [example_plan, example_plan]"
    by code_simp
  from numeric_references [OF this, of example_ids]
  have "map (\<lambda>k. plan_ref (plan_names example_ids 0 [example_plan, example_plan] Map.empty) (decimal k)) [0, 1] =
      map example_ids [0, 1]"
    by (simp add: upt_rec)
  also have "\<dots> = [''s0'', ''s1'']" by code_simp
  finally show "map (\<lambda>k. plan_ref (plan_names example_ids 0 [example_plan, example_plan] Map.empty) (decimal k)) [0, 1] =
     [''s0'', ''s1'']" .
qed code_simp

end
