(* ===== verification/DealStore.thy ===== *)
theory DealStore
  imports Prelude JsNumber Json JsString
begin

text \<open>
  Deals between a Telegram user and the agent: the tables of src/deals/db.ts, the strategy rules of
  src/deals/strategy-checker.ts, proposing and cancelling (src/agent/tools/deals), the transitions of
  src/bot/services/deal-service.ts, the matching of gifts (src/deals/gift-matcher.ts) and of TON
  payments (src/ton/payment-verifier.ts).

  \<open>Date.now()\<close> is an argument in milliseconds; \<open>unixepoch()\<close> is the same moment in seconds. A
  transaction of the wallet is what the program reads off it: whether it is an internal message, the
  amount as \<open>parseFloat(fromNano(...))\<close>, the sender, the time in seconds, the hash and the comment.
\<close>

type_synonym deal_id = string

definition DEAL_VERIFICATION_WINDOW_SECONDS :: int where "DEAL_VERIFICATION_WINDOW_SECONDS = 300"
definition PAYMENT_TOLERANCE_RATIO :: js_num where "PAYMENT_TOLERANCE_RATIO = fl (99 / 100)"
definition DEFAULT_MAX_PAYMENT_AGE_MINUTES :: int where "DEFAULT_MAX_PAYMENT_AGE_MINUTES = 10"

section \<open>Configuration and strategy\<close>

record deals_config =
  dc_expirySeconds :: int
  dc_buyMaxMultiplier :: js_num
  dc_sellMinMultiplier :: js_num
  dc_maxRetries :: nat

definition DEALS_CONFIG :: deals_config where
  "DEALS_CONFIG = \<lparr>dc_expirySeconds = 120, dc_buyMaxMultiplier = Num 1,
     dc_sellMinMultiplier = fl (105 / 100), dc_maxRetries = 12\<rparr>"

record deals_yaml =
  y_expiry_seconds :: "int option"
  y_buy_max_floor_percent :: "js_num option"
  y_sell_min_floor_percent :: "js_num option"
  y_max_verification_retries :: "nat option"

definition initDealsConfig :: "deals_yaml option \<Rightarrow> deals_config \<Rightarrow> deals_config" where
  "initDealsConfig yaml cfg =
     (case yaml of
        None \<Rightarrow> cfg
      | Some y \<Rightarrow>
          \<lparr>dc_expirySeconds = nullish (y_expiry_seconds y) (dc_expirySeconds cfg),
           dc_buyMaxMultiplier = (case y_buy_max_floor_percent y of
              None \<Rightarrow> dc_buyMaxMultiplier cfg | Some p \<Rightarrow> js_div p (Num 100)),
           dc_sellMinMultiplier = (case y_sell_min_floor_percent y of
              None \<Rightarrow> dc_sellMinMultiplier cfg | Some p \<Rightarrow> js_div p (Num 100)),
           dc_maxRetries = nullish (y_max_verification_retries y) (dc_maxRetries cfg)\<rparr>)"

datatype asset_type = Ton_asset | Gift_asset

record asset_value =
  av_type :: asset_type
  av_tonAmount :: "js_num option"
  av_giftSlug :: "string option"
  av_valueTon :: js_num

record strategy_check =
  sc_acceptable :: bool
  sc_reason :: "msg option"
  sc_rule :: msg
  sc_profit :: js_num
  sc_floorPriceUsed :: "js_num option"
  sc_percentageOfFloor :: "js_num option"

definition percent :: "js_num \<Rightarrow> piece" where
  "percent m = N (js_round (js_mul m (Num 100)))"

definition js_abs :: "js_num \<Rightarrow> js_num" where
  "js_abs a = (if js_lt a (Num 0) then js_neg a else a)"

definition check_buying :: "deals_config \<Rightarrow> js_num \<Rightarrow> js_num \<Rightarrow> strategy_check" where
  "check_buying cfg userValue agentValue =
     (let profit = js_sub userValue agentValue;
          maxAllowed = js_mul userValue (dc_buyMaxMultiplier cfg);
          pct = js_mul (js_div agentValue userValue) (Num 100)
      in if js_gt agentValue maxAllowed then
           \<lparr>sc_acceptable = False,
            sc_reason = Some [S ''Strategy violation: Cannot pay more than '', percent (dc_buyMaxMultiplier cfg),
              S ''% of floor price. Gift worth '', N userValue, S '' TON, offering '', N agentValue,
              S '' TON ('', Fixed 0 pct, S ''%). Max allowed: '', Fixed 2 maxAllowed, S '' TON.''],
            sc_rule = [S ''BUYING: max '', percent (dc_buyMaxMultiplier cfg), S ''% floor''],
            sc_profit = profit, sc_floorPriceUsed = Some userValue, sc_percentageOfFloor = Some pct\<rparr>
         else
           \<lparr>sc_acceptable = True, sc_reason = None,
            sc_rule = [S ''BUYING: '', Fixed 0 pct, S ''% of floor (compliant)''],
            sc_profit = profit, sc_floorPriceUsed = Some userValue, sc_percentageOfFloor = Some pct\<rparr>)"

definition check_selling :: "deals_config \<Rightarrow> js_num \<Rightarrow> js_num \<Rightarrow> strategy_check" where
  "check_selling cfg userValue agentValue =
     (let profit = js_sub userValue agentValue;
          minRequired = js_mul agentValue (dc_sellMinMultiplier cfg);
          pct = js_mul (js_div userValue agentValue) (Num 100)
      in if js_lt userValue minRequired then
           \<lparr>sc_acceptable = False,
            sc_reason = Some [S ''Strategy violation: Must charge at least '', percent (dc_sellMinMultiplier cfg),
              S ''% of floor price. Gift worth '', N agentValue, S '' TON, receiving '', N userValue,
              S '' TON ('', Fixed 0 pct, S ''%). Min required: '', Fixed 2 minRequired, S '' TON.''],
            sc_rule = [S ''SELLING: min '', percent (dc_sellMinMultiplier cfg), S ''% floor''],
            sc_profit = profit, sc_floorPriceUsed = Some agentValue, sc_percentageOfFloor = Some pct\<rparr>
         else
           \<lparr>sc_acceptable = True, sc_reason = None,
            sc_rule = [S ''SELLING: '', Fixed 0 pct, S ''% of floor (compliant)''],
            sc_profit = profit, sc_floorPriceUsed = Some agentValue, sc_percentageOfFloor = Some pct\<rparr>)"

definition check_swap :: "msg \<Rightarrow> msg \<Rightarrow> msg \<Rightarrow> js_num \<Rightarrow> js_num \<Rightarrow> strategy_check" where
  "check_swap good bad reason userValue agentValue =
     (if js_ge userValue agentValue then
        \<lparr>sc_acceptable = True, sc_reason = None, sc_rule = good, sc_profit = js_sub userValue agentValue,
         sc_floorPriceUsed = None, sc_percentageOfFloor = None\<rparr>
      else
        \<lparr>sc_acceptable = False, sc_reason = Some reason, sc_rule = bad,
         sc_profit = js_sub userValue agentValue,
         sc_floorPriceUsed = None, sc_percentageOfFloor = None\<rparr>)"

definition checkStrategyCompliance :: "deals_config \<Rightarrow> asset_value \<Rightarrow> asset_value \<Rightarrow> strategy_check" where
  "checkStrategyCompliance cfg userGives agentGives =
     (let userValue = av_valueTon userGives;
          agentValue = av_valueTon agentGives;
          loss = Fixed 2 (js_abs (js_sub userValue agentValue))
      in case (av_type userGives, av_type agentGives) of
           (Gift_asset, Ton_asset) \<Rightarrow> check_buying cfg userValue agentValue
         | (Ton_asset, Gift_asset) \<Rightarrow> check_selling cfg userValue agentValue
         | (Gift_asset, Gift_asset) \<Rightarrow>
             check_swap [S ''SWAP: Fair exchange (agent receives '', N userValue, S '' TON value for '',
                         N agentValue, S '' TON value)'']
               [S ''SWAP: no value loss'']
               [S ''Strategy violation: Gift swap would lose value. Giving '', N agentValue,
                S '' TON value, receiving '', N userValue, S '' TON value. Loss: '', loss, S '' TON.'']
               userValue agentValue
         | (Ton_asset, Ton_asset) \<Rightarrow>
             check_swap [S ''TON swap: profit or neutral''] [S ''TON swap: no loss'']
               [S ''TON swap would lose '', loss, S '' TON.''] userValue agentValue)"

section \<open>Tables\<close>

datatype deal_status =
    Proposed | Accepted | Payment_claimed | Verified | Completed
  | Declined | Expired | Cancelled | Failed

datatype tx_status = Tx_pending | Tx_confirmed | Tx_failed

record deal =
  dl_id :: deal_id
  dl_status :: deal_status
  dl_user_telegram_id :: int
  dl_user_username :: "string option"
  dl_chat_id :: string
  dl_proposal_message_id :: "int option"
  dl_user_gives_type :: asset_type
  dl_user_gives_ton_amount :: "js_num option"
  dl_user_gives_gift_id :: "string option"
  dl_user_gives_gift_slug :: "string option"
  dl_user_gives_value_ton :: js_num
  dl_agent_gives_type :: asset_type
  dl_agent_gives_ton_amount :: "js_num option"
  dl_agent_gives_gift_id :: "string option"
  dl_agent_gives_gift_slug :: "string option"
  dl_agent_gives_value_ton :: js_num
  dl_user_payment_verified_at :: "int option"
  dl_user_payment_tx_hash :: "string option"
  dl_user_payment_gift_msgid :: "string option"
  dl_user_payment_wallet :: "string option"
  dl_agent_sent_at :: "int option"
  dl_agent_sent_tx_hash :: "string option"
  dl_agent_sent_tx_status :: "tx_status option"
  dl_agent_sent_gift_msgid :: "string option"
  dl_strategy_check :: "strategy_check option"
  dl_profit_ton :: "js_num option"
  dl_created_at :: int
  dl_expires_at :: int
  dl_completed_at :: "int option"
  dl_notes :: "msg option"
  dl_inline_message_id :: "string option"
  dl_payment_claimed_at :: "int option"

record used_tx =
  ut_tx_hash :: string
  ut_user_id :: string
  ut_amount :: js_num
  ut_game_type :: string
  ut_used_at :: int

record trade_stats =
  ts_telegram_id :: int
  ts_username :: "string option"
  ts_total_deals :: int
  ts_completed_deals :: int
  ts_total_ton_sent :: js_num
  ts_total_ton_received :: js_num
  ts_total_gifts_sent :: int
  ts_total_gifts_received :: int
  ts_last_deal_at :: "int option"

record deals_db =
  deals :: "deal list"
  used_transactions :: "used_tx list"
  user_trade_stats :: "trade_stats list"

definition get_deal :: "deals_db \<Rightarrow> deal_id \<Rightarrow> deal option" where
  "get_deal db dealId = sql_get dl_id dealId (deals db)"

text \<open>
  \<open>UPDATE deals SET f WHERE id = ? AND p\<close>, with the test \<open>changes === 1\<close>. Ids are unique, so at most
  one row changes.
\<close>

definition change_deal :: "deal_id \<Rightarrow> (deal \<Rightarrow> bool) \<Rightarrow> (deal \<Rightarrow> deal) \<Rightarrow> deals_db \<Rightarrow> bool \<times> deals_db" where
  "change_deal dealId p f db =
     (let hit = (\<lambda>d. dl_id d = dealId \<and> p d) in
      (filter hit (deals db) \<noteq> [], db\<lparr>deals := sql_update_where hit f (deals db)\<rparr>))"

section \<open>Transitions\<close>

definition acceptDeal :: "int \<Rightarrow> deal_id \<Rightarrow> deals_db \<Rightarrow> bool \<times> deals_db" where
  "acceptDeal now dealId =
     change_deal dealId (\<lambda>d. dl_status d = Proposed)
       (\<lambda>d. d\<lparr>dl_status := Accepted, dl_expires_at := secs now + DEAL_VERIFICATION_WINDOW_SECONDS\<rparr>)"

definition declineDeal :: "deal_id \<Rightarrow> deals_db \<Rightarrow> bool \<times> deals_db" where
  "declineDeal dealId =
     change_deal dealId (\<lambda>d. dl_status d = Proposed) (\<lambda>d. d\<lparr>dl_status := Declined\<rparr>)"

definition claimPayment :: "int \<Rightarrow> deal_id \<Rightarrow> deals_db \<Rightarrow> bool \<times> deals_db" where
  "claimPayment now dealId =
     change_deal dealId (\<lambda>d. dl_status d = Accepted)
       (\<lambda>d. d\<lparr>dl_status := Payment_claimed, dl_payment_claimed_at := Some (secs now)\<rparr>)"

definition setInlineMessageId :: "deal_id \<Rightarrow> string \<Rightarrow> deals_db \<Rightarrow> deals_db" where
  "setInlineMessageId dealId inlineId db =
     snd (change_deal dealId (\<lambda>_. True) (\<lambda>d. d\<lparr>dl_inline_message_id := Some inlineId\<rparr>) db)"

definition isDealExpired :: "int \<Rightarrow> deal \<Rightarrow> bool" where
  "isDealExpired now d = (dl_expires_at d < secs now)"

definition expireDeal :: "deal_id \<Rightarrow> deals_db \<Rightarrow> bool \<times> deals_db" where
  "expireDeal dealId =
     change_deal dealId (\<lambda>d. dl_status d \<in> {Proposed, Accepted}) (\<lambda>d. d\<lparr>dl_status := Expired\<rparr>)"

text \<open>The interval of the module: every open deal past its expiry.\<close>

definition expire_stale :: "int \<Rightarrow> deals_db \<Rightarrow> deals_db" where
  "expire_stale now db =
     db\<lparr>deals := sql_update_where
          (\<lambda>d. dl_status d \<in> {Proposed, Accepted} \<and> dl_expires_at d < secs now)
          (\<lambda>d. d\<lparr>dl_status := Expired\<rparr>) (deals db)\<rparr>"

text \<open>ORDER BY \<open>payment_claimed_at\<close>: NULL sorts before every number.\<close>

definition getDealsAwaitingVerification :: "deals_db \<Rightarrow> deal list" where
  "getDealsAwaitingVerification db =
     (let rows = filter (\<lambda>d. dl_status d = Payment_claimed) (deals db);
          claimed = filter (\<lambda>d. dl_payment_claimed_at d \<noteq> None) rows
      in take 10 (filter (\<lambda>d. dl_payment_claimed_at d = None) rows @
                  order_asc (\<lambda>d. the (dl_payment_claimed_at d)) claimed))"

definition sql_upsert_stats :: "int \<Rightarrow> string option \<Rightarrow> int \<Rightarrow> trade_stats list \<Rightarrow> trade_stats list" where
  "sql_upsert_stats userId username now rows =
     (if sql_get ts_telegram_id userId rows = None then
        rows @ [\<lparr>ts_telegram_id = userId, ts_username = username, ts_total_deals = 1,
                 ts_completed_deals = 0, ts_total_ton_sent = Num 0, ts_total_ton_received = Num 0,
                 ts_total_gifts_sent = 0, ts_total_gifts_received = 0, ts_last_deal_at = Some now\<rparr>]
      else sql_update ts_telegram_id userId
        (\<lambda>r. r\<lparr>ts_username := (case username of None \<Rightarrow> ts_username r | Some u \<Rightarrow> Some u),
               ts_total_deals := ts_total_deals r + 1, ts_last_deal_at := Some now\<rparr>) rows)"

definition or_zero :: "js_num option \<Rightarrow> js_num" where
  "or_zero x = (case x of Some a \<Rightarrow> if js_truthy a then a else Num 0 | None \<Rightarrow> Num 0)"

definition updateUserStats :: "int \<Rightarrow> int \<Rightarrow> string option \<Rightarrow> deal \<Rightarrow> bool \<Rightarrow> deals_db \<Rightarrow> deals_db" where
  "updateUserStats now userId username d completed db =
     (let rows = sql_upsert_stats userId username (secs now) (user_trade_stats db);
          tonSent = (if dl_user_gives_type d = Ton_asset then or_zero (dl_user_gives_ton_amount d) else Num 0);
          tonReceived = (if dl_agent_gives_type d = Ton_asset then or_zero (dl_agent_gives_ton_amount d) else Num 0);
          giftsSent = (if dl_user_gives_type d = Gift_asset then 1 else 0);
          giftsReceived = (if dl_agent_gives_type d = Gift_asset then 1 else 0)
      in db\<lparr>user_trade_stats :=
           (if completed then sql_update ts_telegram_id userId
              (\<lambda>r. r\<lparr>ts_completed_deals := ts_completed_deals r + 1,
                     ts_total_ton_sent := js_add (ts_total_ton_sent r) tonSent,
                     ts_total_ton_received := js_add (ts_total_ton_received r) tonReceived,
                     ts_total_gifts_sent := ts_total_gifts_sent r + giftsSent,
                     ts_total_gifts_received := ts_total_gifts_received r + giftsReceived\<rparr>) rows
            else rows)\<rparr>)"

section \<open>Proposing and cancelling\<close>

record propose_params =
  pp_chatId :: string
  pp_userId :: int
  pp_userUsername :: "string option"
  pp_userGivesType :: asset_type
  pp_userGivesTonAmount :: "js_num option"
  pp_userGivesGiftId :: "string option"
  pp_userGivesGiftSlug :: "string option"
  pp_userGivesValueTon :: js_num
  pp_agentGivesType :: asset_type
  pp_agentGivesTonAmount :: "js_num option"
  pp_agentGivesGiftId :: "string option"
  pp_agentGivesGiftSlug :: "string option"
  pp_agentGivesValueTon :: js_num

text \<open>\<open>x || null\<close> on a number that may be missing.\<close>

definition or_null :: "js_num option \<Rightarrow> js_num option" where
  "or_null x = (case x of Some a \<Rightarrow> if js_truthy a then Some a else None | None \<Rightarrow> None)"

definition propose_check :: "deals_config \<Rightarrow> propose_params \<Rightarrow> strategy_check" where
  "propose_check cfg p =
     checkStrategyCompliance cfg
       \<lparr>av_type = pp_userGivesType p, av_tonAmount = pp_userGivesTonAmount p,
        av_giftSlug = pp_userGivesGiftSlug p, av_valueTon = pp_userGivesValueTon p\<rparr>
       \<lparr>av_type = pp_agentGivesType p, av_tonAmount = pp_agentGivesTonAmount p,
        av_giftSlug = pp_agentGivesGiftSlug p, av_valueTon = pp_agentGivesValueTon p\<rparr>"

definition propose_row :: "deals_config \<Rightarrow> deal_id \<Rightarrow> int \<Rightarrow> propose_params \<Rightarrow> deal" where
  "propose_row cfg dealId now p =
     \<lparr>dl_id = dealId, dl_status = Proposed,
      dl_user_telegram_id = pp_userId p,
      dl_user_username = non_empty (pp_userUsername p),
      dl_chat_id = pp_chatId p,
      dl_proposal_message_id = None,
      dl_user_gives_type = pp_userGivesType p,
      dl_user_gives_ton_amount = or_null (pp_userGivesTonAmount p),
      dl_user_gives_gift_id = non_empty (pp_userGivesGiftId p),
      dl_user_gives_gift_slug = non_empty (pp_userGivesGiftSlug p),
      dl_user_gives_value_ton = pp_userGivesValueTon p,
      dl_agent_gives_type = pp_agentGivesType p,
      dl_agent_gives_ton_amount = or_null (pp_agentGivesTonAmount p),
      dl_agent_gives_gift_id = non_empty (pp_agentGivesGiftId p),
      dl_agent_gives_gift_slug = non_empty (pp_agentGivesGiftSlug p),
      dl_agent_gives_value_ton = pp_agentGivesValueTon p,
      dl_user_payment_verified_at = None, dl_user_payment_tx_hash = None,
      dl_user_payment_gift_msgid = None, dl_user_payment_wallet = None,
      dl_agent_sent_at = None, dl_agent_sent_tx_hash = None, dl_agent_sent_tx_status = None,
      dl_agent_sent_gift_msgid = None,
      dl_strategy_check = Some (propose_check cfg p),
      dl_profit_ton = Some (sc_profit (propose_check cfg p)),
      dl_created_at = secs now,
      dl_expires_at = secs now + dc_expirySeconds cfg,
      dl_completed_at = None, dl_notes = None, dl_inline_message_id = None, dl_payment_claimed_at = None\<rparr>"

datatype propose_error = Rejected msg | Deal_id_taken

text \<open>Up to the INSERT; afterwards the proposal is sent, and when it went as plain text its message is stored.\<close>

definition dealPropose ::
  "deals_config \<Rightarrow> deal_id \<Rightarrow> int \<Rightarrow> propose_params \<Rightarrow> deals_db \<Rightarrow>
   (propose_error, strategy_check, deals_db) outcome" where
  "dealPropose cfg dealId now p db =
     (let check = propose_check cfg p in
      if \<not> sc_acceptable check
      then throw (Rejected (S ''Deal rejected by strategy rules: '' # nullish (sc_reason check) [])) db
      else if get_deal db dealId \<noteq> None then throw Deal_id_taken db
      else ret check (db\<lparr>deals := deals db @ [propose_row cfg dealId now p]\<rparr>))"

definition set_proposal_message :: "deal_id \<Rightarrow> int \<Rightarrow> deals_db \<Rightarrow> deals_db" where
  "set_proposal_message dealId msgId db =
     snd (change_deal dealId (\<lambda>_. True) (\<lambda>d. d\<lparr>dl_proposal_message_id := Some msgId\<rparr>) db)"

datatype load_error = No_such_deal | Not_your_own

definition loadDealForActor :: "deals_db \<Rightarrow> deal_id \<Rightarrow> int \<Rightarrow> int list \<Rightarrow> load_error + deal" where
  "loadDealForActor db dealId senderId adminIds =
     (case get_deal db dealId of
        None \<Rightarrow> Inl No_such_deal
      | Some d \<Rightarrow>
          if senderId \<noteq> dl_user_telegram_id d \<and> senderId \<notin> set adminIds then Inl Not_your_own
          else Inr d)"

datatype cancel_error = Cancel_load load_error | Not_cancellable deal_status

text \<open>On success: whether the user is told, which happens when the deal was accepted.\<close>

definition dealCancel ::
  "int \<Rightarrow> int list \<Rightarrow> deal_id \<Rightarrow> string option \<Rightarrow> deals_db \<Rightarrow> (cancel_error, bool, deals_db) outcome" where
  "dealCancel senderId adminIds dealId reason db =
     (case loadDealForActor db dealId senderId adminIds of
        Inl e \<Rightarrow> throw (Cancel_load e) db
      | Inr d \<Rightarrow>
          if dl_status d \<notin> {Proposed, Accepted} then throw (Not_cancellable (dl_status d)) db
          else
            let notes = (case non_empty reason of
                           Some r \<Rightarrow> [S ''Cancelled: '', S r] | None \<Rightarrow> [S ''Cancelled by agent''])
            in ret (dl_status d = Accepted)
                 (snd (change_deal dealId (\<lambda>_. True)
                    (\<lambda>d. d\<lparr>dl_status := Cancelled,
                           dl_notes := Some (case dl_notes d of
                              None \<Rightarrow> notes | Some old \<Rightarrow> old @ [S '' | ''] @ notes)\<rparr>) db)))"

section \<open>The buttons of the bot\<close>

datatype callback_action = A_accept | A_decline | A_sent | A_other

datatype callback_answer =
    Deal_not_found | Not_your_deal | Deal_expired | Already_processed | Not_available
  | Deal_accepted | Deal_declined | Verifying | Shown

definition handle_action :: "int \<Rightarrow> callback_action \<Rightarrow> deal \<Rightarrow> deals_db \<Rightarrow> callback_answer \<times> deals_db" where
  "handle_action now action d db =
     (case action of
        A_accept \<Rightarrow>
          if dl_status d \<noteq> Proposed then (Already_processed, db)
          else (Deal_accepted, snd (acceptDeal now (dl_id d) db))
      | A_decline \<Rightarrow>
          if dl_status d \<noteq> Proposed then (Already_processed, db)
          else (Deal_declined, snd (declineDeal (dl_id d) db))
      | A_sent \<Rightarrow>
          if dl_status d \<noteq> Accepted then (Not_available, db)
          else (Verifying, snd (claimPayment now (dl_id d) db))
      | A_other \<Rightarrow> (Shown, db))"

text \<open>A callback query from \<open>userId\<close>; its effects all come before its first await.\<close>

definition handle_callback ::
  "int \<Rightarrow> int \<Rightarrow> callback_action \<Rightarrow> deal_id \<Rightarrow> string option \<Rightarrow> deals_db \<Rightarrow> callback_answer \<times> deals_db" where
  "handle_callback now userId action dealId inlineMsgId db =
     (let db1 = (case non_empty inlineMsgId of Some m \<Rightarrow> setInlineMessageId dealId m db | None \<Rightarrow> db) in
      case get_deal db1 dealId of
        None \<Rightarrow> (Deal_not_found, db1)
      | Some d \<Rightarrow>
          if dl_user_telegram_id d \<noteq> userId then (Not_your_deal, db1)
          else if isDealExpired now d \<and> dl_status d \<in> {Proposed, Accepted}
          then (Deal_expired, snd (expireDeal dealId db1))
          else handle_action now action d db1)"

text \<open>An inline query, by anybody: its text is the id of a deal.\<close>

definition handle_inline_query :: "int \<Rightarrow> string \<Rightarrow> deals_db \<Rightarrow> deals_db" where
  "handle_inline_query now query db =
     (let dealId = trim query in
      if dealId = [] then db
      else case get_deal db dealId of
        None \<Rightarrow> db
      | Some d \<Rightarrow>
          if isDealExpired now d \<and> dl_status d = Proposed then snd (expireDeal dealId db) else db)"

section \<open>Payments by gift\<close>

record gift_entry =
  ge_msgId :: "string option"
  ge_slug :: string
  ge_fromId :: "int option"
  ge_date :: "int option"

record received_gift =
  rg_msgId :: "string option"
  rg_slug :: string
  rg_fromUserId :: "int option"
  rg_receivedAt :: int

definition isGiftPaymentUsed :: "deals_db \<Rightarrow> string option \<Rightarrow> bool" where
  "isGiftPaymentUsed db msgId =
     (msgId \<noteq> None \<and> (\<exists>d \<in> set (deals db). dl_user_payment_gift_msgid d = msgId))"

text \<open>
  What \<open>detectNewGifts\<close> of a new detector makes of the gifts: each of them is new; a date of 0 or
  none reads as now, a sender of 0 or none as undefined.
\<close>

definition received :: "int \<Rightarrow> gift_entry \<Rightarrow> received_gift" where
  "received now g =
     \<lparr>rg_msgId = ge_msgId g, rg_slug = ge_slug g,
      rg_fromUserId = (if ge_fromId g = Some 0 then None else ge_fromId g),
      rg_receivedAt = (case ge_date g of
         Some t \<Rightarrow> if t = 0 then now else t * 1000 | None \<Rightarrow> now)\<rparr>"

definition verifyGiftPayment :: "deals_db \<Rightarrow> deal \<Rightarrow> received_gift list \<Rightarrow> received_gift option" where
  "verifyGiftPayment db d gifts =
     find (\<lambda>g. \<not> isGiftPaymentUsed db (rg_msgId g) \<and>
               Some (rg_slug g) = dl_user_gives_gift_slug d \<and>
               rg_fromUserId g = Some (dl_user_telegram_id d) \<and>
               dl_created_at d * 1000 \<le> rg_receivedAt g) gifts"

text \<open>The search of the poller, on the gifts themselves and in seconds.\<close>

definition poller_gift :: "deals_db \<Rightarrow> deal \<Rightarrow> gift_entry list \<Rightarrow> gift_entry option" where
  "poller_gift db d gifts =
     find (\<lambda>g. ge_msgId g \<noteq> None \<and> \<not> isGiftPaymentUsed db (ge_msgId g) \<and>
               Some (ge_slug g) = dl_user_gives_gift_slug d \<and>
               ge_fromId g = Some (dl_user_telegram_id d) \<and>
               (case ge_date g of None \<Rightarrow> False | Some t \<Rightarrow> t \<noteq> 0 \<and> dl_created_at d \<le> t)) gifts"

definition claimGiftPayment :: "int \<Rightarrow> deal_id \<Rightarrow> string option \<Rightarrow> deal_status \<Rightarrow> deals_db \<Rightarrow> bool \<times> deals_db" where
  "claimGiftPayment now dealId msgId expected db =
     change_deal dealId (\<lambda>d. dl_status d = expected \<and> \<not> isGiftPaymentUsed db msgId)
       (\<lambda>d. d\<lparr>dl_status := Verified, dl_user_payment_gift_msgid := msgId,
              dl_user_payment_verified_at := Some (secs now)\<rparr>) db"

section \<open>Payments in TON\<close>

record chain_tx =
  ct_internal :: bool
  ct_amount :: js_num
  ct_from :: "string option"
  ct_time :: int
  ct_hash :: string
  ct_comment :: "string option"

text \<open>The removal of a leading \<open>@\<close>.\<close>

fun drop_at :: "string \<Rightarrow> string" where
  "drop_at [] = []"
| "drop_at (c # cs) = (if code c = 64 then cs else c # cs)"

definition verifyMemo :: "string option \<Rightarrow> string \<Rightarrow> bool" where
  "verifyMemo memo identifier =
     (case non_empty memo of
        None \<Rightarrow> False
      | Some m \<Rightarrow> drop_at (to_lower (trim m)) = drop_at (to_lower identifier))"

record payment =
  pm_txHash :: string
  pm_amount :: js_num
  pm_playerWallet :: string

text \<open>The conditions on a transaction that the loop tests before it tries to use it.\<close>

definition pays :: "int \<Rightarrow> js_num \<Rightarrow> int \<Rightarrow> string \<Rightarrow> chain_tx \<Rightarrow> bool" where
  "pays now betAmount requestTime userId t =
     (ct_internal t \<and> js_isFinite (ct_amount t) \<and>
      \<not> js_lt (ct_amount t) (js_mul betAmount PAYMENT_TOLERANCE_RATIO) \<and>
      non_empty (ct_from t) \<noteq> None \<and>
      \<not> ct_time t * 1000 < requestTime \<and>
      \<not> ct_time t * 1000 < now - DEFAULT_MAX_PAYMENT_AGE_MINUTES * 60000 \<and>
      verifyMemo (ct_comment t) userId)"

fun verifyPayment ::
  "int \<Rightarrow> js_num \<Rightarrow> int \<Rightarrow> string \<Rightarrow> string \<Rightarrow> chain_tx list \<Rightarrow> deals_db \<Rightarrow> payment option \<times> deals_db" where
  "verifyPayment now betAmount requestTime gameType userId [] db = (None, db)"
| "verifyPayment now betAmount requestTime gameType userId (t # ts) db =
     (if \<not> pays now betAmount requestTime userId t
      then verifyPayment now betAmount requestTime gameType userId ts db
      else if sql_get ut_tx_hash (ct_hash t) (used_transactions db) \<noteq> None
      then verifyPayment now betAmount requestTime gameType userId ts db
      else
        (Some \<lparr>pm_txHash = ct_hash t, pm_amount = ct_amount t, pm_playerWallet = the (ct_from t)\<rparr>,
         db\<lparr>used_transactions := used_transactions db @
              [\<lparr>ut_tx_hash = ct_hash t, ut_user_id = userId, ut_amount = ct_amount t,
                ut_game_type = gameType, ut_used_at = secs now\<rparr>]\<rparr>))"

text \<open>The update of a deal whose TON payment was found, while it is still in the expected status.\<close>

definition mark_ton_verified :: "int \<Rightarrow> deal_id \<Rightarrow> payment \<Rightarrow> deal_status \<Rightarrow> deals_db \<Rightarrow> bool \<times> deals_db" where
  "mark_ton_verified now dealId pm expected =
     change_deal dealId (\<lambda>d. dl_status d = expected)
       (\<lambda>d. d\<lparr>dl_status := Verified, dl_user_payment_tx_hash := Some (pm_txHash pm),
              dl_user_payment_wallet := Some (pm_playerWallet pm),
              dl_user_payment_verified_at := Some (secs now)\<rparr>)"

section \<open>The guard of the gift tools\<close>

text \<open>
  Whether a verified deal authorizes the agent's tools to send a gift to a user. The user id is text in
  the program, which SQLite compares with the column as the number it denotes, if it denotes one.
\<close>

definition hasVerifiedDeal :: "int \<Rightarrow> string \<Rightarrow> int option \<Rightarrow> deals_db \<Rightarrow> bool" where
  "hasVerifiedDeal now giftId userId db =
     list_ex (\<lambda>d. dl_status d = Verified \<and> dl_agent_gives_type d = Gift_asset \<and>
                   dl_agent_gives_gift_id d = Some giftId \<and> Some (dl_user_telegram_id d) = userId \<and>
                   (case dl_user_payment_verified_at d of
                      None \<Rightarrow> False
                    | Some t \<Rightarrow> secs now - DEAL_VERIFICATION_WINDOW_SECONDS \<le> t) \<and>
                   dl_agent_sent_at d = None) (deals db)"

end
