(* ===== verification/DealFlow.thy ===== *)
theory DealFlow
  imports DealStore
begin

text \<open>
  How deals move: the executor (src/deals/executor.ts), the tool \<open>deal_verify_payment\<close> and the poller
  (src/bot/services/verification-poller.ts), interleaved with the users' buttons and the agent's other
  tools.

  The program is single-threaded; what runs between two awaits is one step. An operation that waits
  is a job, which holds what it knows; an event is something that starts an operation or lets a job
  go on, with what the outside world answered. The executor's payouts are recorded in
  \<open>dw_payouts\<close>, which nothing reads. The business journal, log output and the texts sent to users are
  left out; whether a text could be sent is part of the event.
\<close>

section \<open>The executor\<close>

datatype exec_error =
    X_not_found | X_already_executed | X_wrong_status deal_status | X_claimed
  | X_no_amount | X_no_wallet | X_no_gift
  | X_pending msg | X_failed msg | X_gift_failed msg

datatype payout =
    Pay_ton deal_id string js_num
  | Pay_gift deal_id string int

fun payout_deal :: "payout \<Rightarrow> deal_id" where
  "payout_deal (Pay_ton dealId _ _) = dealId"
| "payout_deal (Pay_gift dealId _ _) = dealId"

definition executed_at :: "deal \<Rightarrow> bool" where
  "executed_at d = (dl_agent_sent_at d \<noteq> None \<and> dl_agent_sent_at d \<noteq> Some 0)"

text \<open>Up to the await on the transfer: the checks, the lock, and what is sent.\<close>

definition executeDeal_begin :: "int \<Rightarrow> deal_id \<Rightarrow> deals_db \<Rightarrow> (exec_error, payout, deals_db) outcome" where
  "executeDeal_begin now dealId db =
     (case get_deal db dealId of
        None \<Rightarrow> throw X_not_found db
      | Some d \<Rightarrow>
          if dl_status d \<noteq> Verified \<or> executed_at d
          then throw (if executed_at d then X_already_executed else X_wrong_status (dl_status d)) db
          else
            case change_deal dealId (\<lambda>d. dl_status d = Verified \<and> dl_agent_sent_at d = None)
                   (\<lambda>d. d\<lparr>dl_agent_sent_at := Some (secs now)\<rparr>) db of
              (False, db1) \<Rightarrow> throw X_claimed db1
            | (True, db1) \<Rightarrow>
                (case dl_agent_gives_type d of
                   Ton_asset \<Rightarrow>
                     (case or_null (dl_agent_gives_ton_amount d) of
                        None \<Rightarrow> throw X_no_amount db1
                      | Some amount \<Rightarrow>
                          (case non_empty (dl_user_payment_wallet d) of
                             None \<Rightarrow> throw X_no_wallet db1
                           | Some wallet \<Rightarrow> ret (Pay_ton dealId wallet amount) db1))
                 | Gift_asset \<Rightarrow>
                     (case non_empty (dl_agent_gives_gift_id d) of
                        None \<Rightarrow> throw X_no_gift db1
                      | Some g \<Rightarrow> ret (Pay_gift dealId g (dl_user_telegram_id d)) db1)))"

text \<open>The handler of unexpected errors, which fails the deal and releases the lock.\<close>

definition execution_failed :: "deal_id \<Rightarrow> msg \<Rightarrow> deals_db \<Rightarrow> deals_db" where
  "execution_failed dealId m db =
     snd (change_deal dealId (\<lambda>d. dl_status d = Verified)
       (\<lambda>d. d\<lparr>dl_agent_sent_at := None, dl_status := Failed,
              dl_notes := Some (S ''Execution error: '' # m)\<rparr>) db)"

text \<open>The four ways \<open>sendTon\<close> ends.\<close>

datatype send_result = Sent string | Sent_null | Send_pending msg | Send_rejected msg

definition ton_sent :: "int \<Rightarrow> deal_id \<Rightarrow> send_result \<Rightarrow> deals_db \<Rightarrow> (exec_error, unit, deals_db) outcome" where
  "ton_sent now dealId r db =
     (case r of
        Sent h \<Rightarrow>
          ret () (snd (change_deal dealId (\<lambda>_. True)
            (\<lambda>d. d\<lparr>dl_status := Completed, dl_agent_sent_tx_hash := Some h,
                   dl_agent_sent_tx_status := Some Tx_confirmed,
                   dl_completed_at := Some (secs now)\<rparr>) db))
      | Sent_null \<Rightarrow>
          (let m = [S ''TON transfer failed or could not be confirmed on-chain'']
           in throw (X_failed m) (execution_failed dealId m db))
      | Send_pending m \<Rightarrow>
          throw (X_pending m) (snd (change_deal dealId (\<lambda>_. True)
            (\<lambda>d. d\<lparr>dl_agent_sent_tx_status := Some Tx_pending, dl_notes := Some m\<rparr>) db))
      | Send_rejected m \<Rightarrow> throw (X_failed m) (execution_failed dealId m db))"

definition gift_failed :: "deal_id \<Rightarrow> msg \<Rightarrow> deals_db \<Rightarrow> deals_db" where
  "gift_failed dealId m db =
     snd (change_deal dealId (\<lambda>_. True)
       (\<lambda>d. d\<lparr>dl_status := Failed, dl_agent_sent_at := None,
              dl_notes := Some (S ''Gift transfer error: '' # m)\<rparr>) db)"

text \<open>
  The transfer of a gift went through; or there was no client to transfer it with, which is an
  unexpected error; or the transfer threw.
\<close>

datatype gift_result = Gift_sent | Gift_no_client msg | Gift_rejected msg

definition gift_sent :: "int \<Rightarrow> deal_id \<Rightarrow> gift_result \<Rightarrow> deals_db \<Rightarrow> (exec_error, unit, deals_db) outcome" where
  "gift_sent now dealId r db =
     (case r of
        Gift_rejected m \<Rightarrow> throw (X_gift_failed m) (gift_failed dealId m db)
      | Gift_no_client m \<Rightarrow> throw (X_failed m) (execution_failed dealId m db)
      | Gift_sent \<Rightarrow>
          ret () (snd (change_deal dealId (\<lambda>_. True)
            (\<lambda>d. d\<lparr>dl_status := Completed, dl_agent_sent_gift_msgid := dl_agent_gives_gift_id d,
                   dl_completed_at := Some (secs now)\<rparr>) db)))"

text \<open>
  After the transfer the user is told. When that fails, the error reaches the handler around the
  transfer: the general one for TON, the one of the gift transfer for gifts.
\<close>

definition ton_notified :: "deal_id \<Rightarrow> msg option \<Rightarrow> deals_db \<Rightarrow> (exec_error, unit, deals_db) outcome" where
  "ton_notified dealId err db =
     (case err of None \<Rightarrow> ret () db | Some m \<Rightarrow> throw (X_failed m) (execution_failed dealId m db))"

definition gift_notified :: "deal_id \<Rightarrow> msg option \<Rightarrow> deals_db \<Rightarrow> (exec_error, unit, deals_db) outcome" where
  "gift_notified dealId err db =
     (case err of None \<Rightarrow> ret () db | Some m \<Rightarrow> throw (X_gift_failed m) (gift_failed dealId m db))"

section \<open>Jobs\<close>

text \<open>
  A verification is part of a call of the tool, or of a poll, which has read how often the deal has been tried
  and still has other deals to look at.
\<close>

datatype origin = By_tool | By_poller nat deal "deal list"

datatype job =
    Polling "deal list"
  | Reading_chain origin deal
  | Reading_gifts origin deal
  | Paid origin deal_id payment
  | Claiming nat deal "deal list" "string option"
  | Editing nat deal "deal list"
  | Paying_ton origin deal_id
  | Paying_gift origin deal_id
  | Telling_ton origin deal_id
  | Telling_gift origin deal_id
  | Telling_timeout deal "deal list"

record deal_world =
  dw_db :: deals_db
  dw_jobs :: "job list"
  dw_retry :: "deal_id \<Rightarrow> nat"
  dw_payouts :: "payout list"

definition set_deals_db :: "deals_db \<Rightarrow> deal_world \<Rightarrow> deal_world" where
  "set_deals_db db w = w\<lparr>dw_db := db\<rparr>"

definition add_jobs :: "job list \<Rightarrow> deal_world \<Rightarrow> deal_world" where
  "add_jobs js w = w\<lparr>dw_jobs := dw_jobs w @ js\<rparr>"

definition take_job :: "nat \<Rightarrow> deal_world \<Rightarrow> deal_world" where
  "take_job i w = w\<lparr>dw_jobs := take i (dw_jobs w) @ drop (Suc i) (dw_jobs w)\<rparr>"

definition set_retry :: "deal_id \<Rightarrow> nat \<Rightarrow> deal_world \<Rightarrow> deal_world" where
  "set_retry dealId n w = w\<lparr>dw_retry := (dw_retry w)(dealId := n)\<rparr>"

text \<open>What a poll does with a deal that was not verified, and after one that was.\<close>

definition not_verified :: "nat \<Rightarrow> deal \<Rightarrow> deal list \<Rightarrow> deal_world \<Rightarrow> deal_world" where
  "not_verified n d rest w = add_jobs [Polling rest] (set_retry (dl_id d) (n + 1) w)"

definition verified_done :: "deal \<Rightarrow> deal list \<Rightarrow> deal_world \<Rightarrow> deal_world" where
  "verified_done d rest w = add_jobs [Polling rest] (set_retry (dl_id d) 0 w)"

text \<open>The end of an execution: the poller counts a success and goes on, the tool answers.\<close>

fun execution_done :: "int \<Rightarrow> origin \<Rightarrow> bool \<Rightarrow> deal_world \<Rightarrow> deal_world" where
  "execution_done now By_tool success w = w"
| "execution_done now (By_poller n d rest) success w =
     verified_done d rest
       (if success then set_deals_db (updateUserStats now (dl_user_telegram_id d) (dl_user_username d) d True (dw_db w)) w
        else w)"

definition start_execution :: "int \<Rightarrow> origin \<Rightarrow> deal_id \<Rightarrow> deal_world \<Rightarrow> deal_world" where
  "start_execution now orig dealId w =
     (case executeDeal_begin now dealId (dw_db w) of
        (Inl e, db) \<Rightarrow> execution_done now orig False (set_deals_db db w)
      | (Inr p, db) \<Rightarrow>
          add_jobs [case p of Pay_ton _ _ _ \<Rightarrow> Paying_ton orig dealId | Pay_gift _ _ _ \<Rightarrow> Paying_gift orig dealId]
            (w\<lparr>dw_db := db, dw_payouts := dw_payouts w @ [p]\<rparr>))"

text \<open>A step of an execution that throws ends it.\<close>

definition continue_execution ::
  "int \<Rightarrow> origin \<Rightarrow> (exec_error, unit, deals_db) outcome \<Rightarrow> job list \<Rightarrow> deal_world \<Rightarrow> deal_world" where
  "continue_execution now orig r js w =
     (case r of
        (Inl e, db) \<Rightarrow> execution_done now orig False (set_deals_db db w)
      | (Inr _, db) \<Rightarrow>
          if js = [] then execution_done now orig True (set_deals_db db w)
          else add_jobs js (set_deals_db db w))"

text \<open>After the verification: the poller first updates the message of the deal, if there is one.\<close>

definition after_verified :: "int \<Rightarrow> origin \<Rightarrow> deal_id \<Rightarrow> deal_world \<Rightarrow> deal_world" where
  "after_verified now orig dealId w =
     (case orig of
        By_poller n d rest \<Rightarrow>
          if non_empty (dl_inline_message_id d) \<noteq> None then add_jobs [Editing n d rest] w
          else start_execution now orig dealId w
      | By_tool \<Rightarrow> start_execution now orig dealId w)"

section \<open>Starting and resuming\<close>

text \<open>
  A call of \<open>deal_verify_payment\<close> up to its first await. \<open>wallet\<close> says whether the wallet address (for
  TON) or the agent's own user id (for gifts) is known.
\<close>

definition tool_verify :: "int \<Rightarrow> int \<Rightarrow> int list \<Rightarrow> deal_id \<Rightarrow> bool \<Rightarrow> deal_world \<Rightarrow> deal_world" where
  "tool_verify now senderId adminIds dealId wallet w =
     (case loadDealForActor (dw_db w) dealId senderId adminIds of
        Inl e \<Rightarrow> w
      | Inr d \<Rightarrow>
          if dl_status d \<noteq> Accepted then w
          else if isDealExpired now d then
            set_deals_db (snd (change_deal dealId (\<lambda>d. dl_status d = Accepted)
              (\<lambda>d. d\<lparr>dl_status := Expired\<rparr>) (dw_db w))) w
          else
            case dl_user_gives_type d of
              Ton_asset \<Rightarrow>
                if or_null (dl_user_gives_ton_amount d) = None \<or> \<not> wallet then w
                else add_jobs [Reading_chain By_tool d] w
            | Gift_asset \<Rightarrow>
                if non_empty (dl_user_gives_gift_slug d) = None \<or> \<not> wallet then w
                else add_jobs [Reading_gifts By_tool d] w)"

text \<open>The poll takes its next deal.\<close>

definition poll_next :: "deals_config \<Rightarrow> bool \<Rightarrow> deal list \<Rightarrow> deal_world \<Rightarrow> deal_world" where
  "poll_next cfg wallet ds w =
     (case ds of
        [] \<Rightarrow> w
      | d # rest \<Rightarrow>
          let n = dw_retry w (dl_id d) in
          if dc_maxRetries cfg \<le> n then
            (case change_deal (dl_id d) (\<lambda>d. dl_status d = Payment_claimed)
                    (\<lambda>d. d\<lparr>dl_status := Failed, dl_notes := Some [S ''Payment verification timeout'']\<rparr>) (dw_db w) of
               (True, db) \<Rightarrow> add_jobs [Telling_timeout d rest] (set_deals_db db w)
             | (False, db) \<Rightarrow> verified_done d rest (set_deals_db db w))
          else
            case dl_user_gives_type d of
              Ton_asset \<Rightarrow>
                if or_null (dl_user_gives_ton_amount d) = None \<or> \<not> wallet then not_verified n d rest w
                else add_jobs [Reading_chain (By_poller n d rest) d] w
            | Gift_asset \<Rightarrow>
                if \<not> wallet then not_verified n d rest w
                else add_jobs [Reading_gifts (By_poller n d rest) d] w)"

text \<open>The transactions of the wallet have been read (none when that failed).\<close>

definition chain_read :: "int \<Rightarrow> origin \<Rightarrow> deal \<Rightarrow> chain_tx list \<Rightarrow> deal_world \<Rightarrow> deal_world" where
  "chain_read now orig d txs w =
     (case verifyPayment now (or_zero (dl_user_gives_ton_amount d)) (dl_created_at d * 1000)
             (''deal:'' @ dl_id d) (dl_id d) txs (dw_db w) of
        (None, db) \<Rightarrow>
          (case orig of By_tool \<Rightarrow> set_deals_db db w | By_poller n d rest \<Rightarrow> not_verified n d rest (set_deals_db db w))
      | (Some pm, db) \<Rightarrow> add_jobs [Paid orig (dl_id d) pm] (set_deals_db db w))"

text \<open>
  A payment that was found is written to the deal if that is still where the operation expects it. The
  tool then reports an error; the poller counts the deal as dealt with.
\<close>

definition expected_status :: "origin \<Rightarrow> deal_status" where
  "expected_status orig = (case orig of By_tool \<Rightarrow> Accepted | By_poller _ _ _ \<Rightarrow> Payment_claimed)"

definition write_paid :: "int \<Rightarrow> origin \<Rightarrow> deal_id \<Rightarrow> payment \<Rightarrow> deal_world \<Rightarrow> deal_world" where
  "write_paid now orig dealId pm w =
     (case mark_ton_verified now dealId pm (expected_status orig) (dw_db w) of
        (True, db) \<Rightarrow> after_verified now orig dealId (set_deals_db db w)
      | (False, db) \<Rightarrow> execution_done now orig False (set_deals_db db w))"

definition write_gift :: "int \<Rightarrow> origin \<Rightarrow> deal_id \<Rightarrow> string option \<Rightarrow> deal_world \<Rightarrow> deal_world" where
  "write_gift now orig dealId msgId w =
     (case claimGiftPayment now dealId msgId (expected_status orig) (dw_db w) of
        (True, db) \<Rightarrow> after_verified now orig dealId (set_deals_db db w)
      | (False, db) \<Rightarrow> execution_done now orig False (set_deals_db db w))"

text \<open>The gifts have been listed; the tool claims a match at once, the poller after one more await.\<close>

definition gifts_read :: "int \<Rightarrow> origin \<Rightarrow> deal \<Rightarrow> gift_entry list \<Rightarrow> deal_world \<Rightarrow> deal_world" where
  "gifts_read now orig d gifts w =
     (case orig of
        By_tool \<Rightarrow>
          (case verifyGiftPayment (dw_db w) d (map (received now) gifts) of
             None \<Rightarrow> w
           | Some g \<Rightarrow> write_gift now By_tool (dl_id d) (rg_msgId g) w)
      | By_poller n d rest \<Rightarrow>
          (case poller_gift (dw_db w) d gifts of
             None \<Rightarrow> not_verified n d rest w
           | Some g \<Rightarrow> add_jobs [Claiming n d rest (ge_msgId g)] w))"

datatype answer =
    Go bool
  | History "chain_tx list"
  | Gifts "gift_entry list"
  | Ton_result send_result
  | Gift_result gift_result
  | Told "msg option"

text \<open>A job goes on with an answer; an answer to another question leaves it waiting.\<close>

definition resume :: "deals_config \<Rightarrow> int \<Rightarrow> job \<Rightarrow> answer \<Rightarrow> deal_world \<Rightarrow> deal_world" where
  "resume cfg now j a w =
     (case (j, a) of
        (Polling ds, Go wallet) \<Rightarrow> poll_next cfg wallet ds w
      | (Reading_chain orig d, History txs) \<Rightarrow> chain_read now orig d txs w
      | (Reading_gifts orig d, Gifts gifts) \<Rightarrow> gifts_read now orig d gifts w
      | (Paid orig dealId pm, Go _) \<Rightarrow> write_paid now orig dealId pm w
      | (Claiming n d rest msgId, Go _) \<Rightarrow> write_gift now (By_poller n d rest) (dl_id d) msgId w
      | (Editing n d rest, Go _) \<Rightarrow> start_execution now (By_poller n d rest) (dl_id d) w
      | (Paying_ton orig dealId, Ton_result r) \<Rightarrow>
          continue_execution now orig (ton_sent now dealId r (dw_db w)) [Telling_ton orig dealId] w
      | (Paying_gift orig dealId, Gift_result r) \<Rightarrow>
          continue_execution now orig (gift_sent now dealId r (dw_db w)) [Telling_gift orig dealId] w
      | (Telling_ton orig dealId, Told err) \<Rightarrow>
          continue_execution now orig (ton_notified dealId err (dw_db w)) [] w
      | (Telling_gift orig dealId, Told err) \<Rightarrow>
          continue_execution now orig (gift_notified dealId err (dw_db w)) [] w
      | (Telling_timeout d rest, Told None) \<Rightarrow> verified_done d rest w
      | (Telling_timeout d rest, Told (Some m)) \<Rightarrow> w
      | _ \<Rightarrow> add_jobs [j] w)"

datatype deal_event =
    E_propose deal_id int propose_params
  | E_proposal_sent deal_id int
  | E_callback int int callback_action deal_id "string option"
  | E_inline_query int string
  | E_chosen deal_id string
  | E_cancel int "int list" deal_id "string option"
  | E_expire int
  | E_tool_verify int int "int list" deal_id bool
  | E_poll
  | E_resume nat int answer

fun deal_step :: "deals_config \<Rightarrow> deal_event \<Rightarrow> deal_world \<Rightarrow> deal_world" where
  "deal_step cfg (E_propose dealId now p) w = set_deals_db (snd (dealPropose cfg dealId now p (dw_db w))) w"
| "deal_step cfg (E_proposal_sent dealId m) w = set_deals_db (set_proposal_message dealId m (dw_db w)) w"
| "deal_step cfg (E_callback now userId action dealId inlineId) w =
     set_deals_db (snd (handle_callback now userId action dealId inlineId (dw_db w))) w"
| "deal_step cfg (E_inline_query now query) w = set_deals_db (handle_inline_query now query (dw_db w)) w"
| "deal_step cfg (E_chosen dealId inlineId) w = set_deals_db (setInlineMessageId dealId inlineId (dw_db w)) w"
| "deal_step cfg (E_cancel senderId adminIds dealId reason) w =
     set_deals_db (snd (dealCancel senderId adminIds dealId reason (dw_db w))) w"
| "deal_step cfg (E_expire now) w = set_deals_db (expire_stale now (dw_db w)) w"
| "deal_step cfg (E_tool_verify now senderId adminIds dealId wallet) w =
     tool_verify now senderId adminIds dealId wallet w"
| "deal_step cfg E_poll w =
     (case getDealsAwaitingVerification (dw_db w) of [] \<Rightarrow> w | ds \<Rightarrow> add_jobs [Polling ds] w)"
| "deal_step cfg (E_resume i now a) w =
     (if i < length (dw_jobs w) then resume cfg now (dw_jobs w ! i) a (take_job i w) else w)"

definition no_deals :: deal_world where
  "no_deals = \<lparr>dw_db = \<lparr>deals = [], used_transactions = [], user_trade_stats = []\<rparr>, dw_jobs = [],
               dw_retry = (\<lambda>_. 0), dw_payouts = []\<rparr>"

definition deal_run :: "deals_config \<Rightarrow> deal_event list \<Rightarrow> deal_world \<Rightarrow> deal_world" where
  "deal_run cfg evs w = fold (deal_step cfg) evs w"

text \<open>
  What the client library promises of the gifts it lists (the type \<open>GiftEntry\<close>): each has a message id.
\<close>

definition event_ok :: "deal_event \<Rightarrow> bool" where
  "event_ok e =
     (case e of E_resume _ _ (Gifts gs) \<Rightarrow> list_all (\<lambda>g. ge_msgId g \<noteq> None) gs | _ \<Rightarrow> True)"

inductive deal_reachable :: "deals_config \<Rightarrow> deal_world \<Rightarrow> bool" for cfg where
  start: "deal_reachable cfg no_deals"
| step: "deal_reachable cfg w \<Longrightarrow> event_ok e \<Longrightarrow> deal_reachable cfg (deal_step cfg e w)"

lemma deal_reachable_run:
  "deal_reachable cfg w \<Longrightarrow> list_all event_ok evs \<Longrightarrow> deal_reachable cfg (deal_run cfg evs w)"
  by (induction evs arbitrary: w) (auto simp: deal_run_def intro: deal_reachable.step)

section \<open>Sample runs\<close>

text \<open>A user buys a gift worth 8 TON for 10 TON; the poller finds the payment and the gift is sent.\<close>

definition sample_offer :: propose_params where
  "sample_offer =
     \<lparr>pp_chatId = ''c'', pp_userId = 7, pp_userUsername = Some ''u'',
      pp_userGivesType = Ton_asset, pp_userGivesTonAmount = Some (Num 10),
      pp_userGivesGiftId = None, pp_userGivesGiftSlug = None, pp_userGivesValueTon = Num 10,
      pp_agentGivesType = Gift_asset, pp_agentGivesTonAmount = None,
      pp_agentGivesGiftId = Some ''g'', pp_agentGivesGiftSlug = Some ''cap'', pp_agentGivesValueTon = Num 8\<rparr>"

definition sample_tx :: chain_tx where
  "sample_tx = \<lparr>ct_internal = True, ct_amount = Num 10, ct_from = Some ''w'', ct_time = 101, ct_hash = ''h'',
                ct_comment = Some ''d1''\<rparr>"

definition sample_paid :: "deal_event list" where
  "sample_paid =
     [E_propose ''d1'' 100000 sample_offer, E_callback 100000 7 A_accept ''d1'' None,
      E_callback 101000 7 A_sent ''d1'' None, E_poll, E_resume 0 102000 (Go True),
      E_resume 0 102000 (History [sample_tx]), E_resume 0 102000 (Go True)]"

definition sample_told :: "deal_event list" where
  "sample_told = sample_paid @ [E_resume 0 103000 (Gift_result Gift_sent)]"

end
