(* ===== verification/DealSafety.thy ===== *)
theory DealSafety
  imports DealFlow
begin

text \<open>
  What holds of the deals however the users' buttons, the agent's tools and the poller interleave:
  the agent pays for a deal at most once and only for a payment of its own, and the status of a deal
  follows its life cycle.
\<close>

section \<open>The invariant\<close>

text \<open>A deal has been paid for; the agent's part of it has been sent, or will never be.\<close>

definition evidence :: "deal \<Rightarrow> bool" where
  "evidence d = (dl_user_payment_tx_hash d \<noteq> None \<or> dl_user_payment_gift_msgid d \<noteq> None)"

definition spent :: "deal \<Rightarrow> bool" where
  "spent d = (dl_status d = Verified \<and> dl_agent_sent_at d \<noteq> None \<or> dl_status d \<in> {Completed, Failed})"

definition tx_used_for :: "deals_db \<Rightarrow> string \<Rightarrow> deal_id \<Rightarrow> bool" where
  "tx_used_for db h dealId = (\<exists>u \<in> set (used_transactions db). ut_tx_hash u = h \<and> ut_user_id u = dealId)"

definition deals_inv :: "deals_db \<Rightarrow> bool" where
  "deals_inv db \<longleftrightarrow>
     distinct (map dl_id (deals db)) \<and>
     distinct (map ut_tx_hash (used_transactions db)) \<and>
     (\<forall>d \<in> set (deals db).
        (\<forall>h. dl_user_payment_tx_hash d = Some h \<longrightarrow> tx_used_for db h (dl_id d)) \<and>
        (dl_status d = Verified \<longrightarrow> evidence d) \<and>
        (dl_user_payment_wallet d \<noteq> None \<longrightarrow> dl_user_gives_type d = Ton_asset)) \<and>
     (\<forall>d \<in> set (deals db). \<forall>e \<in> set (deals db).
        dl_user_payment_gift_msgid d \<noteq> None \<and> dl_user_payment_gift_msgid d = dl_user_payment_gift_msgid e \<longrightarrow>
        dl_id d = dl_id e)"

definition settled :: "deals_db \<Rightarrow> payout \<Rightarrow> bool" where
  "settled db p = (\<exists>d \<in> set (deals db). dl_id d = payout_deal p \<and> spent d \<and> evidence d)"

text \<open>
  A deal in which the user gives TON; a copy of a row that a job holds gives what the row gives; and a
  payout in TON is for a deal in which the user gives TON.
\<close>

definition gives_ton :: "deals_db \<Rightarrow> deal_id \<Rightarrow> bool" where
  "gives_ton db i = (\<exists>d \<in> set (deals db). dl_id d = i \<and> dl_user_gives_type d = Ton_asset)"

definition copied :: "deals_db \<Rightarrow> deal \<Rightarrow> bool" where
  "copied db d = (dl_user_gives_type d = Ton_asset \<longrightarrow> gives_ton db (dl_id d))"

fun pays_ton_for_ton :: "deals_db \<Rightarrow> payout \<Rightarrow> bool" where
  "pays_ton_for_ton db (Pay_ton i _ _) = gives_ton db i"
| "pays_ton_for_ton db (Pay_gift _ _ _) = True"

fun origin_inv :: "deals_db \<Rightarrow> origin \<Rightarrow> bool" where
  "origin_inv db By_tool = True"
| "origin_inv db (By_poller _ d rest) = list_all (copied db) rest"

fun job_inv :: "deals_db \<Rightarrow> job \<Rightarrow> bool" where
  "job_inv db (Polling ds) = list_all (copied db) ds"
| "job_inv db (Reading_chain orig d) = (origin_inv db orig \<and> gives_ton db (dl_id d))"
| "job_inv db (Reading_gifts orig d) = origin_inv db orig"
| "job_inv db (Paid orig dealId pm) =
     (origin_inv db orig \<and> gives_ton db dealId \<and> tx_used_for db (pm_txHash pm) dealId)"
| "job_inv db (Claiming _ _ rest msgId) = (list_all (copied db) rest \<and> msgId \<noteq> None)"
| "job_inv db (Editing _ _ rest) = list_all (copied db) rest"
| "job_inv db (Paying_ton orig _) = origin_inv db orig"
| "job_inv db (Paying_gift orig _) = origin_inv db orig"
| "job_inv db (Telling_ton orig _) = origin_inv db orig"
| "job_inv db (Telling_gift orig _) = origin_inv db orig"
| "job_inv db (Telling_timeout _ rest) = list_all (copied db) rest"

definition deal_inv :: "deal_world \<Rightarrow> bool" where
  "deal_inv w \<longleftrightarrow>
     deals_inv (dw_db w) \<and> list_all (job_inv (dw_db w)) (dw_jobs w) \<and>
     distinct (map payout_deal (dw_payouts w)) \<and>
     list_all (\<lambda>p. settled (dw_db w) p \<and> pays_ton_for_ton (dw_db w) p) (dw_payouts w)"

text \<open>What a database keeps of an earlier one.\<close>

definition extends_db :: "deals_db \<Rightarrow> deals_db \<Rightarrow> bool" where
  "extends_db db db' \<longleftrightarrow>
     set (used_transactions db) \<subseteq> set (used_transactions db') \<and>
     (\<forall>d \<in> set (deals db). \<exists>d' \<in> set (deals db').
        dl_id d' = dl_id d \<and> dl_user_gives_type d' = dl_user_gives_type d \<and>
        (spent d \<longrightarrow> spent d') \<and> (evidence d \<longrightarrow> evidence d'))"

definition good :: "deals_db \<Rightarrow> deals_db \<Rightarrow> bool" where
  "good db db' \<longleftrightarrow> (deals_inv db \<longrightarrow> deals_inv db' \<and> extends_db db db')"

lemma good_refl [simp, intro]: "good db db"
  by (auto simp: good_def extends_db_def)

lemma extends_trans:
  assumes "extends_db a b" and "extends_db b c"
  shows "extends_db a c"
  unfolding extends_db_def
proof (intro conjI ballI)
  show "set (used_transactions a) \<subseteq> set (used_transactions c)"
    using assms by (auto simp: extends_db_def)
next
  fix d assume "d \<in> set (deals a)"
  with assms(1) obtain e where e: "e \<in> set (deals b)" "dl_id e = dl_id d"
    "dl_user_gives_type e = dl_user_gives_type d" "spent d \<longrightarrow> spent e" "evidence d \<longrightarrow> evidence e"
    unfolding extends_db_def by blast
  with assms(2) obtain f where "f \<in> set (deals c)" "dl_id f = dl_id e"
    "dl_user_gives_type f = dl_user_gives_type e" "spent e \<longrightarrow> spent f" "evidence e \<longrightarrow> evidence f"
    unfolding extends_db_def by blast
  with e show "\<exists>d' \<in> set (deals c). dl_id d' = dl_id d \<and> dl_user_gives_type d' = dl_user_gives_type d \<and>
      (spent d \<longrightarrow> spent d') \<and> (evidence d \<longrightarrow> evidence d')"
    by auto
qed

lemma good_trans: "good a b \<Longrightarrow> good b c \<Longrightarrow> good a c"
  unfolding good_def by (blast intro: extends_trans)

lemma settled_extends: "extends_db db db' \<Longrightarrow> settled db p \<Longrightarrow> settled db' p"
  unfolding extends_db_def settled_def by metis

lemma tx_used_for_extends: "extends_db db db' \<Longrightarrow> tx_used_for db h i \<Longrightarrow> tx_used_for db' h i"
  unfolding extends_db_def tx_used_for_def by blast

lemma gives_ton_extends: "extends_db db db' \<Longrightarrow> gives_ton db i \<Longrightarrow> gives_ton db' i"
  unfolding extends_db_def gives_ton_def by metis

lemma copied_extends: "extends_db db db' \<Longrightarrow> list_all (copied db) ds \<Longrightarrow> list_all (copied db') ds"
  unfolding copied_def by (auto intro: list.pred_mono_strong gives_ton_extends)

lemma pays_extends: "extends_db db db' \<Longrightarrow> pays_ton_for_ton db p \<Longrightarrow> pays_ton_for_ton db' p"
  by (cases p) (auto intro: gives_ton_extends)

lemma origin_inv_extends: "extends_db db db' \<Longrightarrow> origin_inv db orig \<Longrightarrow> origin_inv db' orig"
  by (cases orig) (auto intro: copied_extends)

lemma job_inv_extends: "extends_db db db' \<Longrightarrow> job_inv db j \<Longrightarrow> job_inv db' j"
  by (cases j) (auto intro: copied_extends origin_inv_extends gives_ton_extends tx_used_for_extends)

text \<open>
  An update of rows is good when each row it hits keeps its id, what was spent and the evidence, has a
  used transaction for a hash it names, is verified only with evidence, and gets at most a gift that no
  other row has.
\<close>

definition row_fine :: "deals_db \<Rightarrow> (deal \<Rightarrow> bool) \<Rightarrow> deal \<Rightarrow> deal \<Rightarrow> bool" where
  "row_fine db p d d' \<longleftrightarrow>
     dl_id d' = dl_id d \<and> dl_user_gives_type d' = dl_user_gives_type d \<and>
     (dl_user_payment_wallet d' \<noteq> None \<longrightarrow> dl_user_gives_type d = Ton_asset) \<and>
     (\<forall>h. dl_user_payment_tx_hash d' = Some h \<longrightarrow> tx_used_for db h (dl_id d)) \<and>
     (dl_status d' = Verified \<longrightarrow> evidence d') \<and>
     (spent d \<longrightarrow> spent d') \<and> (evidence d \<longrightarrow> evidence d') \<and>
     (dl_user_payment_gift_msgid d' = dl_user_payment_gift_msgid d \<or>
      (\<forall>e \<in> set (deals db). dl_user_payment_gift_msgid e \<noteq> dl_user_payment_gift_msgid d') \<and>
      (\<forall>e. p e \<longrightarrow> dl_id e = dl_id d))"

lemma row_fine_same: "deals_inv db \<Longrightarrow> d \<in> set (deals db) \<Longrightarrow> row_fine db p d d"
  by (simp add: row_fine_def deals_inv_def)

lemma good_update:
  assumes fine: "\<And>d. deals_inv db \<Longrightarrow> d \<in> set (deals db) \<Longrightarrow> p d \<Longrightarrow> row_fine db p d (f d)"
  shows "good db (db\<lparr>deals := sql_update_where p f (deals db)\<rparr>)"
  unfolding good_def
proof (intro impI)
  assume inv: "deals_inv db"
  define g where "g d = (if p d then f d else d)" for d
  let ?db' = "db\<lparr>deals := sql_update_where p f (deals db)\<rparr>"
  have rows: "deals ?db' = map g (deals db)"
    by (simp add: sql_update_where_def g_def)
  have row: "row_fine db p d (g d)" if "d \<in> set (deals db)" for d
    using fine [OF inv that] row_fine_same [OF inv that] by (simp add: g_def)
  have ids: "dl_id (g d) = dl_id d" if "d \<in> set (deals db)" for d
    using row [OF that] by (simp add: row_fine_def)
  then have same_ids: "map dl_id (deals ?db') = map dl_id (deals db)" by (simp add: rows)
  have uniq: "dl_id d = dl_id e"
    if d: "d \<in> set (deals db)" and e: "e \<in> set (deals db)"
      and some: "dl_user_payment_gift_msgid (g d) \<noteq> None"
      and eq: "dl_user_payment_gift_msgid (g d) = dl_user_payment_gift_msgid (g e)" for d e
  proof -
    note inv_gift = inv [unfolded deals_inv_def, THEN conjunct2, THEN conjunct2, THEN conjunct2]
    show ?thesis
      using row [OF d] row [OF e] some eq d e inv_gift unfolding row_fine_def g_def
      by (smt (verit, best))
  qed
  have "distinct (map dl_id (deals ?db'))"
    unfolding same_ids using inv by (simp add: deals_inv_def)
  moreover have "\<forall>d \<in> set (deals ?db'). \<forall>e \<in> set (deals ?db').
        dl_user_payment_gift_msgid d \<noteq> None \<and> dl_user_payment_gift_msgid d = dl_user_payment_gift_msgid e \<longrightarrow>
        dl_id d = dl_id e"
  proof (intro ballI impI)
    fix d' e'
    assume "d' \<in> set (deals ?db')" and "e' \<in> set (deals ?db')"
      and eq: "dl_user_payment_gift_msgid d' \<noteq> None \<and> dl_user_payment_gift_msgid d' = dl_user_payment_gift_msgid e'"
    then obtain d e where "d \<in> set (deals db)" "e \<in> set (deals db)" "d' = g d" "e' = g e"
      unfolding rows by auto
    with uniq [of d e] ids eq show "dl_id d' = dl_id e'" by metis
  qed
  moreover have "\<forall>d \<in> set (deals ?db').
        (\<forall>h. dl_user_payment_tx_hash d = Some h \<longrightarrow> tx_used_for ?db' h (dl_id d)) \<and>
        (dl_status d = Verified \<longrightarrow> evidence d) \<and>
        (dl_user_payment_wallet d \<noteq> None \<longrightarrow> dl_user_gives_type d = Ton_asset)"
    using row ids by (simp add: rows row_fine_def tx_used_for_def)
  moreover have "distinct (map ut_tx_hash (used_transactions ?db'))"
    using inv by (simp add: deals_inv_def)
  ultimately have "deals_inv ?db'" unfolding deals_inv_def by blast
  moreover have "extends_db db ?db'"
    using row by (auto simp: extends_db_def rows row_fine_def)
  ultimately show "deals_inv ?db' \<and> extends_db db ?db'" by simp
qed

text \<open>Updates that neither verify a deal, nor touch its payment, nor undo what was spent.\<close>

definition harmless :: "(deal \<Rightarrow> deal) \<Rightarrow> deal \<Rightarrow> bool" where
  "harmless f d \<longleftrightarrow>
     dl_id (f d) = dl_id d \<and> dl_user_gives_type (f d) = dl_user_gives_type d \<and>
     dl_user_payment_wallet (f d) = dl_user_payment_wallet d \<and> dl_user_payment_tx_hash (f d) = dl_user_payment_tx_hash d \<and>
     dl_user_payment_gift_msgid (f d) = dl_user_payment_gift_msgid d \<and>
     (spent d \<longrightarrow> spent (f d)) \<and> (dl_status (f d) = Verified \<longrightarrow> dl_status d = Verified)"

lemma row_fine_harmless: "deals_inv db \<Longrightarrow> d \<in> set (deals db) \<Longrightarrow> harmless f d \<Longrightarrow> row_fine db p d (f d)"
  by (auto simp: harmless_def row_fine_def deals_inv_def evidence_def)

lemma good_harmless_where:
  assumes "\<And>d. p d \<Longrightarrow> harmless f d"
  shows "good db (db\<lparr>deals := sql_update_where p f (deals db)\<rparr>)"
  by (intro good_update row_fine_harmless assms)

lemma good_change:
  assumes "\<And>d. dl_id d = dealId \<Longrightarrow> p d \<Longrightarrow> harmless f d"
  shows "good db (snd (change_deal dealId p f db))"
  unfolding change_deal_def Let_def snd_conv by (rule good_harmless_where) (simp add: assms)

text \<open>An update by id after the row has been read only hits that row.\<close>

lemma get_dealD: "get_deal db i = Some d \<Longrightarrow> d \<in> set (deals db) \<and> dl_id d = i"
  unfolding get_deal_def by (rule sql_get_SomeD)

lemma good_change_read:
  assumes "get_deal db dealId = Some d" and "p d \<Longrightarrow> harmless f d"
  shows "good db (snd (change_deal dealId p f db))"
  unfolding change_deal_def Let_def snd_conv
proof (rule good_update)
  fix e assume inv: "deals_inv db" and e: "e \<in> set (deals db)" "dl_id e = dealId \<and> p e"
  have "distinct (map dl_id (deals db))" using inv by (simp add: deals_inv_def)
  then have "e = d" using e get_dealD [OF assms(1)] by (auto simp: distinct_map inj_on_def)
  then show "row_fine db (\<lambda>d. dl_id d = dealId \<and> p d) e (f e)"
    using assms(2) e inv by (simp add: row_fine_harmless)
qed

lemma good_stats [simp]: "good db (db\<lparr>user_trade_stats := s\<rparr>)"
  by (auto simp: good_def deals_inv_def extends_db_def tx_used_for_def)

lemma good_updateUserStats [simp]: "good db (updateUserStats now u n d c db)"
  by (simp add: updateUserStats_def Let_def)

section \<open>The operations keep the invariant\<close>

lemmas change_harmless = harmless_def spent_def

lemma good_acceptDeal: "good db (snd (acceptDeal now i db))"
  and good_declineDeal: "good db (snd (declineDeal i db))"
  and good_claimPayment: "good db (snd (claimPayment now i db))"
  and good_expireDeal: "good db (snd (expireDeal i db))"
  and good_setInline: "good db (setInlineMessageId i m db)"
  and good_set_proposal: "good db (set_proposal_message i n db)"
  and good_execution_failed: "good db (execution_failed i e db)"
  and good_gift_failed: "good db (gift_failed i e db)"
  unfolding acceptDeal_def declineDeal_def claimPayment_def expireDeal_def setInlineMessageId_def
    set_proposal_message_def execution_failed_def gift_failed_def
  by (rule good_change; auto simp: change_harmless)+

lemma good_expire_stale: "good db (expire_stale now db)"
  unfolding expire_stale_def by (rule good_harmless_where) (auto simp: change_harmless)

lemma good_dealCancel: "good db (snd (dealCancel sender admins i reason db))"
proof (cases "loadDealForActor db i sender admins")
  case (Inl e)
  then show ?thesis by (simp add: dealCancel_def)
next
  case (Inr d)
  then have "get_deal db i = Some d" by (simp add: loadDealForActor_def split: option.splits if_splits)
  then show ?thesis using Inr
    by (auto simp: dealCancel_def Let_def change_harmless intro!: good_change_read)
qed

lemma good_handle_action: "good db (snd (handle_action now a d db))"
  by (simp add: handle_action_def good_acceptDeal good_declineDeal good_claimPayment split: callback_action.split)

lemma good_handle_callback: "good db (snd (handle_callback now u a i m db))"
proof -
  define db1 where "db1 = (case non_empty m of Some m \<Rightarrow> setInlineMessageId i m db | None \<Rightarrow> db)"
  have "good db db1" by (simp add: db1_def good_setInline split: option.split)
  moreover have "good db1 (snd (handle_callback now u a i m db))"
    by (simp add: handle_callback_def db1_def [symmetric] Let_def good_handle_action good_expireDeal
        split: option.split)
  ultimately show ?thesis by (rule good_trans)
qed

lemma good_handle_inline_query: "good db (handle_inline_query now q db)"
  by (simp add: handle_inline_query_def Let_def good_expireDeal split: option.split)

lemma good_insert:
  assumes new: "dl_id r \<notin> dl_id ` set (deals db)"
    and r: "dl_user_payment_tx_hash r = None" "dl_user_payment_gift_msgid r = None" "dl_status r = Proposed"
      "dl_user_payment_wallet r = None"
  shows "good db (db\<lparr>deals := deals db @ [r]\<rparr>)"
  unfolding good_def
proof (intro impI conjI)
  assume inv: "deals_inv db"
  show "deals_inv (db\<lparr>deals := deals db @ [r]\<rparr>)"
    using inv new unfolding deals_inv_def by (simp add: r tx_used_for_def) (metis option.simps(3))
  show "extends_db db (db\<lparr>deals := deals db @ [r]\<rparr>)"
    by (auto simp: extends_db_def)
qed

lemma good_dealPropose: "good db (snd (dealPropose cfg i now p db))"
  using good_insert [of "propose_row cfg i now p" db]
  by (simp add: dealPropose_def Let_def get_deal_def sql_get_None_iff propose_row_def)

lemma good_verifyPayment: "good db (snd (verifyPayment now b r g i txs db))"
proof (induction now b r g i txs db rule: verifyPayment.induct)
  case (2 now b r g i t ts db)
  show ?case
  proof (cases "pays now b r i t \<and> sql_get ut_tx_hash (ct_hash t) (used_transactions db) = None")
    case True
    then show ?thesis
      by (auto simp: good_def deals_inv_def extends_db_def tx_used_for_def sql_get_None_iff)
  next
    case False
    then show ?thesis using 2 by auto
  qed
qed simp

lemma verifyPayment_used:
  "verifyPayment now b r g i txs db = (Some pm, db') \<Longrightarrow> tx_used_for db' (pm_txHash pm) i"
  by (induction now b r g i txs db rule: verifyPayment.induct) (auto simp: tx_used_for_def split: if_splits)

lemma good_mark_ton_verified:
  assumes "tx_used_for db (pm_txHash pm) i" and "gives_ton db i" and "st \<in> {Accepted, Payment_claimed}"
  shows "good db (snd (mark_ton_verified now i pm st db))"
  unfolding mark_ton_verified_def change_deal_def Let_def snd_conv
proof (rule good_update)
  fix d assume inv: "deals_inv db" and d: "d \<in> set (deals db)" "dl_id d = i \<and> dl_status d = st"
  have "dl_user_gives_type d = Ton_asset"
    using assms(2) inv d by (auto simp: gives_ton_def deals_inv_def distinct_map inj_on_def)
  then show "row_fine db (\<lambda>d. dl_id d = i \<and> dl_status d = st) d
      (d\<lparr>dl_status := Verified, dl_user_payment_tx_hash := Some (pm_txHash pm),
         dl_user_payment_wallet := Some (pm_playerWallet pm), dl_user_payment_verified_at := Some (secs now)\<rparr>)"
    using assms(1,3) d by (auto simp: row_fine_def evidence_def spent_def)
qed

lemma good_claimGiftPayment:
  assumes "m \<noteq> None" and "st \<in> {Accepted, Payment_claimed}"
  shows "good db (snd (claimGiftPayment now i m st db))"
  unfolding claimGiftPayment_def change_deal_def Let_def snd_conv
proof (rule good_update)
  let ?hit = "\<lambda>d. dl_id d = i \<and> dl_status d = st \<and> \<not> isGiftPaymentUsed db m"
  fix d assume inv: "deals_inv db" and d: "d \<in> set (deals db)" "?hit d"
  have "\<forall>h. dl_user_payment_tx_hash d = Some h \<longrightarrow> tx_used_for db h (dl_id d)"
    and "dl_user_payment_wallet d \<noteq> None \<longrightarrow> dl_user_gives_type d = Ton_asset"
    using inv d(1) by (simp_all add: deals_inv_def)
  then show "row_fine db ?hit d (d\<lparr>dl_status := Verified, dl_user_payment_gift_msgid := m,
      dl_user_payment_verified_at := Some (secs now)\<rparr>)"
    using d assms by (auto simp: row_fine_def evidence_def spent_def isGiftPaymentUsed_def)
qed

lemma good_ton_sent: "good db (snd (ton_sent now i r db))"
  unfolding ton_sent_def
  by (auto simp: good_execution_failed Let_def change_harmless intro!: good_change split: send_result.split)

lemma good_gift_sent: "good db (snd (gift_sent now i r db))"
  unfolding gift_sent_def
  by (auto simp: good_execution_failed good_gift_failed change_harmless intro!: good_change split: gift_result.split)

lemma good_ton_notified: "good db (snd (ton_notified i r db))"
  and good_gift_notified: "good db (snd (gift_notified i r db))"
  by (simp_all add: ton_notified_def gift_notified_def good_execution_failed good_gift_failed split: option.split)

text \<open>
  The start of an execution: the lock is set, and what it pays was not paid before and is settled then.
\<close>

lemma good_executeDeal_begin: "good db (snd (executeDeal_begin now i db))"
proof -
  have lock: "good db (snd (change_deal i (\<lambda>d. dl_status d = Verified \<and> dl_agent_sent_at d = None)
      (\<lambda>d. d\<lparr>dl_agent_sent_at := Some (secs now)\<rparr>) db))"
    by (rule good_change) (auto simp: change_harmless)
  then show ?thesis
    by (auto simp: executeDeal_begin_def split: option.split prod.split bool.split asset_type.split)
qed

lemma executeDeal_begin_pays:
  assumes inv: "deals_inv db" and pay: "executeDeal_begin now i db = (Inr p, db')"
  shows "payout_deal p = i" and "settled db' p" and "\<not> settled db p" and "pays_ton_for_ton db p"
proof -
  let ?f = "\<lambda>d. d\<lparr>dl_agent_sent_at := Some (secs now)\<rparr>"
  let ?hit = "\<lambda>d. dl_id d = i \<and> dl_status d = Verified \<and> dl_agent_sent_at d = None"
  from pay obtain d where d: "get_deal db i = Some d" and st: "dl_status d = Verified"
    by (auto simp: executeDeal_begin_def throw_def split: option.splits if_splits)
  from pay d st show p: "payout_deal p = i"
    by (auto simp: executeDeal_begin_def throw_def ret_def split: option.splits if_splits prod.splits
        bool.splits asset_type.splits)
  from pay d st have hit: "filter ?hit (deals db) \<noteq> []"
    and db': "db' = db\<lparr>deals := sql_update_where ?hit ?f (deals db)\<rparr>"
    by (auto simp: executeDeal_begin_def change_deal_def Let_def throw_def ret_def
        split: option.splits if_splits prod.splits bool.splits asset_type.splits)
  from hit obtain e where e: "e \<in> set (deals db)" "?hit e"
    by (auto simp: filter_empty_conv)
  have only: "e' = e" if "e' \<in> set (deals db)" "dl_id e' = i" for e'
    using inv e that by (auto simp: deals_inv_def distinct_map inj_on_def)
  have "evidence e" using inv e by (simp add: deals_inv_def)
  moreover have "?f e \<in> set (deals db')"
    using e by (force simp: db' set_update_where)
  ultimately show "settled db' p"
    using e p by (auto simp: settled_def spent_def evidence_def intro!: bexI [of _ "?f e"])
  show "\<not> settled db p"
    using only e p by (auto simp: settled_def spent_def)
  have "dl_user_payment_wallet d \<noteq> None" if "p = Pay_ton j a n" for j a n
    using pay d st that by (auto simp: executeDeal_begin_def throw_def ret_def non_empty_def
        split: option.splits if_splits prod.splits bool.splits asset_type.splits)
  then show "pays_ton_for_ton db p"
    using inv p get_dealD [OF d] by (cases p) (auto simp: gives_ton_def deals_inv_def)
qed

section \<open>Steps\<close>

text \<open>A step of the world whose database moves on well and whose new jobs are fine.\<close>

lemma deal_inv_db:
  assumes "deal_inv w" and "good (dw_db w) db"
  shows "deal_inv (set_deals_db db w)" and "extends_db (dw_db w) db"
proof -
  from assms show ext: "extends_db (dw_db w) db" by (simp add: deal_inv_def good_def)
  have "deals_inv db" using assms by (simp add: deal_inv_def good_def)
  then show "deal_inv (set_deals_db db w)"
    using assms(1) job_inv_extends [OF ext] settled_extends [OF ext] pays_extends [OF ext]
    by (auto simp: deal_inv_def set_deals_db_def list_all_iff)
qed

lemma deal_inv_origin:
  assumes "deal_inv w" and "good (dw_db w) db" and "origin_inv (dw_db w) orig"
  shows "deal_inv (set_deals_db db w)" and "origin_inv db orig"
  using deal_inv_db [OF assms(1,2)] origin_inv_extends assms(3) by blast+

lemma deal_inv_add_jobs: "deal_inv w \<Longrightarrow> list_all (job_inv (dw_db w)) js \<Longrightarrow> deal_inv (add_jobs js w)"
  by (simp add: deal_inv_def add_jobs_def)

lemma deal_inv_retry: "deal_inv w \<Longrightarrow> deal_inv (set_retry i n w)"
  by (simp add: deal_inv_def set_retry_def)

lemma dw_simps [simp]:
  "dw_db (add_jobs js w) = dw_db w" "dw_db (set_retry i n w) = dw_db w" "dw_db (set_deals_db db w) = db"
  "dw_db (take_job k w) = dw_db w" "dw_payouts (add_jobs js w) = dw_payouts w"
  "dw_payouts (set_deals_db db w) = dw_payouts w" "dw_jobs (set_deals_db db w) = dw_jobs w"
  "dw_jobs (set_retry i n w) = dw_jobs w" "dw_payouts (set_retry i n w) = dw_payouts w"
  "dw_jobs (add_jobs js w) = dw_jobs w @ js" "dw_payouts (take_job k w) = dw_payouts w"
  by (simp_all add: add_jobs_def set_retry_def set_deals_db_def take_job_def)

lemma origin_inv_set [simp]: "origin_inv (dw_db w) (By_poller n d rest) = list_all (copied (dw_db w)) rest"
  by simp

lemma deal_inv_not_verified: "deal_inv w \<Longrightarrow> list_all (copied (dw_db w)) ds \<Longrightarrow> deal_inv (not_verified n d ds w)"
  and deal_inv_verified_done: "deal_inv w \<Longrightarrow> list_all (copied (dw_db w)) ds \<Longrightarrow> deal_inv (verified_done d ds w)"
  by (simp_all add: not_verified_def verified_done_def deal_inv_add_jobs deal_inv_retry)

lemma deal_inv_execution_done:
  assumes "deal_inv w" and "origin_inv (dw_db w) orig"
  shows "deal_inv (execution_done now orig b w)"
proof (cases orig)
  case By_tool
  then show ?thesis using assms by simp
next
  case (By_poller n d rest)
  let ?db = "updateUserStats now (dl_user_telegram_id d) (dl_user_username d) d True (dw_db w)"
  have "deal_inv (set_deals_db ?db w)" "origin_inv ?db orig"
    by (rule deal_inv_origin [OF assms(1) _ assms(2)]; simp)+
  then show ?thesis using By_poller assms by (simp add: deal_inv_verified_done)
qed

lemma deal_inv_start_execution:
  assumes inv: "deal_inv w" and orig: "origin_inv (dw_db w) orig"
  shows "deal_inv (start_execution now orig i w)"
proof (cases "executeDeal_begin now i (dw_db w)")
  case (Pair r db)
  have good: "good (dw_db w) db"
    using good_executeDeal_begin [of "dw_db w" now i] Pair by simp
  note inv' = deal_inv_origin [OF inv good orig]
  show ?thesis
  proof (cases r)
    case (Inl e)
    then show ?thesis using Pair inv' by (simp add: start_execution_def deal_inv_execution_done)
  next
    case (Inr p)
    have p: "settled db p" "\<not> settled (dw_db w) p" "pays_ton_for_ton (dw_db w) p"
      using executeDeal_begin_pays [of "dw_db w" now i p db] Pair Inr inv by (simp_all add: deal_inv_def)
    have "payout_deal p \<noteq> payout_deal q" if "q \<in> set (dw_payouts w)" for q
    proof
      assume "payout_deal p = payout_deal q"
      then have "settled (dw_db w) p = settled (dw_db w) q" by (simp add: settled_def)
      then show False using inv that p(2) by (simp add: deal_inv_def list_all_iff)
    qed
    moreover have "pays_ton_for_ton db p"
      using p(3) pays_extends deal_inv_db(2) [OF inv good] by blast
    ultimately have "deal_inv (w\<lparr>dw_db := db, dw_payouts := dw_payouts w @ [p]\<rparr>)"
      using inv'(1) p(1) by (auto simp: deal_inv_def set_deals_db_def)
    then show ?thesis
      using Pair Inr inv' by (auto simp: start_execution_def intro!: deal_inv_add_jobs split: payout.split)
  qed
qed

lemma deal_inv_continue_execution:
  assumes "deal_inv w" and "origin_inv (dw_db w) orig" and "good (dw_db w) (snd r)"
    and "list_all (job_inv (snd r)) js"
  shows "deal_inv (continue_execution now orig r js w)"
  using deal_inv_origin [OF assms(1,3,2)] assms(4)
  by (cases r; cases "fst r")
    (auto simp: continue_execution_def deal_inv_execution_done intro!: deal_inv_add_jobs)

lemma deal_inv_after_verified:
  "deal_inv w \<Longrightarrow> origin_inv (dw_db w) orig \<Longrightarrow> deal_inv (after_verified now orig i w)"
  by (cases orig) (simp_all add: after_verified_def deal_inv_start_execution deal_inv_add_jobs)

lemma expected_open: "expected_status orig \<in> {Accepted, Payment_claimed}"
  by (cases orig) (simp_all add: expected_status_def)

lemma deal_inv_write_paid:
  assumes "deal_inv w" and "origin_inv (dw_db w) orig" and "gives_ton (dw_db w) i"
    and "tx_used_for (dw_db w) (pm_txHash pm) i"
  shows "deal_inv (write_paid now orig i pm w)"
proof (cases "mark_ton_verified now i pm (expected_status orig) (dw_db w)")
  case (Pair b db)
  have "good (dw_db w) db"
    using good_mark_ton_verified [OF assms(4,3) expected_open, of now orig] Pair by simp
  then show ?thesis
    using deal_inv_origin [OF assms(1) _ assms(2)] Pair
    by (cases b) (simp_all add: write_paid_def deal_inv_after_verified deal_inv_execution_done)
qed

lemma deal_inv_write_gift:
  assumes "deal_inv w" and "origin_inv (dw_db w) orig" and "m \<noteq> None"
  shows "deal_inv (write_gift now orig i m w)"
proof (cases "claimGiftPayment now i m (expected_status orig) (dw_db w)")
  case (Pair b db)
  have "good (dw_db w) db"
    using good_claimGiftPayment [OF assms(3) expected_open, of "dw_db w" now i orig] Pair by simp
  then show ?thesis
    using deal_inv_origin [OF assms(1) _ assms(2)] Pair
    by (cases b) (simp_all add: write_gift_def deal_inv_after_verified deal_inv_execution_done)
qed

lemma deal_inv_chain_read:
  assumes "deal_inv w" and "origin_inv (dw_db w) orig" and "gives_ton (dw_db w) (dl_id d)"
  shows "deal_inv (chain_read now orig d txs w)"
proof (cases "verifyPayment now (or_zero (dl_user_gives_ton_amount d)) (dl_created_at d * 1000)
             (''deal:'' @ dl_id d) (dl_id d) txs (dw_db w)")
  case (Pair r db)
  have good: "good (dw_db w) db"
    using good_verifyPayment [of "dw_db w" now] Pair by (metis snd_conv)
  note inv' = deal_inv_origin [OF assms(1) good assms(2)]
  have ton: "gives_ton db (dl_id d)" using gives_ton_extends deal_inv_db(2) [OF assms(1) good] assms(3) by blast
  show ?thesis
  proof (cases r)
    case None
    then show ?thesis using Pair inv'
      by (cases orig) (simp_all add: chain_read_def deal_inv_not_verified)
  next
    case (Some pm)
    then show ?thesis using Pair inv' ton verifyPayment_used
      by (auto simp: chain_read_def intro!: deal_inv_add_jobs)
  qed
qed

lemma verifyGiftPayment_named:
  assumes "verifyGiftPayment db d (map (received now) gifts) = Some g" and "list_all (\<lambda>g. ge_msgId g \<noteq> None) gifts"
  shows "rg_msgId g \<noteq> None"
proof -
  have "g \<in> set (map (received now) gifts)"
    using assms(1) by (auto simp: verifyGiftPayment_def find_Some_iff)
  then show ?thesis using assms(2) by (auto simp: received_def list_all_iff)
qed

lemma deal_inv_gifts_read:
  assumes "deal_inv w" and "origin_inv (dw_db w) orig" and "list_all (\<lambda>g. ge_msgId g \<noteq> None) gifts"
  shows "deal_inv (gifts_read now orig d gifts w)"
proof (cases orig)
  case By_tool
  then show ?thesis
    using assms verifyGiftPayment_named
    by (auto simp: gifts_read_def split: option.split intro!: deal_inv_write_gift)
next
  case (By_poller n e rest)
  have "ge_msgId g \<noteq> None" if "poller_gift (dw_db w) d' gifts = Some g" for g d'
    using that by (auto simp: poller_gift_def find_Some_iff)
  then show ?thesis
    using assms(1,2) By_poller
    by (auto simp: gifts_read_def deal_inv_not_verified split: option.split intro!: deal_inv_add_jobs)
qed

lemma deal_inv_poll_next:
  assumes "deal_inv w" and "list_all (copied (dw_db w)) ds"
  shows "deal_inv (poll_next cfg wallet ds w)"
proof (cases ds)
  case Nil
  then show ?thesis using assms by (simp add: poll_next_def)
next
  case (Cons d rest)
  let ?p = "\<lambda>d. dl_status d = Payment_claimed"
  let ?f = "\<lambda>d. d\<lparr>dl_status := Failed, dl_notes := Some [S ''Payment verification timeout'']\<rparr>"
  obtain b db where c: "change_deal (dl_id d) ?p ?f (dw_db w) = (b, db)" by fastforce
  have "good (dw_db w) (snd (change_deal (dl_id d) ?p ?f (dw_db w)))"
    by (rule good_change) (auto simp: change_harmless)
  then have "good (dw_db w) db" using c by simp
  then have "deal_inv (set_deals_db db w)" and "extends_db (dw_db w) db"
    by (rule deal_inv_db [OF assms(1)])+
  moreover from this(2) have "list_all (copied db) rest"
    by (rule copied_extends) (use assms(2) Cons in simp)
  moreover have "list_all (copied (dw_db w)) rest" "dl_user_gives_type d = Ton_asset \<longrightarrow> gives_ton (dw_db w) (dl_id d)"
    using assms(2) Cons by (simp_all add: copied_def)
  ultimately show ?thesis
    using Cons c assms(1)
    by (cases b) (auto simp: poll_next_def Let_def deal_inv_verified_done deal_inv_not_verified
        split: asset_type.split intro!: deal_inv_add_jobs)
qed

lemma deal_inv_tool_verify:
  assumes "deal_inv w"
  shows "deal_inv (tool_verify now sender admins i wallet w)"
proof (cases "loadDealForActor (dw_db w) i sender admins")
  case (Inl e)
  then show ?thesis using assms by (simp add: tool_verify_def)
next
  case (Inr d)
  then have "get_deal (dw_db w) i = Some d" by (simp add: loadDealForActor_def split: option.splits if_splits)
  then have "dl_user_gives_type d = Ton_asset \<longrightarrow> gives_ton (dw_db w) (dl_id d)"
    using get_dealD by (auto simp: gives_ton_def)
  moreover have "good (dw_db w) (snd (change_deal i (\<lambda>d. dl_status d = Accepted) (\<lambda>d. d\<lparr>dl_status := Expired\<rparr>) (dw_db w)))"
    by (rule good_change) (auto simp: change_harmless)
  ultimately show ?thesis
    using assms deal_inv_db(1) [OF assms] Inr
    by (auto simp: tool_verify_def split: asset_type.split intro!: deal_inv_add_jobs)
qed

lemma deal_inv_resume:
  assumes "deal_inv w" and "job_inv (dw_db w) j"
    and "case a of Gifts gs \<Rightarrow> list_all (\<lambda>g. ge_msgId g \<noteq> None) gs | _ \<Rightarrow> True"
  shows "deal_inv (resume cfg now j a w)"
  using assms
  by (cases j; cases a)
    (auto simp: resume_def deal_inv_poll_next deal_inv_chain_read deal_inv_gifts_read deal_inv_write_paid
      deal_inv_write_gift deal_inv_start_execution deal_inv_verified_done good_ton_sent good_gift_sent
      good_ton_notified good_gift_notified
      split: option.split intro!: deal_inv_add_jobs deal_inv_continue_execution
      intro: deal_inv_origin(2) [OF _ good_ton_sent] deal_inv_origin(2) [OF _ good_gift_sent])

lemma awaiting_copied: "list_all (copied db) (getDealsAwaitingVerification db)"
proof -
  have "set (getDealsAwaitingVerification db) \<subseteq> set (deals db)"
    by (auto simp: getDealsAwaitingVerification_def Let_def dest!: in_set_takeD)
  then show ?thesis by (auto simp: list_all_iff copied_def gives_ton_def)
qed

lemma deal_inv_take_job: "deal_inv w \<Longrightarrow> deal_inv (take_job k w)"
  by (auto simp: deal_inv_def take_job_def list_all_iff dest: in_set_takeD in_set_dropD)

lemma deal_inv_step:
  assumes inv: "deal_inv w" and ok: "event_ok e"
  shows "deal_inv (deal_step cfg e w)"
proof (cases e)
  case E_poll
  have "deal_inv (add_jobs [Polling (getDealsAwaitingVerification (dw_db w))] w)"
    by (rule deal_inv_add_jobs [OF inv]) (simp add: awaiting_copied)
  then show ?thesis using E_poll inv by (cases "getDealsAwaitingVerification (dw_db w)") simp_all
next
  case (E_resume k now a)
  have "job_inv (dw_db w) (dw_jobs w ! k)" if "k < length (dw_jobs w)"
    using inv that by (simp add: deal_inv_def list_all_length)
  moreover have "case a of Gifts gs \<Rightarrow> list_all (\<lambda>g. ge_msgId g \<noteq> None) gs | _ \<Rightarrow> True"
    using ok E_resume by (cases a) (simp_all add: event_ok_def)
  ultimately show ?thesis
    using E_resume inv by (simp only: deal_step.simps dw_simps split: if_split)
      (intro conjI impI deal_inv_resume deal_inv_take_job; simp)
qed (use inv in \<open>simp_all add: deal_inv_db good_dealPropose good_set_proposal good_handle_callback
  good_handle_inline_query good_setInline good_dealCancel good_expire_stale deal_inv_tool_verify\<close>)

lemma deal_inv_start: "deal_inv no_deals"
  by (simp add: deal_inv_def no_deals_def deals_inv_def)

lemma deal_reachable_inv: "deal_reachable cfg w \<Longrightarrow> deal_inv w"
  by (induction rule: deal_reachable.induct) (auto intro: deal_inv_start deal_inv_step)

text \<open>The transaction and the gift that a deal was paid with.\<close>

definition paid_with :: "deals_db \<Rightarrow> payout \<Rightarrow> string option \<times> string option" where
  "paid_with db p =
     (case get_deal db (payout_deal p) of
        None \<Rightarrow> (None, None)
      | Some d \<Rightarrow> (dl_user_payment_tx_hash d, dl_user_payment_gift_msgid d))"

lemma distinct_map_filter_key:
  assumes "distinct (map key xs)"
    and "\<And>x y v. x \<in> set xs \<Longrightarrow> y \<in> set xs \<Longrightarrow> f x = Some v \<Longrightarrow> f y = Some v \<Longrightarrow> key x = key y"
  shows "distinct (List.map_filter f xs)"
  using assms
proof (induction xs)
  case Nil
  then show ?case by (simp add: map_filter_simps)
next
  case (Cons x xs)
  have "v \<notin> set (List.map_filter f xs)" if "f x = Some v" for v
  proof
    assume "v \<in> set (List.map_filter f xs)"
    then obtain y where "y \<in> set xs" "f y = Some v" by (auto simp: map_filter_def)
    then have "key x = key y" using Cons.prems(2) that by auto
    then show False using Cons.prems(1) \<open>y \<in> set xs\<close> by auto
  qed
  then show ?case
    using Cons by (auto simp: map_filter_simps split: option.split)
qed

lemma settled_paid_with:
  assumes "deals_inv db" and "settled db p"
  obtains d where "d \<in> set (deals db)" and "dl_id d = payout_deal p"
    and "paid_with db p = (dl_user_payment_tx_hash d, dl_user_payment_gift_msgid d)" and "evidence d"
proof -
  from assms(2) obtain d where d: "d \<in> set (deals db)" "dl_id d = payout_deal p" "evidence d"
    by (auto simp: settled_def)
  have "get_deal db (payout_deal p) = Some d"
    unfolding get_deal_def using sql_get_unique [of dl_id "deals db" d] assms(1) d(1,2)
    by (simp add: deals_inv_def)
  then show ?thesis using d that by (simp add: paid_with_def)
qed

text \<open>
  C6. However buttons, tools, poller and executor interleave: the agent pays for no deal twice; each deal
  it pays for has been paid, with a transaction that was recorded as used for that deal or with a gift;
  and no transaction and no gift pays for two deals.
\<close>

theorem payouts_paid_once:
  assumes "deal_reachable cfg w"
  shows "distinct (map payout_deal (dw_payouts w)) \<and>
         list_all (\<lambda>p. paid_with (dw_db w) p \<noteq> (None, None)) (dw_payouts w) \<and>
         list_all (\<lambda>p. case fst (paid_with (dw_db w) p) of None \<Rightarrow> True
                       | Some h \<Rightarrow> tx_used_for (dw_db w) h (payout_deal p)) (dw_payouts w) \<and>
         distinct (List.map_filter (\<lambda>p. fst (paid_with (dw_db w) p)) (dw_payouts w)) \<and>
         distinct (List.map_filter (\<lambda>p. snd (paid_with (dw_db w) p)) (dw_payouts w))"
proof -
  have inv: "deal_inv w" by (rule deal_reachable_inv) fact
  then have db: "deals_inv (dw_db w)" and dist: "distinct (map payout_deal (dw_payouts w))"
    and settled: "\<And>p. p \<in> set (dw_payouts w) \<Longrightarrow> settled (dw_db w) p"
    by (simp_all add: deal_inv_def list_all_iff)
  have used: "tx_used_for (dw_db w) h (payout_deal p)"
    if "p \<in> set (dw_payouts w)" "fst (paid_with (dw_db w) p) = Some h" for p h
  proof (rule settled_paid_with [OF db settled [OF that(1)]])
    fix d assume "d \<in> set (deals (dw_db w))" "dl_id d = payout_deal p"
      "paid_with (dw_db w) p = (dl_user_payment_tx_hash d, dl_user_payment_gift_msgid d)"
    then show ?thesis using db that(2) unfolding deals_inv_def by (metis fst_conv)
  qed
  have tx: "payout_deal p = payout_deal q"
    if "p \<in> set (dw_payouts w)" "q \<in> set (dw_payouts w)"
      "fst (paid_with (dw_db w) p) = Some h" "fst (paid_with (dw_db w) q) = Some h" for p q h
  proof -
    from used that obtain u v where "u \<in> set (used_transactions (dw_db w))" "v \<in> set (used_transactions (dw_db w))"
      "ut_tx_hash u = h" "ut_tx_hash v = h" "ut_user_id u = payout_deal p" "ut_user_id v = payout_deal q"
      unfolding tx_used_for_def by metis
    moreover have "distinct (map ut_tx_hash (used_transactions (dw_db w)))" using db by (simp add: deals_inv_def)
    ultimately show ?thesis unfolding distinct_map inj_on_def by metis
  qed
  have gift: "payout_deal p = payout_deal q"
    if p: "p \<in> set (dw_payouts w)" and q: "q \<in> set (dw_payouts w)"
      and h: "snd (paid_with (dw_db w) p) = Some h" "snd (paid_with (dw_db w) q) = Some h" for p q h
  proof -
    obtain d where d: "d \<in> set (deals (dw_db w))" "dl_id d = payout_deal p"
      "paid_with (dw_db w) p = (dl_user_payment_tx_hash d, dl_user_payment_gift_msgid d)"
      by (rule settled_paid_with [OF db settled [OF p]])
    obtain e where e: "e \<in> set (deals (dw_db w))" "dl_id e = payout_deal q"
      "paid_with (dw_db w) q = (dl_user_payment_tx_hash e, dl_user_payment_gift_msgid e)"
      by (rule settled_paid_with [OF db settled [OF q]])
    have "dl_user_payment_gift_msgid d = Some h" and "dl_user_payment_gift_msgid e = Some h"
      using d e h by simp_all
    then show ?thesis using db d(1,2) e(1,2) unfolding deals_inv_def by (metis option.distinct(1))
  qed
  have paid: "paid_with (dw_db w) p \<noteq> (None, None)" if "p \<in> set (dw_payouts w)" for p
    by (rule settled_paid_with [OF db settled [OF that]]) (auto simp: evidence_def)
  show ?thesis
  proof (intro conjI)
    show "distinct (map payout_deal (dw_payouts w))" by (rule dist)
    show "list_all (\<lambda>p. paid_with (dw_db w) p \<noteq> (None, None)) (dw_payouts w)"
      using paid by (simp add: list_all_iff)
    show "list_all (\<lambda>p. case fst (paid_with (dw_db w) p) of None \<Rightarrow> True
        | Some h \<Rightarrow> tx_used_for (dw_db w) h (payout_deal p)) (dw_payouts w)"
      by (simp add: list_all_iff used split: option.split)
    show "distinct (List.map_filter (\<lambda>p. fst (paid_with (dw_db w) p)) (dw_payouts w))"
      by (rule distinct_map_filter_key [OF dist tx])
    show "distinct (List.map_filter (\<lambda>p. snd (paid_with (dw_db w) p)) (dw_payouts w))"
      by (rule distinct_map_filter_key [OF dist gift])
  qed
qed

end
