(* ===== verification/DealLife.thy ===== *)
theory DealLife
  imports DealSafety
begin

text \<open>
  The life cycle of a deal as an abstract machine, and that the program refines it: whatever runs, the
  status of a deal stays or takes one step of the cycle. One step of the program is outside of it and
  is singled out: a gift that was sent, after which telling the user fails.
\<close>

section \<open>The life cycle\<close>

fun life_cycle :: "deal_status \<Rightarrow> deal_status set" where
  "life_cycle Proposed = {Accepted, Declined, Expired, Cancelled}"
| "life_cycle Accepted = {Payment_claimed, Verified, Expired, Cancelled}"
| "life_cycle Payment_claimed = {Verified, Failed}"
| "life_cycle Verified = {Completed, Failed}"
| "life_cycle _ = {}"

definition stays :: "deal_status \<Rightarrow> deal_status \<Rightarrow> bool" where
  "stays s s' = (s' = s)"

definition moves :: "deal_status \<Rightarrow> deal_status \<Rightarrow> bool" where
  "moves s s' = (s' = s \<or> s' \<in> life_cycle s)"

definition moves_or_fails :: "deal_status \<Rightarrow> deal_status \<Rightarrow> bool" where
  "moves_or_fails s s' = (moves s s' \<or> s = Completed \<and> s' = Failed)"

text \<open>
  A deal under execution, or executed, is left alone by everything but its execution. \<open>K\<close> holds the
  deals that an operation may execute.
\<close>

definition frozen :: "deal \<Rightarrow> bool" where
  "frozen d = (dl_status d = Verified \<and> dl_agent_sent_at d \<noteq> None \<or> dl_status d = Completed)"

definition row_moves :: "(deal_status \<Rightarrow> deal_status \<Rightarrow> bool) \<Rightarrow> deal_id set \<Rightarrow> deal \<Rightarrow> deal \<Rightarrow> bool" where
  "row_moves R K d d' \<longleftrightarrow>
     dl_id d' = dl_id d \<and> R (dl_status d) (dl_status d') \<and>
     (frozen d \<and> dl_id d \<notin> K \<longrightarrow> frozen d' \<and> dl_status d' = dl_status d)"

definition evolves :: "(deal_status \<Rightarrow> deal_status \<Rightarrow> bool) \<Rightarrow> deal_id set \<Rightarrow> deals_db \<Rightarrow> deals_db \<Rightarrow> bool" where
  "evolves R K db db' \<longleftrightarrow>
     map dl_id (deals db') = map dl_id (deals db) \<and>
     (\<forall>d \<in> set (deals db). \<exists>d' \<in> set (deals db'). row_moves R K d d')"

lemma stays_simps [simp]: "stays s s" "moves s s" "moves_or_fails s s"
  by (simp_all add: stays_def moves_def moves_or_fails_def)

lemma moves_weaken: "moves s s' \<Longrightarrow> moves_or_fails s s'" "stays s s' \<Longrightarrow> moves s s'"
  by (simp_all add: stays_def moves_def moves_or_fails_def)

lemma row_moves_refl: "R (dl_status d) (dl_status d) \<Longrightarrow> row_moves R K d d"
  by (simp add: row_moves_def)

lemma evolves_refl: "(\<And>s. R s s) \<Longrightarrow> evolves R K db db"
  unfolding evolves_def by (blast intro: row_moves_refl)

lemma evolves_weaken: "evolves R K db db' \<Longrightarrow> (\<And>s s'. R s s' \<Longrightarrow> Q s s') \<Longrightarrow> evolves Q K db db'"
  unfolding evolves_def row_moves_def by blast

lemma evolves_trans_stays:
  assumes "evolves stays K a b" and "evolves R K b c"
  shows "evolves R K a c"
  unfolding evolves_def
proof (intro conjI ballI)
  show "map dl_id (deals c) = map dl_id (deals a)"
    using assms by (simp add: evolves_def)
next
  fix d assume "d \<in> set (deals a)"
  then obtain e where e: "e \<in> set (deals b)" "row_moves stays K d e"
    using assms(1) unfolding evolves_def by blast
  then obtain f where "f \<in> set (deals c)" "row_moves R K e f"
    using assms(2) unfolding evolves_def by blast
  then show "\<exists>d' \<in> set (deals c). row_moves R K d d'"
    using e by (auto simp: row_moves_def stays_def intro!: bexI [of _ f])
qed

lemma evolves_stays_trans:
  assumes "evolves R K a b" and "evolves stays K b c"
  shows "evolves R K a c"
  unfolding evolves_def
proof (intro conjI ballI)
  show "map dl_id (deals c) = map dl_id (deals a)"
    using assms by (simp add: evolves_def)
next
  fix d assume "d \<in> set (deals a)"
  then obtain e where e: "e \<in> set (deals b)" "row_moves R K d e"
    using assms(1) unfolding evolves_def by blast
  then obtain f where "f \<in> set (deals c)" "row_moves stays K e f"
    using assms(2) unfolding evolves_def by blast
  then show "\<exists>d' \<in> set (deals c). row_moves R K d d'"
    using e by (auto simp: row_moves_def stays_def intro!: bexI [of _ f])
qed

lemma evolves_same: "deals db' = deals db \<Longrightarrow> (\<And>s. R s s) \<Longrightarrow> evolves R K db db'"
  unfolding evolves_def by (auto intro: row_moves_refl)

lemma evolves_update:
  assumes "\<And>d. d \<in> set (deals db) \<Longrightarrow> p d \<Longrightarrow> row_moves R K d (f d)" and "\<And>s. R s s"
  shows "evolves R K db (db\<lparr>deals := sql_update_where p f (deals db)\<rparr>)"
  unfolding evolves_def
proof (intro conjI ballI)
  show "map dl_id (deals (db\<lparr>deals := sql_update_where p f (deals db)\<rparr>)) = map dl_id (deals db)"
    using assms(1) by (auto simp: sql_update_where_def row_moves_def)
next
  fix d assume d: "d \<in> set (deals db)"
  let ?d' = "if p d then f d else d"
  have "row_moves R K d ?d'" using assms d by (simp add: row_moves_refl)
  moreover have "?d' \<in> set (deals (db\<lparr>deals := sql_update_where p f (deals db)\<rparr>))"
    using d by (auto simp: sql_update_where_def)
  ultimately show "\<exists>d' \<in> set (deals (db\<lparr>deals := sql_update_where p f (deals db)\<rparr>)). row_moves R K d d'"
    by blast
qed

lemma evolves_change:
  assumes "\<And>d. d \<in> set (deals db) \<Longrightarrow> dl_id d = i \<Longrightarrow> p d \<Longrightarrow> row_moves R K d (f d)" and "\<And>s. R s s"
  shows "evolves R K db (snd (change_deal i p f db))"
  unfolding change_deal_def Let_def snd_conv by (rule evolves_update) (use assms in auto)

lemma only_deal:
  assumes "deals_inv db" and "get_deal db i = Some d" and "e \<in> set (deals db)" and "dl_id e = i"
  shows "e = d"
  using assms get_dealD [OF assms(2)] by (auto simp: deals_inv_def distinct_map inj_on_def)

section \<open>The operations follow the life cycle\<close>

lemmas life_simps = row_moves_def moves_def stays_def frozen_def

lemma evolves_acceptDeal: "evolves moves K db (snd (acceptDeal now i db))"
  and evolves_declineDeal: "evolves moves K db (snd (declineDeal i db))"
  and evolves_claimPayment: "evolves moves K db (snd (claimPayment now i db))"
  and evolves_expireDeal: "evolves moves K db (snd (expireDeal i db))"
  and evolves_setInline: "evolves stays K db (setInlineMessageId i m db)"
  and evolves_set_proposal: "evolves stays K db (set_proposal_message i n db)"
  unfolding acceptDeal_def declineDeal_def claimPayment_def expireDeal_def setInlineMessageId_def
    set_proposal_message_def
  by (rule evolves_change; auto simp: life_simps)+

lemma evolves_expire_stale: "evolves moves K db (expire_stale now db)"
  unfolding expire_stale_def by (rule evolves_update) (auto simp: life_simps)

lemma evolves_stats: "(\<And>s. R s s) \<Longrightarrow> evolves R K db (updateUserStats now u n d c db)"
  by (rule evolves_same) (simp_all add: updateUserStats_def Let_def)

lemma evolves_dealCancel:
  assumes "deals_inv db"
  shows "evolves moves K db (snd (dealCancel sender admins i reason db))"
proof (cases "loadDealForActor db i sender admins")
  case (Inl e)
  then show ?thesis by (simp add: dealCancel_def evolves_refl)
next
  case (Inr d)
  then have d: "get_deal db i = Some d" by (simp add: loadDealForActor_def split: option.splits if_splits)
  show ?thesis
    using Inr only_deal [OF assms d]
    by (auto simp: dealCancel_def Let_def evolves_refl life_simps intro!: evolves_change)
qed

lemma evolves_handle_callback:
  shows "evolves moves K db (snd (handle_callback now u a i m db))"
proof -
  define db1 where "db1 = (case non_empty m of Some m \<Rightarrow> setInlineMessageId i m db | None \<Rightarrow> db)"
  have "evolves stays K db db1"
    by (simp add: db1_def evolves_setInline evolves_refl split: option.split)
  moreover have "evolves moves K db1 (snd (handle_callback now u a i m db))"
    by (auto simp: handle_callback_def db1_def [symmetric] Let_def handle_action_def evolves_refl
        evolves_acceptDeal evolves_declineDeal evolves_claimPayment evolves_expireDeal
        split: option.split callback_action.split)
  ultimately show ?thesis by (rule evolves_trans_stays)
qed

lemma evolves_handle_inline_query: "evolves moves K db (handle_inline_query now q db)"
  by (simp add: handle_inline_query_def Let_def evolves_expireDeal evolves_refl split: option.split)

lemma deals_verifyPayment: "deals (snd (verifyPayment now b r g i txs db)) = deals db"
  by (induction now b r g i txs db rule: verifyPayment.induct) auto

lemma evolves_mark: "st \<in> {Accepted, Payment_claimed} \<Longrightarrow> evolves moves K db (snd (mark_ton_verified now i pm st db))"
  unfolding mark_ton_verified_def by (rule evolves_change) (auto simp: life_simps)

lemma evolves_claimGift: "st \<in> {Accepted, Payment_claimed} \<Longrightarrow> evolves moves K db (snd (claimGiftPayment now i m st db))"
  unfolding claimGiftPayment_def by (rule evolves_change) (auto simp: life_simps)

lemma evolves_begin: "evolves stays K db (snd (executeDeal_begin now i db))"
proof -
  have lock: "evolves stays K db (snd (change_deal i (\<lambda>d. dl_status d = Verified \<and> dl_agent_sent_at d = None)
      (\<lambda>d. d\<lparr>dl_agent_sent_at := Some (secs now)\<rparr>) db))"
    by (rule evolves_change) (auto simp: life_simps)
  then show ?thesis
    by (auto simp: executeDeal_begin_def evolves_refl split: option.split prod.split bool.split asset_type.split)
qed

lemma evolves_execution_failed: "evolves moves {i} db (execution_failed i m db)"
  unfolding execution_failed_def by (rule evolves_change) (auto simp: life_simps)

lemma evolves_gift_failed:
  assumes "deals_inv db" and "get_deal db i = Some d" and "dl_status d \<in> {Verified, Completed}"
  shows "evolves (if dl_status d = Completed then moves_or_fails else moves) {i} db (gift_failed i m db)"
  unfolding gift_failed_def
  by (rule evolves_change) (use only_deal [OF assms(1,2)] assms(3) in \<open>auto simp: life_simps moves_or_fails_def\<close>)

lemma evolves_ton_sent:
  assumes "deals_inv db" and "get_deal db i = Some d" and "dl_status d = Verified"
  shows "evolves moves {i} db (snd (ton_sent now i r db))"
  using only_deal [OF assms(1,2)] assms(3)
  by (auto simp: ton_sent_def Let_def evolves_execution_failed life_simps split: send_result.split
      intro!: evolves_change)

lemma evolves_gift_sent:
  assumes "deals_inv db" and "get_deal db i = Some d" and "dl_status d = Verified"
  shows "evolves moves {i} db (snd (gift_sent now i r db))"
  using only_deal [OF assms(1,2)] assms(3) evolves_gift_failed [OF assms(1,2)]
  by (auto simp: gift_sent_def evolves_execution_failed life_simps split: gift_result.split
      intro!: evolves_change)

section \<open>Executions in flight\<close>

text \<open>
  The job of an execution stands for a deal that is locked and verified while the agent's part is being
  sent, and completed afterwards; no deal has two of them.
\<close>

fun exec_of :: "job \<Rightarrow> deal_id option" where
  "exec_of (Paying_ton _ i) = Some i"
| "exec_of (Paying_gift _ i) = Some i"
| "exec_of (Telling_ton _ i) = Some i"
| "exec_of (Telling_gift _ i) = Some i"
| "exec_of _ = None"

fun paying :: "job \<Rightarrow> bool" where
  "paying (Paying_ton _ _) = True"
| "paying (Paying_gift _ _) = True"
| "paying _ = False"

definition exec_ok :: "deals_db \<Rightarrow> job \<Rightarrow> bool" where
  "exec_ok db j =
     (case exec_of j of
        None \<Rightarrow> True
      | Some i \<Rightarrow> \<exists>d \<in> set (deals db). dl_id d = i \<and>
          (if paying j then dl_status d = Verified \<and> dl_agent_sent_at d \<noteq> None else dl_status d = Completed))"

definition exec_ids :: "deal_world \<Rightarrow> deal_id list" where
  "exec_ids w = List.map_filter exec_of (dw_jobs w)"

definition flow :: "deal_world \<Rightarrow> bool" where
  "flow w \<longleftrightarrow> deals_inv (dw_db w) \<and> distinct (exec_ids w) \<and> list_all (exec_ok (dw_db w)) (dw_jobs w)"

lemma map_filter_append [simp]: "List.map_filter f (xs @ ys) = List.map_filter f xs @ List.map_filter f ys"
  by (simp add: map_filter_def)

lemma exec_ids_simps [simp]:
  "exec_ids (add_jobs js w) = exec_ids w @ List.map_filter exec_of js"
  "exec_ids (set_retry i n w) = exec_ids w" "exec_ids (set_deals_db db w) = exec_ids w"
  by (simp_all add: exec_ids_def map_filter_def)

lemma exec_ok_evolves:
  assumes "evolves R K db db'" and "exec_ok db j" and "\<And>i. exec_of j = Some i \<Longrightarrow> i \<notin> K"
  shows "exec_ok db' j"
proof (cases "exec_of j")
  case None
  then show ?thesis by (simp add: exec_ok_def)
next
  case (Some i)
  then obtain d where d: "d \<in> set (deals db)" "dl_id d = i"
    "if paying j then dl_status d = Verified \<and> dl_agent_sent_at d \<noteq> None else dl_status d = Completed"
    using assms(2) by (auto simp: exec_ok_def)
  then have "frozen d \<and> dl_id d \<notin> K" using assms(3) [OF Some] by (auto simp: frozen_def split: if_splits)
  then obtain d' where "d' \<in> set (deals db')" "dl_id d' = i" "frozen d'" "dl_status d' = dl_status d"
    using assms(1) d(1,2) unfolding evolves_def row_moves_def by metis
  then show ?thesis using Some d(3) by (auto simp: exec_ok_def frozen_def split: if_splits)
qed

lemma flow_db:
  assumes "flow w" and "deals_inv db" and "evolves R K (dw_db w) db"
    and "K \<inter> set (exec_ids w) = {}"
  shows "flow (set_deals_db db w)"
proof -
  have "exec_ok db j" if j: "j \<in> set (dw_jobs w)" for j
  proof (rule exec_ok_evolves [OF assms(3)])
    show "exec_ok (dw_db w) j" using assms(1) j by (simp add: flow_def list_all_iff)
    show "i \<notin> K" if "exec_of j = Some i" for i
      using that j assms(4) by (force simp: exec_ids_def map_filter_def)
  qed
  then show ?thesis using assms by (simp add: flow_def list_all_iff)
qed

lemma flow_good:
  assumes "flow w" and "good (dw_db w) db" and "evolves R {} (dw_db w) db"
  shows "flow (set_deals_db db w)"
  by (rule flow_db [OF assms(1) _ assms(3)]) (use assms(1,2) in \<open>auto simp: flow_def good_def\<close>)

lemma flow_add_jobs:
  assumes "flow w" and "list_all (\<lambda>j. exec_of j = None) js"
  shows "flow (add_jobs js w)"
proof -
  have "List.map_filter exec_of js = []" "list_all (exec_ok (dw_db w)) js"
    using assms(2) by (auto simp: list_all_iff exec_ok_def map_filter_def)
  then show ?thesis using assms(1) by (simp add: flow_def)
qed

lemma flow_retry: "flow w \<Longrightarrow> flow (set_retry i n w)"
  by (simp add: flow_def)

lemma flow_not_verified: "flow w \<Longrightarrow> flow (not_verified n d ds w)"
  and flow_verified_done: "flow w \<Longrightarrow> flow (verified_done d ds w)"
  by (simp_all add: not_verified_def verified_done_def flow_retry flow_add_jobs)

lemma flow_take_job: "flow w \<Longrightarrow> flow (take_job k w)"
  and exec_taken: "flow w \<Longrightarrow> k < length (dw_jobs w) \<Longrightarrow> exec_of (dw_jobs w ! k) = Some i \<Longrightarrow>
     i \<notin> set (exec_ids (take_job k w))"
proof -
  have split: "dw_jobs w = take k (dw_jobs w) @ dw_jobs w ! k # drop (Suc k) (dw_jobs w)" if "k < length (dw_jobs w)"
    using that by (rule id_take_nth_drop)
  have ids: "exec_ids w = List.map_filter exec_of (take k (dw_jobs w)) @
      List.map_filter exec_of [dw_jobs w ! k] @ List.map_filter exec_of (drop (Suc k) (dw_jobs w))"
    if "k < length (dw_jobs w)"
    unfolding exec_ids_def by (subst split [OF that]) (simp add: map_filter_def)
  have taken: "exec_ids (take_job k w) =
      List.map_filter exec_of (take k (dw_jobs w)) @ List.map_filter exec_of (drop (Suc k) (dw_jobs w))"
    by (simp add: exec_ids_def take_job_def map_filter_def)
  have none: "take_job k w = w" if "\<not> k < length (dw_jobs w)"
    using that by (simp add: take_job_def)
  show "flow (take_job k w)" if "flow w"
    using that ids taken none
    by (cases "k < length (dw_jobs w)")
      (auto simp: flow_def list_all_iff dest: in_set_takeD in_set_dropD simp: take_job_def)
  show "i \<notin> set (exec_ids (take_job k w))"
    if "flow w" "k < length (dw_jobs w)" "exec_of (dw_jobs w ! k) = Some i"
    using that ids taken by (auto simp: flow_def map_filter_simps)
qed

section \<open>Steps\<close>

text \<open>
  A piece of a step follows the life cycle when the flow goes on and the rows evolve; pieces compose as
  long as only one of them changes a status.
\<close>

definition follows :: "(deal_status \<Rightarrow> deal_status \<Rightarrow> bool) \<Rightarrow> deal_world \<Rightarrow> deal_world \<Rightarrow> bool" where
  "follows R w w' \<longleftrightarrow> flow w' \<and> evolves R {} (dw_db w) (dw_db w')"

lemma follows_moves: "follows stays w w' \<Longrightarrow> follows moves w w'"
  unfolding follows_def by (blast intro: evolves_weaken moves_weaken)

lemma follows_stays: "flow w' \<Longrightarrow> dw_db w' = dw_db w \<Longrightarrow> follows stays w w'"
  by (simp add: follows_def evolves_refl)

lemma follows_trans: "follows R a b \<Longrightarrow> follows stays b c \<Longrightarrow> follows R a c"
  unfolding follows_def by (blast intro: evolves_stays_trans)

lemma follows_db:
  "flow w \<Longrightarrow> good (dw_db w) db \<Longrightarrow> evolves R {} (dw_db w) db \<Longrightarrow> follows R w (set_deals_db db w)"
  by (simp add: follows_def flow_good)

lemma follows_add_jobs:
  "flow w \<Longrightarrow> list_all (\<lambda>j. exec_of j = None) js \<Longrightarrow> follows stays w (add_jobs js w)"
  by (rule follows_stays) (simp_all add: flow_add_jobs)

lemma follows_not_verified: "flow w \<Longrightarrow> follows stays w (not_verified n d ds w)"
  and follows_verified_done: "flow w \<Longrightarrow> follows stays w (verified_done d ds w)"
  by (rule follows_stays; (erule flow_not_verified flow_verified_done)?; simp add: not_verified_def verified_done_def)+

lemma follows_execution_done:
  assumes "flow w"
  shows "follows stays w (execution_done now orig b w)"
proof (cases orig)
  case By_tool
  then show ?thesis using assms by (simp add: follows_stays)
next
  case (By_poller n d rest)
  let ?w = "set_deals_db (updateUserStats now (dl_user_telegram_id d) (dl_user_username d) d True (dw_db w)) w"
  have "follows stays w ?w" by (rule follows_db) (simp_all add: assms evolves_stats)
  then show ?thesis
    using assms By_poller follows_verified_done [of ?w d rest] follows_verified_done [of w d rest]
    by (cases b) (auto simp: follows_def intro: evolves_stays_trans)
qed

lemma executeDeal_begin_locks:
  assumes pay: "executeDeal_begin now i db = (Inr p, db')"
  obtains d where "d \<in> set (deals db)" and "dl_id d = i" and "dl_status d = Verified"
    and "dl_agent_sent_at d = None" and "d\<lparr>dl_agent_sent_at := Some (secs now)\<rparr> \<in> set (deals db')"
proof -
  let ?f = "\<lambda>d. d\<lparr>dl_agent_sent_at := Some (secs now)\<rparr>"
  let ?hit = "\<lambda>d. dl_id d = i \<and> dl_status d = Verified \<and> dl_agent_sent_at d = None"
  from pay obtain d where d: "get_deal db i = Some d" and st: "dl_status d = Verified"
    by (auto simp: executeDeal_begin_def throw_def split: option.splits if_splits)
  from pay d st have hit: "filter ?hit (deals db) \<noteq> []"
    and db': "db' = db\<lparr>deals := sql_update_where ?hit ?f (deals db)\<rparr>"
    by (auto simp: executeDeal_begin_def change_deal_def Let_def throw_def ret_def
        split: option.splits if_splits prod.splits bool.splits asset_type.splits)
  from hit obtain e where e: "e \<in> set (deals db)" "?hit e"
    by (auto simp: filter_empty_conv)
  moreover have "?f e \<in> set (deals db')"
    using e by (force simp: db' set_update_where)
  ultimately show ?thesis using that by blast
qed

lemma follows_start_execution:
  assumes "flow w"
  shows "follows stays w (start_execution now orig i w)"
proof (cases "executeDeal_begin now i (dw_db w)")
  case (Pair r db)
  have db: "follows stays w (set_deals_db db w)"
    using assms good_executeDeal_begin [of "dw_db w" now i] evolves_begin [of "{}" "dw_db w" now i] Pair
    by (auto intro: follows_db)
  show ?thesis
  proof (cases r)
    case (Inl e)
    have "follows stays (set_deals_db db w) (execution_done now orig False (set_deals_db db w))"
      by (rule follows_execution_done) (use db in \<open>simp add: follows_def\<close>)
    then show ?thesis using Inl Pair db by (auto simp: start_execution_def intro: follows_trans)
  next
    case (Inr p)
    define j where "j = (case p of Pay_ton _ _ _ \<Rightarrow> Paying_ton orig i | Pay_gift _ _ _ \<Rightarrow> Paying_gift orig i)"
    let ?w = "w\<lparr>dw_db := db, dw_payouts := dw_payouts w @ [p]\<rparr>"
    have w': "start_execution now orig i w = add_jobs [j] ?w"
      using Pair Inr by (simp add: start_execution_def j_def)
    have j: "exec_of j = Some i" "paying j" by (simp_all add: j_def split: payout.split)
    obtain d where d: "d \<in> set (deals (dw_db w))" "dl_id d = i" "dl_status d = Verified" "dl_agent_sent_at d = None"
      and d': "d\<lparr>dl_agent_sent_at := Some (secs now)\<rparr> \<in> set (deals db)"
      using executeDeal_begin_locks Pair Inr by blast
    have fresh: "i \<notin> set (exec_ids w)"
    proof
      assume "i \<in> set (exec_ids w)"
      then obtain k where "k \<in> set (dw_jobs w)" "exec_of k = Some i"
        by (auto simp: exec_ids_def map_filter_def)
      then obtain e where e: "e \<in> set (deals (dw_db w))" "dl_id e = i"
        and "dl_status e \<noteq> Verified \<or> dl_agent_sent_at e \<noteq> None"
        using assms by (auto simp: flow_def list_all_iff exec_ok_def split: if_splits dest!: bspec)
      moreover have "e = d"
        using assms d e by (auto simp: flow_def deals_inv_def distinct_map inj_on_def)
      ultimately show False using d by simp
    qed
    have "flow (set_deals_db db w)" using db by (simp add: follows_def)
    moreover have "exec_ok db j" using d d' j by (auto simp: exec_ok_def intro!: bexI [OF _ d'])
    ultimately have "flow (add_jobs [j] ?w)"
      using fresh j by (simp add: flow_def exec_ids_def map_filter_simps set_deals_db_def add_jobs_def)
    then show ?thesis using db w' by (simp add: follows_def)
  qed
qed

lemma follows_after_verified:
  assumes "flow w"
  shows "follows stays w (after_verified now orig i w)"
  using assms by (cases orig) (auto simp: after_verified_def follows_start_execution intro: follows_add_jobs)

lemma evolves_mono: "evolves R K db db' \<Longrightarrow> K \<subseteq> K' \<Longrightarrow> evolves R K' db db'"
  unfolding evolves_def row_moves_def by blast

lemma follows_then:
  assumes "follows R w (set_deals_db db w)" and "flow (set_deals_db db w) \<Longrightarrow> follows stays (set_deals_db db w) w'"
  shows "follows R w w'"
  by (rule follows_trans [OF assms(1) assms(2)]) (use assms(1) in \<open>simp add: follows_def\<close>)

lemma follows_write_paid:
  assumes "flow w" and "tx_used_for (dw_db w) (pm_txHash pm) i" and "gives_ton (dw_db w) i"
  shows "follows moves w (write_paid now orig i pm w)"
proof (cases "mark_ton_verified now i pm (expected_status orig) (dw_db w)")
  case (Pair b db)
  have "follows moves w (set_deals_db db w)"
    using follows_db [OF assms(1) good_mark_ton_verified [OF assms(2,3) expected_open [of orig]]
        evolves_mark [OF expected_open [of orig]], of now] Pair by simp
  then show ?thesis
    using Pair by (cases b) (auto simp: write_paid_def intro: follows_then follows_after_verified follows_execution_done)
qed

lemma follows_write_gift:
  assumes "flow w" and "m \<noteq> None"
  shows "follows moves w (write_gift now orig i m w)"
proof (cases "claimGiftPayment now i m (expected_status orig) (dw_db w)")
  case (Pair b db)
  have "follows moves w (set_deals_db db w)"
    using follows_db [OF assms(1) good_claimGiftPayment [OF assms(2) expected_open [of orig]]
        evolves_claimGift [OF expected_open [of orig]], of now i] Pair by simp
  then show ?thesis
    using Pair by (cases b) (auto simp: write_gift_def intro: follows_then follows_after_verified follows_execution_done)
qed

lemma follows_chain_read:
  assumes "flow w"
  shows "follows stays w (chain_read now orig d txs w)"
proof (cases "verifyPayment now (or_zero (dl_user_gives_ton_amount d)) (dl_created_at d * 1000)
             (''deal:'' @ dl_id d) (dl_id d) txs (dw_db w)")
  case (Pair r db)
  have "good (dw_db w) db"
    using good_verifyPayment [of "dw_db w" now] Pair by (metis snd_conv)
  moreover have "deals db = deals (dw_db w)"
    using deals_verifyPayment [of now] Pair by (metis snd_conv)
  ultimately have db: "follows stays w (set_deals_db db w)"
    using assms by (intro follows_db evolves_same) simp_all
  show ?thesis
  proof (cases r)
    case None
    then show ?thesis using Pair db
      by (cases orig) (auto simp: chain_read_def intro: follows_then follows_not_verified)
  next
    case (Some pm)
    then show ?thesis using Pair db
      by (auto simp: chain_read_def intro!: follows_then [OF db] follows_add_jobs)
  qed
qed

lemma follows_gifts_read:
  assumes "flow w" and "list_all (\<lambda>g. ge_msgId g \<noteq> None) gifts"
  shows "follows moves w (gifts_read now orig d gifts w)"
proof (cases orig)
  case By_tool
  then show ?thesis
    using assms verifyGiftPayment_named follows_write_gift [OF assms(1)]
    by (simp add: gifts_read_def follows_moves [OF follows_stays] split: option.split)
next
  case (By_poller n e rest)
  have "ge_msgId g \<noteq> None" if "poller_gift (dw_db w) d' gifts = Some g" for g d'
    using that by (auto simp: poller_gift_def find_Some_iff)
  then show ?thesis
    using assms(1) By_poller
    by (auto simp: gifts_read_def split: option.split intro!: follows_moves follows_add_jobs follows_not_verified)
qed

lemma follows_poll_next:
  assumes "flow w"
  shows "follows moves w (poll_next cfg wallet ds w)"
proof (cases ds)
  case Nil
  then show ?thesis using assms by (simp add: poll_next_def Let_def follows_moves follows_stays)
next
  case (Cons d rest)
  let ?p = "\<lambda>d. dl_status d = Payment_claimed"
  let ?f = "\<lambda>d. d\<lparr>dl_status := Failed, dl_notes := Some [S ''Payment verification timeout'']\<rparr>"
  obtain b db where c: "change_deal (dl_id d) ?p ?f (dw_db w) = (b, db)" by fastforce
  have "good (dw_db w) (snd (change_deal (dl_id d) ?p ?f (dw_db w)))"
    by (rule good_change) (auto simp: change_harmless)
  moreover have "evolves moves {} (dw_db w) (snd (change_deal (dl_id d) ?p ?f (dw_db w)))"
    by (rule evolves_change) (auto simp: life_simps)
  ultimately have db: "follows moves w (set_deals_db db w)" using c assms by (auto intro: follows_db)
  have timeout: "follows moves w (add_jobs [Telling_timeout d rest] (set_deals_db db w))"
    by (auto intro!: follows_then [OF db] follows_add_jobs)
  have dealt: "follows moves w (verified_done d rest (set_deals_db db w))"
    by (auto intro!: follows_then [OF db] follows_verified_done)
  have job: "follows moves w (add_jobs [j] w)" if "exec_of j = None" for j
    using assms that by (auto intro!: follows_moves follows_add_jobs)
  show ?thesis
    using Cons c timeout dealt job follows_moves [OF follows_not_verified [OF assms]]
    by (auto simp: poll_next_def Let_def split: asset_type.split bool.split)
qed

lemma follows_tool_verify:
  assumes "flow w"
  shows "follows moves w (tool_verify now sender admins i wallet w)"
proof -
  let ?c = "change_deal i (\<lambda>d. dl_status d = Accepted) (\<lambda>d. d\<lparr>dl_status := Expired\<rparr>) (dw_db w)"
  have "good (dw_db w) (snd ?c)" by (rule good_change) (auto simp: change_harmless)
  moreover have "evolves moves {} (dw_db w) (snd ?c)" by (rule evolves_change) (auto simp: life_simps)
  ultimately have expired: "follows moves w (set_deals_db (snd ?c) w)" by (rule follows_db [OF assms])
  have same: "follows moves w w" by (rule follows_moves [OF follows_stays]) (simp_all add: assms)
  have job: "follows moves w (add_jobs [j] w)" if "exec_of j = None" for j
    using assms that by (auto intro!: follows_moves follows_add_jobs)
  show ?thesis
    using same job expired by (simp add: tool_verify_def split: sum.split asset_type.split)
qed

section \<open>Executions go on\<close>

definition flows :: "(deal_status \<Rightarrow> deal_status \<Rightarrow> bool) \<Rightarrow> deal_id set \<Rightarrow> deal_world \<Rightarrow> deal_world \<Rightarrow> bool" where
  "flows R K w w' \<longleftrightarrow> flow w' \<and> evolves R K (dw_db w) (dw_db w')"

lemma follows_flows: "follows R w w' \<Longrightarrow> flows R K w w'"
  unfolding follows_def flows_def by (blast intro: evolves_mono)

lemma flow_add_exec:
  assumes "flow w" and "exec_of j = Some i" and "i \<notin> set (exec_ids w)" and "exec_ok (dw_db w) j"
  shows "flow (add_jobs [j] w)"
  using assms by (simp add: flow_def map_filter_simps)

lemma flows_continue:
  assumes w: "flow w" "i \<notin> set (exec_ids w)" and db: "good (dw_db w) (snd r)" "evolves R {i} (dw_db w) (snd r)"
    and js: "fst r = Inr () \<Longrightarrow> js = [] \<or> (\<exists>j. js = [j] \<and> exec_of j = Some i \<and> exec_ok (snd r) j)"
  shows "flows R {i} w (continue_execution now orig r js w)"
proof -
  let ?w = "set_deals_db (snd r) w"
  have flow: "flow ?w" by (rule flow_db [OF w(1) _ db(2)]) (use w db in \<open>auto simp: flow_def good_def\<close>)
  have ended: "flows R {i} w (execution_done now orig b ?w)" for b
    using follows_execution_done [OF flow, of now orig b] db(2) evolves_mono [of stays "{}" _ _ "{i}"]
    by (auto simp: follows_def flows_def intro: evolves_stays_trans)
  have more: "flows R {i} w (add_jobs [j] ?w)" if "exec_of j = Some i" "exec_ok (snd r) j" for j
    using flow_add_exec [OF flow that(1)] that w(2) db(2) by (simp add: flows_def)
  obtain x db' where "r = (x, db')" by fastforce
  then show ?thesis
    using ended more js by (cases x) (auto simp: continue_execution_def)
qed

lemma exec_ok_paying:
  assumes "exec_ok db j" and "exec_of j = Some i" and "paying j" and "deals_inv db"
  obtains d where "get_deal db i = Some d" and "dl_status d = Verified"
proof -
  obtain d where d: "d \<in> set (deals db)" "dl_id d = i" "dl_status d = Verified"
    using assms(1-3) by (auto simp: exec_ok_def)
  then have "get_deal db i = Some d"
    unfolding get_deal_def using sql_get_unique [of dl_id "deals db" d] assms(4) by (simp add: deals_inv_def)
  then show ?thesis using d that by blast
qed

lemma exec_ok_telling:
  assumes "exec_ok db j" and "exec_of j = Some i" and "\<not> paying j" and "deals_inv db"
  obtains d where "get_deal db i = Some d" and "dl_status d = Completed"
proof -
  obtain d where d: "d \<in> set (deals db)" "dl_id d = i" "dl_status d = Completed"
    using assms(1-3) by (auto simp: exec_ok_def)
  then have "get_deal db i = Some d"
    unfolding get_deal_def using sql_get_unique [of dl_id "deals db" d] assms(4) by (simp add: deals_inv_def)
  then show ?thesis using d that by blast
qed

lemma completed_row:
  assumes "get_deal db i = Some d" and "\<And>d. dl_id (f d) = dl_id d" and "\<And>d. dl_status (f d) = Completed"
  shows "\<exists>e \<in> set (deals (snd (change_deal i (\<lambda>_. True) f db))). dl_id e = i \<and> dl_status e = Completed"
  using get_dealD [OF assms(1)] assms(2,3)
  by (auto simp: change_deal_def Let_def sql_update_where_def intro!: bexI [of _ "f d"] image_eqI [of _ _ d])

lemma ton_sent_ok:
  "get_deal db i = Some d \<Longrightarrow> fst (ton_sent now i r db) = Inr () \<Longrightarrow>
   exec_ok (snd (ton_sent now i r db)) (Telling_ton orig i)"
  by (auto simp: ton_sent_def exec_ok_def Let_def throw_def ret_def split: send_result.splits intro!: completed_row)

lemma gift_sent_ok:
  "get_deal db i = Some d \<Longrightarrow> fst (gift_sent now i r db) = Inr () \<Longrightarrow>
   exec_ok (snd (gift_sent now i r db)) (Telling_gift orig i)"
  by (auto simp: gift_sent_def exec_ok_def throw_def ret_def split: gift_result.splits intro!: completed_row)

fun late_failure :: "job \<Rightarrow> answer \<Rightarrow> bool" where
  "late_failure (Telling_gift _ _) (Told (Some _)) = True"
| "late_failure _ _ = False"

lemma late_failure_told: "late_failure (Telling_gift orig i) (Told m) = (m \<noteq> None)"
  by (cases m) simp_all

definition allowed :: "job \<Rightarrow> answer \<Rightarrow> deal_status \<Rightarrow> deal_status \<Rightarrow> bool" where
  "allowed j a = (if late_failure j a then moves_or_fails else moves)"

lemma allowed_simps [simp]: "\<not> late_failure j a \<Longrightarrow> allowed j a = moves"
  "allowed (Telling_gift orig i) (Told (Some m)) = moves_or_fails"
  by (simp_all add: allowed_def)

lemma allowed_refl [simp]: "allowed j a s s"
  by (simp add: allowed_def)

lemma flows_add_back:
  assumes "flow w" and "exec_ok (dw_db w) j"
    and "\<And>i. exec_of j = Some i \<Longrightarrow> i \<notin> set (exec_ids w)"
  shows "flows (allowed j a) K w (add_jobs [j] w)"
  using assms flow_add_exec [OF assms(1)] flow_add_jobs [OF assms(1), of "[j]"]
  by (cases "exec_of j") (auto simp: flows_def evolves_refl)

lemma flows_sent:
  assumes w: "flow w" "i \<notin> set (exec_ids w)" and j: "exec_ok (dw_db w) j" "exec_of j = Some i" "paying j"
  shows "flows moves {i} w (continue_execution now orig (ton_sent now i r (dw_db w)) [Telling_ton orig i] w)"
    and "flows moves {i} w (continue_execution now orig (gift_sent now i g (dw_db w)) [Telling_gift orig i] w)"
proof -
  have inv: "deals_inv (dw_db w)" using w by (simp add: flow_def)
  obtain d where d: "get_deal (dw_db w) i = Some d" "dl_status d = Verified"
    by (rule exec_ok_paying [OF j inv])
  show "flows moves {i} w (continue_execution now orig (ton_sent now i r (dw_db w)) [Telling_ton orig i] w)"
    by (intro flows_continue w good_ton_sent evolves_ton_sent [OF inv d]) (simp add: ton_sent_ok [OF d(1)])
  show "flows moves {i} w (continue_execution now orig (gift_sent now i g (dw_db w)) [Telling_gift orig i] w)"
    by (intro flows_continue w good_gift_sent evolves_gift_sent [OF inv d]) (simp add: gift_sent_ok [OF d(1)])
qed

lemma flows_told:
  assumes w: "flow w" "i \<notin> set (exec_ids w)" and j: "exec_ok (dw_db w) j" "exec_of j = Some i" "\<not> paying j"
  shows "flows moves {i} w (continue_execution now orig (ton_notified i e (dw_db w)) [] w)"
    and "flows (allowed (Telling_gift orig i) (Told e)) {i} w
           (continue_execution now orig (gift_notified i e (dw_db w)) [] w)"
proof -
  have inv: "deals_inv (dw_db w)" using w by (simp add: flow_def)
  obtain d where d: "get_deal (dw_db w) i = Some d" "dl_status d = Completed"
    by (rule exec_ok_telling [OF j inv])
  have "evolves moves {i} (dw_db w) (snd (ton_notified i e (dw_db w)))"
    by (simp add: ton_notified_def evolves_refl evolves_execution_failed split: option.split)
  then show "flows moves {i} w (continue_execution now orig (ton_notified i e (dw_db w)) [] w)"
    by (intro flows_continue w good_ton_notified) simp_all
  have "evolves (allowed (Telling_gift orig i) (Told e)) {i} (dw_db w) (snd (gift_notified i e (dw_db w)))"
    using evolves_gift_failed [OF inv d(1)] d(2)
    by (simp add: gift_notified_def allowed_def late_failure_told evolves_refl split: option.split)
  then show "flows (allowed (Telling_gift orig i) (Told e)) {i} w
       (continue_execution now orig (gift_notified i e (dw_db w)) [] w)"
    by (intro flows_continue w good_gift_notified) simp_all
qed

lemma flows_execution:
  assumes w: "flow w" "i \<notin> set (exec_ids w)" and j: "exec_ok (dw_db w) j" "exec_of j = Some i"
  shows "flows (allowed j a) {i} w (resume cfg now j a w)"
proof -
  have waits: "flows (allowed j a) {i} w (add_jobs [j] w)"
    by (rule flows_add_back) (use w j in \<open>cases j; auto\<close>)+
  show ?thesis
    using j(2) waits flows_sent [OF w j] flows_told(1) [OF w j]
      flows_told(2) [OF w j]
    by (cases j; cases a) (auto simp: resume_def)
qed

lemma follows_resume:
  assumes "flow w" and "job_inv (dw_db w) j" and "exec_of j = None"
    and "case a of Gifts gs \<Rightarrow> list_all (\<lambda>g. ge_msgId g \<noteq> None) gs | _ \<Rightarrow> True"
  shows "follows moves w (resume cfg now j a w)"
proof -
  have plain: "follows moves w (add_jobs [j] w)"
    using assms by (intro follows_moves follows_add_jobs) simp_all
  note parts = follows_poll_next follows_write_paid follows_write_gift follows_gifts_read
    follows_moves [OF follows_chain_read] follows_moves [OF follows_start_execution]
    follows_moves [OF follows_verified_done] follows_moves [OF follows_stays]
  show ?thesis
    using assms plain by (cases j; cases a) (auto simp: resume_def parts split: option.split)
qed

lemma flows_resume:
  assumes w: "flow w" and inv: "deal_inv w" and k: "k < length (dw_jobs w)"
    and a: "case a of Gifts gs \<Rightarrow> list_all (\<lambda>g. ge_msgId g \<noteq> None) gs | _ \<Rightarrow> True"
  shows "flows (allowed (dw_jobs w ! k) a) (set_option (exec_of (dw_jobs w ! k))) w
           (resume cfg now (dw_jobs w ! k) a (take_job k w))"
proof -
  let ?j = "dw_jobs w ! k"
  have j: "job_inv (dw_db w) ?j" "exec_ok (dw_db w) ?j"
    using w inv k by (simp_all add: flow_def deal_inv_def list_all_length)
  note w' = flow_take_job [OF w, of k]
  show ?thesis
  proof (cases "exec_of ?j")
    case None
    then have "follows moves w (resume cfg now ?j a (take_job k w))"
      using follows_resume [OF w' _ _ a, of ?j cfg now] j by (simp add: follows_def)
    moreover have "\<not> late_failure ?j a" using None by (cases ?j) auto
    ultimately show ?thesis by (simp add: follows_flows)
  next
    case (Some i)
    then show ?thesis
      using flows_execution [OF w' exec_taken [OF w k Some], of ?j a cfg now] j by (simp add: flows_def)
  qed
qed

section \<open>Every step\<close>

definition step_job :: "deal_world \<Rightarrow> deal_event \<Rightarrow> (job \<times> answer) option" where
  "step_job w e =
     (case e of E_resume k _ a \<Rightarrow> if k < length (dw_jobs w) then Some (dw_jobs w ! k, a) else None | _ \<Rightarrow> None)"

definition step_allowed :: "deal_world \<Rightarrow> deal_event \<Rightarrow> deal_status \<Rightarrow> deal_status \<Rightarrow> bool" where
  "step_allowed w e = (case step_job w e of Some (j, a) \<Rightarrow> allowed j a | None \<Rightarrow> moves)"

definition step_execs :: "deal_world \<Rightarrow> deal_event \<Rightarrow> deal_id set" where
  "step_execs w e = (case step_job w e of Some (j, a) \<Rightarrow> set_option (exec_of j) | None \<Rightarrow> {})"

lemma exec_ok_more: "set (deals db) \<subseteq> set (deals db') \<Longrightarrow> exec_ok db j \<Longrightarrow> exec_ok db' j"
  unfolding exec_ok_def by (cases "exec_of j") (simp, simp only: option.case, blast)

lemma flow_propose:
  assumes "flow w"
  shows "flow (set_deals_db (snd (dealPropose cfg i now p (dw_db w))) w)"
proof -
  let ?db = "snd (dealPropose cfg i now p (dw_db w))"
  have "set (deals (dw_db w)) \<subseteq> set (deals ?db)"
    by (auto simp: dealPropose_def Let_def)
  then have "list_all (exec_ok ?db) (dw_jobs w)"
    using assms by (auto simp: flow_def intro: list.pred_mono_strong exec_ok_more)
  moreover have "deals_inv ?db"
    using assms good_dealPropose [of "dw_db w" cfg i now p] by (simp add: flow_def good_def)
  ultimately show ?thesis using assms by (simp add: flow_def)
qed

lemma flows_step:
  assumes w: "flow w" and inv: "deal_inv w" and e: "event_ok e" and other: "\<And>i now p. e \<noteq> E_propose i now p"
  shows "flows (step_allowed w e) (step_execs w e) w (deal_step cfg e w)"
proof (cases "step_job w e")
  case None
  then have calm: "step_allowed w e = moves" "step_execs w e = {}"
    by (simp_all add: step_allowed_def step_execs_def)
  have "follows moves w (deal_step cfg e w)"
  proof (cases e)
    case (E_propose i now p)
    then show ?thesis using other by blast
  next
    case E_poll
    then show ?thesis using w follows_add_jobs [OF w, of "[Polling ds]" for ds] follows_stays [OF w refl]
      by (simp add: follows_moves split: list.split)
  next
    case (E_resume k now a)
    then show ?thesis using None w by (simp add: step_job_def follows_moves follows_stays split: if_splits)
  next
    case (E_cancel sender admins i reason)
    have "deals_inv (dw_db w)" using w by (simp add: flow_def)
    then show ?thesis using E_cancel w by (simp add: follows_db good_dealCancel evolves_dealCancel)
  qed (use w in \<open>simp_all add: follows_tool_verify follows_db good_set_proposal good_handle_callback
      good_handle_inline_query good_setInline good_expire_stale evolves_handle_callback
      evolves_handle_inline_query evolves_expire_stale follows_moves evolves_set_proposal evolves_setInline\<close>)
  then show ?thesis by (simp add: calm follows_flows)
next
  case (Some ja)
  then obtain k now a where k: "e = E_resume k now a" "k < length (dw_jobs w)" "ja = (dw_jobs w ! k, a)"
    by (auto simp: step_job_def split: deal_event.splits if_splits)
  have "case a of Gifts gs \<Rightarrow> list_all (\<lambda>g. ge_msgId g \<noteq> None) gs | _ \<Rightarrow> True"
    using e k(1) by (cases a) (simp_all add: event_ok_def)
  from flows_resume [OF w inv k(2) this] show ?thesis
    using Some k by (simp add: step_allowed_def step_execs_def)
qed

lemma flow_step:
  assumes "flow w" and "deal_inv w" and "event_ok e"
  shows "flow (deal_step cfg e w)"
proof (cases "\<exists>i now p. e = E_propose i now p")
  case True
  then show ?thesis using flow_propose [OF assms(1)] by auto
next
  case False
  then show ?thesis using flows_step [OF assms] by (simp add: flows_def)
qed

lemma flow_start: "flow no_deals"
  by (simp add: flow_def exec_ids_def no_deals_def deals_inv_def map_filter_simps)

lemma deal_reachable_flow: "deal_reachable cfg w \<Longrightarrow> flow w"
  by (induction rule: deal_reachable.induct) (auto intro: flow_start flow_step deal_reachable_inv)

section \<open>Refinement of the life cycle\<close>

text \<open>
  The abstract machine of one deal: it does not exist, or has a status. \<open>late\<close> says whether a gift has
  been sent for the deal and telling the user fails now.
\<close>

definition status_of :: "deal_world \<Rightarrow> deal_id \<Rightarrow> deal_status option" where
  "status_of w i = map_option dl_status (get_deal (dw_db w) i)"

inductive life_step :: "bool \<Rightarrow> deal_status option \<Rightarrow> deal_status option \<Rightarrow> bool" for late where
  idle: "life_step late s s"
| propose: "life_step late None (Some Proposed)"
| advance: "s' \<in> life_cycle s \<Longrightarrow> life_step late (Some s) (Some s')"
| undone: "late \<Longrightarrow> life_step late (Some Completed) (Some Failed)"

definition late_event :: "deal_world \<Rightarrow> deal_id \<Rightarrow> deal_event \<Rightarrow> bool" where
  "late_event w i e =
     (case step_job w e of Some (j, a) \<Rightarrow> exec_of j = Some i \<and> late_failure j a | None \<Rightarrow> False)"

lemma get_deal_unique: "deals_inv db \<Longrightarrow> d \<in> set (deals db) \<Longrightarrow> get_deal db (dl_id d) = Some d"
  unfolding get_deal_def by (rule sql_get_unique) (simp_all add: deals_inv_def)

lemma status_evolves:
  assumes inv: "deals_inv db'" and ev: "evolves R K db db'" and d: "get_deal db i = Some d"
  obtains d' where "get_deal db' i = Some d'" and "row_moves R K d d'"
proof -
  obtain d' where "d' \<in> set (deals db')" "row_moves R K d d'"
    using ev get_dealD [OF d] unfolding evolves_def by blast
  then show ?thesis
    using that get_deal_unique [OF inv, of d'] get_dealD [OF d] by (simp add: row_moves_def)
qed

lemma life_step_moves: "moves s s' \<Longrightarrow> life_step late (Some s) (Some s')"
  by (auto simp: moves_def intro: life_step.intros)

lemma allowed_life:
  assumes "row_moves (step_allowed w e) (step_execs w e) d d'"
  shows "life_step (late_event w (dl_id d) e) (Some (dl_status d)) (Some (dl_status d'))"
proof (cases "moves (dl_status d) (dl_status d')")
  case False
  then obtain j a where j: "step_job w e = Some (j, a)" "late_failure j a"
    and undone: "dl_status d = Completed" "dl_status d' = Failed"
    using assms by (auto simp: row_moves_def step_allowed_def allowed_def moves_or_fails_def
        split: option.splits if_splits)
  then have "exec_of j = Some (dl_id d)"
    using assms by (auto simp: row_moves_def step_execs_def frozen_def)
  then show ?thesis using j undone by (simp add: late_event_def life_step.undone)
qed (rule life_step_moves)

text \<open>
  C7. The deals refine the machine of their life cycle: whatever users, agent, poller and executor do, every
  deal stays as it is, is newly proposed, or takes one step of the cycle; it leaves a final status only
  from completed to failed, and only when a gift has been sent and telling the user about it fails.
\<close>

theorem deals_refine_life_cycle:
  assumes "deal_reachable cfg w" and "event_ok e"
  shows "life_step (late_event w i e) (status_of w i) (status_of (deal_step cfg e w) i)"
proof (cases "\<exists>j now p. e = E_propose j now p")
  case True
  then obtain j now p where e: "e = E_propose j now p" by blast
  show ?thesis
    by (cases "get_deal (dw_db w) i")
      (auto simp: e status_of_def dealPropose_def Let_def get_deal_def sql_get_append propose_row_def
        intro: life_step.intros)
next
  case False
  note w = deal_reachable_flow [OF assms(1)]
  have step: "flows (step_allowed w e) (step_execs w e) w (deal_step cfg e w)"
    by (rule flows_step [OF w deal_reachable_inv [OF assms(1)] assms(2)]) (use False in auto)
  then have inv': "deals_inv (dw_db (deal_step cfg e w))"
    and ev: "evolves (step_allowed w e) (step_execs w e) (dw_db w) (dw_db (deal_step cfg e w))"
    by (simp_all add: flows_def flow_def)
  show ?thesis
  proof (cases "get_deal (dw_db w) i")
    case None
    then have "get_deal (dw_db (deal_step cfg e w)) i = None"
      using ev by (simp add: evolves_def get_deal_def sql_get_None_iff flip: set_map)
    then show ?thesis using None by (simp add: status_of_def life_step.idle)
  next
    case (Some d)
    then obtain d' where "get_deal (dw_db (deal_step cfg e w)) i = Some d'"
      "row_moves (step_allowed w e) (step_execs w e) d d'"
      using status_evolves [OF inv' ev] by blast
    then show ?thesis using Some allowed_life get_dealD [OF Some] by (auto simp: status_of_def)
  qed
qed

end
