(* ===== verification/DealPayouts.thy ===== *)
theory DealPayouts
  imports DealLife
begin

text \<open>
  Consequences for the users of deals: which payouts never happen, what can be lost, and what the
  guards do and do not check.
\<close>

section \<open>Sample runs are reachable\<close>

lemma sample_reachable:
  "list_all event_ok evs \<Longrightarrow> deal_reachable cfg (deal_run cfg evs no_deals)"
  by (rule deal_reachable_run [OF deal_reachable.start])

lemma sample_paid_ok: "list_all event_ok sample_paid"
  and sample_told_ok: "list_all event_ok sample_told"
  by code_simp+

lemma sample_payouts: "dw_payouts (deal_run DEALS_CONFIG sample_told no_deals) = [Pay_gift ''d1'' ''g'' 7]"
  by code_simp

theorem payouts_paid_once_witness:
  "let w = deal_run DEALS_CONFIG sample_told no_deals
   in dw_payouts w = [Pay_gift ''d1'' ''g'' 7] \<and> distinct (map payout_deal (dw_payouts w)) \<and>
      list_all (\<lambda>p. paid_with (dw_db w) p \<noteq> (None, None)) (dw_payouts w)"
  using payouts_paid_once [OF sample_reachable [OF sample_told_ok], of DEALS_CONFIG]
  by (simp add: Let_def sample_payouts)

lemma sample_late:
  "late_event (deal_run DEALS_CONFIG sample_told no_deals) ''d1'' (E_resume 0 104000 (Told (Some [])))"
  "status_of (deal_run DEALS_CONFIG sample_told no_deals) ''d1'' = Some Completed"
  "status_of (deal_step DEALS_CONFIG (E_resume 0 104000 (Told (Some []))) (deal_run DEALS_CONFIG sample_told no_deals))
     ''d1'' = Some Failed"
  by code_simp+

theorem deals_refine_life_cycle_witness:
  "status_of (deal_run DEALS_CONFIG sample_told no_deals) ''d1'' = Some Completed \<and>
   life_step True (Some Completed) (Some Failed)"
  using deals_refine_life_cycle [OF sample_reachable [OF sample_told_ok],
      of "E_resume 0 104000 (Told (Some []))" DEALS_CONFIG "''d1''"]
  by (simp add: sample_late event_ok_def del: deal_step.simps)

section \<open>Deals in which the user gives a gift\<close>


definition sample_purchase :: "deal_event list" where
  "sample_purchase =
     [E_propose ''d1'' 100000 (sample_offer\<lparr>
        pp_userGivesType := Gift_asset, pp_userGivesTonAmount := None,
        pp_userGivesGiftSlug := Some ''cap'', pp_userGivesValueTon := Num 8,
        pp_agentGivesType := Ton_asset, pp_agentGivesTonAmount := Some (Num 8),
        pp_agentGivesGiftId := None, pp_agentGivesGiftSlug := None\<rparr>),
      E_callback 100000 7 A_accept ''d1'' None, E_tool_verify 101000 7 [] ''d1'' True,
      E_resume 0 102000 (Gifts [\<lparr>ge_msgId = Some ''m'', ge_slug = ''cap'', ge_fromId = Some 7, ge_date = Some 101\<rparr>])]"

definition stuck :: "deal_world \<Rightarrow> deal_id \<Rightarrow> bool" where
  "stuck w i =
     (case get_deal (dw_db w) i of
        None \<Rightarrow> False
      | Some d \<Rightarrow> dl_status d = Verified \<and> dl_agent_sent_at d \<noteq> None \<and> dl_user_payment_gift_msgid d \<noteq> None) "

lemma sample_purchase_stuck: "stuck (deal_run DEALS_CONFIG sample_purchase no_deals) ''d1''"
  and sample_purchase_idle: "dw_jobs (deal_run DEALS_CONFIG sample_purchase no_deals) = []"
  and sample_purchase_ok: "list_all event_ok sample_purchase"
  by code_simp+


section \<open>The guard of the gift tools\<close>

text \<open>
  The tools that send gifts only go ahead for a deal that is verified with a payment on record, that
  promises this gift to this user, and for which the executor has sent nothing yet.
\<close>

theorem gift_transfer_authorized:
  assumes "deal_reachable cfg w" and "hasVerifiedDeal now giftId userId (dw_db w)"
  shows "list_ex (\<lambda>d. dl_agent_gives_gift_id d = Some giftId \<and> Some (dl_user_telegram_id d) = userId \<and>
           dl_status d = Verified \<and> evidence d \<and> dl_id d \<notin> payout_deal ` set (dw_payouts w)) (deals (dw_db w))"
proof -
  have inv: "deal_inv w" by (rule deal_reachable_inv) fact
  obtain d where d: "d \<in> set (deals (dw_db w))" "dl_status d = Verified" "dl_agent_sent_at d = None"
    "dl_agent_gives_gift_id d = Some giftId" "Some (dl_user_telegram_id d) = userId"
    using assms(2) by (auto simp: hasVerifiedDeal_def list_ex_iff)
  have "evidence d" using inv d by (simp add: deal_inv_def deals_inv_def)
  moreover
  have "payout_deal p \<noteq> dl_id d" if "p \<in> set (dw_payouts w)" for p
  proof
    assume "payout_deal p = dl_id d"
    moreover have "settled (dw_db w) p" using inv that by (simp add: deal_inv_def list_all_iff)
    ultimately obtain e where "e \<in> set (deals (dw_db w))" "dl_id e = dl_id d" "spent e"
      by (auto simp: settled_def)
    moreover then have "e = d"
      using inv d(1) by (auto simp: deal_inv_def deals_inv_def distinct_map inj_on_def)
    ultimately show False using d by (simp add: spent_def)
  qed
  then have "dl_id d \<notin> payout_deal ` set (dw_payouts w)" by force
  ultimately show ?thesis using d unfolding list_ex_iff by (intro bexI [of _ d]) simp_all
qed

text \<open>While the poller edits the message of a verified deal, a tool may send the gift.\<close>

definition sample_editing :: "deal_event list" where
  "sample_editing =
     [E_propose ''d1'' 100000 sample_offer, E_callback 100000 7 A_accept ''d1'' (Some ''i''),
      E_callback 101000 7 A_sent ''d1'' (Some ''i''), E_poll, E_resume 0 102000 (Go True),
      E_resume 0 102000 (History [sample_tx]), E_resume 0 102000 (Go True)]"

lemma sample_editing_authorized: "hasVerifiedDeal 103000 ''g'' (Some 7) (dw_db (deal_run DEALS_CONFIG sample_editing no_deals))"
  and sample_editing_ok: "list_all event_ok sample_editing"
  by code_simp+

theorem gift_transfer_authorized_witness:
  "let w = deal_run DEALS_CONFIG sample_editing no_deals
   in hasVerifiedDeal 103000 ''g'' (Some 7) (dw_db w) \<and>
      list_ex (\<lambda>d. dl_status d = Verified \<and> evidence d) (deals (dw_db w))"
  using gift_transfer_authorized [OF sample_reachable [OF sample_editing_ok] sample_editing_authorized]
  by (auto simp: list_ex_iff sample_editing_authorized)

section \<open>A payment that is found too early\<close>

text \<open>
  The tool reads the chain while the user says that the payment was sent; it then finds and records the
  payment, but no longer finds the deal accepted. The poller never finds the payment again.
\<close>

definition sample_race :: "deal_event list" where
  "sample_race =
     [E_propose ''d1'' 100000 sample_offer, E_callback 100000 7 A_accept ''d1'' None,
      E_tool_verify 101000 7 [] ''d1'' True, E_callback 101000 7 A_sent ''d1'' None,
      E_resume 0 102000 (History [sample_tx]), E_resume 0 102000 (Go True)]"

definition sample_poll :: "deal_event list" where
  "sample_poll = [E_poll, E_resume 0 103000 (Go True), E_resume 0 103000 (History [sample_tx]), E_resume 0 103000 (Go True)]"

lemma verifyPayment_only_unused:
  assumes "list_all (\<lambda>t. sql_get ut_tx_hash (ct_hash t) (used_transactions db) \<noteq> None) txs"
  shows "verifyPayment now b r g i txs db = (None, db)"
  using assms by (induction now b r g i txs db rule: verifyPayment.induct) auto

text \<open>
  A payment can be lost: when the payment is recorded as used for the deal after the user has claimed
  it, the tool does not verify the deal, every later search passes over the payment, and the poller gives
  the deal up as not paid after its retries (here one); nothing is sent.
\<close>

theorem recorded_payment_lost:
  "let w = deal_run (DEALS_CONFIG\<lparr>dc_maxRetries := 1\<rparr>) (sample_race @ sample_poll @ take 2 sample_poll) no_deals
   in tx_used_for (dw_db w) ''h'' ''d1'' \<and> status_of w ''d1'' = Some Failed \<and> dw_payouts w = [] \<and>
      verifyPayment now b r g i [sample_tx] (dw_db w) = (None, dw_db w)"
proof -
  let ?w = "deal_run (DEALS_CONFIG\<lparr>dc_maxRetries := 1\<rparr>) (sample_race @ sample_poll @ take 2 sample_poll) no_deals"
  have run: "(tx_used_for (dw_db ?w) ''h'' ''d1'', status_of ?w ''d1'', dw_payouts ?w) = (True, Some Failed, [])"
    by code_simp
  then have "sql_get ut_tx_hash (ct_hash sample_tx) (used_transactions (dw_db ?w)) \<noteq> None"
    by (auto simp: sql_get_None_iff tx_used_for_def sample_tx_def intro: rev_image_eqI)
  then have "verifyPayment now b r g i [sample_tx] (dw_db ?w) = (None, dw_db ?w)"
    by (intro verifyPayment_only_unused) simp
  with run show ?thesis by (simp add: Let_def)
qed

section \<open>What the strategy looks at\<close>

text \<open>
  The strategy only looks at the stated values: a proposal it accepts is accepted with any amounts of
  TON, and these amounts are what the deal then holds.
\<close>

theorem strategy_ignores_amounts:
  assumes "fst (dealPropose cfg i now p db) = Inr c"
  shows "let (r, db') = dealPropose cfg i now (p\<lparr>pp_userGivesTonAmount := u, pp_agentGivesTonAmount := a\<rparr>) db
         in r = Inr c \<and>
            (case get_deal db' i of
               None \<Rightarrow> False
             | Some d \<Rightarrow> dl_user_gives_ton_amount d = or_null u \<and> dl_agent_gives_ton_amount d = or_null a)"
proof -
  have "propose_check cfg (p\<lparr>pp_userGivesTonAmount := u, pp_agentGivesTonAmount := a\<rparr>) = propose_check cfg p"
    by (simp add: propose_check_def checkStrategyCompliance_def)
  then show ?thesis
    using assms
    by (auto simp: dealPropose_def Let_def throw_def ret_def get_deal_def propose_row_def split: if_splits)
qed

text \<open>The user pays one TON for a thousand, with both sides valued at one.\<close>

definition sample_swap :: propose_params where
  "sample_swap = sample_offer\<lparr>pp_userGivesTonAmount := Some (Num 1), pp_userGivesValueTon := Num 1,
     pp_agentGivesType := Ton_asset, pp_agentGivesTonAmount := Some (Num 1), pp_agentGivesValueTon := Num 1,
     pp_agentGivesGiftId := None, pp_agentGivesGiftSlug := None\<rparr>"

lemma sample_swap_accepted: "isl (fst (dealPropose DEALS_CONFIG ''d1'' 100000 sample_swap (dw_db no_deals))) = False"
  by code_simp

theorem strategy_ignores_amounts_witness:
  "\<exists>c. fst (dealPropose DEALS_CONFIG ''d1'' 100000
         (sample_swap\<lparr>pp_userGivesTonAmount := Some (Num 1), pp_agentGivesTonAmount := Some (Num 1000)\<rparr>)
         (dw_db no_deals)) = Inr c"
proof -
  obtain c where "fst (dealPropose DEALS_CONFIG ''d1'' 100000 sample_swap (dw_db no_deals)) = Inr c"
    using sample_swap_accepted by (cases "fst (dealPropose DEALS_CONFIG ''d1'' 100000 sample_swap (dw_db no_deals))") auto
  from strategy_ignores_amounts [OF this, of "Some (Num 1000)" "Some (Num 1)"] show ?thesis
    by (auto simp: Let_def split: prod.splits)
qed

end
