(* ===== verification/PatternGuard.thy ===== *)
theory PatternGuard
  imports JsString
begin

text \<open>
  The check of regular expressions in security policies, \<open>findUnsafeRegexPatternReason\<close> of
  src/services/policy-engine.ts, and what it means: an expression is refused exactly when it quantifies
  a group that holds an alternation or another quantifier at any depth.

  The scanner works on the rest of the pattern instead of an index. A character is known by its code.
\<close>

section \<open>The scanner\<close>

text \<open>The digits, an optional comma with digits, and the closing brace of a counted quantifier.\<close>

definition decimal_digit :: "char \<Rightarrow> bool" where
  "decimal_digit c = (48 \<le> code c \<and> code c \<le> 57)"

definition skip_code :: "nat \<Rightarrow> string \<Rightarrow> string option" where
  "skip_code n s = (case s of [] \<Rightarrow> None | c # cs \<Rightarrow> if code c = n then Some cs else None)"

definition counted :: "string \<Rightarrow> string option" where
  "counted s =
     (if takeWhile decimal_digit s = [] then None
      else
        let r = dropWhile decimal_digit s in
        case skip_code 44 r of
          None \<Rightarrow> skip_code 125 r
        | Some r' \<Rightarrow> skip_code 125 (dropWhile decimal_digit r'))"

text \<open>The rest behind a quantifier, or None when there is none here.\<close>

definition readRegexQuantifier :: "string \<Rightarrow> string option" where
  "readRegexQuantifier s =
     (case s of
        [] \<Rightarrow> None
      | c # cs \<Rightarrow>
          (case (if code c \<in> {42, 43, 63} then Some cs else if code c = 123 then counted cs else None) of
             None \<Rightarrow> None
           | Some r \<Rightarrow> (case skip_code 63 r of Some r' \<Rightarrow> Some r' | None \<Rightarrow> Some r)))"

record group_frame =
  hasAlternation :: bool
  hasQuantifiedToken :: bool

definition new_frame :: group_frame where
  "new_frame = \<lparr>hasAlternation = False, hasQuantifiedToken = False\<rparr>"

definition on_top :: "(group_frame \<Rightarrow> group_frame) \<Rightarrow> group_frame list \<Rightarrow> group_frame list" where
  "on_top f stack = (case stack of [] \<Rightarrow> [] | x # xs \<Rightarrow> f x # xs)"

definition add_flags :: "bool \<Rightarrow> bool \<Rightarrow> group_frame \<Rightarrow> group_frame" where
  "add_flags a q x = x\<lparr>hasAlternation := hasAlternation x \<or> a, hasQuantifiedToken := hasQuantifiedToken x \<or> q\<rparr>"

definition markQuantifiedToken :: "group_frame list \<Rightarrow> group_frame list" where
  "markQuantifiedToken stack = on_top (add_flags False True) stack"

lemma skip_code_less: "skip_code n s = Some r \<Longrightarrow> length r < length s"
  by (auto simp: skip_code_def split: list.splits if_splits)

lemma counted_less: "counted s = Some r \<Longrightarrow> length r < length s"
proof -
  assume c: "counted s = Some r"
  have le: "length (dropWhile decimal_digit xs) \<le> length xs" for xs by (rule length_dropWhile_le)
  show ?thesis
  proof (cases "skip_code 44 (dropWhile decimal_digit s)")
    case None
    then show ?thesis
      using c skip_code_less [of 125 "dropWhile decimal_digit s" r] le [of s]
      by (simp add: counted_def Let_def split: if_splits)
  next
    case (Some r')
    then show ?thesis
      using c skip_code_less [OF Some] skip_code_less [of 125 "dropWhile decimal_digit r'" r] le [of s] le [of r']
      by (simp add: counted_def Let_def split: if_splits)
  qed
qed

lemma readRegexQuantifier_less [termination_simp]:
  "readRegexQuantifier s = Some r \<Longrightarrow> length r < length s"
  using counted_less skip_code_less
  by (fastforce simp: readRegexQuantifier_def split: list.splits if_splits option.splits)

definition NO_BACKREFERENCES :: string where "NO_BACKREFERENCES = ''backreferences are not allowed''"
definition NO_NAMED_BACKREFERENCES :: string where
  "NO_NAMED_BACKREFERENCES = ''named backreferences are not allowed''"
definition NO_LOOKAROUND :: string where
  "NO_LOOKAROUND = ''lookaround, named captures, and inline option groups are not allowed''"
definition NO_NESTED :: string where
  "NO_NESTED = ''nested or ambiguous quantified groups are not allowed''"

function scan_pattern :: "bool \<Rightarrow> group_frame list \<Rightarrow> string \<Rightarrow> string option" where
  "scan_pattern inCharacterClass stack [] = None"
| "scan_pattern inCharacterClass stack (c # cs) =
     (if inCharacterClass then
        (if code c = 92 then scan_pattern True stack (tl cs)
         else scan_pattern (code c \<noteq> 93) stack cs)
      else if code c = 92 then
        (if cs \<noteq> [] \<and> 49 \<le> code (hd cs) \<and> code (hd cs) \<le> 57 then Some NO_BACKREFERENCES
         else if cs \<noteq> [] \<and> code (hd cs) = 107 \<and> tl cs \<noteq> [] \<and> code (hd (tl cs)) = 60
         then Some NO_NAMED_BACKREFERENCES
         else scan_pattern False stack (tl cs))
      else if code c = 91 then scan_pattern True stack cs
      else if code c = 40 then
        (case skip_code 63 cs of
           None \<Rightarrow> scan_pattern False (new_frame # stack) cs
         | Some r \<Rightarrow>
             (case skip_code 58 r of
                None \<Rightarrow> Some NO_LOOKAROUND
              | Some r' \<Rightarrow> scan_pattern False (new_frame # stack) r'))
      else if code c = 41 then
        (case stack of
           [] \<Rightarrow> None
         | frame # rest \<Rightarrow>
             (case readRegexQuantifier cs of
                Some r \<Rightarrow>
                  if hasAlternation frame \<or> hasQuantifiedToken frame then Some NO_NESTED
                  else scan_pattern False (markQuantifiedToken rest) r
              | None \<Rightarrow>
                  scan_pattern False
                    (on_top (add_flags (hasAlternation frame) (hasQuantifiedToken frame)) rest) cs))
      else if code c = 124 then scan_pattern False (on_top (add_flags True False) stack) cs
      else
        (case readRegexQuantifier (c # cs) of
           Some r \<Rightarrow> scan_pattern False (markQuantifiedToken stack) r
         | None \<Rightarrow> scan_pattern False stack cs))"
  by pat_completeness auto

termination
  by (relation "measure (\<lambda>(k, stack, s). length s)")
     (auto dest!: readRegexQuantifier_less skip_code_less simp: less_Suc_eq_le)

definition findUnsafeRegexPatternReason :: "string \<Rightarrow> string option" where
  "findUnsafeRegexPatternReason pattern = scan_pattern False [] pattern"

section \<open>Regular expressions\<close>

datatype repeat = Star | Plus | Opt | Exactly string | AtLeast string | Between string string

type_synonym quantifier = "repeat \<times> bool"

datatype class_item = Plain char | Escaped char

datatype atom = Chr char | Esc char | Cls "class_item list" | Grp bool alternatives
  and sequence = Empty | Item atom "quantifier option" sequence
  and alternatives = One sequence | Or sequence alternatives

definition chr :: "nat \<Rightarrow> char" where
  "chr n = char_of n"

primrec write_repeat :: "repeat \<Rightarrow> string" where
  "write_repeat Star = [chr 42]"
| "write_repeat Plus = [chr 43]"
| "write_repeat Opt = [chr 63]"
| "write_repeat (Exactly n) = [chr 123] @ n @ [chr 125]"
| "write_repeat (AtLeast n) = [chr 123] @ n @ [chr 44, chr 125]"
| "write_repeat (Between n m) = [chr 123] @ n @ [chr 44] @ m @ [chr 125]"

definition write_quantifier :: "quantifier \<Rightarrow> string" where
  "write_quantifier q = write_repeat (fst q) @ (if snd q then [chr 63] else [])"

definition write_optional :: "quantifier option \<Rightarrow> string" where
  "write_optional q = (case q of None \<Rightarrow> [] | Some x \<Rightarrow> write_quantifier x)"

fun write_item :: "class_item \<Rightarrow> string" where
  "write_item (Plain c) = [c]"
| "write_item (Escaped c) = [chr 92, c]"

primrec write_atom :: "atom \<Rightarrow> string" and write_sequence :: "sequence \<Rightarrow> string"
  and write_regex :: "alternatives \<Rightarrow> string" where
  "write_atom (Chr c) = [c]"
| "write_atom (Esc c) = [chr 92, c]"
| "write_atom (Cls items) = [chr 91] @ concat (map write_item items) @ [chr 93]"
| "write_atom (Grp capture r) = [chr 40] @ (if capture then [] else [chr 63, chr 58]) @ write_regex r @ [chr 41]"
| "write_sequence Empty = []"
| "write_sequence (Item a q s) = write_atom a @ write_optional q @ write_sequence s"
| "write_regex (One s) = write_sequence s"
| "write_regex (Or s r) = write_sequence s @ [chr 124] @ write_regex r"

text \<open>What is written is read back: special characters are escaped, counts are digits.\<close>

definition digits :: "string \<Rightarrow> bool" where
  "digits s = (s \<noteq> [] \<and> list_all decimal_digit s)"

fun wf_repeat :: "repeat \<Rightarrow> bool" where
  "wf_repeat (Exactly n) = digits n"
| "wf_repeat (AtLeast n) = digits n"
| "wf_repeat (Between n m) = (digits n \<and> digits m)"
| "wf_repeat _ = True"

definition wf_optional :: "quantifier option \<Rightarrow> bool" where
  "wf_optional q = (case q of None \<Rightarrow> True | Some x \<Rightarrow> wf_repeat (fst x))"

fun wf_item :: "class_item \<Rightarrow> bool" where
  "wf_item (Plain c) = (code c \<notin> {92, 93})"
| "wf_item (Escaped c) = True"

primrec wf_atom :: "atom \<Rightarrow> bool" and wf_sequence :: "sequence \<Rightarrow> bool" and wf_regex :: "alternatives \<Rightarrow> bool" where
  "wf_atom (Chr c) = (code c \<notin> {92, 91, 40, 41, 124, 42, 43, 63, 123})"
| "wf_atom (Esc c) = (\<not> (49 \<le> code c \<and> code c \<le> 57) \<and> code c \<noteq> 107)"
| "wf_atom (Cls items) = list_all wf_item items"
| "wf_atom (Grp capture r) = wf_regex r"
| "wf_sequence Empty = True"
| "wf_sequence (Item a q s) = (wf_atom a \<and> wf_optional q \<and> wf_sequence s)"
| "wf_regex (One s) = wf_sequence s"
| "wf_regex (Or s r) = (wf_sequence s \<and> wf_regex r)"

text \<open>No alternation and no quantifier, at any depth.\<close>

primrec plain_atom :: "atom \<Rightarrow> bool" and plain_sequence :: "sequence \<Rightarrow> bool"
  and plain_regex :: "alternatives \<Rightarrow> bool" where
  "plain_atom (Chr c) = True"
| "plain_atom (Esc c) = True"
| "plain_atom (Cls items) = True"
| "plain_atom (Grp capture r) = plain_regex r"
| "plain_sequence Empty = True"
| "plain_sequence (Item a q s) = (q = None \<and> plain_atom a \<and> plain_sequence s)"
| "plain_regex (One s) = plain_sequence s"
| "plain_regex (Or s r) = False"

text \<open>Every quantified group is plain inside.\<close>

primrec safe_atom :: "atom \<Rightarrow> bool \<Rightarrow> bool" and safe_sequence :: "sequence \<Rightarrow> bool"
  and safe_regex :: "alternatives \<Rightarrow> bool" where
  "safe_atom (Chr c) quantified = True"
| "safe_atom (Esc c) quantified = True"
| "safe_atom (Cls items) quantified = True"
| "safe_atom (Grp capture r) quantified = (safe_regex r \<and> (quantified \<longrightarrow> plain_regex r))"
| "safe_sequence Empty = True"
| "safe_sequence (Item a q s) = (safe_atom a (q \<noteq> None) \<and> safe_sequence s)"
| "safe_regex (One s) = safe_sequence s"
| "safe_regex (Or s r) = (safe_sequence s \<and> safe_regex r)"

section \<open>The scanner on a written expression\<close>

lemma code_chr [simp]: "n < 256 \<Longrightarrow> code (chr n) = n"
  by (simp add: code_def chr_def)

text \<open>A text that does not begin with a quantifier.\<close>

definition stop :: "string \<Rightarrow> bool" where
  "stop s = (case s of [] \<Rightarrow> True | c # cs \<Rightarrow> code c \<notin> {42, 43, 63, 123})"

lemma stop_simps [simp]: "stop []" "stop (c # cs) = (code c \<notin> {42, 43, 63, 123})"
  by (simp_all add: stop_def)

lemma stop_no_quantifier: "stop s \<Longrightarrow> readRegexQuantifier s = None"
  by (cases s) (auto simp: readRegexQuantifier_def)

lemma stop_skip: "stop s \<Longrightarrow> skip_code 63 s = None"
  by (cases s) (auto simp: skip_code_def)

lemma stop_atom: "wf_atom a \<Longrightarrow> stop (write_atom a @ rest)"
  by (cases a) simp_all

lemma stop_sequence: "wf_sequence s \<Longrightarrow> stop rest \<Longrightarrow> stop (write_sequence s @ rest)"
  by (cases s) (simp_all add: stop_atom)

lemma stop_regex: "wf_regex r \<Longrightarrow> stop rest \<Longrightarrow> stop (write_regex r @ rest)"
  by (cases r) (simp_all add: stop_sequence)

lemma take_digits: "list_all decimal_digit n \<Longrightarrow> \<not> decimal_digit c \<Longrightarrow> takeWhile decimal_digit (n @ c # r) = n"
  by (induction n) simp_all

lemma drop_digits: "list_all decimal_digit n \<Longrightarrow> \<not> decimal_digit c \<Longrightarrow> dropWhile decimal_digit (n @ c # r) = c # r"
  by (induction n) simp_all

lemma no_digit [simp]: "\<not> decimal_digit (chr 44)" "\<not> decimal_digit (chr 125)"
  by (simp_all add: decimal_digit_def)

lemma skip_code_chr [simp]: "m < 256 \<Longrightarrow> skip_code n (chr m # r) = (if m = n then Some r else None)"
  by (simp add: skip_code_def)

lemma counted_exactly: "digits n \<Longrightarrow> counted (n @ chr 125 # r) = Some r"
  by (simp add: counted_def digits_def take_digits drop_digits)

lemma counted_at_least: "digits n \<Longrightarrow> counted (n @ chr 44 # chr 125 # r) = Some r"
  by (simp add: counted_def digits_def take_digits drop_digits)

lemma counted_between: "digits n \<Longrightarrow> digits m \<Longrightarrow> counted (n @ chr 44 # m @ chr 125 # r) = Some r"
  by (simp add: counted_def digits_def take_digits drop_digits)

lemma read_repeat:
  "wf_repeat p \<Longrightarrow> readRegexQuantifier (write_repeat p @ r) = (case skip_code 63 r of Some r' \<Rightarrow> Some r' | None \<Rightarrow> Some r)"
  by (cases p) (simp_all add: readRegexQuantifier_def counted_exactly counted_at_least counted_between)

lemma read_quantifier:
  assumes "wf_repeat (fst q)" and "stop rest"
  shows "readRegexQuantifier (write_quantifier q @ rest) = Some rest"
  using read_repeat [OF assms(1), of "(if snd q then [chr 63] else []) @ rest"] stop_skip [OF assms(2)]
  by (simp add: write_quantifier_def)

lemma quantifier_starts:
  "\<exists>c cs. write_quantifier q @ rest = c # cs \<and> code c \<in> {42, 43, 63, 123}"
  by (cases "fst q") (simp_all add: write_quantifier_def)

lemma top_flags [simp]:
  "on_top (add_flags a q) (on_top (add_flags a' q') stack) = on_top (add_flags (a' \<or> a) (q' \<or> q)) stack"
  "on_top (add_flags False False) stack = stack"
  by (simp_all add: on_top_def add_flags_def split: list.split)

lemma scan_optional:
  assumes "wf_optional q" and "stop rest"
  shows "scan_pattern False stack (write_optional q @ rest) =
         scan_pattern False (on_top (add_flags False (q \<noteq> None)) stack) rest"
proof (cases q)
  case None
  then show ?thesis by (simp add: write_optional_def)
next
  case (Some x)
  then have x: "wf_repeat (fst x)" using assms(1) by (simp add: wf_optional_def)
  obtain c cs where c: "write_quantifier x @ rest = c # cs" "code c \<in> {42, 43, 63, 123}"
    using quantifier_starts by blast
  then have "scan_pattern False stack (c # cs) = scan_pattern False (markQuantifiedToken stack) rest"
    using read_quantifier [OF x assms(2)] by auto
  then show ?thesis using c Some by (simp add: write_optional_def markQuantifiedToken_def)
qed

lemma read_optional:
  "wf_optional q \<Longrightarrow> stop rest \<Longrightarrow>
   readRegexQuantifier (write_optional q @ rest) = (if q = None then None else Some rest)"
  by (cases q) (simp_all add: write_optional_def wf_optional_def read_quantifier stop_no_quantifier)

lemma scan_class:
  "list_all wf_item items \<Longrightarrow>
   scan_pattern True stack (concat (map write_item items) @ chr 93 # rest) = scan_pattern False stack rest"
proof (induction items)
  case Nil
  then show ?case by simp
next
  case (Cons i items)
  then show ?case by (cases i) simp_all
qed

text \<open>What an expression adds to the frame of the group around it.\<close>

primrec alt_atom :: "atom \<Rightarrow> bool" and alt_sequence :: "sequence \<Rightarrow> bool" and alt_regex :: "alternatives \<Rightarrow> bool" where
  "alt_atom (Chr c) = False"
| "alt_atom (Esc c) = False"
| "alt_atom (Cls items) = False"
| "alt_atom (Grp capture r) = alt_regex r"
| "alt_sequence Empty = False"
| "alt_sequence (Item a q s) = (q = None \<and> alt_atom a \<or> alt_sequence s)"
| "alt_regex (One s) = alt_sequence s"
| "alt_regex (Or s r) = True"

primrec quant_atom :: "atom \<Rightarrow> bool" and quant_sequence :: "sequence \<Rightarrow> bool"
  and quant_regex :: "alternatives \<Rightarrow> bool" where
  "quant_atom (Chr c) = False"
| "quant_atom (Esc c) = False"
| "quant_atom (Cls items) = False"
| "quant_atom (Grp capture r) = quant_regex r"
| "quant_sequence Empty = False"
| "quant_sequence (Item a q s) = (q \<noteq> None \<or> quant_atom a \<or> quant_sequence s)"
| "quant_regex (One s) = quant_sequence s"
| "quant_regex (Or s r) = (quant_sequence s \<or> quant_regex r)"

lemma plain_iff:
  "plain_atom a \<longleftrightarrow> \<not> alt_atom a \<and> \<not> quant_atom a"
  "plain_sequence s \<longleftrightarrow> \<not> alt_sequence s \<and> \<not> quant_sequence s"
  "plain_regex r \<longleftrightarrow> \<not> alt_regex r \<and> \<not> quant_regex r"
  by (induction a and s and r) (auto simp del: not_None_eq)

lemma scan_atom_step:
  assumes "\<And>capture r. a = Grp capture r \<Longrightarrow> False"
    and "wf_atom a" "wf_optional q" "stop rest"
  shows "scan_pattern False stack (write_atom a @ write_optional q @ rest) =
         scan_pattern False (on_top (add_flags False (q \<noteq> None)) stack) rest"
proof (cases a)
  case (Chr c)
  then have "readRegexQuantifier (c # xs) = None" for xs
    using assms(2) by (intro stop_no_quantifier) simp
  then show ?thesis using Chr assms(2) scan_optional [OF assms(3,4)] by simp
next
  case (Esc c)
  then show ?thesis using assms(2) scan_optional [OF assms(3,4)] by auto
next
  case (Cls items)
  then show ?thesis
    using assms(2) scan_class [of items stack "write_optional q @ rest"] scan_optional [OF assms(3,4)] by simp
next
  case (Grp capture r)
  then show ?thesis using assms(1) by blast
qed

lemma scan_written:
  "wf_atom a \<Longrightarrow> wf_optional q \<Longrightarrow> stop rest \<Longrightarrow>
   scan_pattern False stack (write_atom a @ write_optional q @ rest) =
     (if safe_atom a (q \<noteq> None)
      then scan_pattern False (on_top (add_flags (q = None \<and> alt_atom a) (q \<noteq> None \<or> quant_atom a)) stack) rest
      else Some NO_NESTED)"
  "wf_sequence s \<Longrightarrow> stop rest \<Longrightarrow>
   scan_pattern False stack (write_sequence s @ rest) =
     (if safe_sequence s then scan_pattern False (on_top (add_flags (alt_sequence s) (quant_sequence s)) stack) rest
      else Some NO_NESTED)"
  "wf_regex r \<Longrightarrow> stop rest \<Longrightarrow>
   scan_pattern False stack (write_regex r @ rest) =
     (if safe_regex r then scan_pattern False (on_top (add_flags (alt_regex r) (quant_regex r)) stack) rest
      else Some NO_NESTED)"
proof (induction a and s and r arbitrary: q stack rest and stack rest and stack rest)
  case (Chr c)
  then show ?case using scan_atom_step [of "Chr c"] by simp
next
  case (Esc c)
  then show ?case using scan_atom_step [of "Esc c"] by simp
next
  case (Cls items)
  then show ?case using scan_atom_step [of "Cls items"] by simp
next
  case (Grp capture r)
  let ?rest = "chr 41 # write_optional q @ rest"
  have body: "scan_pattern False (new_frame # stack) (write_regex r @ ?rest) =
      (if safe_regex r
       then scan_pattern False (add_flags (alt_regex r) (quant_regex r) new_frame # stack) ?rest
       else Some NO_NESTED)"
    using Grp by (simp add: on_top_def)
  have "stop (write_regex r @ ?rest)" by (rule stop_regex) (use Grp in simp_all)
  then have opened: "scan_pattern False stack (write_atom (Grp capture r) @ write_optional q @ rest) =
      scan_pattern False (new_frame # stack) (write_regex r @ ?rest)"
    using stop_skip by (cases capture) simp_all
  have closed: "scan_pattern False (add_flags (alt_regex r) (quant_regex r) new_frame # stack) ?rest =
      (if q \<noteq> None \<and> \<not> plain_regex r then Some NO_NESTED
       else scan_pattern False (on_top (add_flags (q = None \<and> alt_regex r) (q \<noteq> None \<or> quant_regex r)) stack) rest)"
  proof (cases q)
    case None
    then have "readRegexQuantifier (write_optional q @ rest) = None" "write_optional q @ rest = rest"
      using read_optional [OF Grp.prems(2,3)] by (simp_all add: write_optional_def)
    then show ?thesis using None by (simp add: add_flags_def new_frame_def)
  next
    case (Some x)
    then have "readRegexQuantifier (write_optional q @ rest) = Some rest"
      using read_optional [OF Grp.prems(2,3)] by simp
    then show ?thesis using Some by (simp add: add_flags_def new_frame_def plain_iff markQuantifiedToken_def)
  qed
  show ?case unfolding opened body closed by auto
next
  case Empty
  then show ?case by simp
next
  case (Item a q s)
  have "stop (write_sequence s @ rest)" by (rule stop_sequence) (use Item in simp_all)
  then show ?case using Item by (auto simp: disj_ac)
next
  case (One s)
  then show ?case by simp
next
  case (Or s r)
  then show ?case by simp
qed


text \<open>The expression \<open>(?:a(b+))*\<close>.\<close>

definition nested_repeat :: alternatives where
  "nested_repeat = One (Item (Grp False (One (Item (Chr (chr 97)) None
     (Item (Grp True (One (Item (Chr (chr 98)) (Some (Plus, False)) Empty))) None Empty)))) (Some (Star, False)) Empty)"


end
