(* ===== verification/SecurityPolicies.thy ===== *)
theory SecurityPolicies
  imports PipelineStore PatternGuard "HOL-Library.List_Lexorder" "HOL-Library.Char_ord"
begin

text \<open>
  The zero-trust policies of src/services/policy-engine.ts: policies that match tool calls, the rate
  limits per tool and sender, and the log of validations, over the tables of one database.

  A match is JSON that nobody has looked into beyond its \<open>params\<close>, so every matcher is a JSON value.
  The conversions of the language and regular expressions are parameters; a compiled expression only
  depends on its text, so the cache of compiled expressions cannot be observed and is left out.
\<close>

section \<open>Comparing values\<close>

text \<open>
  \<open>sortValue\<close> copies the members in the order of their names into an empty object, in which assigning
  to \<open>__proto__\<close> makes no member. \<open>JSON.stringify\<close> writes equal texts exactly for values that
  \<open>jsonify\<close> makes equal, so the value stands for the text here; None is undefined.
\<close>

fun sortValue :: "json \<Rightarrow> json" where
  "sortValue (JArr xs) = JArr (map sortValue xs)"
| "sortValue (JObj kvs) =
     JObj (sort_key fst (filter (\<lambda>(k, v). k \<noteq> ''__proto__'') (map (\<lambda>(k, v). (k, sortValue v)) kvs)))"
| "sortValue j = j"

definition safeStringify :: "json \<Rightarrow> json" where
  "safeStringify v = jsonify (sortValue v)"

definition deepEqual :: "json option \<Rightarrow> json option \<Rightarrow> bool" where
  "deepEqual a b = (map_option safeStringify a = map_option safeStringify b)"

section \<open>Data\<close>

datatype policy_action = Allow | Deny | Require_approval

datatype security_error = SE_message msg | SE_unsafe msg | SE_unique string | SE_type

record policy_env =
  pv_conv :: conversions
  pv_regexp :: "string \<Rightarrow> string + (string \<Rightarrow> bool)"

text \<open>A row of \<open>security_policies\<close>; \<open>rowToPolicy\<close> reads it as it is.\<close>

record security_policy =
  sp_id :: int
  sp_name :: string
  sp_match :: json
  sp_action :: policy_action
  sp_reason :: "string option"
  sp_enabled :: bool
  sp_priority :: int
  sp_created_at :: int

record validation_log_entry =
  vl_id :: int
  vl_tool :: string
  vl_params :: json
  vl_action :: policy_action
  vl_reason :: msg
  vl_policy_id :: "int option"
  vl_policy_name :: "string option"
  vl_approval_id :: "string option"
  vl_created_at :: int

record rate_limit =
  rl_tool :: string
  rl_max :: int
  rl_updated_at :: int

record rate_counter =
  rc_tool :: string
  rc_sender :: int
  rc_window :: int
  rc_count :: int

record policy_db =
  sd_policies :: "security_policy list"
  sd_sequence :: int
  sd_log :: "validation_log_entry list"
  sd_limits :: "rate_limit list"
  sd_counters :: "rate_counter list"

record evaluation_input =
  ev_tool :: string
  ev_params :: json
  ev_sender :: "int option"
  ev_module :: "string option"

record evaluation =
  er_action :: policy_action
  er_reason :: msg
  er_policy :: "security_policy option"

definition DQ :: string where "DQ = [CHR 0x22]"

definition action_name :: "policy_action \<Rightarrow> string" where
  "action_name a = (case a of Allow \<Rightarrow> ''allow'' | Deny \<Rightarrow> ''deny'' | Require_approval \<Rightarrow> ''require_approval'')"

definition POLICY_ACTIONS :: "json option \<Rightarrow> policy_action option" where
  "POLICY_ACTIONS j =
     (if j = Some (JStr ''allow'') then Some Allow
      else if j = Some (JStr ''deny'') then Some Deny
      else if j = Some (JStr ''require_approval'') then Some Require_approval
      else None)"

section \<open>Parameters of a call\<close>

definition CONDITION_KEYS :: "string list" where
  "CONDITION_KEYS = [''pattern'', ''in'', ''equals'', ''eq'', ''contains'', ''min'', ''max'', ''gt'', ''gte'',
                     ''lt'', ''lte'']"

definition MAX_PARAM_PATTERN_LENGTH :: nat where "MAX_PARAM_PATTERN_LENGTH = 256"
definition MAX_PARAM_PATTERN_INPUT_LENGTH :: nat where "MAX_PARAM_PATTERN_INPUT_LENGTH = 4096"

definition isCondition :: "json \<Rightarrow> bool" where
  "isCondition v =
     (case v of
        JObj kvs \<Rightarrow> list_ex (\<lambda>(k, x). k \<in> set CONDITION_KEYS) kvs \<and> list_all (\<lambda>(k, x). k \<in> set CONDITION_KEYS) kvs
      | _ \<Rightarrow> False)"

text \<open>
  A property of an object; the functions every object inherits behave like undefined wherever the
  value is used. The prototype of a plain object has no members and the prototype null.
\<close>

definition property :: "bool \<Rightarrow> json \<Rightarrow> string \<Rightarrow> bool \<times> json option" where
  "property is_prototype v name =
     (case v of
        JObj kvs \<Rightarrow>
          (case map_of kvs name of
             Some x \<Rightarrow> (False, Some x)
           | None \<Rightarrow>
               if name = ''__proto__'' then (if is_prototype then (False, Some JNull) else (True, Some (JObj [])))
               else (False, None))
      | _ \<Rightarrow> (False, None))"

fun get_parts :: "bool \<times> json option \<Rightarrow> string list \<Rightarrow> json option" where
  "get_parts current [] = snd current"
| "get_parts (is_prototype, Some v) (part # parts) = get_parts (property is_prototype v part) parts"
| "get_parts (is_prototype, None) (part # parts) = None"

definition getPath :: "json \<Rightarrow> string \<Rightarrow> json option" where
  "getPath value path = get_parts (False, Some value) (split_on (CHR ''.'') path)"

definition pattern_label :: "string \<Rightarrow> string \<Rightarrow> msg" where
  "pattern_label policyName paramKey =
     [S (''Policy '' @ DQ @ policyName @ DQ @ '' param '' @ DQ @ paramKey @ DQ)]"

definition getCompiledParamPattern ::
  "policy_env \<Rightarrow> string \<Rightarrow> string \<Rightarrow> json \<Rightarrow> security_error + (string \<Rightarrow> bool)" where
  "getCompiledParamPattern env policyName paramKey pattern =
     (let label = pattern_label policyName paramKey in
      case pattern of
        JStr p \<Rightarrow>
          if length p > MAX_PARAM_PATTERN_LENGTH then
            Inl (SE_unsafe (label @ [S '' has unsafe regex pattern: pattern length exceeds '',
                                     N (js_int (int MAX_PARAM_PATTERN_LENGTH)), S '' characters'']))
          else
            (case findUnsafeRegexPatternReason p of
               Some reason \<Rightarrow> Inl (SE_unsafe (label @ [S ('' has unsafe regex pattern: '' @ reason)]))
             | None \<Rightarrow>
                 (case pv_regexp env p of
                    Inl reason \<Rightarrow> Inl (SE_unsafe (label @ [S ('' has invalid regex pattern: '' @ reason)]))
                  | Inr test \<Rightarrow> Inr test))
      | _ \<Rightarrow> Inl (SE_unsafe (label @ [S '' regex pattern must be a string''])))"

fun text_includes :: "string \<Rightarrow> string \<Rightarrow> bool" where
  "text_includes x [] = (x = [])"
| "text_includes x (c # cs) = (take (length x) (c # cs) = x \<or> text_includes x cs)"

text \<open>Checks one after the other until one fails or throws.\<close>

fun all_checks :: "('e + bool) list \<Rightarrow> 'e + bool" where
  "all_checks [] = Inr True"
| "all_checks (c # cs) = bind_sum c (\<lambda>b. if b then all_checks cs else Inr False)"

definition check_pattern ::
  "policy_env \<Rightarrow> string \<Rightarrow> string \<Rightarrow> json option \<Rightarrow> json option \<Rightarrow> security_error + bool" where
  "check_pattern env policyName paramKey value pattern =
     (case pattern of
        None \<Rightarrow> Inr True
      | Some p \<Rightarrow> bind_sum (getCompiledParamPattern env policyName paramKey p) (\<lambda>test.
          case value of
            Some (JStr s) \<Rightarrow>
              if length s > MAX_PARAM_PATTERN_INPUT_LENGTH then
                Inl (SE_unsafe [S (''Policy '' @ DQ @ policyName @ DQ @ '' regex input for param '' @ DQ @ paramKey @
                       DQ @ '' exceeds ''), N (js_int (int MAX_PARAM_PATTERN_INPUT_LENGTH)), S '' characters''])
              else Inr (test s)
          | _ \<Rightarrow> Inr False))"

definition check_in :: "json option \<Rightarrow> json option \<Rightarrow> security_error + bool" where
  "check_in value entries =
     (case entries of
        None \<Rightarrow> Inr True
      | Some (JArr xs) \<Rightarrow> Inr (list_ex (\<lambda>e. deepEqual (Some e) value) xs)
      | Some _ \<Rightarrow> Inl SE_type)"

definition check_equals :: "json option \<Rightarrow> json option \<Rightarrow> json option \<Rightarrow> bool" where
  "check_equals value equals eq =
     (equals = None \<and> eq = None \<or> deepEqual (either equals eq) value)"

definition check_contains :: "conversions \<Rightarrow> json option \<Rightarrow> json option \<Rightarrow> bool" where
  "check_contains conv value part =
     (case part of
        None \<Rightarrow> True
      | Some x \<Rightarrow> (case value of Some (JStr s) \<Rightarrow> text_includes (item_string conv x) s | _ \<Rightarrow> False))"

definition check_number ::
  "conversions \<Rightarrow> (js_num \<Rightarrow> js_num \<Rightarrow> bool) \<Rightarrow> json option \<Rightarrow> json option \<Rightarrow> bool" where
  "check_number conv test value limit =
     (case limit of
        None \<Rightarrow> True
      | Some l \<Rightarrow> (case value of Some (JNum v) \<Rightarrow> test v (number_of conv l) | _ \<Rightarrow> False))"

definition matchesParam ::
  "policy_env \<Rightarrow> string \<Rightarrow> string \<Rightarrow> json option \<Rightarrow> json \<Rightarrow> security_error + bool" where
  "matchesParam env policyName paramKey value matcher =
     (if isCondition matcher then
        let get = json_member matcher; conv = pv_conv env in
        all_checks
          [check_pattern env policyName paramKey value (get ''pattern''),
           check_in value (get ''in''),
           Inr (check_equals value (get ''equals'') (get ''eq'')),
           Inr (check_contains conv value (get ''contains'')),
           Inr (check_number conv js_ge value (get ''min'')),
           Inr (check_number conv js_ge value (get ''gte'')),
           Inr (check_number conv js_le value (get ''max'')),
           Inr (check_number conv js_le value (get ''lte'')),
           Inr (check_number conv js_gt value (get ''gt'')),
           Inr (check_number conv js_lt value (get ''lt''))]
      else Inr (deepEqual (Some matcher) value))"

section \<open>Names\<close>

text \<open>The regular expression made of the parts around the stars; a star stands for no line break.\<close>

definition line_break :: "char \<Rightarrow> bool" where
  "line_break c = (code c \<in> {10, 13})"

fun glob :: "string list \<Rightarrow> string \<Rightarrow> bool" where
  "glob [] v = (v = [])"
| "glob [p] v = (v = p)"
| "glob (p # q # ps) v =
     (take (length p) v = p \<and>
      (let rest = drop (length p) v in
       list_ex (\<lambda>k. list_all (\<lambda>c. \<not> line_break c) (take k rest) \<and> glob (q # ps) (drop k rest))
         [0..<Suc (length rest)]))"

definition starts_with :: "string \<Rightarrow> string \<Rightarrow> bool" where
  "starts_with v p = (take (length p) v = p)"

definition matches_candidate :: "conversions \<Rightarrow> string \<Rightarrow> json \<Rightarrow> security_error + bool" where
  "matches_candidate conv value candidate =
     (case candidate of
        JStr s \<Rightarrow>
          Inr (s = value \<or> s = ''*'' \<or>
               CHR ''_'' \<notin> set s \<and> starts_with value (s @ ''_'') \<or>
               CHR ''*'' \<in> set s \<and> glob (split_on (CHR ''*'') s) value)
      | JArr xs \<Rightarrow>
          if JStr ''_'' \<notin> set xs \<and> starts_with value (toStr conv candidate @ ''_'') then Inr True
          else if JStr ''*'' \<notin> set xs then Inr False
          else Inl SE_type
      | _ \<Rightarrow> Inl SE_type)"

fun any_check :: "('e + bool) list \<Rightarrow> 'e + bool" where
  "any_check [] = Inr False"
| "any_check (c # cs) = bind_sum c (\<lambda>b. if b then Inr True else any_check cs)"

definition matchesName :: "conversions \<Rightarrow> string \<Rightarrow> json \<Rightarrow> security_error + bool" where
  "matchesName conv value matcher =
     any_check (map (matches_candidate conv value) (case matcher of JArr xs \<Rightarrow> xs | _ \<Rightarrow> [matcher]))"

definition truthy :: "json \<Rightarrow> bool" where
  "truthy j =
     (case j of
        JNull \<Rightarrow> False
      | JBool b \<Rightarrow> b
      | JNum n \<Rightarrow> js_truthy n
      | JStr s \<Rightarrow> s \<noteq> []
      | _ \<Rightarrow> True)"

text \<open>\<open>Object.entries\<close>\<close>

definition object_entries :: "json \<Rightarrow> (string \<times> json) list" where
  "object_entries j =
     (case j of
        JObj kvs \<Rightarrow> kvs
      | JArr xs \<Rightarrow> zip (map decimal [0..<length xs]) xs
      | JStr s \<Rightarrow> zip (map decimal [0..<length s]) (map (\<lambda>c. JStr [c]) s)
      | _ \<Rightarrow> [])"

definition is_object :: "json \<Rightarrow> bool" where
  "is_object j = (case j of JObj _ \<Rightarrow> True | _ \<Rightarrow> False)"

definition matches_params ::
  "policy_env \<Rightarrow> string \<Rightarrow> json option \<Rightarrow> json \<Rightarrow> security_error + bool" where
  "matches_params env policyName matchers params =
     (case matchers of
        None \<Rightarrow> Inr True
      | Some m \<Rightarrow>
          if \<not> truthy m then Inr True
          else if \<not> is_object params then Inr False
          else all_checks (map (\<lambda>(key, matcher). matchesParam env policyName key (getPath params key) matcher)
                 (object_entries m)))"

definition matchesPolicy :: "policy_env \<Rightarrow> security_policy \<Rightarrow> evaluation_input \<Rightarrow> security_error + bool" where
  "matchesPolicy env policy input =
     (let match = json_member (sp_match policy); conv = pv_conv env in
      all_checks
        [case match ''tool'' of None \<Rightarrow> Inr True | Some m \<Rightarrow> matchesName conv (ev_tool input) m,
         case match ''module'' of None \<Rightarrow> Inr True | Some m \<Rightarrow> matchesName conv (nullish (ev_module input) []) m,
         matches_params env (sp_name policy) (match ''params'') (ev_params input)])"

section \<open>Policies\<close>

text \<open>What a caller gives, member by member; None is undefined.\<close>

record policy_input =
  pi_name :: "json option"
  pi_match :: "json option"
  pi_action :: "json option"
  pi_reason :: "json option"
  pi_enabled :: "json option"
  pi_priority :: "json option"

record normalized_policy =
  np_name :: string
  np_match :: json
  np_action :: policy_action
  np_reason :: "string option"
  np_enabled :: bool
  np_priority :: int

fun check_all :: "('a \<Rightarrow> 'e + unit) \<Rightarrow> 'a list \<Rightarrow> 'e + unit" where
  "check_all f [] = Inr ()"
| "check_all f (x # xs) = bind_sum (f x) (\<lambda>_. check_all f xs)"

definition validatePolicyMatch :: "policy_env \<Rightarrow> string \<Rightarrow> json \<Rightarrow> security_error + unit" where
  "validatePolicyMatch env policyName match =
     (case json_member match ''params'' of
        None \<Rightarrow> Inr ()
      | Some (JObj kvs) \<Rightarrow>
          check_all (\<lambda>(key, matcher).
            if isCondition matcher then
              (case json_member matcher ''pattern'' of
                 None \<Rightarrow> Inr ()
               | Some p \<Rightarrow> bind_sum (getCompiledParamPattern env policyName key p) (\<lambda>_. Inr ()))
            else Inr ()) kvs
      | Some _ \<Rightarrow> Inl (SE_message [S (''Policy '' @ DQ @ policyName @ DQ @ '' match.params must be an object'')]))"

definition integer_of :: "json \<Rightarrow> int option" where
  "integer_of j = (case j of JNum (Num q) \<Rightarrow> if of_int \<lfloor>q\<rfloor> = q then Some \<lfloor>q\<rfloor> else None | _ \<Rightarrow> None)"

definition normalizeCreatePolicy :: "policy_env \<Rightarrow> policy_input \<Rightarrow> security_error + normalized_policy" where
  "normalizeCreatePolicy env input =
     (case pi_name input of
        Some (JStr name) \<Rightarrow>
          if name = [] then Inl (SE_message [S ''Policy name is required''])
          else
            (case pi_match input of
               Some (JObj kvs) \<Rightarrow>
                 (case POLICY_ACTIONS (pi_action input) of
                    None \<Rightarrow>
                      Inl (SE_message [S (''Policy '' @ DQ @ name @ DQ @ '' has invalid action '' @ DQ @
                        (case pi_action input of None \<Rightarrow> ''undefined'' | Some a \<Rightarrow> item_string (pv_conv env) a) @ DQ)])
                  | Some action \<Rightarrow>
                      (case (case pi_priority input of None \<Rightarrow> Some 0 | Some p \<Rightarrow> integer_of p) of
                         None \<Rightarrow>
                           Inl (SE_message [S (''Policy '' @ DQ @ name @ DQ @ '' priority must be an integer'')])
                       | Some priority \<Rightarrow>
                           bind_sum (validatePolicyMatch env name (JObj kvs)) (\<lambda>_.
                             Inr \<lparr>np_name = name, np_match = JObj kvs, np_action = action,
                                  np_reason = map_option (item_string (pv_conv env)) (pi_reason input),
                                  np_enabled = (pi_enabled input \<noteq> Some (JBool False)),
                                  np_priority = priority\<rparr>)))
             | _ \<Rightarrow> Inl (SE_message [S (''Policy '' @ DQ @ name @ DQ @ '' must define a match object'')]))
      | _ \<Rightarrow> Inl (SE_message [S ''Policy name is required'']))"

definition listPolicies :: "policy_db \<Rightarrow> security_policy list" where
  "listPolicies db =
     sort_key (\<lambda>p. if sp_enabled p then (0::nat) else 1) (sort_key (\<lambda>p. - sp_priority p) (sd_policies db))"

definition getPolicy :: "policy_db \<Rightarrow> int \<Rightarrow> security_policy option" where
  "getPolicy db pid = sql_get sp_id pid (sd_policies db)"

definition createPolicy ::
  "policy_env \<Rightarrow> int \<Rightarrow> policy_input \<Rightarrow> policy_db \<Rightarrow> (security_error, security_policy, policy_db) outcome" where
  "createPolicy env now input db =
     (case normalizeCreatePolicy env input of
        Inl e \<Rightarrow> throw e db
      | Inr n \<Rightarrow>
          if sql_get sp_name (np_name n) (sd_policies db) \<noteq> None then throw (SE_unique (np_name n)) db
          else
            let pid = sd_sequence db + 1;
                row = \<lparr>sp_id = pid, sp_name = np_name n, sp_match = jsonify (np_match n),
                       sp_action = np_action n, sp_reason = np_reason n, sp_enabled = np_enabled n,
                       sp_priority = np_priority n, sp_created_at = secs now\<rparr>;
                db' = db\<lparr>sd_policies := sd_policies db @ [row], sd_sequence := pid\<rparr>
            in (case getPolicy db' pid of
                  None \<Rightarrow> throw (SE_message [S ''Failed to create security policy'']) db'
                | Some created \<Rightarrow> ret created db'))"

definition merged_input :: "policy_input \<Rightarrow> security_policy \<Rightarrow> policy_input" where
  "merged_input input existing =
     \<lparr>pi_name = either (pi_name input) (Some (JStr (sp_name existing))),
      pi_match = either (pi_match input) (Some (sp_match existing)),
      pi_action = either (pi_action input) (Some (JStr (action_name (sp_action existing)))),
      pi_reason = (case pi_reason input of
                     None \<Rightarrow> map_option JStr (sp_reason existing)
                   | Some r \<Rightarrow> either (Some r) (Some (JStr []))),
      pi_enabled = either (pi_enabled input) (Some (JBool (sp_enabled existing))),
      pi_priority = either (pi_priority input) (Some (JNum (Num (of_int (sp_priority existing)))))\<rparr>"

definition updatePolicy ::
  "policy_env \<Rightarrow> int \<Rightarrow> policy_input \<Rightarrow> policy_db \<Rightarrow>
   (security_error, security_policy option, policy_db) outcome" where
  "updatePolicy env pid input db =
     (case getPolicy db pid of
        None \<Rightarrow> ret None db
      | Some existing \<Rightarrow>
          (case normalizeCreatePolicy env (merged_input input existing) of
             Inl e \<Rightarrow> throw e db
           | Inr n \<Rightarrow>
               if list_ex (\<lambda>p. sp_name p = np_name n \<and> sp_id p \<noteq> pid) (sd_policies db)
               then throw (SE_unique (np_name n)) db
               else
                 let db' = db\<lparr>sd_policies := sql_update sp_id pid
                       (\<lambda>p. p\<lparr>sp_name := np_name n, sp_match := jsonify (np_match n), sp_action := np_action n,
                               sp_reason := np_reason n, sp_enabled := np_enabled n,
                               sp_priority := np_priority n\<rparr>) (sd_policies db)\<rparr>
                 in ret (getPolicy db' pid) db'))"

definition deletePolicy :: "int \<Rightarrow> policy_db \<Rightarrow> bool \<times> policy_db" where
  "deletePolicy pid db =
     (getPolicy db pid \<noteq> None, db\<lparr>sd_policies := sql_delete (\<lambda>p. sp_id p = pid) (sd_policies db)\<rparr>)"

section \<open>Rate limits\<close>

definition setToolRateLimit ::
  "int \<Rightarrow> string \<Rightarrow> js_num \<Rightarrow> policy_db \<Rightarrow> (security_error, unit, policy_db) outcome" where
  "setToolRateLimit now tool maxPerMinute db =
     (case integer_of (JNum maxPerMinute) of
        Some m \<Rightarrow>
          if tool \<noteq> [] \<and> 0 < m then
            ret () (db\<lparr>sd_limits :=
              (if sql_get rl_tool tool (sd_limits db) = None
               then sd_limits db @ [\<lparr>rl_tool = tool, rl_max = m, rl_updated_at = secs now\<rparr>]
               else sql_update rl_tool tool (\<lambda>r. r\<lparr>rl_max := m, rl_updated_at := secs now\<rparr>) (sd_limits db))\<rparr>)
          else throw (SE_message
            [S ''tool rate limit requires a tool name and positive integer max_per_minute'']) db
      | None \<Rightarrow> throw (SE_message
          [S ''tool rate limit requires a tool name and positive integer max_per_minute'']) db)"

definition rate_limit_of :: "policy_db \<Rightarrow> string \<Rightarrow> rate_limit option" where
  "rate_limit_of db tool =
     (case sql_get rl_tool tool (sd_limits db) of
        Some r \<Rightarrow> Some r
      | None \<Rightarrow> sql_get rl_tool ''*'' (sd_limits db))"

definition rate_window_start :: "int \<Rightarrow> int" where
  "rate_window_start now = now div 60000 * 60"

definition counter_key :: "rate_counter \<Rightarrow> string \<times> int \<times> int" where
  "counter_key r = (rc_tool r, rc_sender r, rc_window r)"

definition rate_count :: "policy_db \<Rightarrow> string \<times> int \<times> int \<Rightarrow> int" where
  "rate_count db k = (case sql_get counter_key k (sd_counters db) of None \<Rightarrow> 0 | Some r \<Rightarrow> rc_count r)"

definition count_call :: "string \<times> int \<times> int \<Rightarrow> policy_db \<Rightarrow> policy_db" where
  "count_call k db =
     db\<lparr>sd_counters :=
       (if sql_get counter_key k (sd_counters db) = None
        then sd_counters db @ [\<lparr>rc_tool = fst k, rc_sender = fst (snd k), rc_window = snd (snd k), rc_count = 1\<rparr>]
        else sql_update counter_key k (\<lambda>r. r\<lparr>rc_count := rc_count r + 1\<rparr>) (sd_counters db))\<rparr>"

definition evaluateRateLimit ::
  "int \<Rightarrow> evaluation_input \<Rightarrow> bool \<Rightarrow> policy_db \<Rightarrow> evaluation option \<times> policy_db" where
  "evaluateRateLimit now input recordRate db =
     (case (rate_limit_of db (ev_tool input), ev_sender input) of
        (Some limit, Some sender) \<Rightarrow>
          let k = (ev_tool input, sender, rate_window_start now);
              db' = (if recordRate then count_call k db else db);
              count = (if recordRate then rate_count db' k else rate_count db' k + 1)
          in (if count \<le> rl_max limit then None
              else Some \<lparr>er_action = Deny,
                     er_reason = [S (''Tool '' @ DQ @ ev_tool input @ DQ @ '' exceeded rate limit of ''),
                                  N (js_int (rl_max limit)), S ''/minute''],
                     er_policy = None\<rparr>, db')
      | _ \<Rightarrow> (None, db))"

section \<open>Evaluation\<close>

definition policy_order :: "policy_db \<Rightarrow> security_policy list" where
  "policy_order db = sort_key (\<lambda>p. - sp_priority p) (filter sp_enabled (sd_policies db))"

definition decision_of :: "security_policy \<Rightarrow> evaluation" where
  "decision_of p =
     \<lparr>er_action = sp_action p,
      er_reason = (case sp_reason p of
                     Some r \<Rightarrow> [S r] | None \<Rightarrow> [S (''Matched policy '' @ DQ @ sp_name p @ DQ)]),
      er_policy = Some p\<rparr>"

definition no_policy :: evaluation where
  "no_policy = \<lparr>er_action = Allow, er_reason = [S ''No matching policy''], er_policy = None\<rparr>"

fun first_match ::
  "policy_env \<Rightarrow> evaluation_input \<Rightarrow> security_policy list \<Rightarrow> security_error + evaluation" where
  "first_match env input [] = Inr no_policy"
| "first_match env input (p # ps) =
     (case matchesPolicy env p input of
        Inl (SE_unsafe m) \<Rightarrow> Inr \<lparr>er_action = Deny, er_reason = m, er_policy = Some p\<rparr>
      | Inl e \<Rightarrow> Inl e
      | Inr True \<Rightarrow> Inr (decision_of p)
      | Inr False \<Rightarrow> first_match env input ps)"

definition evaluate ::
  "policy_env \<Rightarrow> int \<Rightarrow> evaluation_input \<Rightarrow> bool \<Rightarrow> policy_db \<Rightarrow>
   (security_error, evaluation, policy_db) outcome" where
  "evaluate env now input recordRate db =
     (case evaluateRateLimit now input recordRate db of
        (Some decision, db') \<Rightarrow> ret decision db'
      | (None, db') \<Rightarrow> (first_match env input (policy_order db'), db'))"

definition recordValidation ::
  "int \<Rightarrow> string \<Rightarrow> json \<Rightarrow> policy_action \<Rightarrow> msg \<Rightarrow> security_policy option \<Rightarrow> string option \<Rightarrow> policy_db \<Rightarrow> policy_db" where
  "recordValidation now tool params action reason policy approvalId db =
     db\<lparr>sd_log := sd_log db @
       [\<lparr>vl_id = int (length (sd_log db)) + 1, vl_tool = tool, vl_params = safeStringify params,
         vl_action = action, vl_reason = reason, vl_policy_id = map_option sp_id policy,
         vl_policy_name = map_option sp_name policy, vl_approval_id = approvalId,
         vl_created_at = secs now\<rparr>]\<rparr>"

definition listValidationLog :: "policy_db \<Rightarrow> int option \<Rightarrow> validation_log_entry list" where
  "listValidationLog db limit =
     take (nat (min 500 (max 1 (nullish limit 100))))
       (order_desc vl_created_at (order_desc vl_id (sd_log db)))"

section \<open>Policies as YAML\<close>

text \<open>What the YAML library makes of a text is an argument.\<close>

definition policy_input_of :: "json \<Rightarrow> policy_input" where
  "policy_input_of j =
     \<lparr>pi_name = json_member j ''name'', pi_match = json_member j ''match'', pi_action = json_member j ''action'',
      pi_reason = json_member j ''reason'', pi_enabled = json_member j ''enabled'',
      pi_priority = json_member j ''priority''\<rparr>"

fun normalize_yaml :: "policy_env \<Rightarrow> nat \<Rightarrow> json list \<Rightarrow> security_error + normalized_policy list" where
  "normalize_yaml env i [] = Inr []"
| "normalize_yaml env i (j # js) =
     (if is_object j then
        bind_sum (normalizeCreatePolicy env (policy_input_of j)) (\<lambda>p.
        bind_sum (normalize_yaml env (i + 1) js) (\<lambda>ps. Inr (p # ps)))
      else Inl (SE_message [S ''Policy at index '', N (js_int (int i)), S '' must be an object'']))"

definition parsePoliciesYaml :: "policy_env \<Rightarrow> json \<Rightarrow> security_error + normalized_policy list" where
  "parsePoliciesYaml env parsed =
     (case (if is_object parsed then json_member parsed ''policies'' else None) of
        Some (JArr policies) \<Rightarrow> normalize_yaml env 0 policies
      | _ \<Rightarrow> Inl (SE_message [S ''Policy YAML must contain a top-level policies array'']))"

definition stringifyPolicyYaml :: "security_policy \<Rightarrow> json" where
  "stringifyPolicyYaml p =
     JObj [(''policies'', JArr [JObj (
       [(''name'', JStr (sp_name p)), (''match'', sp_match p), (''action'', JStr (action_name (sp_action p)))] @
       (case non_empty (sp_reason p) of Some r \<Rightarrow> [(''reason'', JStr r)] | None \<Rightarrow> []) @
       [(''enabled'', JBool (sp_enabled p)), (''priority'', JNum (Num (of_int (sp_priority p))))])])]"

end
