(* ===== verification/SecurityDecisions.thy ===== *)
theory SecurityDecisions
  imports SecurityPolicies
begin

text \<open>
  What the policies decide: which names match, which policy wins, how often a sender may call a tool,
  and what holds of the tables after any calls.
\<close>

section \<open>Matching names\<close>

text \<open>A name with stars, read letter by letter.\<close>

fun like :: "string \<Rightarrow> string \<Rightarrow> bool" where
  "like [] v = (v = [])"
| "like (c # cs) v =
     (if c = CHR ''*'' then
        list_ex (\<lambda>k. list_all (\<lambda>x. \<not> line_break x) (take k v) \<and> like cs (drop k v)) [0..<Suc (length v)]
      else v \<noteq> [] \<and> hd v = c \<and> like cs (tl v))"

lemma glob_Cons:
  "glob ((c # p) # ps) v \<longleftrightarrow> v \<noteq> [] \<and> hd v = c \<and> glob (p # ps) (tl v)"
  by (cases ps; cases v) (auto simp: Let_def)

lemma glob_empty_part:
  "glob ([] # q # ps) v =
     list_ex (\<lambda>k. list_all (\<lambda>x. \<not> line_break x) (take k v) \<and> glob (q # ps) (drop k v)) [0..<Suc (length v)]"
  by (simp add: Let_def)

lemma glob_like: "glob (split_on (CHR ''*'') s) v = like s v"
proof (induction s arbitrary: v)
  case Nil
  then show ?case by simp
next
  case (Cons c s)
  obtain p ps where split: "split_on (CHR ''*'') s = p # ps"
    by (metis neq_Nil_conv split_on_not_Nil)
  show ?case
  proof (cases "c = CHR ''*''")
    case True
    then have "split_on (CHR ''*'') (c # s) = [] # p # ps" using split by simp
    then have "glob (split_on (CHR ''*'') (c # s)) v =
        list_ex (\<lambda>k. list_all (\<lambda>x. \<not> line_break x) (take k v) \<and> glob (p # ps) (drop k v)) [0..<Suc (length v)]"
      by (simp only: glob_empty_part)
    also have "\<dots> = like (c # s) v" using Cons.IH split True by (simp del: upt_Suc)
    finally show ?thesis .
  next
    case False
    then have "split_on (CHR ''*'') (c # s) = (c # p) # ps" using split by simp
    then show ?thesis using Cons.IH [of "tl v"] split False by (simp add: glob_Cons del: glob.simps)
  qed
qed

lemma like_self: "CHR ''*'' \<notin> set s \<Longrightarrow> like s v = (s = v)"
proof (induction s arbitrary: v)
  case Nil
  then show ?case by auto
next
  case (Cons c s)
  then show ?case by (cases v) auto
qed

lemma like_refl: "like s s"
proof (induction s)
  case Nil
  then show ?case by simp
next
  case (Cons c s)
  show ?case
  proof (cases "c = CHR ''*''")
    case True
    then have "list_all (\<lambda>x. \<not> line_break x) (take 1 (c # s)) \<and> like s (drop 1 (c # s))"
      using Cons.IH by (simp add: line_break_def code_def)
    moreover have "(1::nat) \<in> set [0..<Suc (length (c # s))]" by (simp only: set_upt atLeastLessThan_iff) simp
    ultimately have "list_ex (\<lambda>k. list_all (\<lambda>x. \<not> line_break x) (take k (c # s)) \<and> like s (drop k (c # s)))
        [0..<Suc (length (c # s))]" unfolding list_ex_iff by blast
    then show ?thesis using True by (simp del: upt_Suc)
  next
    case False
    then show ?thesis using Cons.IH by simp
  qed
qed

text \<open>
  A name in a policy matches a tool (or module) exactly when it is \<open>*\<close>, when read letter by letter
  with every star standing for any text without line breaks it is that name, or when it has no
  underscore and the tool's name continues it with one.
\<close>

theorem matches_candidate_exact:
  "matches_candidate conv v (JStr s) =
     Inr (s = ''*'' \<or> like s v \<or> CHR ''_'' \<notin> set s \<and> take (length s + 1) v = s @ ''_'')"
proof -
  have "s = v \<or> CHR ''*'' \<in> set s \<and> glob (split_on (CHR ''*'') s) v \<longleftrightarrow> like s v"
    using like_self [of s v] like_refl [of s] glob_like [of s v] by blast
  then show ?thesis by (auto simp: matches_candidate_def starts_with_def)
qed

section \<open>Policies and operations\<close>

datatype policy_op =
    O_create policy_env int policy_input
  | O_update policy_env int policy_input
  | O_delete int
  | O_limit int string js_num
  | O_evaluate policy_env int evaluation_input bool
  | O_record int string json policy_action msg "security_policy option" "string option"

fun policy_exec :: "policy_op \<Rightarrow> policy_db \<Rightarrow> policy_db" where
  "policy_exec (O_create env now input) db = snd (createPolicy env now input db)"
| "policy_exec (O_update env pid input) db = snd (updatePolicy env pid input db)"
| "policy_exec (O_delete pid) db = snd (deletePolicy pid db)"
| "policy_exec (O_limit now tool m) db = snd (setToolRateLimit now tool m db)"
| "policy_exec (O_evaluate env now input recordRate) db = snd (evaluate env now input recordRate db)"
| "policy_exec (O_record now tool params action reason policy approvalId) db =
     recordValidation now tool params action reason policy approvalId db"

definition empty_policy_db :: policy_db where
  "empty_policy_db = \<lparr>sd_policies = [], sd_sequence = 0, sd_log = [], sd_limits = [], sd_counters = []\<rparr>"

inductive policy_reachable :: "policy_db \<Rightarrow> bool" where
  empty: "policy_reachable empty_policy_db"
| call: "policy_reachable db \<Longrightarrow> policy_reachable (policy_exec op db)"

text \<open>The ids grow in the order of the rows and none was ever used twice; names are unique.\<close>

definition policy_ok :: "policy_db \<Rightarrow> bool" where
  "policy_ok db =
     (sorted_wrt (<) (map sp_id (sd_policies db)) \<and>
      list_all (\<lambda>p. sp_id p \<le> sd_sequence db) (sd_policies db) \<and>
      distinct (map sp_name (sd_policies db)))"

lemma policy_tables_evaluate [simp]:
  "sd_policies (snd (evaluate env now input recordRate db)) = sd_policies db"
  "sd_sequence (snd (evaluate env now input recordRate db)) = sd_sequence db"
  "sd_limits (snd (evaluate env now input recordRate db)) = sd_limits db"
  by (auto simp: evaluate_def evaluateRateLimit_def count_call_def ret_def Let_def
      split: option.split prod.split)

lemma policy_ok_insert:
  assumes "policy_ok db" and "sql_get sp_name (sp_name p) (sd_policies db) = None" and "sp_id p = sd_sequence db + 1"
  shows "policy_ok (db\<lparr>sd_policies := sd_policies db @ [p], sd_sequence := sd_sequence db + 1\<rparr>)"
  using assms by (force simp: policy_ok_def sorted_wrt_append list_all_iff sql_get_None_iff)

lemma policy_ok_create: "policy_ok db \<Longrightarrow> policy_ok (snd (createPolicy env now input db))"
  by (auto simp: createPolicy_def Let_def policy_ok_insert split: sum.split option.split)

lemma distinct_names_update:
  assumes "distinct (map sp_name rows)" and "\<not> list_ex (\<lambda>p. sp_name p = name \<and> sp_id p \<noteq> pid) rows"
    and "distinct (map sp_id rows)" and "\<And>p. sp_name (f p) = name"
  shows "distinct (map sp_name (sql_update sp_id pid f rows))"
  using assms
proof (induction rows)
  case Nil
  then show ?case by (simp add: sql_update_def sql_update_where_def)
next
  case (Cons r rows)
  have step: "sql_update sp_id pid f (r # rows) = (if sp_id r = pid then f r else r) # sql_update sp_id pid f rows"
    by (simp add: sql_update_def sql_update_where_def)
  have IH: "distinct (map sp_name (sql_update sp_id pid f rows))" using Cons by simp
  show ?case
  proof (cases "sp_id r = pid")
    case True
    then have "pid \<notin> sp_id ` set rows" using Cons.prems(3) by auto
    then have same: "sql_update sp_id pid f rows = rows" by (simp add: sql_update_absent)
    have "name \<noteq> sp_name p" if "p \<in> set rows" for p
    proof -
      have "sp_id p \<noteq> pid" using that \<open>pid \<notin> sp_id ` set rows\<close> by blast
      then show ?thesis using that Cons.prems(2) by (auto simp: list_ex_iff)
    qed
    then have "name \<notin> sp_name ` set rows" by blast
    then show ?thesis using step IH True same Cons.prems(4) by simp
  next
    case False
    have "sp_name ` set (sql_update sp_id pid f rows) \<subseteq> insert name (sp_name ` set rows)"
      using Cons.prems(4) by (auto simp: sql_update_def sql_update_where_def)
    moreover have "sp_name r \<noteq> name" "sp_name r \<notin> sp_name ` set rows" using False Cons.prems(1,2) by auto
    ultimately have "sp_name r \<notin> sp_name ` set (sql_update sp_id pid f rows)" by blast
    then show ?thesis using step IH False by simp
  qed
qed

lemma sp_id_update:
  "(\<And>p. sp_id (f p) = sp_id p) \<Longrightarrow> map sp_id (sql_update sp_id pid f rows) = map sp_id rows"
  by (induction rows) (simp_all add: sql_update_def sql_update_where_def)

lemma sorted_distinct: "sorted_wrt (<) (xs :: int list) \<Longrightarrow> distinct xs"
  by (induction xs) auto

lemma list_all_map_id: "list_all (\<lambda>p. sp_id p \<le> n) rows = list_all (\<lambda>i. i \<le> n) (map sp_id rows)"
  by (simp add: list.pred_map comp_def)

lemma policy_ok_update: "policy_ok db \<Longrightarrow> policy_ok (snd (updatePolicy env pid input db))"
  by (auto simp: updatePolicy_def policy_ok_def Let_def list_all_map_id sp_id_update sorted_distinct
      intro!: distinct_names_update split: option.split sum.split simp del: list.pred_map)

lemma policy_ok_delete: "policy_ok db \<Longrightarrow> policy_ok (snd (deletePolicy pid db))"
  by (auto simp: deletePolicy_def policy_ok_def sql_delete_def list_all_iff
      intro: sorted_wrt_filter [of "\<lambda>a b. sp_id a < sp_id b", simplified] simp: sorted_wrt_map distinct_map_filter)

lemma policy_ok_exec: "policy_ok db \<Longrightarrow> policy_ok (policy_exec op db)"
proof (cases op)
  case (O_limit now tool m)
  assume "policy_ok db"
  then show ?thesis using O_limit
    by (auto simp: policy_ok_def setToolRateLimit_def split: option.split)
next
  case (O_record now tool params action reason policy approvalId)
  assume "policy_ok db"
  then show ?thesis using O_record by (simp add: policy_ok_def recordValidation_def)
next
  case (O_evaluate env now input recordRate)
  assume "policy_ok db"
  then show ?thesis using O_evaluate by (simp add: policy_ok_def)
qed (simp_all add: policy_ok_create policy_ok_update policy_ok_delete)

lemma policy_reachable_ok: "policy_reachable db \<Longrightarrow> policy_ok db"
  by (induction rule: policy_reachable.induct) (simp_all add: policy_ok_exec, simp add: policy_ok_def empty_policy_db_def)

text \<open>
  In every state the calls can reach, policies have different names, and ids that grow in the order
  in which the policies were created, so that an id is never used again.
\<close>

theorem reachable_policy_ok:
  assumes "policy_reachable db"
  shows "policy_ok db"
  using assms by (rule policy_reachable_ok)

text \<open>Transfers are held for approval; a policy of higher priority stops every tool at night.\<close>

definition example_env :: policy_env where
  "example_env = \<lparr>pv_conv = example_conv, pv_regexp = (\<lambda>p. Inr (\<lambda>s. s = p))\<rparr>"

definition hold_transfers :: policy_input where
  "hold_transfers =
     \<lparr>pi_name = Some (JStr ''hold''), pi_match = Some (JObj [(''tool'', JStr ''ton_send'')]),
      pi_action = Some (JStr ''require_approval''), pi_reason = None, pi_enabled = None, pi_priority = None\<rparr>"

definition stop_all :: policy_input where
  "stop_all =
     \<lparr>pi_name = Some (JStr ''stop''), pi_match = Some (JObj [(''tool'', JStr ''*'')]),
      pi_action = Some (JStr ''deny''), pi_reason = None, pi_enabled = None,
      pi_priority = Some (JNum (Num 10))\<rparr>"

definition hold_db :: policy_db where
  "hold_db = policy_exec (O_create example_env 5000 hold_transfers) empty_policy_db"

definition stop_db :: policy_db where
  "stop_db = policy_exec (O_create example_env 6000 stop_all) hold_db"

lemma hold_db_reachable: "policy_reachable hold_db"
  unfolding hold_db_def by (intro policy_reachable.intros)

lemma stop_db_reachable: "policy_reachable stop_db"
  unfolding stop_db_def by (intro policy_reachable.call hold_db_reachable)

theorem reachable_policy_ok_witness:
  "policy_ok stop_db \<and> map sp_id (sd_policies stop_db) = [1, 2]"
proof
  show "policy_ok stop_db" by (rule reachable_policy_ok [OF stop_db_reachable])
  show "map sp_id (sd_policies stop_db) = [1, 2]" by code_simp
qed

section \<open>Which policy decides\<close>

text \<open>What a policy says of a call, if it says anything; a pattern that is not safe denies.\<close>

definition verdict :: "policy_env \<Rightarrow> evaluation_input \<Rightarrow> security_policy \<Rightarrow> evaluation option" where
  "verdict env input p =
     (case matchesPolicy env p input of
        Inr True \<Rightarrow> Some (decision_of p)
      | Inl (SE_unsafe m) \<Rightarrow> Some \<lparr>er_action = Deny, er_reason = m, er_policy = Some p\<rparr>
      | _ \<Rightarrow> None)"

definition throws :: "policy_env \<Rightarrow> evaluation_input \<Rightarrow> security_policy \<Rightarrow> bool" where
  "throws env input p =
     (case matchesPolicy env p input of Inl (SE_unsafe m) \<Rightarrow> False | Inl e \<Rightarrow> True | Inr b \<Rightarrow> False)"

definition wins_over :: "security_policy \<Rightarrow> security_policy \<Rightarrow> bool" where
  "wins_over p q = (sp_priority q < sp_priority p \<or> sp_priority q = sp_priority p \<and> sp_id p < sp_id q)"

lemma first_match_step:
  "\<not> throws env input p \<Longrightarrow>
   first_match env input (p # ps) = (case verdict env input p of Some v \<Rightarrow> Inr v | None \<Rightarrow> first_match env input ps)"
  by (auto simp: verdict_def throws_def split: sum.split security_error.split bool.split)

lemma first_match_find:
  "list_all (\<lambda>p. \<not> throws env input p) ps \<Longrightarrow>
   first_match env input ps =
     (case find (\<lambda>p. verdict env input p \<noteq> None) ps of
        None \<Rightarrow> Inr no_policy | Some p \<Rightarrow> Inr (the (verdict env input p)))"
  by (induction ps) (auto simp: first_match_step simp del: first_match.simps(2) split: option.split)

lemma policy_order_sorted:
  assumes "policy_ok db"
  shows "sorted_wrt wins_over (policy_order db)"
proof -
  have ids: "sorted_wrt (\<lambda>p q. sp_id p < sp_id q) (filter sp_enabled (sd_policies db))"
    using assms by (simp add: policy_ok_def sorted_wrt_map sorted_wrt_filter)
  have "sorted_wrt wins_over (sort_key (\<lambda>p. - sp_priority p) xs)"
    if "sorted_wrt (\<lambda>p q. sp_id p < sp_id q) xs" for xs
    using that
  proof (induction xs)
    case Nil
    then show ?case by simp
  next
    case (Cons p xs)
    then have IH: "sorted_wrt wins_over (sort_key (\<lambda>p. - sp_priority p) xs)" by simp
    have "\<forall>q\<in>set ys. sp_id p < sp_id q \<Longrightarrow> sorted_wrt wins_over ys \<Longrightarrow>
        sorted_wrt wins_over (insort_key (\<lambda>p. - sp_priority p) p ys)" for ys
      by (induction ys) (auto simp: wins_over_def set_insort_key)
    then show ?case using Cons.prems IH by simp
  qed
  then show ?thesis using ids by (simp add: policy_order_def)
qed

lemma find_first:
  assumes "sorted_wrt R xs" and "find P xs = Some x"
  shows "x \<in> set xs \<and> P x \<and> (\<forall>y\<in>set xs. P y \<longrightarrow> y = x \<or> R x y)"
  using assms by (induction xs) (auto split: if_splits)

text \<open>
  C16. A call that its rate limit lets pass is decided by the best policy: of the enabled policies that
  say something of it, the one with the highest priority, the oldest among equals. It is allowed when
  no policy says anything. A policy whose expression is not safe denies.
\<close>

theorem best_policy_decides:
  assumes "policy_reachable db" and "fst (evaluateRateLimit now input recordRate db) = None"
    and "list_all (\<lambda>p. \<not> throws env input p) (sd_policies db)"
  shows "fst (evaluate env now input recordRate db) = Inr no_policy \<and>
           list_all (\<lambda>p. \<not> (sp_enabled p \<and> verdict env input p \<noteq> None)) (sd_policies db) \<or>
         list_ex (\<lambda>p. sp_enabled p \<and> verdict env input p \<noteq> None \<and>
             fst (evaluate env now input recordRate db) = Inr (the (verdict env input p)) \<and>
             list_all (\<lambda>q. \<not> (sp_enabled q \<and> verdict env input q \<noteq> None) \<or> q = p \<or> wins_over p q)
               (sd_policies db)) (sd_policies db)"
proof -
  let ?P = "\<lambda>p. verdict env input p \<noteq> None"
  obtain db' where rate: "evaluateRateLimit now input recordRate db = (None, db')"
    using assms(2) by (metis fst_conv surj_pair)
  have "policy_order db' = policy_order db"
    using rate by (auto simp: evaluateRateLimit_def count_call_def policy_order_def Let_def split: option.splits)
  then have ev: "fst (evaluate env now input recordRate db) = first_match env input (policy_order db)"
    by (simp add: evaluate_def rate)
  have set_order: "set (policy_order db) = {p \<in> set (sd_policies db). sp_enabled p}"
    by (auto simp: policy_order_def)
  then have "list_all (\<lambda>p. \<not> throws env input p) (policy_order db)" using assms(3) by (auto simp: list_all_iff)
  note fm = first_match_find [OF this]
  show ?thesis
  proof (cases "find ?P (policy_order db)")
    case None
    then have "fst (evaluate env now input recordRate db) = Inr no_policy" using ev fm by (simp only: option.case)
    moreover have "list_all (\<lambda>p. \<not> (sp_enabled p \<and> verdict env input p \<noteq> None)) (sd_policies db)"
      using None set_order by (auto simp: find_None_iff list_all_iff)
    ultimately show ?thesis by blast
  next
    case (Some p)
    then have "fst (evaluate env now input recordRate db) = Inr (the (verdict env input p))"
      using ev fm by (simp only: option.case)
    moreover have "sorted_wrt wins_over (policy_order db)"
      by (rule policy_order_sorted [OF policy_reachable_ok [OF assms(1)]])
    from find_first [OF this Some] have "p \<in> set (sd_policies db)" "sp_enabled p" "?P p"
      "list_all (\<lambda>q. \<not> (sp_enabled q \<and> ?P q) \<or> q = p \<or> wins_over p q) (sd_policies db)"
      using set_order by (auto simp: list_all_iff)
    ultimately show ?thesis unfolding list_ex_iff by blast
  qed
qed

definition send_call :: evaluation_input where
  "send_call = \<lparr>ev_tool = ''ton_send'', ev_params = JObj [], ev_sender = Some 7, ev_module = None\<rparr>"

definition hold_row :: security_policy where
  "hold_row =
     \<lparr>sp_id = 1, sp_name = ''hold'', sp_match = JObj [(''tool'', JStr ''ton_send'')], sp_action = Require_approval,
      sp_reason = None, sp_enabled = True, sp_priority = 0, sp_created_at = 5\<rparr>"

definition stop_row :: security_policy where
  "stop_row =
     \<lparr>sp_id = 2, sp_name = ''stop'', sp_match = JObj [(''tool'', JStr ''*'')], sp_action = Deny,
      sp_reason = None, sp_enabled = True, sp_priority = 10, sp_created_at = 6\<rparr>"

lemma stop_db_rows: "sd_policies stop_db = [hold_row, stop_row]" "sd_limits stop_db = []"
  by code_simp+

lemma verdict_stop_db:
  "\<not> throws example_env send_call hold_row" "\<not> throws example_env send_call stop_row"
  "verdict example_env send_call stop_row = Some (decision_of stop_row)"
  "\<not> wins_over hold_row stop_row" "sp_enabled stop_row" "hold_row \<noteq> stop_row"
  by (simp_all add: wins_over_def throws_def verdict_def matchesPolicy_def hold_row_def stop_row_def send_call_def Let_def
      matchesName_def matches_candidate_def matches_params_def)

theorem best_policy_decides_witness:
  "fst (evaluate example_env 9000 send_call True stop_db) = Inr (decision_of stop_row)"
proof -
  have "fst (evaluateRateLimit 9000 send_call True stop_db) = None"
    by (simp add: evaluateRateLimit_def rate_limit_of_def stop_db_rows)
  from best_policy_decides [OF stop_db_reachable this, of example_env] show ?thesis
    by (auto simp: stop_db_rows verdict_stop_db verdict_stop_db(6) [symmetric])
qed

section \<open>Rate limits\<close>

lemma rate_count_call: "rate_count (count_call k db) k' = rate_count db k' + (if k' = k then 1 else 0)"
proof (cases "sql_get counter_key k (sd_counters db)")
  case None
  then show ?thesis
    by (cases k) (auto simp: rate_count_def count_call_def counter_key_def split: option.split)
next
  case (Some r)
  have "sql_get counter_key k' (sql_update counter_key k (\<lambda>r. r\<lparr>rc_count := rc_count r + 1\<rparr>) rows) =
      map_option (\<lambda>r. if k' = k then r\<lparr>rc_count := rc_count r + 1\<rparr> else r) (sql_get counter_key k' rows)" for rows
    by (induction rows) (auto simp: sql_update_def sql_update_where_def counter_key_def)
  then show ?thesis using Some by (auto simp: rate_count_def count_call_def split: option.split)
qed

lemma rate_count_cong: "sd_counters db' = sd_counters db \<Longrightarrow> rate_count db' k = rate_count db k"
  by (simp add: rate_count_def)

definition passes_rate :: "string \<times> int \<times> int \<Rightarrow> policy_op \<Rightarrow> policy_db \<Rightarrow> nat" where
  "passes_rate k op db =
     (case op of
        O_evaluate env now input recordRate \<Rightarrow>
          if recordRate \<and> ev_sender input \<noteq> None \<and>
             k = (ev_tool input, the (ev_sender input), rate_window_start now) \<and>
             fst (evaluateRateLimit now input recordRate db) = None then 1 else 0
      | _ \<Rightarrow> 0)"

fun passed_calls :: "string \<times> int \<times> int \<Rightarrow> policy_op list \<Rightarrow> policy_db \<Rightarrow> nat" where
  "passed_calls k [] db = 0"
| "passed_calls k (op # ops) db = passes_rate k op db + passed_calls k ops (policy_exec op db)"

definition keeps_limit :: "string \<Rightarrow> policy_op \<Rightarrow> bool" where
  "keeps_limit tool op = (case op of O_limit now t m \<Rightarrow> t \<noteq> tool \<and> t \<noteq> ''*'' | _ \<Rightarrow> True)"

lemma limit_of_kept:
  assumes "keeps_limit tool op"
  shows "rate_limit_of (policy_exec op db) tool = rate_limit_of db tool"
proof (cases op)
  case (O_limit now t m)
  have "sql_get rl_tool k (sd_limits (snd (setToolRateLimit now t m db))) = sql_get rl_tool k (sd_limits db)"
    if "k \<noteq> t" for k
    using that by (auto simp: setToolRateLimit_def sql_get_update split: option.split)
  from this [of tool] this [of "''*''"] show ?thesis
    using O_limit assms by (auto simp: keeps_limit_def rate_limit_of_def split: option.split)
qed (auto simp: rate_limit_of_def createPolicy_def updatePolicy_def deletePolicy_def recordValidation_def Let_def
      split: sum.split option.split)

lemma counters_kept:
  "(\<And>env now input recordRate. op \<noteq> O_evaluate env now input recordRate) \<Longrightarrow>
   sd_counters (policy_exec op db) = sd_counters db"
  by (cases op) (auto simp: createPolicy_def updatePolicy_def deletePolicy_def recordValidation_def
      setToolRateLimit_def Let_def split: sum.split option.split)

lemma passes_step:
  assumes "rate_limit_of db tool = Some l"
  shows "int (passes_rate (tool, sender, window) op db) +
           max 0 (rl_max l - rate_count (policy_exec op db) (tool, sender, window)) \<le>
         max 0 (rl_max l - rate_count db (tool, sender, window))"
proof (cases op)
  case (O_evaluate env now input recordRate)
  let ?k = "(tool, sender, window)"
  have counters: "sd_counters (snd (evaluate env now input recordRate db)) =
      sd_counters (snd (evaluateRateLimit now input recordRate db))"
    by (auto simp: evaluate_def ret_def split: prod.split option.split)
  then have count: "rate_count (policy_exec op db) ?k = rate_count (snd (evaluateRateLimit now input recordRate db)) ?k"
    using O_evaluate by (simp add: rate_count_def)
  show ?thesis
  proof (cases "recordRate \<and> ev_sender input = Some sender \<and> ev_tool input = tool \<and> rate_window_start now = window")
    case True
    then have rate: "evaluateRateLimit now input recordRate db =
        (if rate_count db ?k + 1 \<le> rl_max l then None else fst (evaluateRateLimit now input recordRate db),
         count_call ?k db)"
      using assms by (auto simp: evaluateRateLimit_def Let_def rate_count_call)
    have "fst (evaluateRateLimit now input recordRate db) = None \<Longrightarrow> rate_count db ?k + 1 \<le> rl_max l"
      using True assms by (auto simp: evaluateRateLimit_def Let_def rate_count_call split: if_splits)
    moreover have "rate_count (snd (evaluateRateLimit now input recordRate db)) ?k = rate_count db ?k + 1"
      by (subst rate) (simp add: rate_count_call)
    ultimately show ?thesis
      using True O_evaluate count by (auto simp: passes_rate_def)
  next
    case False
    then have "passes_rate ?k op db = 0" using O_evaluate by (auto simp: passes_rate_def)
    moreover have "rate_count (snd (evaluateRateLimit now input recordRate db)) ?k \<ge> rate_count db ?k"
      by (auto simp: evaluateRateLimit_def Let_def rate_count_call split: option.split)
    ultimately show ?thesis using count by simp
  qed
qed (use counters_kept [of op db] in \<open>simp_all add: passes_rate_def rate_count_def\<close>)

text \<open>
  Within a minute at most as many calls of a tool by one sender pass the rate limit as the limit
  of the tool says, less those already counted, whatever other calls, changes of policies and changes
  of other limits come between.
\<close>

theorem tool_calls_per_minute:
  assumes "rate_limit_of db tool = Some l" and "list_all (keeps_limit tool) ops"
  shows "int (passed_calls (tool, sender, window) ops db) \<le> max 0 (rl_max l - rate_count db (tool, sender, window))"
  using assms
proof (induction ops arbitrary: db)
  case Nil
  then show ?case by simp
next
  case (Cons op ops)
  have "int (passed_calls (tool, sender, window) ops (policy_exec op db)) \<le>
      max 0 (rl_max l - rate_count (policy_exec op db) (tool, sender, window))"
    using Cons limit_of_kept [of tool op db] by simp
  then show ?case using passes_step [OF Cons.prems(1), of sender window op] by simp
qed

definition ping_db :: policy_db where
  "ping_db = policy_exec (O_limit 5000 ''ping'' (Num 2)) empty_policy_db"

definition ping_call :: policy_op where
  "ping_call =
     O_evaluate example_env 61000
       \<lparr>ev_tool = ''ping'', ev_params = JObj [], ev_sender = Some 7, ev_module = None\<rparr> True"

theorem tool_calls_per_minute_witness:
  "int (passed_calls (''ping'', 7, 60) [ping_call, ping_call, ping_call] ping_db) \<le> 2 \<and>
   passes_rate (''ping'', 7, 60) ping_call ping_db = 1"
proof
  have limit: "rate_limit_of ping_db ''ping'' = Some \<lparr>rl_tool = ''ping'', rl_max = 2, rl_updated_at = 5\<rparr>"
    by code_simp
  have unused: "rate_count ping_db (''ping'', 7, 60) = 0" by code_simp
  have "list_all (keeps_limit ''ping'') [ping_call, ping_call, ping_call]"
    by (simp add: ping_call_def keeps_limit_def)
  from tool_calls_per_minute [OF limit this, of 7 60]
  show "int (passed_calls (''ping'', 7, 60) [ping_call, ping_call, ping_call] ping_db) \<le> 2"
    by (simp add: unused del: passed_calls.simps)
  show "passes_rate (''ping'', 7, 60) ping_call ping_db = 1"
    using limit unused
    by (simp add: passes_rate_def ping_call_def evaluateRateLimit_def rate_window_start_def Let_def rate_count_call)
qed

end
