(* ===== verification/SecurityApprovals.thy ===== *)
theory SecurityApprovals
  imports SecurityDecisions
begin

text \<open>
  The approvals of src/services/approval-gate.ts and the validation of tool calls in
  src/agent/tools/validation.ts, which asks the policies and then the approvals.

  The digest (SHA-256 of the tool, the requester and the text of the parameters) is a parameter with an
  abstract result; a fresh \<open>randomUUID()\<close> and the time are arguments. The validation awaits only while
  it notifies approvers; its entry in the log, written afterwards, is a call of its own. The
  notifications are left out.
\<close>

section \<open>The approval gate\<close>

datatype approval_status = Ap_pending | Ap_approved | Ap_rejected

record 'h approval =
  ap_id :: string
  ap_tool :: string
  ap_params :: json
  ap_hash :: 'h
  ap_requester :: "int option"
  ap_chat :: "string option"
  ap_status :: approval_status
  ap_reason :: msg
  ap_policy_id :: "int option"
  ap_policy_name :: "string option"
  ap_created_at :: int
  ap_resolved_at :: "int option"
  ap_resolved_by :: "int option"
  ap_consumed_at :: "int option"

type_synonym 'h digest = "string \<Rightarrow> string \<Rightarrow> json \<Rightarrow> 'h"

definition stableStringify :: "json \<Rightarrow> json" where
  "stableStringify v = jsonify (sortValue v)"

definition int_text :: "int \<Rightarrow> string" where
  "int_text n = (if n < 0 then ''-'' @ decimal (nat (- n)) else decimal (nat n))"

definition hashAction :: "'h digest \<Rightarrow> string \<Rightarrow> json \<Rightarrow> int option \<Rightarrow> 'h" where
  "hashAction digest tool params requester =
     digest tool (case requester of None \<Rightarrow> [] | Some r \<Rightarrow> int_text r) params"

text \<open>The rows of one action: the tool, the digest and the requester.\<close>

definition same_action :: "'h digest \<Rightarrow> string \<Rightarrow> json \<Rightarrow> int option \<Rightarrow> 'h approval \<Rightarrow> bool" where
  "same_action digest tool params requester a =
     (ap_tool a = tool \<and> ap_hash a = hashAction digest tool (stableStringify params) requester \<and>
      ap_requester a = requester)"

definition first_of :: "'a list \<Rightarrow> 'a option" where
  "first_of xs = (case xs of [] \<Rightarrow> None | x # _ \<Rightarrow> Some x)"

definition get_approval :: "'h approval list \<Rightarrow> string \<Rightarrow> 'h approval option" where
  "get_approval rows i = sql_get ap_id i rows"

record approval_input =
  ai_tool :: string
  ai_params :: json
  ai_requester :: "int option"
  ai_chat :: "string option"
  ai_reason :: msg
  ai_policy_id :: "int option"
  ai_policy_name :: "string option"

definition create_approval ::
  "'h digest \<Rightarrow> int \<Rightarrow> string \<Rightarrow> approval_input \<Rightarrow> 'h approval list \<Rightarrow>
   (security_error, 'h approval, 'h approval list) outcome" where
  "create_approval digest now i input rows =
     (case first_of (order_desc ap_created_at
              (filter (\<lambda>a. same_action digest (ai_tool input) (ai_params input) (ai_requester input) a \<and>
                           ap_status a = Ap_pending) rows)) of
        Some existing \<Rightarrow> ret existing rows
      | None \<Rightarrow>
          if get_approval rows i \<noteq> None then throw (SE_unique i) rows
          else
            let params = stableStringify (ai_params input);
                rows' = rows @
                  [\<lparr>ap_id = i, ap_tool = ai_tool input, ap_params = params,
                    ap_hash = hashAction digest (ai_tool input) params (ai_requester input),
                    ap_requester = ai_requester input, ap_chat = ai_chat input, ap_status = Ap_pending,
                    ap_reason = ai_reason input, ap_policy_id = ai_policy_id input,
                    ap_policy_name = ai_policy_name input, ap_created_at = secs now, ap_resolved_at = None,
                    ap_resolved_by = None, ap_consumed_at = None\<rparr>]
            in (case get_approval rows' i of
                  None \<Rightarrow> throw (SE_message [S ''Failed to create approval request'']) rows'
                | Some created \<Rightarrow> ret created rows'))"

definition list_approvals :: "approval_status option \<Rightarrow> int option \<Rightarrow> 'h approval list \<Rightarrow> 'h approval list" where
  "list_approvals status limit rows =
     take (nat (min 500 (max 1 (nullish limit 100))))
       (order_desc ap_created_at
         (case status of None \<Rightarrow> rows | Some s \<Rightarrow> filter (\<lambda>a. ap_status a = s) rows))"

definition resolve_approval ::
  "approval_status \<Rightarrow> int \<Rightarrow> string \<Rightarrow> int option \<Rightarrow> 'h approval list \<Rightarrow> 'h approval option \<times> 'h approval list" where
  "resolve_approval status now i resolvedBy rows =
     (let rows' = sql_update_where (\<lambda>a. ap_id a = i \<and> ap_status a = Ap_pending)
            (\<lambda>a. a\<lparr>ap_status := status, ap_resolved_at := Some (secs now), ap_resolved_by := resolvedBy\<rparr>) rows
      in (get_approval rows' i, rows'))"

definition approve :: "int \<Rightarrow> string \<Rightarrow> int option \<Rightarrow> 'h approval list \<Rightarrow> 'h approval option \<times> 'h approval list" where
  "approve = resolve_approval Ap_approved"

definition reject :: "int \<Rightarrow> string \<Rightarrow> int option \<Rightarrow> 'h approval list \<Rightarrow> 'h approval option \<times> 'h approval list" where
  "reject = resolve_approval Ap_rejected"

text \<open>The newest resolution first, then the newest request; NULL comes last.\<close>

definition newest_first :: "'h approval list \<Rightarrow> 'h approval list" where
  "newest_first rows =
     sort_key (\<lambda>a. ap_resolved_at a = None)
       (order_desc (\<lambda>a. nullish (ap_resolved_at a) 0) (order_desc ap_created_at rows))"

definition consumeApproved ::
  "'h digest \<Rightarrow> int \<Rightarrow> string \<Rightarrow> json \<Rightarrow> int option \<Rightarrow> 'h approval list \<Rightarrow>
   'h approval option \<times> 'h approval list" where
  "consumeApproved digest now tool params requester rows =
     (case first_of (newest_first
              (filter (\<lambda>a. same_action digest tool params requester a \<and> ap_status a = Ap_approved \<and>
                           ap_consumed_at a = None) rows)) of
        None \<Rightarrow> (None, rows)
      | Some a \<Rightarrow>
          let rows' = sql_update_where (\<lambda>r. ap_id r = ap_id a \<and> ap_consumed_at r = None)
                (\<lambda>r. r\<lparr>ap_consumed_at := Some (secs now)\<rparr>) rows
          in (get_approval rows' (ap_id a), rows'))"

section \<open>Validating a call\<close>

record 'h security_db =
  sx_policies :: policy_db
  sx_approvals :: "'h approval list"

record tool_call =
  tc_tool :: string
  tc_params :: json
  tc_sender :: int
  tc_chat :: string
  tc_module :: "string option"

text \<open>
  The call is allowed, for an approval or not; denied; or an approval is asked for, and the entry in
  the log follows later.
\<close>

datatype validation =
    Va_allow msg "string option"
  | Va_deny msg
  | Va_ask string msg "security_policy option"

definition evaluation_of :: "tool_call \<Rightarrow> evaluation_input" where
  "evaluation_of call =
     \<lparr>ev_tool = tc_tool call, ev_params = tc_params call, ev_sender = Some (tc_sender call),
      ev_module = tc_module call\<rparr>"

definition approved_reason :: "'h approval \<Rightarrow> msg" where
  "approved_reason a =
     (case ap_resolved_by a of
        None \<Rightarrow> [S ''Approved by an approver''] | Some n \<Rightarrow> [S ''Approved by '', N (js_int n)])"

definition validateToolExecution ::
  "policy_env \<Rightarrow> 'h digest \<Rightarrow> int \<Rightarrow> string \<Rightarrow> tool_call \<Rightarrow> 'h security_db \<Rightarrow>
   (security_error, validation, 'h security_db) outcome" where
  "validateToolExecution env digest now i call db =
     (case evaluate env now (evaluation_of call) True (sx_policies db) of
        (Inl e, pdb) \<Rightarrow> throw e (db\<lparr>sx_policies := pdb\<rparr>)
      | (Inr ev, pdb) \<Rightarrow>
          let record_as = (\<lambda>action reason approvalId.
                recordValidation now (tc_tool call) (tc_params call) action reason (er_policy ev) approvalId pdb)
          in (case er_action ev of
                Allow \<Rightarrow> ret (Va_allow (er_reason ev) None)
                           (db\<lparr>sx_policies := record_as Allow (er_reason ev) None\<rparr>)
              | Deny \<Rightarrow> ret (Va_deny (er_reason ev)) (db\<lparr>sx_policies := record_as Deny (er_reason ev) None\<rparr>)
              | Require_approval \<Rightarrow>
                  (case consumeApproved digest now (tc_tool call) (tc_params call) (Some (tc_sender call))
                          (sx_approvals db) of
                     (Some a, rows) \<Rightarrow>
                       ret (Va_allow (approved_reason a) (Some (ap_id a)))
                         (db\<lparr>sx_policies := record_as Allow (approved_reason a) (Some (ap_id a)),
                             sx_approvals := rows\<rparr>)
                   | (None, rows) \<Rightarrow>
                       (case create_approval digest now i
                               \<lparr>ai_tool = tc_tool call, ai_params = tc_params call,
                                ai_requester = Some (tc_sender call), ai_chat = Some (tc_chat call),
                                ai_reason = er_reason ev, ai_policy_id = map_option sp_id (er_policy ev),
                                ai_policy_name = map_option sp_name (er_policy ev)\<rparr> rows of
                          (Inl e, rows') \<Rightarrow> throw e (db\<lparr>sx_policies := pdb, sx_approvals := rows'\<rparr>)
                        | (Inr a, rows') \<Rightarrow>
                            ret (Va_ask (ap_id a) (er_reason ev) (er_policy ev))
                              (db\<lparr>sx_policies := pdb, sx_approvals := rows'\<rparr>)))))"

section \<open>Histories\<close>

text \<open>
  The world: the database and, for the statements only, the calls that an approval has let through:
  the approval, the tool, the sender and the text of the parameters.
\<close>

record 'h security_world =
  sw_db :: "'h security_db"
  sw_granted :: "(string \<times> string \<times> int \<times> json) list"

datatype security_event =
    Sec_policy policy_op
  | Sec_approve int string "int option"
  | Sec_reject int string "int option"
  | Sec_call policy_env int string tool_call

definition granted_by :: "tool_call \<Rightarrow> security_error + validation \<Rightarrow> (string \<times> string \<times> int \<times> json) list" where
  "granted_by call v =
     (case v of
        Inr (Va_allow m (Some i)) \<Rightarrow> [(i, tc_tool call, tc_sender call, stableStringify (tc_params call))]
      | _ \<Rightarrow> [])"

fun security_step :: "'h digest \<Rightarrow> security_event \<Rightarrow> 'h security_world \<Rightarrow> 'h security_world" where
  "security_step digest (Sec_policy op) w =
     w\<lparr>sw_db := (sw_db w)\<lparr>sx_policies := policy_exec op (sx_policies (sw_db w))\<rparr>\<rparr>"
| "security_step digest (Sec_approve now i who) w =
     w\<lparr>sw_db := (sw_db w)\<lparr>sx_approvals := snd (approve now i who (sx_approvals (sw_db w)))\<rparr>\<rparr>"
| "security_step digest (Sec_reject now i who) w =
     w\<lparr>sw_db := (sw_db w)\<lparr>sx_approvals := snd (reject now i who (sx_approvals (sw_db w)))\<rparr>\<rparr>"
| "security_step digest (Sec_call env now i call) w =
     (let (v, db) = validateToolExecution env digest now i call (sw_db w)
      in w\<lparr>sw_db := db, sw_granted := sw_granted w @ granted_by call v\<rparr>)"

definition security_start :: "'h security_world" where
  "security_start = \<lparr>sw_db = \<lparr>sx_policies = empty_policy_db, sx_approvals = []\<rparr>, sw_granted = []\<rparr>"

definition security_run :: "'h digest \<Rightarrow> security_event list \<Rightarrow> 'h security_world" where
  "security_run digest evs = fold (security_step digest) evs security_start"

end
