(* ===== verification/Runs.thy ===== *)
theory Runs
  imports Main
begin

text \<open>
  Runs of a program: what every step keeps holds at the end, and a program whose steps have the effect
  of abstract steps has the effect of an abstract run.
\<close>

fun allowed_run :: "('e \<Rightarrow> 's \<Rightarrow> 's) \<Rightarrow> ('e \<Rightarrow> 's \<Rightarrow> bool) \<Rightarrow> 'e list \<Rightarrow> 's \<Rightarrow> bool" where
  "allowed_run step allowed [] s = True"
| "allowed_run step allowed (e # es) s = (allowed e s \<and> allowed_run step allowed es (step e s))"

lemma allowed_run_any [simp]: "allowed_run step (\<lambda>e s. True) es s"
  by (induction es arbitrary: s) simp_all

lemma allowed_run_events: "allowed_run step (\<lambda>e s. p e) es s = list_all p es"
  by (induction es arbitrary: s) simp_all

lemma allowed_run_append:
  "allowed_run step allowed (xs @ ys) s \<longleftrightarrow> allowed_run step allowed xs s \<and> allowed_run step allowed ys (fold step xs s)"
  by (induction xs arbitrary: s) simp_all

text \<open>An invariant of the steps that are allowed.\<close>

locale step_invariant =
  fixes step :: "'e \<Rightarrow> 's \<Rightarrow> 's" and allowed :: "'e \<Rightarrow> 's \<Rightarrow> bool" and good :: "'s \<Rightarrow> bool"
  assumes good_step: "good s \<Longrightarrow> allowed e s \<Longrightarrow> good (step e s)"
begin

lemma good_run: "good s \<Longrightarrow> allowed_run step allowed es s \<Longrightarrow> good (fold step es s)"
  by (induction es arbitrary: s) (simp_all add: good_step)

text \<open>It holds at every point of the run.\<close>

lemma good_prefix:
  assumes "good s" and "allowed_run step allowed (xs @ ys) s"
  shows "good (fold step xs s)"
  using assms good_run by (simp add: allowed_run_append)

end

text \<open>Steps that have the effect of abstract ones where the invariant holds.\<close>

locale step_refinement = step_invariant step "\<lambda>e s. True" good
  for step :: "'e \<Rightarrow> 's \<Rightarrow> 's" and good :: "'s \<Rightarrow> bool" +
  fixes abs :: "'s \<Rightarrow> 'a" and abs_step :: "'e \<Rightarrow> 'a \<Rightarrow> 'a"
  assumes simulation: "good s \<Longrightarrow> abs (step e s) = abs_step e (abs s)"
begin

lemma run_refines: "good s \<Longrightarrow> abs (fold step es s) = fold abs_step es (abs s)"
  by (induction es arbitrary: s) (simp_all add: simulation good_step)

end

end
