(* ===== verification/SecurityGuarantees.thy ===== *)
theory SecurityGuarantees
  imports SecurityApprovals Runs
begin

text \<open>
  What the approvals guarantee in every history of policies, approvers and tool calls: their life, that
  each lets one call through, the call it was given for, and only after an approver has agreed.
\<close>

section \<open>The table of approvals\<close>

definition approval_fine :: "'h digest \<Rightarrow> 'h approval \<Rightarrow> bool" where
  "approval_fine digest a =
     ((ap_status a = Ap_pending \<longleftrightarrow> ap_resolved_at a = None) \<and>
      (ap_consumed_at a \<noteq> None \<longrightarrow> ap_status a = Ap_approved) \<and>
      ap_hash a = hashAction digest (ap_tool a) (ap_params a) (ap_requester a))"

definition action_key :: "'h approval \<Rightarrow> string \<times> 'h \<times> int option" where
  "action_key a = (ap_tool a, ap_hash a, ap_requester a)"

definition approvals_ok :: "'h digest \<Rightarrow> 'h approval list \<Rightarrow> bool" where
  "approvals_ok digest rows =
     (distinct (map ap_id rows) \<and> list_all (approval_fine digest) rows \<and>
      distinct (map action_key (filter (\<lambda>a. ap_status a = Ap_pending) rows)))"

lemma map_id_update_where:
  "(\<And>a. ap_id (f a) = ap_id a) \<Longrightarrow> map ap_id (sql_update_where p f rows) = map ap_id rows"
  by (induction rows) (simp_all add: sql_update_where_def)

lemma pending_update_where:
  assumes "\<And>a. p a \<Longrightarrow> ap_status (f a) \<noteq> Ap_pending"
  shows "filter (\<lambda>a. ap_status a = Ap_pending) (sql_update_where p f rows) =
         filter (\<lambda>a. ap_status a = Ap_pending \<and> \<not> p a) rows"
  using assms by (induction rows) (auto simp: sql_update_where_def)

lemma distinct_filter_more:
  "distinct (map g (filter P rows)) \<Longrightarrow> distinct (map g (filter (\<lambda>a. P a \<and> Q a) rows))"
  by (induction rows) (auto split: if_splits)

lemma pending_untouched:
  "(\<forall>r\<in>set rows. p r \<longrightarrow> ap_status r \<noteq> Ap_pending \<and> ap_status (f r) \<noteq> Ap_pending) \<Longrightarrow>
   filter (\<lambda>a. ap_status a = Ap_pending) (sql_update_where p f rows) = filter (\<lambda>a. ap_status a = Ap_pending) rows"
  by (induction rows) (auto simp: sql_update_where_def)

lemma approvals_ok_resolve:
  assumes "approvals_ok digest rows" and "status \<noteq> Ap_pending"
  shows "approvals_ok digest (snd (resolve_approval status now i by rows))"
  using assms
  by (auto simp: approvals_ok_def resolve_approval_def Let_def map_id_update_where pending_update_where
      list_all_iff approval_fine_def set_update_where intro: distinct_filter_more)

lemma first_of_Some: "first_of xs = Some x \<Longrightarrow> x \<in> set xs"
  by (auto simp: first_of_def split: list.splits)

lemma first_of_None: "first_of xs = None \<longleftrightarrow> xs = []"
  by (auto simp: first_of_def split: list.splits)

lemma set_newest_first [simp]: "set (newest_first rows) = set rows"
  by (simp add: newest_first_def)

lemma consume_cases:
  assumes "consumeApproved digest now tool params requester rows = (found, rows')"
  shows "found = None \<and> rows' = rows \<or>
    (\<exists>a\<in>set rows. same_action digest tool params requester a \<and> ap_status a = Ap_approved \<and>
       ap_consumed_at a = None \<and> (\<exists>b. found = Some b \<and> ap_id b = ap_id a) \<and>
       rows' = sql_update_where (\<lambda>r. ap_id r = ap_id a \<and> ap_consumed_at r = None)
                 (\<lambda>r. r\<lparr>ap_consumed_at := Some (secs now)\<rparr>) rows)"
proof (cases "first_of (newest_first
              (filter (\<lambda>a. same_action digest tool params requester a \<and> ap_status a = Ap_approved \<and>
                           ap_consumed_at a = None) rows))")
  case None
  then show ?thesis using assms by (simp add: consumeApproved_def)
next
  case (Some a)
  let ?rows = "sql_update_where (\<lambda>r. ap_id r = ap_id a \<and> ap_consumed_at r = None)
      (\<lambda>r. r\<lparr>ap_consumed_at := Some (secs now)\<rparr>) rows"
  have a: "a \<in> set rows" "same_action digest tool params requester a" "ap_status a = Ap_approved" "ap_consumed_at a = None"
    using first_of_Some [OF Some] by auto
  have "ap_id ` set ?rows = ap_id ` set rows"
    using map_id_update_where [of "\<lambda>r. r\<lparr>ap_consumed_at := Some (secs now)\<rparr>"] by (metis (no_types, lifting) approval.select_convs(1) approval.surjective approval.update_convs(14) list.set_map)
  then have "get_approval ?rows (ap_id a) \<noteq> None" using a(1) by (simp add: get_approval_def sql_get_None_iff)
  then obtain b where b: "get_approval ?rows (ap_id a) = Some b" by blast
  then have "ap_id b = ap_id a" by (auto simp: get_approval_def dest: sql_get_SomeD)
  moreover have "found = Some b" "rows' = ?rows" using assms Some b by (simp_all add: consumeApproved_def Let_def)
  ultimately show ?thesis using a by blast
qed

lemma approvals_ok_consume:
  assumes ok: "approvals_ok digest rows" and a: "a \<in> set rows" "ap_status a = Ap_approved"
    and rows': "rows' = sql_update_where (\<lambda>r. ap_id r = ap_id a \<and> ap_consumed_at r = None)
      (\<lambda>r. r\<lparr>ap_consumed_at := Some now\<rparr>) rows"
  shows "approvals_ok digest rows'"
proof -
  have same: "r = a" if "r \<in> set rows" "ap_id r = ap_id a" for r
    using that ok a(1) by (auto simp: approvals_ok_def distinct_map dest: inj_onD)
  have "filter (\<lambda>r. ap_status r = Ap_pending) rows' = filter (\<lambda>r. ap_status r = Ap_pending) rows"
    unfolding rows'
  proof (rule pending_untouched, intro ballI impI)
    fix r
    assume "r \<in> set rows" "ap_id r = ap_id a \<and> ap_consumed_at r = None"
    then have "r = a" using same by blast
    then show "ap_status r \<noteq> Ap_pending \<and> ap_status (r\<lparr>ap_consumed_at := Some now\<rparr>) \<noteq> Ap_pending"
      using a(2) by simp
  qed
  then show ?thesis
    using ok same a(2) rows'
    by (auto simp: approvals_ok_def map_id_update_where list_all_iff set_update_where approval_fine_def)
qed

lemma create_cases:
  assumes "create_approval digest now i input rows = (v, rows')"
  shows "rows' = rows \<or>
    (\<exists>a. rows' = rows @ [a] \<and> get_approval rows i = None \<and> ap_id a = i \<and> ap_status a = Ap_pending \<and>
       ap_resolved_at a = None \<and> ap_consumed_at a = None \<and>
       ap_hash a = hashAction digest (ap_tool a) (ap_params a) (ap_requester a) \<and>
       action_key a \<notin> action_key ` set (filter (\<lambda>a. ap_status a = Ap_pending) rows))"
proof (cases "first_of (order_desc ap_created_at
              (filter (\<lambda>a. same_action digest (ai_tool input) (ai_params input) (ai_requester input) a \<and>
                           ap_status a = Ap_pending) rows))")
  case (Some a)
  then show ?thesis using assms by (simp add: create_approval_def ret_def)
next
  case None
  then have "order_desc ap_created_at (filter (\<lambda>a. same_action digest (ai_tool input) (ai_params input) (ai_requester input) a \<and>
      ap_status a = Ap_pending) rows) = []" by (simp add: first_of_None)
  then have "set (filter (\<lambda>a. same_action digest (ai_tool input) (ai_params input) (ai_requester input) a \<and>
      ap_status a = Ap_pending) rows) = {}" by (metis list.set(1) set_order_desc)
  then have "\<forall>a\<in>set rows. ap_status a = Ap_pending \<longrightarrow>
      \<not> same_action digest (ai_tool input) (ai_params input) (ai_requester input) a" by auto
  then have new: "(ai_tool input, hashAction digest (ai_tool input) (stableStringify (ai_params input)) (ai_requester input),
      ai_requester input) \<notin> action_key ` set (filter (\<lambda>a. ap_status a = Ap_pending) rows)"
    by (auto simp: action_key_def same_action_def)
  show ?thesis
  proof (cases "get_approval rows i")
    case (Some a)
    then show ?thesis using assms None by (simp add: create_approval_def throw_def)
  next
    case free: None
    then show ?thesis
      using assms None new
      by (auto simp: create_approval_def Let_def ret_def throw_def get_approval_def action_key_def)
  qed
qed

lemma approvals_ok_append:
  assumes "approvals_ok digest rows" and "get_approval rows (ap_id a) = None" and "approval_fine digest a"
    and "action_key a \<notin> action_key ` set (filter (\<lambda>a. ap_status a = Ap_pending) rows)"
  shows "approvals_ok digest (rows @ [a])"
  using assms by (auto simp: approvals_ok_def get_approval_def sql_get_None_iff)

lemma approvals_ok_create:
  assumes "approvals_ok digest rows" and "create_approval digest now i input rows = (v, rows')"
  shows "approvals_ok digest rows'"
  using create_cases [OF assms(2)]
proof
  assume "rows' = rows"
  then show ?thesis using assms(1) by simp
next
  assume "\<exists>a. rows' = rows @ [a] \<and> get_approval rows i = None \<and> ap_id a = i \<and> ap_status a = Ap_pending \<and>
       ap_resolved_at a = None \<and> ap_consumed_at a = None \<and>
       ap_hash a = hashAction digest (ap_tool a) (ap_params a) (ap_requester a) \<and>
       action_key a \<notin> action_key ` set (filter (\<lambda>a. ap_status a = Ap_pending) rows)"
  then show ?thesis using approvals_ok_append [OF assms(1)] by (auto simp: approval_fine_def)
qed

section \<open>Granted calls\<close>

definition used_for :: "'h digest \<Rightarrow> string \<times> string \<times> int \<times> json \<Rightarrow> 'h approval \<Rightarrow> bool" where
  "used_for digest g a =
     (case g of (i, tool, sender, params) \<Rightarrow>
        ap_id a = i \<and> ap_status a = Ap_approved \<and> ap_consumed_at a \<noteq> None \<and> ap_tool a = tool \<and>
        ap_requester a = Some sender \<and> ap_hash a = hashAction digest tool params (Some sender))"

definition security_inv :: "'h digest \<Rightarrow> 'h security_world \<Rightarrow> bool" where
  "security_inv digest w =
     (approvals_ok digest (sx_approvals (sw_db w)) \<and> distinct (map fst (sw_granted w)) \<and>
      list_all (\<lambda>g. list_ex (used_for digest g) (sx_approvals (sw_db w))) (sw_granted w))"

text \<open>Rows that are used stay as they are.\<close>

definition keeps_used :: "'h approval list \<Rightarrow> 'h approval list \<Rightarrow> bool" where
  "keeps_used rows rows' = (\<forall>a\<in>set rows. ap_consumed_at a \<noteq> None \<longrightarrow> a \<in> set rows')"

lemma keeps_used_update:
  "(\<And>a. p a \<Longrightarrow> a \<in> set rows \<Longrightarrow> ap_consumed_at a = None) \<Longrightarrow> keeps_used rows (sql_update_where p f rows)"
  by (force simp: keeps_used_def set_update_where)

lemma keeps_used_resolve:
  "approvals_ok digest rows \<Longrightarrow> keeps_used rows (snd (resolve_approval status now i by rows))"
  unfolding resolve_approval_def Let_def snd_conv
  by (rule keeps_used_update) (auto simp: approvals_ok_def list_all_iff approval_fine_def)

lemma used_kept:
  "list_all (\<lambda>g. list_ex (used_for digest g) rows) granted \<Longrightarrow> keeps_used rows rows' \<Longrightarrow>
   list_all (\<lambda>g. list_ex (used_for digest g) rows') granted"
  by (fastforce simp: list_all_iff list_ex_iff keeps_used_def used_for_def)

lemma validate_cases:
  assumes "validateToolExecution env digest now i call db = (v, db')"
  shows "granted_by call v = [] \<and>
           (sx_approvals db' = sx_approvals db \<or>
            (\<exists>w input. create_approval digest now i input (sx_approvals db) = (w, sx_approvals db'))) \<or>
         (\<exists>a. consumeApproved digest now (tc_tool call) (tc_params call) (Some (tc_sender call)) (sx_approvals db) =
                (Some a, sx_approvals db') \<and>
              granted_by call v = [(ap_id a, tc_tool call, tc_sender call, stableStringify (tc_params call))])"
proof -
  obtain e pdb where ev: "evaluate env now (evaluation_of call) True (sx_policies db) = (e, pdb)" by (metis surj_pair)
  obtain found rows where con: "consumeApproved digest now (tc_tool call) (tc_params call) (Some (tc_sender call))
      (sx_approvals db) = (found, rows)" by (metis surj_pair)
  show ?thesis
  proof (cases e)
    case (Inl x)
    then show ?thesis using assms ev by (auto simp: validateToolExecution_def throw_def granted_by_def)
  next
    case (Inr x)
    show ?thesis
    proof (cases "er_action x = Require_approval")
      case False
      then show ?thesis
        using assms ev Inr
        by (cases "er_action x") (auto simp: validateToolExecution_def ret_def granted_by_def Let_def)
    next
      case True
      show ?thesis
      proof (cases found)
        case (Some a)
        then show ?thesis
          using assms ev Inr True con by (auto simp: validateToolExecution_def ret_def granted_by_def Let_def)
      next
        case None
        then have "rows = sx_approvals db" using consume_cases [OF con] by auto
        then show ?thesis
          using assms ev Inr True con None
          by (auto simp: validateToolExecution_def ret_def throw_def granted_by_def Let_def split: prod.splits sum.splits)
      qed
    qed
  qed
qed

lemma hash_of_same_action:
  "same_action digest tool params requester a \<Longrightarrow>
   ap_tool a = tool \<and> ap_requester a = requester \<and> ap_hash a = hashAction digest tool (stableStringify params) requester"
  by (simp add: same_action_def)

lemma keeps_used_refl: "keeps_used rows rows"
  by (simp add: keeps_used_def)

lemma create_keeps_used: "create_approval digest now i input rows = (v, rows') \<Longrightarrow> keeps_used rows rows'"
  using create_cases by (fastforce simp: keeps_used_def)

lemma security_inv_call:
  assumes inv: "security_inv digest w"
  shows "security_inv digest (security_step digest (Sec_call env now i call) w)"
proof -
  let ?db = "sw_db w"
  let ?rows = "sx_approvals ?db"
  obtain v db' where v: "validateToolExecution env digest now i call ?db = (v, db')" by (metis surj_pair)
  have ok: "approvals_ok digest ?rows" and used: "list_all (\<lambda>g. list_ex (used_for digest g) ?rows) (sw_granted w)"
    and dist: "distinct (map fst (sw_granted w))"
    using inv by (simp_all add: security_inv_def)
  have step: "security_step digest (Sec_call env now i call) w =
      w\<lparr>sw_db := db', sw_granted := sw_granted w @ granted_by call v\<rparr>" by (simp add: v)
  consider (none) "granted_by call v = []" "sx_approvals db' = ?rows"
    | (asked) c input where "granted_by call v = []" "create_approval digest now i input ?rows = (c, sx_approvals db')"
    | (granted) a where "consumeApproved digest now (tc_tool call) (tc_params call) (Some (tc_sender call)) ?rows =
          (Some a, sx_approvals db')"
        "granted_by call v = [(ap_id a, tc_tool call, tc_sender call, stableStringify (tc_params call))]"
    using validate_cases [OF v] by blast
  then show ?thesis
  proof cases
    case none
    then show ?thesis unfolding step using ok used dist by (simp add: security_inv_def)
  next
    case (asked c input)
    then show ?thesis
      unfolding step
      using approvals_ok_create [OF ok asked(2)] used_kept [OF used create_keeps_used [OF asked(2)]] dist
      by (simp add: security_inv_def)
  next
    case (granted b)
    obtain a where a: "a \<in> set ?rows" "same_action digest (tc_tool call) (tc_params call) (Some (tc_sender call)) a"
      "ap_status a = Ap_approved" "ap_consumed_at a = None" "ap_id b = ap_id a"
      and rows': "sx_approvals db' = sql_update_where (\<lambda>r. ap_id r = ap_id a \<and> ap_consumed_at r = None)
          (\<lambda>r. r\<lparr>ap_consumed_at := Some (secs now)\<rparr>) ?rows"
      using consume_cases [OF granted(1)] by auto
    have ok': "approvals_ok digest (sx_approvals db')" by (rule approvals_ok_consume [OF ok a(1,3) rows'])
    have "keeps_used ?rows (sx_approvals db')" unfolding rows' by (rule keeps_used_update) simp
    note used' = used_kept [OF used this]
    have "a\<lparr>ap_consumed_at := Some (secs now)\<rparr> \<in> set (sx_approvals db')"
      unfolding rows' set_update_where using a by force
    then have new: "list_ex (used_for digest (ap_id a, tc_tool call, tc_sender call, stableStringify (tc_params call)))
        (sx_approvals db')"
      using a(3) hash_of_same_action [OF a(2)] unfolding list_ex_iff used_for_def
      by (intro bexI [of _ "a\<lparr>ap_consumed_at := Some (secs now)\<rparr>"]) auto
    have "ap_id a \<notin> fst ` set (sw_granted w)"
    proof
      assume "ap_id a \<in> fst ` set (sw_granted w)"
      then obtain g where "g \<in> set (sw_granted w)" "fst g = ap_id a" by auto
      then obtain r where "r \<in> set ?rows" "ap_id r = ap_id a" "ap_consumed_at r \<noteq> None"
        using used by (cases g) (auto simp: list_all_iff list_ex_iff used_for_def)
      moreover have "r = a"
        using ok a(1) \<open>r \<in> set ?rows\<close> \<open>ap_id r = ap_id a\<close> by (auto simp: approvals_ok_def distinct_map dest: inj_onD)
      ultimately show False using a(4) by simp
    qed
    then show ?thesis
      unfolding step using ok' used' new dist granted(2) a(5) by (simp add: security_inv_def)
  qed
qed

lemma security_inv_step:
  assumes inv: "security_inv digest w"
  shows "security_inv digest (security_step digest e w)"
proof (cases e)
  case (Sec_policy op)
  then show ?thesis using inv by (simp add: security_inv_def)
next
  case (Sec_approve now i who)
  have ok: "approvals_ok digest (sx_approvals (sw_db w))" using inv by (simp add: security_inv_def)
  show ?thesis
    using inv approvals_ok_resolve [OF ok, of Ap_approved now i who] used_kept keeps_used_resolve [OF ok]
    by (simp add: Sec_approve security_inv_def approve_def) blast
next
  case (Sec_reject now i who)
  have ok: "approvals_ok digest (sx_approvals (sw_db w))" using inv by (simp add: security_inv_def)
  show ?thesis
    using inv approvals_ok_resolve [OF ok, of Ap_rejected now i who] used_kept keeps_used_resolve [OF ok]
    by (simp add: Sec_reject security_inv_def reject_def) blast
next
  case (Sec_call env now i call)
  then show ?thesis using security_inv_call [OF inv] by simp
qed

interpretation secured: step_invariant "security_step digest" "\<lambda>e w. True" "security_inv digest" for digest
  by unfold_locales (rule security_inv_step)

lemma security_inv_run: "security_inv digest (security_run digest evs)"
  unfolding security_run_def
  by (rule secured.good_run) (simp_all add: security_inv_def security_start_def approvals_ok_def)

lemma granted_calls_sound:
  assumes "\<And>tool requester p q. digest tool requester p = digest tool requester q \<Longrightarrow> p = q"
  shows "distinct (map fst (sw_granted (security_run digest evs))) \<and>
         list_all (\<lambda>(i, tool, sender, params).
             list_ex (\<lambda>a. ap_id a = i \<and> ap_status a = Ap_approved \<and> ap_consumed_at a \<noteq> None \<and> ap_tool a = tool \<and>
                          ap_requester a = Some sender \<and> ap_params a = params)
               (sx_approvals (sw_db (security_run digest evs))))
           (sw_granted (security_run digest evs))"
proof -
  let ?w = "security_run digest evs"
  let ?rows = "sx_approvals (sw_db ?w)"
  have inv: "security_inv digest ?w" by (rule security_inv_run)
  have "list_ex (\<lambda>a. ap_id a = i \<and> ap_status a = Ap_approved \<and> ap_consumed_at a \<noteq> None \<and> ap_tool a = tool \<and>
                     ap_requester a = Some sender \<and> ap_params a = params) ?rows"
    if "(i, tool, sender, params) \<in> set (sw_granted ?w)" for i tool sender params
  proof -
    have "list_ex (used_for digest (i, tool, sender, params)) ?rows"
      using inv that unfolding security_inv_def list_all_iff by blast
    then obtain a where a: "a \<in> set ?rows" "used_for digest (i, tool, sender, params) a"
      by (auto simp: list_ex_iff)
    have "approval_fine digest a" using inv a(1) by (auto simp: security_inv_def approvals_ok_def list_all_iff)
    then have "digest tool (int_text sender) (ap_params a) = digest tool (int_text sender) params"
      using a(2) by (auto simp: used_for_def approval_fine_def hashAction_def)
    then have "ap_params a = params" by (rule assms)
    then show ?thesis using a by (auto simp: list_ex_iff used_for_def)
  qed
  then show ?thesis using inv by (auto simp: security_inv_def list_all_iff)
qed

text \<open>
  C14. In every history an approval lets at most one call through, and only the call it was approved
  for: a call of the same tool by the same sender with the same parameters, up to the order of their
  members. This rests on the digest telling different parameters of a tool and requester apart.
\<close>

theorem approvals_grant_one_call:
  assumes "\<And>tool requester p q. digest tool requester p = digest tool requester q \<Longrightarrow> p = q"
  shows "distinct (map fst (sw_granted (security_run digest evs))) \<and>
         list_all (\<lambda>(i, tool, sender, params).
             list_ex (\<lambda>a. ap_id a = i \<and> ap_status a = Ap_approved \<and> ap_consumed_at a \<noteq> None \<and> ap_tool a = tool \<and>
                          ap_requester a = Some sender \<and> ap_params a = params)
               (sx_approvals (sw_db (security_run digest evs))))
           (sw_granted (security_run digest evs))"
  by (rule granted_calls_sound [OF assms])

definition plain_digest :: "(string \<times> string \<times> json) digest" where
  "plain_digest tool requester params = (tool, requester, params)"

definition transfer :: "rat \<Rightarrow> tool_call" where
  "transfer amount =
     \<lparr>tc_tool = ''ton_send'', tc_params = JObj [(''amount'', JNum (Num amount))], tc_sender = 7,
      tc_chat = ''c'', tc_module = None\<rparr>"

text \<open>A transfer is asked for, approved, carried out, and held again when it is repeated.\<close>

definition held_transfers :: "security_event list" where
  "held_transfers =
     [Sec_policy (O_create example_env 5000 hold_transfers),
      Sec_call example_env 6000 ''a1'' (transfer 3),
      Sec_approve 7000 ''a1'' (Some 1),
      Sec_call example_env 8000 ''a2'' (transfer 3),
      Sec_call example_env 9000 ''a3'' (transfer 3)]"

theorem approvals_grant_one_call_witness:
  "distinct (map fst (sw_granted (security_run plain_digest held_transfers))) \<and>
   map fst (sw_granted (security_run plain_digest held_transfers)) = [''a1'']"
proof
  show "distinct (map fst (sw_granted (security_run plain_digest held_transfers)))"
    using approvals_grant_one_call [of plain_digest] by (simp add: plain_digest_def)
  show "map fst (sw_granted (security_run plain_digest held_transfers)) = [''a1'']" by code_simp
qed

text \<open>
  In every history each approval is pending until it is resolved, only approved ones are ever used,
  and for each action at most one request is pending.
\<close>

theorem reachable_approvals_ok:
  "approvals_ok digest (sx_approvals (sw_db (security_run digest evs)))"
  using security_inv_run [of digest evs] by (simp add: security_inv_def)

section \<open>Only approvers grant\<close>

definition approves :: "string \<Rightarrow> security_event \<Rightarrow> bool" where
  "approves i e = (case e of Sec_approve now j who \<Rightarrow> j = i | _ \<Rightarrow> False)"

definition unapproved :: "string \<Rightarrow> 'h security_world \<Rightarrow> bool" where
  "unapproved i w =
     (list_all (\<lambda>a. ap_id a = i \<longrightarrow> ap_status a \<noteq> Ap_approved) (sx_approvals (sw_db w)) \<and>
      i \<notin> fst ` set (sw_granted w))"

lemma unapproved_step:
  assumes w: "unapproved i w" and e: "\<not> approves i e"
  shows "unapproved i (security_step digest e w)"
proof (cases e)
  case (Sec_policy op)
  then show ?thesis using w by (simp add: unapproved_def)
next
  case (Sec_approve now j who)
  then show ?thesis
    using w e by (auto simp: unapproved_def approves_def approve_def resolve_approval_def Let_def list_all_iff set_update_where)
next
  case (Sec_reject now j who)
  then show ?thesis
    using w by (auto simp: unapproved_def reject_def resolve_approval_def Let_def list_all_iff set_update_where)
next
  case (Sec_call env now j call)
  let ?rows = "sx_approvals (sw_db w)"
  obtain v db' where v: "validateToolExecution env digest now j call (sw_db w) = (v, db')" by (metis surj_pair)
  consider (none) "granted_by call v = []" "sx_approvals db' = ?rows"
    | (asked) c input where "granted_by call v = []" "create_approval digest now j input ?rows = (c, sx_approvals db')"
    | (granted) a where "consumeApproved digest now (tc_tool call) (tc_params call) (Some (tc_sender call)) ?rows =
          (Some a, sx_approvals db')"
        "granted_by call v = [(ap_id a, tc_tool call, tc_sender call, stableStringify (tc_params call))]"
    using validate_cases [OF v] by blast
  then show ?thesis
  proof cases
    case none
    then show ?thesis using w Sec_call v by (simp add: unapproved_def)
  next
    case (asked c input)
    then show ?thesis using w Sec_call v create_cases [OF asked(2)] by (auto simp: unapproved_def)
  next
    case (granted b)
    obtain a where a: "a \<in> set ?rows" "ap_status a = Ap_approved" "ap_id b = ap_id a"
      and rows': "sx_approvals db' = sql_update_where (\<lambda>r. ap_id r = ap_id a \<and> ap_consumed_at r = None)
          (\<lambda>r. r\<lparr>ap_consumed_at := Some (secs now)\<rparr>) ?rows"
      using consume_cases [OF granted(1)] by auto
    then have "ap_id a \<noteq> i" using w by (auto simp: unapproved_def list_all_iff)
    then show ?thesis
      using w Sec_call v granted(2) a(3) rows' by (auto simp: unapproved_def list_all_iff set_update_where)
  qed
qed

interpretation unheard: step_invariant "security_step digest" "\<lambda>e w. \<not> approves i e" "unapproved i" for digest i
  by unfold_locales (rule unapproved_step)

text \<open>
  No call is let through by an approval that nobody approved: as long as no approver has approved
  the id \<open>i\<close>, no call has been granted under it.
\<close>

theorem grants_need_an_approver:
  assumes "list_all (\<lambda>e. \<not> approves i e) evs"
  shows "i \<notin> fst ` set (sw_granted (security_run digest evs))"
proof -
  have "unapproved i security_start" by (simp add: unapproved_def security_start_def)
  then have "unapproved i (security_run digest evs)"
    unfolding security_run_def by (rule unheard.good_run) (simp add: allowed_run_events assms)
  then show ?thesis by (simp add: unapproved_def)
qed

theorem grants_need_an_approver_witness:
  "''a2'' \<notin> fst ` set (sw_granted (security_run plain_digest held_transfers))"
proof -
  have "list_all (\<lambda>e. \<not> approves ''a2'' e) held_transfers" by (simp add: held_transfers_def approves_def)
  then show ?thesis by (rule grants_need_an_approver)
qed

section \<open>Two traps for those who write policies\<close>

text \<open>
  A condition that a parameter equals null is met by a call that lacks the parameter, and never by
  one in which it is null, unless the condition also has a member \<open>eq\<close> that is null.
\<close>

theorem equals_null_inverted:
  "matchesParam env name key None (JObj [(''equals'', JNull)]) = Inr True \<and>
   matchesParam env name key (Some JNull) (JObj [(''equals'', JNull)]) = Inr False"
  by (simp add: matchesParam_def isCondition_def CONDITION_KEYS_def Let_def check_pattern_def check_in_def
      check_equals_def check_contains_def check_number_def deepEqual_def)

lemma starts_with_Nil: "starts_with [] (m @ ''_'') \<longleftrightarrow> False"
  by (simp add: starts_with_def)

text \<open>
  A policy for a module by name, without a star, never matches a call whose module is not given.
\<close>

theorem module_policies_inert:
  assumes "json_member (sp_match p) ''module'' = Some (JStr m)" and "m \<noteq> []" and "CHR ''*'' \<notin> set m"
    and "ev_module input = None"
  shows "matchesPolicy env p input \<noteq> Inr True"
proof -
  have "matchesName (pv_conv env) (nullish (ev_module input) []) (JStr m) = Inr False"
    using assms by (auto simp: matchesName_def matches_candidate_def starts_with_Nil)
  then show ?thesis
    using assms(1)
    by (cases "matchesName (pv_conv env) (ev_tool input) (the (json_member (sp_match p) ''tool''))")
      (auto simp: matchesPolicy_def Let_def split: option.splits if_splits)
qed

theorem module_policies_inert_witness:
  "matchesPolicy example_env (hold_row\<lparr>sp_match := JObj [(''module'', JStr ''deals'')]\<rparr>) send_call \<noteq> Inr True"
  by (rule module_policies_inert [of _ "''deals''"]) (simp_all add: send_call_def)

end
