(* ===== verification/ToolRegistry.thy ===== *)
theory ToolRegistry
  imports SecurityGuarantees "HOL-Library.AList"
begin

text \<open>
  The tool registry of src/agent/tools/registry.ts with the levels of src/agent/tools/scope.ts, the table
  of src/memory/tool-config.ts and the permissions of groups in src/agent/tools/module-permissions.ts:
  which tools there are, who may use them, and the execution of a call.

  A \<open>Map\<close> is an association list in insertion order. The executor of a tool and the parameters it
  declares are abstract; what the validation of arguments, the executors and the messages of
  errors do is given by the environment. The database of the registry and that of a call are the same.
\<close>

section \<open>Scopes, levels and modes\<close>

datatype tool_scope = Open | Always | Dm_only | Group_only | Admin_only | Allowlist_scope | Disabled_scope

datatype tool_level = L_all | L_allowlist | L_admin | L_off

datatype tool_mode = M_user | M_bot | M_both

datatype runtime_mode = R_user | R_bot

datatype module_level = ML_open | ML_admin | ML_disabled

definition scopeToLevel :: "tool_scope option \<Rightarrow> tool_level" where
  "scopeToLevel scope =
     (case scope of
        Some Admin_only \<Rightarrow> L_admin
      | Some Allowlist_scope \<Rightarrow> L_allowlist
      | Some Disabled_scope \<Rightarrow> L_off
      | _ \<Rightarrow> L_all)"

definition levelToScope :: "tool_level \<Rightarrow> tool_scope" where
  "levelToScope level =
     (case level of
        L_admin \<Rightarrow> Admin_only | L_allowlist \<Rightarrow> Allowlist_scope | L_off \<Rightarrow> Disabled_scope | L_all \<Rightarrow> Open)"

definition runtime_of :: "tool_mode \<Rightarrow> runtime_mode option" where
  "runtime_of mode = (case mode of M_user \<Rightarrow> Some R_user | M_bot \<Rightarrow> Some R_bot | M_both \<Rightarrow> None)"

section \<open>Permissions of groups\<close>

record module_row =
  mr_chat :: string
  mr_module :: string
  mr_level :: module_level
  mr_updated_at :: int
  mr_updated_by :: "int option"

record permissions =
  mp_rows :: "module_row list"
  mp_cache :: "(string \<times> (string \<times> module_level) list) list"

definition PROTECTED_MODULES :: "string list" where
  "PROTECTED_MODULES = [''telegram'', ''memory'']"

definition cache_level :: "string \<Rightarrow> string \<Rightarrow> module_level \<Rightarrow>
    (string \<times> (string \<times> module_level) list) list \<Rightarrow> (string \<times> (string \<times> module_level) list) list" where
  "cache_level chat mdl level cache =
     AList.update chat (AList.update mdl level (case map_of cache chat of None \<Rightarrow> [] | Some m \<Rightarrow> m)) cache"

definition loadAll :: "module_row list \<Rightarrow> (string \<times> (string \<times> module_level) list) list" where
  "loadAll rows = fold (\<lambda>r. cache_level (mr_chat r) (mr_module r) (mr_level r)) rows []"

definition new_permissions :: "module_row list \<Rightarrow> permissions" where
  "new_permissions rows = \<lparr>mp_rows = rows, mp_cache = loadAll rows\<rparr>"

definition getLevel :: "permissions \<Rightarrow> string \<Rightarrow> string \<Rightarrow> module_level" where
  "getLevel p chat mdl =
     (case map_of (mp_cache p) chat of
        None \<Rightarrow> ML_open
      | Some m \<Rightarrow> (case map_of m mdl of None \<Rightarrow> ML_open | Some level \<Rightarrow> level))"

definition uncache :: "string \<Rightarrow> string \<Rightarrow> (string \<times> (string \<times> module_level) list) list \<Rightarrow>
    (string \<times> (string \<times> module_level) list) list" where
  "uncache chat mdl cache =
     (case map_of cache chat of None \<Rightarrow> cache | Some m \<Rightarrow> AList.update chat (AList.delete mdl m) cache)"

definition module_key :: "module_row \<Rightarrow> string \<times> string" where
  "module_key r = (mr_chat r, mr_module r)"

definition setLevel ::
  "int \<Rightarrow> string \<Rightarrow> string \<Rightarrow> module_level \<Rightarrow> int option \<Rightarrow> permissions \<Rightarrow> (msg, unit, permissions) outcome" where
  "setLevel now chat mdl level user p =
     (if mdl \<in> set PROTECTED_MODULES then throw [S (''Module '' @ DQ @ mdl @ DQ @ '' is protected'')] p
      else
        let others = sql_delete (\<lambda>r. module_key r = (chat, mdl)) (mp_rows p) in
        if level = ML_open then
          ret () (p\<lparr>mp_rows := others, mp_cache := uncache chat mdl (mp_cache p)\<rparr>)
        else
          ret () (p\<lparr>mp_rows := others @ [\<lparr>mr_chat = chat, mr_module = mdl, mr_level = level,
                       mr_updated_at = secs now, mr_updated_by = user\<rparr>],
                    mp_cache := cache_level chat mdl level (mp_cache p)\<rparr>))"

definition resetModule :: "string \<Rightarrow> string \<Rightarrow> permissions \<Rightarrow> permissions" where
  "resetModule chat mdl p =
     p\<lparr>mp_rows := sql_delete (\<lambda>r. module_key r = (chat, mdl)) (mp_rows p),
       mp_cache := uncache chat mdl (mp_cache p)\<rparr>"

definition resetAll :: "string \<Rightarrow> permissions \<Rightarrow> permissions" where
  "resetAll chat p =
     p\<lparr>mp_rows := sql_delete (\<lambda>r. mr_chat r = chat) (mp_rows p), mp_cache := AList.delete chat (mp_cache p)\<rparr>"

definition getOverrides :: "permissions \<Rightarrow> string \<Rightarrow> (string \<times> module_level) list" where
  "getOverrides p chat = (case map_of (mp_cache p) chat of None \<Rightarrow> [] | Some m \<Rightarrow> m)"

section \<open>The registry\<close>

record tool_def =
  td_name :: string
  td_description :: string
  td_parameters :: json
  td_category :: "string option"

record 'x registered_tool =
  rt_tool :: tool_def
  rt_executor :: 'x
  rt_scope :: "tool_scope option"
  rt_mode :: tool_mode
  rt_module :: string
  rt_tags :: "string list option"

text \<open>A row of \<open>tool_config\<close>; the columns \<open>enabled\<close> and \<open>scope\<close> are kept for older versions.\<close>

record tool_config =
  tc_name :: string
  tc_enabled :: bool
  tc_scope :: tool_scope
  tc_level :: tool_level
  tc_updated_at :: int
  tc_updated_by :: "int option"

text \<open>
  \<open>rg_table\<close> is the table behind \<open>db\<close>, None before \<open>loadConfigFromDB\<close>; \<open>rg_notices\<close> lists what the
  callbacks of \<open>onToolsChanged\<close> were told.
\<close>

record 'x registry =
  rg_tools :: "(string \<times> 'x registered_tool) list"
  rg_permissions :: "permissions option"
  rg_array_cache :: "tool_def list option"
  rg_enabled_cache :: "tool_def list option"
  rg_configs :: "(string \<times> tool_config) list"
  rg_table :: "tool_config list option"
  rg_plugins :: "(string \<times> string list) list"
  rg_mode :: runtime_mode
  rg_allow_from :: "int list"
  rg_notices :: "(string list \<times> tool_def list) list"

definition new_registry :: "runtime_mode \<Rightarrow> 'x registry" where
  "new_registry mode =
     \<lparr>rg_tools = [], rg_permissions = None, rg_array_cache = None, rg_enabled_cache = None, rg_configs = [],
      rg_table = None, rg_plugins = [], rg_mode = mode, rg_allow_from = [], rg_notices = []\<rparr>"

definition invalidateToolCaches :: "'x registry \<Rightarrow> 'x registry" where
  "invalidateToolCaches g = g\<lparr>rg_array_cache := None, rg_enabled_cache := None\<rparr>"

record 'x tool_entry =
  te_tool :: tool_def
  te_executor :: 'x
  te_scope :: "tool_scope option"
  te_mode :: "tool_mode option"

definition insertTool ::
  "tool_def \<Rightarrow> 'x \<Rightarrow> tool_scope option \<Rightarrow> tool_mode \<Rightarrow> string \<Rightarrow> string list option \<Rightarrow> 'x registry \<Rightarrow> 'x registry" where
  "insertTool tool executor scope mode mdl tags g =
     g\<lparr>rg_tools := AList.update (td_name tool)
         \<lparr>rt_tool = tool, rt_executor = executor,
          rt_scope = (if scope \<in> {Some Always, Some Open} then None else scope),
          rt_mode = mode, rt_module = mdl,
          rt_tags = (if tags = Some [] then None else tags)\<rparr> (rg_tools g)\<rparr>"

definition has_tool :: "'x registry \<Rightarrow> string \<Rightarrow> bool" where
  "has_tool g name = (map_of (rg_tools g) name \<noteq> None)"

definition register ::
  "tool_def \<Rightarrow> 'x \<Rightarrow> tool_scope option \<Rightarrow> tool_mode \<Rightarrow> string list option \<Rightarrow> 'x registry \<Rightarrow>
   (msg, unit, 'x registry) outcome" where
  "register tool executor scope mode tags g =
     (if has_tool g (td_name tool)
      then throw [S (''Tool '' @ DQ @ td_name tool @ DQ @ '' is already registered'')] g
      else ret () (invalidateToolCaches
        (insertTool tool executor scope mode (hd (split_on (CHR ''_'') (td_name tool))) tags g)))"

definition setPermissions :: "permissions \<Rightarrow> 'x registry \<Rightarrow> 'x registry" where
  "setPermissions p g = g\<lparr>rg_permissions := Some p\<rparr>"

definition setMode :: "runtime_mode \<Rightarrow> 'x registry \<Rightarrow> 'x registry" where
  "setMode mode g = invalidateToolCaches (g\<lparr>rg_mode := mode\<rparr>)"

definition setAllowFrom :: "int list \<Rightarrow> 'x registry \<Rightarrow> 'x registry" where
  "setAllowFrom ids g = g\<lparr>rg_allow_from := ids\<rparr>"

definition getAvailableModules :: "'x registry \<Rightarrow> string list" where
  "getAvailableModules g = sort (remdups (map (\<lambda>(n, r). rt_module r) (rg_tools g)))"

definition getModuleToolCount :: "'x registry \<Rightarrow> string \<Rightarrow> nat" where
  "getModuleToolCount g mdl = length (filter (\<lambda>(n, r). rt_module r = mdl) (rg_tools g))"

definition getToolCategory :: "'x registry \<Rightarrow> string \<Rightarrow> string option" where
  "getToolCategory g name = (case map_of (rg_tools g) name of None \<Rightarrow> None | Some r \<Rightarrow> td_category (rt_tool r))"

definition getToolSchema :: "'x registry \<Rightarrow> string \<Rightarrow> json option" where
  "getToolSchema g name = map_option (\<lambda>r. td_parameters (rt_tool r)) (map_of (rg_tools g) name)"

section \<open>Levels of tools\<close>

definition declared_level :: "'x registry \<Rightarrow> string \<Rightarrow> tool_level" where
  "declared_level g name = scopeToLevel (case map_of (rg_tools g) name of None \<Rightarrow> None | Some r \<Rightarrow> rt_scope r)"

definition getEffectiveLevel :: "'x registry \<Rightarrow> string \<Rightarrow> tool_level" where
  "getEffectiveLevel g name =
     (case map_of (rg_configs g) name of Some c \<Rightarrow> tc_level c | None \<Rightarrow> declared_level g name)"

definition isToolEnabled :: "'x registry \<Rightarrow> string \<Rightarrow> bool" where
  "isToolEnabled g name = (getEffectiveLevel g name \<noteq> L_off)"

definition getToolConfig :: "'x registry \<Rightarrow> string \<Rightarrow> tool_level option" where
  "getToolConfig g name = (if has_tool g name then Some (getEffectiveLevel g name) else None)"

definition all_tools :: "'x registry \<Rightarrow> tool_def list" where
  "all_tools g = map (\<lambda>(n, r). rt_tool r) (rg_tools g)"

definition enabled_tools :: "'x registry \<Rightarrow> tool_def list" where
  "enabled_tools g = map (\<lambda>(n, r). rt_tool r) (filter (\<lambda>(n, r). isToolEnabled g n) (rg_tools g))"

definition getAll :: "'x registry \<Rightarrow> tool_def list \<times> 'x registry" where
  "getAll g =
     (case rg_array_cache g of
        Some tools \<Rightarrow> (tools, g)
      | None \<Rightarrow> (all_tools g, g\<lparr>rg_array_cache := Some (all_tools g)\<rparr>))"

definition getEnabledTools :: "'x registry \<Rightarrow> tool_def list \<times> 'x registry" where
  "getEnabledTools g =
     (case rg_enabled_cache g of
        Some tools \<Rightarrow> (tools, g)
      | None \<Rightarrow> (enabled_tools g, g\<lparr>rg_enabled_cache := Some (enabled_tools g)\<rparr>))"

definition config_row :: "int \<Rightarrow> string \<Rightarrow> tool_level \<Rightarrow> int option \<Rightarrow> tool_config" where
  "config_row now name level updatedBy =
     \<lparr>tc_name = name, tc_enabled = (level \<noteq> L_off), tc_scope = levelToScope level, tc_level = level,
      tc_updated_at = secs now, tc_updated_by = updatedBy\<rparr>"

definition loadAllToolConfigs :: "tool_config list \<Rightarrow> (string \<times> tool_config) list" where
  "loadAllToolConfigs rows = fold (\<lambda>r. AList.update (tc_name r) r) rows []"

definition saveToolConfig :: "int \<Rightarrow> string \<Rightarrow> tool_level \<Rightarrow> int option \<Rightarrow> tool_config list \<Rightarrow> tool_config list" where
  "saveToolConfig now name level updatedBy rows =
     (if sql_get tc_name name rows = None then rows @ [config_row now name level updatedBy]
      else sql_update tc_name name (\<lambda>_. config_row now name level updatedBy) rows)"

definition initializeToolConfig :: "int \<Rightarrow> string \<Rightarrow> tool_level \<Rightarrow> tool_config list \<Rightarrow> tool_config list" where
  "initializeToolConfig now name level rows =
     (if sql_get tc_name name rows = None then rows @ [config_row now name level None] else rows)"

definition seedConfigs :: "int \<Rightarrow> string list \<Rightarrow> 'x registry \<Rightarrow> 'x registry" where
  "seedConfigs now names g =
     (case rg_table g of
        None \<Rightarrow> g
      | Some rows \<Rightarrow>
          let missing = filter (\<lambda>n. map_of (rg_configs g) n = None) names;
              rows' = fold (\<lambda>n. initializeToolConfig now n (declared_level g n)) missing rows
          in if missing = [] then g
             else g\<lparr>rg_table := Some rows', rg_configs := loadAllToolConfigs rows'\<rparr>)"

definition loadConfigFromDB :: "int \<Rightarrow> tool_config list \<Rightarrow> 'x registry \<Rightarrow> 'x registry" where
  "loadConfigFromDB now rows g =
     invalidateToolCaches (seedConfigs now (map fst (rg_tools g))
       (g\<lparr>rg_table := Some rows, rg_configs := loadAllToolConfigs rows\<rparr>))"

definition notifyToolsChanged :: "string list \<Rightarrow> tool_def list \<Rightarrow> 'x registry \<Rightarrow> 'x registry" where
  "notifyToolsChanged removed added g = g\<lparr>rg_notices := rg_notices g @ [(removed, added)]\<rparr>"

definition updateToolLevel ::
  "int \<Rightarrow> string \<Rightarrow> tool_level \<Rightarrow> int option \<Rightarrow> 'x registry \<Rightarrow> bool \<times> 'x registry" where
  "updateToolLevel now name level updatedBy g =
     (case (map_of (rg_tools g) name, rg_table g) of
        (Some r, Some rows) \<Rightarrow>
          let rows' = saveToolConfig now name level updatedBy rows;
              g' = invalidateToolCaches (g\<lparr>rg_table := Some rows', rg_configs := loadAllToolConfigs rows'\<rparr>);
              isEnabled = isToolEnabled g' name
          in (True,
              if isToolEnabled g name \<noteq> isEnabled
              then notifyToolsChanged (if isEnabled then [] else [name]) (if isEnabled then [rt_tool r] else []) g'
              else g')
      | _ \<Rightarrow> (False, g))"

definition setToolEnabled ::
  "int \<Rightarrow> string \<Rightarrow> bool \<Rightarrow> int option \<Rightarrow> 'x registry \<Rightarrow> bool \<times> 'x registry" where
  "setToolEnabled now name enabled updatedBy g =
     (if \<not> has_tool g name \<or> rg_table g = None then (False, g)
      else updateToolLevel now name
             (if \<not> enabled then L_off
              else if getEffectiveLevel g name = L_off then declared_level g name
              else getEffectiveLevel g name) updatedBy g)"

definition updateToolScope ::
  "int \<Rightarrow> string \<Rightarrow> tool_scope \<Rightarrow> int option \<Rightarrow> 'x registry \<Rightarrow> bool \<times> 'x registry" where
  "updateToolScope now name scope updatedBy g = updateToolLevel now name (scopeToLevel (Some scope)) updatedBy g"

section \<open>Access\<close>

datatype access_denial =
    Wrong_mode tool_mode
  | Disabled
  | Only_admin
  | Not_allowed
  | Module_disabled string
  | Module_admin string

record access_context =
  ac_isGroup :: bool
  ac_isAdmin :: bool
  ac_sender :: "int option"
  ac_chat :: "string option"

definition check_mode :: "'x registry \<Rightarrow> string \<Rightarrow> access_denial option" where
  "check_mode g name =
     (case map_of (rg_tools g) name of
        None \<Rightarrow> None
      | Some r \<Rightarrow>
          (case runtime_of (rt_mode r) of
             None \<Rightarrow> None
           | Some mode \<Rightarrow> if mode \<noteq> rg_mode g then Some (Wrong_mode (rt_mode r)) else None))"

text \<open>A sender 0 or none is not in the allowlist.\<close>

definition check_level :: "'x registry \<Rightarrow> string \<Rightarrow> access_context \<Rightarrow> access_denial option" where
  "check_level g name ctx =
     (let level = getEffectiveLevel g name in
      if level = L_off then Some Disabled
      else if level = L_admin \<and> \<not> ac_isAdmin ctx then Some Only_admin
      else if level = L_allowlist \<and> \<not> ac_isAdmin ctx then
        (case ac_sender ctx of
           None \<Rightarrow> Some Not_allowed
         | Some s \<Rightarrow> if s = 0 \<or> s \<notin> set (rg_allow_from g) then Some Not_allowed else None)
      else None)"

definition check_module :: "'x registry \<Rightarrow> string \<Rightarrow> access_context \<Rightarrow> access_denial option" where
  "check_module g name ctx =
     (case (non_empty (ac_chat ctx), rg_permissions g, map_of (rg_tools g) name) of
        (Some chat, Some p, Some r) \<Rightarrow>
          if ac_isGroup ctx \<and> rt_module r \<noteq> [] then
            let level = getLevel p chat (rt_module r) in
            if level = ML_disabled then Some (Module_disabled (rt_module r))
            else if level = ML_admin \<and> \<not> ac_isAdmin ctx then Some (Module_admin (rt_module r))
            else None
          else None
      | _ \<Rightarrow> None)"

text \<open>The first reason against the call, if any.\<close>

definition checkAccess :: "'x registry \<Rightarrow> string \<Rightarrow> access_context \<Rightarrow> access_denial option" where
  "checkAccess g name ctx =
     (case check_mode g name of
        Some d \<Rightarrow> Some d
      | None \<Rightarrow> (case check_level g name ctx of Some d \<Rightarrow> Some d | None \<Rightarrow> check_module g name ctx))"

definition mode_name :: "tool_mode \<Rightarrow> string" where
  "mode_name m = (case m of M_user \<Rightarrow> ''user'' | M_bot \<Rightarrow> ''bot'' | M_both \<Rightarrow> ''both'')"

definition denialMessage :: "'x registry \<Rightarrow> string \<Rightarrow> access_denial \<Rightarrow> msg" where
  "denialMessage g name reason =
     (let tool = ''Tool '' @ DQ @ name @ DQ;
          mdl_text = (\<lambda>m. ''Module '' @ DQ @ m @ DQ)
      in [S (case reason of
               Wrong_mode m \<Rightarrow> tool @ '' requires '' @ mode_name m @ '' mode (current: '' @
                 (case rg_mode g of R_user \<Rightarrow> ''user'' | R_bot \<Rightarrow> ''bot'') @ '')''
             | Disabled \<Rightarrow> tool @ '' is currently disabled''
             | Only_admin \<Rightarrow> tool @ '' is restricted to admin users''
             | Not_allowed \<Rightarrow> tool @ '' is restricted to allowed users''
             | Module_disabled m \<Rightarrow> mdl_text m @ '' is disabled in this group''
             | Module_admin m \<Rightarrow> mdl_text m @ '' is restricted to admins in this group'')])"

definition passesFilters ::
  "'x registry \<Rightarrow> string \<Rightarrow> bool \<Rightarrow> string option \<Rightarrow> bool option \<Rightarrow> int option \<Rightarrow> bool" where
  "passesFilters g name isGroup chat isAdmin sender =
     (has_tool g name \<and>
      checkAccess g name \<lparr>ac_isGroup = isGroup, ac_isAdmin = nullish isAdmin False, ac_sender = sender,
        ac_chat = chat\<rparr> = None)"

definition applyLimit :: "tool_def list \<Rightarrow> int option \<Rightarrow> tool_def list" where
  "applyLimit tools limit =
     (case limit of
        None \<Rightarrow> tools
      | Some n \<Rightarrow>
          if n < int (length tools) then (if n < 0 then take (nat (int (length tools) + n)) tools else take (nat n) tools)
          else tools)"

definition getForContext ::
  "'x registry \<Rightarrow> bool \<Rightarrow> int option \<Rightarrow> string option \<Rightarrow> bool option \<Rightarrow> int option \<Rightarrow> tool_def list" where
  "getForContext g isGroup toolLimit chat isAdmin sender =
     applyLimit (filter (\<lambda>t. passesFilters g (td_name t) isGroup chat isAdmin sender) (all_tools g)) toolLimit"

definition getCoreTools ::
  "'x registry \<Rightarrow> bool \<Rightarrow> string option \<Rightarrow> bool option \<Rightarrow> int option \<Rightarrow> tool_def list" where
  "getCoreTools g isGroup chat isAdmin sender =
     map (\<lambda>(n, r). rt_tool r)
       (filter (\<lambda>(n, r). (case rt_tags r of None \<Rightarrow> False | Some tags \<Rightarrow> ''core'' \<in> set tags) \<and>
                         passesFilters g n isGroup chat isAdmin sender) (rg_tools g))"

text \<open>
  The index of tools: which are always included, and the names its search returns, best first; None
  when the search throws.
\<close>

record tool_index =
  ti_always :: "string \<Rightarrow> bool"
  ti_search :: "string list option"

definition getForContextWithRAG ::
  "'x registry \<Rightarrow> tool_index option \<Rightarrow> bool \<Rightarrow> int option \<Rightarrow> string option \<Rightarrow> bool option \<Rightarrow> int option \<Rightarrow>
   tool_def list" where
  "getForContextWithRAG g index isGroup toolLimit chat isAdmin sender =
     (let scoped = getForContext g isGroup None chat isAdmin sender in
      case index of
        None \<Rightarrow> applyLimit scoped toolLimit
      | Some ix \<Rightarrow>
          let fixed = fold (\<lambda>t. AList.update (td_name t) t) (filter (\<lambda>t. ti_always ix (td_name t)) scoped) []
          in (case ti_search ix of
                None \<Rightarrow> applyLimit scoped toolLimit
              | Some names \<Rightarrow>
                  let selected = fold (\<lambda>n sel.
                        if map_of sel n \<noteq> None then sel
                        else (case find (\<lambda>t. td_name t = n) scoped of None \<Rightarrow> sel | Some t \<Rightarrow> AList.update n t sel))
                        names fixed
                  in applyLimit (if selected = [] then scoped else map snd selected) toolLimit))"

section \<open>Plugins\<close>

definition enabled_defs :: "'x registry \<Rightarrow> string list \<Rightarrow> tool_def list" where
  "enabled_defs g names =
     List.map_filter (\<lambda>n. map_option rt_tool (map_of (rg_tools g) n)) (filter (isToolEnabled g) names)"

text \<open>The loop over the tools of a plugin: those whose name is taken are skipped.\<close>

definition add_plugin_tool ::
  "string \<Rightarrow> ('x registry \<Rightarrow> string \<Rightarrow> bool) \<Rightarrow> 'x tool_entry \<Rightarrow> 'x registry \<times> string list \<Rightarrow> 'x registry \<times> string list" where
  "add_plugin_tool pluginName taken e = (\<lambda>(g, names).
     if taken g (td_name (te_tool e)) then (g, names)
     else (insertTool (te_tool e) (te_executor e) (te_scope e) (nullish (te_mode e) M_both) pluginName None g,
           names @ [td_name (te_tool e)]))"

definition registerPluginTools ::
  "int \<Rightarrow> string \<Rightarrow> 'x tool_entry list \<Rightarrow> 'x registry \<Rightarrow> nat \<times> 'x registry" where
  "registerPluginTools now pluginName tools g =
     (let (g1, names) = fold (add_plugin_tool pluginName has_tool) tools (g, []);
          g2 = invalidateToolCaches (seedConfigs now names (g1\<lparr>rg_plugins := AList.update pluginName names (rg_plugins g1)\<rparr>));
          added = enabled_defs g2 names
      in (length names, if added = [] then g2 else notifyToolsChanged [] added g2))"

definition removePluginTools :: "string \<Rightarrow> 'x registry \<Rightarrow> 'x registry" where
  "removePluginTools pluginName g =
     invalidateToolCaches
       (case map_of (rg_plugins g) pluginName of
          None \<Rightarrow> g
        | Some tracked \<Rightarrow>
            g\<lparr>rg_tools := fold AList.delete tracked (rg_tools g),
              rg_configs := fold AList.delete tracked (rg_configs g),
              rg_plugins := AList.delete pluginName (rg_plugins g)\<rparr>)"

definition tracked_names :: "'x registry \<Rightarrow> string \<Rightarrow> string list" where
  "tracked_names g pluginName = (case map_of (rg_plugins g) pluginName of None \<Rightarrow> [] | Some names \<Rightarrow> names)"

definition replacePluginTools :: "int \<Rightarrow> string \<Rightarrow> 'x tool_entry list \<Rightarrow> 'x registry \<Rightarrow> 'x registry" where
  "replacePluginTools now pluginName newTools g =
     (let previousNames = tracked_names g pluginName;
          (g1, names) = fold (add_plugin_tool pluginName (\<lambda>g n. has_tool g n \<and> n \<notin> set previousNames)) newTools
                          (removePluginTools pluginName g, []);
          g2 = invalidateToolCaches (seedConfigs now names (g1\<lparr>rg_plugins := AList.update pluginName names (rg_plugins g1)\<rparr>));
          removedNames = filter (\<lambda>n. n \<notin> set names) (remdups previousNames);
          added = enabled_defs g2 names
      in if removedNames = [] \<and> added = [] then g2 else notifyToolsChanged removedNames added g2)"

definition isPluginModule :: "'x registry \<Rightarrow> string \<Rightarrow> bool" where
  "isPluginModule g name = (map_of (rg_plugins g) name \<noteq> None)"

section \<open>Executing a call\<close>

record 'x call_env =
  ce_policy :: policy_env
  ce_validate :: "tool_def list \<Rightarrow> string \<Rightarrow> json \<Rightarrow> msg + json"
  ce_error :: "security_error \<Rightarrow> msg"
  ce_run :: "'x \<Rightarrow> json \<Rightarrow> msg + json"

record call_context =
  cc_admin_ids :: "int list option"
  cc_sender :: int
  cc_chat :: string
  cc_isGroup :: bool

text \<open>
  What the caller gets: an error, a refusal by the policies with the approval asked for, or what the
  executor returned. The last component of the result of \<open>execute\<close> is the executor that was started and
  its arguments.
\<close>

datatype call_result =
    Cr_error msg
  | Cr_refused msg policy_action "string option"
  | Cr_returned json

definition access_of :: "call_context \<Rightarrow> access_context" where
  "access_of ctx =
     \<lparr>ac_isGroup = cc_isGroup ctx,
      ac_isAdmin = (case cc_admin_ids ctx of None \<Rightarrow> False | Some ids \<Rightarrow> cc_sender ctx \<in> set ids),
      ac_sender = Some (cc_sender ctx), ac_chat = Some (cc_chat ctx)\<rparr>"

definition policy_call :: "string \<Rightarrow> json \<Rightarrow> call_context \<Rightarrow> tool_call" where
  "policy_call name args ctx =
     \<lparr>tc_tool = name, tc_params = args, tc_sender = cc_sender ctx, tc_chat = cc_chat ctx, tc_module = None\<rparr>"

definition execute ::
  "'x call_env \<Rightarrow> 'h digest \<Rightarrow> int \<Rightarrow> string \<Rightarrow> string \<Rightarrow> json \<Rightarrow> call_context \<Rightarrow> 'x registry \<Rightarrow> 'h security_db \<Rightarrow>
   call_result \<times> 'x registry \<times> 'h security_db \<times> ('x \<times> json) option" where
  "execute env digest now fresh name args ctx g db =
     (case map_of (rg_tools g) name of
        None \<Rightarrow> (Cr_error [S (''Unknown tool: '' @ name)], g, db, None)
      | Some registered \<Rightarrow>
          (case checkAccess g name (access_of ctx) of
             Some reason \<Rightarrow> (Cr_error (denialMessage g name reason), g, db, None)
           | None \<Rightarrow>
               let (tools, g') = getAll g in
               (case ce_validate env tools name args of
                  Inl e \<Rightarrow> (Cr_error e, g', db, None)
                | Inr validatedArgs \<Rightarrow>
                    (case validateToolExecution (ce_policy env) digest now fresh (policy_call name validatedArgs ctx) db of
                       (Inl e, db') \<Rightarrow> (Cr_error (ce_error env e), g', db', None)
                     | (Inr (Va_deny reason), db') \<Rightarrow> (Cr_refused reason Deny None, g', db', None)
                     | (Inr (Va_ask i reason policy), db') \<Rightarrow>
                         (Cr_refused ([S (''Tool '' @ DQ @ name @ DQ @ '' requires approval ('' @ i @ ''): '')] @ reason)
                            Require_approval (Some i), g', db', None)
                     | (Inr (Va_allow reason approval), db') \<Rightarrow>
                         (case ce_run env (rt_executor registered) validatedArgs of
                            Inl e \<Rightarrow> (Cr_error e, g', db', Some (rt_executor registered, validatedArgs))
                          | Inr r \<Rightarrow> (Cr_returned r, g', db', Some (rt_executor registered, validatedArgs)))))))"

end
