(* ===== verification/ToolAccess.thy ===== *)
theory ToolAccess
  imports ToolRegistry Runs
begin

text \<open>
  What the registry guarantees: the levels of modules are those of the table, the caches and the owners
  of tools are right in every reachable state, plugins leave the tools of others alone, and the tools
  offered to the model are those a call may use.
\<close>

section \<open>Levels of modules\<close>

definition row_level :: "module_row list \<Rightarrow> string \<Rightarrow> string \<Rightarrow> module_level" where
  "row_level rows chat mdl =
     (case sql_get module_key (chat, mdl) rows of None \<Rightarrow> ML_open | Some r \<Rightarrow> mr_level r)"

definition cached_level :: "(string \<times> (string \<times> module_level) list) list \<Rightarrow> string \<Rightarrow> string \<Rightarrow> module_level" where
  "cached_level cache chat mdl =
     (case map_of cache chat of
        None \<Rightarrow> ML_open
      | Some m \<Rightarrow> (case map_of m mdl of None \<Rightarrow> ML_open | Some level \<Rightarrow> level))"

lemma module_key_iff: "module_key r = (chat, mdl) \<longleftrightarrow> mr_chat r = chat \<and> mr_module r = mdl"
  by (simp add: module_key_def)

lemma getLevel_cached: "getLevel p chat mdl = cached_level (mp_cache p) chat mdl"
  by (simp add: getLevel_def cached_level_def)

lemma cached_level_set:
  "cached_level (cache_level chat mdl level cache) c m = (if c = chat \<and> m = mdl then level else cached_level cache c m)"
  by (auto simp: cached_level_def cache_level_def update_conv' split: option.split)

lemma cached_level_unset:
  "cached_level (uncache chat mdl cache) c m = (if c = chat \<and> m = mdl then ML_open else cached_level cache c m)"
  by (auto simp: cached_level_def uncache_def update_conv' delete_conv' split: option.split)

lemma cached_level_reset:
  "cached_level (AList.delete chat cache) c m = (if c = chat then ML_open else cached_level cache c m)"
  by (auto simp: cached_level_def delete_conv')

lemma row_level_insert:
  "row_level (sql_delete (\<lambda>r. module_key r = (chat, mdl)) rows @ [r]) c m =
     (if (c, m) = (chat, mdl) then mr_level r else row_level rows c m)" if "module_key r = (chat, mdl)"
  using that by (auto simp: row_level_def sql_get_delete split: option.split)

lemma row_level_delete:
  "row_level (sql_delete (\<lambda>r. module_key r = (chat, mdl)) rows) c m =
     (if (c, m) = (chat, mdl) then ML_open else row_level rows c m)"
  by (auto simp: row_level_def sql_get_delete split: option.split)

lemma row_level_reset:
  "row_level (sql_delete (\<lambda>r. mr_chat r = chat) rows) c m = (if c = chat then ML_open else row_level rows c m)"
proof -
  have "sql_get module_key (c, m) (sql_delete (\<lambda>r. mr_chat r = chat) rows) =
      (if c = chat then None else sql_get module_key (c, m) rows)"
    by (induction rows) (auto simp: sql_delete_def module_key_iff)
  then show ?thesis by (simp add: row_level_def)
qed

lemma cached_level_load:
  "distinct (map module_key rows) \<Longrightarrow>
   cached_level (fold (\<lambda>r. cache_level (mr_chat r) (mr_module r) (mr_level r)) rows cache) c m =
   (case sql_get module_key (c, m) rows of None \<Rightarrow> cached_level cache c m | Some r \<Rightarrow> mr_level r)"
proof (induction rows arbitrary: cache)
  case (Cons r rows)
  have none: "sql_get module_key (module_key r) rows = None" using Cons.prems by (simp add: sql_get_None_iff)
  have key: "module_key r = (mr_chat r, mr_module r)" by (simp add: module_key_def)
  show ?case
  proof (cases "(c, m) = module_key r")
    case True
    then show ?thesis using Cons none key by (simp add: cached_level_set)
  next
    case False
    then have "module_key r \<noteq> (c, m)" "(c = mr_chat r \<and> m = mr_module r) = False" using key by auto
    then show ?thesis using Cons by (auto simp: cached_level_set split: option.split)
  qed
qed simp

lemma cached_level_loadAll: "distinct (map module_key rows) \<Longrightarrow> cached_level (loadAll rows) = row_level rows"
proof (intro ext)
  fix c m
  assume rows: "distinct (map module_key rows)"
  have "cached_level [] c m = ML_open" by (simp add: cached_level_def)
  then show "cached_level (loadAll rows) c m = row_level rows c m"
    using cached_level_load [OF rows, of "[]" c m] by (simp add: loadAll_def row_level_def split: option.split)
qed

datatype permission_op =
    Pm_set int string string module_level "int option"
  | Pm_reset string string
  | Pm_reset_all string

fun permission_exec :: "permission_op \<Rightarrow> permissions \<Rightarrow> permissions" where
  "permission_exec (Pm_set now chat mdl level user) p = snd (setLevel now chat mdl level user p)"
| "permission_exec (Pm_reset chat mdl) p = resetModule chat mdl p"
| "permission_exec (Pm_reset_all chat) p = resetAll chat p"

text \<open>What an operation means for the levels.\<close>

fun level_after :: "permission_op \<Rightarrow> (string \<Rightarrow> string \<Rightarrow> module_level) \<Rightarrow> string \<Rightarrow> string \<Rightarrow> module_level" where
  "level_after (Pm_set now chat mdl level user) f =
     (if mdl \<in> set PROTECTED_MODULES then f else f(chat := (f chat)(mdl := level)))"
| "level_after (Pm_reset chat mdl) f = f(chat := (f chat)(mdl := ML_open))"
| "level_after (Pm_reset_all chat) f = f(chat := (\<lambda>mdl. ML_open))"

definition permissions_ok :: "permissions \<Rightarrow> bool" where
  "permissions_ok p = (distinct (map module_key (mp_rows p)) \<and> cached_level (mp_cache p) = row_level (mp_rows p))"

lemma distinct_without: "distinct (map f rows) \<Longrightarrow> distinct (map f (sql_delete P rows))"
  by (simp add: sql_delete_def distinct_map_filter)

lemma permission_step:
  assumes "permissions_ok p"
  shows "permissions_ok (permission_exec op p) \<and> getLevel (permission_exec op p) = level_after op (getLevel p)"
proof (cases op)
  case (Pm_set now chat mdl level user)
  show ?thesis
  proof (cases "mdl \<in> set PROTECTED_MODULES")
    case True
    then show ?thesis using assms Pm_set by (simp add: setLevel_def)
  next
    case False
    let ?others = "sql_delete (\<lambda>r. module_key r = (chat, mdl)) (mp_rows p)"
    let ?row = "\<lparr>mr_chat = chat, mr_module = mdl, mr_level = level, mr_updated_at = secs now, mr_updated_by = user\<rparr>"
    have key: "module_key ?row = (chat, mdl)" "(chat, mdl) \<notin> module_key ` set ?others"
      by (auto simp: sql_delete_def module_key_def)
    show ?thesis
    proof (cases "level = ML_open")
      case True
      then have "permission_exec op p = p\<lparr>mp_rows := ?others, mp_cache := uncache chat mdl (mp_cache p)\<rparr>"
        using Pm_set False by (simp add: setLevel_def Let_def)
      then show ?thesis
        using assms Pm_set False True
        by (auto simp: permissions_ok_def getLevel_cached fun_eq_iff cached_level_unset row_level_delete distinct_without)
    next
      case other: False
      then have "permission_exec op p = p\<lparr>mp_rows := ?others @ [?row], mp_cache := cache_level chat mdl level (mp_cache p)\<rparr>"
        using Pm_set False by (simp add: setLevel_def Let_def)
      then show ?thesis
        using assms Pm_set False key row_level_insert [OF key(1)]
        by (auto simp: permissions_ok_def getLevel_cached fun_eq_iff cached_level_set distinct_without)
    qed
  qed
next
  case (Pm_reset chat mdl)
  then show ?thesis using assms
    by (auto simp: permissions_ok_def resetModule_def getLevel_cached fun_eq_iff cached_level_unset row_level_delete
        distinct_without)
next
  case (Pm_reset_all chat)
  then show ?thesis using assms
    by (auto simp: permissions_ok_def resetAll_def getLevel_cached fun_eq_iff cached_level_reset row_level_reset
        distinct_without)
qed

interpretation levels: step_refinement permission_exec permissions_ok getLevel level_after
  by unfold_locales (simp_all add: permission_step)

lemma permissions_run:
  assumes "permissions_ok p"
  shows "permissions_ok (fold permission_exec ops p) \<and> getLevel (fold permission_exec ops p) = fold level_after ops (getLevel p)"
  using levels.good_run [OF assms] levels.run_refines [OF assms] by simp

text \<open>
  C25. The permissions of groups implement a map from chat and module to a level: any operations have
  exactly the effect they mean, protected modules keep their level, and a restart reads the same levels
  from the table.
\<close>

theorem permissions_refine:
  assumes "distinct (map module_key rows)"
  shows "getLevel (fold permission_exec ops (new_permissions rows)) = fold level_after ops (row_level rows) \<and>
    getLevel (new_permissions (mp_rows (fold permission_exec ops (new_permissions rows)))) =
      getLevel (fold permission_exec ops (new_permissions rows))"
proof -
  let ?p = "fold permission_exec ops (new_permissions rows)"
  have "permissions_ok (new_permissions rows)"
    using assms by (simp add: permissions_ok_def new_permissions_def cached_level_loadAll)
  moreover have "getLevel (new_permissions rows) = row_level rows"
    using assms by (simp add: fun_eq_iff getLevel_cached new_permissions_def cached_level_loadAll)
  ultimately have ok: "permissions_ok ?p" and level: "getLevel ?p = fold level_after ops (row_level rows)"
    using permissions_run [of "new_permissions rows" ops] by simp_all
  have "getLevel (new_permissions (mp_rows ?p)) = getLevel ?p"
    using ok by (simp add: permissions_ok_def fun_eq_iff getLevel_cached new_permissions_def cached_level_loadAll)
  then show ?thesis using level by simp
qed

definition closed_group :: "module_row list" where
  "closed_group = [\<lparr>mr_chat = ''g'', mr_module = ''deals'', mr_level = ML_disabled, mr_updated_at = 1, mr_updated_by = None\<rparr>]"

theorem permissions_refine_witness:
  "getLevel (fold permission_exec [Pm_reset_all ''g'', Pm_set 5 ''g'' ''memory'' ML_admin None] (new_permissions closed_group))
     ''g'' ''deals'' = ML_open"
proof -
  have "distinct (map module_key closed_group)" by (simp add: closed_group_def)
  from permissions_refine [OF this, of "[Pm_reset_all ''g'', Pm_set 5 ''g'' ''memory'' ML_admin None]"]
  show ?thesis by (simp add: PROTECTED_MODULES_def)
qed

section \<open>The registry in every reachable state\<close>

definition configs_ok :: "(string \<times> tool_config) list \<Rightarrow> tool_config list option \<Rightarrow> bool" where
  "configs_ok configs rows =
     (case rows of
        None \<Rightarrow> configs = []
      | Some rows \<Rightarrow>
          distinct (map tc_name rows) \<and>
          (\<forall>n c. map_of configs n = Some c \<longrightarrow> sql_get tc_name n rows = Some c))"

definition owners_ok :: "(string \<times> 'x registered_tool) list \<Rightarrow> (string \<times> string list) list \<Rightarrow> bool" where
  "owners_ok tools plugins =
     (\<forall>p names n. map_of plugins p = Some names \<longrightarrow> n \<in> set names \<longrightarrow>
        (\<exists>r. map_of tools n = Some r \<and> rt_module r = p))"

definition names_ok :: "(string \<times> 'x registered_tool) list \<Rightarrow> bool" where
  "names_ok tools = (distinct (map fst tools) \<and> (\<forall>n r. map_of tools n = Some r \<longrightarrow> td_name (rt_tool r) = n))"

definition core_ok :: "'x registry \<Rightarrow> bool" where
  "core_ok g =
     (names_ok (rg_tools g) \<and> configs_ok (rg_configs g) (rg_table g) \<and> distinct (map fst (rg_plugins g)) \<and>
      owners_ok (rg_tools g) (rg_plugins g))"

definition registry_ok :: "'x registry \<Rightarrow> bool" where
  "registry_ok g =
     (core_ok g \<and> rg_array_cache g \<in> {None, Some (all_tools g)} \<and>
      rg_enabled_cache g \<in> {None, Some (enabled_tools g)})"

lemma map_of_delete: "map_of (AList.delete k xs) n = (if n = k then None else map_of xs n)"
  by (simp add: delete_conv')

lemma map_of_delete_all: "map_of (fold AList.delete ks xs) n = (if n \<in> set ks then None else map_of xs n)"
  by (induction ks arbitrary: xs) (auto simp: map_of_delete)

lemma map_of_update: "map_of (AList.update k v xs) n = (if n = k then Some v else map_of xs n)"
  by (simp add: update_conv')

lemma names_ok_insert:
  "names_ok tools \<Longrightarrow> td_name (rt_tool r) = n \<Longrightarrow> names_ok (AList.update n r tools)"
  by (auto simp: names_ok_def map_of_update AList.distinct_update split: if_splits)

lemma enabled_tools_cong:
  "rg_tools g' = rg_tools g \<Longrightarrow> rg_configs g' = rg_configs g \<Longrightarrow> enabled_tools g' = enabled_tools g"
proof -
  assume same: "rg_tools g' = rg_tools g" "rg_configs g' = rg_configs g"
  then have "isToolEnabled g' = isToolEnabled g"
    by (simp add: fun_eq_iff isToolEnabled_def getEffectiveLevel_def declared_level_def split: option.split)
  then show ?thesis using same by (simp add: enabled_tools_def)
qed

lemma registry_fields [simp]:
  "rg_tools (invalidateToolCaches g) = rg_tools g" "rg_plugins (invalidateToolCaches g) = rg_plugins g"
  "rg_configs (invalidateToolCaches g) = rg_configs g" "rg_table (invalidateToolCaches g) = rg_table g"
  "rg_array_cache (invalidateToolCaches g) = None" "rg_enabled_cache (invalidateToolCaches g) = None"
  "rg_tools (notifyToolsChanged a b g) = rg_tools g" "rg_plugins (notifyToolsChanged a b g) = rg_plugins g"
  "rg_configs (notifyToolsChanged a b g) = rg_configs g" "rg_table (notifyToolsChanged a b g) = rg_table g"
  "rg_array_cache (notifyToolsChanged a b g) = rg_array_cache g"
  "rg_enabled_cache (notifyToolsChanged a b g) = rg_enabled_cache g"
  by (simp_all add: invalidateToolCaches_def notifyToolsChanged_def)

lemma core_ok_cong:
  "rg_tools g' = rg_tools g \<Longrightarrow> rg_configs g' = rg_configs g \<Longrightarrow> rg_table g' = rg_table g \<Longrightarrow>
   rg_plugins g' = rg_plugins g \<Longrightarrow> core_ok g' = core_ok g"
  by (simp add: core_ok_def)

lemma registry_ok_fresh: "core_ok g \<Longrightarrow> rg_array_cache g = None \<Longrightarrow> rg_enabled_cache g = None \<Longrightarrow> registry_ok g"
  by (simp add: registry_ok_def)

lemma core_ok_invalidate [simp]: "core_ok (invalidateToolCaches g) = core_ok g"
  by (rule core_ok_cong) simp_all

lemma core_ok_notify [simp]: "core_ok (notifyToolsChanged a b g) = core_ok g"
  by (rule core_ok_cong) simp_all

lemma registry_ok_invalidate: "core_ok g \<Longrightarrow> registry_ok (invalidateToolCaches g)"
  by (rule registry_ok_fresh) simp_all

lemma registry_ok_notify: "core_ok g \<Longrightarrow> registry_ok (notifyToolsChanged a b (invalidateToolCaches g))"
  by (rule registry_ok_fresh) simp_all

subsection \<open>Configurations\<close>

lemma map_of_loadAll: "distinct (map tc_name rows) \<Longrightarrow> map_of (loadAllToolConfigs rows) n = sql_get tc_name n rows"
proof -
  assume rows: "distinct (map tc_name rows)"
  have "map_of (fold (\<lambda>r. AList.update (tc_name r) r) rows xs) n =
      (case sql_get tc_name n rows of None \<Rightarrow> map_of xs n | Some r \<Rightarrow> Some r)" for xs
    using rows
  proof (induction rows arbitrary: xs)
    case (Cons r rows)
    have "sql_get tc_name (tc_name r) rows = None" using Cons.prems by (simp add: sql_get_None_iff)
    then show ?case using Cons by (auto simp: map_of_update split: option.split)
  qed simp
  then show ?thesis by (auto simp: loadAllToolConfigs_def split: option.split)
qed

lemma configs_ok_loaded: "distinct (map tc_name rows) \<Longrightarrow> configs_ok (loadAllToolConfigs rows) (Some rows)"
  by (simp add: configs_ok_def map_of_loadAll)

lemma distinct_initialize: "distinct (map tc_name rows) \<Longrightarrow> distinct (map tc_name (initializeToolConfig now n level rows))"
  by (auto simp: initializeToolConfig_def sql_get_None_iff config_row_def)

lemma distinct_initialize_all:
  "distinct (map tc_name rows) \<Longrightarrow> distinct (map tc_name (fold (\<lambda>n. initializeToolConfig now n (level n)) names rows))"
  by (induction names arbitrary: rows) (simp_all add: distinct_initialize)

lemma distinct_save: "distinct (map tc_name rows) \<Longrightarrow> distinct (map tc_name (saveToolConfig now n level by rows))"
proof -
  assume rows: "distinct (map tc_name rows)"
  have "map tc_name (sql_update tc_name n (\<lambda>_. config_row now n level by) rows) = map tc_name rows"
    by (induction rows) (auto simp: sql_update_def sql_update_where_def config_row_def)
  then show ?thesis using rows by (auto simp: saveToolConfig_def sql_get_None_iff config_row_def)
qed

lemma seedConfigs_fields [simp]:
  "rg_tools (seedConfigs now names g) = rg_tools g" "rg_plugins (seedConfigs now names g) = rg_plugins g"
  "rg_array_cache (seedConfigs now names g) = rg_array_cache g"
  "rg_enabled_cache (seedConfigs now names g) = rg_enabled_cache g"
  by (simp_all add: seedConfigs_def Let_def split: option.split)

lemma core_ok_seed: "core_ok g \<Longrightarrow> core_ok (seedConfigs now names g)"
proof -
  assume ok: "core_ok g"
  have "configs_ok (rg_configs (seedConfigs now names g)) (rg_table (seedConfigs now names g))"
  proof (cases "rg_table g")
    case None
    then show ?thesis using ok by (simp add: core_ok_def seedConfigs_def)
  next
    case (Some rows)
    then have "distinct (map tc_name rows)" using ok by (simp add: core_ok_def configs_ok_def)
    then show ?thesis
      using ok Some configs_ok_loaded [OF distinct_initialize_all]
      by (simp add: core_ok_def seedConfigs_def Let_def)
  qed
  then show ?thesis using ok by (simp add: core_ok_def)
qed

lemma core_ok_load:
  "core_ok g \<Longrightarrow> distinct (map tc_name rows) \<Longrightarrow>
   core_ok (g\<lparr>rg_table := Some rows, rg_configs := loadAllToolConfigs rows\<rparr>)"
  by (simp add: core_ok_def configs_ok_loaded)

subsection \<open>Plugins\<close>

lemma insertTool_fields [simp]:
  "rg_plugins (insertTool tool x scope mode mdl tags g) = rg_plugins g"
  "rg_configs (insertTool tool x scope mode mdl tags g) = rg_configs g"
  "rg_table (insertTool tool x scope mode mdl tags g) = rg_table g"
  by (simp_all add: insertTool_def)

lemma map_of_insertTool:
  "map_of (rg_tools (insertTool tool x scope mode mdl tags g)) n =
     (if n = td_name tool then
        Some \<lparr>rt_tool = tool, rt_executor = x, rt_scope = (if scope \<in> {Some Always, Some Open} then None else scope),
          rt_mode = mode, rt_module = mdl, rt_tags = (if tags = Some [] then None else tags)\<rparr>
      else map_of (rg_tools g) n)"
  by (simp add: insertTool_def map_of_update)

definition untracked :: "'x registry \<Rightarrow> string \<Rightarrow> string \<Rightarrow> bool" where
  "untracked g p n = (\<forall>q names. map_of (rg_plugins g) q = Some names \<longrightarrow> n \<in> set names \<longrightarrow> q = p)"

lemma core_ok_insert:
  assumes "core_ok g" and "untracked g mdl (td_name tool)"
  shows "core_ok (insertTool tool x scope mode mdl tags g)"
proof -
  let ?g = "insertTool tool x scope mode mdl tags g"
  have "names_ok (rg_tools ?g)"
    using assms(1) unfolding insertTool_def core_ok_def by (auto intro: names_ok_insert)
  moreover have "owners_ok (rg_tools ?g) (rg_plugins ?g)"
    using assms unfolding owners_ok_def core_ok_def untracked_def map_of_insertTool insertTool_fields by fastforce
  ultimately show ?thesis using assms(1) by (simp add: core_ok_def)
qed

lemma absent_untracked: "core_ok g \<Longrightarrow> \<not> has_tool g n \<Longrightarrow> untracked g p n"
  unfolding core_ok_def owners_ok_def has_tool_def untracked_def by (metis option.distinct(1))

text \<open>The loop over the tools of plugin \<open>p\<close>, whose earlier tools \<open>old\<close> are gone.\<close>

definition adding :: "string \<Rightarrow> string list \<Rightarrow> 'x registry \<Rightarrow> 'x registry \<times> string list \<Rightarrow> bool" where
  "adding p old g0 = (\<lambda>(g, names).
     core_ok g \<and> rg_plugins g = rg_plugins g0 \<and> rg_configs g = rg_configs g0 \<and> rg_table g = rg_table g0 \<and>
     (\<forall>n\<in>set names. \<exists>r. map_of (rg_tools g) n = Some r \<and> rt_module r = p) \<and>
     (\<forall>n\<in>set old. \<forall>r. map_of (rg_tools g) n = Some r \<longrightarrow> rt_module r = p) \<and>
     (\<forall>n r. map_of (rg_tools g0) n = Some r \<longrightarrow> map_of (rg_tools g) n = Some r))"

lemma adding_step:
  assumes inv: "adding p old g0 (g, names)" and old: "\<forall>n\<in>set old. map_of (rg_tools g0) n = None"
  shows "adding p old g0 (add_plugin_tool p (\<lambda>g n. has_tool g n \<and> n \<notin> set old) e (g, names))"
proof (cases "has_tool g (td_name (te_tool e)) \<and> td_name (te_tool e) \<notin> set old")
  case True
  then show ?thesis using inv by (simp add: add_plugin_tool_def)
next
  case False
  let ?n = "td_name (te_tool e)"
  let ?g = "insertTool (te_tool e) (te_executor e) (te_scope e) (nullish (te_mode e) M_both) p None g"
  have ok: "core_ok g" using inv by (simp add: adding_def)
  have "untracked g p ?n"
  proof (cases "has_tool g ?n")
    case True
    then obtain r where "map_of (rg_tools g) ?n = Some r" "rt_module r = p"
      using False inv unfolding adding_def has_tool_def by fastforce
    then show ?thesis using ok unfolding core_ok_def owners_ok_def untracked_def by fastforce
  qed (rule absent_untracked [OF ok])
  then have "core_ok ?g" by (rule core_ok_insert [OF ok])
  moreover have "map_of (rg_tools g0) ?n = None"
  proof (rule ccontr)
    assume "map_of (rg_tools g0) ?n \<noteq> None"
    then obtain r where r: "map_of (rg_tools g0) ?n = Some r" by blast
    then have "?n \<notin> set old" using old by force
    moreover have "has_tool g ?n" using r inv unfolding adding_def has_tool_def by fastforce
    ultimately show False using False by blast
  qed
  ultimately show ?thesis
    using inv False by (auto simp: adding_def add_plugin_tool_def map_of_insertTool)
qed

lemma adding_fold:
  assumes "adding p old g0 s" and old: "\<forall>n\<in>set old. map_of (rg_tools g0) n = None"
  shows "adding p old g0 (fold (add_plugin_tool p (\<lambda>g n. has_tool g n \<and> n \<notin> set old)) es s)"
  using assms(1)
proof (induction es arbitrary: s)
  case (Cons e es)
  have "adding p old g0 (add_plugin_tool p (\<lambda>g n. has_tool g n \<and> n \<notin> set old) e s)"
    using adding_step [of p old g0 "fst s" "snd s"] Cons.prems old unfolding prod.collapse by blast
  then show ?case unfolding fold_simps by (rule Cons.IH)
qed (simp only: fold_simps)

lemma core_ok_remove: "core_ok g \<Longrightarrow> core_ok (removePluginTools p g)"
proof (cases "map_of (rg_plugins g) p")
  case (Some tracked)
  assume ok: "core_ok g"
  let ?g = "removePluginTools p g"
  have fields: "rg_tools ?g = fold AList.delete tracked (rg_tools g)" "rg_configs ?g = fold AList.delete tracked (rg_configs g)"
    "rg_plugins ?g = AList.delete p (rg_plugins g)" "rg_table ?g = rg_table g"
    using Some by (simp_all add: removePluginTools_def)
  have "distinct (map fst (fold AList.delete ks xs))" if "distinct (map fst xs)" for ks and xs :: "(string \<times> 'b) list"
    using that by (induction ks arbitrary: xs) (simp_all add: distinct_delete)
  then have "names_ok (rg_tools ?g)"
    using ok unfolding fields core_ok_def names_ok_def map_of_delete_all by (auto split: if_splits)
  moreover have "configs_ok (rg_configs ?g) (rg_table ?g)"
  proof (cases "rg_table g")
    case None
    then have "rg_configs g = []" using ok by (simp add: core_ok_def configs_ok_def)
    moreover have "fold AList.delete tracked [] = ([] :: (string \<times> tool_config) list)" by (induction tracked) simp_all
    ultimately show ?thesis using None unfolding fields by (simp add: configs_ok_def)
  next
    case (Some rows)
    then show ?thesis
      using ok unfolding fields core_ok_def configs_ok_def map_of_delete_all by (auto split: if_splits)
  qed
  moreover have "owners_ok (rg_tools ?g) (rg_plugins ?g)"
    unfolding owners_ok_def
  proof (intro allI impI)
    fix q names n
    assume q: "map_of (rg_plugins ?g) q = Some names" "n \<in> set names"
    then have "q \<noteq> p" "map_of (rg_plugins g) q = Some names" unfolding fields map_of_delete by (auto split: if_splits)
    moreover from this q(2) obtain r where r: "map_of (rg_tools g) n = Some r" "rt_module r = q"
      using ok unfolding core_ok_def owners_ok_def by blast
    moreover have "n \<notin> set tracked"
      using ok Some r \<open>q \<noteq> p\<close> unfolding core_ok_def owners_ok_def by fastforce
    ultimately show "\<exists>r. map_of (rg_tools ?g) n = Some r \<and> rt_module r = q"
      unfolding fields map_of_delete_all by simp
  qed
  moreover have "distinct (map fst (rg_plugins ?g))" using ok unfolding fields core_ok_def by (simp add: distinct_delete)
  ultimately show ?thesis by (simp add: core_ok_def)
qed (simp add: removePluginTools_def)

text \<open>What registering and replacing have in common.\<close>

definition finish_plugin :: "int \<Rightarrow> string \<Rightarrow> 'x registry \<times> string list \<Rightarrow> 'x registry" where
  "finish_plugin now p s =
     invalidateToolCaches (seedConfigs now (snd s) ((fst s)\<lparr>rg_plugins := AList.update p (snd s) (rg_plugins (fst s))\<rparr>))"

lemma finish_fields [simp]:
  "rg_tools (finish_plugin now p s) = rg_tools (fst s)"
  "rg_plugins (finish_plugin now p s) = AList.update p (snd s) (rg_plugins (fst s))"
  "rg_array_cache (finish_plugin now p s) = None" "rg_enabled_cache (finish_plugin now p s) = None"
  by (simp_all add: finish_plugin_def)

lemma core_ok_finish:
  assumes "adding p old g0 s"
  shows "core_ok (finish_plugin now p s)"
proof -
  have s: "core_ok (fst s)" "\<forall>n\<in>set (snd s). \<exists>r. map_of (rg_tools (fst s)) n = Some r \<and> rt_module r = p"
    using assms by (auto simp: adding_def split: prod.splits)
  let ?g = "(fst s)\<lparr>rg_plugins := AList.update p (snd s) (rg_plugins (fst s))\<rparr>"
  have "owners_ok (rg_tools (fst s)) (AList.update p (snd s) (rg_plugins (fst s)))"
    using s unfolding owners_ok_def core_ok_def map_of_update by (metis option.inject)
  then have "core_ok ?g" using s(1) by (simp add: core_ok_def AList.distinct_update)
  then show ?thesis unfolding finish_plugin_def by (simp add: core_ok_seed)
qed

lemma register_plugin_eq:
  assumes "s = fold (add_plugin_tool p has_tool) tools (g, [])"
  shows "snd (registerPluginTools now p tools g) =
    (if enabled_defs (finish_plugin now p s) (snd s) = [] then finish_plugin now p s
     else notifyToolsChanged [] (enabled_defs (finish_plugin now p s) (snd s)) (finish_plugin now p s))"
  by (simp add: registerPluginTools_def finish_plugin_def Let_def case_prod_unfold assms)

lemma replace_plugin_eq:
  assumes "s = fold (add_plugin_tool p (\<lambda>g' n. has_tool g' n \<and> n \<notin> set (tracked_names g p))) tools (removePluginTools p g, [])"
    and "removed = filter (\<lambda>n. n \<notin> set (snd s)) (remdups (tracked_names g p))"
  shows "replacePluginTools now p tools g =
    (if removed = [] \<and> enabled_defs (finish_plugin now p s) (snd s) = [] then finish_plugin now p s
     else notifyToolsChanged removed (enabled_defs (finish_plugin now p s) (snd s)) (finish_plugin now p s))"
  by (simp add: replacePluginTools_def finish_plugin_def Let_def case_prod_unfold assms)

lemma adding_register:
  "core_ok g \<Longrightarrow> adding p [] g (fold (add_plugin_tool p has_tool) tools (g, []))"
  using adding_fold [of p "[]" g "(g, [])" tools] by (simp add: adding_def)

lemma removed_absent: "n \<in> set (tracked_names g p) \<Longrightarrow> map_of (rg_tools (removePluginTools p g)) n = None"
  by (auto simp: tracked_names_def removePluginTools_def map_of_delete_all split: option.splits)

lemma adding_replace:
  assumes "core_ok g"
  shows "adding p (tracked_names g p) (removePluginTools p g)
    (fold (add_plugin_tool p (\<lambda>g' n. has_tool g' n \<and> n \<notin> set (tracked_names g p))) tools (removePluginTools p g, []))"
proof (rule adding_fold)
  show "\<forall>n\<in>set (tracked_names g p). map_of (rg_tools (removePluginTools p g)) n = None" using removed_absent by blast
  then show "adding p (tracked_names g p) (removePluginTools p g) (removePluginTools p g, [])"
    using core_ok_remove [OF assms] by (simp add: adding_def)
qed

lemma registry_ok_plugins:
  assumes "core_ok g"
  shows "registry_ok (snd (registerPluginTools now p tools g))"
    and "registry_ok (replacePluginTools now p tools g)"
    and "registry_ok (removePluginTools p g)"
proof -
  show "registry_ok (snd (registerPluginTools now p tools g))"
    using core_ok_finish [OF adding_register [OF assms]]
    unfolding register_plugin_eq [OF refl] by (auto intro!: registry_ok_fresh)
  show "registry_ok (replacePluginTools now p tools g)"
    using core_ok_finish [OF adding_replace [OF assms]]
    unfolding replace_plugin_eq [OF refl refl] by (auto intro!: registry_ok_fresh)
  have "rg_array_cache (removePluginTools p g) = None" "rg_enabled_cache (removePluginTools p g) = None"
    by (simp_all add: removePluginTools_def)
  then show "registry_ok (removePluginTools p g)" using core_ok_remove [OF assms] by (simp add: registry_ok_fresh)
qed

subsection \<open>All operations\<close>

datatype 'x registry_op =
    Rg_register tool_def 'x "tool_scope option" tool_mode "string list option"
  | Rg_permissions permissions
  | Rg_group permission_op
  | Rg_mode runtime_mode
  | Rg_allow_from "int list"
  | Rg_get_all
  | Rg_get_enabled
  | Rg_load int "tool_config list"
  | Rg_level int string tool_level "int option"
  | Rg_enabled int string bool "int option"
  | Rg_scope int string tool_scope "int option"
  | Rg_plugin int string "'x tool_entry list"
  | Rg_replace int string "'x tool_entry list"
  | Rg_remove string

fun registry_exec :: "'x registry_op \<Rightarrow> 'x registry \<Rightarrow> 'x registry" where
  "registry_exec (Rg_register tool x scope mode tags) g = snd (register tool x scope mode tags g)"
| "registry_exec (Rg_permissions p) g = setPermissions p g"
| "registry_exec (Rg_group op) g = g\<lparr>rg_permissions := map_option (permission_exec op) (rg_permissions g)\<rparr>"
| "registry_exec (Rg_mode mode) g = setMode mode g"
| "registry_exec (Rg_allow_from ids) g = setAllowFrom ids g"
| "registry_exec Rg_get_all g = snd (getAll g)"
| "registry_exec Rg_get_enabled g = snd (getEnabledTools g)"
| "registry_exec (Rg_load now rows) g = loadConfigFromDB now rows g"
| "registry_exec (Rg_level now name level by) g = snd (updateToolLevel now name level by g)"
| "registry_exec (Rg_enabled now name enabled by) g = snd (setToolEnabled now name enabled by g)"
| "registry_exec (Rg_scope now name scope by) g = snd (updateToolScope now name scope by g)"
| "registry_exec (Rg_plugin now p tools) g = snd (registerPluginTools now p tools g)"
| "registry_exec (Rg_replace now p tools) g = replacePluginTools now p tools g"
| "registry_exec (Rg_remove p) g = removePluginTools p g"

text \<open>The table of tools has one row for each name.\<close>

definition op_ok :: "'x registry_op \<Rightarrow> bool" where
  "op_ok op = (case op of Rg_load now rows \<Rightarrow> distinct (map tc_name rows) | _ \<Rightarrow> True)"

inductive registry_reachable :: "'x registry \<Rightarrow> bool" where
  start: "registry_reachable (new_registry mode)"
| step: "registry_reachable g \<Longrightarrow> op_ok op \<Longrightarrow> registry_reachable (registry_exec op g)"

lemma all_tools_cong: "rg_tools g' = rg_tools g \<Longrightarrow> all_tools g' = all_tools g"
  by (simp add: all_tools_def)

lemma registry_ok_cong:
  assumes "registry_ok g" and "rg_tools g' = rg_tools g" "rg_configs g' = rg_configs g" "rg_table g' = rg_table g"
    "rg_plugins g' = rg_plugins g" "rg_array_cache g' \<in> {rg_array_cache g, Some (all_tools g)}"
    "rg_enabled_cache g' \<in> {rg_enabled_cache g, Some (enabled_tools g)}"
  shows "registry_ok g'"
  using assms enabled_tools_cong [OF assms(2,3)] all_tools_cong [OF assms(2)] core_ok_cong [OF assms(2-5)]
  by (auto simp: registry_ok_def)

lemma registry_ok_level:
  assumes "registry_ok g"
  shows "registry_ok (snd (updateToolLevel now name level by g))"
proof (cases "map_of (rg_tools g) name")
  case None
  then show ?thesis using assms by (simp add: updateToolLevel_def)
next
  case (Some r)
  show ?thesis
  proof (cases "rg_table g")
    case None
    then show ?thesis using assms Some by (simp add: updateToolLevel_def)
  next
    case table: (Some rows)
    let ?rows = "saveToolConfig now name level by rows"
    have "core_ok (g\<lparr>rg_table := Some ?rows, rg_configs := loadAllToolConfigs ?rows\<rparr>)"
      using assms table by (intro core_ok_load) (auto simp: registry_ok_def core_ok_def configs_ok_def distinct_save)
    then show ?thesis
      using Some table by (auto simp: updateToolLevel_def Let_def intro: registry_ok_invalidate registry_ok_notify)
  qed
qed

lemma registry_ok_step:
  assumes ok: "registry_ok g" and op: "op_ok op"
  shows "registry_ok (registry_exec op g)"
proof -
  have core: "core_ok g" using ok by (simp add: registry_ok_def)
  show ?thesis
  proof (cases op)
    case (Rg_register tool x scope mode tags)
    show ?thesis
    proof (cases "has_tool g (td_name tool)")
      case True
      then show ?thesis using ok Rg_register by (simp add: register_def throw_def)
    next
      case False
      then show ?thesis
        using Rg_register core_ok_insert [OF core absent_untracked [OF core False]]
        by (simp add: register_def ret_def registry_ok_invalidate)
    qed
  next
    case (Rg_load now rows)
    then have "core_ok (g\<lparr>rg_table := Some rows, rg_configs := loadAllToolConfigs rows\<rparr>)"
      using core_ok_load [OF core] op by (simp add: op_ok_def)
    then show ?thesis using Rg_load by (simp add: loadConfigFromDB_def registry_ok_invalidate core_ok_seed)
  next
    case (Rg_mode mode)
    have "core_ok (g\<lparr>rg_mode := mode\<rparr>) = core_ok g" by (rule core_ok_cong) simp_all
    then show ?thesis using Rg_mode core by (simp add: setMode_def registry_ok_invalidate)
  next
    case (Rg_enabled now name enabled who)
    then show ?thesis using ok by (simp add: setToolEnabled_def registry_ok_level)
  qed (use ok core in \<open>auto simp: setPermissions_def setAllowFrom_def getAll_def getEnabledTools_def updateToolScope_def
      registry_ok_level registry_ok_plugins intro: registry_ok_cong split: option.split\<close>)
qed

lemma registry_reachable_ok: "registry_reachable g \<Longrightarrow> registry_ok g"
  by (induction rule: registry_reachable.induct)
    (simp_all add: registry_ok_step, simp add: registry_ok_def core_ok_def new_registry_def names_ok_def configs_ok_def owners_ok_def)

text \<open>
  C20. In every state the registry can reach tools are stored under their names, each tool a plugin
  tracks belongs to that plugin only, every configuration in memory is the row of the table, and the
  cached lists of tools are those a fresh computation gives.
\<close>

theorem reachable_registry_ok:
  assumes "registry_reachable g"
  shows "registry_ok g"
  using assms by (rule registry_reachable_ok)

text \<open>A registry with a tool of the program and one of a plugin, whose executors are named by texts.\<close>

definition plain_tool :: "string \<Rightarrow> tool_def" where
  "plain_tool name = \<lparr>td_name = name, td_description = [], td_parameters = JObj [], td_category = None\<rparr>"

definition plain_entry :: "string \<Rightarrow> string tool_entry" where
  "plain_entry name = \<lparr>te_tool = plain_tool name, te_executor = name, te_scope = Some Admin_only, te_mode = None\<rparr>"

definition example_ops :: "string registry_op list" where
  "example_ops =
     [Rg_register (plain_tool ''ton_send'') ''send'' None M_both None, Rg_load 4000 [],
      Rg_plugin 5000 ''p'' [plain_entry ''p_quote'', plain_entry ''ton_send''], Rg_get_all]"

definition example_registry :: "string registry" where
  "example_registry = fold registry_exec example_ops (new_registry R_user)"

lemma registry_reachable_run:
  "registry_reachable g \<Longrightarrow> list_all op_ok ops \<Longrightarrow> registry_reachable (fold registry_exec ops g)"
  by (induction ops arbitrary: g) (simp_all add: registry_reachable.step del: registry_exec.simps)

lemma example_registry_reachable: "registry_reachable example_registry"
  unfolding example_registry_def
  by (rule registry_reachable_run [OF registry_reachable.start]) (simp add: example_ops_def op_ok_def)

theorem reachable_registry_ok_witness:
  "registry_ok example_registry \<and> map td_name (all_tools example_registry) = [''ton_send'', ''p_quote'']"
proof
  show "registry_ok example_registry" using example_registry_reachable by (rule reachable_registry_ok)
  show "map td_name (all_tools example_registry) = [''ton_send'', ''p_quote'']" by code_simp
qed

section \<open>Plugins leave the tools of others alone\<close>

definition plugin_of :: "'x registry_op \<Rightarrow> string option" where
  "plugin_of op = (case op of Rg_plugin now p tools \<Rightarrow> Some p | Rg_replace now p tools \<Rightarrow> Some p | Rg_remove p \<Rightarrow> Some p | _ \<Rightarrow> None)"

lemma remove_keeps:
  "n \<notin> set (tracked_names g p) \<Longrightarrow> map_of (rg_tools (removePluginTools p g)) n = map_of (rg_tools g) n"
  by (auto simp: tracked_names_def removePluginTools_def map_of_delete_all split: option.splits)

text \<open>
  Registering, reloading or removing the tools of a plugin leaves every other tool as it is: its
  executor, scope, mode and owner; what it removes are tools it tracked.
\<close>

theorem plugin_isolation:
  assumes "registry_reachable g" and "plugin_of op = Some p"
    and "map_of (rg_tools g) n = Some r" and "n \<notin> set (tracked_names g p)"
  shows "map_of (rg_tools (registry_exec op g)) n = Some r"
proof -
  have core: "core_ok g" using registry_reachable_ok [OF assms(1)] by (simp add: registry_ok_def)
  have kept: "map_of (rg_tools (removePluginTools p g)) n = Some r" using remove_keeps assms(3,4) by metis
  show ?thesis
  proof (cases op)
    case (Rg_plugin now q tools)
    have "map_of (rg_tools (fst (fold (add_plugin_tool p has_tool) tools (g, [])))) n = Some r"
      using adding_register [OF core, of p tools] assms(3) by (auto simp: adding_def split: prod.splits)
    then show ?thesis
      using Rg_plugin assms(2) by (simp add: plugin_of_def register_plugin_eq [OF refl])
  next
    case (Rg_replace now q tools)
    have "map_of (rg_tools (fst (fold (add_plugin_tool p (\<lambda>g' n. has_tool g' n \<and> n \<notin> set (tracked_names g p))) tools
        (removePluginTools p g, [])))) n = Some r"
      using adding_replace [OF core, of p tools] kept by (auto simp: adding_def split: prod.splits)
    then show ?thesis
      using Rg_replace assms(2) by (simp add: plugin_of_def replace_plugin_eq [OF refl refl])
  next
    case (Rg_remove q)
    then show ?thesis using kept assms(2) by (simp add: plugin_of_def)
  qed (use assms(2) in \<open>simp_all add: plugin_of_def\<close>)
qed

theorem plugin_isolation_witness:
  "map_option rt_executor (map_of (rg_tools (registry_exec (Rg_remove ''p'') example_registry)) ''ton_send'') =
     Some ''send'' \<and>
   map_of (rg_tools (registry_exec (Rg_remove ''p'') example_registry)) ''p_quote'' = None"
proof
  have "map_option rt_executor (map_of (rg_tools example_registry) ''ton_send'') = Some ''send''" by code_simp
  then obtain r where r: "map_of (rg_tools example_registry) ''ton_send'' = Some r" "rt_executor r = ''send''" by auto
  have "tracked_names example_registry ''p'' = [''p_quote'']" by code_simp
  then have "''ton_send'' \<notin> set (tracked_names example_registry ''p'')" by simp
  then show "map_option rt_executor (map_of (rg_tools (registry_exec (Rg_remove ''p'') example_registry)) ''ton_send'') =
     Some ''send''"
    using plugin_isolation [OF example_registry_reachable _ r(1), of "Rg_remove ''p''" "''p''"] r(2)
    by (simp add: plugin_of_def del: registry_exec.simps)
  show "map_of (rg_tools (registry_exec (Rg_remove ''p'') example_registry)) ''p_quote'' = None" by code_simp
qed

end
