(* ===== verification/ToolCalls.thy ===== *)
theory ToolCalls
  imports ToolAccess
begin

text \<open>
  Calls of tools: when exactly an executor is started, that the tools offered to the model are those a
  call may use, and, together with the policies and approvals, that a call held for approval only runs
  under an approval of its own.
\<close>

section \<open>When an executor is started\<close>

lemma getAll_ok: "registry_ok g \<Longrightarrow> fst (getAll g) = all_tools g"
  by (auto simp: getAll_def registry_ok_def split: option.split)


text \<open>A call by sender 7 in the chat ''c'', and an environment whose executors return null.\<close>

definition example_ctx :: call_context where
  "example_ctx = \<lparr>cc_admin_ids = Some [7], cc_sender = 7, cc_chat = ''c'', cc_isGroup = False\<rparr>"

definition example_calls :: "string call_env" where
  "example_calls =
     \<lparr>ce_policy = example_env, ce_validate = (\<lambda>tools name args. Inr args), ce_error = (\<lambda>e. [S ''error'']),
      ce_run = (\<lambda>x args. Inr JNull)\<rparr>"

definition empty_security :: "(string \<times> string \<times> json) security_db" where
  "empty_security = sw_db security_start"


section \<open>The tools offered\<close>

lemma set_applyLimit: "set (applyLimit tools limit) \<subseteq> set tools"
  by (auto simp: applyLimit_def dest: in_set_takeD split: option.splits if_splits)

lemma set_update_subset: "snd ` set (AList.update k v xs) \<subseteq> insert v (snd ` set xs)"
  by (induction xs) auto

lemma fold_inv: "(\<And>x s. x \<in> set xs \<Longrightarrow> I s \<Longrightarrow> I (f x s)) \<Longrightarrow> I s \<Longrightarrow> I (fold f xs s)"
  by (induction xs arbitrary: s) simp_all

lemma rag_subset:
  "set (getForContextWithRAG g index isGroup toolLimit chat isAdmin sender) \<subseteq>
   set (getForContext g isGroup None chat isAdmin sender)"
proof -
  let ?scoped = "getForContext g isGroup None chat isAdmin sender"
  show ?thesis
  proof (cases index)
    case None
    then show ?thesis using set_applyLimit by (auto simp: getForContextWithRAG_def)
  next
    case (Some ix)
    let ?fixed = "fold (\<lambda>t. AList.update (td_name t) t) (filter (\<lambda>t. ti_always ix (td_name t)) ?scoped) []"
    have fixed: "snd ` set ?fixed \<subseteq> set ?scoped"
    proof (rule fold_inv [where I = "\<lambda>sel. snd ` set sel \<subseteq> set ?scoped"])
      fix t and sel :: "(string \<times> tool_def) list"
      assume "t \<in> set (filter (\<lambda>t. ti_always ix (td_name t)) ?scoped)" "snd ` set sel \<subseteq> set ?scoped"
      then have "insert t (snd ` set sel) \<subseteq> set ?scoped" by simp
      then show "snd ` set (AList.update (td_name t) t sel) \<subseteq> set ?scoped"
        using set_update_subset by (rule subset_trans [rotated])
    qed simp
    show ?thesis
    proof (cases "ti_search ix")
      case None
      then show ?thesis using Some set_applyLimit by (auto simp: getForContextWithRAG_def Let_def)
    next
      case names: (Some names)
      let ?selected = "fold (\<lambda>n sel.
          if map_of sel n \<noteq> None then sel
          else (case find (\<lambda>t. td_name t = n) ?scoped of None \<Rightarrow> sel | Some t \<Rightarrow> AList.update n t sel)) names ?fixed"
      have "snd ` set ?selected \<subseteq> set ?scoped"
      proof (rule fold_inv [where I = "\<lambda>sel. snd ` set sel \<subseteq> set ?scoped"])
        fix n and sel :: "(string \<times> tool_def) list"
        assume sel: "snd ` set sel \<subseteq> set ?scoped"
        show "snd ` set (if map_of sel n \<noteq> None then sel
            else (case find (\<lambda>t. td_name t = n) ?scoped of None \<Rightarrow> sel | Some t \<Rightarrow> AList.update n t sel)) \<subseteq> set ?scoped"
        proof (cases "find (\<lambda>t. td_name t = n) ?scoped")
          case None
          then show ?thesis using sel by simp
        next
          case (Some t)
          then have "t \<in> set ?scoped" by (auto simp: find_Some_iff)
          then have "insert t (snd ` set sel) \<subseteq> set ?scoped" using sel by simp
          then have "snd ` set (AList.update n t sel) \<subseteq> set ?scoped"
            using set_update_subset by (rule subset_trans [rotated])
          then show ?thesis using sel Some by simp
        qed
      qed (rule fixed)
      then have "set (if ?selected = [] then ?scoped else map snd ?selected) \<subseteq> set ?scoped" by auto
      moreover have "getForContextWithRAG g index isGroup toolLimit chat isAdmin sender =
          applyLimit (if ?selected = [] then ?scoped else map snd ?selected) toolLimit"
        unfolding getForContextWithRAG_def Let_def Some names option.case by (rule refl)
      ultimately show ?thesis using subset_trans [OF set_applyLimit] by simp
    qed
  qed
qed

text \<open>
  C24. The tools offered for a context are exactly the registered tools that a call in this context may
  use; the core tools and those chosen by search are among them.
\<close>

theorem offered_tools_usable:
  assumes "registry_reachable g"
  shows "(t \<in> set (getForContext g isGroup None chat isAdmin sender) \<longleftrightarrow>
           (\<exists>r. map_of (rg_tools g) (td_name t) = Some r \<and> rt_tool r = t \<and>
              checkAccess g (td_name t) \<lparr>ac_isGroup = isGroup, ac_isAdmin = nullish isAdmin False,
                ac_sender = sender, ac_chat = chat\<rparr> = None)) \<and>
         set (getCoreTools g isGroup chat isAdmin sender) \<subseteq> set (getForContext g isGroup None chat isAdmin sender) \<and>
         set (getForContext g isGroup toolLimit chat isAdmin sender) \<subseteq>
           set (getForContext g isGroup None chat isAdmin sender) \<and>
         set (getForContextWithRAG g index isGroup toolLimit chat isAdmin sender) \<subseteq>
           set (getForContext g isGroup None chat isAdmin sender)"
proof -
  have names: "names_ok (rg_tools g)" using registry_reachable_ok [OF assms] by (simp add: registry_ok_def core_ok_def)
  have in_tools: "(n, r) \<in> set (rg_tools g) \<longleftrightarrow> map_of (rg_tools g) n = Some r" for n r
    using names by (simp add: names_ok_def)
  have named: "map_of (rg_tools g) n = Some r \<Longrightarrow> td_name (rt_tool r) = n" for n r
    using names by (simp add: names_ok_def)
  have offered: "t \<in> set (getForContext g isGroup None chat isAdmin sender) \<longleftrightarrow>
      (\<exists>r. map_of (rg_tools g) (td_name t) = Some r \<and> rt_tool r = t \<and> passesFilters g (td_name t) isGroup chat isAdmin sender)"
    for t
  proof -
    have "t \<in> set (all_tools g) \<longleftrightarrow> (\<exists>n r. (n, r) \<in> set (rg_tools g) \<and> rt_tool r = t)" by (force simp: all_tools_def)
    also have "\<dots> \<longleftrightarrow> (\<exists>r. map_of (rg_tools g) (td_name t) = Some r \<and> rt_tool r = t)"
      unfolding in_tools using named by blast
    finally show ?thesis by (auto simp: getForContext_def applyLimit_def)
  qed
  have "set (getForContext g isGroup toolLimit chat isAdmin sender) \<subseteq>
      set (getForContext g isGroup None chat isAdmin sender)"
    using set_applyLimit by (force simp: getForContext_def applyLimit_def)
  moreover have "set (getCoreTools g isGroup chat isAdmin sender) \<subseteq> set (getForContext g isGroup None chat isAdmin sender)"
    unfolding subset_iff offered using in_tools named by (auto simp: getCoreTools_def)
  moreover have "t \<in> set (getForContext g isGroup None chat isAdmin sender) \<longleftrightarrow>
           (\<exists>r. map_of (rg_tools g) (td_name t) = Some r \<and> rt_tool r = t \<and>
              checkAccess g (td_name t) \<lparr>ac_isGroup = isGroup, ac_isAdmin = nullish isAdmin False,
                ac_sender = sender, ac_chat = chat\<rparr> = None)"
    unfolding offered passesFilters_def has_tool_def by auto
  ultimately show ?thesis using rag_subset by blast
qed

theorem offered_tools_usable_witness:
  "set (getForContextWithRAG example_registry (Some \<lparr>ti_always = (\<lambda>n. n = ''p_quote''), ti_search = Some [''ton_send'']\<rparr>)
     False (Some 3) None (Some True) (Some 7))
   \<subseteq> set (getForContext example_registry False None None (Some True) (Some 7)) \<and>
   plain_tool ''p_quote'' \<in> set (getForContext example_registry False None None (Some True) (Some 7))"
proof
  show "set (getForContextWithRAG example_registry (Some \<lparr>ti_always = (\<lambda>n. n = ''p_quote''), ti_search = Some [''ton_send'']\<rparr>)
     False (Some 3) None (Some True) (Some 7))
   \<subseteq> set (getForContext example_registry False None None (Some True) (Some 7))"
    using offered_tools_usable [OF example_registry_reachable] by blast
  show "plain_tool ''p_quote'' \<in> set (getForContext example_registry False None None (Some True) (Some 7))" by code_simp
qed

section \<open>Calls held for approval\<close>

text \<open>
  The world of the agent: the registry, the policies and approvals, and, for the statements only, the
  executors that were started: the tool, the sender, the text of the arguments, whether the policies
  held the call for approval, and the approval it ran under.
\<close>

record tool_run =
  tr_tool :: string
  tr_sender :: int
  tr_params :: json
  tr_held :: bool
  tr_approval :: "string option"

record ('x, 'h) agent_world =
  gw_registry :: "'x registry"
  gw_security :: "'h security_world"
  gw_runs :: "tool_run list"

datatype 'x agent_event =
    Ge_registry "'x registry_op"
  | Ge_policy policy_op
  | Ge_approve int string "int option"
  | Ge_reject int string "int option"
  | Ge_call "'x call_env" int string string json call_context

definition holds_call :: "policy_env \<Rightarrow> int \<Rightarrow> tool_call \<Rightarrow> policy_db \<Rightarrow> bool" where
  "holds_call env now call db =
     (case fst (evaluate env now (evaluation_of call) True db) of
        Inr ev \<Rightarrow> er_action ev = Require_approval | Inl _ \<Rightarrow> False)"

definition run_of ::
  "policy_env \<Rightarrow> 'h digest \<Rightarrow> int \<Rightarrow> string \<Rightarrow> string \<Rightarrow> json \<Rightarrow> call_context \<Rightarrow> 'h security_db \<Rightarrow> tool_run" where
  "run_of env digest now fresh name args ctx db =
     (let call = policy_call name args ctx in
      \<lparr>tr_tool = name, tr_sender = cc_sender ctx, tr_params = stableStringify args,
       tr_held = holds_call env now call (sx_policies db),
       tr_approval = (case fst (validateToolExecution env digest now fresh call db) of
                        Inr (Va_allow reason approval) \<Rightarrow> approval | _ \<Rightarrow> None)\<rparr>)"

definition granted_run :: "tool_run \<Rightarrow> (string \<times> string \<times> int \<times> json) list" where
  "granted_run r = (case tr_approval r of None \<Rightarrow> [] | Some i \<Rightarrow> [(i, tr_tool r, tr_sender r, tr_params r)])"

fun agent_step :: "'h digest \<Rightarrow> 'x agent_event \<Rightarrow> ('x, 'h) agent_world \<Rightarrow> ('x, 'h) agent_world" where
  "agent_step digest (Ge_registry op) w = w\<lparr>gw_registry := registry_exec op (gw_registry w)\<rparr>"
| "agent_step digest (Ge_policy op) w = w\<lparr>gw_security := security_step digest (Sec_policy op) (gw_security w)\<rparr>"
| "agent_step digest (Ge_approve now i who) w =
     w\<lparr>gw_security := security_step digest (Sec_approve now i who) (gw_security w)\<rparr>"
| "agent_step digest (Ge_reject now i who) w =
     w\<lparr>gw_security := security_step digest (Sec_reject now i who) (gw_security w)\<rparr>"
| "agent_step digest (Ge_call env now fresh name raw ctx) w =
     (let db = sw_db (gw_security w);
          (res, g', db', started) = execute env digest now fresh name raw ctx (gw_registry w) db;
          runs = (case started of None \<Rightarrow> []
                  | Some (x, args) \<Rightarrow> [run_of (ce_policy env) digest now fresh name args ctx db])
      in w\<lparr>gw_registry := g',
           gw_security := (gw_security w)\<lparr>sw_db := db',
              sw_granted := sw_granted (gw_security w) @ concat (map granted_run runs)\<rparr>,
           gw_runs := gw_runs w @ runs\<rparr>)"

definition agent_run :: "'h digest \<Rightarrow> runtime_mode \<Rightarrow> 'x agent_event list \<Rightarrow> ('x, 'h) agent_world" where
  "agent_run digest mode evs =
     fold (agent_step digest) evs
       \<lparr>gw_registry = new_registry mode, gw_security = security_start, gw_runs = []\<rparr>"

text \<open>A call is a step of the policies and approvals, or does not reach them.\<close>

lemma execute_security:
  assumes "execute env digest now fresh name raw ctx g db = (res, g', db', started)"
  shows "db' = db \<and> started = None \<or>
    (\<exists>args v. validateToolExecution (ce_policy env) digest now fresh (policy_call name args ctx) db = (v, db') \<and>
       (case v of
          Inr (Va_allow reason approval) \<Rightarrow> \<exists>x. started = Some (x, args)
        | _ \<Rightarrow> started = None))"
proof -
  obtain tools h where all: "getAll g = (tools, h)" by (metis surj_pair)
  show ?thesis
  proof (cases "map_of (rg_tools g) name")
    case None
    then show ?thesis using assms by (simp add: execute_def)
  next
    case (Some r)
    show ?thesis
    proof (cases "checkAccess g name (access_of ctx)")
      case (Some d)
      then show ?thesis using \<open>map_of (rg_tools g) name = Some r\<close> assms by (simp add: execute_def)
    next
      case None
      show ?thesis
      proof (cases "ce_validate env tools name raw")
        case (Inl e)
        then show ?thesis using None Some all assms by (simp add: execute_def)
      next
        case (Inr args)
        obtain v db1 where v: "validateToolExecution (ce_policy env) digest now fresh (policy_call name args ctx) db = (v, db1)"
          by (metis surj_pair)
        then have "db' = db1 \<and> (case v of Inr (Va_allow reason approval) \<Rightarrow> \<exists>x. started = Some (x, args) | _ \<Rightarrow> started = None)"
          using None Some all Inr assms
          by (cases v) (auto simp: execute_def split: validation.splits sum.splits)
        then show ?thesis using v by blast
      qed
    qed
  qed
qed

lemma granted_run_of:
  assumes "validateToolExecution env digest now fresh (policy_call name args ctx) db = (v, db')"
  shows "granted_by (policy_call name args ctx) v =
    (case v of Inr (Va_allow reason approval) \<Rightarrow> granted_run (run_of env digest now fresh name args ctx db) | _ \<Rightarrow> [])"
  using assms
  by (auto simp: granted_by_def granted_run_def run_of_def policy_call_def split: sum.split validation.split option.split)

lemma held_needs_approval:
  assumes "validateToolExecution env digest now fresh call db = (Inr (Va_allow reason approval), db')"
    and "holds_call env now call (sx_policies db)"
  shows "approval \<noteq> None"
  using assms
  by (auto simp: validateToolExecution_def holds_call_def ret_def throw_def Let_def
      split: sum.splits prod.splits policy_action.splits option.splits)

definition agent_inv :: "'h digest \<Rightarrow> ('x, 'h) agent_world \<Rightarrow> bool" where
  "agent_inv digest w =
     ((\<exists>sevs. gw_security w = security_run digest sevs) \<and>
      sw_granted (gw_security w) = concat (map granted_run (gw_runs w)) \<and>
      (\<forall>r\<in>set (gw_runs w). tr_held r \<longrightarrow> tr_approval r \<noteq> None))"

lemma security_run_snoc: "security_run digest (sevs @ [e]) = security_step digest e (security_run digest sevs)"
  by (simp add: security_run_def)

lemma agent_inv_security:
  assumes "agent_inv digest w" and "sw_granted (security_step digest e (gw_security w)) = sw_granted (gw_security w)"
  shows "agent_inv digest (w\<lparr>gw_security := security_step digest e (gw_security w)\<rparr>)"
proof -
  obtain sevs where "gw_security w = security_run digest sevs" using assms(1) by (auto simp: agent_inv_def)
  then have "security_step digest e (gw_security w) = security_run digest (sevs @ [e])" by (simp add: security_run_snoc)
  then show ?thesis using assms by (auto simp: agent_inv_def simp del: security_step.simps)
qed

lemma agent_inv_call:
  assumes inv: "agent_inv digest w"
  shows "agent_inv digest (agent_step digest (Ge_call env now fresh name raw ctx) w)"
proof -
  let ?sec = "gw_security w"
  obtain sevs where sevs: "?sec = security_run digest sevs" using inv by (auto simp: agent_inv_def)
  obtain res g' db' started where ex: "execute env digest now fresh name raw ctx (gw_registry w) (sw_db ?sec) = (res, g', db', started)"
    by (metis surj_pair)
  from execute_security [OF ex] consider (unreached) "db' = sw_db ?sec" "started = None"
    | (reached) args v where "validateToolExecution (ce_policy env) digest now fresh (policy_call name args ctx) (sw_db ?sec) = (v, db')"
        "case v of Inr (Va_allow reason approval) \<Rightarrow> \<exists>x. started = Some (x, args) | _ \<Rightarrow> started = None" by blast
  then show ?thesis
  proof cases
    case unreached
    then have "agent_step digest (Ge_call env now fresh name raw ctx) w = w\<lparr>gw_registry := g'\<rparr>" using ex by simp
    then show ?thesis using inv by (simp add: agent_inv_def)
  next
    case (reached args v)
    let ?call = "policy_call name args ctx"
    let ?runs = "case started of None \<Rightarrow> [] | Some (x, a) \<Rightarrow> [run_of (ce_policy env) digest now fresh name a ctx (sw_db ?sec)]"
    let ?sec' = "security_step digest (Sec_call (ce_policy env) now fresh ?call) ?sec"
    have granted: "concat (map granted_run ?runs) = granted_by ?call v"
      using reached(2) granted_run_of [OF reached(1)] by (auto split: sum.splits validation.splits)
    have step: "agent_step digest (Ge_call env now fresh name raw ctx) w =
        w\<lparr>gw_registry := g', gw_security := ?sec', gw_runs := gw_runs w @ ?runs\<rparr>"
      using ex reached(1) granted by simp
    have "?sec' = security_run digest (sevs @ [Sec_call (ce_policy env) now fresh ?call])"
      using sevs by (simp only: security_run_snoc)
    moreover have "sw_granted ?sec' = concat (map granted_run (gw_runs w @ ?runs))"
      using inv reached(1) granted by (simp add: agent_inv_def)
    moreover have "tr_approval r \<noteq> None" if "r \<in> set ?runs" "tr_held r" for r
    proof -
      note r = that
      obtain x a where a: "started = Some (x, a)" "r = run_of (ce_policy env) digest now fresh name a ctx (sw_db ?sec)"
        using r(1) by (auto split: option.splits)
      then obtain reason approval where v: "v = Inr (Va_allow reason approval)" "a = args"
        using reached(2) by (auto split: sum.splits validation.splits)
      then have "approval \<noteq> None"
        using held_needs_approval [of "ce_policy env" digest now fresh ?call "sw_db ?sec" reason approval db'] reached(1) r(2) a(2)
        by (simp add: run_of_def Let_def)
      then show ?thesis using a(2) v reached(1) by (simp add: run_of_def Let_def)
    qed
    ultimately show ?thesis
      unfolding step agent_inv_def using inv by (auto simp: agent_inv_def simp del: security_step.simps)
  qed
qed

lemma agent_inv_step: "agent_inv digest w \<Longrightarrow> agent_inv digest (agent_step digest e w)"
proof (cases e)
  case (Ge_registry op)
  assume "agent_inv digest w"
  then show ?thesis using Ge_registry by (simp add: agent_inv_def)
next
  case (Ge_call env now fresh name raw ctx)
  assume "agent_inv digest w"
  then show ?thesis unfolding Ge_call by (rule agent_inv_call)
next
  case (Ge_policy op)
  assume "agent_inv digest w"
  then show ?thesis unfolding Ge_policy agent_step.simps by (rule agent_inv_security) simp
next
  case (Ge_approve now i who)
  assume "agent_inv digest w"
  then show ?thesis unfolding Ge_approve agent_step.simps by (rule agent_inv_security) (simp add: Let_def split: prod.split sum.split)
next
  case (Ge_reject now i who)
  assume "agent_inv digest w"
  then show ?thesis unfolding Ge_reject agent_step.simps by (rule agent_inv_security) (simp add: Let_def split: prod.split sum.split)
qed

lemma agent_inv_fold: "agent_inv digest w \<Longrightarrow> agent_inv digest (fold (agent_step digest) evs w)"
  by (induction evs arbitrary: w) (simp_all add: agent_inv_step del: agent_step.simps)

lemma agent_inv_run: "agent_inv digest (agent_run digest mode evs)"
  unfolding agent_run_def
proof (rule agent_inv_fold)
  have "\<exists>sevs. security_start = security_run digest sevs"
    by (rule exI [of _ "[]"]) (simp add: security_run_def)
  then show "agent_inv digest \<lparr>gw_registry = new_registry mode, gw_security = security_start, gw_runs = []\<rparr>"
    unfolding agent_inv_def by (auto simp: security_start_def)
qed

text \<open>
  C12. In every history of registrations, levels, policies, approvers and calls, a call that the policies
  hold for approval only runs under an approval: one that an approver resolved, for the same tool,
  sender and arguments, and under which nothing else runs. (Digests of different arguments differ.)
\<close>

theorem held_calls_run_once_approved:
  assumes "\<And>tool requester p q. digest tool requester p = digest tool requester q \<Longrightarrow> p = q"
  shows "list_all (\<lambda>r. \<not> tr_held r \<or>
            list_ex (\<lambda>a. tr_approval r = Some (ap_id a) \<and> ap_status a = Ap_approved \<and> ap_tool a = tr_tool r \<and>
                         ap_requester a = Some (tr_sender r) \<and> ap_params a = tr_params r)
              (sx_approvals (sw_db (gw_security (agent_run digest mode evs)))))
          (gw_runs (agent_run digest mode evs)) \<and>
         distinct (concat (map (\<lambda>r. case tr_approval r of None \<Rightarrow> [] | Some i \<Rightarrow> [i])
           (gw_runs (agent_run digest mode evs))))"
proof -
  let ?w = "agent_run digest mode evs"
  obtain sevs where sevs: "gw_security ?w = security_run digest sevs"
    and granted: "sw_granted (gw_security ?w) = concat (map granted_run (gw_runs ?w))"
    and held: "\<forall>r\<in>set (gw_runs ?w). tr_held r \<longrightarrow> tr_approval r \<noteq> None"
    using agent_inv_run [of digest mode evs] by (auto simp: agent_inv_def)
  note sound = granted_calls_sound [of digest sevs, OF assms, folded sevs]
  have "list_ex (\<lambda>a. tr_approval r = Some (ap_id a) \<and> ap_status a = Ap_approved \<and> ap_tool a = tr_tool r \<and>
            ap_requester a = Some (tr_sender r) \<and> ap_params a = tr_params r) (sx_approvals (sw_db (gw_security ?w)))"
    if "r \<in> set (gw_runs ?w)" "tr_held r" for r
  proof -
    have "tr_approval r \<noteq> None" using held that by blast
    then obtain i where i: "tr_approval r = Some i" by blast
    then have "(i, tr_tool r, tr_sender r, tr_params r) \<in> set (sw_granted (gw_security ?w))"
      using that(1) unfolding granted by (force simp: granted_run_def)
    then show ?thesis using sound i by (fastforce simp: list_all_iff list_ex_iff)
  qed
  moreover have "map fst (concat (map granted_run rs)) = concat (map (\<lambda>r. case tr_approval r of None \<Rightarrow> [] | Some i \<Rightarrow> [i]) rs)" for rs
    by (induction rs) (auto simp: granted_run_def split: option.split)
  ultimately show ?thesis using sound unfolding granted by (auto simp: list_all_iff)
qed

text \<open>A transfer is refused until it is approved, carried out once, and refused again when it is repeated.\<close>

definition held_sends :: "string agent_event list" where
  "held_sends =
     [Ge_registry (Rg_register (plain_tool ''ton_send'') ''send'' None M_both None),
      Ge_policy (O_create example_env 5000 hold_transfers),
      Ge_call example_calls 6000 ''a1'' ''ton_send'' (JObj []) example_ctx,
      Ge_approve 7000 ''a1'' (Some 1),
      Ge_call example_calls 8000 ''a2'' ''ton_send'' (JObj []) example_ctx,
      Ge_call example_calls 9000 ''a3'' ''ton_send'' (JObj []) example_ctx]"

theorem held_calls_run_once_approved_witness:
  "map (\<lambda>r. (tr_tool r, tr_held r, tr_approval r)) (gw_runs (agent_run plain_digest R_user held_sends)) =
     [(''ton_send'', True, Some ''a1'')] \<and>
   list_ex (\<lambda>a. ap_id a = ''a1'' \<and> ap_status a = Ap_approved)
     (sx_approvals (sw_db (gw_security (agent_run plain_digest R_user held_sends))))"
proof -
  have "map (\<lambda>r. (tr_tool r, tr_held r, tr_approval r)) (gw_runs (agent_run plain_digest R_user held_sends)) =
     [(''ton_send'', True, Some ''a1'')]" by code_simp
  moreover from this obtain r where "gw_runs (agent_run plain_digest R_user held_sends) = [r]" "tr_held r" "tr_approval r = Some ''a1''"
    by (auto simp: map_eq_Cons_conv)
  ultimately show ?thesis
    using held_calls_run_once_approved [of plain_digest R_user held_sends] by (auto simp: plain_digest_def list_ex_iff)
qed

end
