(* ===== verification/AuditTrail.thy ===== *)
theory AuditTrail
  imports SecurityApprovals
begin

text \<open>
  The audit trail of src/services/audit-trail.ts: a table of events, each with the checksum of its
  fields and of the event before it, and an anchor that keeps the last checksum of pruned events.

  The checksum (SHA-256 of the text of the fields) is a parameter with an abstract result: the texts
  of two rows are equal exactly when their fields are. \<open>JSON.stringify\<close> and \<open>JSON.parse\<close> are
  parameters; a fresh \<open>randomUUID()\<close> and the time are arguments; times of events are whole seconds.
  The exports, the bus of events and the single instance are left out.
\<close>

section \<open>Rows\<close>

definition AUDIT_EVENT_TYPES :: "string list" where
  "AUDIT_EVENT_TYPES =
     [''agent.decision'', ''tool.invoke'', ''tool.result'', ''llm.request'', ''llm.response'', ''config.change'',
      ''security.validation'', ''network.message'', ''user.action'', ''session.lifecycle'']"

text \<open>The fields that the checksum covers, and a row.\<close>

record 'h audit_fields =
  af_id :: string
  af_sequence :: int
  af_type :: string
  af_actor :: string
  af_session :: "string option"
  af_payload :: string
  af_parent :: "string option"
  af_previous :: "'h option"
  af_created_at :: int

record 'h audit_row = "'h audit_fields" +
  af_checksum :: 'h

record audit_env =
  ae_stringify :: "json \<Rightarrow> string"
  ae_parse :: "string \<Rightarrow> json option"
  ae_max_bytes :: int

record audit_input =
  au_type :: string
  au_actor :: "string option"
  au_session :: "string option"
  au_payload :: "json option"
  au_parent :: "string option"
  au_created :: "int option"

text \<open>The anchor is a sequence number and a checksum; \<open>foreign_keys\<close> is the pragma of the connection.\<close>

record 'h audit_db =
  ad_events :: "'h audit_row list"
  ad_anchor :: "(int \<times> 'h) option"
  ad_foreign_keys :: bool

datatype audit_error = AE_unique string | AE_sequence int | AE_foreign_key string | AE_not_found string | AE_in_transaction

type_synonym 'h checksum = "'h audit_fields \<Rightarrow> 'h"

definition computeChecksum :: "'h checksum \<Rightarrow> 'h audit_row \<Rightarrow> 'h" where
  "computeChecksum digest row = digest (audit_fields.truncate row)"

section \<open>Payloads\<close>

text \<open>Members in the order of their names; assigning to \<open>__proto__\<close> makes no member.\<close>

fun normalizeForJson :: "json \<Rightarrow> json" where
  "normalizeForJson (JArr xs) = JArr (map normalizeForJson xs)"
| "normalizeForJson (JObj kvs) =
     JObj (sort_key fst (filter (\<lambda>(k, v). k \<noteq> ''__proto__'') (map (\<lambda>(k, v). (k, normalizeForJson v)) kvs)))"
| "normalizeForJson j = j"

definition audit_text :: "audit_env \<Rightarrow> json \<Rightarrow> string" where
  "audit_text env v = ae_stringify env (normalizeForJson v)"

text \<open>The length in UTF-8 of a text whose characters are below 256.\<close>

definition utf8_length :: "string \<Rightarrow> nat" where
  "utf8_length s = sum_list (map (\<lambda>c. if code c < 128 then 1 else 2) s)"

definition serializePayload :: "audit_env \<Rightarrow> json \<Rightarrow> string" where
  "serializePayload env payload =
     (let text = audit_text env payload;
          bytes = int (utf8_length text)
      in if bytes \<le> ae_max_bytes env then text
         else audit_text env (JObj
           [(''_truncated'', JBool True),
            (''originalBytes'', JNum (js_int bytes)),
            (''preview'', JStr (take (nat (max 0 (ae_max_bytes env - 200))) text))]))"

definition parsePayload :: "audit_env \<Rightarrow> string \<Rightarrow> json" where
  "parsePayload env text =
     (case ae_parse env text of
        Some (JObj kvs) \<Rightarrow> JObj kvs
      | _ \<Rightarrow> JObj [(''raw'', JStr text)])"

text \<open>A record for the caller: the row and its parsed payload.\<close>

definition toRecord :: "audit_env \<Rightarrow> 'h audit_row \<Rightarrow> 'h audit_row \<times> json" where
  "toRecord env row = (row, parsePayload env (af_payload row))"

section \<open>Recording\<close>

definition getEventRow :: "'h audit_db \<Rightarrow> string \<Rightarrow> 'h audit_row option" where
  "getEventRow db i = sql_get af_id i (ad_events db)"

definition last_row :: "'h audit_row list \<Rightarrow> 'h audit_row option" where
  "last_row rows = first_of (order_desc af_sequence rows)"

definition predecessor :: "'h audit_db \<Rightarrow> (int \<times> 'h) option" where
  "predecessor db =
     (case last_row (ad_events db) of
        Some previous \<Rightarrow> Some (af_sequence previous, af_checksum previous)
      | None \<Rightarrow> ad_anchor db)"

definition new_row :: "audit_env \<Rightarrow> 'h checksum \<Rightarrow> int \<Rightarrow> string \<Rightarrow> audit_input \<Rightarrow> 'h audit_db \<Rightarrow> 'h audit_row" where
  "new_row env digest now i event db =
     (let rowWithoutChecksum =
            \<lparr>af_id = i,
             af_sequence = (case predecessor db of None \<Rightarrow> 0 | Some (n, c) \<Rightarrow> n) + 1,
             af_type = au_type event,
             af_actor = nullish (au_actor event) ''system'',
             af_session = au_session event,
             af_payload = serializePayload env (nullish (au_payload event) (JObj [])),
             af_parent = au_parent event,
             af_previous = map_option snd (predecessor db),
             af_created_at = nullish (au_created event) (secs now)\<rparr>
      in audit_fields.extend rowWithoutChecksum (audit_row.fields (digest rowWithoutChecksum)))"

text \<open>The constraints of the table; a row may refer to itself.\<close>

definition insert_event :: "'h audit_row \<Rightarrow> 'h audit_db \<Rightarrow> (audit_error, unit, 'h audit_db) outcome" where
  "insert_event row db =
     (if getEventRow db (af_id row) \<noteq> None then throw (AE_unique (af_id row)) db
      else if af_sequence row \<in> af_sequence ` set (ad_events db) then throw (AE_sequence (af_sequence row)) db
      else
        let db' = db\<lparr>ad_events := ad_events db @ [row]\<rparr> in
        (case af_parent row of
           None \<Rightarrow> ret () db'
         | Some parent \<Rightarrow>
             if ad_foreign_keys db \<and> getEventRow db' parent = None then throw (AE_foreign_key parent) db
             else ret () db'))"

definition recordEvent ::
  "audit_env \<Rightarrow> 'h checksum \<Rightarrow> int \<Rightarrow> string \<Rightarrow> audit_input \<Rightarrow> 'h audit_db \<Rightarrow>
   (audit_error, 'h audit_row \<times> json, 'h audit_db) outcome" where
  "recordEvent env digest now i event db =
     (case insert_event (new_row env digest now i event db) db of
        (Inl e, db') \<Rightarrow> throw e db'
      | (Inr _, db') \<Rightarrow>
          (case getEventRow db' i of
             None \<Rightarrow> throw (AE_not_found i) db
           | Some row \<Rightarrow> ret (toRecord env row) db'))"

section \<open>Reading\<close>

record audit_filter =
  fi_type :: "string option"
  fi_session :: "string option"
  fi_actor :: "string option"
  fi_since :: "int option"
  fi_until :: "int option"

definition text_filter :: "string option \<Rightarrow> string option \<Rightarrow> bool" where
  "text_filter wanted value = (case wanted of None \<Rightarrow> True | Some w \<Rightarrow> w = [] \<or> value = Some w)"

definition buildWhere :: "audit_filter \<Rightarrow> 'h audit_row \<Rightarrow> bool" where
  "buildWhere f row =
     (text_filter (fi_type f) (Some (af_type row)) \<and>
      text_filter (fi_session f) (af_session row) \<and>
      text_filter (fi_actor f) (Some (af_actor row)) \<and>
      (case fi_since f of None \<Rightarrow> True | Some t \<Rightarrow> t \<le> af_created_at row) \<and>
      (case fi_until f of None \<Rightarrow> True | Some t \<Rightarrow> af_created_at row \<le> t))"

definition time_filter :: "int option \<Rightarrow> int option \<Rightarrow> audit_filter" where
  "time_filter since until =
     \<lparr>fi_type = None, fi_session = None, fi_actor = None, fi_since = since, fi_until = until\<rparr>"

record 'h audit_page =
  pg_entries :: "('h audit_row \<times> json) list"
  pg_total :: nat
  pg_page :: int
  pg_limit :: int

definition listEvents ::
  "audit_env \<Rightarrow> audit_filter \<Rightarrow> int option \<Rightarrow> int option \<Rightarrow> 'h audit_db \<Rightarrow> 'h audit_page" where
  "listEvents env f page limit db =
     (let page = max 1 (nullish page 1);
          limit = min 200 (max 1 (nullish limit 50));
          offset = (page - 1) * limit;
          rows = filter (buildWhere f) (ad_events db)
      in \<lparr>pg_entries = map (toRecord env) (take (nat limit) (drop (nat offset) (order_desc af_sequence rows))),
          pg_total = length rows, pg_page = page, pg_limit = limit\<rparr>)"

text \<open>At most 100 events, the oldest first; \<open>n\<close> counts those still allowed.\<close>

fun chain_events :: "'h audit_row list \<Rightarrow> nat \<Rightarrow> string option \<Rightarrow> 'h audit_row list \<Rightarrow> 'h audit_row list" where
  "chain_events rows 0 currentId events = events"
| "chain_events rows (Suc n) currentId events =
     (case currentId of
        None \<Rightarrow> events
      | Some i \<Rightarrow>
          if i = [] then events
          else
            (case sql_get af_id i rows of
               None \<Rightarrow> events
             | Some row \<Rightarrow> chain_events rows n (af_parent row) (row # events)))"

definition getDecisionChain :: "audit_env \<Rightarrow> string \<Rightarrow> 'h audit_db \<Rightarrow> ('h audit_row \<times> json) list" where
  "getDecisionChain env eventId db = map (toRecord env) (chain_events (ad_events db) 100 (Some eventId) [])"

section \<open>Verifying\<close>

record 'h verify_result =
  vr_valid :: bool
  vr_checked :: nat
  vr_from :: "int option"
  vr_to :: "int option"
  vr_broken_at :: "string option"
  vr_expected :: "'h option"
  vr_actual :: "'h option"
  vr_errors :: "string list"

fun verify_rows ::
  "'h checksum \<Rightarrow> 'h option \<Rightarrow> 'h audit_row list \<Rightarrow> 'h verify_result \<Rightarrow> 'h verify_result" where
  "verify_rows digest previousChecksum [] result = result"
| "verify_rows digest previousChecksum (row # rows) result =
     (if af_previous row \<noteq> previousChecksum then
        result\<lparr>vr_valid := False, vr_broken_at := Some (af_id row), vr_expected := previousChecksum,
               vr_actual := af_previous row, vr_errors := [''Previous checksum mismatch at event '' @ af_id row]\<rparr>
      else if af_checksum row \<noteq> computeChecksum digest row then
        result\<lparr>vr_valid := False, vr_broken_at := Some (af_id row),
               vr_expected := Some (computeChecksum digest row), vr_actual := Some (af_checksum row),
               vr_errors := [''Checksum mismatch at event '' @ af_id row]\<rparr>
      else verify_rows digest (Some (af_checksum row)) rows result)"

definition checksum_before :: "'h audit_db \<Rightarrow> int \<Rightarrow> 'h option" where
  "checksum_before db n =
     (case last_row (filter (\<lambda>r. af_sequence r < n) (ad_events db)) of
        Some previous \<Rightarrow> Some (af_checksum previous)
      | None \<Rightarrow>
          (case ad_anchor db of
             None \<Rightarrow> None
           | Some (m, c) \<Rightarrow> if m < n then Some c else None))"

definition verifyIntegrity :: "'h checksum \<Rightarrow> int option \<Rightarrow> int option \<Rightarrow> 'h audit_db \<Rightarrow> 'h verify_result" where
  "verifyIntegrity digest since until db =
     (let rows = order_asc af_sequence (filter (buildWhere (time_filter since until)) (ad_events db));
          previousChecksum = (case rows of [] \<Rightarrow> None | row # _ \<Rightarrow> checksum_before db (af_sequence row))
      in verify_rows digest previousChecksum rows
           \<lparr>vr_valid = True, vr_checked = length rows, vr_from = since, vr_to = until, vr_broken_at = None,
            vr_expected = None, vr_actual = None, vr_errors = []\<rparr>)"

section \<open>Pruning\<close>

definition MAX_SAFE_INTEGER :: int where "MAX_SAFE_INTEGER = 9007199254740991"

text \<open>
  The pragma is off while rows are deleted, so that no parent ids are set to NULL, and is what it was
  before afterwards.
\<close>

definition pruneBefore ::
  "bool \<Rightarrow> int \<Rightarrow> 'h audit_db \<Rightarrow> (audit_error, nat, 'h audit_db) outcome" where
  "pruneBefore inTransaction cutoffUnix db =
     (if inTransaction then throw AE_in_transaction db
      else
        let boundary = first_of (order_asc id
              (map af_sequence (filter (\<lambda>r. cutoffUnix \<le> af_created_at r) (ad_events db))))
        in (case last_row (filter (\<lambda>r. af_sequence r < nullish boundary MAX_SAFE_INTEGER) (ad_events db)) of
              None \<Rightarrow> ret 0 db
            | Some newest \<Rightarrow>
                ret (length (filter (\<lambda>r. af_sequence r \<le> af_sequence newest) (ad_events db)))
                  (db\<lparr>ad_anchor := Some (af_sequence newest, af_checksum newest),
                      ad_events := sql_delete (\<lambda>r. af_sequence r \<le> af_sequence newest) (ad_events db)\<rparr>)))"

section \<open>Reports\<close>

definition toNumber_audit :: "json option \<Rightarrow> js_num" where
  "toNumber_audit v = (case v of Some (JNum n) \<Rightarrow> if js_isFinite n then n else Num 0 | _ \<Rightarrow> Num 0)"

text \<open>The rows of a \<open>Map\<close> in the order in which their keys were first set.\<close>

fun map_upsert :: "('r \<Rightarrow> 'k) \<Rightarrow> 'k \<Rightarrow> 'r \<Rightarrow> ('r \<Rightarrow> 'r) \<Rightarrow> 'r list \<Rightarrow> 'r list" where
  "map_upsert key k r0 f [] = [f r0]"
| "map_upsert key k r0 f (r # rs) = (if key r = k then f r # rs else r # map_upsert key k r0 f rs)"

text \<open>A UTC date is the number of its day.\<close>

record daily_row =
  dy_date :: int
  dy_total :: nat
  dy_by_type :: "(string \<times> nat) list"

definition count_type :: "string \<Rightarrow> (string \<times> nat) list \<Rightarrow> (string \<times> nat) list" where
  "count_type t = map_upsert fst t (t, 0) (\<lambda>(t, n). (t, n + 1))"

definition dailyActivityReport :: "('h audit_row \<times> json) list \<Rightarrow> daily_row list" where
  "dailyActivityReport events =
     fold (\<lambda>(event, payload). let date = af_created_at event div 86400 in
            map_upsert dy_date date \<lparr>dy_date = date, dy_total = 0, dy_by_type = []\<rparr>
              (\<lambda>r. r\<lparr>dy_total := dy_total r + 1, dy_by_type := count_type (af_type event) (dy_by_type r)\<rparr>))
       events []"

definition securityEventsReport :: "('h audit_row \<times> json) list \<Rightarrow> ('h audit_row \<times> json) list" where
  "securityEventsReport events =
     filter (\<lambda>(event, payload).
       let status = toNumber_audit (json_member payload ''status'') in
       af_type event = ''security.validation'' \<or> af_type event = ''config.change'' \<or>
       af_type event = ''user.action'' \<and> js_ge status (Num 400)) events"

record cost_row =
  cr_requestCount :: nat
  cr_inputTokens :: js_num
  cr_outputTokens :: js_num
  cr_totalTokens :: js_num
  cr_costUsd :: js_num

definition or_number :: "js_num \<Rightarrow> js_num \<Rightarrow> js_num" where
  "or_number a b = (if js_truthy a then a else b)"

definition add_cost :: "json \<Rightarrow> cost_row \<Rightarrow> cost_row" where
  "add_cost payload r =
     (let usage = (\<lambda>name. toNumber_audit (case json_member payload ''usage'' of None \<Rightarrow> None | Some u \<Rightarrow> json_member u name))
      in \<lparr>cr_requestCount = cr_requestCount r + 1,
          cr_inputTokens = js_add (cr_inputTokens r) (usage ''input''),
          cr_outputTokens = js_add (cr_outputTokens r) (usage ''output''),
          cr_totalTokens = js_add (cr_totalTokens r)
            (or_number (usage ''totalTokens'')
              (js_add (js_add (js_add (usage ''input'') (usage ''output'')) (usage ''cacheRead'')) (usage ''cacheWrite''))),
          cr_costUsd = js_add (cr_costUsd r) (or_number (usage ''costUsd'') (usage ''totalCost''))\<rparr>)"

definition costResourceReport :: "('h audit_row \<times> json) list \<Rightarrow> cost_row" where
  "costResourceReport events =
     fold (\<lambda>(event, payload) r. if af_type event \<noteq> ''llm.response'' then r else add_cost payload r) events
       \<lparr>cr_requestCount = 0, cr_inputTokens = Num 0, cr_outputTokens = Num 0, cr_totalTokens = Num 0, cr_costUsd = Num 0\<rparr>"

record tool_row =
  tu_tool :: string
  tu_count :: nat
  tu_successCount :: nat
  tu_failureCount :: nat
  tu_totalDurationMs :: js_num

record tool_usage = tool_row +
  tu_avgDurationMs :: js_num

definition tool_name_of :: "json \<Rightarrow> string" where
  "tool_name_of payload = (case json_member payload ''toolName'' of Some (JStr t) \<Rightarrow> t | _ \<Rightarrow> ''unknown'')"

definition add_tool_result :: "json \<Rightarrow> tool_row \<Rightarrow> tool_row" where
  "add_tool_result payload r =
     (let ok = (json_member payload ''success'' = Some (JBool True)) in
      r\<lparr>tu_count := tu_count r + 1,
        tu_successCount := (if ok then tu_successCount r + 1 else tu_successCount r),
        tu_failureCount := (if ok then tu_failureCount r else tu_failureCount r + 1),
        tu_totalDurationMs := js_add (tu_totalDurationMs r) (toNumber_audit (json_member payload ''durationMs''))\<rparr>)"

definition grouped_tools :: "('h audit_row \<times> json) list \<Rightarrow> tool_row list" where
  "grouped_tools events =
     fold (\<lambda>(event, payload) rows.
            if af_type event \<noteq> ''tool.result'' then rows
            else let tool = tool_name_of payload in
              map_upsert tu_tool tool
                \<lparr>tu_tool = tool, tu_count = 0, tu_successCount = 0, tu_failureCount = 0, tu_totalDurationMs = Num 0\<rparr>
                (add_tool_result payload) rows)
       events []"

definition toolUsageReport :: "('h audit_row \<times> json) list \<Rightarrow> tool_usage list" where
  "toolUsageReport events =
     sort_key (\<lambda>r. - int (tu_count r))
       (map (\<lambda>r. tool_row.extend r (tool_usage.fields
               (if 0 < tu_count r then js_div (tu_totalDurationMs r) (js_int (int (tu_count r))) else Num 0)))
         (grouped_tools events))"

text \<open>The events a report covers.\<close>

definition report_events ::
  "audit_env \<Rightarrow> int \<Rightarrow> int option \<Rightarrow> 'h audit_db \<Rightarrow> ('h audit_row \<times> json) list" where
  "report_events env now periodHours db =
     (let since = secs now - max 1 (nullish periodHours 24) * 3600
      in map (toRecord env) (order_asc af_sequence (filter (\<lambda>r. since \<le> af_created_at r) (ad_events db))))"

end
