(* ===== verification/AuditIntegrity.thy ===== *)
theory AuditIntegrity
  imports AuditTrail Runs "HOL-Library.Multiset"
begin

text \<open>
  What the chain of checksums shows: which windows of an untouched log verify, that no event can be
  changed, added or removed before the newest one without being noticed, and what pruning keeps.
\<close>

section \<open>Chains\<close>

fun chained :: "'h checksum \<Rightarrow> 'h option \<Rightarrow> 'h audit_row list \<Rightarrow> bool" where
  "chained digest p [] = True"
| "chained digest p (r # rs) =
     (af_previous r = p \<and> af_checksum r = computeChecksum digest r \<and> chained digest (Some (af_checksum r)) rs)"

definition end_of_chain :: "'h option \<Rightarrow> 'h audit_row list \<Rightarrow> 'h option" where
  "end_of_chain p rs = (if rs = [] then p else Some (af_checksum (last rs)))"

lemma end_of_chain_simps [simp]:
  "end_of_chain p [] = p" "end_of_chain p (rs @ [r]) = Some (af_checksum r)"
  by (simp_all add: end_of_chain_def)

lemma chained_append:
  "chained digest p (xs @ ys) \<longleftrightarrow> chained digest p xs \<and> chained digest (end_of_chain p xs) ys"
  by (induction xs arbitrary: p) (auto simp: end_of_chain_def)

lemma chained_snoc:
  "chained digest p (xs @ [r]) \<longleftrightarrow>
   chained digest p xs \<and> af_previous r = end_of_chain p xs \<and> af_checksum r = computeChecksum digest r"
  by (simp add: chained_append)

lemma verify_rows_valid:
  "vr_valid (verify_rows digest p rows result) \<longleftrightarrow> vr_valid result \<and> chained digest p rows"
  if "vr_valid result"
  using that by (induction rows arbitrary: p) simp_all

lemma row_determined:
  assumes "audit_fields.truncate x = audit_fields.truncate y" and "af_checksum x = af_checksum (y :: 'h audit_row)"
  shows "x = y"
  using assms by (cases x; cases y) (simp add: audit_fields.truncate_def)

lemma same_checksum:
  assumes "inj digest" and "af_checksum x = computeChecksum digest x" and "af_checksum y = computeChecksum digest y"
    and "af_checksum x = af_checksum y"
  shows "x = y"
proof (rule row_determined)
  show "audit_fields.truncate x = audit_fields.truncate y"
    using assms by (auto simp: computeChecksum_def dest: injD)
  show "af_checksum x = af_checksum y" by (rule assms(4))
qed

text \<open>Two chains with the same end are the same as far as both go back.\<close>

lemma chain_determined:
  assumes "inj digest" and "chained digest p xs" and "chained digest q ys" and "xs \<noteq> []" and "ys \<noteq> []"
    and "af_checksum (last xs) = af_checksum (last ys)"
  shows "(\<exists>zs. ys = zs @ xs \<and> (zs = [] \<or> p = end_of_chain None zs)) \<or>
         (\<exists>zs. zs \<noteq> [] \<and> xs = zs @ ys \<and> q = end_of_chain None zs)"
  using assms(2-)
proof (induction xs arbitrary: ys rule: rev_induct)
  case Nil
  then show ?case by simp
next
  case (snoc x xs)
  obtain ys0 y where ys: "ys = ys0 @ [y]" using snoc.prems(4) by (metis rev_exhaust)
  have "x = y"
    using snoc.prems ys by (intro same_checksum [OF assms(1)]) (auto simp: chained_snoc)
  have prev: "end_of_chain p xs = end_of_chain q ys0"
    using snoc.prems(1,2) ys \<open>x = y\<close> by (auto simp: chained_snoc)
  show ?case
  proof (cases "xs = [] \<or> ys0 = []")
    case True
    then show ?thesis using ys \<open>x = y\<close> prev by (cases "xs = []") (auto simp: end_of_chain_def)
  next
    case False
    then have "af_checksum (last xs) = af_checksum (last ys0)" using prev by (simp add: end_of_chain_def)
    then have "(\<exists>zs. ys0 = zs @ xs \<and> (zs = [] \<or> p = end_of_chain None zs)) \<or>
        (\<exists>zs. zs \<noteq> [] \<and> xs = zs @ ys0 \<and> q = end_of_chain None zs)"
      using snoc.IH [of ys0] snoc.prems(1,2) ys False by (auto simp: chained_snoc)
    then show ?thesis using ys \<open>x = y\<close> by auto
  qed
qed

section \<open>Histories\<close>

datatype audit_call =
    Ac_record int string audit_input
  | Ac_prune bool int
  | Ac_pragma bool

text \<open>The tables and, for the statements only, all events ever recorded.\<close>

record 'h audit_world =
  aw_db :: "'h audit_db"
  aw_log :: "'h audit_row list"

fun audit_step :: "audit_env \<Rightarrow> 'h checksum \<Rightarrow> audit_call \<Rightarrow> 'h audit_world \<Rightarrow> 'h audit_world" where
  "audit_step env digest (Ac_record now i event) w =
     (case recordEvent env digest now i event (aw_db w) of
        (Inl e, db) \<Rightarrow> w\<lparr>aw_db := db\<rparr>
      | (Inr (row, payload), db) \<Rightarrow> w\<lparr>aw_db := db, aw_log := aw_log w @ [row]\<rparr>)"
| "audit_step env digest (Ac_prune inTransaction cutoffUnix) w =
     w\<lparr>aw_db := snd (pruneBefore inTransaction cutoffUnix (aw_db w))\<rparr>"
| "audit_step env digest (Ac_pragma on) w = w\<lparr>aw_db := (aw_db w)\<lparr>ad_foreign_keys := on\<rparr>\<rparr>"

definition audit_start :: "'h audit_world" where
  "audit_start = \<lparr>aw_db = \<lparr>ad_events = [], ad_anchor = None, ad_foreign_keys = True\<rparr>, aw_log = []\<rparr>"

definition audit_run :: "audit_env \<Rightarrow> 'h checksum \<Rightarrow> audit_call list \<Rightarrow> 'h audit_world" where
  "audit_run env digest calls = fold (audit_step env digest) calls audit_start"

section \<open>The table is the end of the log\<close>

text \<open>The log is numbered from 1, and the table holds what follows its first \<open>k\<close> events.\<close>

definition numbered :: "'h audit_row list \<Rightarrow> bool" where
  "numbered rows = (\<forall>i<length rows. af_sequence (rows ! i) = int i + 1)"

definition anchor_at :: "'h audit_row list \<Rightarrow> nat \<Rightarrow> (int \<times> 'h) option" where
  "anchor_at rows k = (if k = 0 then None else Some (af_sequence (rows ! (k - 1)), af_checksum (rows ! (k - 1))))"

definition table_at :: "'h audit_row list \<Rightarrow> nat \<Rightarrow> 'h audit_db \<Rightarrow> bool" where
  "table_at rows k db = (k \<le> length rows \<and> ad_events db = drop k rows \<and> ad_anchor db = anchor_at rows k)"

definition audit_inv :: "'h checksum \<Rightarrow> 'h audit_world \<Rightarrow> bool" where
  "audit_inv digest w =
     (chained digest None (aw_log w) \<and> numbered (aw_log w) \<and> (\<exists>k. table_at (aw_log w) k (aw_db w)))"

lemma numbered_append: "numbered (rows @ [r]) \<longleftrightarrow> numbered rows \<and> af_sequence r = int (length rows) + 1"
  by (auto simp: numbered_def nth_append less_Suc_eq)

lemma numbered_sorted: "numbered rows \<Longrightarrow> sorted_wrt (<) (map af_sequence (drop k rows))"
  by (auto simp: sorted_wrt_iff_nth_less numbered_def)

lemma last_row_sorted:
  assumes "sorted_wrt (<) (map af_sequence rows)"
  shows "last_row rows = (if rows = [] then None else Some (last rows))"
proof -
  have "sort_key (\<lambda>r. - af_sequence r) rows = rev rows"
  proof (rule sort_key_inj_key_eq)
    show "mset rows = mset (rev rows)" by simp
    have "distinct (map af_sequence rows)" using assms by (simp add: strict_sorted_iff)
    then show "inj_on (\<lambda>r. - af_sequence r) (set rows)" by (auto simp: distinct_map inj_on_def)
    show "sorted (map (\<lambda>r. - af_sequence r) (rev rows))"
      using assms by (auto simp: sorted_wrt_map sorted_wrt_rev elim: sorted_wrt_mono_rel [rotated])
  qed
  then show ?thesis by (cases rows rule: rev_cases) (auto simp: last_row_def order_desc_def first_of_def)
qed

lemma order_sorted: "sorted_wrt (<) (map af_sequence rows) \<Longrightarrow> order_asc af_sequence rows = rows"
  by (auto simp: order_asc_def strict_sorted_iff intro: sort_key_id_if_sorted)

lemma sorted_filter: "sorted_wrt (<) (map af_sequence rows) \<Longrightarrow> sorted_wrt (<) (map af_sequence (filter P rows))"
  by (simp add: sorted_wrt_map sorted_wrt_filter)

lemma predecessor_at:
  assumes "numbered rows" and "table_at rows k db"
  shows "predecessor db = anchor_at rows (length rows)"
proof -
  have s: "sorted_wrt (<) (map af_sequence (drop k rows))" by (rule numbered_sorted [OF assms(1)])
  show ?thesis
    using assms last_row_sorted [OF s]
    by (auto simp: predecessor_def table_at_def anchor_at_def last_conv_nth)
qed

section \<open>Recording and pruning\<close>

lemma new_row_fields [simp]:
  "af_sequence (new_row env digest now i event db) = (case predecessor db of None \<Rightarrow> 0 | Some (n, c) \<Rightarrow> n) + 1"
  "af_previous (new_row env digest now i event db) = map_option snd (predecessor db)"
  "af_checksum (new_row env digest now i event db) = computeChecksum digest (new_row env digest now i event db)"
  "af_id (new_row env digest now i event db) = i"
  "af_created_at (new_row env digest now i event db) = nullish (au_created event) (secs now)"
  by (simp_all add: new_row_def Let_def computeChecksum_def audit_fields.truncate_def audit_fields.extend_def
      audit_row.fields_def)

lemma recordEvent_cases:
  assumes "recordEvent env digest now i event db = (v, db')"
  shows "(\<exists>e. v = Inl e) \<and> db' = db \<or>
    (\<exists>payload. v = Inr (new_row env digest now i event db, payload)) \<and>
     db' = db\<lparr>ad_events := ad_events db @ [new_row env digest now i event db]\<rparr>"
proof -
  let ?row = "new_row env digest now i event db"
  obtain u db1 where ins: "insert_event ?row db = (u, db1)" by (metis surj_pair)
  have "(\<exists>e. u = Inl e) \<and> db1 = db \<or>
      getEventRow db i = None \<and> u = Inr () \<and> db1 = db\<lparr>ad_events := ad_events db @ [?row]\<rparr>"
    using ins
    by (auto simp: insert_event_def throw_def ret_def Let_def split: if_splits option.splits)
  then show ?thesis
    using assms ins by (auto simp: recordEvent_def throw_def ret_def getEventRow_def toRecord_def)
qed

lemma end_anchor: "map_option snd (anchor_at rows (length rows)) = end_of_chain None rows"
  by (auto simp: anchor_at_def end_of_chain_def last_conv_nth)

lemma anchor_at_append: "k \<le> length rows \<Longrightarrow> anchor_at (rows @ [r]) k = anchor_at rows k"
  by (auto simp: anchor_at_def nth_append)

lemma audit_inv_record:
  assumes "audit_inv digest w"
  shows "audit_inv digest (audit_step env digest (Ac_record now i event) w)"
proof -
  obtain k where chain: "chained digest None (aw_log w)" and num: "numbered (aw_log w)"
    and k: "table_at (aw_log w) k (aw_db w)" using assms by (auto simp: audit_inv_def)
  let ?row = "new_row env digest now i event (aw_db w)"
  obtain v db' where rec: "recordEvent env digest now i event (aw_db w) = (v, db')" by (metis surj_pair)
  have pred: "predecessor (aw_db w) = anchor_at (aw_log w) (length (aw_log w))" by (rule predecessor_at [OF num k])
  consider (failed) e where "v = Inl e" "db' = aw_db w"
    | (recorded) payload where "v = Inr (?row, payload)" "db' = (aw_db w)\<lparr>ad_events := ad_events (aw_db w) @ [?row]\<rparr>"
    using recordEvent_cases [OF rec] by blast
  then show ?thesis
  proof cases
    case failed
    then show ?thesis using assms rec by (simp add: audit_inv_def)
  next
    case recorded
    have "chained digest None (aw_log w @ [?row])"
      using chain by (simp add: chained_snoc pred end_anchor)
    moreover have "numbered (aw_log w @ [?row])"
    proof -
      have "af_sequence ?row = int (length (aw_log w)) + 1"
        using num by (cases "aw_log w" rule: rev_cases) (auto simp: pred anchor_at_def numbered_def)
      then show ?thesis using num by (simp add: numbered_append)
    qed
    moreover have "table_at (aw_log w @ [?row]) k db'"
      using k recorded(2) by (simp add: table_at_def anchor_at_append)
    ultimately show ?thesis using rec recorded(1) by (auto simp: audit_inv_def)
  qed
qed

text \<open>Below a number lie the first rows of a sorted table.\<close>

lemma filter_below:
  "sorted_wrt (<) (map af_sequence rows) \<Longrightarrow>
   filter (\<lambda>r. af_sequence r < n) rows = takeWhile (\<lambda>r. af_sequence r < n) rows"
proof (induction rows)
  case (Cons r rows)
  have "filter (\<lambda>r. af_sequence r < n) rows = []" if "\<not> af_sequence r < n"
    using Cons.prems that by (auto simp: filter_empty_conv)
  then show ?case using Cons by auto
qed simp

lemma filter_upto_nth:
  assumes "sorted_wrt (<) (map af_sequence rows)" and "0 < m" and "m \<le> length rows"
  shows "filter (\<lambda>r. af_sequence r \<le> af_sequence (rows ! (m - 1))) rows = take m rows"
    "sql_delete (\<lambda>r. af_sequence r \<le> af_sequence (rows ! (m - 1))) rows = drop m rows"
proof -
  let ?P = "\<lambda>r. af_sequence r \<le> af_sequence (rows ! (m - 1))"
  have s: "sorted_wrt (\<lambda>a b. af_sequence a < af_sequence b) rows" using assms(1) by (simp add: sorted_wrt_map)
  have low: "?P r" if r: "r \<in> set (take m rows)" for r
  proof -
    obtain i where "i < m" "i < length rows" "r = rows ! i"
      using r assms(3) by (auto simp: in_set_conv_nth)
    moreover from this have "i < m - 1 \<or> i = m - 1" by linarith
    ultimately show ?thesis using sorted_wrt_nth_less [OF s, of i "m - 1"] assms by fastforce
  qed
  have high: "\<not> ?P r" if r: "r \<in> set (drop m rows)" for r
  proof -
    obtain i where "i < length rows - m" "r = rows ! (m + i)" using r by (auto simp: in_set_conv_nth)
    moreover from this have "m - 1 < m + i" "m + i < length rows" using assms by linarith+
    ultimately show ?thesis using sorted_wrt_nth_less [OF s, of "m - 1" "m + i"] by simp
  qed
  have "filter ?P (take m rows @ drop m rows) = take m rows"
    using low high by (simp only: filter_append) (simp add: filter_empty_conv)
  then show "filter ?P rows = take m rows" by simp
  have "filter (\<lambda>r. \<not> ?P r) (take m rows @ drop m rows) = drop m rows"
    using low high by (simp only: filter_append) (simp add: filter_empty_conv filter_id_conv)
  then show "sql_delete ?P rows = drop m rows" by (simp add: sql_delete_def)
qed

text \<open>Pruning a sorted table removes its first rows up to the boundary.\<close>

definition prune_bound :: "int \<Rightarrow> 'h audit_row list \<Rightarrow> int" where
  "prune_bound cutoffUnix rows =
     nullish (first_of (order_asc id (map af_sequence (filter (\<lambda>r. cutoffUnix \<le> af_created_at r) rows)))) MAX_SAFE_INTEGER"

lemma prune_sorted:
  fixes cutoffUnix :: int
  assumes "sorted_wrt (<) (map af_sequence (ad_events db))"
  defines "m \<equiv> length (takeWhile (\<lambda>r. af_sequence r < prune_bound cutoffUnix (ad_events db)) (ad_events db))"
  shows "pruneBefore False cutoffUnix db =
    (Inr m,
     if m = 0 then db
     else db\<lparr>ad_anchor := Some (af_sequence (ad_events db ! (m - 1)), af_checksum (ad_events db ! (m - 1))),
             ad_events := drop m (ad_events db)\<rparr>)"
proof -
  let ?rows = "ad_events db"
  let ?low = "takeWhile (\<lambda>r. af_sequence r < prune_bound cutoffUnix ?rows) ?rows"
  have m: "m \<le> length ?rows" by (simp add: m_def length_takeWhile_le)
  have low: "?low = take m ?rows" unfolding m_def by (rule takeWhile_eq_take)
  have s: "sorted_wrt (<) (map af_sequence ?low)"
    using sorted_filter [OF assms(1)] unfolding filter_below [OF assms(1), symmetric] .
  have last: "last_row ?low = (if m = 0 then None else Some (?rows ! (m - 1)))"
  proof (cases "m = 0")
    case True
    then show ?thesis using last_row_sorted [OF s] low by simp
  next
    case False
    then have "?low \<noteq> []" by (auto simp: m_def)
    moreover from this have "last ?low = ?rows ! (m - 1)"
      using m unfolding low by (subst last_conv_nth) auto
    ultimately show ?thesis using last_row_sorted [OF s] False by simp
  qed
  show ?thesis
  proof (cases "m = 0")
    case True
    then have "last_row ?low = None" using last by simp
    then show ?thesis
      unfolding pruneBefore_def Let_def prune_bound_def [symmetric] filter_below [OF assms(1)]
      using True by (simp add: ret_def)
  next
    case False
    then have "last_row ?low = Some (?rows ! (m - 1))" using last by simp
    moreover have "length (take m ?rows) = m" using m by simp
    moreover have "0 < m" using False by simp
    ultimately show ?thesis
      unfolding pruneBefore_def Let_def prune_bound_def [symmetric] filter_below [OF assms(1)]
      using False by (simp only: if_False option.case ret_def filter_upto_nth [OF assms(1) _ m])
  qed
qed

lemma audit_inv_prune:
  assumes "audit_inv digest w"
  shows "audit_inv digest (audit_step env digest (Ac_prune inTransaction cutoffUnix) w)"
proof (cases inTransaction)
  case True
  then show ?thesis using assms by (simp add: pruneBefore_def)
next
  case False
  obtain k where chain: "chained digest None (aw_log w)" and num: "numbered (aw_log w)"
    and k: "table_at (aw_log w) k (aw_db w)" using assms by (auto simp: audit_inv_def)
  let ?rows = "ad_events (aw_db w)"
  define m where "m = length (takeWhile (\<lambda>r. af_sequence r < prune_bound cutoffUnix ?rows) ?rows)"
  have s: "sorted_wrt (<) (map af_sequence ?rows)" using numbered_sorted [OF num] k by (simp add: table_at_def)
  have "m \<le> length ?rows" by (simp add: m_def length_takeWhile_le)
  then have "table_at (aw_log w) (k + m) (snd (pruneBefore False cutoffUnix (aw_db w)))"
    using k unfolding prune_sorted [OF s] m_def [symmetric]
    by (cases "m = 0") (auto simp: table_at_def anchor_at_def add.commute)
  then show ?thesis using chain num False by (auto simp: audit_inv_def)
qed

lemma audit_inv_step: "audit_inv digest w \<Longrightarrow> audit_inv digest (audit_step env digest call w)"
proof (cases call)
  case (Ac_pragma on)
  assume "audit_inv digest w"
  then show ?thesis using Ac_pragma by (auto simp: audit_inv_def table_at_def)
qed (simp_all add: audit_inv_record audit_inv_prune del: audit_step.simps)

interpretation audit_log: step_invariant "audit_step env digest" "\<lambda>call w. True" "audit_inv digest" for env digest
  by unfold_locales (rule audit_inv_step)

lemma audit_inv_run: "audit_inv digest (audit_run env digest calls)"
  unfolding audit_run_def
  by (rule audit_log.good_run) (auto simp: audit_inv_def audit_start_def numbered_def table_at_def anchor_at_def)

section \<open>Verifying an untouched log\<close>

lemma chained_nth:
  "chained digest p rows \<longleftrightarrow>
   (\<forall>i<length rows. af_checksum (rows ! i) = computeChecksum digest (rows ! i) \<and>
      af_previous (rows ! i) = (if i = 0 then p else Some (af_checksum (rows ! (i - 1)))))"
proof (induction rows arbitrary: p)
  case Nil
  then show ?case by simp
next
  case (Cons r rows)
  show ?case
  proof
    assume "chained digest p (r # rows)"
    then have "af_previous r = p" "af_checksum r = computeChecksum digest r" "chained digest (Some (af_checksum r)) rows"
      by auto
    then show "\<forall>i<length (r # rows). af_checksum ((r # rows) ! i) = computeChecksum digest ((r # rows) ! i) \<and>
        af_previous ((r # rows) ! i) = (if i = 0 then p else Some (af_checksum ((r # rows) ! (i - 1))))"
      using Cons [of "Some (af_checksum r)"] by (auto simp: nth_Cons split: nat.split)
  next
    assume all: "\<forall>i<length (r # rows). af_checksum ((r # rows) ! i) = computeChecksum digest ((r # rows) ! i) \<and>
        af_previous ((r # rows) ! i) = (if i = 0 then p else Some (af_checksum ((r # rows) ! (i - 1))))"
    have "af_previous r = p" "af_checksum r = computeChecksum digest r" using all by force+
    moreover have "af_checksum (rows ! i) = computeChecksum digest (rows ! i) \<and>
        af_previous (rows ! i) = (if i = 0 then Some (af_checksum r) else Some (af_checksum (rows ! (i - 1))))"
      if "i < length rows" for i
      using all [rule_format, of "Suc i"] that by (cases i) auto
    ultimately show "chained digest p (r # rows)" using Cons [of "Some (af_checksum r)"] by simp
  qed
qed

text \<open>Rows whose numbers follow each other without a gap.\<close>

fun gapless :: "'h audit_row list \<Rightarrow> bool" where
  "gapless (x # y # rows) = (af_sequence y = af_sequence x + 1 \<and> gapless (y # rows))"
| "gapless rows = True"

lemma log_facts:
  assumes "chained digest None hist" and "numbered hist" and "x \<in> set hist" and "y \<in> set hist"
  shows "af_checksum x = computeChecksum digest x"
    and "af_sequence y = af_sequence x + 1 \<Longrightarrow> af_previous y = Some (af_checksum x)"
    and "inj digest \<Longrightarrow> af_previous y = Some (af_checksum x) \<Longrightarrow> af_sequence y = af_sequence x + 1"
proof -
  obtain i j where i: "i < length hist" "x = hist ! i" and j: "j < length hist" "y = hist ! j"
    using assms(3,4) by (auto simp: in_set_conv_nth)
  note facts = assms(1) [unfolded chained_nth]
  show ok: "af_checksum x = computeChecksum digest x" using facts i by blast
  have seq: "af_sequence x = int i + 1" "af_sequence y = int j + 1" using assms(2) i j by (simp_all add: numbered_def)
  have prev: "af_previous y = (if j = 0 then None else Some (af_checksum (hist ! (j - 1))))" using facts j by blast
  show "af_previous y = Some (af_checksum x)" if "af_sequence y = af_sequence x + 1"
  proof -
    have "j = i + 1" using that seq by simp
    then show ?thesis using prev i by simp
  qed
  show "af_sequence y = af_sequence x + 1" if "inj digest" "af_previous y = Some (af_checksum x)"
  proof -
    have "0 < j" "af_checksum (hist ! (j - 1)) = af_checksum x" using that(2) prev by (auto split: if_splits)
    then have "hist ! (j - 1) = x"
      using same_checksum [OF that(1)] facts i j by (metis less_imp_diff_less)
    then have "af_sequence x = int (j - 1) + 1" using assms(2) j \<open>0 < j\<close> by (auto simp: numbered_def)
    then show ?thesis using seq \<open>0 < j\<close> by simp
  qed
qed

lemma gapless_chained:
  assumes "chained digest None hist" and "numbered hist" and "set (r # rows) \<subseteq> set hist" and "inj digest"
  shows "chained digest (af_previous r) (r # rows) \<longleftrightarrow> gapless (r # rows)"
  using assms(3)
proof (induction rows arbitrary: r)
  case Nil
  then show ?case using log_facts(1) [OF assms(1,2), of r r] by simp
next
  case (Cons y rows)
  have in_log: "r \<in> set hist" "y \<in> set hist" using Cons.prems by auto
  have "af_previous y = Some (af_checksum r) \<longleftrightarrow> af_sequence y = af_sequence r + 1"
    using log_facts(2,3) [OF assms(1,2) in_log] assms(4) by blast
  moreover have "chained digest (af_previous y) (y # rows) \<longleftrightarrow> gapless (y # rows)" using Cons by simp
  ultimately show ?case using log_facts(1) [OF assms(1,2) in_log] by auto
qed

lemma filter_below_drop:
  assumes "numbered hist" and "k \<le> i" and "i < length hist"
  shows "filter (\<lambda>r. af_sequence r < af_sequence (hist ! i)) (drop k hist) = drop k (take i hist)"
proof -
  have num: "af_sequence (hist ! j) = int j + 1" if "j < length hist" for j using assms(1) that by (simp add: numbered_def)
  have "filter P (drop k hist) = drop k (take i hist)" if P: "P = (\<lambda>r. af_sequence r < af_sequence (hist ! i))" for P
  proof -
    have "drop k hist = drop k (take i hist) @ drop i hist"
      using assms(2,3) by (metis append_take_drop_id drop_append length_take less_imp_le_nat min.absorb2 diff_is_0_eq' drop0)
    moreover have "filter P (drop k (take i hist)) = drop k (take i hist)"
      using num P assms(3) by (auto simp: filter_id_conv in_set_conv_nth)
    moreover have "filter P (drop i hist) = []"
      using num P assms(3) by (auto simp: filter_empty_conv in_set_conv_nth)
    ultimately show ?thesis by simp
  qed
  then show ?thesis by blast
qed

lemma checksum_before_log:
  assumes "chained digest None hist" and "numbered hist" and "table_at hist k db" and "r \<in> set (ad_events db)"
  shows "checksum_before db (af_sequence r) = af_previous r"
proof -
  obtain i where i: "k \<le> i" "i < length hist" "r = hist ! i"
  proof -
    obtain j where "j < length hist - k" "r = hist ! (k + j)" using assms(3,4) by (auto simp: table_at_def in_set_conv_nth)
    then show thesis using that [of "k + j"] by simp
  qed
  have prev: "af_previous r = (if i = 0 then None else Some (af_checksum (hist ! (i - 1))))"
    using assms(1) i by (simp add: chained_nth)
  have rows: "ad_events db = drop k hist" "ad_anchor db = anchor_at hist k" using assms(3) by (simp_all add: table_at_def)
  have s: "sorted_wrt (<) (map af_sequence (drop k (take i hist)))"
    using sorted_filter [OF numbered_sorted [OF assms(2)]] filter_below_drop [OF assms(2) i(1,2)] by metis
  show ?thesis
  proof (cases "k = i")
    case True
    then have "last_row (filter (\<lambda>q. af_sequence q < af_sequence r) (ad_events db)) = None"
      using filter_below_drop [OF assms(2) i(1,2)] i(3) rows by (simp add: last_row_def first_of_def order_desc_def)
    then show ?thesis
      using True prev rows i assms(2) by (auto simp: checksum_before_def anchor_at_def numbered_def)
  next
    case False
    then have ne: "drop k (take i hist) \<noteq> []" using i by simp
    have "last (drop k (take i hist)) = hist ! (i - 1)" using ne i by (simp add: last_conv_nth)
    then have "last_row (filter (\<lambda>q. af_sequence q < af_sequence r) (ad_events db)) = Some (hist ! (i - 1))"
      using filter_below_drop [OF assms(2) i(1,2)] i(3) rows last_row_sorted [OF s] ne by simp
    then show ?thesis using prev False i by (simp add: checksum_before_def)
  qed
qed


section \<open>Tampering\<close>

lemma log_chain_from:
  assumes "chained digest None hist" and "k \<le> length hist"
  shows "chained digest (end_of_chain None (take k hist)) (drop k hist)"
  using assms(1) chained_append [of digest None "take k hist" "drop k hist"] by simp

lemma anchor_end:
  "k \<le> length hist \<Longrightarrow> map_option snd (anchor_at hist k) = end_of_chain None (take k hist)"
  by (cases "k = 0") (auto simp: anchor_at_def end_of_chain_def last_conv_nth)

text \<open>No chain that ends as the log does and begins after the anchor differs from the table.\<close>

lemma tampered_chain:
  assumes inj: "inj digest" and chain: "chained digest None hist" and num: "numbered hist" and k: "k \<le> length hist"
    and rows: "chained digest (end_of_chain None (take k hist)) rows"
    and later: "\<forall>r\<in>set rows. int k < af_sequence r"
    and same: "end_of_chain (end_of_chain None (take k hist)) rows = end_of_chain None hist"
  shows "rows = drop k hist"
proof -
  let ?p = "end_of_chain None (take k hist)"
  have ok: "af_checksum x = computeChecksum digest x" if "x \<in> set hist" for x
    using log_facts(1) [OF chain num that that] .
  have seq: "af_sequence x \<le> int k" if "x \<in> set (take k hist)" for x
    using that num by (auto simp: in_set_conv_nth numbered_def)
  have seq': "int k < af_sequence x" if "x \<in> set (drop k hist)" for x
    using that num by (auto simp: in_set_conv_nth numbered_def)
  have no_clash: "Some (af_checksum r) \<noteq> ?p" if "int k < af_sequence r" "af_checksum r = computeChecksum digest r" for r
  proof
    assume clash: "Some (af_checksum r) = ?p"
    then have "take k hist \<noteq> []" by (auto simp: end_of_chain_def split: if_splits)
    then have in_take: "last (take k hist) \<in> set (take k hist)" by (rule last_in_set)
    have "r = last (take k hist)"
      using clash that(2) ok [OF in_set_takeD [OF in_take]] \<open>take k hist \<noteq> []\<close>
      by (intro same_checksum [OF inj]) (auto simp: end_of_chain_def)
    then show False using that(1) seq [OF in_take] by simp
  qed
  have end_hist: "end_of_chain ?p (drop k hist) = end_of_chain None hist"
    using k by (cases "drop k hist = []") (auto simp: end_of_chain_def)
  have sound: "af_checksum (last xs) = computeChecksum digest (last xs)" if "chained digest q xs" "xs \<noteq> []" for q xs
    using that by (cases xs rule: rev_cases) (auto simp: chained_snoc)
  show ?thesis
  proof (cases "rows = [] \<or> drop k hist = []")
    case True
    moreover have False if "rows = []" "drop k hist \<noteq> []"
    proof -
      have "last (drop k hist) \<in> set (drop k hist)" using that(2) by (rule last_in_set)
      then have "Some (af_checksum (last (drop k hist))) \<noteq> ?p"
        using no_clash seq' ok in_set_dropD by metis
      then show False using that same end_hist by (simp add: end_of_chain_def)
    qed
    moreover have False if "rows \<noteq> []" "drop k hist = []"
    proof -
      have "Some (af_checksum (last rows)) \<noteq> ?p"
        using no_clash [of "last rows"] sound [OF rows that(1)] later that(1) by simp
      moreover have "end_of_chain ?p rows = Some (af_checksum (last rows))"
        using that(1) by (simp add: end_of_chain_def)
      moreover have "end_of_chain ?p (drop k hist) = ?p" using that(2) by simp
      ultimately show False using same end_hist by metis
    qed
    ultimately show ?thesis by metis
  next
    case False
    then have last: "af_checksum (last (drop k hist)) = af_checksum (last rows)"
      using same end_hist by (simp add: end_of_chain_def)
    from chain_determined [OF inj log_chain_from [OF chain k] rows _ _ last] False
    consider zs where "rows = zs @ drop k hist" "zs = [] \<or> ?p = end_of_chain None zs"
      | zs where "zs \<noteq> []" "drop k hist = zs @ rows" "?p = end_of_chain None zs" by auto
    then show ?thesis
    proof cases
      case 1
      have False if "zs \<noteq> []"
      proof -
        have "last zs \<in> set rows" using that 1(1) by simp
        moreover have "af_checksum (last zs) = computeChecksum digest (last zs)"
          using rows 1(1) sound [of ?p zs] that by (simp add: chained_append)
        ultimately have "Some (af_checksum (last zs)) \<noteq> ?p" using no_clash later by blast
        then show False using that 1(2) by (simp add: end_of_chain_def)
      qed
      then show ?thesis using 1(1) by auto
    next
      case 2
      then have "last zs \<in> set (drop k hist)" by simp
      then have "Some (af_checksum (last zs)) \<noteq> ?p" using no_clash seq' ok in_set_dropD by metis
      then show ?thesis using 2 by (simp add: end_of_chain_def)
    qed
  qed
qed

text \<open>
  C18. Any table whose events all come after the anchor, whose newest event has the checksum of the newest
  one recorded, and which verifies, is the table as it was written: no event before the newest one
  can be changed, added, removed or moved without being noticed. (Removing the newest events cannot be
  noticed, because their checksum is stored nowhere else.)
\<close>

theorem tampering_detected:
  assumes "inj digest"
    and "distinct (map af_sequence rows)"
    and "list_all (\<lambda>r. case ad_anchor (aw_db (audit_run env digest calls)) of
            None \<Rightarrow> 0 < af_sequence r | Some (n, c) \<Rightarrow> n < af_sequence r) rows"
    and "map_option snd (predecessor ((aw_db (audit_run env digest calls))\<lparr>ad_events := rows\<rparr>)) =
         map_option snd (predecessor (aw_db (audit_run env digest calls)))"
    and "vr_valid (verifyIntegrity digest None None ((aw_db (audit_run env digest calls))\<lparr>ad_events := rows\<rparr>))"
  shows "order_asc af_sequence rows = ad_events (aw_db (audit_run env digest calls))"
proof -
  let ?w = "audit_run env digest calls"
  let ?db = "(aw_db ?w)\<lparr>ad_events := rows\<rparr>"
  let ?ys = "order_asc af_sequence rows"
  obtain k where chain: "chained digest None (aw_log ?w)" and num: "numbered (aw_log ?w)"
    and k: "table_at (aw_log ?w) k (aw_db ?w)" using audit_inv_run [of digest env calls] by (auto simp: audit_inv_def)
  let ?p = "end_of_chain None (take k (aw_log ?w))"
  have anchor: "ad_anchor (aw_db ?w) = anchor_at (aw_log ?w) k" "k \<le> length (aw_log ?w)" using k by (simp_all add: table_at_def)
  have anchor_seq: "(case anchor_at (aw_log ?w) k of None \<Rightarrow> 0 | Some (n, c) \<Rightarrow> n) = int k"
    using num anchor(2) by (auto simp: anchor_at_def numbered_def)
  have later: "\<forall>r\<in>set ?ys. int k < af_sequence r"
    using assms(3) anchor(1) anchor_seq by (auto simp: list_all_iff split: option.splits)
  have sorted: "sorted_wrt (<) (map af_sequence ?ys)"
    using assms(2) by (simp add: order_asc_def strict_sorted_iff distinct_map)
  have last_row: "last_row rows = last_row ?ys"
  proof -
    have "order_desc af_sequence rows = order_desc af_sequence ?ys"
      unfolding order_desc_def
      by (rule sort_key_inj_key_eq) (use assms(2) in \<open>auto simp: order_asc_def distinct_map inj_on_def\<close>)
    then show ?thesis by (simp add: last_row_def)
  qed
  have newest: "map_option snd (predecessor ?db) = end_of_chain ?p ?ys"
    using last_row_sorted [OF sorted] anchor_end [OF anchor(2)] anchor(1) last_row
    by (auto simp: predecessor_def end_of_chain_def)
  have "chained digest ?p ?ys"
  proof (cases ?ys)
    case (Cons y ys)
    have "filter (\<lambda>r. af_sequence r < af_sequence y) rows = []"
    proof -
      have "set rows = set (y # ys)" using Cons by (metis set_order_asc)
      moreover have "\<forall>r\<in>set ys. af_sequence y < af_sequence r" using sorted Cons by simp
      ultimately show ?thesis by (auto simp: filter_empty_conv)
    qed
    then have "checksum_before ?db (af_sequence y) = ?p"
      using later Cons anchor anchor_seq anchor_end [OF anchor(2)]
      by (auto simp: checksum_before_def last_row_def first_of_def order_desc_def split: option.splits)
    moreover have "filter (buildWhere (time_filter None None)) rows = rows"
      by (simp add: filter_id_conv buildWhere_def time_filter_def text_filter_def)
    ultimately show ?thesis
      using assms(5) Cons by (auto simp: verifyIntegrity_def verify_rows_valid Let_def simp del: verify_rows.simps)
  qed simp
  moreover have "end_of_chain ?p ?ys = end_of_chain None (aw_log ?w)"
    using newest assms(4) predecessor_at [OF num k] end_anchor [of "aw_log ?w"] by metis
  ultimately have "?ys = drop k (aw_log ?w)"
    using tampered_chain [OF assms(1) chain num anchor(2) _ later] by simp
  then show ?thesis using k by (simp add: table_at_def)
qed

end
