(* ===== verification/AuditHistory.thy ===== *)
theory AuditHistory
  imports AuditIntegrity
begin

text \<open>
  Reading and pruning the audit trail: what pruning removes, the chain of decisions behind an event,
  the pages of the list and the report on tools; and examples of whole histories.
\<close>

section \<open>Pruning\<close>

lemma filter_from_first:
  assumes "dropWhile (\<lambda>x. \<not> P x) xs = y # ys"
  shows "P y" "filter P xs = y # filter P ys" "xs = takeWhile (\<lambda>x. \<not> P x) xs @ y # ys"
proof -
  show split: "xs = takeWhile (\<lambda>x. \<not> P x) xs @ y # ys" using assms takeWhile_dropWhile_id [of "\<lambda>x. \<not> P x" xs] by simp
  show "P y" using assms by (simp add: dropWhile_eq_Cons_conv)
  moreover have "filter P (takeWhile (\<lambda>x. \<not> P x) xs) = []" by (auto simp: filter_empty_conv dest: set_takeWhileD)
  ultimately show "filter P xs = y # filter P ys"
    by (subst split, simp only: filter_append) simp
qed

lemma prune_bound_exact:
  assumes "sorted_wrt (<) (map af_sequence rows)" and "list_all (\<lambda>r. af_sequence r < MAX_SAFE_INTEGER) rows"
  shows "takeWhile (\<lambda>r. af_sequence r < prune_bound cutoffUnix rows) rows =
         takeWhile (\<lambda>r. \<not> cutoffUnix \<le> af_created_at r) rows"
proof -
  let ?fresh = "\<lambda>r. cutoffUnix \<le> af_created_at r"
  let ?bound = "prune_bound cutoffUnix rows"
  have sorted: "order_asc id (map af_sequence (filter ?fresh rows)) = map af_sequence (filter ?fresh rows)"
    using sorted_filter [OF assms(1), of ?fresh] by (auto simp: order_asc_def strict_sorted_iff intro: sort_key_id_if_sorted)
  show ?thesis
  proof (cases "dropWhile (\<lambda>r. \<not> ?fresh r) rows")
    case Nil
    then have old: "\<forall>r\<in>set rows. \<not> ?fresh r" by (simp add: dropWhile_eq_Nil_conv)
    then have "?bound = MAX_SAFE_INTEGER" by (simp add: prune_bound_def first_of_def order_asc_def)
    then have "takeWhile (\<lambda>r. af_sequence r < ?bound) rows = rows"
      using assms(2) by (auto simp: takeWhile_eq_all_conv list_all_iff)
    moreover have "takeWhile (\<lambda>r. \<not> ?fresh r) rows = rows" using old by (auto simp: takeWhile_eq_all_conv)
    ultimately show ?thesis by metis
  next
    case (Cons y ys)
    note first = filter_from_first [of ?fresh, OF Cons]
    have bound: "?bound = af_sequence y" using sorted first(2) by (simp add: prune_bound_def first_of_def)
    have "\<forall>r\<in>set (takeWhile (\<lambda>r. \<not> ?fresh r) rows). af_sequence r < af_sequence y"
    proof -
      have "sorted_wrt (<) (map af_sequence (takeWhile (\<lambda>r. \<not> ?fresh r) rows @ y # ys))"
        by (subst first(3) [symmetric]) (rule assms(1))
      then show ?thesis by (simp add: sorted_wrt_append)
    qed
    then have "takeWhile (\<lambda>r. af_sequence r < ?bound) (takeWhile (\<lambda>r. \<not> ?fresh r) rows @ y # ys) =
        takeWhile (\<lambda>r. \<not> ?fresh r) rows"
      by (simp add: takeWhile_append bound)
    then show ?thesis using first(3) by simp
  qed
qed

text \<open>
  Pruning removes exactly the events recorded before the first one that is not older than the cutoff,
  reports their number and keeps the checksum of the last of them in the anchor; older events recorded
  later stay. (The numbers are assumed to be below 2^53 - 1.)
\<close>

theorem pruning_exact:
  assumes "int (length (aw_log (audit_run env digest calls))) < MAX_SAFE_INTEGER"
  shows "pruneBefore False cutoffUnix (aw_db (audit_run env digest calls)) =
    (let db = aw_db (audit_run env digest calls);
         old = takeWhile (\<lambda>r. af_created_at r < cutoffUnix) (ad_events db)
     in (Inr (length old),
         if old = [] then db
         else db\<lparr>ad_anchor := Some (af_sequence (last old), af_checksum (last old)),
                 ad_events := dropWhile (\<lambda>r. af_created_at r < cutoffUnix) (ad_events db)\<rparr>))"
proof -
  let ?w = "audit_run env digest calls"
  let ?rows = "ad_events (aw_db ?w)"
  let ?old = "takeWhile (\<lambda>r. af_created_at r < cutoffUnix) ?rows"
  obtain k where num: "numbered (aw_log ?w)" and k: "table_at (aw_log ?w) k (aw_db ?w)"
    using audit_inv_run [of digest env calls] by (auto simp: audit_inv_def)
  have s: "sorted_wrt (<) (map af_sequence ?rows)" using numbered_sorted [OF num] k by (simp add: table_at_def)
  have "list_all (\<lambda>r. af_sequence r < MAX_SAFE_INTEGER) ?rows"
    using k num assms by (auto simp: list_all_iff table_at_def numbered_def in_set_conv_nth)
  then have old: "takeWhile (\<lambda>r. af_sequence r < prune_bound cutoffUnix ?rows) ?rows = ?old"
    using prune_bound_exact [OF s] by (simp add: not_le)
  have "?rows ! (length ?old - 1) = last ?old" if "?old \<noteq> []"
    using that by (metis diff_less last_conv_nth length_greater_0_conv takeWhile_nth zero_less_one)
  moreover have "drop (length ?old) ?rows = dropWhile (\<lambda>r. af_created_at r < cutoffUnix) ?rows"
    by (simp add: dropWhile_eq_drop)
  ultimately show ?thesis
    unfolding prune_sorted [OF s] old Let_def by simp
qed

section \<open>Decisions\<close>

fun linked :: "'h audit_row list \<Rightarrow> bool" where
  "linked (x # y # rows) = (af_parent y = Some (af_id x) \<and> linked (y # rows))"
| "linked rows = True"

definition parent_row :: "'h audit_row list \<Rightarrow> string option \<Rightarrow> 'h audit_row option" where
  "parent_row rows parent = (case parent of None \<Rightarrow> None | Some i \<Rightarrow> if i = [] then None else sql_get af_id i rows)"

lemma chain_events_step:
  "chain_events rows (Suc n) parent events =
     (case parent_row rows parent of
        None \<Rightarrow> events | Some row \<Rightarrow> chain_events rows n (af_parent row) (row # events))"
  by (auto simp: parent_row_def split: option.split)

lemma parent_row_id: "parent_row rows parent = Some row \<Longrightarrow> parent = Some (af_id row)"
  by (auto simp: parent_row_def split: option.splits if_splits dest: sql_get_SomeD)

lemma chain_events_append: "chain_events rows n parent events = chain_events rows n parent [] @ events"
proof (induction n arbitrary: parent events)
  case (Suc n)
  show ?case
  proof (cases "parent_row rows parent")
    case None
    then show ?thesis by (simp only: chain_events_step option.case append_Nil)
  next
    case (Some row)
    have "chain_events rows n (af_parent row) (row # events) = (chain_events rows n (af_parent row) [] @ [row]) @ events"
      by (simp add: Suc.IH [of "af_parent row" "row # events"])
    also have "\<dots> = chain_events rows n (af_parent row) [row] @ events"
      by (simp only: Suc.IH [of "af_parent row" "[row]"])
    finally show ?thesis using Some by (simp only: chain_events_step option.case)
  qed
qed simp

lemma linked_append:
  "linked (xs @ y # ys) \<longleftrightarrow> linked (xs @ [y]) \<and> linked (y # ys)"
  by (induction xs rule: linked.induct) auto

lemma chain_events_facts:
  "linked (chain_events rows n parent []) \<and> length (chain_events rows n parent []) \<le> n \<and>
   (0 < n \<longrightarrow> (chain_events rows n parent [] = [] \<longleftrightarrow> parent_row rows parent = None)) \<and>
   (chain_events rows n parent [] \<noteq> [] \<longrightarrow> parent_row rows parent = Some (last (chain_events rows n parent [])))\<and>
   (chain_events rows n parent [] \<noteq> [] \<longrightarrow> length (chain_events rows n parent []) < n \<longrightarrow>
      parent_row rows (af_parent (hd (chain_events rows n parent []))) = None)"
proof (induction n arbitrary: parent)
  case 0
  then show ?case by simp
next
  case (Suc n)
  show ?case
  proof (cases "parent_row rows parent")
    case None
    then show ?thesis by (simp only: chain_events_step option.case) simp
  next
    case (Some row)
    let ?older = "chain_events rows n (af_parent row) []"
    have step: "chain_events rows (Suc n) parent [] = ?older @ [row]"
      using Some chain_events_append [of rows n "af_parent row" "[row]"] by (simp only: chain_events_step option.case)
    note IH = Suc.IH [of "af_parent row"]
    have "linked (?older @ [row])"
    proof (cases ?older rule: rev_cases)
      case (snoc xs x)
      then have "af_parent row = Some (af_id x)" using IH parent_row_id by fastforce
      then show ?thesis using IH snoc linked_append [of xs x "[row]"] by simp
    qed simp
    moreover have "parent_row rows (af_parent (hd (?older @ [row]))) = None" if "length (?older @ [row]) < Suc n"
      using IH that by (cases "?older = []") auto
    ultimately show ?thesis unfolding step using IH Some by simp
  qed
qed

text \<open>
  The chain of decisions ends with the event asked for, each event in it is the parent of the next,
  and it goes back until an event has no parent in the table, or for 100 events.
\<close>

theorem decision_chain_exact:
  "\<exists>events. getDecisionChain env i db = map (toRecord env) events \<and> linked events \<and> length events \<le> 100 \<and>
     (if events = [] then parent_row (ad_events db) (Some i) = None
      else parent_row (ad_events db) (Some i) = Some (last events) \<and>
        (length events = 100 \<or> parent_row (ad_events db) (af_parent (hd events)) = None))"
proof -
  let ?es = "chain_events (ad_events db) 100 (Some i) []"
  have "linked ?es \<and> length ?es \<le> 100 \<and>
     (if ?es = [] then parent_row (ad_events db) (Some i) = None
      else parent_row (ad_events db) (Some i) = Some (last ?es) \<and>
        (length ?es = 100 \<or> parent_row (ad_events db) (af_parent (hd ?es)) = None))"
    using chain_events_facts [of "ad_events db" 100 "Some i"] by fastforce
  then show ?thesis unfolding getDecisionChain_def by blast
qed

section \<open>Pages\<close>

lemma concat_chunks: "concat (map (\<lambda>p. take l (drop (p * l) xs)) [0..<n]) = take (n * l) xs"
proof (induction n)
  case (Suc n)
  have "take (n * l) xs @ take l (drop (n * l) xs) = take (n * l + l) xs" by (simp add: take_add)
  then show ?case using Suc by (simp add: add.commute)
qed simp

text \<open>
  The pages of the list, one after the other, show the events that match the filter, the newest
  first, each exactly once.
\<close>

theorem pages_cover:
  "concat (map (\<lambda>p. pg_entries (listEvents env f (Some (int p + 1)) limit db)) [0..<n]) =
   map (toRecord env)
     (take (n * nat (min 200 (max 1 (nullish limit 50))))
       (order_desc af_sequence (filter (buildWhere f) (ad_events db))))"
proof -
  let ?l = "nat (min 200 (max 1 (nullish limit 50)))"
  let ?rows = "order_desc af_sequence (filter (buildWhere f) (ad_events db))"
  have "pg_entries (listEvents env f (Some (int p + 1)) limit db) = map (toRecord env) (take ?l (drop (p * ?l) ?rows))" for p
    by (simp add: listEvents_def Let_def nat_mult_distrib)
  then have "concat (map (\<lambda>p. pg_entries (listEvents env f (Some (int p + 1)) limit db)) [0..<n]) =
      map (toRecord env) (concat (map (\<lambda>p. take ?l (drop (p * ?l) ?rows)) [0..<n]))"
    by (simp add: map_concat comp_def)
  then show ?thesis by (simp only: concat_chunks)
qed

section \<open>Tool usage\<close>

text \<open>The results of one tool among the events.\<close>

definition results_of :: "string \<Rightarrow> ('h audit_row \<times> json) list \<Rightarrow> ('h audit_row \<times> json) list" where
  "results_of tool events = filter (\<lambda>(event, payload). af_type event = ''tool.result'' \<and> tool_name_of payload = tool) events"

definition succeeded :: "'h audit_row \<times> json \<Rightarrow> bool" where
  "succeeded e = (json_member (snd e) ''success'' = Some (JBool True))"

definition row_counts :: "('h audit_row \<times> json) list \<Rightarrow> tool_row \<Rightarrow> bool" where
  "row_counts events r =
     (tu_count r = length (results_of (tu_tool r) events) \<and> results_of (tu_tool r) events \<noteq> [] \<and>
      tu_successCount r = length (filter succeeded (results_of (tu_tool r) events)) \<and>
      tu_successCount r + tu_failureCount r = tu_count r)"

lemma map_upsert_keys:
  "(\<And>r. key (f r) = key r) \<Longrightarrow> key r0 = k \<Longrightarrow>
   map key (map_upsert key k r0 f rows) = (if k \<in> key ` set rows then map key rows else map key rows @ [k])"
  by (induction rows) auto

lemma set_map_upsert:
  "distinct (map key rows) \<Longrightarrow> r \<in> set (map_upsert key k r0 f rows) \<Longrightarrow>
   r \<in> set rows \<and> key r \<noteq> k \<or> (\<exists>q\<in>set rows. key q = k \<and> r = f q) \<or> k \<notin> key ` set rows \<and> r = f r0"
proof (induction rows)
  case (Cons a rows)
  then show ?case by (cases "key a = k") (auto simp: image_iff)
qed simp

lemma results_of_snoc:
  "results_of tool (events @ [e]) =
   results_of tool events @ (if af_type (fst e) = ''tool.result'' \<and> tool_name_of (snd e) = tool then [e] else [])"
  by (cases e) (simp add: results_of_def)

lemma grouped_tools_snoc:
  "grouped_tools (events @ [e]) =
   (if af_type (fst e) \<noteq> ''tool.result'' then grouped_tools events
    else map_upsert tu_tool (tool_name_of (snd e))
      \<lparr>tu_tool = tool_name_of (snd e), tu_count = 0, tu_successCount = 0, tu_failureCount = 0, tu_totalDurationMs = Num 0\<rparr>
      (add_tool_result (snd e)) (grouped_tools events))"
  by (cases e) (simp add: grouped_tools_def Let_def)

lemma tu_tool_add [simp]: "tu_tool (add_tool_result payload r) = tu_tool r"
  by (simp add: add_tool_result_def Let_def)

lemma row_counts_add:
  assumes "af_type (fst e) = ''tool.result''" and "tool_name_of (snd e) = tu_tool r"
    and "tu_count r = length (results_of (tu_tool r) events)"
    and "tu_successCount r = length (filter succeeded (results_of (tu_tool r) events))"
    and "tu_successCount r + tu_failureCount r = tu_count r"
  shows "row_counts (events @ [e]) (add_tool_result (snd e) r)"
  using assms by (auto simp: row_counts_def results_of_snoc add_tool_result_def Let_def succeeded_def)

lemma grouped_tools_exact:
  "distinct (map tu_tool (grouped_tools events)) \<and> (\<forall>r\<in>set (grouped_tools events). row_counts events r) \<and>
   (\<forall>tool. results_of tool events \<noteq> [] \<longrightarrow> tool \<in> tu_tool ` set (grouped_tools events))"
proof (induction events rule: rev_induct)
  case Nil
  then show ?case by (simp add: grouped_tools_def results_of_def)
next
  case (snoc e events)
  let ?rows = "grouped_tools events"
  let ?tool = "tool_name_of (snd e)"
  show ?case
  proof (cases "af_type (fst e) = ''tool.result''")
    case False
    have "results_of tool (events @ [e]) = results_of tool events" for tool using False by (simp add: results_of_snoc)
    then have "row_counts (events @ [e]) = row_counts events" by (simp add: row_counts_def fun_eq_iff)
    then show ?thesis using snoc False by (simp add: grouped_tools_snoc results_of_snoc)
  next
    case True
    let ?r0 = "\<lparr>tu_tool = ?tool, tu_count = 0, tu_successCount = 0, tu_failureCount = 0, tu_totalDurationMs = Num 0\<rparr>"
    let ?new = "map_upsert tu_tool ?tool ?r0 (add_tool_result (snd e)) ?rows"
    have new: "grouped_tools (events @ [e]) = ?new" using True by (simp add: grouped_tools_snoc)
    have keys: "map tu_tool ?new = (if ?tool \<in> tu_tool ` set ?rows then map tu_tool ?rows else map tu_tool ?rows @ [?tool])"
      by (rule map_upsert_keys) simp_all
    have "row_counts (events @ [e]) r" if r: "r \<in> set ?new" for r
    proof -
      consider (kept) "r \<in> set ?rows" "tu_tool r \<noteq> ?tool"
        | (more) q where "q \<in> set ?rows" "tu_tool q = ?tool" "r = add_tool_result (snd e) q"
        | (first) "?tool \<notin> tu_tool ` set ?rows" "r = add_tool_result (snd e) ?r0"
        using set_map_upsert [OF conjunct1 [OF snoc] r] by blast
      then show ?thesis
      proof cases
        case kept
        then show ?thesis using snoc by (auto simp: row_counts_def results_of_snoc)
      next
        case more
        then have "row_counts events q" using snoc by blast
        then show ?thesis
          unfolding more(3) by (intro row_counts_add) (use True more(2) in \<open>auto simp: row_counts_def\<close>)
      next
        case first
        then have "results_of ?tool events = []" using snoc by blast
        then show ?thesis unfolding first(2) by (intro row_counts_add) (use True in simp_all)
      qed
    qed
    moreover have "distinct (map tu_tool ?new)" using keys snoc by simp
    moreover have "tool \<in> tu_tool ` set ?new" if "results_of tool (events @ [e]) \<noteq> []" for tool
    proof -
      have "tu_tool ` set ?new = set (map tu_tool ?new)" by simp
      also have "\<dots> = insert ?tool (tu_tool ` set ?rows)" unfolding keys by auto
      finally show ?thesis using that snoc by (auto simp: results_of_snoc split: if_splits)
    qed
    ultimately show ?thesis unfolding new by blast
  qed
qed

text \<open>
  The report on tools has one row for each tool with a result, with the number of its results, of those
  that succeeded and of the others, and the most used tools first.
\<close>

theorem tool_usage_exact:
  "distinct (map tu_tool (toolUsageReport events)) \<and>
   (\<forall>tool. tool \<in> tu_tool ` set (toolUsageReport events) \<longleftrightarrow> results_of tool events \<noteq> []) \<and>
   (\<forall>r\<in>set (toolUsageReport events). row_counts events (tool_row.truncate r)) \<and>
   sorted (map (\<lambda>r. - int (tu_count r)) (toolUsageReport events))"
proof -
  let ?avg = "\<lambda>r. tool_row.extend r (tool_usage.fields
      (if 0 < tu_count r then js_div (tu_totalDurationMs r) (js_int (int (tu_count r))) else Num 0))"
  have report: "toolUsageReport events = sort_key (\<lambda>r. - int (tu_count r)) (map ?avg (grouped_tools events))"
    by (simp add: toolUsageReport_def)
  have avg: "tu_tool (?avg r) = tu_tool r" "tool_row.truncate (?avg r) = r" for r :: tool_row
    by (cases r; simp add: tool_row.extend_def tool_row.truncate_def)+
  have tools: "map tu_tool (map ?avg (grouped_tools events)) = map tu_tool (grouped_tools events)"
    using avg(1) by (simp add: comp_def)
  note exact = grouped_tools_exact [of events]
  have "distinct (map tu_tool (toolUsageReport events)) = distinct (map tu_tool (map ?avg (grouped_tools events)))"
    unfolding report by (intro mset_eq_imp_distinct_iff) (simp only: mset_map mset_sort)
  then have distinct: "distinct (map tu_tool (toolUsageReport events))" using exact by (simp only: tools)
  have same: "tu_tool ` set (toolUsageReport events) = tu_tool ` set (grouped_tools events)"
  proof -
    have "tu_tool ` set (toolUsageReport events) = set (map tu_tool (map ?avg (grouped_tools events)))"
      unfolding report by (simp only: set_map set_sort)
    then show ?thesis unfolding tools by (simp only: set_map)
  qed
  have "results_of (tu_tool r) events \<noteq> []" if "r \<in> set (grouped_tools events)" for r
    using exact that unfolding row_counts_def by blast
  then have named: "tool \<in> tu_tool ` set (toolUsageReport events) \<longleftrightarrow> results_of tool events \<noteq> []" for tool
    unfolding same using exact by blast
  have counts: "\<forall>r\<in>set (toolUsageReport events). row_counts events (tool_row.truncate r)"
    unfolding report using exact avg(2) by (simp only: set_sort set_map ball_simps) blast
  have sorted: "sorted (map (\<lambda>r. - int (tu_count r)) (toolUsageReport events))"
    unfolding report by (rule sorted_sort_key)
  show ?thesis by (intro conjI allI distinct named counts sorted)
qed

section \<open>Examples\<close>

text \<open>A checksum that keeps its argument: no two rows share one.\<close>

datatype free_checksum =
  Free_checksum string int string string "string option" string "string option" "free_checksum option" int

definition free_digest :: "free_checksum checksum" where
  "free_digest f =
     Free_checksum (af_id f) (af_sequence f) (af_type f) (af_actor f) (af_session f) (af_payload f) (af_parent f)
       (af_previous f) (af_created_at f)"

lemma inj_free_digest: "inj free_digest"
  by (rule injI) (simp add: free_digest_def audit_fields.equality)

definition plain_env :: audit_env where
  "plain_env = \<lparr>ae_stringify = (\<lambda>v. ''{}''), ae_parse = (\<lambda>t. Some (JObj [])), ae_max_bytes = 16384\<rparr>"

definition plain_event :: "int option \<Rightarrow> audit_input" where
  "plain_event t =
     \<lparr>au_type = ''config.change'', au_actor = None, au_session = None, au_payload = None, au_parent = None,
      au_created = t\<rparr>"

text \<open>The clock is set back between the first and the second event.\<close>

definition clock_set_back :: "audit_call list" where
  "clock_set_back =
     [Ac_record 10000 ''a'' (plain_event None), Ac_record 5000 ''b'' (plain_event None),
      Ac_record 12000 ''c'' (plain_event None)]"


definition two_events :: "audit_call list" where
  "two_events = [Ac_record 10000 ''a'' (plain_event None), Ac_record 12000 ''b'' (plain_event None)]"

theorem tampering_detected_witness:
  "order_asc af_sequence (rev (ad_events (aw_db (audit_run plain_env free_digest two_events)))) =
   ad_events (aw_db (audit_run plain_env free_digest two_events))"
  by (rule tampering_detected [OF inj_free_digest]) code_simp+

theorem pruning_exact_witness:
  "fst (pruneBefore False 11 (aw_db (audit_run plain_env free_digest clock_set_back))) = Inr 2"
proof -
  have few: "int (length (aw_log (audit_run plain_env free_digest clock_set_back))) < MAX_SAFE_INTEGER" by code_simp
  have "length (takeWhile (\<lambda>r. af_created_at r < 11)
      (ad_events (aw_db (audit_run plain_env free_digest clock_set_back)))) = 2" by code_simp
  then show ?thesis unfolding pruning_exact [OF few] by (simp add: Let_def)
qed

end
