(* ===== verification/Workflows.thy ===== *)
theory Workflows
  imports Prelude JsNumber JsString Json
begin

text \<open>
  Workflows: the table of src/services/workflows.ts and the execution of the actions of a workflow in
  src/services/workflow-executor.ts.

  A configuration is stored as the value it has; the JSON text in the table is that of the same value.
  What the bridge and the network answer to an action is given: whether the bridge is available, and
  the action_reply.
\<close>

section \<open>Configurations\<close>

datatype workflow_trigger =
    Cron_trigger string "string option"
  | Webhook_trigger "string option"
  | Event_trigger string

datatype http_method = Get | Post | Put | Delete | Patch

record call_api =
  ca_method :: http_method
  ca_url :: string
  ca_headers :: "(string \<times> string) list option"
  ca_body :: "string option"
  ca_timeoutMs :: "js_num option"

datatype workflow_action =
    Send_message string string
  | Call_api call_api
  | Set_variable string string

record workflow_config =
  wc_trigger :: workflow_trigger
  wc_actions :: "workflow_action list"

record workflow =
  wf_id :: string
  wf_name :: string
  wf_description :: "string option"
  wf_enabled :: bool
  wf_config :: workflow_config
  wf_createdAt :: int
  wf_updatedAt :: int
  wf_lastRunAt :: "int option"
  wf_runCount :: int
  wf_lastError :: "msg option"
  wf_lastFiredBucket :: "int option"

section \<open>The store\<close>

definition list_workflows :: "workflow list \<Rightarrow> workflow list" where
  "list_workflows db = order_desc wf_createdAt db"

definition get_workflow :: "string \<Rightarrow> workflow list \<Rightarrow> workflow option" where
  "get_workflow i db = sql_get wf_id i db"

record workflow_input =
  wi_name :: string
  wi_description :: "string option"
  wi_enabled :: "bool option"
  wi_config :: workflow_config

text \<open>The id is a random one; an id in use violates the primary key.\<close>

definition create_workflow ::
  "string \<Rightarrow> int \<Rightarrow> workflow_input \<Rightarrow> workflow list \<Rightarrow> (msg, workflow, workflow list) outcome" where
  "create_workflow fresh now data db =
     (let w = \<lparr>wf_id = fresh, wf_name = wi_name data, wf_description = wi_description data,
                wf_enabled = (wi_enabled data \<noteq> Some False), wf_config = wi_config data,
                wf_createdAt = secs now, wf_updatedAt = secs now, wf_lastRunAt = None, wf_runCount = 0,
                wf_lastError = None, wf_lastFiredBucket = None\<rparr>
      in if sql_get wf_id fresh db \<noteq> None then throw [S ''UNIQUE constraint failed: workflows.id''] db
         else ret w (db @ [w]))"

record workflow_update =
  wu_name :: "string option"
  wu_description :: "string jsval"
  wu_enabled :: "bool option"
  wu_config :: "workflow_config option"

definition update_workflow ::
  "string \<Rightarrow> int \<Rightarrow> workflow_update \<Rightarrow> workflow list \<Rightarrow> workflow option \<times> workflow list" where
  "update_workflow i now data db =
     (case get_workflow i db of
        None \<Rightarrow> (None, db)
      | Some existing \<Rightarrow>
          let db' = sql_update wf_id i (\<lambda>w. w\<lparr>
                wf_name := nullish (wu_name data) (wf_name existing),
                wf_description := (case wu_description data of
                   Undefined \<Rightarrow> wf_description existing | Null \<Rightarrow> None | Val d \<Rightarrow> Some d),
                wf_enabled := nullish (wu_enabled data) (wf_enabled existing),
                wf_config := nullish (wu_config data) (wf_config existing),
                wf_updatedAt := secs now\<rparr>) db
          in (get_workflow i db', db'))"

definition delete_workflow :: "string \<Rightarrow> workflow list \<Rightarrow> bool \<times> workflow list" where
  "delete_workflow i db = (get_workflow i db \<noteq> None, sql_delete (\<lambda>w. wf_id w = i) db)"

definition recordRun :: "string \<Rightarrow> int \<Rightarrow> msg option \<Rightarrow> workflow list \<Rightarrow> workflow list" where
  "recordRun i now error db =
     sql_update wf_id i (\<lambda>w. w\<lparr>wf_lastRunAt := Some (secs now), wf_runCount := wf_runCount w + 1,
       wf_lastError := error\<rparr>) db"

definition recordFiredBucket :: "string \<Rightarrow> int \<Rightarrow> workflow list \<Rightarrow> workflow list" where
  "recordFiredBucket i bucket db = sql_update wf_id i (\<lambda>w. w\<lparr>wf_lastFiredBucket := Some bucket\<rparr>) db"

section \<open>Variables in texts\<close>

definition word_char :: "char \<Rightarrow> bool" where
  "word_char c =
     (let n = code c in 48 \<le> n \<and> n \<le> 57 \<or> 65 \<le> n \<and> n \<le> 90 \<or> 97 \<le> n \<and> n \<le> 122 \<or> n = 95)"

text \<open>
  \<open>reference s\<close> is the name and the rest when \<open>s\<close> begins with a name in double braces. A match of the
  expression is one, since no brace is part of a name.
\<close>

definition reference :: "string \<Rightarrow> (string \<times> string) option" where
  "reference s =
     (case s of
        a # b # r \<Rightarrow>
          let name = takeWhile word_char r; r' = dropWhile word_char r in
          if a = CHR ''{'' \<and> b = CHR ''{'' \<and> name \<noteq> [] \<and> take 2 r' = ''}}'' then Some (name, drop 2 r') else None
      | _ \<Rightarrow> None)"

lemma reference_shorter: "reference s = Some (name, r) \<Longrightarrow> length r < length s"
proof -
  assume s: "reference s = Some (name, r)"
  then obtain a b t where "s = a # b # t" "r = drop 2 (dropWhile word_char t)"
    by (auto simp: reference_def Let_def split: list.splits if_splits)
  then show ?thesis using length_dropWhile_le [of word_char t] by simp
qed

function interpolate :: "(string \<Rightarrow> string option) \<Rightarrow> string \<Rightarrow> string" where
  "interpolate vars s =
     (case reference s of
        Some (name, r) \<Rightarrow> nullish (vars name) [] @ interpolate vars r
      | None \<Rightarrow> (case s of [] \<Rightarrow> [] | c # r \<Rightarrow> c # interpolate vars r))"
  by pat_completeness auto
termination
  by (relation "measure (\<lambda>(vars, s). length s)") (auto dest: reference_shorter)

declare interpolate.simps [simp del]

section \<open>Actions\<close>

definition DEFAULT_WORKFLOW_HTTP_TIMEOUT_MS :: int where
  "DEFAULT_WORKFLOW_HTTP_TIMEOUT_MS = 15000"

definition MIN_WORKFLOW_HTTP_TIMEOUT_MS :: int where
  "MIN_WORKFLOW_HTTP_TIMEOUT_MS = 1"

definition MAX_WORKFLOW_HTTP_TIMEOUT_MS :: int where
  "MAX_WORKFLOW_HTTP_TIMEOUT_MS = 300000"

definition workflowHttpTimeoutMs :: "call_api \<Rightarrow> msg + int" where
  "workflowHttpTimeoutMs action =
     (case ca_timeoutMs action of
        None \<Rightarrow> Inr DEFAULT_WORKFLOW_HTTP_TIMEOUT_MS
      | Some t \<Rightarrow>
          (case t of
             Num q \<Rightarrow>
               if of_int \<lfloor>q\<rfloor> = q \<and> MIN_WORKFLOW_HTTP_TIMEOUT_MS \<le> \<lfloor>q\<rfloor> \<and> \<lfloor>q\<rfloor> \<le> MAX_WORKFLOW_HTTP_TIMEOUT_MS
               then Inr \<lfloor>q\<rfloor>
               else Inl [S ''Invalid timeoutMs for call_api action: expected an integer between 1 and 300000'']
           | _ \<Rightarrow> Inl [S ''Invalid timeoutMs for call_api action: expected an integer between 1 and 300000'']))"

text \<open>
  What an action meets: whether there is a bridge that is available, an error of sending by the bridge,
  and the end of a request: an error, a deadline, or an answer with its status.
\<close>

datatype fetched = Fetch_error msg | Fetch_timeout | Fetch_status int

record action_reply =
  re_available :: bool
  re_send_error :: "msg option"
  re_fetched :: fetched

datatype workflow_effect =
    Message string string
  | Request http_method string "(string \<times> string) list" "string option"

definition request_of :: "(string \<Rightarrow> string option) \<Rightarrow> call_api \<Rightarrow> workflow_effect" where
  "request_of vars a =
     Request (ca_method a) (ca_url a) (nullish (ca_headers a) [])
       (case non_empty (ca_body a) of
          Some body \<Rightarrow> if ca_method a \<notin> {Get, Delete} then Some (interpolate vars body) else None
        | None \<Rightarrow> None)"

fun runAction ::
  "action_reply \<Rightarrow> workflow_action \<Rightarrow> (string \<Rightarrow> string option) \<Rightarrow>
   (msg + (string \<Rightarrow> string option)) \<times> workflow_effect option" where
  "runAction r (Send_message chatId t) vars =
     (if \<not> re_available r then (Inl [S ''Telegram bridge unavailable''], None)
      else (case re_send_error r of Some e \<Rightarrow> Inl e | None \<Rightarrow> Inr vars,
            Some (Message (interpolate vars chatId) (interpolate vars t))))"
| "runAction r (Call_api a) vars =
     (case workflowHttpTimeoutMs a of
        Inl e \<Rightarrow> (Inl e, None)
      | Inr timeoutMs \<Rightarrow>
          (case re_fetched r of
             Fetch_error e \<Rightarrow> Inl e
           | Fetch_timeout \<Rightarrow> Inl [S (''HTTP request to '' @ ca_url a @ '' timed out after ''), N (js_int timeoutMs), S ''ms'']
           | Fetch_status status \<Rightarrow>
               if 200 \<le> status \<and> status \<le> 299 then Inr vars
               else Inl [S ''HTTP '', N (js_int status), S ('' from '' @ ca_url a)],
           Some (request_of vars a)))"
| "runAction r (Set_variable name v) vars = (Inr (vars(name \<mapsto> interpolate vars v)), None)"

definition action_type :: "workflow_action \<Rightarrow> string" where
  "action_type a =
     (case a of Send_message chatId t \<Rightarrow> ''send_message'' | Call_api c \<Rightarrow> ''call_api'' | Set_variable n v \<Rightarrow> ''set_variable'')"

text \<open>An execution between two actions, with the effects it has had.\<close>

record execution =
  ex_workflow :: string
  ex_actions :: "workflow_action list"
  ex_variables :: "string \<Rightarrow> string option"
  ex_errors :: "msg list"
  ex_effects :: "workflow_effect list"

definition start_execution :: "workflow \<Rightarrow> execution" where
  "start_execution w =
     \<lparr>ex_workflow = wf_id w, ex_actions = wc_actions (wf_config w), ex_variables = Map.empty, ex_errors = [],
      ex_effects = []\<rparr>"

definition action_error :: "workflow_action \<Rightarrow> msg \<Rightarrow> msg" where
  "action_error a e = [S (action_type a @ '': '')] @ e"

definition execution_step :: "action_reply \<Rightarrow> execution \<Rightarrow> execution" where
  "execution_step r x =
     (case ex_actions x of
        [] \<Rightarrow> x
      | a # as \<Rightarrow>
          let (res, eff) = runAction r a (ex_variables x) in
          x\<lparr>ex_actions := as,
            ex_variables := (case res of Inl e \<Rightarrow> ex_variables x | Inr vars \<Rightarrow> vars),
            ex_errors := ex_errors x @ (case res of Inl e \<Rightarrow> [action_error a e] | Inr vars \<Rightarrow> []),
            ex_effects := ex_effects x @ (case eff of None \<Rightarrow> [] | Some f \<Rightarrow> [f])\<rparr>)"

text \<open>What is recorded of a run: nothing, or the errors of its actions.\<close>

definition run_error :: "execution \<Rightarrow> msg option" where
  "run_error x = (if ex_errors x = [] then None else Some (join_texts (ex_errors x)))"

definition finish_execution :: "int \<Rightarrow> execution \<Rightarrow> workflow list \<Rightarrow> workflow list" where
  "finish_execution now x db = recordRun (ex_workflow x) now (run_error x) db"

end
