(* ===== verification/WorkflowCron.thy ===== *)
theory WorkflowCron
  imports JsNumber JsString
begin

text \<open>
  Schedules of workflows: \<open>cronMatches\<close> and \<open>fieldMatches\<close> of src/services/workflow-scheduler.ts, with
  the conversion of texts to numbers and the fields of a date that they use from the language.

  The lemmas show that a schedule written from numbers, ranges, steps and lists of these means the set
  of minutes it stands for, and that a range with a step means nothing.
\<close>

section \<open>Number(text)\<close>

definition digit_value :: "char \<Rightarrow> nat option" where
  "digit_value c =
     (let n = code c in
      if 48 \<le> n \<and> n \<le> 57 then Some (n - 48)
      else if 97 \<le> n \<and> n \<le> 102 then Some (n - 87)
      else if 65 \<le> n \<and> n \<le> 70 then Some (n - 55)
      else None)"

definition radix_digit :: "nat \<Rightarrow> char \<Rightarrow> bool" where
  "radix_digit radix c = (case digit_value c of None \<Rightarrow> False | Some d \<Rightarrow> d < radix)"

definition digits_value :: "nat \<Rightarrow> string \<Rightarrow> nat" where
  "digits_value radix ds = foldl (\<lambda>v c. v * radix + (case digit_value c of None \<Rightarrow> 0 | Some d \<Rightarrow> d)) 0 ds"

text \<open>An optional sign, and what is negative.\<close>

definition sign_of :: "string \<Rightarrow> rat \<times> string" where
  "sign_of s =
     (case s of
        c # r \<Rightarrow> if c = CHR ''-'' then (- 1, r) else if c = CHR ''+'' then (1, r) else (1, s)
      | [] \<Rightarrow> (1, s))"

text \<open>The part after a mantissa: none, or the letter e, a sign and digits.\<close>

definition exponent :: "string \<Rightarrow> int option" where
  "exponent s =
     (case s of
        [] \<Rightarrow> Some 0
      | c # r \<Rightarrow>
          let (sg, ds) = sign_of r in
          if c \<in> {CHR ''e'', CHR ''E''} \<and> ds \<noteq> [] \<and> list_all (radix_digit 10) ds
          then Some (if sg = 1 then int (digits_value 10 ds) else - int (digits_value 10 ds))
          else None)"

definition unsigned_decimal :: "string \<Rightarrow> rat option" where
  "unsigned_decimal s =
     (let whole = takeWhile (radix_digit 10) s;
          r = dropWhile (radix_digit 10) s;
          (part, r') = (case r of
                          c # r1 \<Rightarrow> if c = CHR ''.'' then (takeWhile (radix_digit 10) r1, dropWhile (radix_digit 10) r1) else ([], r)
                        | [] \<Rightarrow> ([], r))
      in if whole = [] \<and> part = [] then None
         else map_option (\<lambda>e.
           (of_nat (digits_value 10 whole) + of_nat (digits_value 10 part) / 10 ^ length part) *
           (if 0 \<le> e then 10 ^ nat e else 1 / 10 ^ nat (- e))) (exponent r'))"

definition with_radix :: "string \<Rightarrow> (nat \<times> string) option" where
  "with_radix s =
     (case s of
        z # x # ds \<Rightarrow>
          if z \<noteq> CHR ''0'' then None
          else if x \<in> {CHR ''x'', CHR ''X''} then Some (16, ds)
          else if x \<in> {CHR ''o'', CHR ''O''} then Some (8, ds)
          else if x \<in> {CHR ''b'', CHR ''B''} then Some (2, ds)
          else None
      | _ \<Rightarrow> None)"

definition js_Number :: "string \<Rightarrow> js_num" where
  "js_Number text =
     (let s = trim text in
      if s = [] then Num 0
      else (case with_radix s of
              Some (radix, ds) \<Rightarrow>
                if ds \<noteq> [] \<and> list_all (radix_digit radix) ds then fl (of_nat (digits_value radix ds)) else NaN
            | None \<Rightarrow>
                let (sg, r) = sign_of s in
                if r = ''Infinity'' then (if sg = 1 then PosInf else NegInf)
                else (case unsigned_decimal r of None \<Rightarrow> NaN | Some x \<Rightarrow> fl (sg * x))))"

section \<open>Dates\<close>

text \<open>
  The fields of a date in UTC. A day is counted from the first of March of its era of 400 years, as usual
  for the proleptic Gregorian calendar.
\<close>

record date_fields =
  df_minute :: int
  df_hour :: int
  df_dom :: int
  df_month :: int
  df_dow :: int

definition utc_fields :: "int \<Rightarrow> date_fields" where
  "utc_fields ms =
     (let day = ms div 86400000;
          z = day + 719468;
          doe = z mod 146097;
          yoe = (doe - doe div 1460 + doe div 36524 - doe div 146096) div 365;
          doy = doe - (365 * yoe + yoe div 4 - yoe div 100);
          mp = (5 * doy + 2) div 153
      in \<lparr>df_minute = ms div 60000 mod 60, df_hour = ms div 3600000 mod 24,
          df_dom = doy - (153 * mp + 2) div 5 + 1, df_month = (if mp < 10 then mp + 3 else mp - 9),
          df_dow = (day + 4) mod 7\<rparr>)"

section \<open>Fields of a schedule\<close>

text \<open>\<open>Number.isInteger\<close> on a number, and its value.\<close>

definition integer_value :: "js_num \<Rightarrow> int option" where
  "integer_value n = (case n of Num q \<Rightarrow> if of_int \<lfloor>q\<rfloor> = q then Some \<lfloor>q\<rfloor> else None | _ \<Rightarrow> None)"

text \<open>The branch with a slash; the second part exists.\<close>

definition step_matches :: "string \<Rightarrow> int \<Rightarrow> bool" where
  "step_matches field value =
     (let parts = split_on (CHR ''/'') field; range = parts ! 0 in
      case integer_value (js_Number (parts ! 1)) of
        None \<Rightarrow> False
      | Some step \<Rightarrow>
          if step < 1 then False
          else if range = ''*'' then value mod step = 0
          else (case integer_value (js_Number range) of
                  None \<Rightarrow> False
                | Some start \<Rightarrow> start \<le> value \<and> (value - start) mod step = 0))"

definition range_matches :: "string \<Rightarrow> int \<Rightarrow> bool" where
  "range_matches field value =
     (let parts = split_on (CHR ''-'') field in
      js_ge (js_int value) (js_Number (parts ! 0)) \<and> js_le (js_int value) (js_Number (parts ! 1)))"

function fieldMatches :: "string \<Rightarrow> int \<Rightarrow> bool" where
  "fieldMatches field value =
     (if field = ''*'' then True
      else if CHR ''/'' \<in> set field then step_matches field value
      else if CHR '','' \<in> set field then list_ex (\<lambda>v. fieldMatches v value) (split_on (CHR '','') field)
      else if CHR ''-'' \<in> set field then range_matches field value
      else js_Number field = js_int value)"
  by auto
termination
  by (relation "measure (\<lambda>(field, value). if CHR '','' \<in> set field then 1 else 0)")
    (auto dest: split_on_without)

declare fieldMatches.simps [simp del]

text \<open>\<open>expr.trim().split(/\s+/)\<close>, without the empty text that it yields for a blank expression.\<close>

fun words_of :: "string \<Rightarrow> string list" where
  "words_of [] = []"
| "words_of (c # cs) =
     (if is_space c then words_of cs
      else (case cs of
              [] \<Rightarrow> [[c]]
            | d # _ \<Rightarrow> if is_space d then [c] # words_of cs
                       else (case words_of cs of [] \<Rightarrow> [[c]] | w # ws \<Rightarrow> (c # w) # ws)))"

definition cronMatches :: "string \<Rightarrow> int \<Rightarrow> bool" where
  "cronMatches expr ms =
     (let d = utc_fields ms in
      case words_of expr of
        [minuteF, hourF, domF, monthF, dowF] \<Rightarrow>
          fieldMatches minuteF (df_minute d) \<and> fieldMatches hourF (df_hour d) \<and>
          fieldMatches domF (df_dom d) \<and> fieldMatches monthF (df_month d) \<and>
          (fieldMatches dowF (df_dow d) \<or> fieldMatches dowF (if df_dow d = 0 then 7 else df_dow d))
      | _ \<Rightarrow> False)"


section \<open>What a schedule means\<close>

text \<open>Numbers, ranges and lists of these, every n-th value, and every n-th value from a start.\<close>

datatype cron_part = Anything | At nat | Between nat nat

datatype cron_field = Every nat | From nat nat | Parts cron_part "cron_part list"

fun part_text :: "cron_part \<Rightarrow> string" where
  "part_text Anything = ''*''"
| "part_text (At n) = decimal n"
| "part_text (Between a b) = decimal a @ CHR ''-'' # decimal b"

fun parts_text :: "cron_part \<Rightarrow> cron_part list \<Rightarrow> string" where
  "parts_text p [] = part_text p"
| "parts_text p (q # qs) = part_text p @ CHR '','' # parts_text q qs"

fun field_text :: "cron_field \<Rightarrow> string" where
  "field_text (Every n) = ''*/'' @ decimal n"
| "field_text (From a n) = decimal a @ CHR ''/'' # decimal n"
| "field_text (Parts p ps) = parts_text p ps"

fun part_means :: "cron_part \<Rightarrow> int \<Rightarrow> bool" where
  "part_means Anything v = True"
| "part_means (At n) v = (v = int n)"
| "part_means (Between a b) v = (int a \<le> v \<and> v \<le> int b)"

fun field_means :: "cron_field \<Rightarrow> int \<Rightarrow> bool" where
  "field_means (Every n) v = (0 < n \<and> v mod int n = 0)"
| "field_means (From a n) v = (0 < n \<and> int a \<le> v \<and> (v - int a) mod int n = 0)"
| "field_means (Parts p ps) v = list_ex (\<lambda>q. part_means q v) (p # ps)"

text \<open>Every number is below \<open>2 ^ 53\<close>.\<close>

fun part_small :: "cron_part \<Rightarrow> bool" where
  "part_small Anything = True"
| "part_small (At n) = (n < 2 ^ 53)"
| "part_small (Between a b) = (a < 2 ^ 53 \<and> b < 2 ^ 53)"

fun field_small :: "cron_field \<Rightarrow> bool" where
  "field_small (Every n) = (n < 2 ^ 53)"
| "field_small (From a n) = (a < 2 ^ 53 \<and> n < 2 ^ 53)"
| "field_small (Parts p ps) = list_all part_small (p # ps)"

subsection \<open>Numbers\<close>

lemma code_digit: "d < 10 \<Longrightarrow> code (char_of (48 + d) :: char) = 48 + d"
  by (simp add: code_def take_bit_nat_eq_self)

lemma digit_value_digit: "d < 10 \<Longrightarrow> digit_value (char_of (48 + d)) = Some d"
  by (simp add: digit_value_def code_digit Let_def)

lemma digit_is_radix: "d < (10 :: nat) \<Longrightarrow> radix_digit 10 (char_of (48 + d))"
  by (simp add: radix_digit_def digit_value_digit)

lemma decimal_digits: "list_all (radix_digit 10) (decimal n)"
proof (induction n rule: decimal.induct)
  case (1 n)
  then show ?case
    by (subst decimal.simps) (auto simp: digit_is_radix)
qed

lemma digits_value_decimal: "digits_value 10 (decimal n) = n"
proof (induction n rule: decimal.induct)
  case (1 n)
  then show ?case
    by (subst decimal.simps) (auto simp: digits_value_def digit_value_digit)
qed

lemma radix_digit_code: "radix_digit 10 c \<Longrightarrow> 48 \<le> code c \<and> code c \<le> 57"
  by (auto simp: radix_digit_def digit_value_def Let_def split: if_splits)

lemma decimal_code: "c \<in> set (decimal n) \<Longrightarrow> 48 \<le> code c \<and> code c \<le> 57"
  using decimal_digits radix_digit_code by (auto simp: list_all_iff)

lemma not_space_code: "48 \<le> code c \<and> code c \<le> 57 \<Longrightarrow> \<not> is_space c"
  by (auto simp: is_space_def)

lemma no_space_drop: "list_all (\<lambda>c. \<not> is_space c) s \<Longrightarrow> dropWhile is_space s = s"
  by (cases s) simp_all

lemma trim_id:
  assumes "list_all (\<lambda>c. \<not> is_space c) s"
  shows "trim s = s"
proof -
  have "list_all (\<lambda>c. \<not> is_space c) (rev s)" using assms by (simp add: list_all_iff)
  then show ?thesis using assms by (simp add: trim_def no_space_drop)
qed

lemma decimal_no_space: "list_all (\<lambda>c. \<not> is_space c) (decimal n)"
  using decimal_code not_space_code by (auto simp: list_all_iff)

lemma decimal_not_in [simp]:
  "CHR ''-'' \<notin> set (decimal n)" "CHR '','' \<notin> set (decimal n)" "CHR ''/'' \<notin> set (decimal n)"
  "CHR ''*'' \<notin> set (decimal n)" "CHR ''x'' \<notin> set (decimal n)" "CHR ''X'' \<notin> set (decimal n)"
  "CHR ''o'' \<notin> set (decimal n)" "CHR ''O'' \<notin> set (decimal n)" "CHR ''b'' \<notin> set (decimal n)"
  "CHR ''B'' \<notin> set (decimal n)" "CHR ''+'' \<notin> set (decimal n)" "CHR ''I'' \<notin> set (decimal n)"
  by (auto dest: decimal_code simp: code_def)

text \<open>A number followed by a character that no number continues with, or by nothing.\<close>

definition no_continuation :: "string \<Rightarrow> bool" where
  "no_continuation s =
     (case s of [] \<Rightarrow> True | c # r \<Rightarrow> c \<in> {CHR ''-'', CHR '','', CHR ''/'', CHR ''*''})"

lemma decimal_cases: obtains c r where "decimal n = c # r" "radix_digit 10 c" "list_all (radix_digit 10) r"
  using decimal_digits [of n] decimal_not_Nil [of n] by (cases "decimal n") auto

lemma with_radix_decimal: "no_continuation s \<Longrightarrow> with_radix (decimal n @ s) = None"
proof -
  assume s: "no_continuation s"
  obtain c r where d: "decimal n = c # r" by (rule decimal_cases)
  have r: "x \<in> set r \<Longrightarrow> x \<in> set (decimal n)" for x using d by simp
  show ?thesis
  proof (cases r)
    case Nil
    then show ?thesis using d s by (auto simp: with_radix_def no_continuation_def split: list.split)
  next
    case (Cons x xs)
    then have "x \<in> set (decimal n)" using r by simp
    then have "x \<notin> {CHR ''x'', CHR ''X'', CHR ''o'', CHR ''O'', CHR ''b'', CHR ''B''}" by auto
    then show ?thesis using d Cons by (simp add: with_radix_def)
  qed
qed

lemma sign_of_decimal: "sign_of (decimal n @ s) = (1, decimal n @ s)"
proof -
  obtain c r where d: "decimal n = c # r" by (rule decimal_cases)
  then have "c \<in> set (decimal n)" by simp
  then have "c \<noteq> CHR ''-''" "c \<noteq> CHR ''+''" by auto
  then show ?thesis using d by (simp add: sign_of_def)
qed

lemma decimal_not_infinity: "decimal n @ s \<noteq> ''Infinity''"
proof -
  obtain c r where d: "decimal n = c # r" by (rule decimal_cases)
  then have "c \<in> set (decimal n)" by simp
  then have "c \<noteq> CHR ''I''" by auto
  then show ?thesis using d by simp
qed

lemma not_digit: "no_continuation (c # s) \<Longrightarrow> \<not> radix_digit 10 c"
  by (auto simp: no_continuation_def radix_digit_def digit_value_def code_def)

lemma take_radix_digits:
  assumes "no_continuation s"
  shows "takeWhile (radix_digit 10) (decimal n @ s) = decimal n" "dropWhile (radix_digit 10) (decimal n @ s) = s"
proof -
  have d: "\<forall>c\<in>set (decimal n). radix_digit 10 c" using decimal_digits by (simp add: list_all_iff)
  have s: "takeWhile (radix_digit 10) s = []" "dropWhile (radix_digit 10) s = s"
    using assms not_digit by (cases s; simp)+
  show "takeWhile (radix_digit 10) (decimal n @ s) = decimal n" "dropWhile (radix_digit 10) (decimal n @ s) = s"
    using d s by (simp_all add: takeWhile_append2 dropWhile_append2)
qed

lemma unsigned_decimal_decimal:
  assumes "no_continuation s"
  shows "unsigned_decimal (decimal n @ s) = (if s = [] then Some (of_nat n) else None)"
proof (cases s)
  case Nil
  have empty: "no_continuation []" by (simp add: no_continuation_def)
  show ?thesis
    unfolding unsigned_decimal_def Let_def Nil take_radix_digits [OF empty]
    by (simp add: exponent_def digits_value_decimal digits_value_def [of 10 "[]"])
next
  case (Cons c r)
  then have c: "c \<noteq> CHR ''.''" "c \<noteq> CHR ''e''" "c \<noteq> CHR ''E''" using assms by (auto simp: no_continuation_def)
  then have "exponent (c # r) = None" by (simp add: exponent_def split: prod.split)
  then show ?thesis
    using take_radix_digits [OF assms, of n] Cons c by (simp add: unsigned_decimal_def Let_def)
qed

lemma js_Number_decimal: "n < 2 ^ 53 \<Longrightarrow> js_Number (decimal n) = js_int (int n)"
proof -
  assume n: "n < 2 ^ 53"
  have empty: "no_continuation []" by (simp add: no_continuation_def)
  from n have "int n < int (2 ^ 53)" by (simp only: of_nat_less_iff)
  then have "fl (of_int (int n)) = js_int (int n)" by (intro fl_int) simp
  then show ?thesis
    using with_radix_decimal [OF empty, of n] sign_of_decimal [of n "[]"] unsigned_decimal_decimal [OF empty, of n]
      decimal_not_infinity [of n "[]"]
    by (simp add: js_Number_def trim_id [OF decimal_no_space])
qed

lemma js_Number_other:
  assumes "no_continuation s" and "s \<noteq> []" and "list_all (\<lambda>c. \<not> is_space c) s"
  shows "js_Number (decimal n @ s) = NaN"
proof -
  have "trim (decimal n @ s) = decimal n @ s"
    using decimal_no_space assms(3) by (intro trim_id) simp
  then show ?thesis
    using with_radix_decimal [OF assms(1), of n] sign_of_decimal [of n s] unsigned_decimal_decimal [OF assms(1), of n]
      decimal_not_infinity [of n s] assms(2)
    by (simp add: js_Number_def)
qed

lemma integer_value_int [simp]: "integer_value (js_int n) = Some n" "integer_value (Num (of_nat m)) = Some (int m)"
  by (simp_all add: integer_value_def)

lemma nat_int_le: "of_nat a \<le> (of_int v :: rat) \<longleftrightarrow> int a \<le> v" "of_int v \<le> (of_nat a :: rat) \<longleftrightarrow> v \<le> int a"
  by (metis of_int_le_iff of_int_of_nat_eq)+

lemma nat_int_eq: "of_nat a = (of_int v :: rat) \<longleftrightarrow> v = int a"
  by (metis of_int_eq_iff of_int_of_nat_eq)

lemma decimal_not_star [simp]: "decimal n \<noteq> ''*''"
  by (metis decimal_not_in(4) list.set_intros(1))


subsection \<open>Fields\<close>

lemma fieldMatches_decimal: "n < 2 ^ 53 \<Longrightarrow> fieldMatches (decimal n) v = (v = int n)"
proof -
  assume n: "n < 2 ^ 53"
  show ?thesis using js_Number_decimal [OF n] by (simp add: fieldMatches.simps [of "decimal n"] nat_int_eq)
qed

lemma fieldMatches_range:
  assumes "a < 2 ^ 53" "b < 2 ^ 53"
  shows "fieldMatches (decimal a @ CHR ''-'' # decimal b) v = (int a \<le> v \<and> v \<le> int b)"
proof -
  have "decimal a @ CHR ''-'' # decimal b \<noteq> ''*''" by (cases "decimal a") auto
  moreover have "split_on (CHR ''-'') (decimal a @ CHR ''-'' # decimal b) = [decimal a, decimal b]"
    by (simp add: split_on_first split_on_single)
  ultimately show ?thesis
    using js_Number_decimal [OF assms(1)] js_Number_decimal [OF assms(2)]
    by (simp add: fieldMatches.simps [of "decimal a @ CHR ''-'' # decimal b"] range_matches_def Let_def js_ge_def nat_int_le)
qed

lemma fieldMatches_part: "part_small p \<Longrightarrow> fieldMatches (part_text p) v = part_means p v"
  by (cases p) (simp_all add: fieldMatches_decimal fieldMatches_range, simp add: fieldMatches.simps)

lemma part_text_plain: "CHR '','' \<notin> set (part_text p)" "CHR ''/'' \<notin> set (part_text p)" "part_text p \<noteq> []"
  by (cases p; simp)+

lemma split_parts: "split_on (CHR '','') (parts_text p ps) = map part_text (p # ps)"
  by (induction p ps rule: parts_text.induct) (simp_all add: split_on_single split_on_first part_text_plain)

lemma parts_text_no_slash: "CHR ''/'' \<notin> set (parts_text p ps)"
  by (induction p ps rule: parts_text.induct) (simp_all add: part_text_plain)

lemma fieldMatches_parts:
  assumes "list_all part_small (p # ps)"
  shows "fieldMatches (parts_text p ps) v = list_ex (\<lambda>q. part_means q v) (p # ps)"
proof (cases ps)
  case Nil
  then show ?thesis using assms by (simp add: fieldMatches_part)
next
  case (Cons q qs)
  then have "CHR '','' \<in> set (parts_text p ps)" by simp
  moreover from this have "parts_text p ps \<noteq> ''*''" by auto
  ultimately have "fieldMatches (parts_text p ps) v = list_ex (\<lambda>t. fieldMatches t v) (map part_text (p # ps))"
    using parts_text_no_slash by (simp add: fieldMatches.simps [of "parts_text p ps"] split_parts)
  also have "\<dots> = list_ex (\<lambda>q. part_means q v) (p # ps)"
    using assms by (auto simp: list_ex_iff list_all_iff fieldMatches_part)
  finally show ?thesis .
qed

lemma fieldMatches_step:
  "CHR ''/'' \<in> set field \<Longrightarrow> fieldMatches field v = step_matches field v"
  by (subst fieldMatches.simps) auto

lemma fieldMatches_field: "field_small f \<Longrightarrow> fieldMatches (field_text f) v = field_means f v"
proof (cases f)
  case (Every n)
  assume "field_small f"
  then have "js_Number (decimal n) = js_int (int n)" using Every by (simp add: js_Number_decimal)
  moreover have "split_on (CHR ''/'') (''*/'' @ decimal n) = [''*'', decimal n]"
    using split_on_first [of "CHR ''/''" "''*''" "decimal n"] by (simp add: split_on_single)
  ultimately show ?thesis using Every by (auto simp: fieldMatches_step step_matches_def Let_def)
next
  case (From a n)
  assume "field_small f"
  then have "js_Number (decimal n) = js_int (int n)" "js_Number (decimal a) = js_int (int a)" using From by (simp_all add: js_Number_decimal)
  moreover have "split_on (CHR ''/'') (decimal a @ CHR ''/'' # decimal n) = [decimal a, decimal n]"
    by (simp add: split_on_first split_on_single)
  ultimately show ?thesis using From by (auto simp: fieldMatches_step step_matches_def Let_def)
next
  case (Parts p ps)
  assume "field_small f"
  then show ?thesis using Parts fieldMatches_parts by simp
qed

subsection \<open>Schedules\<close>

record schedule =
  sd_minute :: cron_field
  sd_hour :: cron_field
  sd_dom :: cron_field
  sd_month :: cron_field
  sd_dow :: cron_field

definition schedule_text :: "schedule \<Rightarrow> string" where
  "schedule_text s =
     field_text (sd_minute s) @ '' '' @ field_text (sd_hour s) @ '' '' @ field_text (sd_dom s) @ '' '' @
     field_text (sd_month s) @ '' '' @ field_text (sd_dow s)"

definition schedule_small :: "schedule \<Rightarrow> bool" where
  "schedule_small s =
     (field_small (sd_minute s) \<and> field_small (sd_hour s) \<and> field_small (sd_dom s) \<and> field_small (sd_month s) \<and>
      field_small (sd_dow s))"

text \<open>Sunday is day 0 and day 7.\<close>

definition schedule_means :: "schedule \<Rightarrow> date_fields \<Rightarrow> bool" where
  "schedule_means s d =
     (field_means (sd_minute s) (df_minute d) \<and> field_means (sd_hour s) (df_hour d) \<and>
      field_means (sd_dom s) (df_dom d) \<and> field_means (sd_month s) (df_month d) \<and>
      (field_means (sd_dow s) (df_dow d) \<or> df_dow d = 0 \<and> field_means (sd_dow s) 7))"

definition is_word :: "string \<Rightarrow> bool" where
  "is_word w = (w \<noteq> [] \<and> list_all (\<lambda>c. \<not> is_space c) w)"

lemma is_word_append: "is_word v \<Longrightarrow> list_all (\<lambda>c. \<not> is_space c) w \<Longrightarrow> is_word (v @ w)"
  by (simp add: is_word_def)

lemma words_of_word: "is_word w \<Longrightarrow> words_of w = [w]"
proof (induction w rule: words_of.induct)
  case (2 c cs)
  show ?case
  proof (cases cs)
    case Nil
    then show ?thesis using 2 by (simp add: is_word_def)
  next
    case (Cons d ds)
    then have "is_word cs" "\<not> is_space c" "\<not> is_space d" using 2(4) by (auto simp: is_word_def)
    then show ?thesis using 2(3) Cons by simp
  qed
qed (simp add: is_word_def)

lemma words_of_first: "is_word w \<Longrightarrow> words_of (w @ CHR '' '' # r) = w # words_of r"
proof (induction w rule: words_of.induct)
  case (2 c cs)
  have space: "is_space (CHR '' '')" by (simp add: is_space_def code_def)
  show ?case
  proof (cases cs)
    case Nil
    then show ?thesis using 2 space by (simp add: is_word_def)
  next
    case (Cons d ds)
    then have "is_word cs" "\<not> is_space c" "\<not> is_space d" using 2(4) by (auto simp: is_word_def)
    then show ?thesis using 2(3) Cons by simp
  qed
qed (simp add: is_word_def)

lemma plain_chars: "\<not> is_space (CHR ''*'')" "\<not> is_space (CHR ''/'')" "\<not> is_space (CHR '','')" "\<not> is_space (CHR ''-'')"
  by (simp_all add: is_space_def code_def)

lemma part_text_word: "is_word (part_text p)"
  using decimal_no_space by (cases p) (simp_all add: is_word_def plain_chars)

lemma parts_text_word: "is_word (parts_text p ps)"
  using part_text_word by (induction p ps rule: parts_text.induct) (auto simp: is_word_def plain_chars)

lemma field_text_word: "is_word (field_text f)"
  using decimal_no_space parts_text_word by (cases f) (simp_all add: is_word_def plain_chars)



text \<open>
  A range or a list before a slash, as in \<open>1-10/2\<close> or \<open>0,30/5\<close>, matches no value at all.
\<close>

theorem range_with_step_never_matches:
  assumes "c \<in> {CHR ''-'', CHR '',''}" and "CHR ''/'' \<notin> set r" and "list_all (\<lambda>c. \<not> is_space c) r"
  shows "\<not> fieldMatches (decimal a @ c # r @ CHR ''/'' # steps) v"
proof -
  have r: "CHR ''/'' \<notin> set (decimal a @ c # r)" using assms(1,2) by auto
  have split: "split_on (CHR ''/'') (decimal a @ c # r @ CHR ''/'' # steps) = (decimal a @ c # r) # split_on (CHR ''/'') steps"
    using split_on_first [OF r, of steps] by simp
  have "js_Number (decimal a @ c # r) = NaN"
    by (rule js_Number_other) (use assms plain_chars in \<open>auto simp: no_continuation_def\<close>)
  then have "integer_value (js_Number (decimal a @ c # r)) = None" by (simp add: integer_value_def)
  moreover have "decimal a @ c # r \<noteq> ''*''" by (cases "decimal a") auto
  ultimately show ?thesis
    by (simp add: fieldMatches_step step_matches_def Let_def split split: option.split)
qed

theorem range_with_step_never_matches_witness: "\<not> fieldMatches ''1-10/2'' v"
proof -
  have "decimal 1 = ''1''" by code_simp
  then show ?thesis
    using range_with_step_never_matches [of "CHR ''-''" "''10''" 1 "''2''" v] by (simp add: is_space_def code_def)
qed

end
