(* ===== verification/WorkflowScheduler.thy ===== *)
theory WorkflowScheduler
  imports Workflows WorkflowCron "HOL-Library.AList"
begin

text \<open>
  The scheduler of workflows in src/services/workflow-scheduler.ts. A tick, an event or a webhook works
  through the workflows it has read, and waits whenever one of them is executed; meanwhile others do the
  same, the store is changed, or the program is restarted. Every step between two waits is a step of
  the model, at the finest grain.
\<close>

section \<open>Selection\<close>

text \<open>Buffers of well-formed texts are equal exactly when the texts are.\<close>

definition matchWebhookSecret :: "string option \<Rightarrow> string \<Rightarrow> bool" where
  "matchWebhookSecret expected provided =
     (case non_empty expected of None \<Rightarrow> False | Some s \<Rightarrow> provided \<noteq> [] \<and> s = provided)"

definition event_workflows :: "string \<Rightarrow> workflow list \<Rightarrow> workflow list" where
  "event_workflows event db =
     filter (\<lambda>w. wf_enabled w \<and> (case wc_trigger (wf_config w) of Event_trigger e \<Rightarrow> e = event | _ \<Rightarrow> False))
       (list_workflows db)"

definition webhook_workflows :: "string \<Rightarrow> workflow list \<Rightarrow> workflow list" where
  "webhook_workflows secret db =
     filter (\<lambda>w. wf_enabled w \<and> (case wc_trigger (wf_config w) of Webhook_trigger s \<Rightarrow> matchWebhookSecret s secret | _ \<Rightarrow> False))
       (list_workflows db)"

definition cron_of :: "workflow \<Rightarrow> string option" where
  "cron_of w = (case wc_trigger (wf_config w) of Cron_trigger cron label \<Rightarrow> Some cron | _ \<Rightarrow> None)"

definition cron_workflows :: "workflow list \<Rightarrow> workflow list" where
  "cron_workflows db = filter (\<lambda>w. wf_enabled w \<and> cron_of w \<noteq> None) (list_workflows db)"

definition bucket_of :: "int \<Rightarrow> int" where
  "bucket_of ms = ms div 60000"

section \<open>Runs\<close>

text \<open>
  A run is a tick, with its time, or an event or webhook: the workflows still to come, as they were read
  at its start, and the execution it waits for.
\<close>

record scheduler_run =
  rn_tick :: "int option"
  rn_rest :: "workflow list"
  rn_execution :: "execution option"

text \<open>
  The world: the table, the ids in execution, the runs by number, and for the statements only the
  firings of cron workflows with their minute, the executions that have ended, and the ids ever used.
\<close>

record workflow_world =
  ws_table :: "workflow list"
  ws_running :: "string list"
  ws_runs :: "(nat \<times> scheduler_run) list"
  ws_next :: nat
  ws_fired :: "(string \<times> int) list"
  ws_ended :: "execution list"
  ws_ids :: "string list"

definition scheduler_start :: workflow_world where
  "scheduler_start =
     \<lparr>ws_table = [], ws_running = [], ws_runs = [], ws_next = 0, ws_fired = [], ws_ended = [], ws_ids = []\<rparr>"

definition new_run :: "int option \<Rightarrow> workflow list \<Rightarrow> workflow_world \<Rightarrow> workflow_world" where
  "new_run tick ws w =
     w\<lparr>ws_runs := ws_runs w @ [(ws_next w, \<lparr>rn_tick = tick, rn_rest = ws, rn_execution = None\<rparr>)],
       ws_next := Suc (ws_next w)\<rparr>"

text \<open>Whether a tick fires a workflow it has read; an event or webhook always tries to execute it.\<close>

definition tick_fires :: "int \<Rightarrow> string list \<Rightarrow> workflow \<Rightarrow> bool" where
  "tick_fires ms running item =
     ((case cron_of item of None \<Rightarrow> False | Some cron \<Rightarrow> cronMatches cron ms) \<and>
      wf_id item \<notin> set running \<and> wf_lastFiredBucket item \<noteq> Some (bucket_of ms))"

text \<open>\<open>execute\<close> up to the first action: the workflow is read again.\<close>

definition begin_execution ::
  "string \<Rightarrow> workflow list \<Rightarrow> string list \<Rightarrow> execution option \<times> string list" where
  "begin_execution i db running =
     (if i \<in> set running then (None, running)
      else (case get_workflow i db of
              None \<Rightarrow> (None, running)
            | Some w \<Rightarrow> (Some (start_execution w), running @ [i])))"

definition next_workflow :: "nat \<Rightarrow> scheduler_run \<Rightarrow> workflow_world \<Rightarrow> workflow_world" where
  "next_workflow k r w =
     (case rn_rest r of
        [] \<Rightarrow> w\<lparr>ws_runs := AList.delete k (ws_runs w)\<rparr>
      | item # rest \<Rightarrow>
          (case rn_tick r of
             Some ms \<Rightarrow>
               if tick_fires ms (ws_running w) item then
                 let db = recordFiredBucket (wf_id item) (bucket_of ms) (ws_table w);
                     (x, running) = begin_execution (wf_id item) db (ws_running w)
                 in w\<lparr>ws_table := db, ws_running := running,
                      ws_fired := ws_fired w @ [(wf_id item, bucket_of ms)],
                      ws_runs := AList.update k (r\<lparr>rn_rest := rest, rn_execution := x\<rparr>) (ws_runs w)\<rparr>
               else w\<lparr>ws_runs := AList.update k (r\<lparr>rn_rest := rest\<rparr>) (ws_runs w)\<rparr>
           | None \<Rightarrow>
               let (x, running) = begin_execution (wf_id item) (ws_table w) (ws_running w)
               in w\<lparr>ws_running := running,
                    ws_runs := AList.update k (r\<lparr>rn_rest := rest, rn_execution := x\<rparr>) (ws_runs w)\<rparr>))"

text \<open>A run goes on: with the next action, the end of the execution, or the next workflow.\<close>

definition advance :: "nat \<Rightarrow> int \<Rightarrow> action_reply \<Rightarrow> workflow_world \<Rightarrow> workflow_world" where
  "advance k now r w =
     (case map_of (ws_runs w) k of
        None \<Rightarrow> w
      | Some run \<Rightarrow>
          (case rn_execution run of
             None \<Rightarrow> next_workflow k run w
           | Some x \<Rightarrow>
               if ex_actions x = [] then
                 w\<lparr>ws_table := finish_execution now x (ws_table w),
                   ws_running := filter (\<lambda>i. i \<noteq> ex_workflow x) (ws_running w),
                   ws_ended := ws_ended w @ [x],
                   ws_runs := AList.update k (run\<lparr>rn_execution := None\<rparr>) (ws_runs w)\<rparr>
               else w\<lparr>ws_runs := AList.update k (run\<lparr>rn_execution := Some (execution_step r x)\<rparr>) (ws_runs w)\<rparr>))"

datatype scheduler_event =
    We_tick int
  | We_fire string
  | We_webhook string
  | We_advance nat int action_reply
  | We_create string int workflow_input
  | We_update string int workflow_update
  | We_delete string
  | We_restart

fun scheduler_step :: "scheduler_event \<Rightarrow> workflow_world \<Rightarrow> workflow_world" where
  "scheduler_step (We_tick ms) w = new_run (Some ms) (cron_workflows (ws_table w)) w"
| "scheduler_step (We_fire event) w = new_run None (event_workflows event (ws_table w)) w"
| "scheduler_step (We_webhook secret) w = new_run None (webhook_workflows secret (ws_table w)) w"
| "scheduler_step (We_advance k now r) w = advance k now r w"
| "scheduler_step (We_create i now data) w =
     w\<lparr>ws_table := snd (create_workflow i now data (ws_table w)), ws_ids := i # ws_ids w\<rparr>"
| "scheduler_step (We_update i now data) w = w\<lparr>ws_table := snd (update_workflow i now data (ws_table w))\<rparr>"
| "scheduler_step (We_delete i) w = w\<lparr>ws_table := snd (delete_workflow i (ws_table w))\<rparr>"
| "scheduler_step We_restart w = w\<lparr>ws_running := [], ws_runs := []\<rparr>"

text \<open>The answer of a webhook: whether any workflow has its secret.\<close>

definition handleWebhook :: "string \<Rightarrow> workflow list \<Rightarrow> bool" where
  "handleWebhook secret db = (webhook_workflows secret db \<noteq> [])"

end
