(* ===== verification/WorkflowGuarantees.thy ===== *)
theory WorkflowGuarantees
  imports WorkflowScheduler "HOL-Library.Multiset"
begin

text \<open>
  What holds of workflows: every action of an execution is tried, no workflow is executed twice at the
  same time, every execution is counted, and a schedule fires at most once in a minute as long as ticks
  do not overlap; it fires twice when they do.
\<close>

section \<open>Every action is tried\<close>

text \<open>The variables an action sees depend on the actions before it only.\<close>

fun set_variable :: "workflow_action \<Rightarrow> (string \<Rightarrow> string option) \<Rightarrow> (string \<Rightarrow> string option)" where
  "set_variable (Set_variable name v) vars = vars(name \<mapsto> interpolate vars v)"
| "set_variable _ vars = vars"

fun tried :: "(string \<Rightarrow> string option) \<Rightarrow> workflow_action list \<Rightarrow> action_reply list \<Rightarrow>
    (workflow_action \<times> (msg + (string \<Rightarrow> string option)) \<times> workflow_effect option) list" where
  "tried vars (a # as) (r # rs) = (a, runAction r a vars) # tried (set_variable a vars) as rs"
| "tried vars _ _ = []"

definition errors_of :: "(workflow_action \<times> (msg + (string \<Rightarrow> string option)) \<times> workflow_effect option) list \<Rightarrow> msg list" where
  "errors_of ts = concat (map (\<lambda>(a, res, eff). case res of Inl e \<Rightarrow> [action_error a e] | Inr vars \<Rightarrow> []) ts)"

definition effects_of ::
  "(workflow_action \<times> (msg + (string \<Rightarrow> string option)) \<times> workflow_effect option) list \<Rightarrow> workflow_effect list" where
  "effects_of ts = concat (map (\<lambda>(a, res, eff). case eff of None \<Rightarrow> [] | Some f \<Rightarrow> [f]) ts)"

lemma variables_after: "(case fst (runAction r a vars) of Inl e \<Rightarrow> vars | Inr vars' \<Rightarrow> vars') = set_variable a vars"
  by (cases a) (auto split: sum.split option.split fetched.split)

lemma execution_step_Cons:
  "execution_step r \<lparr>ex_workflow = i, ex_actions = a # as, ex_variables = vars, ex_errors = es, ex_effects = fs\<rparr> =
     \<lparr>ex_workflow = i, ex_actions = as, ex_variables = set_variable a vars,
      ex_errors = es @ errors_of [(a, runAction r a vars)], ex_effects = fs @ effects_of [(a, runAction r a vars)]\<rparr>"
  using variables_after [where r = r and a = a and vars = vars]
  by (auto simp: execution_step_def errors_of_def effects_of_def split: prod.split sum.splits)

lemma execution_steps:
  "length rs = length as \<Longrightarrow>
   fold execution_step rs \<lparr>ex_workflow = i, ex_actions = as, ex_variables = vars, ex_errors = es, ex_effects = fs\<rparr> =
     \<lparr>ex_workflow = i, ex_actions = [], ex_variables = fold set_variable as vars,
      ex_errors = es @ errors_of (tried vars as rs), ex_effects = fs @ effects_of (tried vars as rs)\<rparr>"
proof (induction as arbitrary: rs vars es fs)
  case Nil
  then show ?case by (simp add: errors_of_def effects_of_def)
next
  case (Cons a as)
  then obtain r rs' where "rs = r # rs'" "length rs' = length as" by (cases rs) auto
  then show ?case
    using Cons.IH [of rs'] by (simp add: execution_step_Cons) (simp add: errors_of_def effects_of_def)
qed

text \<open>
  C35. An execution tries every action once, in order and whatever failed before, with the variables set
  by the actions before it; what is recorded are the errors of all that failed.
\<close>

theorem every_action_tried:
  assumes "length rs = length (wc_actions (wf_config w))"
  shows "(let x = fold execution_step rs (start_execution w); ts = tried Map.empty (wc_actions (wf_config w)) rs in
     ex_actions x = [] \<and> map fst ts = wc_actions (wf_config w) \<and> ex_effects x = effects_of ts \<and>
     run_error x = (if errors_of ts = [] then None else Some (join_texts (errors_of ts))))"
proof -
  have "length rs = length as \<Longrightarrow> map fst (tried vars as rs) = as" for vars as
    by (induction vars as rs rule: tried.induct) auto
  then show ?thesis
    using assms by (simp add: start_execution_def execution_steps run_error_def Let_def)
qed

definition greeting :: workflow where
  "greeting =
     \<lparr>wf_id = ''w1'', wf_name = ''greet'', wf_description = None, wf_enabled = True,
      wf_config = \<lparr>wc_trigger = Cron_trigger ''* * * * *'' None,
        wc_actions = [Set_variable ''who'' ''all'', Send_message ''c'' ''to {{who}}'', Send_message ''d'' ''bye'']\<rparr>,
      wf_createdAt = 1, wf_updatedAt = 1, wf_lastRunAt = None, wf_runCount = 0, wf_lastError = None,
      wf_lastFiredBucket = None\<rparr>"

definition sent :: action_reply where
  "sent = \<lparr>re_available = True, re_send_error = None, re_fetched = Fetch_status 200\<rparr>"

definition not_sent :: action_reply where
  "not_sent = \<lparr>re_available = True, re_send_error = Some [S ''blocked''], re_fetched = Fetch_status 200\<rparr>"

theorem every_action_tried_witness:
  "ex_effects (fold execution_step [sent, not_sent, sent] (start_execution greeting)) =
     [Message ''c'' ''to all'', Message ''d'' ''bye'']"
proof -
  have "length [sent, not_sent, sent] = length (wc_actions (wf_config greeting))" by (simp add: greeting_def)
  from every_action_tried [OF this]
  have "ex_effects (fold execution_step [sent, not_sent, sent] (start_execution greeting)) =
      effects_of (tried Map.empty (wc_actions (wf_config greeting)) [sent, not_sent, sent])" by (simp add: Let_def)
  also have "\<dots> = [Message ''c'' ''to all'', Message ''d'' ''bye'']" by code_simp
  finally show ?thesis .
qed

section \<open>One execution of a workflow at a time\<close>

definition executing_of :: "scheduler_run \<Rightarrow> string list" where
  "executing_of r = (case rn_execution r of None \<Rightarrow> [] | Some x \<Rightarrow> [ex_workflow x])"

lemma executing_of_simps [simp]:
  "rn_execution r = None \<Longrightarrow> executing_of r = []"
  "rn_execution r = Some x \<Longrightarrow> executing_of r = [ex_workflow x]"
  by (simp_all add: executing_of_def split: option.split)

definition executing :: "(nat \<times> scheduler_run) list \<Rightarrow> string list" where
  "executing rs = concat (map (\<lambda>(k, r). executing_of r) rs)"

lemma executing_update:
  "map_of rs k = Some r \<Longrightarrow>
   mset (executing (AList.update k r' rs)) + mset (executing_of r) = mset (executing rs) + mset (executing_of r')"
  by (induction rs) (auto simp: executing_def)

lemma executing_delete:
  "map_of rs k = Some r \<Longrightarrow> distinct (map fst rs) \<Longrightarrow> executing_of r = [] \<Longrightarrow> executing (AList.delete k rs) = executing rs"
proof (induction rs)
  case (Cons p rs)
  obtain j q where p: "p = (j, q)" by fastforce
  show ?case
  proof (cases "j = k")
    case True
    then have "AList.delete k rs = rs" using Cons.prems(2) p by (intro delete_id) auto
    then show ?thesis using Cons.prems True p by (simp add: executing_def)
  next
    case False
    then show ?thesis using Cons p by (auto simp: executing_def)
  qed
qed simp

text \<open>Ids are random: none is created twice.\<close>

definition fresh_event :: "scheduler_event \<Rightarrow> workflow_world \<Rightarrow> bool" where
  "fresh_event e w = (case e of We_create i now data \<Rightarrow> i \<notin> set (ws_ids w) | _ \<Rightarrow> True)"

inductive workflow_reachable :: "workflow_world \<Rightarrow> bool" where
  start: "workflow_reachable scheduler_start"
| step: "workflow_reachable w \<Longrightarrow> fresh_event e w \<Longrightarrow> workflow_reachable (scheduler_step e w)"

definition counted :: "execution list \<Rightarrow> workflow \<Rightarrow> bool" where
  "counted ended row = (wf_runCount row = int (length (filter (\<lambda>x. ex_workflow x = wf_id row) ended)))"

definition runs_ok :: "workflow_world \<Rightarrow> bool" where
  "runs_ok w =
     (distinct (map fst (ws_runs w)) \<and> list_all (\<lambda>k. k < ws_next w) (map fst (ws_runs w)) \<and>
      distinct (ws_running w) \<and> mset (executing (ws_runs w)) = mset (ws_running w))"

definition table_ok :: "workflow_world \<Rightarrow> bool" where
  "table_ok w =
     (distinct (map wf_id (ws_table w)) \<and> set (map wf_id (ws_table w)) \<subseteq> set (ws_ids w) \<and>
      list_all (counted (ws_ended w)) (ws_table w))"


lemma runs_ok_new_run:
  assumes "runs_ok w"
  shows "runs_ok (new_run tick ws w)"
proof -
  have "ws_next w \<notin> set (map fst (ws_runs w))" using assms by (auto simp: runs_ok_def list_all_iff)
  then show ?thesis
    using assms by (auto simp: runs_ok_def new_run_def list_all_iff executing_def executing_of_def less_Suc_eq)
qed

text \<open>A run changed in place, with the id it executes before and after.\<close>

lemma runs_ok_update:
  assumes ok: "runs_ok w" and r: "map_of (ws_runs w) k = Some r"
    and "ws_next w' = ws_next w" "ws_runs w' = AList.update k r' (ws_runs w)" "distinct (ws_running w')"
    and bal: "mset (ws_running w') + mset (executing_of r) = mset (ws_running w) + mset (executing_of r')"
  shows "runs_ok w'"
proof -
  have "k \<in> set (map fst (ws_runs w))" using r by (force dest: map_of_SomeD)
  then have keys: "map fst (AList.update k r' (ws_runs w)) = map fst (ws_runs w)" by (simp add: update_keys)
  have "mset (executing (AList.update k r' (ws_runs w))) + mset (executing_of r) =
      mset (ws_running w') + mset (executing_of r)"
    using executing_update [OF r, of r'] ok bal by (simp add: runs_ok_def)
  then have "mset (executing (AList.update k r' (ws_runs w))) = mset (ws_running w')" by (simp only: add_right_cancel)
  then show ?thesis using assms keys by (simp add: runs_ok_def)
qed

lemma begin_execution_balance:
  assumes "begin_execution i db running = (x, running')" and "distinct running"
  shows "distinct running' \<and>
    mset running' = mset running + mset (case x of None \<Rightarrow> [] | Some e \<Rightarrow> [ex_workflow e])"
proof (cases "i \<in> set running \<or> get_workflow i db = None")
  case True
  then show ?thesis using assms by (auto simp: begin_execution_def split: if_splits option.splits)
next
  case False
  then obtain row where "get_workflow i db = Some row" by blast
  moreover from this have "wf_id row = i" by (auto simp: get_workflow_def dest: sql_get_SomeD)
  ultimately show ?thesis using False assms by (auto simp: begin_execution_def start_execution_def)
qed

lemma runs_ok_next:
  assumes ok: "runs_ok w" and r: "map_of (ws_runs w) k = Some r" and idle: "rn_execution r = None"
  shows "runs_ok (next_workflow k r w)"
proof (cases "rn_rest r")
  case Nil
  then have "executing (AList.delete k (ws_runs w)) = executing (ws_runs w)"
    using ok idle by (intro executing_delete [OF r]) (simp_all add: runs_ok_def)
  moreover have "distinct (map fst (AList.delete k (ws_runs w)))" using ok by (simp add: runs_ok_def distinct_delete)
  moreover have "set (map fst (AList.delete k (ws_runs w))) \<subseteq> set (map fst (ws_runs w))" by (auto simp: delete_keys)
  then have "list_all (\<lambda>k. k < ws_next w) (map fst (AList.delete k (ws_runs w)))"
    using ok unfolding runs_ok_def list_all_iff by blast
  ultimately show ?thesis using ok Nil by (simp add: runs_ok_def next_workflow_def)
next
  case (Cons item rest)
  have dist: "distinct (ws_running w)" using ok by (simp add: runs_ok_def)
  have idle': "executing_of r = []" using idle by simp
  have started: "runs_ok w'" if "begin_execution (wf_id item) db (ws_running w) = (x, running)" "ws_next w' = ws_next w"
      "ws_running w' = running" "ws_runs w' = AList.update k (r\<lparr>rn_rest := rest, rn_execution := x\<rparr>) (ws_runs w)"
    for db x running w'
    using begin_execution_balance [OF that(1) dist] that idle'
    by (intro runs_ok_update [OF ok r that(2,4)]) (simp_all add: executing_of_def split: option.split)
  have skipped: "runs_ok (w\<lparr>ws_runs := AList.update k (r\<lparr>rn_rest := rest\<rparr>) (ws_runs w)\<rparr>)"
    by (rule runs_ok_update [OF ok r, where r' = "r\<lparr>rn_rest := rest\<rparr>"]) (simp_all add: dist idle)
  show ?thesis
    unfolding next_workflow_def Cons list.case
    by (auto split: option.split prod.split simp: skipped Let_def intro: started)
qed

lemma runs_ok_step:
  assumes ok: "runs_ok w"
  shows "runs_ok (scheduler_step e w)"
proof (cases e)
  case (We_advance k now r)
  show ?thesis
  proof (cases "map_of (ws_runs w) k")
    case None
    then show ?thesis using ok We_advance by (simp add: advance_def)
  next
    case (Some run)
    show ?thesis
    proof (cases "rn_execution run")
      case None
      then show ?thesis using Some We_advance ok by (simp add: advance_def runs_ok_next)
    next
      case x: (Some x)
      have dist: "distinct (ws_running w)" using ok by (simp add: runs_ok_def)
      have "ex_workflow x \<in> set (executing (ws_runs w))"
        using map_of_SomeD [OF Some] x by (force simp: executing_def executing_of_def)
      then have mem: "ex_workflow x \<in># mset (ws_running w)" using ok by (metis runs_ok_def set_mset_mset)
      have rem: "filter (\<lambda>i. i \<noteq> ex_workflow x) (ws_running w) = remove1 (ex_workflow x) (ws_running w)"
        using dist by (simp add: distinct_remove1_removeAll removeAll_filter_not_eq) (metis)
      show ?thesis
      proof (cases "ex_actions x = []")
        case True
        have "runs_ok (w\<lparr>ws_table := finish_execution now x (ws_table w),
            ws_running := filter (\<lambda>i. i \<noteq> ex_workflow x) (ws_running w), ws_ended := ws_ended w @ [x],
            ws_runs := AList.update k (run\<lparr>rn_execution := None\<rparr>) (ws_runs w)\<rparr>)"
          by (rule runs_ok_update [OF ok Some, where r' = "run\<lparr>rn_execution := None\<rparr>"]) (use dist mem x in \<open>simp_all add: rem\<close>)
        then show ?thesis using Some x True We_advance by (simp add: advance_def)
      next
        case False
        have "ex_workflow (execution_step r x) = ex_workflow x"
          by (auto simp: execution_step_def split: list.split prod.split)
        then have "runs_ok (w\<lparr>ws_runs := AList.update k (run\<lparr>rn_execution := Some (execution_step r x)\<rparr>) (ws_runs w)\<rparr>)"
          by (intro runs_ok_update [OF ok Some, where r' = "run\<lparr>rn_execution := Some (execution_step r x)\<rparr>"]) (simp_all add: dist x)
        then show ?thesis using Some x False We_advance by (simp add: advance_def)
      qed
    qed
  qed
next
  case We_restart
  then show ?thesis by (simp add: runs_ok_def executing_def)
qed (use ok in \<open>simp_all add: runs_ok_new_run, simp_all add: runs_ok_def\<close>)


subsection \<open>The table\<close>

text \<open>A change of the table that keeps ids and counters, or removes rows.\<close>

lemma table_ok_update:
  assumes "table_ok w" and "ws_table w' = sql_update wf_id i f (ws_table w)"
    and "\<And>r. wf_id (f r) = wf_id r" "\<And>r. wf_runCount (f r) = wf_runCount r"
    and "ws_ids w' = ws_ids w" "ws_ended w' = ws_ended w"
  shows "table_ok w'"
proof -
  have "map wf_id (sql_update wf_id i f (ws_table w)) = map wf_id (ws_table w)"
    using assms(3) by (simp add: sql_update_def map_key_update_where)
  moreover have "list_all (counted (ws_ended w)) (sql_update wf_id i f (ws_table w))"
    using assms(1,3,4) by (auto simp: table_ok_def list_all_iff sql_update_def set_update_where counted_def)
  ultimately show ?thesis using assms by (simp add: table_ok_def)
qed

lemma table_ok_same:
  "table_ok w \<Longrightarrow> ws_table w' = ws_table w \<Longrightarrow> ws_ids w' = ws_ids w \<Longrightarrow> ws_ended w' = ws_ended w \<Longrightarrow> table_ok w'"
  by (simp add: table_ok_def)

lemma table_ok_finish:
  assumes ok: "table_ok w"
    and "ws_table w' = finish_execution now x (ws_table w)" "ws_ids w' = ws_ids w" "ws_ended w' = ws_ended w @ [x]"
  shows "table_ok w'"
proof -
  have ids: "map wf_id (finish_execution now x (ws_table w)) = map wf_id (ws_table w)"
    by (simp add: finish_execution_def recordRun_def sql_update_def map_key_update_where)
  have "list_all (counted (ws_ended w @ [x])) (finish_execution now x (ws_table w))"
    using ok by (auto simp: table_ok_def list_all_iff finish_execution_def recordRun_def sql_update_def set_update_where counted_def)
  then show ?thesis using assms ids by (simp add: table_ok_def)
qed

lemma table_ok_next: "table_ok w \<Longrightarrow> table_ok (next_workflow k r w)"
  unfolding next_workflow_def Let_def recordFiredBucket_def
  by (auto intro: table_ok_same table_ok_update split: list.split option.split prod.split)

lemma table_ok_advance: "table_ok w \<Longrightarrow> table_ok (advance k now r w)"
  unfolding advance_def
  by (auto intro: table_ok_same table_ok_next table_ok_finish split: option.split)

lemma update_workflow_table:
  "\<exists>f. snd (update_workflow i now data db) = sql_update wf_id i f db \<and> (\<forall>r. wf_id (f r) = wf_id r \<and>
     wf_runCount (f r) = wf_runCount r \<and> wf_lastFiredBucket (f r) = wf_lastFiredBucket r)"
proof (cases "get_workflow i db")
  case None
  then have "sql_update wf_id i (\<lambda>r. r) db = db" by (simp add: sql_update_def sql_update_where_def)
  then show ?thesis using None by (intro exI [of _ "\<lambda>r. r"]) (simp add: update_workflow_def)
next
  case (Some w)
  then show ?thesis unfolding update_workflow_def Let_def by (auto intro!: exI)
qed

definition ids_ok :: "workflow_world \<Rightarrow> bool" where
  "ids_ok w = (set (map ex_workflow (ws_ended w)) \<subseteq> set (ws_ids w) \<and> set (ws_running w) \<subseteq> set (ws_ids w))"

lemma begin_execution_ids:
  assumes "begin_execution i db running = (x, running')"
  shows "set running' \<subseteq> set running \<union> set (map wf_id db)"
proof -
  have "sql_get wf_id i db \<noteq> None \<Longrightarrow> i \<in> set (map wf_id db)" by (simp add: sql_get_None_iff)
  then show ?thesis using assms by (auto simp: begin_execution_def get_workflow_def split: if_splits option.splits)
qed

lemma ids_ok_next: "ids_ok w \<Longrightarrow> set (map wf_id (ws_table w)) \<subseteq> set (ws_ids w) \<Longrightarrow> ids_ok (next_workflow k r w)"
proof -
  assume ok: "ids_ok w" and table: "set (map wf_id (ws_table w)) \<subseteq> set (ws_ids w)"
  have fired: "map wf_id (recordFiredBucket i b db) = map wf_id db" for i b db
    by (simp add: recordFiredBucket_def sql_update_def map_key_update_where)
  have started: "set running' \<subseteq> set (ws_ids w)"
    if "begin_execution i db (ws_running w) = (x, running')" "map wf_id db = map wf_id (ws_table w)" for i db x running'
  proof -
    have "set (map wf_id db) = set (map wf_id (ws_table w))" by (simp only: that(2))
    then show ?thesis using begin_execution_ids [OF that(1)] ok table unfolding ids_ok_def by blast
  qed
  show ?thesis
  proof (cases "rn_rest r")
    case Nil
    then show ?thesis using ok by (simp add: next_workflow_def ids_ok_def)
  next
    case (Cons item rest)
    show ?thesis
      unfolding next_workflow_def Cons list.case Let_def
      using ok started fired by (auto simp: ids_ok_def split: option.split prod.split)
  qed
qed

lemma ids_ok_step:
  assumes ok: "ids_ok w" and runs: "runs_ok w" and table: "table_ok w"
  shows "ids_ok (scheduler_step e w)"
proof (cases e)
  case (We_advance k now r)
  show ?thesis
  proof (cases "map_of (ws_runs w) k")
    case None
    then show ?thesis using We_advance ok by (simp add: advance_def)
  next
    case (Some run)
    show ?thesis
    proof (cases "rn_execution run")
      case None
      then show ?thesis using We_advance Some ok ids_ok_next table by (simp add: advance_def table_ok_def)
    next
      case x: (Some x)
      have "ex_workflow x \<in> set (executing (ws_runs w))"
        using map_of_SomeD [OF Some] x by (force simp: executing_def)
      then have "ex_workflow x \<in> set (ws_running w)" using runs by (metis runs_ok_def set_mset_mset)
      then show ?thesis using We_advance Some x ok by (auto simp: advance_def ids_ok_def)
    qed
  qed
next
  case (We_create i now data)
  then show ?thesis using ok by (auto simp: ids_ok_def)
qed (use ok in \<open>simp_all add: ids_ok_def new_run_def\<close>)

lemma table_ok_create:
  assumes ok: "table_ok w" and ids: "ids_ok w" and fresh: "i \<notin> set (ws_ids w)"
  shows "table_ok (scheduler_step (We_create i now data) w)"
proof -
  have new: "sql_get wf_id i (ws_table w) = None" using ok fresh by (auto simp: sql_get_None_iff table_ok_def)
  have "filter (\<lambda>x. ex_workflow x = i) (ws_ended w) = []"
    using ids fresh by (auto simp: ids_ok_def filter_empty_conv)
  then show ?thesis
    using ok fresh new by (auto simp: table_ok_def create_workflow_def ret_def Let_def counted_def list_all_iff)
qed

lemma table_ok_step:
  assumes ok: "table_ok w" and ids: "ids_ok w" and fresh: "fresh_event e w"
  shows "table_ok (scheduler_step e w)"
proof (cases e)
  case (We_update i now data)
  obtain f where "snd (update_workflow i now data (ws_table w)) = sql_update wf_id i f (ws_table w)"
    "\<And>r. wf_id (f r) = wf_id r" "\<And>r. wf_runCount (f r) = wf_runCount r"
    using update_workflow_table by metis
  then show ?thesis using We_update ok by (auto intro: table_ok_update)
next
  case (We_delete i)
  then show ?thesis
    using ok by (auto simp: table_ok_def delete_workflow_def set_sql_delete list_all_iff intro: key_intros)
next
  case (We_create i now data)
  then show ?thesis using table_ok_create [OF ok ids] fresh by (simp add: fresh_event_def)
qed (use ok in \<open>simp_all add: table_ok_advance, simp_all add: new_run_def table_ok_def\<close>)

lemma reachable_workflows: "workflow_reachable w \<Longrightarrow> runs_ok w \<and> table_ok w \<and> ids_ok w"
proof (induction rule: workflow_reachable.induct)
  case start
  show ?case by (simp add: runs_ok_def table_ok_def ids_ok_def scheduler_start_def executing_def)
next
  case (step w e)
  then show ?case using runs_ok_step table_ok_step ids_ok_step by blast
qed

text \<open>
  C21. However ticks, events, webhooks, changes and restarts interleave, no workflow is executed twice at
  the same time, exactly the executed ones are marked as running, and each row counts the executions of
  its workflow that have ended.
\<close>

theorem one_execution_at_a_time:
  assumes "workflow_reachable w"
  shows "distinct (executing (ws_runs w)) \<and> set (executing (ws_runs w)) = set (ws_running w) \<and>
    list_all (counted (ws_ended w)) (ws_table w)"
proof -
  have ok: "distinct (ws_running w)" "mset (executing (ws_runs w)) = mset (ws_running w)"
    using reachable_workflows [OF assms] by (simp_all add: runs_ok_def)
  have "distinct (executing (ws_runs w))" using ok by (metis mset_eq_imp_distinct_iff)
  moreover have "set (executing (ws_runs w)) = set (ws_running w)" using ok(2) by (metis set_mset_mset)
  ultimately show ?thesis using reachable_workflows [OF assms] by (simp add: table_ok_def)
qed

text \<open>Two workflows of every minute, the first of which sends a message.\<close>

definition every_minute :: "workflow_action list \<Rightarrow> workflow_input" where
  "every_minute actions =
     \<lparr>wi_name = ''w'', wi_description = None, wi_enabled = None,
      wi_config = \<lparr>wc_trigger = Cron_trigger ''* * * * *'' None, wc_actions = actions\<rparr>\<rparr>"

definition two_created :: "scheduler_event list" where
  "two_created =
     [We_create ''a'' 2000 (every_minute [Send_message ''c'' ''hello'']), We_create ''b'' 1000 (every_minute [])]"


fun fresh_events :: "scheduler_event list \<Rightarrow> workflow_world \<Rightarrow> bool" where
  "fresh_events [] w = True"
| "fresh_events (e # es) w = (fresh_event e w \<and> fresh_events es (scheduler_step e w))"

lemma workflow_reachable_fold: "workflow_reachable w \<Longrightarrow> fresh_events es w \<Longrightarrow> workflow_reachable (fold scheduler_step es w)"
  by (induction es arbitrary: w) (simp_all add: workflow_reachable.step del: scheduler_step.simps)

definition busy :: workflow_world where
  "busy = fold scheduler_step
     (two_created @ [We_tick 60000, We_advance 0 60001 sent, We_tick 60002, We_advance 1 60003 sent]) scheduler_start"

theorem one_execution_at_a_time_witness: "distinct (executing (ws_runs busy)) \<and> ws_running busy = [''a'']"
proof -
  have "fresh_events (two_created @ [We_tick 60000, We_advance 0 60001 sent, We_tick 60002, We_advance 1 60003 sent])
      scheduler_start" by code_simp
  then have "workflow_reachable busy" unfolding busy_def by (rule workflow_reachable_fold [OF workflow_reachable.start])
  then have "distinct (executing (ws_runs busy))" using one_execution_at_a_time by blast
  moreover have "ws_running busy = [''a'']" by code_simp
  ultimately show ?thesis by blast
qed

end
