(* ===== verification/WorkflowMinutes.thy ===== *)
theory WorkflowMinutes
  imports WorkflowGuarantees
begin

text \<open>
  Schedules fire at most once in a minute as long as no tick begins while an earlier one is at work; two
  ticks at work in the same minute fire a workflow twice.
\<close>

section \<open>Ticks that do not overlap\<close>

text \<open>A tick begins when no other is at work, and not in an earlier minute than any firing.\<close>

definition apart :: "scheduler_event \<Rightarrow> workflow_world \<Rightarrow> bool" where
  "apart e w =
     (case e of
        We_tick ms \<Rightarrow>
          list_all (\<lambda>(k, r). rn_tick r = None) (ws_runs w) \<and> list_all (\<lambda>(i, b). b \<le> bucket_of ms) (ws_fired w)
      | _ \<Rightarrow> True)"

inductive apart_reachable :: "workflow_world \<Rightarrow> bool" where
  start: "apart_reachable scheduler_start"
| step: "apart_reachable w \<Longrightarrow> fresh_event e w \<Longrightarrow> apart e w \<Longrightarrow> apart_reachable (scheduler_step e w)"

lemma apart_workflow_reachable: "apart_reachable w \<Longrightarrow> workflow_reachable w"
  by (induction rule: apart_reachable.induct) (auto intro: workflow_reachable.intros)

definition rows_ok :: "(string \<times> int) list \<Rightarrow> workflow list \<Rightarrow> bool" where
  "rows_ok fired rows =
     (\<forall>row\<in>set rows. (\<forall>b. (wf_id row, b) \<in> set fired \<longrightarrow> (\<exists>c. wf_lastFiredBucket row = Some c \<and> b \<le> c)) \<and>
        (\<forall>c. wf_lastFiredBucket row = Some c \<longrightarrow> (wf_id row, c) \<in> set fired))"

definition tick_ok :: "(string \<times> int) list \<Rightarrow> int \<Rightarrow> workflow list \<Rightarrow> bool" where
  "tick_ok fired ms rest =
     ((\<forall>i b. (i, b) \<in> set fired \<longrightarrow> b \<le> bucket_of ms) \<and> distinct (map wf_id rest) \<and>
      (\<forall>item\<in>set rest. wf_lastFiredBucket item \<noteq> Some (bucket_of ms) \<longrightarrow> (wf_id item, bucket_of ms) \<notin> set fired))"

definition ticks_ok :: "(string \<times> int) list \<Rightarrow> (nat \<times> scheduler_run) list \<Rightarrow> bool" where
  "ticks_ok fired rs =
     (\<forall>k r ms. map_of rs k = Some r \<longrightarrow> rn_tick r = Some ms \<longrightarrow>
        tick_ok fired ms (rn_rest r) \<and> (\<forall>j q. map_of rs j = Some q \<longrightarrow> rn_tick q \<noteq> None \<longrightarrow> j = k))"

definition minutes_ok :: "workflow_world \<Rightarrow> bool" where
  "minutes_ok w =
     (distinct (ws_fired w) \<and> set (map fst (ws_fired w)) \<subseteq> set (ws_ids w) \<and>
      rows_ok (ws_fired w) (ws_table w) \<and> ticks_ok (ws_fired w) (ws_runs w))"

text \<open>Changes of the table that keep ids and minutes, or remove rows.\<close>

lemma rows_ok_like:
  assumes "rows_ok fired rows"
    and "\<And>row'. row' \<in> set rows' \<Longrightarrow> \<exists>row\<in>set rows. wf_id row' = wf_id row \<and> wf_lastFiredBucket row' = wf_lastFiredBucket row"
  shows "rows_ok fired rows'"
  unfolding rows_ok_def
proof (intro ballI)
  fix row'
  assume "row' \<in> set rows'"
  then obtain row where "row \<in> set rows" "wf_id row' = wf_id row" "wf_lastFiredBucket row' = wf_lastFiredBucket row"
    using assms(2) by blast
  then show "(\<forall>b. (wf_id row', b) \<in> set fired \<longrightarrow> (\<exists>c. wf_lastFiredBucket row' = Some c \<and> b \<le> c)) \<and>
        (\<forall>c. wf_lastFiredBucket row' = Some c \<longrightarrow> (wf_id row', c) \<in> set fired)"
    using assms(1) by (simp add: rows_ok_def)
qed

lemma rows_ok_update:
  assumes "rows_ok fired rows" and "\<And>r. wf_id (f r) = wf_id r" "\<And>r. wf_lastFiredBucket (f r) = wf_lastFiredBucket r"
  shows "rows_ok fired (sql_update wf_id i f rows)"
proof (rule rows_ok_like [OF assms(1)])
  fix row'
  assume "row' \<in> set (sql_update wf_id i f rows)"
  then obtain r where "r \<in> set rows" "row' = (if wf_id r = i then f r else r)"
    by (auto simp: sql_update_def set_update_where)
  then show "\<exists>row\<in>set rows. wf_id row' = wf_id row \<and> wf_lastFiredBucket row' = wf_lastFiredBucket row"
    using assms(2,3) by (intro bexI [of _ r]) simp_all
qed

lemma rows_ok_fire:
  assumes rows: "rows_ok fired rows" and "\<forall>i b. (i, b) \<in> set fired \<longrightarrow> b \<le> bucket"
  shows "rows_ok (fired @ [(i, bucket)]) (recordFiredBucket i bucket rows)"
  unfolding rows_ok_def
proof (intro ballI)
  fix row
  assume "row \<in> set (recordFiredBucket i bucket rows)"
  then obtain r where r: "r \<in> set rows" and row: "row = (if wf_id r = i then r\<lparr>wf_lastFiredBucket := Some bucket\<rparr> else r)"
    by (auto simp: recordFiredBucket_def sql_update_def set_update_where)
  have old: "\<forall>b. (wf_id r, b) \<in> set fired \<longrightarrow> (\<exists>c. wf_lastFiredBucket r = Some c \<and> b \<le> c)"
    "\<forall>c. wf_lastFiredBucket r = Some c \<longrightarrow> (wf_id r, c) \<in> set fired"
    using rows r unfolding rows_ok_def by blast+
  show "(\<forall>b. (wf_id row, b) \<in> set (fired @ [(i, bucket)]) \<longrightarrow> (\<exists>c. wf_lastFiredBucket row = Some c \<and> b \<le> c)) \<and>
        (\<forall>c. wf_lastFiredBucket row = Some c \<longrightarrow> (wf_id row, c) \<in> set (fired @ [(i, bucket)]))"
  proof (cases "wf_id r = i")
    case True
    then show ?thesis using row assms(2) by auto
  next
    case False
    then show ?thesis using row old by simp
  qed
qed

text \<open>Runs that change in place, or are removed.\<close>

lemma ticks_ok_update:
  assumes ok: "ticks_ok fired rs" and r: "map_of rs k = Some r"
    and "rn_tick r' = rn_tick r" "\<And>ms. rn_tick r = Some ms \<Longrightarrow> tick_ok fired' ms (rn_rest r')"
    and other: "rn_tick r = None \<Longrightarrow> fired' = fired"
  shows "ticks_ok fired' (AList.update k r' rs)"
  unfolding ticks_ok_def
proof (intro allI impI)
  fix j q ms
  assume j: "map_of (AList.update k r' rs) j = Some q" "rn_tick q = Some ms"
  have old: "\<exists>p. map_of rs j' = Some p \<and> rn_tick p = rn_tick q'" if "map_of (AList.update k r' rs) j' = Some q'" for j' q'
    using that r assms(3) by (auto simp: update_conv' split: if_splits)
  show "tick_ok fired' ms (rn_rest q) \<and> (\<forall>j' q'. map_of (AList.update k r' rs) j' = Some q' \<longrightarrow> rn_tick q' \<noteq> None \<longrightarrow> j' = j)"
  proof
    show "tick_ok fired' ms (rn_rest q)"
    proof (cases "j = k")
      case True
      then have "q = r'" using j(1) by (simp add: update_conv')
      then show ?thesis using assms(3,4) j(2) by simp
    next
      case False
      then have q: "map_of rs j = Some q" using j(1) by (simp add: update_conv')
      then have "rn_tick r = None" using ok r j(2) False unfolding ticks_ok_def by blast
      then show ?thesis using other ok q j(2) by (simp add: ticks_ok_def)
    qed
    show "\<forall>j' q'. map_of (AList.update k r' rs) j' = Some q' \<longrightarrow> rn_tick q' \<noteq> None \<longrightarrow> j' = j"
    proof (intro allI impI)
      fix j' q'
      assume q': "map_of (AList.update k r' rs) j' = Some q'" "rn_tick q' \<noteq> None"
      obtain p where p: "map_of rs j = Some p" "rn_tick p = Some ms" using old [OF j(1)] j(2) by auto
      obtain p' where p': "map_of rs j' = Some p'" "rn_tick p' \<noteq> None" using old [OF q'(1)] q'(2) by auto
      show "j' = j" using ok p p' unfolding ticks_ok_def by blast
    qed
  qed
qed

lemma ticks_ok_delete: "ticks_ok fired rs \<Longrightarrow> ticks_ok fired (AList.delete k rs)"
  by (auto simp: ticks_ok_def delete_conv')

lemma tick_ok_tail: "tick_ok fired ms (item # rest) \<Longrightarrow> tick_ok fired ms rest"
  by (simp add: tick_ok_def)

lemma tick_ok_fire:
  assumes "tick_ok fired ms (item # rest)"
  shows "tick_ok (fired @ [(wf_id item, bucket_of ms)]) ms rest"
proof -
  have "wf_id other \<noteq> wf_id item" if "other \<in> set rest" for other
    using assms imageI [OF that, of wf_id] by (auto simp: tick_ok_def)
  then show ?thesis using assms by (auto simp: tick_ok_def)
qed

lemma minutes_ok_new_run:
  assumes ok: "minutes_ok w" and runs: "runs_ok w"
    and fresh: "tick \<noteq> None \<Longrightarrow> list_all (\<lambda>(k, r). rn_tick r = None) (ws_runs w)"
    and rest: "\<And>ms. tick = Some ms \<Longrightarrow> tick_ok (ws_fired w) ms ws"
  shows "minutes_ok (new_run tick ws w)"
proof -
  let ?r = "\<lparr>rn_tick = tick, rn_rest = ws, rn_execution = None\<rparr>"
  let ?rs = "ws_runs w @ [(ws_next w, ?r)]"
  have none: "map_of (ws_runs w) (ws_next w) = None"
    using runs by (auto simp: runs_ok_def list_all_iff map_of_eq_None_iff)
  have look: "map_of ?rs k = (if k = ws_next w then Some ?r else map_of (ws_runs w) k)" for k
    using none by (auto simp: map_add_def split: option.split)
  have quiet: "rn_tick r = None" if "map_of (ws_runs w) k = Some r" "tick \<noteq> None" for k r
    using fresh [OF that(2)] map_of_SomeD [OF that(1)] by (auto simp: list_all_iff)
  have "ticks_ok (ws_fired w) ?rs"
    unfolding ticks_ok_def look
  proof (intro allI impI)
    fix k r ms
    assume k: "(if k = ws_next w then Some ?r else map_of (ws_runs w) k) = Some r" "rn_tick r = Some ms"
    show "tick_ok (ws_fired w) ms (rn_rest r) \<and>
      (\<forall>j q. (if j = ws_next w then Some ?r else map_of (ws_runs w) j) = Some q \<longrightarrow> rn_tick q \<noteq> None \<longrightarrow> j = k)"
    proof (cases "k = ws_next w")
      case True
      then show ?thesis using k rest quiet by (auto split: if_splits)
    next
      case False
      then have "map_of (ws_runs w) k = Some r" using k(1) by simp
      moreover from this have "tick = None" using quiet k(2) by fastforce
      ultimately show ?thesis using ok k(2) False unfolding minutes_ok_def ticks_ok_def by (auto split: if_splits)
    qed
  qed
  then show ?thesis using ok by (simp add: minutes_ok_def new_run_def)
qed

lemma cron_workflows_tick_ok:
  assumes ok: "minutes_ok w" and table: "table_ok w" and late: "list_all (\<lambda>(i, b). b \<le> bucket_of ms) (ws_fired w)"
  shows "tick_ok (ws_fired w) ms (cron_workflows (ws_table w))"
proof -
  have "mset (map wf_id (list_workflows (ws_table w))) = mset (map wf_id (ws_table w))"
    by (simp add: list_workflows_def order_desc_def)
  then have "distinct (map wf_id (list_workflows (ws_table w)))"
    using table mset_eq_imp_distinct_iff unfolding table_ok_def by blast
  then have "distinct (map wf_id (cron_workflows (ws_table w)))" by (simp add: cron_workflows_def distinct_map_filter)
  moreover have "(wf_id item, bucket_of ms) \<notin> set (ws_fired w)"
    if "item \<in> set (cron_workflows (ws_table w))" "wf_lastFiredBucket item \<noteq> Some (bucket_of ms)" for item
  proof
    assume fired: "(wf_id item, bucket_of ms) \<in> set (ws_fired w)"
    have rows: "rows_ok (ws_fired w) (ws_table w)" using ok by (simp add: minutes_ok_def)
    have item: "item \<in> set (ws_table w)" using that(1) by (simp add: cron_workflows_def list_workflows_def)
    then obtain c where c: "wf_lastFiredBucket item = Some c" "bucket_of ms \<le> c"
      using rows fired unfolding rows_ok_def by blast
    then have "(wf_id item, c) \<in> set (ws_fired w)" using rows item unfolding rows_ok_def by blast
    then have "c \<le> bucket_of ms" using late by (auto simp: list_all_iff)
    then show False using c that(2) by simp
  qed
  moreover have "\<forall>i b. (i, b) \<in> set (ws_fired w) \<longrightarrow> b \<le> bucket_of ms" using late by (auto simp: list_all_iff)
  ultimately show ?thesis by (simp add: tick_ok_def)
qed


lemma minutes_ok_table:
  assumes "minutes_ok w" and "rows_ok (ws_fired w) (ws_table w')" and "ws_fired w' = ws_fired w"
    "set (ws_ids w) \<subseteq> set (ws_ids w')" "ws_runs w' = ws_runs w"
  shows "minutes_ok w'"
  using assms by (auto simp: minutes_ok_def)

lemma minutes_ok_next:
  assumes ok: "minutes_ok w" and table: "table_ok w" and r: "map_of (ws_runs w) k = Some r"
    and known: "set (map wf_id (rn_rest r)) \<subseteq> set (ws_ids w)"
  shows "minutes_ok (next_workflow k r w)"
proof (cases "rn_rest r")
  case Nil
  then show ?thesis using ok by (simp add: next_workflow_def minutes_ok_def ticks_ok_delete)
next
  case (Cons item rest)
  have ticks: "ticks_ok (ws_fired w) (ws_runs w)" using ok by (simp add: minutes_ok_def)
  have tick: "tick_ok (ws_fired w) ms (item # rest)" if "rn_tick r = Some ms" for ms
    using ticks r that Cons unfolding ticks_ok_def by metis
  have passed: "ticks_ok (ws_fired w) (AList.update k (r\<lparr>rn_rest := rest, rn_execution := x\<rparr>) (ws_runs w))" for x
    by (rule ticks_ok_update [OF ticks r]) (auto intro: tick_ok_tail tick)
  show ?thesis
  proof (cases "rn_tick r")
    case None
    then show ?thesis
      using ok passed unfolding next_workflow_def Cons by (auto simp: minutes_ok_def split: prod.split)
  next
    case (Some ms)
    show ?thesis
    proof (cases "tick_fires ms (ws_running w) item")
      case False
      then show ?thesis
        using ok passed [of "rn_execution r"] Some unfolding next_workflow_def Cons by (simp add: minutes_ok_def)
    next
      case True
      let ?fired = "ws_fired w @ [(wf_id item, bucket_of ms)]"
      obtain x running where x: "begin_execution (wf_id item) (recordFiredBucket (wf_id item) (bucket_of ms) (ws_table w))
          (ws_running w) = (x, running)" by fastforce
      have "ticks_ok ?fired (AList.update k (r\<lparr>rn_rest := rest, rn_execution := x\<rparr>) (ws_runs w))"
        by (rule ticks_ok_update [OF ticks r]) (use tick Some in \<open>auto intro: tick_ok_fire\<close>)
      moreover have "(wf_id item, bucket_of ms) \<notin> set (ws_fired w)"
        using tick [OF Some] True by (auto simp: tick_ok_def tick_fires_def)
      moreover have "rows_ok ?fired (recordFiredBucket (wf_id item) (bucket_of ms) (ws_table w))"
        by (rule rows_ok_fire) (use ok tick [OF Some] in \<open>auto simp: minutes_ok_def tick_ok_def\<close>)
      ultimately show ?thesis
        using ok True Some x known Cons by (simp add: next_workflow_def minutes_ok_def)
    qed
  qed
qed

text \<open>What a run has read are workflows with known ids.\<close>

lemma set_update_pairs: "set (AList.update k v xs) \<subseteq> insert (k, v) (set xs)"
  by (induction xs) auto

definition reads_ok :: "workflow_world \<Rightarrow> bool" where
  "reads_ok w = list_all (\<lambda>(k, r). set (map wf_id (rn_rest r)) \<subseteq> set (ws_ids w)) (ws_runs w)"

lemma reads_ok_iff: "reads_ok w \<longleftrightarrow> (\<forall>k r item. (k, r) \<in> set (ws_runs w) \<longrightarrow> item \<in> set (rn_rest r) \<longrightarrow> wf_id item \<in> set (ws_ids w))"
  by (fastforce simp: reads_ok_def list_all_iff)

lemma reads_ok_update:
  assumes ok: "reads_ok w" and r: "map_of (ws_runs w) k = Some r" and rest: "set (rn_rest r') \<subseteq> set (rn_rest r)"
    and w': "ws_runs w' = AList.update k r' (ws_runs w)" "ws_ids w' = ws_ids w"
  shows "reads_ok w'"
  unfolding reads_ok_iff w'
proof (intro allI impI)
  fix j q item
  assume q: "(j, q) \<in> set (AList.update k r' (ws_runs w))" "item \<in> set (rn_rest q)"
  then have "(j, q) = (k, r') \<or> (j, q) \<in> set (ws_runs w)" using set_update_pairs [of k r' "ws_runs w"] by blast
  then show "wf_id item \<in> set (ws_ids w)"
    using ok q(2) rest map_of_SomeD [OF r] unfolding reads_ok_iff by blast
qed

lemma reads_ok_new_run:
  assumes "reads_ok w" and "table_ok w" and "set ws \<subseteq> set (ws_table w)"
  shows "reads_ok (new_run tick ws w)"
proof -
  have "wf_id item \<in> set (ws_ids w)" if "item \<in> set ws" for item
    using that assms(2,3) by (auto simp: table_ok_def)
  then show ?thesis using assms(1) by (auto simp: reads_ok_iff new_run_def)
qed

lemma reads_ok_next:
  assumes ok: "reads_ok w" and r: "map_of (ws_runs w) k = Some r"
  shows "reads_ok (next_workflow k r w)"
proof (cases "rn_rest r")
  case Nil
  have "set (AList.delete k (ws_runs w)) \<subseteq> set (ws_runs w)" by (auto simp: AList.delete_eq)
  then show ?thesis using ok Nil unfolding reads_ok_iff next_workflow_def by auto
next
  case (Cons item rest)
  have "reads_ok w'" if "ws_runs w' = AList.update k (r\<lparr>rn_rest := rest, rn_execution := x\<rparr>) (ws_runs w)" "ws_ids w' = ws_ids w" for w' x
    by (rule reads_ok_update [OF ok r _ that]) (use Cons in auto)
  moreover have "reads_ok w'" if "ws_runs w' = AList.update k (r\<lparr>rn_rest := rest\<rparr>) (ws_runs w)" "ws_ids w' = ws_ids w" for w'
    by (rule reads_ok_update [OF ok r _ that]) (use Cons in auto)
  ultimately show ?thesis
    unfolding next_workflow_def Cons list.case Let_def
    by (auto split: option.split prod.split)
qed

lemma selected_in_table:
  "set (cron_workflows db) \<subseteq> set db" "set (event_workflows event db) \<subseteq> set db" "set (webhook_workflows secret db) \<subseteq> set db"
  by (auto simp: cron_workflows_def event_workflows_def webhook_workflows_def list_workflows_def)

lemma advance_ok:
  assumes reads: "reads_ok w" and ok: "minutes_ok w" and table: "table_ok w"
  shows "reads_ok (advance k now r w) \<and> minutes_ok (advance k now r w)"
proof (cases "map_of (ws_runs w) k")
  case None
  then show ?thesis using reads ok by (simp add: advance_def)
next
  case (Some run)
  have ticks: "ticks_ok (ws_fired w) (ws_runs w)" using ok by (simp add: minutes_ok_def)
  have ticks': "ticks_ok (ws_fired w) (AList.update k (run\<lparr>rn_execution := x\<rparr>) (ws_runs w))" for x
    by (rule ticks_ok_update [OF ticks Some]) (use ticks Some in \<open>auto simp: ticks_ok_def\<close>)
  have reads': "reads_ok w'" if "ws_runs w' = AList.update k (run\<lparr>rn_execution := x\<rparr>) (ws_runs w)" "ws_ids w' = ws_ids w" for w' x
    by (rule reads_ok_update [OF reads Some _ that]) simp
  show ?thesis
  proof (cases "rn_execution run")
    case None
    have "set (map wf_id (rn_rest run)) \<subseteq> set (ws_ids w)"
      using reads map_of_SomeD [OF Some] by (auto simp: reads_ok_iff)
    then show ?thesis
      using None Some reads_ok_next [OF reads Some] minutes_ok_next [OF ok table Some] by (simp add: advance_def)
  next
    case x: (Some x)
    have "rows_ok (ws_fired w) (finish_execution now x (ws_table w))"
      unfolding finish_execution_def recordRun_def
      by (rule rows_ok_update) (use ok in \<open>simp_all add: minutes_ok_def\<close>)
    then show ?thesis using ok Some x ticks' reads' by (simp add: advance_def minutes_ok_def)
  qed
qed

lemma minutes_step:
  assumes reads: "reads_ok w" and ok: "minutes_ok w" and runs: "runs_ok w" and table: "table_ok w"
    and fresh: "fresh_event e w" and late: "apart e w"
  shows "reads_ok (scheduler_step e w) \<and> minutes_ok (scheduler_step e w)"
proof -
  have rows: "rows_ok (ws_fired w) (ws_table w)" using ok by (simp add: minutes_ok_def)
  show ?thesis
  proof (cases e)
    case (We_tick ms)
    then have "tick_ok (ws_fired w) ms (cron_workflows (ws_table w))"
      using cron_workflows_tick_ok [OF ok table] late by (simp add: apart_def)
    then have "minutes_ok (scheduler_step e w)"
      using We_tick late minutes_ok_new_run [OF ok runs, of "Some ms"] by (simp add: apart_def)
    then show ?thesis using We_tick reads_ok_new_run [OF reads table selected_in_table(1)] by simp
  next
    case (We_fire event)
    then show ?thesis
      using reads_ok_new_run [OF reads table selected_in_table(2)] minutes_ok_new_run [OF ok runs, of None] by simp
  next
    case (We_webhook secret)
    then show ?thesis
      using reads_ok_new_run [OF reads table selected_in_table(3)] minutes_ok_new_run [OF ok runs, of None] by simp
  next
    case (We_advance k now r)
    then show ?thesis using advance_ok [OF reads ok table] by simp
  next
    case (We_create i now data)
    then have "i \<notin> fst ` set (ws_fired w)" using fresh ok by (auto simp: fresh_event_def minutes_ok_def)
    then have "rows_ok (ws_fired w) (snd (create_workflow i now data (ws_table w)))"
      using rows by (auto simp: create_workflow_def ret_def throw_def Let_def rows_ok_def image_iff)
    then show ?thesis
      using We_create ok reads by (auto simp: reads_ok_iff intro: minutes_ok_table [OF ok])
  next
    case (We_update i now data)
    obtain f where "snd (update_workflow i now data (ws_table w)) = sql_update wf_id i f (ws_table w)"
      "\<And>r. wf_id (f r) = wf_id r" "\<And>r. wf_lastFiredBucket (f r) = wf_lastFiredBucket r"
      using update_workflow_table by metis
    then have "rows_ok (ws_fired w) (snd (update_workflow i now data (ws_table w)))" using rows rows_ok_update by metis
    then show ?thesis using We_update ok reads by (auto simp: reads_ok_iff intro: minutes_ok_table [OF ok])
  next
    case (We_delete i)
    have "rows_ok (ws_fired w) (snd (delete_workflow i (ws_table w)))"
      by (rule rows_ok_like [OF rows]) (auto simp: delete_workflow_def set_sql_delete)
    then show ?thesis using We_delete ok reads by (auto simp: reads_ok_iff intro: minutes_ok_table [OF ok])
  next
    case We_restart
    then show ?thesis using ok by (simp add: reads_ok_iff minutes_ok_def ticks_ok_def)
  qed
qed

lemma minutes_reachable: "apart_reachable w \<Longrightarrow> reads_ok w \<and> minutes_ok w"
proof (induction rule: apart_reachable.induct)
  case start
  show ?case by (simp add: reads_ok_iff minutes_ok_def rows_ok_def ticks_ok_def scheduler_start_def)
next
  case (step w e)
  then show ?case
    using minutes_step reachable_workflows [OF apart_workflow_reachable] by blast
qed



text \<open>A tick of the two workflows, a restart in the same minute, and the tick after it.\<close>

definition restarted_minute :: "scheduler_event list" where
  "restarted_minute =
     two_created @ [We_tick 60000, We_advance 0 60001 sent, We_restart, We_tick 60002, We_advance 1 60003 sent,
       We_advance 1 60004 sent, We_advance 1 60005 sent]"

fun apart_events :: "scheduler_event list \<Rightarrow> workflow_world \<Rightarrow> bool" where
  "apart_events [] w = True"
| "apart_events (e # es) w = (fresh_event e w \<and> apart e w \<and> apart_events es (scheduler_step e w))"

lemma apart_reachable_fold: "apart_reachable w \<Longrightarrow> apart_events es w \<Longrightarrow> apart_reachable (fold scheduler_step es w)"
  by (induction es arbitrary: w) (simp_all add: apart_reachable.step del: scheduler_step.simps)

lemma restarted_minute_reachable: "apart_reachable (fold scheduler_step restarted_minute scheduler_start)"
proof (rule apart_reachable_fold [OF apart_reachable.start])
  show "apart_events restarted_minute scheduler_start" by code_simp
qed


section \<open>What goes wrong\<close>

text \<open>
  Without a restart the first tick still waits for the message of a when the scheduler is stopped and
  started again: the second tick fires b, and the first fires it again, from what it has read.
\<close>

theorem overlapping_ticks_fire_twice:
  "ws_fired (fold scheduler_step
     (two_created @ [We_tick 60000, We_advance 0 60001 sent, We_tick 60002, We_advance 1 60003 sent,
        We_advance 1 60004 sent, We_advance 1 60005 sent, We_advance 0 60006 sent, We_advance 0 60007 sent,
        We_advance 0 60008 sent]) scheduler_start) = [(''a'', 1), (''b'', 1), (''b'', 1)]"
  by code_simp

text \<open>
  A workflow that is disabled while an earlier one of the same tick is executed is executed all the same:
  it is read again, but whether it is enabled is not asked again.
\<close>

definition switch_off :: workflow_update where
  "switch_off = \<lparr>wu_name = None, wu_description = Undefined, wu_enabled = Some False, wu_config = None\<rparr>"

theorem disabled_workflow_executed:
  "(let w = fold scheduler_step
      (two_created @ [We_tick 60000, We_advance 0 60001 sent, We_update ''b'' 60002 switch_off,
        We_advance 0 60003 sent, We_advance 0 60004 sent, We_advance 0 60005 sent]) scheduler_start
    in map wf_enabled (filter (\<lambda>r. wf_id r = ''b'') (ws_table w)) = [False] \<and> executing (ws_runs w) = [''b''])"
  by code_simp

end
