(* ===== verification/OutboundGuard.thy ===== *)
theory OutboundGuard
  imports Prelude JsString Json WorkflowCron "HOL-Library.Word"
begin

text \<open>
  The guard of outbound requests in src/services/outbound-url-guard.ts: which URLs are accepted, which
  addresses may be connected to, and the lookup that pins a request to the addresses it was checked for.

  The URL class, the addresses that texts denote and the resolver are given. An address is its 32 or 128
  bits.
\<close>

section \<open>Addresses\<close>

datatype ip = V4 "32 word" | V6 "128 word"

definition in_subnet :: "'a::len word \<Rightarrow> nat \<Rightarrow> 'a word \<Rightarrow> bool" where
  "in_subnet base len a = (drop_bit (LENGTH('a) - len) a = drop_bit (LENGTH('a) - len) base)"

text \<open>The octets of an IPv4 address, and the first two groups of an IPv6 address.\<close>

definition octets :: "nat \<Rightarrow> nat \<Rightarrow> nat \<Rightarrow> nat \<Rightarrow> 32 word" where
  "octets a b c d = of_nat (a * 16777216 + b * 65536 + c * 256 + d)"

definition blocked_v4 :: "(32 word \<times> nat) list" where
  "blocked_v4 =
     [(octets 0 0 0 0, 8), (octets 10 0 0 0, 8), (octets 100 64 0 0, 10), (octets 127 0 0 0, 8),
      (octets 169 254 0 0, 16), (octets 172 16 0 0, 12), (octets 192 168 0 0, 16), (octets 198 18 0 0, 15),
      (octets 224 0 0 0, 4), (octets 240 0 0 0, 4), (octets 255 255 255 255, 32)]"

definition groups :: "nat \<Rightarrow> nat \<Rightarrow> nat \<Rightarrow> 128 word" where
  "groups a b c = of_nat (a * 2 ^ 112 + b * 2 ^ 96 + c * 2 ^ 80)"

definition blocked_v6 :: "(128 word \<times> nat) list" where
  "blocked_v6 =
     [(0, 128), (1, 128), (groups 0xfc00 0 0, 7), (groups 0xfe80 0 0, 10), (groups 0xff00 0 0, 8),
      (groups 0x64 0xff9b 0, 96), (groups 0x64 0xff9b 1, 48), (groups 0x2002 0 0, 16), (groups 0x2001 0 0, 32)]"

text \<open>A block list also checks an IPv6 address that maps an IPv4 one against the subnets of IPv4.\<close>

definition in_list :: "('a::len word \<times> nat) list \<Rightarrow> 'a word \<Rightarrow> bool" where
  "in_list subnets a = list_ex (\<lambda>(base, len). in_subnet base len a) subnets"

definition blocked_check :: "ip \<Rightarrow> bool" where
  "blocked_check a =
     (case a of
        V4 w \<Rightarrow> in_list blocked_v4 w
      | V6 w \<Rightarrow> in_list blocked_v6 w \<or> drop_bit 32 w = 0xffff \<and> in_list blocked_v4 (ucast w))"

section \<open>The platform\<close>

record parsed_url =
  pu_protocol :: string
  pu_hostname :: string
  pu_origin :: string
  pu_text :: string

record platform =
  pf_url :: "string \<Rightarrow> parsed_url option"
  pf_ip :: "string \<Rightarrow> ip option"

record guard_options =
  go_protocols :: "string list"
  go_label :: string

section \<open>Host names\<close>

definition drop_brackets :: "string \<Rightarrow> string" where
  "drop_brackets s =
     (if 2 \<le> length s \<and> hd s = CHR ''['' \<and> List.last s = CHR '']'' then butlast (tl s) else s)"

definition drop_dot :: "string \<Rightarrow> string" where
  "drop_dot s = (if s \<noteq> [] \<and> List.last s = CHR ''.'' then butlast s else s)"

definition normalizeHostname :: "string \<Rightarrow> string" where
  "normalizeHostname h = drop_dot (drop_brackets (to_lower (trim h)))"

definition ends_with :: "string \<Rightarrow> string \<Rightarrow> bool" where
  "ends_with s t = (length t \<le> length s \<and> drop (length s - length t) s = t)"

definition BLOCKED_HOSTNAMES :: "string list" where
  "BLOCKED_HOSTNAMES = [''localhost'', ''local'', ''metadata'', ''metadata.google.internal'']"

definition validateHostname :: "string \<Rightarrow> string \<Rightarrow> string option" where
  "validateHostname h label =
     (if h = ''localhost'' \<or> ends_with h ''.localhost'' \<or> h = ''local''
      then Some (label @ '' targets loopback hostname: '' @ h)
      else if h \<in> set BLOCKED_HOSTNAMES then Some (label @ '' targets metadata hostname: '' @ h)
      else None)"

definition strip_prefix :: "string \<Rightarrow> string \<Rightarrow> string option" where
  "strip_prefix p s = (if take (length p) s = p then Some (drop (length p) s) else None)"

definition hex_group :: "string \<Rightarrow> bool" where
  "hex_group s = (1 \<le> length s \<and> length s \<le> 4 \<and> list_all (radix_digit 16) s)"

definition digit_group :: "string \<Rightarrow> bool" where
  "digit_group s = (1 \<le> length s \<and> length s \<le> 3 \<and> list_all (radix_digit 10) s)"

definition dotted_text :: "nat \<Rightarrow> nat \<Rightarrow> nat \<Rightarrow> nat \<Rightarrow> string" where
  "dotted_text a b c d = decimal a @ ''.'' @ decimal b @ ''.'' @ decimal c @ ''.'' @ decimal d"

definition getMappedIpv4 :: "string \<Rightarrow> string option" where
  "getMappedIpv4 h =
     (let dotted = (case strip_prefix ''::ffff:'' h of
                      None \<Rightarrow> None
                    | Some r \<Rightarrow>
                        let ps = split_on (CHR ''.'') r in
                        if length ps = 4 \<and> list_all digit_group ps then Some r else None)
      in case dotted of
           Some r \<Rightarrow> Some r
         | None \<Rightarrow>
             (case strip_prefix ''::ffff:'' (to_lower h) of
                None \<Rightarrow> None
              | Some r \<Rightarrow>
                  (case split_on (CHR '':'') r of
                     [high, low] \<Rightarrow>
                       if hex_group high \<and> hex_group low then
                         let x = digits_value 16 high; y = digits_value 16 low
                         in Some (dotted_text (x div 256) (x mod 256) (y div 256) (y mod 256))
                       else None
                   | _ \<Rightarrow> None)))"

definition blocked_text :: "platform \<Rightarrow> string \<Rightarrow> bool" where
  "blocked_text pf t = (case pf_ip pf t of Some a \<Rightarrow> blocked_check a | None \<Rightarrow> False)"

definition validateIpAddress :: "platform \<Rightarrow> string \<Rightarrow> string \<Rightarrow> string \<Rightarrow> string option" where
  "validateIpAddress pf h label verb =
     (let refused = Some (label @ '' '' @ verb @ '' a private/loopback/metadata address: '' @ h) in
      case pf_ip pf h of
        None \<Rightarrow> None
      | Some (V4 w) \<Rightarrow> if blocked_check (V4 w) then refused else None
      | Some (V6 w) \<Rightarrow>
          if (case getMappedIpv4 h of None \<Rightarrow> False | Some t \<Rightarrow> blocked_text pf t) then refused
          else if blocked_check (V6 w) then refused else None)"

section \<open>URLs\<close>

definition formatProtocols :: "string list \<Rightarrow> string" where
  "formatProtocols ps =
     (case ps of
        [] \<Rightarrow> '' or undefined''
      | [p] \<Rightarrow> p
      | _ \<Rightarrow> concat (map (\<lambda>(i, p). (if i = 0 then '''' else '', '') @ p) (enumerate 0 (butlast ps))) @ '' or '' @ List.last ps)"

definition validateOutboundUrl :: "platform \<Rightarrow> string \<Rightarrow> guard_options \<Rightarrow> string + parsed_url" where
  "validateOutboundUrl pf raw opts =
     (case pf_url pf raw of
        None \<Rightarrow> Inl (''Invalid '' @ go_label opts @ '': '' @ raw)
      | Some url \<Rightarrow>
          if pu_protocol url \<notin> set (go_protocols opts) then
            Inl (go_label opts @ '' must use '' @ formatProtocols (go_protocols opts) @ '' - got '' @ [CHR 0x22] @ pu_protocol url @ [CHR 0x22])
          else
            let h = normalizeHostname (pu_hostname url) in
            if h = [] then Inl (go_label opts @ '' must include a host'')
            else (case validateHostname h (go_label opts) of
                    Some e \<Rightarrow> Inl e
                  | None \<Rightarrow>
                      (case validateIpAddress pf h (go_label opts) ''targets'' of
                         Some e \<Rightarrow> Inl e
                       | None \<Rightarrow> Inr url)))"

text \<open>An address of the resolver: its text and family.\<close>

type_synonym address = "string \<times> nat"

record target =
  tg_url :: parsed_url
  tg_hostname :: string
  tg_addresses :: "address list"

definition first_error :: "('a \<Rightarrow> string option) \<Rightarrow> 'a list \<Rightarrow> string option" where
  "first_error f xs = (case List.map_filter f xs of [] \<Rightarrow> None | e # es \<Rightarrow> Some e)"

text \<open>The answer of the resolver is asked for when the host is a name; it can be an error.\<close>

definition resolveOutboundUrl ::
  "platform \<Rightarrow> (string \<Rightarrow> string + address list) \<Rightarrow> string \<Rightarrow> guard_options \<Rightarrow> string + target" where
  "resolveOutboundUrl pf resolver raw opts =
     (case validateOutboundUrl pf raw opts of
        Inl e \<Rightarrow> Inl e
      | Inr url \<Rightarrow>
          let h = normalizeHostname (pu_hostname url) in
          (case pf_ip pf h of
             Some a \<Rightarrow> Inr \<lparr>tg_url = url, tg_hostname = h, tg_addresses = [(h, case a of V4 w \<Rightarrow> 4 | V6 w \<Rightarrow> 6)]\<rparr>
           | None \<Rightarrow>
               (case resolver h of
                  Inl e \<Rightarrow> Inl e
                | Inr found \<Rightarrow>
                    let addresses = map (\<lambda>(t, family). (normalizeHostname t, family)) found in
                    if addresses = [] then Inl (go_label opts @ '' hostname could not be resolved: '' @ h)
                    else (case first_error (\<lambda>(t, family). validateIpAddress pf t (go_label opts) ''resolves to'') addresses of
                            Some e \<Rightarrow> Inl e
                          | None \<Rightarrow> Inr \<lparr>tg_url = url, tg_hostname = h, tg_addresses = addresses\<rparr>))))"

section \<open>The pinned lookup\<close>

datatype lookup_family = Number nat | Text_v4 | Text_v6 | No_family

definition normalizeLookupFamily :: "lookup_family \<Rightarrow> nat option" where
  "normalizeLookupFamily f =
     (case f of
        Text_v4 \<Rightarrow> Some 4 | Text_v6 \<Rightarrow> Some 6 | No_family \<Rightarrow> None
      | Number n \<Rightarrow> if n = 0 then None else Some n)"

definition selectPinnedAddresses :: "address list \<Rightarrow> nat option \<Rightarrow> address list" where
  "selectPinnedAddresses addresses family =
     (if family \<in> {Some 4, Some 6} then filter (\<lambda>(t, f). Some f = family) addresses else addresses)"

definition pinned_lookup ::
  "target \<Rightarrow> string \<Rightarrow> string \<Rightarrow> lookup_family \<Rightarrow> bool \<Rightarrow> msg + address list" where
  "pinned_lookup tg label h family all =
     (if normalizeHostname h \<noteq> tg_hostname tg
      then Inl [S (label @ '' redirected DNS lookup to unvalidated hostname: '' @ h)]
      else
        let requested = normalizeLookupFamily family;
            addresses = selectPinnedAddresses (tg_addresses tg) requested
        in if addresses = [] then
             Inl [S (label @ '' has no validated IPv''), S (case requested of None \<Rightarrow> ''undefined'' | Some n \<Rightarrow> decimal n),
                  S ('' address for '' @ h)]
           else Inr (if all then addresses else [hd addresses]))"

text \<open>What the pinned fetch lets through: requests to the origin that was checked, before it is closed.\<close>

definition assertPinnedFetchTarget :: "platform \<Rightarrow> string \<Rightarrow> target \<Rightarrow> string \<Rightarrow> string option" where
  "assertPinnedFetchTarget pf raw tg label =
     (case pf_url pf raw of
        None \<Rightarrow> Some (label @ '' attempted fetch to a non-absolute URL: '' @ raw)
      | Some url \<Rightarrow>
          if pu_origin url \<noteq> pu_origin (tg_url tg)
          then Some (label @ '' attempted fetch to unvalidated origin: '' @ pu_origin url) else None)"

definition pinned_fetch :: "platform \<Rightarrow> bool \<Rightarrow> string \<Rightarrow> target \<Rightarrow> string \<Rightarrow> string option" where
  "pinned_fetch pf is_closed raw tg label =
     (case assertPinnedFetchTarget pf raw tg label of
        Some e \<Rightarrow> Some e
      | None \<Rightarrow> if is_closed then Some (label @ '' pinned fetch is already closed'') else None)"


section \<open>What is blocked\<close>

lemma in_subnet_range:
  fixes base a :: "'a::len word"
  assumes "n = LENGTH('a) - len" and "2 ^ n dvd unat base"
  shows "in_subnet base len a \<longleftrightarrow> unat base \<le> unat a \<and> unat a < unat base + 2 ^ n"
proof -
  obtain k where k: "unat base = 2 ^ n * k" using assms(2) by (elim dvdE)
  have quotient: "unat (drop_bit n w) = unat w div 2 ^ n" for w :: "'a word"
    by (subst unat_drop_bit_eq) (rule drop_bit_eq_div)
  have "in_subnet base len a \<longleftrightarrow> unat a div 2 ^ n = unat base div 2 ^ n"
    unfolding in_subnet_def assms(1) [symmetric] word_unat_eq_iff quotient ..
  also have "\<dots> \<longleftrightarrow> unat base \<le> unat a \<and> unat a < unat base + 2 ^ n"
  proof -
    have "unat a div 2 ^ n = k \<longleftrightarrow> 2 ^ n * k \<le> unat a \<and> unat a < 2 ^ n * (k + 1)"
    proof
      assume "unat a div 2 ^ n = k"
      then show "2 ^ n * k \<le> unat a \<and> unat a < 2 ^ n * (k + 1)"
        by (metis Suc_eq_plus1 dividend_less_times_div mult.commute times_div_less_eq_dividend zero_less_numeral zero_less_power mult_Suc_right add.commute)
    next
      assume "2 ^ n * k \<le> unat a \<and> unat a < 2 ^ n * (k + 1)"
      then show "unat a div 2 ^ n = k" by (intro div_nat_eqI) (simp_all add: algebra_simps)
    qed
    then show ?thesis by (simp add: k algebra_simps)
  qed
  finally show ?thesis .
qed

text \<open>The private, loopback, link-local, shared, benchmark, multicast and reserved ranges of IPv4.\<close>

definition quad :: "nat \<Rightarrow> nat \<Rightarrow> nat \<Rightarrow> nat \<Rightarrow> nat" where
  "quad a b c d = ((a * 256 + b) * 256 + c) * 256 + d"

definition private_ranges :: "(nat \<times> nat) list" where
  "private_ranges =
     [(quad 0 0 0 0, quad 0 255 255 255), (quad 10 0 0 0, quad 10 255 255 255), (quad 100 64 0 0, quad 100 127 255 255),
      (quad 127 0 0 0, quad 127 255 255 255), (quad 169 254 0 0, quad 169 254 255 255),
      (quad 172 16 0 0, quad 172 31 255 255), (quad 192 168 0 0, quad 192 168 255 255),
      (quad 198 18 0 0, quad 198 19 255 255), (quad 224 0 0 0, quad 255 255 255 255)]"

lemma unat_octets: "quad a b c d < 2 ^ 32 \<Longrightarrow> unat (octets a b c d) = quad a b c d"
proof -
  assume "quad a b c d < 2 ^ 32"
  moreover have "octets a b c d = of_nat (quad a b c d)" unfolding octets_def quad_def by (rule arg_cong [of _ _ of_nat]) simp
  ultimately show ?thesis by (simp add: unat_of_nat)
qed

lemma in_subnet_quad:
  assumes "len \<le> 32" and "2 ^ (32 - len) dvd quad a b c d" and "quad a b c d + 2 ^ (32 - len) = Suc high" and "high < 2 ^ 32"
  shows "in_subnet (octets a b c d) len w \<longleftrightarrow> quad a b c d \<le> unat w \<and> unat w \<le> high"
proof -
  have "quad a b c d \<le> high" using assms(3) by (metis Suc_leI add_less_cancel_left le_add1 less_Suc_eq_le less_add_same_cancel1 zero_less_numeral zero_less_power)
  then have "unat (octets a b c d) = quad a b c d" using assms(4) by (intro unat_octets) simp
  then show ?thesis
    using in_subnet_range [of "32 - len" len "octets a b c d" w] assms(2,3) by auto
qed

lemma blocked_v4_subnets:
  "in_subnet (octets 0 0 0 0) 8 w \<longleftrightarrow> quad 0 0 0 0 \<le> unat w \<and> unat w \<le> quad 0 255 255 255"
  "in_subnet (octets 10 0 0 0) 8 w \<longleftrightarrow> quad 10 0 0 0 \<le> unat w \<and> unat w \<le> quad 10 255 255 255"
  "in_subnet (octets 100 64 0 0) 10 w \<longleftrightarrow> quad 100 64 0 0 \<le> unat w \<and> unat w \<le> quad 100 127 255 255"
  "in_subnet (octets 127 0 0 0) 8 w \<longleftrightarrow> quad 127 0 0 0 \<le> unat w \<and> unat w \<le> quad 127 255 255 255"
  "in_subnet (octets 169 254 0 0) 16 w \<longleftrightarrow> quad 169 254 0 0 \<le> unat w \<and> unat w \<le> quad 169 254 255 255"
  "in_subnet (octets 172 16 0 0) 12 w \<longleftrightarrow> quad 172 16 0 0 \<le> unat w \<and> unat w \<le> quad 172 31 255 255"
  "in_subnet (octets 192 168 0 0) 16 w \<longleftrightarrow> quad 192 168 0 0 \<le> unat w \<and> unat w \<le> quad 192 168 255 255"
  "in_subnet (octets 198 18 0 0) 15 w \<longleftrightarrow> quad 198 18 0 0 \<le> unat w \<and> unat w \<le> quad 198 19 255 255"
  "in_subnet (octets 224 0 0 0) 4 w \<longleftrightarrow> quad 224 0 0 0 \<le> unat w \<and> unat w \<le> quad 239 255 255 255"
  "in_subnet (octets 240 0 0 0) 4 w \<longleftrightarrow> quad 240 0 0 0 \<le> unat w \<and> unat w \<le> quad 255 255 255 255"
  "in_subnet (octets 255 255 255 255) 32 w \<longleftrightarrow> quad 255 255 255 255 \<le> unat w \<and> unat w \<le> quad 255 255 255 255"
  by (rule in_subnet_quad; simp add: quad_def)+

lemma blocked_v4_range:
  "in_list blocked_v4 w \<longleftrightarrow> list_ex (\<lambda>(low, high). low \<le> unat w \<and> unat w \<le> high) private_ranges"
proof -
  have "quad 224 0 0 0 \<le> n \<and> n \<le> quad 239 255 255 255 \<or> quad 240 0 0 0 \<le> n \<and> n \<le> quad 255 255 255 255 \<or>
      quad 255 255 255 255 \<le> n \<and> n \<le> quad 255 255 255 255 \<longleftrightarrow> quad 224 0 0 0 \<le> n \<and> n \<le> quad 255 255 255 255" for n
    by (simp add: quad_def) presburger
  then show ?thesis
    unfolding in_list_def blocked_v4_def private_ranges_def list_ex_Cons_iff list_ex_Nil_iff prod.case blocked_v4_subnets by blast
qed


text \<open>The IPv6 address that maps an IPv4 one.\<close>

definition mapped :: "32 word \<Rightarrow> 128 word" where
  "mapped w = 0xffff00000000 + ucast w"

lemma unat_mapped: "unat (mapped w) = 0xffff00000000 + unat w"
proof -
  have w: "unat w < 2 ^ 32" using unsigned_less [of w] by simp
  have "unat (ucast w :: 128 word) = unat w" by (simp add: unsigned_ucast_eq take_bit_nat_eq_self w order_less_le_trans [OF w])
  then show ?thesis using w by (simp add: mapped_def unat_word_ariths)
qed

lemma mapped_back: "drop_bit 32 (mapped w) = 0xffff" "ucast (mapped w) = w"
proof -
  have w: "unat w < 2 ^ 32" using unsigned_less [of w] by simp
  have "unat (drop_bit 32 (mapped w)) = unat (mapped w) div 2 ^ 32"
    by (subst unat_drop_bit_eq) (rule drop_bit_eq_div)
  also have "\<dots> = 0xffff" using w by (simp add: unat_mapped)
  finally show "drop_bit 32 (mapped w) = 0xffff" by (simp add: word_unat_eq_iff del: drop_bit_eq_div)
  have "unat (ucast (mapped w) :: 32 word) = unat (mapped w) mod 2 ^ 32" by (simp add: unsigned_ucast_eq take_bit_eq_mod)
  also have "\<dots> = (65535 * 2 ^ 32 + unat w) mod 2 ^ 32" by (simp add: unat_mapped)
  also have "\<dots> = unat w" using w by (simp only: mod_mult_self3 mod_less)
  finally show "ucast (mapped w) = w" by (simp add: word_unat_eq_iff)
qed

lemma mapped_not_v6: "\<not> in_list blocked_v6 (mapped w)"
proof -
  have w: "unat w < 2 ^ 32" using unsigned_less [of w] by simp
  have "\<not> in_subnet base len (mapped w)" if "(base, len) \<in> set blocked_v6" for base len
    using that w unat_mapped [of w]
    by (auto simp: blocked_v6_def groups_def in_subnet_range unat_of_nat)
  then show ?thesis by (auto simp: in_list_def list_ex_iff)
qed

text \<open>
  C37. An IPv4 address is blocked exactly when it lies in one of the private, loopback, link-local, shared,
  benchmark, multicast and reserved ranges, and the IPv6 address that maps it is blocked with it.
\<close>

theorem blocked_addresses_exact:
  "blocked_check (V4 w) = list_ex (\<lambda>(low, high). low \<le> unat w \<and> unat w \<le> high) private_ranges \<and>
   blocked_check (V6 (mapped w)) = blocked_check (V4 w)"
  by (simp add: blocked_check_def blocked_v4_range mapped_back mapped_not_v6)

section \<open>Where a request may connect to\<close>

lemma validateIpAddress_unblocked: "validateIpAddress pf h label verb = None \<Longrightarrow> \<not> blocked_text pf h"
  by (auto simp: validateIpAddress_def blocked_text_def Let_def split: option.splits ip.splits if_splits)

lemma first_error_None: "first_error f xs = None \<Longrightarrow> x \<in> set xs \<Longrightarrow> f x = None"
proof -
  assume "first_error f xs = None" "x \<in> set xs"
  then have "List.map_filter f xs = []" by (simp add: first_error_def split: list.splits)
  then have "filter (\<lambda>x. f x \<noteq> None) xs = []" by (simp add: List.map_filter_def)
  then show ?thesis using \<open>x \<in> set xs\<close> by (auto simp: filter_empty_conv)
qed

lemma resolved_unblocked:
  assumes "resolveOutboundUrl pf resolver raw opts = Inr tg"
  shows "list_all (\<lambda>(t, family). \<not> blocked_text pf t) (tg_addresses tg) \<and> pf_url pf raw = Some (tg_url tg) \<and>
    pu_protocol (tg_url tg) \<in> set (go_protocols opts) \<and> tg_hostname tg = normalizeHostname (pu_hostname (tg_url tg))"
proof -
  obtain url where url: "validateOutboundUrl pf raw opts = Inr url"
    using assms by (auto simp: resolveOutboundUrl_def split: sum.splits)
  let ?h = "normalizeHostname (pu_hostname url)"
  have ok: "pf_url pf raw = Some url" "pu_protocol url \<in> set (go_protocols opts)" "\<not> blocked_text pf ?h"
    using url validateIpAddress_unblocked
    by (auto simp: validateOutboundUrl_def Let_def split: option.splits if_splits)
  show ?thesis
  proof (cases "pf_ip pf ?h")
    case (Some a)
    then show ?thesis using assms url ok by (auto simp: resolveOutboundUrl_def Let_def)
  next
    case None
    obtain found where found: "resolver ?h = Inr found"
      using assms url None by (auto simp: resolveOutboundUrl_def Let_def split: sum.splits)
    let ?as = "map (\<lambda>(t, family). (normalizeHostname t, family)) found"
    have checked: "first_error (\<lambda>(t, family). validateIpAddress pf t (go_label opts) ''resolves to'') ?as = None"
      and tg: "tg = \<lparr>tg_url = url, tg_hostname = ?h, tg_addresses = ?as\<rparr>"
      using assms url None found by (auto simp: resolveOutboundUrl_def Let_def split: if_splits option.splits)
    have "list_all (\<lambda>(t, family). \<not> blocked_text pf t) ?as"
      using first_error_None [OF checked] validateIpAddress_unblocked by (fastforce simp: list_all_iff)
    then show ?thesis using ok tg by simp
  qed
qed

text \<open>
  C30. Whatever the resolver answers later, a guarded request only connects to addresses that were checked
  when it was admitted, none of them blocked, for the host of its URL and over an allowed protocol.
\<close>

theorem pinned_requests_safe:
  assumes "resolveOutboundUrl pf resolver raw opts = Inr tg"
    and "pinned_lookup tg (go_label opts) h family all = Inr found"
  shows "list_all (\<lambda>a. a \<in> set (tg_addresses tg) \<and> \<not> blocked_text pf (fst a)) found \<and> found \<noteq> [] \<and>
    normalizeHostname h = normalizeHostname (pu_hostname (tg_url tg)) \<and>
    pf_url pf raw = Some (tg_url tg) \<and> pu_protocol (tg_url tg) \<in> set (go_protocols opts)"
proof -
  note tg = resolved_unblocked [OF assms(1)]
  let ?sel = "selectPinnedAddresses (tg_addresses tg) (normalizeLookupFamily family)"
  have "set ?sel \<subseteq> set (tg_addresses tg)" by (auto simp: selectPinnedAddresses_def)
  moreover have "?sel \<noteq> []" "set found \<subseteq> set ?sel" "found \<noteq> []" "normalizeHostname h = tg_hostname tg"
    using assms(2) by (auto simp: pinned_lookup_def Let_def split: if_splits)
  ultimately show ?thesis using tg by (fastforce simp: list_all_iff)
qed

text \<open>A platform that knows one URL and the addresses of its host.\<close>

definition example_platform :: platform where
  "example_platform =
     \<lparr>pf_url = (\<lambda>raw. if raw = ''https://example.org/hook''
        then Some \<lparr>pu_protocol = ''https:'', pu_hostname = ''example.org'', pu_origin = ''https://example.org'', pu_text = raw\<rparr>
        else None),
      pf_ip = (\<lambda>t. if t = ''93.184.216.34'' then Some (V4 0x5db8d822)
        else if t = ''10.1.2.3'' then Some (V4 0x0a010203) else None)\<rparr>"

definition https_only :: guard_options where
  "https_only = \<lparr>go_protocols = [''https:''], go_label = ''Webhook URL''\<rparr>"

theorem pinned_requests_safe_witness:
  "(case resolveOutboundUrl example_platform (\<lambda>h. Inr [(''93.184.216.34'', 4)]) ''https://example.org/hook'' https_only of
      Inl e \<Rightarrow> False
    | Inr tg \<Rightarrow> pinned_lookup tg ''Webhook URL'' ''EXAMPLE.org'' (Number 0) True = Inr [(''93.184.216.34'', 4)] \<and>
        list_all (\<lambda>a. \<not> blocked_text example_platform (fst a)) [(''93.184.216.34'', 4)]) \<and>
   resolveOutboundUrl example_platform (\<lambda>h. Inr [(''10.1.2.3'', 4)]) ''https://example.org/hook'' https_only =
     Inl ''Webhook URL resolves to a private/loopback/metadata address: 10.1.2.3''"
proof -
  let ?tg = "\<lparr>tg_url = \<lparr>pu_protocol = ''https:'', pu_hostname = ''example.org'', pu_origin = ''https://example.org'',
      pu_text = ''https://example.org/hook''\<rparr>, tg_hostname = ''example.org'', tg_addresses = [(''93.184.216.34'', 4)]\<rparr>"
  have hosts: "normalizeHostname ''example.org'' = ''example.org''" "normalizeHostname ''EXAMPLE.org'' = ''example.org''"
    "normalizeHostname ''93.184.216.34'' = ''93.184.216.34''" "normalizeHostname ''10.1.2.3'' = ''10.1.2.3''"
    "validateHostname ''example.org'' ''Webhook URL'' = None"
    by code_simp+
  have ips: "\<not> blocked_check (V4 0x5db8d822)" "blocked_check (V4 0x0a010203)"
    by (simp_all add: blocked_check_def blocked_v4_range private_ranges_def quad_def)
  note resolve = resolveOutboundUrl_def validateOutboundUrl_def validateIpAddress_def example_platform_def https_only_def
    Let_def first_error_def List.map_filter_def
  have tg: "resolveOutboundUrl example_platform (\<lambda>h. Inr [(''93.184.216.34'', 4)]) ''https://example.org/hook'' https_only = Inr ?tg"
    by (simp add: resolve hosts ips)
  have look: "pinned_lookup ?tg (go_label https_only) ''EXAMPLE.org'' (Number 0) True = Inr [(''93.184.216.34'', 4)]"
    by (simp add: pinned_lookup_def hosts selectPinnedAddresses_def normalizeLookupFamily_def)
  have "list_all (\<lambda>a. \<not> blocked_text example_platform (fst a)) [(''93.184.216.34'', 4 :: nat)]"
    using pinned_requests_safe [OF tg look] by simp
  moreover have "resolveOutboundUrl example_platform (\<lambda>h. Inr [(''10.1.2.3'', 4)]) ''https://example.org/hook'' https_only =
     Inl ''Webhook URL resolves to a private/loopback/metadata address: 10.1.2.3''" by (simp add: resolve hosts ips)
  ultimately show ?thesis using tg look by (simp add: https_only_def)
qed

end
