(* ===== verification/EventBus.thy ===== *)
theory EventBus
  imports Prelude JsNumber JsString Json "HOL-Library.Multiset"
begin

text \<open>
  The event bus of src/services/event-bus.ts: the log of events, which keeps the newest, its pages, the
  handlers, and the replay of an event. Handlers are numbered. An ISO text of a time stands for its
  milliseconds; what \<open>Date.parse\<close> makes of a given text is given.
\<close>

section \<open>Events\<close>

record bus_event =
  be_id :: string
  be_type :: string
  be_payload :: json
  be_timestamp :: int
  be_source :: string
  be_correlation :: string

text \<open>A time: missing, a Date or number, or a text with what it parses to.\<close>

datatype time_input = No_time | Millis int | Time_text string "int option"

record publish_input =
  pb_id :: "string option"
  pb_type :: string
  pb_payload :: "json option"
  pb_timestamp :: time_input
  pb_source :: "string option"
  pb_correlation :: "string option"

text \<open>
  A type is mapped to the set of its handlers. The sets are objects that the functions which end a
  subscription keep: they are named by their place in the list of all sets.
\<close>

record event_bus =
  eb_log :: "bus_event list"
  eb_sets :: "nat list list"
  eb_subscribers :: "(string \<times> nat) list"
  eb_enabled :: bool
  eb_max :: nat

definition DEFAULT_MAX_LOG_ENTRIES :: nat where
  "DEFAULT_MAX_LOG_ENTRIES = 1000"

definition MAX_QUERY_LIMIT :: int where
  "MAX_QUERY_LIMIT = 500"

definition new_bus :: "bus_event list \<Rightarrow> bool option \<Rightarrow> nat option \<Rightarrow> event_bus" where
  "new_bus rows enabled entries =
     \<lparr>eb_log = rows, eb_sets = [], eb_subscribers = [], eb_enabled = nullish enabled True, eb_max = nullish entries DEFAULT_MAX_LOG_ENTRIES\<rparr>"

definition toTimestampMs :: "int \<Rightarrow> time_input \<Rightarrow> msg + int" where
  "toTimestampMs now t =
     (case t of
        No_time \<Rightarrow> Inr now
      | Millis n \<Rightarrow> Inr n
      | Time_text s parsed \<Rightarrow> (case parsed of None \<Rightarrow> Inl [S (''Invalid timestamp: '' @ s)] | Some n \<Rightarrow> Inr n))"

section \<open>Handlers\<close>

definition handlers_of :: "event_bus \<Rightarrow> string \<Rightarrow> nat list" where
  "handlers_of b type = (case map_of (eb_subscribers b) type of None \<Rightarrow> [] | Some s \<Rightarrow> eb_sets b ! s)"

text \<open>A subscription is ended with the set it was entered into.\<close>

definition subscribe :: "string \<Rightarrow> nat \<Rightarrow> event_bus \<Rightarrow> nat \<times> event_bus" where
  "subscribe type h b =
     (case map_of (eb_subscribers b) type of
        None \<Rightarrow> (length (eb_sets b),
          b\<lparr>eb_sets := eb_sets b @ [[h]], eb_subscribers := eb_subscribers b @ [(type, length (eb_sets b))]\<rparr>)
      | Some s \<Rightarrow> (s, b\<lparr>eb_sets := (eb_sets b)[s := (let hs = eb_sets b ! s in if h \<in> set hs then hs else hs @ [h])]\<rparr>))"

definition unsubscribe :: "string \<Rightarrow> nat \<Rightarrow> nat \<Rightarrow> event_bus \<Rightarrow> event_bus" where
  "unsubscribe type s h b =
     (let hs = filter (\<lambda>g. g \<noteq> h) (eb_sets b ! s) in
      b\<lparr>eb_sets := (eb_sets b)[s := hs],
        eb_subscribers := (if hs = [] then filter (\<lambda>(k, v). k \<noteq> type) (eb_subscribers b) else eb_subscribers b)\<rparr>)"

definition clearSubscribers :: "event_bus \<Rightarrow> event_bus" where
  "clearSubscribers b = b\<lparr>eb_subscribers := []\<rparr>"

text \<open>Who is told of an event.\<close>

definition dispatched :: "event_bus \<Rightarrow> string \<Rightarrow> nat list" where
  "dispatched b type = handlers_of b type @ handlers_of b ''*''"

section \<open>The log\<close>

text \<open>Rows are in rowid order; newest first is by time and then by rowid.\<close>

definition newest_events :: "bus_event list \<Rightarrow> bus_event list" where
  "newest_events rows = sort_key (\<lambda>e. - be_timestamp e) (rev rows)"

definition prune :: "event_bus \<Rightarrow> event_bus" where
  "prune b =
     (let kept = set (map be_id (take (eb_max b) (newest_events (eb_log b))))
      in b\<lparr>eb_log := filter (\<lambda>e. be_id e \<in> kept) (eb_log b)\<rparr>)"

text \<open>The result of a publication: an error, or the event and the handlers that will be called with it.\<close>

definition publish ::
  "int \<Rightarrow> string \<Rightarrow> string \<Rightarrow> publish_input \<Rightarrow> event_bus \<Rightarrow> (msg, bus_event \<times> nat list, event_bus) outcome" where
  "publish now fresh fresh_correlation input b =
     (case toTimestampMs now (pb_timestamp input) of
        Inl e \<Rightarrow> throw e b
      | Inr ms \<Rightarrow>
          let event = \<lparr>be_id = nullish (pb_id input) fresh, be_type = pb_type input,
                be_payload = nullish (pb_payload input) (JObj []), be_timestamp = ms,
                be_source = nullish (pb_source input) ''system'',
                be_correlation = nullish (pb_correlation input) fresh_correlation\<rparr>
          in if \<not> eb_enabled b then ret (event, []) b
             else if sql_get be_id (be_id event) (eb_log b) \<noteq> None
             then throw [S ''UNIQUE constraint failed: event_log.id''] b
             else ret (event, dispatched b (be_type event)) (prune (b\<lparr>eb_log := eb_log b @ [event]\<rparr>)))"

definition getEvent :: "event_bus \<Rightarrow> string \<Rightarrow> bus_event option" where
  "getEvent b i = sql_get be_id i (eb_log b)"

definition replay ::
  "int \<Rightarrow> string \<Rightarrow> string \<Rightarrow> event_bus \<Rightarrow> (msg, bus_event \<times> nat list, event_bus) outcome" where
  "replay now fresh i b =
     (case getEvent b i of
        None \<Rightarrow> throw [S ''Event not found''] b
      | Some original \<Rightarrow>
          publish now fresh []
            \<lparr>pb_id = None, pb_type = be_type original, pb_payload = Some (be_payload original), pb_timestamp = No_time,
             pb_source = Some ''event-replay'', pb_correlation = Some (be_correlation original)\<rparr> b)"

section \<open>Pages\<close>

definition clampLimit :: "js_num option \<Rightarrow> int" where
  "clampLimit limit =
     (case limit of
        Some (Num q) \<Rightarrow> if of_int \<lfloor>q\<rfloor> = q \<and> 1 \<le> \<lfloor>q\<rfloor> then min \<lfloor>q\<rfloor> MAX_QUERY_LIMIT else 100
      | _ \<Rightarrow> 100)"

definition clampOffset :: "js_num option \<Rightarrow> int" where
  "clampOffset offset =
     (case offset of Some (Num q) \<Rightarrow> if of_int \<lfloor>q\<rfloor> = q \<and> 0 < q then \<lfloor>q\<rfloor> else 0 | _ \<Rightarrow> 0)"

record event_filters =
  ef_type :: "string option"
  ef_from :: "time_input option"
  ef_to :: "time_input option"
  ef_limit :: "js_num option"
  ef_offset :: "js_num option"

record event_page =
  ep_events :: "bus_event list"
  ep_total :: nat
  ep_limit :: int
  ep_offset :: int

definition bound :: "int \<Rightarrow> time_input option \<Rightarrow> msg + int option" where
  "bound now t =
     (case t of None \<Rightarrow> Inr None
      | Some t \<Rightarrow> (case toTimestampMs now t of Inl e \<Rightarrow> Inl e | Inr ms \<Rightarrow> Inr (Some ms)))"

definition in_bounds :: "string option \<Rightarrow> int option \<Rightarrow> int option \<Rightarrow> bus_event \<Rightarrow> bool" where
  "in_bounds type low high e =
     ((case non_empty type of None \<Rightarrow> True | Some t \<Rightarrow> be_type e = t) \<and>
      (case low of None \<Rightarrow> True | Some ms \<Rightarrow> ms \<le> be_timestamp e) \<and>
      (case high of None \<Rightarrow> True | Some ms \<Rightarrow> be_timestamp e \<le> ms))"

definition listEvents :: "int \<Rightarrow> event_filters \<Rightarrow> event_bus \<Rightarrow> msg + event_page" where
  "listEvents now f b =
     (case bound now (ef_from f) of
        Inl e \<Rightarrow> Inl e
      | Inr low \<Rightarrow>
          (case bound now (ef_to f) of
             Inl e \<Rightarrow> Inl e
           | Inr high \<Rightarrow>
               let found = filter (in_bounds (ef_type f) low high) (eb_log b);
                   limit = clampLimit (ef_limit f); offset = clampOffset (ef_offset f)
               in Inr \<lparr>ep_events = take (nat limit) (drop (nat offset) (newest_events found)),
                       ep_total = length found, ep_limit = limit, ep_offset = offset\<rparr>))"

section \<open>The newest are kept\<close>

definition log_ok :: "event_bus \<Rightarrow> bool" where
  "log_ok b = distinct (map be_id (eb_log b))"

lemma mset_newest [simp]: "mset (newest_events rows) = mset rows"
  by (simp add: newest_events_def)

lemma set_newest [simp]: "set (newest_events rows) = set rows"
  by (simp add: newest_events_def)

lemma distinct_newest: "distinct (map be_id rows) \<Longrightarrow> distinct (map be_id (newest_events rows))"
proof -
  assume "distinct (map be_id rows)"
  moreover have "mset (map be_id (newest_events rows)) = mset (map be_id rows)" by simp
  ultimately show ?thesis using mset_eq_imp_distinct_iff by blast
qed


lemma set_prune:
  assumes "distinct (map be_id rows)"
  shows "set (filter (\<lambda>e. be_id e \<in> set (map be_id (take n (newest_events rows)))) rows) = set (take n (newest_events rows))"
proof -
  have sub: "set (take n (newest_events rows)) \<subseteq> set rows" using set_take_subset [of n "newest_events rows"] by simp
  have inj: "inj_on be_id (set rows)" using assms by (simp add: distinct_map)
  show ?thesis using sub inj by (auto simp: inj_on_def)
qed

lemma newest_split:
  assumes "e \<in> set (take n (newest_events rows))" and "d \<in> set (drop n (newest_events rows))"
  shows "be_timestamp d \<le> be_timestamp e"
proof -
  have "sorted (map (\<lambda>e. - be_timestamp e) (newest_events rows))" by (simp add: newest_events_def)
  then have "sorted (map (\<lambda>e. - be_timestamp e) (take n (newest_events rows)) @ map (\<lambda>e. - be_timestamp e) (drop n (newest_events rows)))"
    by (metis append_take_drop_id map_append)
  then have "- be_timestamp e \<le> - be_timestamp d" using assms by (simp add: sorted_append)
  then show ?thesis by simp
qed


definition small_bus :: event_bus where
  "small_bus = snd (subscribe ''*'' 7 (snd (subscribe ''tool.failed'' 3 (new_bus [] None (Some 2)))))"

definition said :: "string \<Rightarrow> int \<Rightarrow> publish_input" where
  "said type ms =
     \<lparr>pb_id = None, pb_type = type, pb_payload = None, pb_timestamp = Millis ms, pb_source = None, pb_correlation = None\<rparr>"

definition two_said :: event_bus where
  "two_said = snd (publish 1 ''e2'' ''c'' (said ''tool.failed'' 20) (snd (publish 1 ''e1'' ''c'' (said ''tool.executed'' 10) small_bus)))"


section \<open>Subscriptions\<close>

text \<open>Sets in use exist, are not empty and belong to one type.\<close>

definition subscribers_ok :: "event_bus \<Rightarrow> bool" where
  "subscribers_ok b =
     (distinct (map fst (eb_subscribers b)) \<and> distinct (map snd (eb_subscribers b)) \<and>
      list_all (\<lambda>(k, s). s < length (eb_sets b) \<and> eb_sets b ! s \<noteq> []) (eb_subscribers b))"

lemma type_of_set:
  assumes "subscribers_ok b" and "map_of (eb_subscribers b) type = Some s" and "map_of (eb_subscribers b) u = Some s"
  shows "u = type"
proof -
  have "inj_on snd (set (eb_subscribers b))" using assms(1) by (simp add: subscribers_ok_def distinct_map)
  from inj_onD [OF this _ map_of_SomeD [OF assms(3)] map_of_SomeD [OF assms(2)]] show ?thesis by simp
qed

lemma handlers_subscribe:
  assumes "subscribers_ok b"
  shows "set (handlers_of (snd (subscribe type h b)) u) = (if u = type then insert h (set (handlers_of b u)) else set (handlers_of b u))"
proof (cases "map_of (eb_subscribers b) type")
  case None
  have "s < length (eb_sets b)" if "map_of (eb_subscribers b) u = Some s" for s
    using assms map_of_SomeD [OF that] by (auto simp: subscribers_ok_def list_all_iff)
  then show ?thesis using None by (auto simp: subscribe_def handlers_of_def map_add_def nth_append split: option.split)
next
  case (Some s)
  have s: "s < length (eb_sets b)" using assms map_of_SomeD [OF Some] by (auto simp: subscribers_ok_def list_all_iff)
  show ?thesis
  proof (cases "map_of (eb_subscribers b) u = Some s")
    case True
    then have "u = type" using type_of_set [OF assms Some] by simp
    then show ?thesis using Some s by (simp add: subscribe_def handlers_of_def Let_def insert_absorb)
  next
    case False
    then have "u \<noteq> type" "handlers_of (snd (subscribe type h b)) u = handlers_of b u"
      using Some by (auto simp: subscribe_def handlers_of_def split: option.split)
    then show ?thesis by simp
  qed
qed

lemma subscribers_ok_subscribe:
  assumes "subscribers_ok b"
  shows "subscribers_ok (snd (subscribe type h b))"
proof (cases "map_of (eb_subscribers b) type")
  case None
  then have "type \<notin> set (map fst (eb_subscribers b))" by (simp add: map_of_eq_None_iff)
  then show ?thesis using assms None by (auto simp: subscribe_def subscribers_ok_def list_all_iff nth_append)
next
  case (Some s)
  have "(eb_sets b)[s := xs] ! j \<noteq> []" if "xs \<noteq> []" "eb_sets b ! j \<noteq> []" for xs j
    using that by (cases "s < length (eb_sets b)"; cases "j = s") (simp_all add: list_update_beyond)
  then show ?thesis using assms Some by (auto simp: subscribe_def subscribers_ok_def list_all_iff Let_def)
qed

text \<open>As long as the set of a subscription is the one of its type, ending it removes this handler only.\<close>

lemma handlers_unsubscribe:
  assumes "subscribers_ok b" and "map_of (eb_subscribers b) type = Some s"
  shows "handlers_of (unsubscribe type s h b) u = (if u = type then filter (\<lambda>g. g \<noteq> h) (handlers_of b u) else handlers_of b u)"
proof -
  have s: "s < length (eb_sets b)" using assms(1) map_of_SomeD [OF assms(2)] by (auto simp: subscribers_ok_def list_all_iff)
  note one = type_of_set [OF assms]
  have gone: "map_of (filter (\<lambda>(k, v). k \<noteq> type) xs) v = (if v = type then None else map_of xs v)"
    for xs :: "(string \<times> nat) list" and v
    by (induction xs) auto
  show ?thesis
  proof (cases "map_of (eb_subscribers b) u = Some s")
    case True
    then have "u = type" using one by simp
    then show ?thesis using s assms(2) by (simp add: unsubscribe_def handlers_of_def Let_def gone)
  next
    case False
    then have "u \<noteq> type" using assms(2) by auto
    moreover from this have "map_of (eb_subscribers (unsubscribe type s h b)) u = map_of (eb_subscribers b) u"
      by (simp add: unsubscribe_def Let_def gone)
    ultimately show ?thesis using False by (auto simp: handlers_of_def unsubscribe_def Let_def split: option.split)
  qed
qed

text \<open>
  The function that ends a subscription, called once more after the type has a new set, removes the new
  set with the handler of another subscriber.
\<close>

lemma ended_twice_drops_another:
  "(let (s, b) = subscribe ''tool.failed'' 3 (new_bus [] None None);
        b = snd (subscribe ''tool.failed'' 4 (unsubscribe ''tool.failed'' s 3 b))
    in (handlers_of b ''tool.failed'', handlers_of (unsubscribe ''tool.failed'' s 3 b) ''tool.failed'')) = ([4], [])"
  by code_simp

end
