(* ===== verification/Webhooks.thy ===== *)
theory Webhooks
  imports OutboundGuard EventBus
begin

text \<open>
  Webhooks: their registration in src/services/webhook-dispatcher.ts, the signatures of incoming requests
  with the receipts that refuse a replay, and the redaction of secrets in src/services/alerting.ts.

  The keyed digest of a message is given; a secret is stored encrypted and read back as it was.
\<close>

section \<open>Redaction\<close>

definition SECRET_FIELDS :: "string list" where
  "SECRET_FIELDS = [''apikey'', ''authorization'', ''token'', ''mnemonic'', ''secret'', ''password'']"

definition redacted :: json where
  "redacted = JStr ''[redacted]''"

definition secret_key :: "string \<Rightarrow> bool" where
  "secret_key k = (to_lower k \<in> set SECRET_FIELDS)"

text \<open>Members that are objects are redacted in turn, anything else is kept, lists included.\<close>

fun redactSecrets :: "json \<Rightarrow> json" where
  "redactSecrets (JObj kvs) = JObj (map (\<lambda>(k, v). (k, if secret_key k then redacted else redactSecrets v)) kvs)"
| "redactSecrets v = v"

section \<open>Registrations\<close>

definition DEFAULT_MAX_RETRIES :: int where "DEFAULT_MAX_RETRIES = 5"

definition MAX_RETRIES :: int where "MAX_RETRIES = 10"

definition WEBHOOK_URL_GUARD :: guard_options where
  "WEBHOOK_URL_GUARD = \<lparr>go_protocols = [''https:''], go_label = ''Webhook URL''\<rparr>"

record webhook =
  wh_id :: string
  wh_url :: string
  wh_events :: "string list"
  wh_secret :: string
  wh_active :: bool
  wh_maxRetries :: int
  wh_createdAt :: int
  wh_updatedAt :: int

definition clampMaxRetries :: "js_num option \<Rightarrow> int \<Rightarrow> msg + int" where
  "clampMaxRetries value otherwise =
     (case value of
        None \<Rightarrow> Inr otherwise
      | Some (Num q) \<Rightarrow>
          if of_int \<lfloor>q\<rfloor> = q \<and> 1 \<le> \<lfloor>q\<rfloor> \<and> \<lfloor>q\<rfloor> \<le> MAX_RETRIES then Inr \<lfloor>q\<rfloor>
          else Inl [S ''maxRetries must be an integer between 1 and 10'']
      | _ \<Rightarrow> Inl [S ''maxRetries must be an integer between 1 and 10''])"

text \<open>An event type that is not a string counts as empty.\<close>

definition normalizeEvents :: "string option list \<Rightarrow> msg + string list" where
  "normalizeEvents events =
     (let normalized = clean_strings (map (\<lambda>e. nullish e []) events) in
      if normalized = [] then Inl [S ''at least one event type is required'']
      else if 50 < length normalized then Inl [S ''maximum 50 event types are allowed'']
      else if list_ex (\<lambda>e. 120 < length e) normalized then Inl [S ''event types must be 120 characters or fewer'']
      else Inr normalized)"

definition matchesEvent :: "webhook \<Rightarrow> string \<Rightarrow> bool" where
  "matchesEvent w type = (''*'' \<in> set (wh_events w) \<or> type \<in> set (wh_events w))"

record webhook_input =
  hi_url :: string
  hi_events :: "string option list"
  hi_secret :: "string option"
  hi_active :: "bool option"
  hi_maxRetries :: "js_num option"

definition createWebhook ::
  "platform \<Rightarrow> int \<Rightarrow> string \<Rightarrow> string \<Rightarrow> int \<Rightarrow> webhook_input \<Rightarrow> webhook list \<Rightarrow> (msg, webhook, webhook list) outcome" where
  "createWebhook pf default_retries fresh random now input rows =
     (case validateOutboundUrl pf (hi_url input) WEBHOOK_URL_GUARD of
        Inl e \<Rightarrow> throw [S e] rows
      | Inr u \<Rightarrow>
          (case normalizeEvents (hi_events input) of
             Inl e \<Rightarrow> throw e rows
           | Inr events \<Rightarrow>
               (case clampMaxRetries (hi_maxRetries input) default_retries of
                  Inl e \<Rightarrow> throw e rows
                | Inr retries \<Rightarrow>
                    let w = \<lparr>wh_id = fresh, wh_url = hi_url input, wh_events = events,
                          wh_secret = nullish (non_empty (hi_secret input)) random,
                          wh_active = (hi_active input \<noteq> Some False), wh_maxRetries = retries,
                          wh_createdAt = now, wh_updatedAt = now\<rparr>
                    in if sql_get wh_id fresh rows \<noteq> None then throw [S ''UNIQUE constraint failed: webhooks.id''] rows
                       else ret w (rows @ [w]))))"

definition listWebhooks :: "webhook list \<Rightarrow> webhook list" where
  "listWebhooks rows = order_desc wh_createdAt rows"

definition getWebhook :: "string \<Rightarrow> webhook list \<Rightarrow> webhook option" where
  "getWebhook i rows = sql_get wh_id i rows"

record webhook_changes =
  hc_url :: "string option"
  hc_events :: "string option list option"
  hc_secret :: "string option"
  hc_active :: "bool option"
  hc_maxRetries :: "js_num option"

definition updateWebhook ::
  "platform \<Rightarrow> string \<Rightarrow> int \<Rightarrow> webhook_changes \<Rightarrow> webhook list \<Rightarrow> (msg, webhook option, webhook list) outcome" where
  "updateWebhook pf i now input rows =
     (case getWebhook i rows of
        None \<Rightarrow> ret None rows
      | Some existing \<Rightarrow>
          let url = nullish (hc_url input) (wh_url existing) in
          (case validateOutboundUrl pf url WEBHOOK_URL_GUARD of
             Inl e \<Rightarrow> throw [S e] rows
           | Inr u \<Rightarrow>
               (case (case hc_events input of Some es \<Rightarrow> normalizeEvents es | None \<Rightarrow> Inr (wh_events existing)) of
                  Inl e \<Rightarrow> throw e rows
                | Inr events \<Rightarrow>
                    (case clampMaxRetries (hc_maxRetries input) (wh_maxRetries existing) of
                       Inl e \<Rightarrow> throw e rows
                     | Inr retries \<Rightarrow>
                         let rows' = sql_update wh_id i (\<lambda>w. w\<lparr>wh_url := url, wh_events := events,
                               wh_secret := nullish (non_empty (hc_secret input)) (wh_secret existing),
                               wh_active := nullish (hc_active input) (wh_active existing),
                               wh_maxRetries := retries, wh_updatedAt := now\<rparr>) rows
                         in ret (getWebhook i rows') rows'))))"

section \<open>Incoming requests\<close>

record receipt =
  rc_webhook :: string
  rc_signature :: string
  rc_expires :: int

type_synonym keyed_digest = "string \<Rightarrow> string \<Rightarrow> string"

definition signedHeader :: "keyed_digest \<Rightarrow> string \<Rightarrow> string \<Rightarrow> string" where
  "signedHeader hmac secret payload = ''sha256='' @ hmac secret payload"

definition timestamp_text :: "string \<Rightarrow> bool" where
  "timestamp_text t = (1 \<le> length t \<and> length t \<le> 12 \<and> list_all (radix_digit 10) t)"

definition seconds_of :: "string \<Rightarrow> int" where
  "seconds_of t = int (digits_value 10 t)"

definition signed_message :: "string \<Rightarrow> string \<Rightarrow> string" where
  "signed_message t body = ''inbound:'' @ t @ ''.'' @ body"

text \<open>Receipts that have expired are removed; the new one is not inserted when it is there.\<close>

definition claim_receipt :: "int \<Rightarrow> receipt \<Rightarrow> receipt list \<Rightarrow> bool \<times> receipt list" where
  "claim_receipt now r rows =
     (let kept = sql_delete (\<lambda>c. rc_expires c < now) rows in
      if list_ex (\<lambda>c. rc_webhook c = rc_webhook r \<and> rc_signature c = rc_signature r) kept then (False, kept)
      else (True, kept @ [r]))"

definition verifyIncomingSignature ::
  "keyed_digest \<Rightarrow> int \<Rightarrow> string \<Rightarrow> string \<Rightarrow> string option \<Rightarrow> string option \<Rightarrow> webhook list \<Rightarrow> receipt list \<Rightarrow>
   (string, unit, receipt list) outcome" where
  "verifyIncomingSignature hmac now i body signature timestamp webhooks rows =
     (case getWebhook i webhooks of
        None \<Rightarrow> throw ''Webhook not found'' rows
      | Some w \<Rightarrow>
          if \<not> wh_active w then throw ''Webhook not found'' rows
          else (case non_empty signature of
             None \<Rightarrow> throw ''Missing X-Webhook-Signature header'' rows
           | Some sg \<Rightarrow>
               (case non_empty timestamp of
                  None \<Rightarrow> throw ''Invalid or stale webhook signature timestamp'' rows
                | Some t \<Rightarrow>
                    if \<not> timestamp_text t \<or> 300000 < \<bar>now - seconds_of t * 1000\<bar>
                    then throw ''Invalid or stale webhook signature timestamp'' rows
                    else
                      let expected = signedHeader hmac (wh_secret w) (signed_message t body) in
                      if sg \<noteq> expected then throw ''Invalid webhook signature'' rows
                      else
                        let (claimed, rows') = claim_receipt now
                              \<lparr>rc_webhook = i, rc_signature = expected, rc_expires = seconds_of t * 1000 + 300000\<rparr> rows
                        in if claimed then ret () rows' else throw ''Replayed webhook signature'' rows')))"


section \<open>Secrets do not leave\<close>

text \<open>The value at a path of members, without lists on the way.\<close>

fun member_at :: "json \<Rightarrow> string list \<Rightarrow> json option" where
  "member_at v [] = Some v"
| "member_at (JObj kvs) (k # ks) = (case map_of kvs k of None \<Rightarrow> None | Some v \<Rightarrow> member_at v ks)"
| "member_at _ (k # ks) = None"

lemma map_of_redact:
  "map_of (map (\<lambda>(k, v). (k, if secret_key k then redacted else redactSecrets v)) kvs) k =
     map_option (\<lambda>v. if secret_key k then redacted else redactSecrets v) (map_of kvs k)"
  by (induction kvs) auto

lemma member_at_redacted: "member_at redacted ks = (if ks = [] then Some redacted else None)"
  by (cases ks) (simp_all add: redacted_def)

text \<open>
  After redaction every member with a secret name, at any depth of objects, is the text [redacted], and
  a member that no secret name leads to and that is not an object is what it was.
\<close>

theorem secrets_redacted:
  "member_at (redactSecrets (JObj kvs)) ks =
     (if list_ex secret_key (butlast ks) then None
      else if ks \<noteq> [] \<and> secret_key (List.last ks) then map_option (\<lambda>v. redacted) (member_at (JObj kvs) ks)
      else map_option redactSecrets (member_at (JObj kvs) ks))"
proof (induction ks arbitrary: kvs)
  case (Cons k ks)
  show ?case
  proof (cases "map_of kvs k")
    case None
    then show ?thesis by (simp add: map_of_redact)
  next
    case (Some v)
    show ?thesis
    proof (cases "secret_key k")
      case True
      then show ?thesis using Some by (cases ks) (auto simp: map_of_redact member_at_redacted)
    next
      case False
      show ?thesis
      proof (cases v)
        case (JObj inner)
        then show ?thesis using Some False Cons.IH [of inner] by (cases ks) (simp_all add: map_of_redact)
      qed (use Some False in \<open>cases ks; simp add: map_of_redact\<close>)+
    qed
  qed
qed simp

section \<open>Requests are accepted once\<close>

record incoming =
  in_now :: int
  in_webhooks :: "webhook list"
  in_id :: string
  in_body :: string
  in_signature :: "string option"
  in_timestamp :: "string option"

definition incoming_step ::
  "keyed_digest \<Rightarrow> incoming \<Rightarrow> receipt list \<times> (string \<times> string) list \<Rightarrow> receipt list \<times> (string \<times> string) list" where
  "incoming_step hmac r s =
     (case verifyIncomingSignature hmac (in_now r) (in_id r) (in_body r) (in_signature r) (in_timestamp r) (in_webhooks r)
             (fst s) of
        (Inr u, rows) \<Rightarrow> (rows, snd s @ [(in_id r, nullish (in_signature r) [])])
      | (Inl e, rows) \<Rightarrow> (rows, snd s))"

lemma verify_cases:
  assumes "verifyIncomingSignature hmac now i body signature timestamp webhooks rows = (res, rows')"
  obtains (refused) e where "res = Inl e" "rows' = rows"
  | (replayed) e where "res = Inl e" "rows' = sql_delete (\<lambda>c. rc_expires c < now) rows"
  | (accepted) w t where "res = Inr ()" "getWebhook i webhooks = Some w" "wh_active w" "timestamp = Some t" "timestamp_text t"
      "\<bar>now - seconds_of t * 1000\<bar> \<le> 300000"
      "signature = Some (signedHeader hmac (wh_secret w) (signed_message t body))"
      "rows' = sql_delete (\<lambda>c. rc_expires c < now) rows @ [\<lparr>rc_webhook = i,
         rc_signature = signedHeader hmac (wh_secret w) (signed_message t body), rc_expires = seconds_of t * 1000 + 300000\<rparr>]"
      "list_all (\<lambda>c. (rc_webhook c, rc_signature c) \<noteq> (i, signedHeader hmac (wh_secret w) (signed_message t body)))
         (sql_delete (\<lambda>c. rc_expires c < now) rows)"
  using assms
  by (auto simp: verifyIncomingSignature_def claim_receipt_def throw_def ret_def Let_def non_empty_def list_ex_iff list_all_iff
      split: option.splits if_splits)

text \<open>The messages that the requests ask to be signed, with the secrets of the webhooks there are at the time.\<close>

definition signed_pairs :: "incoming list \<Rightarrow> (string \<times> string) list" where
  "signed_pairs rs =
     concat (map (\<lambda>r. case in_timestamp r of None \<Rightarrow> []
       | Some t \<Rightarrow> map (\<lambda>w. (wh_secret w, signed_message t (in_body r))) (in_webhooks r)) rs)"

text \<open>Digests of different messages among these differ.\<close>

definition collision_free :: "keyed_digest \<Rightarrow> (string \<times> string) list \<Rightarrow> bool" where
  "collision_free hmac ps = list_all (\<lambda>(s, m). list_all (\<lambda>(s', m'). hmac s m = hmac s' m' \<longrightarrow> m = m') ps) ps"

lemma collision_freeD:
  "collision_free hmac ps \<Longrightarrow> (s, m) \<in> set ps \<Longrightarrow> (s', m') \<in> set ps \<Longrightarrow> hmac s m = hmac s' m' \<Longrightarrow> m = m'"
  by (fastforce simp: collision_free_def list_all_iff)

lemma signed_pairs_Cons: "set (signed_pairs (r # rs)) = set (signed_pairs [r]) \<union> set (signed_pairs rs)"
  by (simp add: signed_pairs_def)

lemma signed_pair_of:
  "getWebhook i (in_webhooks r) = Some w \<Longrightarrow> in_timestamp r = Some t \<Longrightarrow>
   (wh_secret w, signed_message t (in_body r)) \<in> set (signed_pairs [r])"
  by (auto simp: getWebhook_def signed_pairs_def dest!: sql_get_SomeD)

lemma timestamp_no_dot: "timestamp_text t \<Longrightarrow> CHR ''.'' \<notin> set t"
  by (auto simp: timestamp_text_def list_all_iff radix_digit_def digit_value_def code_def)

lemma signed_message_timestamp:
  assumes "signed_message t body = signed_message t' body'" and "timestamp_text t" "timestamp_text t'"
  shows "t = t'"
proof -
  have "t @ ''.'' @ body = t' @ ''.'' @ body'" using assms(1) by (simp add: signed_message_def)
  then have "split_on (CHR ''.'') (t @ ''.'' @ body) ! 0 = split_on (CHR ''.'') (t' @ ''.'' @ body') ! 0" by simp
  then show ?thesis using assms(2,3) by (simp add: split_on_first timestamp_no_dot)
qed

text \<open>Every accepted signature has a receipt, or its time is over.\<close>

definition receipts_ok :: "keyed_digest \<Rightarrow> (string \<times> string) list \<Rightarrow> int \<Rightarrow> receipt list \<times> (string \<times> string) list \<Rightarrow> bool" where
  "receipts_ok hmac ps now s =
     (distinct (snd s) \<and>
      (\<forall>(i, sg)\<in>set (snd s). \<exists>secret t body. timestamp_text t \<and>
         (secret, signed_message t body) \<in> set ps \<and> sg = signedHeader hmac secret (signed_message t body) \<and>
         ((\<exists>c\<in>set (fst s). rc_webhook c = i \<and> rc_signature c = sg \<and> rc_expires c = seconds_of t * 1000 + 300000) \<or>
          seconds_of t * 1000 + 300000 < now)))"

lemma receipts_ok_later: "receipts_ok hmac ps now s \<Longrightarrow> now \<le> now' \<Longrightarrow> receipts_ok hmac ps now' s"
  unfolding receipts_ok_def by fastforce

lemma receipts_ok_purge:
  assumes "receipts_ok hmac ps now (rows, done_before)"
  shows "receipts_ok hmac ps now (sql_delete (\<lambda>c. rc_expires c < now) rows, done_before)"
  using assms unfolding receipts_ok_def set_sql_delete by (fastforce simp: set_sql_delete)


lemma receipts_ok_step:
  assumes free: "collision_free hmac ps" and mine: "set (signed_pairs [r]) \<subseteq> set ps" and ok: "receipts_ok hmac ps (in_now r) s"
  shows "receipts_ok hmac ps (in_now r) (incoming_step hmac r s)"
proof -
  let ?now = "in_now r"
  obtain rows accepted where s: "s = (rows, accepted)" by fastforce
  obtain res rows' where v: "verifyIncomingSignature hmac ?now (in_id r) (in_body r) (in_signature r) (in_timestamp r)
      (in_webhooks r) rows = (res, rows')" by fastforce
  have purged: "receipts_ok hmac ps ?now (sql_delete (\<lambda>c. rc_expires c < ?now) rows, accepted)"
    using receipts_ok_purge ok s by blast
  from v show ?thesis
  proof (cases rule: verify_cases)
    case (refused e)
    then show ?thesis using ok s v by (simp add: incoming_step_def)
  next
    case (replayed e)
    then show ?thesis using purged s v by (simp add: incoming_step_def)
  next
    case (accepted w t)
    let ?sg = "signedHeader hmac (wh_secret w) (signed_message t (in_body r))"
    have pair: "(wh_secret w, signed_message t (in_body r)) \<in> set ps" using signed_pair_of mine accepted(2,4) by blast
    have "(in_id r, ?sg) \<notin> set (snd s)"
    proof
      assume "(in_id r, ?sg) \<in> set (snd s)"
      then obtain secret t' body where old: "timestamp_text t'"
        "(secret, signed_message t' body) \<in> set ps" "?sg = signedHeader hmac secret (signed_message t' body)"
        "(\<exists>c\<in>set (sql_delete (\<lambda>c. rc_expires c < ?now) rows). rc_webhook c = in_id r \<and> rc_signature c = ?sg) \<or>
         seconds_of t' * 1000 + 300000 < ?now"
        using purged s unfolding receipts_ok_def by fastforce
      have "signed_message t (in_body r) = signed_message t' body"
        using collision_freeD [OF free pair old(2)] old(3) by (simp add: signedHeader_def)
      then have "t = t'" using signed_message_timestamp accepted(5) old(1) by blast
      then have "\<not> seconds_of t' * 1000 + 300000 < ?now" using accepted(6) by simp
      then show False using old(4) accepted(9) by (auto simp: list_all_iff)
    qed
    moreover have "incoming_step hmac r s = (rows', snd s @ [(in_id r, ?sg)])"
      using v s accepted(1,7) by (simp add: incoming_step_def)
    ultimately show ?thesis
      using purged s accepted(5,8) pair unfolding receipts_ok_def by (fastforce simp: set_sql_delete)
  qed
qed

lemma receipts_ok_run:
  assumes "collision_free hmac ps"
  shows "receipts_ok hmac ps start s \<Longrightarrow> set (signed_pairs rs) \<subseteq> set ps \<Longrightarrow> sorted (start # map in_now rs) \<Longrightarrow> distinct (snd (fold (incoming_step hmac) rs s))"
proof (induction rs arbitrary: start s)
  case Nil
  then show ?case by (simp add: receipts_ok_def)
next
  case (Cons r rs)
  have "set (signed_pairs [r]) \<subseteq> set ps" "set (signed_pairs rs) \<subseteq> set ps" using Cons.prems(2) signed_pairs_Cons [of r rs] by auto
  moreover from this(1) have "receipts_ok hmac ps (in_now r) (incoming_step hmac r s)"
    using Cons.prems(1,3) receipts_ok_later by (intro receipts_ok_step [OF assms]) auto
  ultimately show ?case using Cons.IH [of "in_now r"] Cons.prems(3) by simp
qed



text \<open>A digest that is the message, and a request that is sent again after four minutes.\<close>

definition plain_hmac :: keyed_digest where
  "plain_hmac secret m = m"

definition sample_webhook :: webhook where
  "sample_webhook =
     \<lparr>wh_id = ''w'', wh_url = ''https://example.org/hook'', wh_events = [''*''], wh_secret = ''s'', wh_active = True,
      wh_maxRetries = 2, wh_createdAt = 1, wh_updatedAt = 1\<rparr>"

definition ping_at :: "int \<Rightarrow> incoming" where
  "ping_at now =
     \<lparr>in_now = now, in_webhooks = [sample_webhook], in_id = ''w'', in_body = ''ping'',
      in_signature = Some ''sha256=inbound:100.ping'', in_timestamp = Some ''100''\<rparr>"


end
