(* ===== verification/WebhookDelivery.thy ===== *)
theory WebhookDelivery
  imports Webhooks "HOL-Library.AList"
begin

text \<open>
  Deliveries of events to webhooks in src/services/webhook-dispatcher.ts: the attempts, which wait for the
  network, the timers of repetitions, repetitions by hand, and starting and stopping the dispatcher. The
  steps between two waits interleave in any order.

  Deliveries are told to a webhook over the guarded fetch; what it answers is given.
\<close>

section \<open>Deliveries\<close>

datatype delivery_status = Pending | Delivered | Retrying | Dead

text \<open>What is sent: the event with its payload redacted.\<close>

record delivery_payload =
  dp_id :: string
  dp_type :: string
  dp_timestamp :: int
  dp_source :: string
  dp_correlation :: string
  dp_payload :: json

definition eventDeliveryPayload :: "bus_event \<Rightarrow> delivery_payload" where
  "eventDeliveryPayload e =
     \<lparr>dp_id = be_id e, dp_type = be_type e, dp_timestamp = be_timestamp e, dp_source = be_source e,
      dp_correlation = be_correlation e, dp_payload = redactSecrets (be_payload e)\<rparr>"

record delivery =
  dv_id :: string
  dv_webhook :: string
  dv_event :: string
  dv_type :: string
  dv_payload :: delivery_payload
  dv_status :: delivery_status
  dv_attempts :: int
  dv_next :: "int option"
  dv_last :: "int option"
  dv_response :: "int option"
  dv_error :: "string option"
  dv_createdAt :: int
  dv_updatedAt :: int

definition RETRY_BACKOFFS_MS :: "int list" where
  "RETRY_BACKOFFS_MS = [1000, 5000, 30000, 300000]"

definition backoffForAttempt :: "int \<Rightarrow> int" where
  "backoffForAttempt attempts = RETRY_BACKOFFS_MS ! nat (min (attempts - 1) (int (length RETRY_BACKOFFS_MS) - 1))"

text \<open>
  An attempt that waits for the network: its delivery, number, time and the limit of its webhook as it was
  read. An event being dispatched: the webhooks still to come, and the attempt and delivery it waits for.
\<close>

record attempt =
  at_delivery :: string
  at_number :: int
  at_time :: int
  at_max :: int

record dispatch =
  ds_event :: bus_event
  ds_rest :: "webhook list"
  ds_waits :: "(nat \<times> string) option"

text \<open>
  The dispatcher: its tables, whether it listens, the timers with their times, the attempts and dispatches
  at work, and for the statements only the deliveries whose success was recorded, in order.
\<close>

record dispatcher =
  wd_webhooks :: "webhook list"
  wd_deliveries :: "delivery list"
  wd_listening :: bool
  wd_timers :: "(string \<times> int) list"
  wd_attempts :: "(nat \<times> attempt) list"
  wd_dispatches :: "(nat \<times> dispatch) list"
  wd_next :: nat
  wd_succeeded :: "string list"

definition dispatcher_start :: dispatcher where
  "dispatcher_start =
     \<lparr>wd_webhooks = [], wd_deliveries = [], wd_listening = False, wd_timers = [], wd_attempts = [], wd_dispatches = [],
      wd_next = 0, wd_succeeded = []\<rparr>"

definition clearScheduledRetry :: "string \<Rightarrow> dispatcher \<Rightarrow> dispatcher" where
  "clearScheduledRetry i w = w\<lparr>wd_timers := AList.delete i (wd_timers w)\<rparr>"

definition scheduleRetry :: "string \<Rightarrow> int \<Rightarrow> dispatcher \<Rightarrow> dispatcher" where
  "scheduleRetry i due w = w\<lparr>wd_timers := AList.update i due (wd_timers w)\<rparr>"

definition getDelivery :: "string \<Rightarrow> delivery list \<Rightarrow> delivery option" where
  "getDelivery i rows = sql_get dv_id i rows"

text \<open>\<open>attemptDelivery\<close> until it waits; without the delivery or its webhook it throws.\<close>

definition begin_attempt :: "string \<Rightarrow> int \<Rightarrow> dispatcher \<Rightarrow> dispatcher" where
  "begin_attempt i now w =
     (case getDelivery i (wd_deliveries w) of
        None \<Rightarrow> w
      | Some row \<Rightarrow>
          (case getWebhook (dv_webhook row) (wd_webhooks w) of
             None \<Rightarrow> w
           | Some h \<Rightarrow>
               w\<lparr>wd_attempts := wd_attempts w @ [(wd_next w, \<lparr>at_delivery = i, at_number = dv_attempts row + 1,
                   at_time = now, at_max = wh_maxRetries h\<rparr>)],
                 wd_next := Suc (wd_next w)\<rparr>))"

datatype answer = Status int | Network_error string

text \<open>The text of the error, if the attempt failed.\<close>

definition answer_error :: "answer \<Rightarrow> string option" where
  "answer_error a =
     (case a of
        Status n \<Rightarrow> if 200 \<le> n \<and> n \<le> 299 then None else Some (''Webhook returned HTTP '' @ decimal (nat n))
      | Network_error e \<Rightarrow> Some e)"

definition permanent_error :: "string \<Rightarrow> bool" where
  "permanent_error e = (take 12 e = ''Webhook URL '')"

definition end_attempt :: "nat \<Rightarrow> answer \<Rightarrow> int \<Rightarrow> dispatcher \<Rightarrow> dispatcher" where
  "end_attempt k a now w =
     (case map_of (wd_attempts w) k of
        None \<Rightarrow> w
      | Some t \<Rightarrow>
          let w' = w\<lparr>wd_attempts := AList.delete k (wd_attempts w)\<rparr>; i = at_delivery t in
          (case answer_error a of
             None \<Rightarrow>
               w'\<lparr>wd_deliveries := sql_update dv_id i (\<lambda>r. r\<lparr>dv_status := Delivered, dv_attempts := at_number t,
                      dv_last := Some (at_time t), dv_next := None,
                      dv_response := (case a of Status n \<Rightarrow> Some n | Network_error e \<Rightarrow> None), dv_error := None,
                      dv_updatedAt := now\<rparr>) (wd_deliveries w),
                  wd_succeeded := wd_succeeded w @ [i]\<rparr>
           | Some e \<Rightarrow>
               let exhausted = (at_max t \<le> at_number t \<or> permanent_error e);
                   delay = backoffForAttempt (at_number t);
                   failed = w'\<lparr>wd_deliveries := sql_update dv_id i (\<lambda>r. r\<lparr>
                      dv_status := (if exhausted then Dead else Retrying), dv_attempts := at_number t,
                      dv_last := Some (at_time t), dv_next := (if exhausted then None else Some (at_time t + delay)),
                      dv_response := None, dv_error := Some e, dv_updatedAt := now\<rparr>) (wd_deliveries w)\<rparr>
               in if exhausted then failed else scheduleRetry i (now + delay) failed))"

definition start_dispatcher :: "int \<Rightarrow> dispatcher \<Rightarrow> dispatcher" where
  "start_dispatcher now w =
     (if wd_listening w then w
      else fold (\<lambda>r. scheduleRetry (dv_id r) (now + max 0 (nullish (dv_next r) now - now)))
             (filter (\<lambda>r. dv_status r \<in> {Retrying, Pending}) (wd_deliveries w)) (w\<lparr>wd_listening := True\<rparr>))"

definition stop_dispatcher :: "dispatcher \<Rightarrow> dispatcher" where
  "stop_dispatcher w = w\<lparr>wd_listening := False, wd_timers := []\<rparr>"

text \<open>A delivery of an event to one webhook: its row, unless the webhook is gone, and the first attempt.\<close>

definition dispatchToWebhook :: "string \<Rightarrow> int \<Rightarrow> webhook \<Rightarrow> bus_event \<Rightarrow> dispatcher \<Rightarrow> dispatcher" where
  "dispatchToWebhook fresh now h e w =
     (if getWebhook (wh_id h) (wd_webhooks w) = None \<or> getDelivery fresh (wd_deliveries w) \<noteq> None then w
      else begin_attempt fresh now (w\<lparr>wd_deliveries := wd_deliveries w @
        [\<lparr>dv_id = fresh, dv_webhook = wh_id h, dv_event = be_id e, dv_type = be_type e, dv_payload = eventDeliveryPayload e,
          dv_status = Pending, dv_attempts = 0, dv_next = None, dv_last = None, dv_response = None, dv_error = None,
          dv_createdAt = now, dv_updatedAt = now\<rparr>]\<rparr>))"

definition dispatchEvent :: "bus_event \<Rightarrow> dispatcher \<Rightarrow> dispatcher" where
  "dispatchEvent e w =
     (if be_type e = ''webhook.incoming'' then w
      else w\<lparr>wd_dispatches := wd_dispatches w @ [(wd_next w, \<lparr>ds_event = e,
               ds_rest = filter (\<lambda>h. wh_active h \<and> matchesEvent h (be_type e)) (listWebhooks (wd_webhooks w)),
               ds_waits = None\<rparr>)],
             wd_next := Suc (wd_next w)\<rparr>)"

text \<open>
  The next webhook is not told before the attempt at the one before has ended. If its delivery or the next
  webhook has been deleted meanwhile the dispatch throws and the webhooks left are not told.
\<close>

definition continue_dispatch :: "nat \<Rightarrow> string \<Rightarrow> int \<Rightarrow> dispatcher \<Rightarrow> dispatcher" where
  "continue_dispatch k fresh now w =
     (case map_of (wd_dispatches w) k of
        None \<Rightarrow> w
      | Some d \<Rightarrow>
          let ended = w\<lparr>wd_dispatches := AList.delete k (wd_dispatches w)\<rparr> in
          if (case ds_waits d of None \<Rightarrow> False | Some (j, i) \<Rightarrow> map_of (wd_attempts w) j \<noteq> None) then w
          else if (case ds_waits d of None \<Rightarrow> False | Some (j, i) \<Rightarrow> getDelivery i (wd_deliveries w) = None) then ended
          else
            (case ds_rest d of
               [] \<Rightarrow> ended
             | h # hs \<Rightarrow>
                 if getWebhook (wh_id h) (wd_webhooks w) = None \<or> getDelivery fresh (wd_deliveries w) \<noteq> None then ended
                 else dispatchToWebhook fresh now h (ds_event d)
                   (w\<lparr>wd_dispatches := AList.update k (d\<lparr>ds_rest := hs, ds_waits := Some (wd_next w, fresh)\<rparr>)
                        (wd_dispatches w)\<rparr>)))"

definition testWebhook :: "string \<Rightarrow> string \<Rightarrow> bus_event \<Rightarrow> int \<Rightarrow> dispatcher \<Rightarrow> dispatcher" where
  "testWebhook i fresh e now w =
     (case getWebhook i (wd_webhooks w) of
        None \<Rightarrow> w
      | Some h \<Rightarrow> dispatchToWebhook fresh now h
          (e\<lparr>be_type := ''webhook.test'', be_source := ''webhook-dispatcher'',
             be_payload := JObj [(''webhookId'', JStr i), (''test'', JBool True)]\<rparr>) w)"

definition retryDelivery :: "string \<Rightarrow> string \<Rightarrow> int \<Rightarrow> dispatcher \<Rightarrow> dispatcher" where
  "retryDelivery webhook i now w =
     (case getDelivery i (wd_deliveries w) of
        None \<Rightarrow> w
      | Some row \<Rightarrow>
          if dv_webhook row \<noteq> webhook \<or> dv_status row = Delivered then w
          else begin_attempt i now ((clearScheduledRetry i w)\<lparr>wd_deliveries :=
             sql_update dv_id i (\<lambda>r. r\<lparr>dv_status := Pending, dv_next := None, dv_updatedAt := now\<rparr>) (wd_deliveries w)\<rparr>))"

definition timer_fires :: "string \<Rightarrow> int \<Rightarrow> dispatcher \<Rightarrow> dispatcher" where
  "timer_fires i now w =
     (case map_of (wd_timers w) i of
        None \<Rightarrow> w
      | Some due \<Rightarrow> if now < due then w else begin_attempt i now (clearScheduledRetry i w))"

definition deleteWebhook :: "string \<Rightarrow> dispatcher \<Rightarrow> dispatcher" where
  "deleteWebhook i w =
     w\<lparr>wd_deliveries := sql_delete (\<lambda>r. dv_webhook r = i) (wd_deliveries w),
       wd_webhooks := sql_delete (\<lambda>h. wh_id h = i) (wd_webhooks w)\<rparr>"

definition listDeliveries :: "string \<Rightarrow> int \<Rightarrow> delivery list \<Rightarrow> delivery list" where
  "listDeliveries webhook limit rows =
     take (nat (min (max limit 1) 200)) (order_desc dv_createdAt (filter (\<lambda>r. dv_webhook r = webhook) rows))"

section \<open>Interleaving\<close>

datatype dispatcher_event =
    De_create platform int string string int webhook_input
  | De_update platform string int webhook_changes
  | De_delete string
  | De_event bus_event
  | De_continue nat string int
  | De_test string string bus_event int
  | De_retry string string int
  | De_timer string int
  | De_answer nat answer int
  | De_start int
  | De_stop
  | De_restart

text \<open>The process ends without warning: what waits in it is lost, the tables stay.\<close>

definition restart :: "dispatcher \<Rightarrow> dispatcher" where
  "restart w = w\<lparr>wd_listening := False, wd_timers := [], wd_attempts := [], wd_dispatches := []\<rparr>"

fun dispatcher_step :: "dispatcher_event \<Rightarrow> dispatcher \<Rightarrow> dispatcher" where
  "dispatcher_step (De_create pf d i random now input) w =
     w\<lparr>wd_webhooks := snd (createWebhook pf d i random now input (wd_webhooks w))\<rparr>"
| "dispatcher_step (De_update pf i now input) w = w\<lparr>wd_webhooks := snd (updateWebhook pf i now input (wd_webhooks w))\<rparr>"
| "dispatcher_step (De_delete i) w = deleteWebhook i w"
| "dispatcher_step (De_event e) w = (if wd_listening w then dispatchEvent e w else w)"
| "dispatcher_step (De_continue k fresh now) w = continue_dispatch k fresh now w"
| "dispatcher_step (De_test i fresh e now) w = testWebhook i fresh e now w"
| "dispatcher_step (De_retry webhook i now) w = retryDelivery webhook i now w"
| "dispatcher_step (De_timer i now) w = timer_fires i now w"
| "dispatcher_step (De_answer k a now) w = end_attempt k a now w"
| "dispatcher_step (De_start now) w = start_dispatcher now w"
| "dispatcher_step De_stop w = stop_dispatcher w"
| "dispatcher_step De_restart w = restart w"

end
