(* ===== verification/WebhookGuarantees.thy ===== *)
theory WebhookGuarantees
  imports WebhookDelivery Runs
begin

text \<open>
  What holds of deliveries: none that is due is forgotten while the dispatcher listens, and none that
  succeeded is sent again, unless one is repeated by hand while it is under way.
\<close>

section \<open>No delivery is forgotten\<close>

definition timed :: "dispatcher \<Rightarrow> string set" where
  "timed w = set (map fst (wd_timers w))"

definition under_way :: "dispatcher \<Rightarrow> string set" where
  "under_way w = (\<lambda>(k, t). at_delivery t) ` set (wd_attempts w)"

definition open_status :: "delivery \<Rightarrow> bool" where
  "open_status r = (dv_status r \<in> {Pending, Retrying})"

definition tables_ok :: "dispatcher \<Rightarrow> bool" where
  "tables_ok w =
     (distinct (map dv_id (wd_deliveries w)) \<and> dv_webhook ` set (wd_deliveries w) \<subseteq> wh_id ` set (wd_webhooks w) \<and>
      distinct (map fst (wd_attempts w)) \<and> list_all (\<lambda>k. k < wd_next w) (map fst (wd_attempts w)))"

definition none_forgotten :: "dispatcher \<Rightarrow> bool" where
  "none_forgotten w = (\<forall>r\<in>set (wd_deliveries w). open_status r \<longrightarrow> dv_id r \<in> timed w \<union> under_way w)"

definition dispatcher_inv :: "dispatcher \<Rightarrow> bool" where
  "dispatcher_inv w = (tables_ok w \<and> (wd_listening w \<longrightarrow> none_forgotten w))"

lemma timed_simps [simp]:
  "timed (w\<lparr>wd_deliveries := a\<rparr>) = timed w" "timed (w\<lparr>wd_webhooks := b\<rparr>) = timed w"
  "timed (w\<lparr>wd_dispatches := c\<rparr>) = timed w" "timed (w\<lparr>wd_attempts := d\<rparr>) = timed w" "timed (w\<lparr>wd_next := e\<rparr>) = timed w"
  "timed (w\<lparr>wd_succeeded := f\<rparr>) = timed w" "timed (w\<lparr>wd_listening := g\<rparr>) = timed w"
  "timed (clearScheduledRetry i w) = timed w - {i}" "timed (scheduleRetry i due w) = insert i (timed w)"
  by (auto simp: timed_def clearScheduledRetry_def scheduleRetry_def delete_keys update_keys simp del: set_map list.set_map)

lemma under_way_simps [simp]:
  "under_way (w\<lparr>wd_deliveries := a\<rparr>) = under_way w" "under_way (w\<lparr>wd_webhooks := b\<rparr>) = under_way w"
  "under_way (w\<lparr>wd_dispatches := c\<rparr>) = under_way w" "under_way (w\<lparr>wd_timers := d\<rparr>) = under_way w"
  "under_way (w\<lparr>wd_next := e\<rparr>) = under_way w" "under_way (w\<lparr>wd_succeeded := f\<rparr>) = under_way w"
  "under_way (w\<lparr>wd_listening := g\<rparr>) = under_way w" "under_way (clearScheduledRetry i w) = under_way w"
  "under_way (scheduleRetry i due w) = under_way w"
  by (simp_all add: under_way_def clearScheduledRetry_def scheduleRetry_def)

lemma field_simps_timers [simp]:
  "wd_deliveries (clearScheduledRetry i w) = wd_deliveries w" "wd_webhooks (clearScheduledRetry i w) = wd_webhooks w"
  "wd_attempts (clearScheduledRetry i w) = wd_attempts w" "wd_listening (clearScheduledRetry i w) = wd_listening w"
  "wd_next (clearScheduledRetry i w) = wd_next w" "wd_succeeded (clearScheduledRetry i w) = wd_succeeded w"
  "wd_deliveries (scheduleRetry i due w) = wd_deliveries w" "wd_webhooks (scheduleRetry i due w) = wd_webhooks w"
  "wd_attempts (scheduleRetry i due w) = wd_attempts w" "wd_listening (scheduleRetry i due w) = wd_listening w"
  "wd_next (scheduleRetry i due w) = wd_next w" "wd_succeeded (scheduleRetry i due w) = wd_succeeded w"
  by (simp_all add: clearScheduledRetry_def scheduleRetry_def)

subsection \<open>Attempts\<close>

lemma begin_attempt_cases:
  obtains (nothing) "begin_attempt i now w = w" "getDelivery i (wd_deliveries w) = None \<or>
      (\<exists>r. getDelivery i (wd_deliveries w) = Some r \<and> dv_webhook r \<notin> wh_id ` set (wd_webhooks w))"
  | (begun) t where "begin_attempt i now w = w\<lparr>wd_attempts := wd_attempts w @ [(wd_next w, t)], wd_next := Suc (wd_next w)\<rparr>"
      "at_delivery t = i"
proof (cases "getDelivery i (wd_deliveries w)")
  case None
  then show ?thesis by (intro that(1)) (simp_all add: begin_attempt_def)
next
  case (Some r)
  show ?thesis
  proof (cases "getWebhook (dv_webhook r) (wd_webhooks w)")
    case None
    then have "dv_webhook r \<notin> wh_id ` set (wd_webhooks w)" by (simp add: getWebhook_def sql_get_None_iff)
    then show ?thesis using Some None by (intro that(1)) (simp_all add: begin_attempt_def)
  next
    case (Some h)
    let ?t = "\<lparr>at_delivery = i, at_number = dv_attempts r + 1, at_time = now, at_max = wh_maxRetries h\<rparr>"
    show ?thesis
      by (rule that(2) [of ?t]) (use Some \<open>getDelivery i (wd_deliveries w) = Some r\<close> in \<open>simp_all add: begin_attempt_def\<close>)
  qed
qed

lemma begin_attempt_fields [simp]:
  "wd_deliveries (begin_attempt i now w) = wd_deliveries w" "wd_webhooks (begin_attempt i now w) = wd_webhooks w"
  "wd_timers (begin_attempt i now w) = wd_timers w" "wd_listening (begin_attempt i now w) = wd_listening w"
  "wd_succeeded (begin_attempt i now w) = wd_succeeded w" "timed (begin_attempt i now w) = timed w"
  by (simp_all add: begin_attempt_def timed_def split: option.split)

lemma getDelivery_row: "distinct (map dv_id rows) \<Longrightarrow> r \<in> set rows \<Longrightarrow> getDelivery (dv_id r) rows = Some r"
  by (simp add: getDelivery_def sql_get_unique)

lemma begin_attempt_under_way:
  assumes "tables_ok w"
  shows "under_way w \<subseteq> under_way (begin_attempt i now w)" "under_way (begin_attempt i now w) \<subseteq> insert i (under_way w)"
    and "i \<in> dv_id ` set (wd_deliveries w) \<Longrightarrow> i \<in> under_way (begin_attempt i now w)"
proof -
  show "under_way w \<subseteq> under_way (begin_attempt i now w)" "under_way (begin_attempt i now w) \<subseteq> insert i (under_way w)"
    by (cases rule: begin_attempt_cases [of i now w]; auto simp: under_way_def)+
  assume "i \<in> dv_id ` set (wd_deliveries w)"
  then obtain r where "r \<in> set (wd_deliveries w)" "dv_id r = i" by blast
  then have "getDelivery i (wd_deliveries w) = Some r" "dv_webhook r \<in> wh_id ` set (wd_webhooks w)"
    using assms getDelivery_row by (auto simp: tables_ok_def)
  then show "i \<in> under_way (begin_attempt i now w)"
    by (cases rule: begin_attempt_cases [of i now w]; auto simp: under_way_def)
qed

lemma tables_ok_begin: "tables_ok w \<Longrightarrow> tables_ok (begin_attempt i now w)"
proof (cases rule: begin_attempt_cases [of i now w])
  case (begun t)
  assume "tables_ok w"
  moreover from this have "wd_next w \<notin> set (map fst (wd_attempts w))" by (auto simp: tables_ok_def list_all_iff)
  ultimately show ?thesis unfolding begun(1) tables_ok_def by (auto simp: list_all_iff less_Suc_eq)
qed simp

lemma none_forgotten_begin:
  assumes "tables_ok w" and "\<And>r. r \<in> set (wd_deliveries w) \<Longrightarrow> open_status r \<Longrightarrow> dv_id r \<noteq> i \<Longrightarrow> dv_id r \<in> timed w \<union> under_way w"
  shows "none_forgotten (begin_attempt i now w)"
  unfolding none_forgotten_def
proof (intro ballI impI)
  fix r
  assume r: "r \<in> set (wd_deliveries (begin_attempt i now w))" "open_status r"
  show "dv_id r \<in> timed (begin_attempt i now w) \<union> under_way (begin_attempt i now w)"
  proof (cases "dv_id r = i")
    case True
    then show ?thesis using begin_attempt_under_way(3) [OF assms(1), of i now] r by auto
  next
    case False
    then show ?thesis using assms(2) [of r] begin_attempt_under_way(1) [OF assms(1), of i now] r by auto
  qed
qed


subsection \<open>Steps\<close>

lemma dispatcher_inv_begin:
  assumes "tables_ok w"
    and "\<And>r. wd_listening w \<Longrightarrow> r \<in> set (wd_deliveries w) \<Longrightarrow> open_status r \<Longrightarrow> dv_id r \<noteq> i \<Longrightarrow> dv_id r \<in> timed w \<union> under_way w"
  shows "dispatcher_inv (begin_attempt i now w)"
  using tables_ok_begin [OF assms(1)] none_forgotten_begin [OF assms(1)] assms(2) by (simp add: dispatcher_inv_def)

lemma tables_ok_cong:
  "tables_ok w \<Longrightarrow> wd_deliveries w' = wd_deliveries w \<Longrightarrow> wd_webhooks w' = wd_webhooks w \<Longrightarrow> wd_attempts w' = wd_attempts w \<Longrightarrow>
   wd_next w \<le> wd_next w' \<Longrightarrow> tables_ok w'"
  by (auto simp: tables_ok_def list_all_iff)

lemma dispatcher_inv_cong:
  "dispatcher_inv w \<Longrightarrow> wd_deliveries w' = wd_deliveries w \<Longrightarrow> wd_webhooks w' = wd_webhooks w \<Longrightarrow> wd_attempts w' = wd_attempts w \<Longrightarrow>
   wd_next w \<le> wd_next w' \<Longrightarrow> wd_timers w' = wd_timers w \<Longrightarrow> wd_listening w' = wd_listening w \<Longrightarrow> dispatcher_inv w'"
  using tables_ok_cong [of w w'] by (simp add: dispatcher_inv_def none_forgotten_def timed_def under_way_def)

text \<open>A change of one row that keeps its id and webhook.\<close>

lemma tables_ok_update:
  assumes "tables_ok w" and "\<And>r. dv_id (f r) = dv_id r" "\<And>r. dv_webhook (f r) = dv_webhook r"
  shows "tables_ok (w\<lparr>wd_deliveries := sql_update dv_id i f (wd_deliveries w)\<rparr>)"
proof -
  have "map dv_id (sql_update dv_id i f (wd_deliveries w)) = map dv_id (wd_deliveries w)"
    using assms(2) by (simp add: sql_update_def map_key_update_where)
  moreover have "dv_webhook ` set (sql_update dv_id i f (wd_deliveries w)) \<subseteq> dv_webhook ` set (wd_deliveries w)"
    using assms(3) by (auto simp: sql_update_def set_update_where)
  ultimately show ?thesis using assms(1) by (auto simp: tables_ok_def)
qed

lemma row_of_update:
  assumes "\<And>r. dv_id (f r) = dv_id r" and "r \<in> set (sql_update dv_id i f rows)"
  shows "(dv_id r = i \<and> (\<exists>q\<in>set rows. r = f q)) \<or> (dv_id r \<noteq> i \<and> r \<in> set rows)"
proof -
  obtain q where "q \<in> set rows" "r = (if dv_id q = i then f q else q)" using assms(2) by (auto simp: sql_update_def set_update_where)
  then show ?thesis using assms(1) by (cases "dv_id q = i") auto
qed

lemma dispatcher_inv_dispatch:
  assumes ok: "dispatcher_inv w"
  shows "dispatcher_inv (dispatchToWebhook fresh now h e w)"
proof (cases "getWebhook (wh_id h) (wd_webhooks w) = None \<or> getDelivery fresh (wd_deliveries w) \<noteq> None")
  case True
  then show ?thesis using ok by (simp add: dispatchToWebhook_def)
next
  case False
  let ?row = "\<lparr>dv_id = fresh, dv_webhook = wh_id h, dv_event = be_id e, dv_type = be_type e, dv_payload = eventDeliveryPayload e,
     dv_status = Pending, dv_attempts = 0, dv_next = None, dv_last = None, dv_response = None, dv_error = None,
     dv_createdAt = now, dv_updatedAt = now\<rparr>"
  let ?w = "w\<lparr>wd_deliveries := wd_deliveries w @ [?row]\<rparr>"
  have "wh_id h \<in> wh_id ` set (wd_webhooks w)" using False by (auto simp: getWebhook_def sql_get_None_iff)
  moreover have "fresh \<notin> dv_id ` set (wd_deliveries w)" using False by (auto simp: getDelivery_def sql_get_None_iff)
  ultimately have "tables_ok ?w" using ok by (auto simp: dispatcher_inv_def tables_ok_def)
  then have "dispatcher_inv (begin_attempt fresh now ?w)"
    by (rule dispatcher_inv_begin) (use ok in \<open>auto simp: dispatcher_inv_def none_forgotten_def\<close>)
  then show ?thesis using False unfolding dispatchToWebhook_def by (auto simp del: not_None_eq)
qed

lemma dispatcher_inv_answer:
  assumes ok: "dispatcher_inv w"
  shows "dispatcher_inv (end_attempt k a now w)"
proof (cases "map_of (wd_attempts w) k")
  case None
  then show ?thesis using ok by (simp add: end_attempt_def)
next
  case (Some t)
  let ?i = "at_delivery t"
  have tables: "tables_ok w" using ok by (simp add: dispatcher_inv_def)
  have keys: "distinct (map fst (wd_attempts w))" using tables by (simp add: tables_ok_def)
  let ?w = "w\<lparr>wd_attempts := AList.delete k (wd_attempts w)\<rparr>"
  have tables': "tables_ok ?w"
    using tables by (auto simp: tables_ok_def list_all_iff AList.delete_eq distinct_map_filter)
  have rest: "under_way w \<subseteq> insert ?i (under_way ?w)"
  proof
    fix i
    assume "i \<in> under_way w"
    then obtain j u where j: "(j, u) \<in> set (wd_attempts w)" "at_delivery u = i" by (auto simp: under_way_def)
    show "i \<in> insert ?i (under_way ?w)"
    proof (cases "j = k")
      case True
      then have "u = t" using Some j(1) keys by (metis map_of_eq_Some_iff option.inject)
      then show ?thesis using j(2) by simp
    next
      case False
      then have "(j, u) \<in> set (AList.delete k (wd_attempts w))" using j(1) by (simp add: AList.delete_eq)
      then show ?thesis using j(2) by (force simp: under_way_def)
    qed
  qed
  have covered: "none_forgotten w'"
    if "wd_listening w" "wd_deliveries w' = sql_update dv_id ?i f (wd_deliveries w)" "\<And>r. dv_id (f r) = dv_id r"
      "timed w \<subseteq> timed w'" "under_way w' = under_way ?w" "\<And>r. open_status (f r) \<Longrightarrow> ?i \<in> timed w'" for w' f
    unfolding none_forgotten_def
  proof (intro ballI impI)
    note upd = that
    fix r
    assume r: "r \<in> set (wd_deliveries w')" "open_status r"
    then consider (this) q where "dv_id r = ?i" "r = f q" | (other) "dv_id r \<noteq> ?i" "r \<in> set (wd_deliveries w)"
      using row_of_update [of f r ?i "wd_deliveries w"] upd(2,3) by auto
    then show "dv_id r \<in> timed w' \<union> under_way w'"
    proof cases
      case this
      then show ?thesis using that(6) r(2) by auto
    next
      case other
      then have "dv_id r \<in> timed w \<union> under_way w" using ok that(1) r(2) by (auto simp: dispatcher_inv_def none_forgotten_def)
      then show ?thesis using other(1) rest that(4,5) by blast
    qed
  qed
  show ?thesis
  proof (cases "answer_error a")
    case None
    let ?f = "\<lambda>r. r\<lparr>dv_status := Delivered, dv_attempts := at_number t, dv_last := Some (at_time t), dv_next := None,
      dv_response := (case a of Status n \<Rightarrow> Some n | Network_error e \<Rightarrow> None), dv_error := None, dv_updatedAt := now\<rparr>"
    let ?w' = "?w\<lparr>wd_deliveries := sql_update dv_id ?i ?f (wd_deliveries w), wd_succeeded := wd_succeeded w @ [?i]\<rparr>"
    have "tables_ok ?w'" using tables_ok_update [OF tables', of ?f ?i] by (rule tables_ok_cong) simp_all
    moreover have "wd_listening w \<Longrightarrow> none_forgotten ?w'"
      by (rule covered [where f = ?f]) (simp_all add: open_status_def)
    ultimately show ?thesis using Some None by (simp add: end_attempt_def dispatcher_inv_def Let_def)
  next
    case (Some e)
    let ?exhausted = "at_max t \<le> at_number t \<or> permanent_error e"
    let ?f = "\<lambda>r. r\<lparr>dv_status := (if ?exhausted then Dead else Retrying), dv_attempts := at_number t,
      dv_last := Some (at_time t), dv_next := (if ?exhausted then None else Some (at_time t + backoffForAttempt (at_number t))),
      dv_response := None, dv_error := Some e, dv_updatedAt := now\<rparr>"
    let ?failed = "?w\<lparr>wd_deliveries := sql_update dv_id ?i ?f (wd_deliveries w)\<rparr>"
    let ?w' = "if ?exhausted then ?failed else scheduleRetry ?i (now + backoffForAttempt (at_number t)) ?failed"
    have "tables_ok ?failed" using tables_ok_update [OF tables', of ?f ?i] by simp
    then have tables'': "tables_ok ?w'" by (auto intro: tables_ok_cong)
    have none: "none_forgotten ?w'" if "wd_listening w"
      by (rule covered [where f = ?f, OF that]) (auto simp: open_status_def)
    have listening: "wd_listening ?w' = wd_listening w" by simp
    have "end_attempt k a now w = ?w'" using Some \<open>map_of (wd_attempts w) k = Some t\<close> by (simp add: end_attempt_def Let_def)
    then show ?thesis
      unfolding dispatcher_inv_def by (simp only: listening) (intro conjI impI tables'' none)
  qed
qed

lemma dispatcher_inv_retry:
  assumes ok: "dispatcher_inv w"
  shows "dispatcher_inv (retryDelivery webhook i now w)"
proof (cases "getDelivery i (wd_deliveries w)")
  case None
  then show ?thesis using ok by (simp add: retryDelivery_def)
next
  case (Some row)
  let ?f = "\<lambda>r. r\<lparr>dv_status := Pending, dv_next := None, dv_updatedAt := now\<rparr>"
  let ?w = "(clearScheduledRetry i w)\<lparr>wd_deliveries := sql_update dv_id i ?f (wd_deliveries w)\<rparr>"
  have "tables_ok (clearScheduledRetry i w)" using ok by (auto simp: dispatcher_inv_def intro: tables_ok_cong)
  then have "tables_ok ?w" using tables_ok_update [of "clearScheduledRetry i w" ?f i] by simp
  moreover have "dv_id r \<in> timed ?w \<union> under_way ?w"
    if "wd_listening ?w" "r \<in> set (wd_deliveries ?w)" "open_status r" "dv_id r \<noteq> i" for r
  proof -
    have "r \<in> set (wd_deliveries w)" using row_of_update [of ?f r i "wd_deliveries w"] that(2,4) by simp
    then show ?thesis using ok that by (auto simp: dispatcher_inv_def none_forgotten_def)
  qed
  ultimately have "dispatcher_inv (begin_attempt i now ?w)" by (rule dispatcher_inv_begin)
  then show ?thesis using Some ok by (simp add: retryDelivery_def)
qed

lemma dispatcher_inv_timer:
  assumes ok: "dispatcher_inv w"
  shows "dispatcher_inv (timer_fires i now w)"
proof -
  have "tables_ok (clearScheduledRetry i w)" using ok by (auto simp: dispatcher_inv_def intro: tables_ok_cong)
  then have "dispatcher_inv (begin_attempt i now (clearScheduledRetry i w))"
    by (rule dispatcher_inv_begin) (use ok in \<open>auto simp: dispatcher_inv_def none_forgotten_def\<close>)
  then show ?thesis using ok by (simp add: timer_fires_def split: option.split)
qed

lemma timed_fold: "timed (fold (\<lambda>r. scheduleRetry (dv_id r) (d r)) rs w) = timed w \<union> dv_id ` set rs"
  by (induction rs arbitrary: w) auto

lemma fold_schedule_fields [simp]:
  "wd_deliveries (fold (\<lambda>r. scheduleRetry (i r) (d r)) rs w) = wd_deliveries w"
  "wd_webhooks (fold (\<lambda>r. scheduleRetry (i r) (d r)) rs w) = wd_webhooks w"
  "wd_attempts (fold (\<lambda>r. scheduleRetry (i r) (d r)) rs w) = wd_attempts w"
  "wd_next (fold (\<lambda>r. scheduleRetry (i r) (d r)) rs w) = wd_next w"
  "wd_listening (fold (\<lambda>r. scheduleRetry (i r) (d r)) rs w) = wd_listening w"
  "wd_succeeded (fold (\<lambda>r. scheduleRetry (i r) (d r)) rs w) = wd_succeeded w"
  by (induction rs arbitrary: w) simp_all

lemma dispatcher_inv_start:
  assumes ok: "dispatcher_inv w"
  shows "dispatcher_inv (start_dispatcher now w)"
proof (cases "wd_listening w")
  case False
  let ?w = "start_dispatcher now w"
  have w: "wd_deliveries ?w = wd_deliveries w" "wd_webhooks ?w = wd_webhooks w" "wd_attempts ?w = wd_attempts w" "wd_next ?w = wd_next w"
    using False by (simp_all add: start_dispatcher_def)
  have "timed ?w = timed w \<union> dv_id ` set (filter (\<lambda>r. dv_status r \<in> {Retrying, Pending}) (wd_deliveries w))"
    using False by (simp add: start_dispatcher_def timed_fold)
  then have "none_forgotten ?w" using w(1) by (auto simp: none_forgotten_def open_status_def)
  moreover have "tables_ok ?w" using ok w by (auto simp: dispatcher_inv_def intro: tables_ok_cong)
  ultimately show ?thesis by (simp add: dispatcher_inv_def)
qed (use ok in \<open>simp add: start_dispatcher_def\<close>)

lemma dispatcher_inv_delete:
  assumes ok: "dispatcher_inv w"
  shows "dispatcher_inv (deleteWebhook i w)"
proof -
  have "dv_webhook r \<in> wh_id ` set (sql_delete (\<lambda>h. wh_id h = i) (wd_webhooks w))"
    if "r \<in> set (wd_deliveries w)" "dv_webhook r \<noteq> i" for r
    using ok that by (force simp: dispatcher_inv_def tables_ok_def set_sql_delete)
  then have "tables_ok (deleteWebhook i w)"
    using ok by (auto simp: dispatcher_inv_def tables_ok_def deleteWebhook_def set_sql_delete intro: key_intros)
  moreover have "none_forgotten w \<Longrightarrow> none_forgotten (deleteWebhook i w)"
    by (simp add: none_forgotten_def deleteWebhook_def set_sql_delete)
  ultimately show ?thesis using ok by (simp add: dispatcher_inv_def deleteWebhook_def)
qed

lemma webhook_ids_grow:
  "wh_id ` set rows \<subseteq> wh_id ` set (snd (createWebhook pf d i random now input rows))"
  "wh_id ` set (snd (updateWebhook pf i now changes rows)) = wh_id ` set rows"
proof -
  show "wh_id ` set rows \<subseteq> wh_id ` set (snd (createWebhook pf d i random now input rows))"
    by (auto simp: createWebhook_def throw_def ret_def Let_def split: sum.split)
  have "wh_id ` set (sql_update wh_id i f rows) = wh_id ` set rows" if "\<And>h. wh_id (f h) = wh_id h" for f
  proof -
    have "map wh_id (sql_update wh_id i f rows) = map wh_id rows" using that by (simp add: sql_update_def map_key_update_where)
    then show ?thesis by (metis list.set_map)
  qed
  then show "wh_id ` set (snd (updateWebhook pf i now changes rows)) = wh_id ` set rows"
    by (simp add: updateWebhook_def throw_def ret_def Let_def split: sum.split option.split)
qed

lemma dispatcher_inv_webhooks:
  assumes "dispatcher_inv w" and "wh_id ` set (wd_webhooks w) \<subseteq> wh_id ` set rows"
  shows "dispatcher_inv (w\<lparr>wd_webhooks := rows\<rparr>)"
proof -
  have "dv_webhook ` set (wd_deliveries w) \<subseteq> wh_id ` set rows"
    using assms subset_trans unfolding dispatcher_inv_def tables_ok_def by blast
  then show ?thesis using assms(1) by (simp add: dispatcher_inv_def tables_ok_def none_forgotten_def)
qed

lemma dispatcher_inv_continue:
  assumes ok: "dispatcher_inv w"
  shows "dispatcher_inv (continue_dispatch k fresh now w)"
proof -
  have "dispatcher_inv (w\<lparr>wd_dispatches := d\<rparr>)" for d by (rule dispatcher_inv_cong [OF ok]) simp_all
  then show ?thesis using ok unfolding continue_dispatch_def Let_def
    by (auto simp: dispatcher_inv_dispatch split: option.split list.split)
qed

lemma dispatcher_inv_stopped:
  assumes ok: "dispatcher_inv w"
  shows "dispatcher_inv (stop_dispatcher w)" "dispatcher_inv (restart w)"
  using ok by (auto simp: dispatcher_inv_def tables_ok_def stop_dispatcher_def restart_def)

lemma dispatcher_inv_step:
  assumes ok: "dispatcher_inv w"
  shows "dispatcher_inv (dispatcher_step a w)"
proof (cases a)
  case (De_create pf d i random now input)
  then show ?thesis using ok webhook_ids_grow(1) by (simp add: dispatcher_inv_webhooks)
next
  case (De_update pf i now input)
  then show ?thesis using ok webhook_ids_grow(2) by (simp add: dispatcher_inv_webhooks)
next
  case (De_event e)
  have "dispatcher_inv (dispatchEvent e w)" using ok unfolding dispatchEvent_def by (auto intro: dispatcher_inv_cong)
  then show ?thesis using De_event ok by simp
next
  case (De_test i fresh e now)
  then show ?thesis using ok by (simp add: testWebhook_def dispatcher_inv_dispatch split: option.split)
qed (simp_all add: ok dispatcher_inv_continue dispatcher_inv_stopped dispatcher_inv_delete dispatcher_inv_retry dispatcher_inv_timer
  dispatcher_inv_answer dispatcher_inv_start)

interpretation deliveries: step_invariant dispatcher_step "\<lambda>e w. True" dispatcher_inv
  by unfold_locales (rule dispatcher_inv_step)

lemma dispatcher_inv_run: "dispatcher_inv (fold dispatcher_step steps dispatcher_start)"
  by (rule deliveries.good_run) (simp_all add: dispatcher_inv_def tables_ok_def dispatcher_start_def)

text \<open>
  C26. Whatever the order in which events, answers, timers, repetitions by hand and restarts come: while the
  dispatcher listens, every delivery that is pending or to be repeated has a timer or an attempt under way,
  and every delivery belongs to a webhook that exists.
\<close>
theorem no_delivery_forgotten:
  assumes "w = fold dispatcher_step steps dispatcher_start" and "wd_listening w"
    and "r \<in> set (wd_deliveries w)" and "dv_status r = Pending \<or> dv_status r = Retrying"
  shows "(dv_id r \<in> set (map fst (wd_timers w)) \<or> (\<exists>k t. (k, t) \<in> set (wd_attempts w) \<and> at_delivery t = dv_id r)) \<and>
    (\<exists>h\<in>set (wd_webhooks w). wh_id h = dv_webhook r)"
proof
  have inv: "dispatcher_inv w" using dispatcher_inv_run assms(1) by simp
  then have "dv_id r \<in> timed w \<union> under_way w"
    using assms(2-4) by (auto simp: dispatcher_inv_def none_forgotten_def open_status_def)
  then consider "dv_id r \<in> timed w" | "dv_id r \<in> under_way w" by blast
  then show "dv_id r \<in> set (map fst (wd_timers w)) \<or> (\<exists>k t. (k, t) \<in> set (wd_attempts w) \<and> at_delivery t = dv_id r)"
  proof cases
    case 2
    then obtain k t where "(k, t) \<in> set (wd_attempts w)" "dv_id r = at_delivery t" by (auto simp: under_way_def)
    then show ?thesis by metis
  qed (simp add: timed_def)
  show "\<exists>h\<in>set (wd_webhooks w). wh_id h = dv_webhook r"
    using inv assms(3) unfolding dispatcher_inv_def tables_ok_def by (metis (no_types, lifting) image_iff subset_iff)
qed

section \<open>What was delivered is not sent again\<close>

text \<open>
  A delivery is not repeated by hand while an attempt at it is under way, the dispatcher is not started
  again before all attempts are answered, and new identifiers are new.
\<close>

definition unused :: "string \<Rightarrow> dispatcher \<Rightarrow> bool" where
  "unused i w =
     (i \<notin> set (map fst (wd_timers w)) \<and> i \<notin> set (map (\<lambda>(k, t). at_delivery t) (wd_attempts w)) \<and> i \<notin> set (wd_succeeded w))"

fun calm :: "dispatcher_event \<Rightarrow> dispatcher \<Rightarrow> bool" where
  "calm (De_continue k fresh now) w = unused fresh w"
| "calm (De_test i fresh e now) w = unused fresh w"
| "calm (De_retry webhook i now) w = (i \<notin> set (map (\<lambda>(k, t). at_delivery t) (wd_attempts w)))"
| "calm (De_start now) w = (wd_listening w \<or> wd_attempts w = [])"
| "calm _ w = True"

definition calm_run :: "dispatcher_event list \<Rightarrow> dispatcher \<Rightarrow> bool" where
  "calm_run steps w = allowed_run dispatcher_step calm steps w"

lemma unused_iff: "unused i w \<longleftrightarrow> i \<notin> timed w \<and> i \<notin> under_way w \<and> i \<notin> set (wd_succeeded w)"
  by (simp add: unused_def timed_def under_way_def)

text \<open>A delivery that may be sent: nothing is under way or waits for it, and it has not succeeded.\<close>

definition idle :: "string \<Rightarrow> dispatcher \<Rightarrow> bool" where
  "idle i w = (unused i w \<and> (\<forall>r\<in>set (wd_deliveries w). dv_id r = i \<longrightarrow> dv_status r \<noteq> Delivered))"

definition once_inv :: "dispatcher \<Rightarrow> bool" where
  "once_inv w =
     (distinct (map (\<lambda>(k, t). at_delivery t) (wd_attempts w)) \<and> timed w \<inter> under_way w = {} \<and>
      set (wd_succeeded w) \<inter> (timed w \<union> under_way w) = {} \<and> distinct (wd_succeeded w) \<and>
      (\<forall>r\<in>set (wd_deliveries w).
         (dv_status r = Delivered \<longrightarrow> dv_id r \<notin> timed w \<union> under_way w) \<and>
         (dv_id r \<in> set (wd_succeeded w) \<longrightarrow> dv_status r = Delivered)))"

lemma once_inv_begin:
  assumes "once_inv w" and "idle i w"
  shows "once_inv (begin_attempt i now w)"
proof (cases rule: begin_attempt_cases [of i now w])
  case (begun t)
  have "under_way (begin_attempt i now w) = insert i (under_way w)" using begun by (auto simp: under_way_def)
  moreover have "i \<notin> under_way w" using assms(2) by (simp add: idle_def unused_iff)
  moreover have "distinct (map (\<lambda>(k, t). at_delivery t) (wd_attempts (begin_attempt i now w)))"
    using assms begun by (simp add: once_inv_def idle_def unused_def)
  ultimately show ?thesis using assms by (auto simp: once_inv_def idle_def unused_iff)
qed (use assms in simp)

lemma once_inv_cong:
  "once_inv w \<Longrightarrow> wd_deliveries w' = wd_deliveries w \<Longrightarrow> wd_attempts w' = wd_attempts w \<Longrightarrow>
   timed w' \<subseteq> timed w \<Longrightarrow> wd_succeeded w' = wd_succeeded w \<Longrightarrow> once_inv w'"
  by (auto simp: once_inv_def under_way_def)

lemma once_inv_dispatch:
  assumes ok: "once_inv w" and fresh: "unused fresh w"
  shows "once_inv (dispatchToWebhook fresh now h e w)"
proof (cases "getWebhook (wh_id h) (wd_webhooks w) = None \<or> getDelivery fresh (wd_deliveries w) \<noteq> None")
  case True
  then show ?thesis using ok by (simp add: dispatchToWebhook_def)
next
  case False
  let ?row = "\<lparr>dv_id = fresh, dv_webhook = wh_id h, dv_event = be_id e, dv_type = be_type e, dv_payload = eventDeliveryPayload e,
     dv_status = Pending, dv_attempts = 0, dv_next = None, dv_last = None, dv_response = None, dv_error = None,
     dv_createdAt = now, dv_updatedAt = now\<rparr>"
  let ?w = "w\<lparr>wd_deliveries := wd_deliveries w @ [?row]\<rparr>"
  have "fresh \<notin> dv_id ` set (wd_deliveries w)" using False by (auto simp: getDelivery_def sql_get_None_iff)
  then have "once_inv ?w" "idle fresh ?w" using ok fresh by (auto simp: once_inv_def idle_def unused_iff)
  then show ?thesis using False once_inv_begin unfolding dispatchToWebhook_def by (auto simp del: not_None_eq)
qed

lemma once_inv_retry:
  assumes ok: "once_inv w" and quiet: "i \<notin> under_way w"
  shows "once_inv (retryDelivery webhook i now w)"
proof (cases "getDelivery i (wd_deliveries w)")
  case None
  then show ?thesis using ok by (simp add: retryDelivery_def)
next
  case (Some row)
  then have row: "row \<in> set (wd_deliveries w)" "dv_id row = i" by (auto simp: getDelivery_def dest: sql_get_SomeD)
  let ?f = "\<lambda>r. r\<lparr>dv_status := Pending, dv_next := None, dv_updatedAt := now\<rparr>"
  let ?w = "(clearScheduledRetry i w)\<lparr>wd_deliveries := sql_update dv_id i ?f (wd_deliveries w)\<rparr>"
  show ?thesis
  proof (cases "dv_status row = Delivered")
    case False
    have rows: "(dv_id r = i \<and> dv_status r = Pending) \<or> (dv_id r \<noteq> i \<and> r \<in> set (wd_deliveries w))"
      if "r \<in> set (sql_update dv_id i ?f (wd_deliveries w))" for r
      using row_of_update [of ?f r i "wd_deliveries w"] that by auto
    have fresh: "i \<notin> set (wd_succeeded w)" using False row ok by (auto simp: once_inv_def)
    have "once_inv ?w"
      using ok fresh unfolding once_inv_def by (auto dest!: rows)
    moreover have "idle i ?w" using fresh quiet unfolding idle_def unused_iff by (auto dest!: rows)
    ultimately show ?thesis using once_inv_begin ok Some by (simp add: retryDelivery_def)
  qed (use Some ok in \<open>simp add: retryDelivery_def\<close>)
qed

lemma once_inv_timer:
  assumes ok: "once_inv w"
  shows "once_inv (timer_fires i now w)"
proof (cases "map_of (wd_timers w) i")
  case None
  then show ?thesis using ok by (simp add: timer_fires_def)
next
  case (Some due)
  then have i: "i \<in> timed w" by (force simp: timed_def dest: map_of_SomeD)
  have "once_inv (clearScheduledRetry i w)" by (rule once_inv_cong [OF ok]) auto
  moreover have "idle i (clearScheduledRetry i w)" using ok i by (auto simp: once_inv_def idle_def unused_iff)
  ultimately show ?thesis using ok Some once_inv_begin by (simp add: timer_fires_def)
qed

lemma once_inv_answer:
  assumes ok: "once_inv w" and tables: "tables_ok w"
  shows "once_inv (end_attempt k a now w)"
proof (cases "map_of (wd_attempts w) k")
  case None
  then show ?thesis using ok by (simp add: end_attempt_def)
next
  case (Some t)
  let ?i = "at_delivery t"
  let ?w = "w\<lparr>wd_attempts := AList.delete k (wd_attempts w)\<rparr>"
  have at: "(k, t) \<in> set (wd_attempts w)" using Some by (rule map_of_SomeD)
  have distinct: "distinct (map (\<lambda>(k, t). at_delivery t) (wd_attempts w))" using ok by (simp add: once_inv_def)
  have inj: "inj_on (\<lambda>(k, t). at_delivery t) (set (wd_attempts w))" using distinct by (simp add: distinct_map)
  have "u = t" if "(k, u) \<in> set (wd_attempts w)" for u
    using tables that Some by (metis map_of_eq_Some_iff option.inject tables_ok_def)
  then have "set (AList.delete k (wd_attempts w)) = set (wd_attempts w) - {(k, t)}" by (auto simp: AList.delete_eq)
  then have "under_way ?w = (\<lambda>(k, t). at_delivery t) ` (set (wd_attempts w) - {(k, t)})" by (simp add: under_way_def)
  also have "\<dots> = under_way w - {?i}" using inj_on_image_set_diff [OF inj, of "set (wd_attempts w)" "{(k, t)}"] at by (simp add: under_way_def)
  finally have left: "under_way ?w = under_way w - {?i}" .
  have here: "?i \<in> under_way w" unfolding under_way_def using at by (rule rev_image_eqI) simp
  note under = left here
  have "distinct (map (\<lambda>(k, t). at_delivery t) (wd_attempts ?w))"
    using distinct by (simp add: AList.delete_eq distinct_map_filter)
  then have rest: "once_inv w'"
    if "wd_deliveries w' = sql_update dv_id ?i f (wd_deliveries w)" "\<And>r. dv_id (f r) = dv_id r" "wd_attempts w' = wd_attempts ?w"
      "timed w' \<subseteq> insert ?i (timed w)"
      "(?i \<notin> timed w' \<and> wd_succeeded w' = wd_succeeded w @ [?i] \<and> (\<forall>r. dv_status (f r) = Delivered)) \<or>
       (wd_succeeded w' = wd_succeeded w \<and> (\<forall>r. dv_status (f r) \<noteq> Delivered))" for w' f
  proof -
    note upd = that
    have u: "under_way w' = under_way w - {?i}" using upd(3) under(1) by (simp add: under_way_def)
    have rows: "(dv_id r = ?i \<and> (\<exists>q. r = f q)) \<or> (dv_id r \<noteq> ?i \<and> r \<in> set (wd_deliveries w))" if "r \<in> set (wd_deliveries w')" for r
      using row_of_update [of f r ?i "wd_deliveries w"] upd(1,2) that by auto
    have not: "?i \<notin> set (wd_succeeded w)" "?i \<notin> timed w" using ok under(2) by (auto simp: once_inv_def)
    have d: "distinct (map (\<lambda>(k, t). at_delivery t) (wd_attempts w'))"
      using distinct upd(3) by (simp add: AList.delete_eq distinct_map_filter)
    have tm: "x = ?i \<or> x \<in> timed w" if "x \<in> timed w'" for x using upd(4) that by blast
    have s: "timed w' \<inter> under_way w' = {}" "distinct (wd_succeeded w')" using ok upd(5) u not unfolding once_inv_def by (auto dest: tm)
    have s': "set (wd_succeeded w') \<inter> (timed w' \<union> under_way w') = {}"
    proof -
      have "x \<notin> timed w'" "x \<notin> under_way w" if "x \<in> set (wd_succeeded w)" for x
        using ok not tm that unfolding once_inv_def by blast+
      then show ?thesis using upd(5) u by auto
    qed
    have r: "(dv_status r = Delivered \<longrightarrow> dv_id r \<notin> timed w' \<union> under_way w') \<and>
        (dv_id r \<in> set (wd_succeeded w') \<longrightarrow> dv_status r = Delivered)" if "r \<in> set (wd_deliveries w')" for r
      using rows [OF that] ok upd(5) u not unfolding once_inv_def by (auto dest: tm)
    show ?thesis using d s s' r by (simp add: once_inv_def)
  qed
  have waiting: "?i \<notin> timed w" using ok under(2) by (auto simp: once_inv_def)
  show ?thesis
  proof (cases "answer_error a")
    case None
    let ?f = "\<lambda>r. r\<lparr>dv_status := Delivered, dv_attempts := at_number t, dv_last := Some (at_time t), dv_next := None,
      dv_response := (case a of Status n \<Rightarrow> Some n | Network_error e \<Rightarrow> None), dv_error := None, dv_updatedAt := now\<rparr>"
    have "once_inv (?w\<lparr>wd_deliveries := sql_update dv_id ?i ?f (wd_deliveries w), wd_succeeded := wd_succeeded w @ [?i]\<rparr>)"
      by (rule rest [where f = ?f]) (use waiting in auto)
    then show ?thesis using Some None by (simp add: end_attempt_def Let_def)
  next
    case (Some e)
    let ?exhausted = "at_max t \<le> at_number t \<or> permanent_error e"
    let ?f = "\<lambda>r. r\<lparr>dv_status := (if ?exhausted then Dead else Retrying), dv_attempts := at_number t,
      dv_last := Some (at_time t), dv_next := (if ?exhausted then None else Some (at_time t + backoffForAttempt (at_number t))),
      dv_response := None, dv_error := Some e, dv_updatedAt := now\<rparr>"
    let ?failed = "?w\<lparr>wd_deliveries := sql_update dv_id ?i ?f (wd_deliveries w)\<rparr>"
    have "once_inv (if ?exhausted then ?failed else scheduleRetry ?i (now + backoffForAttempt (at_number t)) ?failed)"
      by (rule rest [where f = ?f]) auto
    then show ?thesis using Some \<open>map_of (wd_attempts w) k = Some t\<close> by (simp add: end_attempt_def Let_def)
  qed
qed

lemma once_inv_start:
  assumes ok: "once_inv w" and tables: "tables_ok w" and quiet: "wd_listening w \<or> wd_attempts w = []"
  shows "once_inv (start_dispatcher now w)"
proof (cases "wd_listening w")
  case True
  then show ?thesis using ok by (simp add: start_dispatcher_def)
next
  case False
  let ?w = "start_dispatcher now w"
  have w: "wd_deliveries ?w = wd_deliveries w" "wd_attempts ?w = []" "wd_succeeded ?w = wd_succeeded w"
    using False quiet by (simp_all add: start_dispatcher_def)
  have "timed ?w = timed w \<union> dv_id ` set (filter (\<lambda>r. dv_status r \<in> {Retrying, Pending}) (wd_deliveries w))"
    using False by (simp add: start_dispatcher_def timed_fold)
  moreover have "under_way ?w = {}" using w(2) by (simp add: under_way_def)
  moreover have "r = x" if "r \<in> set (wd_deliveries w)" "x \<in> set (wd_deliveries w)" "dv_id r = dv_id x" for r x
    using tables that by (metis distinct_map inj_onD tables_ok_def)
  ultimately show ?thesis using ok w unfolding once_inv_def by fastforce
qed

lemma once_inv_step:
  assumes ok: "once_inv w" and tables: "tables_ok w" and "calm a w"
  shows "once_inv (dispatcher_step a w)"
proof (cases a)
  case (De_create pf d i random now input)
  then show ?thesis by (simp add: once_inv_cong [OF ok])
next
  case (De_update pf i now input)
  then show ?thesis by (simp add: once_inv_cong [OF ok])
next
  case (De_delete i)
  then show ?thesis using ok by (auto simp: once_inv_def deleteWebhook_def set_sql_delete)
next
  case (De_event e)
  then show ?thesis using ok once_inv_cong [OF ok, of "dispatchEvent e w"] by (simp add: dispatchEvent_def)
next
  case (De_continue k fresh now)
  have "once_inv (w\<lparr>wd_dispatches := d\<rparr>)" "unused fresh (w\<lparr>wd_dispatches := d\<rparr>)" for d
    using assms(3) De_continue by (simp_all add: once_inv_cong [OF ok] unused_def)
  then show ?thesis
    using De_continue ok unfolding De_continue dispatcher_step.simps continue_dispatch_def Let_def
    by (auto simp: once_inv_dispatch split: option.split list.split)
next
  case (De_test i fresh e now)
  then show ?thesis using ok assms(3) by (simp add: testWebhook_def once_inv_dispatch split: option.split)
next
  case (De_retry webhook i now)
  then have "i \<notin> under_way w" using assms(3) by (simp add: under_way_def)
  then show ?thesis using De_retry ok by (simp add: once_inv_retry)
next
  case De_stop
  then show ?thesis using ok by (auto simp: stop_dispatcher_def once_inv_def timed_def)
next
  case De_restart
  then show ?thesis using ok by (auto simp: restart_def once_inv_def timed_def under_way_def)
qed (use assms in \<open>simp_all add: once_inv_timer once_inv_answer once_inv_start\<close>)

interpretation once: step_invariant dispatcher_step calm "\<lambda>w. dispatcher_inv w \<and> once_inv w"
  by unfold_locales (simp add: dispatcher_inv_step once_inv_step dispatcher_inv_def [THEN iffD1, THEN conjunct1])

text \<open>
  C28. Unless a delivery is repeated by hand while an attempt at it is under way, or the dispatcher started
  again before all attempts are answered, no delivery succeeds twice, and one that succeeded is no longer
  under way or waiting for a repetition.
\<close>
theorem delivered_once:
  assumes "calm_run steps dispatcher_start" and "w = fold dispatcher_step steps dispatcher_start"
  shows "distinct (wd_succeeded w) \<and> list_all (\<lambda>(k, t). at_delivery t \<notin> set (wd_succeeded w)) (wd_attempts w) \<and>
    list_all (\<lambda>(i, due). i \<notin> set (wd_succeeded w)) (wd_timers w)"
proof -
  have "dispatcher_inv dispatcher_start" "once_inv dispatcher_start"
    using dispatcher_inv_run [of "[]"] by (simp_all add: once_inv_def dispatcher_start_def timed_def under_way_def)
  then have inv: "once_inv w" using once.good_run [of dispatcher_start steps] assms by (simp add: calm_run_def)
  have "i \<notin> set (wd_succeeded w)" if "(i, due) \<in> set (wd_timers w)" for i due
  proof -
    have "i \<in> timed w" using that by (force simp: timed_def)
    then show ?thesis using inv by (auto simp: once_inv_def)
  qed
  moreover have "at_delivery t \<notin> set (wd_succeeded w)" if "(k, t) \<in> set (wd_attempts w)" for k t
  proof -
    have "at_delivery t \<in> under_way w" using that by (force simp: under_way_def)
    then show ?thesis using inv by (auto simp: once_inv_def)
  qed
  ultimately show ?thesis using inv by (auto simp: once_inv_def list_all_iff)
qed

section \<open>Runs\<close>

definition sample_event :: bus_event where
  "sample_event =
     \<lparr>be_id = ''e'', be_type = ''task.done'', be_payload = JObj [], be_timestamp = 1, be_source = ''test'',
      be_correlation = ''c''\<rparr>"

definition sample_steps :: "dispatcher_event list" where
  "sample_steps =
     [De_create example_platform 2 ''w'' ''s'' 1
        \<lparr>hi_url = ''https://example.org/hook'', hi_events = [Some ''*''], hi_secret = None, hi_active = None,
         hi_maxRetries = None\<rparr>,
      De_start 2, De_event sample_event, De_continue 0 ''d'' 3, De_answer 1 (Status 503) 4]"

text \<open>Two requests under way for one delivery: by hand while the first waits, both answered.\<close>

definition by_hand :: "dispatcher_event list" where
  "by_hand = butlast sample_steps @ [De_retry ''w'' ''d'' 4, De_answer 1 (Status 200) 5, De_answer 2 (Status 200) 6]"

text \<open>The dispatcher stopped and started while an attempt is under way.\<close>

definition restarted :: "dispatcher_event list" where
  "restarted = butlast sample_steps @ [De_stop, De_start 4, De_timer ''d'' 5, De_answer 1 (Status 200) 6, De_answer 2 (Status 200) 7]"

lemma sample_row:
  "(let w = fold dispatcher_step sample_steps dispatcher_start in
      wd_listening w \<and> (\<exists>r\<in>set (wd_deliveries w). dv_id r = ''d'' \<and> dv_status r = Retrying) \<and> wd_timers w = [(''d'', 1004)])"
  by code_simp

theorem no_delivery_forgotten_witness:
  "\<exists>r\<in>set (wd_deliveries (fold dispatcher_step sample_steps dispatcher_start)). dv_status r = Retrying \<and>
     (dv_id r \<in> set (map fst (wd_timers (fold dispatcher_step sample_steps dispatcher_start))) \<or>
      (\<exists>k t. (k, t) \<in> set (wd_attempts (fold dispatcher_step sample_steps dispatcher_start)) \<and> at_delivery t = dv_id r))"
proof -
  obtain r where r: "r \<in> set (wd_deliveries (fold dispatcher_step sample_steps dispatcher_start))" "dv_status r = Retrying"
    and listening: "wd_listening (fold dispatcher_step sample_steps dispatcher_start)"
    using sample_row unfolding Let_def by blast
  then show ?thesis using no_delivery_forgotten [OF refl listening r(1)] by blast
qed

theorem delivered_once_witness:
  "let w = fold dispatcher_step (sample_steps @ [De_timer ''d'' 1004, De_answer 2 (Status 200) 1005]) dispatcher_start in
   wd_succeeded w = [''d''] \<and> distinct (wd_succeeded w)"
proof -
  have "calm_run (sample_steps @ [De_timer ''d'' 1004, De_answer 2 (Status 200) 1005]) dispatcher_start" by code_simp
  note once = delivered_once [OF this refl]
  moreover have "wd_succeeded (fold dispatcher_step (sample_steps @ [De_timer ''d'' 1004, De_answer 2 (Status 200) 1005])
      dispatcher_start) = [''d'']" by code_simp
  ultimately show ?thesis unfolding Let_def by blast
qed

text \<open>
  Repeated by hand while an attempt is under way, or after a restart of the dispatcher meanwhile, a delivery
  succeeds twice: the receiver gets the event twice.
\<close>
theorem repeated_while_under_way:
  "wd_succeeded (fold dispatcher_step by_hand dispatcher_start) = [''d'', ''d''] \<and>
   wd_succeeded (fold dispatcher_step restarted dispatcher_start) = [''d'', ''d'']"
  by code_simp


text \<open>A second webhook is not told of an event because the first was deleted before the answer came.\<close>

definition second_webhook :: webhook where
  "second_webhook = sample_webhook\<lparr>wh_id := ''v'', wh_createdAt := 0\<rparr>"

lemma deleted_webhook_ends_dispatch:
  "(let w = fold dispatcher_step [De_event sample_event, De_continue 0 ''d1'' 3, De_delete ''w'', De_answer 1 (Status 200) 4,
        De_continue 0 ''d2'' 5]
      (dispatcher_start\<lparr>wd_webhooks := [second_webhook, sample_webhook], wd_listening := True\<rparr>)
    in (map wh_id (wd_webhooks w), wd_deliveries w, wd_dispatches w, wd_attempts w)) = ([''v''], [], [], [])"
  by code_simp

end
