(* ===== verification/Lifecycle.thy ===== *)
theory Lifecycle
  imports Prelude Runs "HOL-Library.AList"
begin

text \<open>
  The life of the agent in src/agent/lifecycle.ts: starting and stopping, whose functions take their time,
  and calls that wait for them. The functions are asynchronous: they do not throw before they first wait.
\<close>

section \<open>States\<close>

datatype agent_state = Stopped | Starting | Running | Stopping

record state_change =
  ch_state :: agent_state
  ch_error :: "string option"
  ch_time :: int

text \<open>
  The fields of the object, the changes it has emitted, and what waits: the start and stop functions at
  work, the calls of stop that wait for a start, and those whose start has succeeded and that go on next.
\<close>

record 'f lifecycle =
  lc_state :: agent_state
  lc_error :: "string option"
  lc_since :: "int option"
  lc_startFn :: "'f option"
  lc_stopFn :: "'f option"
  lc_startPromise :: "nat option"
  lc_stopPromise :: "nat option"
  lc_changes :: "state_change list"
  lc_starts :: "(nat \<times> 'f) list"
  lc_stops :: "(nat \<times> 'f) list"
  lc_waits :: "(nat \<times> nat \<times> 'f) list"
  lc_ready :: "(nat \<times> 'f) list"
  lc_next :: nat

definition new_lifecycle :: "'f lifecycle" where
  "new_lifecycle =
     \<lparr>lc_state = Stopped, lc_error = None, lc_since = None, lc_startFn = None, lc_stopFn = None, lc_startPromise = None,
      lc_stopPromise = None, lc_changes = [], lc_starts = [], lc_stops = [], lc_waits = [], lc_ready = [], lc_next = 0\<rparr>"

definition getUptime :: "int \<Rightarrow> 'f lifecycle \<Rightarrow> int option" where
  "getUptime now w =
     (if lc_state w \<noteq> Running then None else map_option (\<lambda>since. (now - since) div 1000) (lc_since w))"

definition registerCallbacks :: "'f \<Rightarrow> 'f \<Rightarrow> 'f lifecycle \<Rightarrow> 'f lifecycle" where
  "registerCallbacks f g w = w\<lparr>lc_startFn := Some f, lc_stopFn := Some g\<rparr>"

definition transition :: "int \<Rightarrow> agent_state \<Rightarrow> string option \<Rightarrow> 'f lifecycle \<Rightarrow> 'f lifecycle" where
  "transition now st e w =
     w\<lparr>lc_state := st, lc_changes := lc_changes w @ [\<lparr>ch_state = st, ch_error = e, ch_time = now\<rparr>]\<rparr>"

section \<open>Starting and stopping\<close>

text \<open>A call throws, returns, or gives a promise: of the call or function with this number.\<close>

datatype reply = Refused string | Returned | Promised nat

definition start :: "int \<Rightarrow> 'f option \<Rightarrow> 'f lifecycle \<Rightarrow> reply \<times> 'f lifecycle" where
  "start now fn w =
     (case (case fn of Some f \<Rightarrow> Some f | None \<Rightarrow> lc_startFn w) of
        None \<Rightarrow> (Refused ''No start function provided or registered'', w)
      | Some f \<Rightarrow>
          (case lc_state w of
             Running \<Rightarrow> (Returned, w)
           | Starting \<Rightarrow> ((case lc_startPromise w of None \<Rightarrow> Returned | Some k \<Rightarrow> Promised k), w)
           | Stopping \<Rightarrow> (Refused ''Cannot start while agent is stopping'', w)
           | Stopped \<Rightarrow>
               let k = lc_next w in
               (Promised k, (transition now Starting None w)
                  \<lparr>lc_starts := lc_starts w @ [(k, f)], lc_startPromise := Some k, lc_next := Suc k\<rparr>)))"

definition start_ends :: "nat \<Rightarrow> string option \<Rightarrow> int \<Rightarrow> 'f lifecycle \<Rightarrow> 'f lifecycle" where
  "start_ends k failure now w =
     (case map_of (lc_starts w) k of
        None \<Rightarrow> w
      | Some f \<Rightarrow>
          let w' = w\<lparr>lc_starts := AList.delete k (lc_starts w), lc_startPromise := None,
                lc_waits := filter (\<lambda>(i, j, g). j \<noteq> k) (lc_waits w)\<rparr> in
          (case failure of
             None \<Rightarrow> (transition now Running None w')\<lparr>lc_error := None, lc_since := Some now,
               lc_ready := lc_ready w @ map (\<lambda>(i, j, g). (i, g)) (filter (\<lambda>(i, j, g). j = k) (lc_waits w))\<rparr>
           | Some e \<Rightarrow> (transition now Stopped (Some e) w')\<lparr>lc_error := Some e, lc_since := None\<rparr>))"

definition begin_stop :: "int \<Rightarrow> 'f \<Rightarrow> 'f lifecycle \<Rightarrow> 'f lifecycle" where
  "begin_stop now f w =
     (transition now Stopping None w)
       \<lparr>lc_stops := lc_stops w @ [(lc_next w, f)], lc_stopPromise := Some (lc_next w), lc_next := Suc (lc_next w)\<rparr>"

definition stop :: "int \<Rightarrow> 'f option \<Rightarrow> 'f lifecycle \<Rightarrow> reply \<times> 'f lifecycle" where
  "stop now fn w =
     (case (case fn of Some f \<Rightarrow> Some f | None \<Rightarrow> lc_stopFn w) of
        None \<Rightarrow> (Refused ''No stop function provided or registered'', w)
      | Some f \<Rightarrow>
          (case (lc_state w, lc_startPromise w) of
             (Stopped, p) \<Rightarrow> (Returned, w)
           | (Stopping, p) \<Rightarrow> ((case lc_stopPromise w of None \<Rightarrow> Returned | Some k \<Rightarrow> Promised k), w)
           | (Starting, Some k) \<Rightarrow>
               (Promised (lc_next w), w\<lparr>lc_waits := lc_waits w @ [(lc_next w, k, f)], lc_next := Suc (lc_next w)\<rparr>)
           | p \<Rightarrow> (Promised (lc_next w), begin_stop now f w)))"

text \<open>A call of stop whose start has succeeded goes on.\<close>

definition resume_stop :: "nat \<Rightarrow> int \<Rightarrow> 'f lifecycle \<Rightarrow> 'f lifecycle" where
  "resume_stop i now w =
     (case map_of (lc_ready w) i of
        None \<Rightarrow> w
      | Some f \<Rightarrow> begin_stop now f (w\<lparr>lc_ready := AList.delete i (lc_ready w)\<rparr>))"

text \<open>The end of a stop function; that it failed is only logged.\<close>

definition stop_ends :: "nat \<Rightarrow> int \<Rightarrow> 'f lifecycle \<Rightarrow> 'f lifecycle" where
  "stop_ends k now w =
     (case map_of (lc_stops w) k of
        None \<Rightarrow> w
      | Some f \<Rightarrow> (transition now Stopped None w)
          \<lparr>lc_stops := AList.delete k (lc_stops w), lc_since := None, lc_stopPromise := None\<rparr>)"

section \<open>Interleaving\<close>

datatype 'f lifecycle_event =
    Lc_register 'f 'f
  | Lc_start int "'f option"
  | Lc_stop int "'f option"
  | Lc_start_ends nat "string option" int
  | Lc_resume nat int
  | Lc_stop_ends nat int

fun lifecycle_step :: "'f lifecycle_event \<Rightarrow> 'f lifecycle \<Rightarrow> 'f lifecycle" where
  "lifecycle_step (Lc_register f g) w = registerCallbacks f g w"
| "lifecycle_step (Lc_start now fn) w = snd (start now fn w)"
| "lifecycle_step (Lc_stop now fn) w = snd (stop now fn w)"
| "lifecycle_step (Lc_start_ends k failure now) w = start_ends k failure now w"
| "lifecycle_step (Lc_resume i now) w = resume_stop i now w"
| "lifecycle_step (Lc_stop_ends k now) w = stop_ends k now w"

section \<open>The state tells what is at work\<close>

text \<open>No second stop is called while one waits for a start.\<close>

fun one_stop :: "'f lifecycle_event \<Rightarrow> 'f lifecycle \<Rightarrow> bool" where
  "one_stop (Lc_stop now fn) w = (lc_waits w = [] \<and> lc_ready w = [])"
| "one_stop _ w = True"

definition life_edges :: "(agent_state \<times> agent_state) list" where
  "life_edges = [(Stopped, Starting), (Starting, Running), (Starting, Stopped), (Running, Stopping), (Stopping, Stopped)]"

fun life_path :: "agent_state \<Rightarrow> agent_state list \<Rightarrow> bool" where
  "life_path s [] = True"
| "life_path s (t # ts) = ((s, t) \<in> set life_edges \<and> life_path t ts)"

fun path_end :: "'a \<Rightarrow> 'a list \<Rightarrow> 'a" where
  "path_end s [] = s"
| "path_end s (t # ts) = path_end t ts"

lemma life_path_snoc [simp]: "life_path s (ts @ [t]) \<longleftrightarrow> life_path s ts \<and> (path_end s ts, t) \<in> set life_edges"
  by (induction ts arbitrary: s) auto

lemma path_end_snoc [simp]: "path_end s (ts @ [t]) = t"
  by (induction ts arbitrary: s) auto

definition at_work :: "'f lifecycle \<Rightarrow> bool" where
  "at_work w =
     (case lc_state w of
        Stopped \<Rightarrow> lc_starts w = [] \<and> lc_stops w = [] \<and> lc_waits w = [] \<and> lc_ready w = []
      | Starting \<Rightarrow> (\<exists>k f. lc_starts w = [(k, f)] \<and> lc_startPromise w = Some k \<and>
            list_all (\<lambda>(i, j, g). j = k) (lc_waits w)) \<and> length (lc_waits w) \<le> 1 \<and> lc_stops w = [] \<and> lc_ready w = []
      | Running \<Rightarrow> lc_starts w = [] \<and> lc_stops w = [] \<and> lc_waits w = [] \<and> length (lc_ready w) \<le> 1 \<and> lc_since w \<noteq> None
      | Stopping \<Rightarrow> lc_starts w = [] \<and> length (lc_stops w) = 1 \<and> lc_waits w = [] \<and> lc_ready w = [])"

definition life_ok :: "'f lifecycle \<Rightarrow> bool" where
  "life_ok w =
     (at_work w \<and> life_path Stopped (map ch_state (lc_changes w)) \<and>
      path_end Stopped (map ch_state (lc_changes w)) = lc_state w)"

lemma single_waits: "length xs \<le> 1 \<Longrightarrow> xs = [] \<or> (\<exists>x. xs = [x])"
  by (cases xs) auto

lemmas life_simps = life_ok_def at_work_def transition_def life_edges_def

lemma life_ok_start: "life_ok w \<Longrightarrow> life_ok (snd (start now fn w))"
  by (auto simp: start_def life_simps Let_def split: option.split agent_state.splits)

lemma life_ok_begin_stop:
  "life_ok w \<Longrightarrow> lc_state w = Running \<Longrightarrow> lc_ready w = [] \<Longrightarrow> life_ok (begin_stop now f w)"
  by (simp add: begin_stop_def life_simps)

lemma life_ok_stop:
  assumes "life_ok w" and "lc_waits w = []" "lc_ready w = []"
  shows "life_ok (snd (stop now fn w))"
proof (cases "case fn of Some f \<Rightarrow> Some f | None \<Rightarrow> lc_stopFn w")
  case (Some f)
  show ?thesis
  proof (cases "lc_state w")
    case Starting
    then show ?thesis using assms Some by (auto simp: stop_def life_simps)
  next
    case Running
    then show ?thesis using assms Some by (simp add: stop_def life_ok_begin_stop)
  qed (use assms Some in \<open>simp_all add: stop_def\<close>)
qed (use assms in \<open>simp add: stop_def\<close>)

lemma life_ok_start_ends: "life_ok w \<Longrightarrow> life_ok (start_ends k failure now w)"
proof (cases "map_of (lc_starts w) k")
  case (Some f)
  assume ok: "life_ok w"
  then have st: "lc_state w = Starting" "lc_starts w = [(k, f)]" "lc_stops w = []" "lc_ready w = []"
    "length (lc_waits w) \<le> 1" "list_all (\<lambda>(i, j, g). j = k) (lc_waits w)"
    using Some by (auto simp: life_ok_def at_work_def split: agent_state.splits if_splits)
  then have waits: "filter (\<lambda>(i, j, g). j \<noteq> k) (lc_waits w) = []" by (auto simp: filter_empty_conv list_all_iff)
  have short: "length (filter p (lc_waits w)) \<le> 1" for p using st(5) length_filter_le le_trans by blast
  show ?thesis
    using ok st(1-4) Some waits short
    by (auto simp: start_ends_def Let_def life_simps AList.delete_eq split: option.split)
qed (simp add: start_ends_def)

lemma life_ok_resume: "life_ok w \<Longrightarrow> life_ok (resume_stop i now w)"
proof (cases "map_of (lc_ready w) i")
  case (Some f)
  assume ok: "life_ok w"
  then have st: "lc_state w = Running" "length (lc_ready w) \<le> 1"
    using Some by (auto simp: life_ok_def at_work_def split: agent_state.splits)
  then have "AList.delete i (lc_ready w) = []" using Some by (cases "lc_ready w") (auto simp: AList.delete_eq split: if_splits)
  then show ?thesis using ok st(1) Some by (simp add: resume_stop_def begin_stop_def life_simps)
qed (simp add: resume_stop_def)

lemma life_ok_stop_ends: "life_ok w \<Longrightarrow> life_ok (stop_ends k now w)"
proof (cases "map_of (lc_stops w) k")
  case (Some f)
  assume ok: "life_ok w"
  then have st: "lc_state w = Stopping" "length (lc_stops w) = 1"
    using Some by (auto simp: life_ok_def at_work_def split: agent_state.splits)
  then have "AList.delete k (lc_stops w) = []" using Some by (cases "lc_stops w") (auto simp: AList.delete_eq split: if_splits)
  then show ?thesis using ok st(1) Some by (simp add: stop_ends_def life_simps)
qed (simp add: stop_ends_def)

lemma life_ok_register [simp]: "life_ok (registerCallbacks f g w) = life_ok w"
  by (cases "lc_state w") (simp_all add: registerCallbacks_def life_ok_def at_work_def)

lemma life_ok_step: "life_ok w \<Longrightarrow> one_stop e w \<Longrightarrow> life_ok (lifecycle_step e w)"
  by (cases e)
    (simp_all add: life_ok_start life_ok_stop life_ok_start_ends life_ok_resume life_ok_stop_ends)

interpretation living: step_invariant lifecycle_step one_stop life_ok
  by unfold_locales (rule life_ok_step)

text \<open>
  C32. As long as stop is not called again while one call of it waits for a start, the state tells what is at
  work: one start function exactly in the state starting, one stop function exactly in the state stopping,
  and none otherwise; there is an uptime exactly when the agent runs; and the changes that were emitted
  are a path through the states, which ends in the present one.
\<close>
theorem state_tells_work:
  assumes "allowed_run lifecycle_step one_stop es new_lifecycle" and "w = fold lifecycle_step es new_lifecycle"
  shows "length (lc_starts w) = (if lc_state w = Starting then 1 else 0) \<and>
    length (lc_stops w) = (if lc_state w = Stopping then 1 else 0) \<and>
    (getUptime now w \<noteq> None \<longleftrightarrow> lc_state w = Running) \<and>
    life_path Stopped (map ch_state (lc_changes w)) \<and> path_end Stopped (map ch_state (lc_changes w)) = lc_state w"
proof -
  have "life_ok (new_lifecycle :: 'a lifecycle)" by (simp add: life_simps new_lifecycle_def)
  then have "life_ok w" using living.good_run assms by blast
  then show ?thesis
    by (auto simp: life_ok_def at_work_def getUptime_def split: agent_state.splits)
qed

definition started_and_stopped :: "string lifecycle_event list" where
  "started_and_stopped =
     [Lc_register ''up'' ''down'', Lc_start 1000 None, Lc_stop 2000 None, Lc_start 2500 None, Lc_start_ends 0 None 3000,
      Lc_resume 1 3000, Lc_stop_ends 2 4000, Lc_start 5000 None, Lc_start_ends 3 None 6000]"

theorem state_tells_work_witness:
  "life_path Stopped (map ch_state (lc_changes (fold lifecycle_step started_and_stopped new_lifecycle))) \<and>
   map ch_state (lc_changes (fold lifecycle_step started_and_stopped new_lifecycle)) =
     [Starting, Running, Stopping, Stopped, Starting, Running] \<and>
   getUptime 9500 (fold lifecycle_step started_and_stopped new_lifecycle) = Some 3"
proof -
  have "allowed_run lifecycle_step one_stop started_and_stopped new_lifecycle" by code_simp
  from state_tells_work [OF this refl]
  have "life_path Stopped (map ch_state (lc_changes (fold lifecycle_step started_and_stopped new_lifecycle)))" by blast
  moreover have "map ch_state (lc_changes (fold lifecycle_step started_and_stopped new_lifecycle)) =
     [Starting, Running, Stopping, Stopped, Starting, Running]" by code_simp
  moreover have "getUptime 9500 (fold lifecycle_step started_and_stopped new_lifecycle) = Some 3" by code_simp
  ultimately show ?thesis by blast
qed

text \<open>
  Two calls of stop during a start run the stop function twice, and when the second ends after the agent
  was started again, the agent that runs is reported as stopped.
\<close>

definition stopped_twice :: "string lifecycle_event list" where
  "stopped_twice =
     [Lc_register ''up'' ''down'', Lc_start 1 None, Lc_stop 2 None, Lc_stop 3 None, Lc_start_ends 0 None 4,
      Lc_resume 1 5, Lc_resume 2 5, Lc_stop_ends 3 6, Lc_start 7 None, Lc_start_ends 5 None 8, Lc_stop_ends 4 9]"

lemma running_agent_reported_stopped:
  "(let w = fold lifecycle_step stopped_twice new_lifecycle
    in (map ch_state (lc_changes w), lc_state w, lc_since w)) =
   ([Starting, Running, Stopping, Stopping, Stopped, Starting, Running, Stopped], Stopped, None)"
  by code_simp

end
