(* ===== verification/LruCache.thy ===== *)
theory LruCache
  imports JsNumber Runs "HOL-Library.AList"
begin

text \<open>
  The cache of src/utils/weighted-lru-cache.ts: entries with a time to live, evicted by recency and
  frequency of use.

  A \<open>Map\<close> is an association list in insertion order. The binary logarithm of the language and the memory
  of the host are given.
\<close>

section \<open>Entries\<close>

record 'v entry =
  en_value :: 'v
  en_expiresAt :: int
  en_accessCount :: nat
  en_lastAccessed :: int

record adaptive_size =
  as_low :: int
  as_normal :: int
  as_high :: int

record ('k, 'v) cache =
  ca_store :: "('k \<times> 'v entry) list"
  ca_ttl :: int
  ca_adaptive :: "adaptive_size option"
  ca_weight :: js_num
  ca_max :: int
  ca_hits :: nat
  ca_misses :: nat
  ca_evictions :: nat
  ca_expirations :: nat

text \<open>The memory of the host: all of it, and what is free.\<close>

type_synonym host_memory = "int \<times> int"

definition getAdaptiveCacheSize :: "host_memory \<Rightarrow> adaptive_size \<Rightarrow> int" where
  "getAdaptiveCacheSize memory sizes =
     (let (total, free) = memory in
      if total \<le> 0 then as_normal sizes
      else let usedRatio = js_int_div (total - free) total in
        if js_gt usedRatio (fl (4 / 5)) then as_low sizes
        else if js_gt usedRatio (fl (3 / 5)) then as_normal sizes
        else as_high sizes)"

record cache_options =
  co_maxSize :: "int option"
  co_adaptiveSize :: "adaptive_size option"
  co_ttlMs :: int
  co_frequencyWeightMs :: "js_num option"

definition new_cache :: "host_memory \<Rightarrow> cache_options \<Rightarrow> string + ('k, 'v) cache" where
  "new_cache memory opts =
     (case (co_maxSize opts, co_adaptiveSize opts) of
        (None, None) \<Rightarrow> Inl ''WeightedLRUCache requires either maxSize or adaptiveSize''
      | (size_given, sizes) \<Rightarrow> Inr
          \<lparr>ca_store = [], ca_ttl = co_ttlMs opts, ca_adaptive = sizes,
           ca_weight = (case co_frequencyWeightMs opts of None \<Rightarrow> Num 0 | Some x \<Rightarrow> x),
           ca_max = (case size_given of Some n \<Rightarrow> n | None \<Rightarrow> (case sizes of None \<Rightarrow> 0 | Some a \<Rightarrow> getAdaptiveCacheSize memory a)),
           ca_hits = 0, ca_misses = 0, ca_evictions = 0, ca_expirations = 0\<rparr>)"

section \<open>Eviction\<close>

text \<open>Without a weight the oldest are deleted until there are few enough; the number of them is counted.\<close>

fun evict_oldest :: "int \<Rightarrow> ('k \<times> 'v entry) list \<Rightarrow> ('k \<times> 'v entry) list \<times> nat" where
  "evict_oldest limit [] = ([], 0)"
| "evict_oldest limit (x # xs) =
     (if limit < int (length (x # xs)) then (let (kept, n) = evict_oldest limit xs in (kept, Suc n)) else (x # xs, 0))"

definition entry_score :: "(nat \<Rightarrow> js_num) \<Rightarrow> js_num \<Rightarrow> 'v entry \<Rightarrow> js_num" where
  "entry_score log2 weight e = js_add (Num (of_int (en_lastAccessed e))) (js_mul weight (log2 (en_accessCount e + 1)))"

text \<open>The first entry with the least score, if any score is below infinity.\<close>

fun lowest_score ::
  "(nat \<Rightarrow> js_num) \<Rightarrow> js_num \<Rightarrow> 'k option \<Rightarrow> js_num \<Rightarrow> ('k \<times> 'v entry) list \<Rightarrow> 'k option" where
  "lowest_score log2 weight best least [] = best"
| "lowest_score log2 weight best least ((k, e) # rest) =
     (if js_lt (entry_score log2 weight e) least then lowest_score log2 weight (Some k) (entry_score log2 weight e) rest
      else lowest_score log2 weight best least rest)"

definition victim :: "(nat \<Rightarrow> js_num) \<Rightarrow> js_num \<Rightarrow> ('k \<times> 'v entry) list \<Rightarrow> 'k option" where
  "victim log2 weight store = lowest_score log2 weight None PosInf store"

lemma lowest_in_store: "lowest_score log2 weight best least xs = Some k \<Longrightarrow> best = Some k \<or> k \<in> fst ` set xs"
  by (induction log2 weight best least xs rule: lowest_score.induct) (auto split: if_splits)

lemma victim_in_store: "victim log2 weight store = Some k \<Longrightarrow> k \<in> fst ` set store"
  using lowest_in_store by (fastforce simp: victim_def)

lemma delete_shorter: "k \<in> fst ` set xs \<Longrightarrow> length (AList.delete k xs) < length xs"
proof -
  assume "k \<in> fst ` set xs"
  then obtain x where "x \<in> set xs" "\<not> fst x \<noteq> k" by auto
  then show ?thesis unfolding AList.delete_eq by (intro length_filter_less [of x]) auto
qed

function evict_weighted ::
  "(nat \<Rightarrow> js_num) \<Rightarrow> js_num \<Rightarrow> int \<Rightarrow> ('k \<times> 'v entry) list \<Rightarrow> ('k \<times> 'v entry) list \<times> nat" where
  "evict_weighted log2 weight limit store =
     (if int (length store) \<le> limit then (store, 0)
      else (case victim log2 weight store of
              None \<Rightarrow> (store, 0)
            | Some k \<Rightarrow> let (kept, n) = evict_weighted log2 weight limit (AList.delete k store) in (kept, Suc n)))"
  by pat_completeness auto

termination
  by (relation "measure (\<lambda>(log2, weight, limit, store). length store)") (simp_all add: delete_shorter victim_in_store)

declare evict_weighted.simps [simp del]

definition evictIfNeeded :: "(nat \<Rightarrow> js_num) \<Rightarrow> ('k, 'v) cache \<Rightarrow> ('k, 'v) cache" where
  "evictIfNeeded log2 c =
     (if int (length (ca_store c)) \<le> ca_max c then c
      else
        let (kept, n) = (if ca_weight c = Num 0 then evict_oldest (ca_max c) (ca_store c)
                         else evict_weighted log2 (ca_weight c) (ca_max c) (ca_store c))
        in c\<lparr>ca_store := kept, ca_evictions := ca_evictions c + n\<rparr>)"

section \<open>Operations\<close>

definition get_c :: "int \<Rightarrow> 'k \<Rightarrow> ('k, 'v) cache \<Rightarrow> 'v option \<times> ('k, 'v) cache" where
  "get_c now k c =
     (case map_of (ca_store c) k of
        None \<Rightarrow> (None, c\<lparr>ca_misses := Suc (ca_misses c)\<rparr>)
      | Some e \<Rightarrow>
          if en_expiresAt e < now then
            (None, c\<lparr>ca_store := AList.delete k (ca_store c), ca_expirations := Suc (ca_expirations c),
                     ca_misses := Suc (ca_misses c)\<rparr>)
          else
            (Some (en_value e),
             c\<lparr>ca_store := AList.delete k (ca_store c) @
                 [(k, e\<lparr>en_accessCount := Suc (en_accessCount e), en_lastAccessed := now\<rparr>)],
               ca_hits := Suc (ca_hits c)\<rparr>))"

definition peek_c :: "int \<Rightarrow> 'k \<Rightarrow> ('k, 'v) cache \<Rightarrow> 'v option" where
  "peek_c now k c =
     (case map_of (ca_store c) k of
        None \<Rightarrow> None
      | Some e \<Rightarrow> if en_expiresAt e < now then None else Some (en_value e))"

definition set_c ::
  "(nat \<Rightarrow> js_num) \<Rightarrow> host_memory \<Rightarrow> int \<Rightarrow> 'k \<Rightarrow> 'v \<Rightarrow> int option \<Rightarrow> ('k, 'v) cache \<Rightarrow> ('k, 'v) cache" where
  "set_c log2 memory now k v ttl c =
     (let c = (case ca_adaptive c of None \<Rightarrow> c | Some a \<Rightarrow> c\<lparr>ca_max := getAdaptiveCacheSize memory a\<rparr>);
          e = \<lparr>en_value = v, en_expiresAt = now + (case ttl of Some t \<Rightarrow> t | None \<Rightarrow> ca_ttl c),
               en_accessCount = (case map_of (ca_store c) k of Some old \<Rightarrow> en_accessCount old | None \<Rightarrow> 0),
               en_lastAccessed = now\<rparr>
      in evictIfNeeded log2 (c\<lparr>ca_store := AList.delete k (ca_store c) @ [(k, e)]\<rparr>))"

definition delete_c :: "'k \<Rightarrow> ('k, 'v) cache \<Rightarrow> bool \<times> ('k, 'v) cache" where
  "delete_c k c = (map_of (ca_store c) k \<noteq> None, c\<lparr>ca_store := AList.delete k (ca_store c)\<rparr>)"

definition clear_c :: "('k, 'v) cache \<Rightarrow> ('k, 'v) cache" where
  "clear_c c = c\<lparr>ca_store := []\<rparr>"

definition pruneExpired :: "int \<Rightarrow> ('k, 'v) cache \<Rightarrow> nat \<times> ('k, 'v) cache" where
  "pruneExpired now c =
     (let stale = filter (\<lambda>(k, e). en_expiresAt e < now) (ca_store c) in
      (length stale, c\<lparr>ca_store := filter (\<lambda>(k, e). \<not> en_expiresAt e < now) (ca_store c),
                       ca_expirations := ca_expirations c + length stale\<rparr>))"

record cache_metrics =
  cm_hits :: nat
  cm_misses :: nat
  cm_evictions :: nat
  cm_expirations :: nat
  cm_size :: nat
  cm_maxSize :: int
  cm_hitRatio :: js_num

definition getMetrics :: "('k, 'v) cache \<Rightarrow> cache_metrics" where
  "getMetrics c =
     (let total = ca_hits c + ca_misses c in
      \<lparr>cm_hits = ca_hits c, cm_misses = ca_misses c, cm_evictions = ca_evictions c, cm_expirations = ca_expirations c,
       cm_size = length (ca_store c), cm_maxSize = ca_max c,
       cm_hitRatio = (if total = 0 then Num 0 else js_int_div (int (ca_hits c)) (int total))\<rparr>)"

definition resetMetrics :: "('k, 'v) cache \<Rightarrow> ('k, 'v) cache" where
  "resetMetrics c = c\<lparr>ca_hits := 0, ca_misses := 0, ca_evictions := 0, ca_expirations := 0\<rparr>"

datatype ('k, 'v) cache_op =
    Ca_get int 'k
  | Ca_set host_memory int 'k 'v "int option"
  | Ca_delete 'k
  | Ca_clear
  | Ca_prune int
  | Ca_reset

fun cache_step :: "(nat \<Rightarrow> js_num) \<Rightarrow> ('k, 'v) cache_op \<Rightarrow> ('k, 'v) cache \<Rightarrow> ('k, 'v) cache" where
  "cache_step log2 (Ca_get now k) c = snd (get_c now k c)"
| "cache_step log2 (Ca_set memory now k v ttl) c = set_c log2 memory now k v ttl c"
| "cache_step log2 (Ca_delete k) c = snd (delete_c k c)"
| "cache_step log2 Ca_clear c = clear_c c"
| "cache_step log2 (Ca_prune now) c = snd (pruneExpired now c)"
| "cache_step log2 Ca_reset c = resetMetrics c"

section \<open>Values are current\<close>

lemma keys_delete: "map fst (AList.delete k xs) = filter (\<lambda>j. j \<noteq> k) (map fst xs)"
  by (induction xs) (auto simp: AList.delete_eq)

lemma keys_filter: "distinct (map fst xs) \<Longrightarrow> distinct (map fst (filter p xs))"
  by (rule distinct_map_filter)

lemma keys_put: "distinct (map fst xs) \<Longrightarrow> distinct (map fst (AList.delete k xs @ [(k, e)]))"
  by (auto simp: AList.delete_eq distinct_map_filter)

lemma evict_oldest_drop:
  "evict_oldest limit xs = (drop (length xs - nat limit) xs, length xs - nat limit)"
proof (induction xs)
  case (Cons x xs)
  show ?case
  proof (cases "limit < int (length (x # xs))")
    case True
    then have "Suc (length xs) - nat limit = Suc (length xs - nat limit)" by simp
    then show ?thesis using Cons True by simp
  next
    case False
    then show ?thesis by simp
  qed
qed simp

lemma evict_weighted_part: "\<exists>p. fst (evict_weighted log2 weight limit xs) = filter p xs"
proof (induction log2 weight limit xs rule: evict_weighted.induct)
  case (1 log2 weight limit xs)
  show ?case
  proof (cases "int (length xs) \<le> limit \<or> victim log2 weight xs = None")
    case True
    then have "fst (evict_weighted log2 weight limit xs) = filter (\<lambda>x. True) xs"
      by (auto simp: evict_weighted.simps [of log2 weight limit xs])
    then show ?thesis by blast
  next
    case False
    then obtain k where k: "\<not> int (length xs) \<le> limit" "victim log2 weight xs = Some k" by auto
    then obtain p where "fst (evict_weighted log2 weight limit (AList.delete k xs)) = filter p (AList.delete k xs)" using "1" by blast
    then have "fst (evict_weighted log2 weight limit xs) = filter (\<lambda>x. k \<noteq> fst x \<and> p x) xs"
      using k by (subst evict_weighted.simps) (simp add: split_beta AList.delete_eq)
    then show ?thesis by blast
  qed
qed

lemma drop_part: "distinct xs \<Longrightarrow> drop n xs = filter (\<lambda>x. x \<in> set (drop n xs)) xs"
proof -
  assume "distinct xs"
  then have "set (take n xs) \<inter> set (drop n xs) = {}" by (rule set_take_disj_set_drop_if_distinct) simp
  then have "filter (\<lambda>x. x \<in> set (drop n xs)) (take n xs) = []" by (auto simp: filter_empty_conv)
  moreover have "filter (\<lambda>x. x \<in> set (drop n xs)) (drop n xs) = drop n xs" by (simp add: filter_id_conv)
  ultimately show ?thesis by (metis append_Nil append_take_drop_id filter_append)
qed

lemma evict_part:
  assumes "distinct (map fst (ca_store c))"
  shows "\<exists>p. ca_store (evictIfNeeded log2 c) = filter p (ca_store c)"
proof (cases "int (length (ca_store c)) \<le> ca_max c")
  case True
  then have "ca_store (evictIfNeeded log2 c) = filter (\<lambda>x. True) (ca_store c)" by (simp add: evictIfNeeded_def)
  then show ?thesis by blast
next
  case False
  let ?n = "length (ca_store c) - nat (ca_max c)"
  have "drop ?n (ca_store c) = filter (\<lambda>x. x \<in> set (drop ?n (ca_store c))) (ca_store c)"
    using assms by (intro drop_part) (simp add: distinct_map)
  then show ?thesis
    using False evict_weighted_part [of log2 "ca_weight c" "ca_max c" "ca_store c"]
    by (cases "ca_weight c = Num 0") (auto simp: evictIfNeeded_def evict_oldest_drop split_beta Let_def)
qed

lemma evict_fields [simp]:
  "ca_ttl (evictIfNeeded log2 c) = ca_ttl c" "ca_weight (evictIfNeeded log2 c) = ca_weight c"
  "ca_max (evictIfNeeded log2 c) = ca_max c" "ca_adaptive (evictIfNeeded log2 c) = ca_adaptive c"
  "ca_hits (evictIfNeeded log2 c) = ca_hits c" "ca_misses (evictIfNeeded log2 c) = ca_misses c"
  by (simp_all add: evictIfNeeded_def split_beta Let_def)

text \<open>What was last set for a key and not deleted since, with the time it expires.\<close>

fun noted :: "int \<Rightarrow> ('k, 'v) cache_op \<Rightarrow> ('k \<Rightarrow> ('v \<times> int) option) \<Rightarrow> 'k \<Rightarrow> ('v \<times> int) option" where
  "noted ttl (Ca_set memory now k v t) m = m(k \<mapsto> (v, now + (case t of Some n \<Rightarrow> n | None \<Rightarrow> ttl)))"
| "noted ttl (Ca_delete k) m = m(k := None)"
| "noted ttl Ca_clear m = (\<lambda>k. None)"
| "noted ttl _ m = m"

definition current :: "int \<Rightarrow> ('k, 'v) cache \<times> ('k \<Rightarrow> ('v \<times> int) option) \<Rightarrow> bool" where
  "current ttl s =
     (ca_ttl (fst s) = ttl \<and> distinct (map fst (ca_store (fst s))) \<and>
      (\<forall>(k, e)\<in>set (ca_store (fst s)). snd s k = Some (en_value e, en_expiresAt e)))"

lemma current_filter:
  "current ttl (c, m) \<Longrightarrow> ca_store c' = filter p (ca_store c) \<Longrightarrow> ca_ttl c' = ca_ttl c \<Longrightarrow> current ttl (c', m)"
  by (auto simp: current_def distinct_map_filter)

lemma current_step: "current ttl (c, m) \<Longrightarrow> current ttl (cache_step log2 op c, noted ttl op m)"
proof (cases op)
  case (Ca_get now k)
  assume ok: "current ttl (c, m)"
  show ?thesis
  proof (cases "map_of (ca_store c) k")
    case (Some e)
    then have "m k = Some (en_value e, en_expiresAt e)" using ok map_of_SomeD [OF Some] by (auto simp: current_def)
    then show ?thesis using ok Some Ca_get
      by (auto simp: get_c_def current_def AList.delete_eq distinct_map_filter)
  qed (use ok Ca_get in \<open>simp add: get_c_def current_def\<close>)
next
  case (Ca_set memory now k v t)
  assume ok: "current ttl (c, m)"
  let ?c = "case ca_adaptive c of None \<Rightarrow> c | Some a \<Rightarrow> c\<lparr>ca_max := getAdaptiveCacheSize memory a\<rparr>"
  have same: "ca_store ?c = ca_store c" "ca_ttl ?c = ca_ttl c" by (simp_all split: option.split)
  let ?e = "\<lparr>en_value = v, en_expiresAt = now + (case t of Some n \<Rightarrow> n | None \<Rightarrow> ttl),
      en_accessCount = (case map_of (ca_store c) k of Some old \<Rightarrow> en_accessCount old | None \<Rightarrow> 0), en_lastAccessed = now\<rparr>"
  let ?d = "?c\<lparr>ca_store := AList.delete k (ca_store c) @ [(k, ?e)]\<rparr>"
  have d: "current ttl (?d, noted ttl op m)"
    using ok Ca_set same by (auto simp: current_def AList.delete_eq distinct_map_filter)
  then obtain p where "ca_store (evictIfNeeded log2 ?d) = filter p (ca_store ?d)"
    using evict_part [of ?d log2] by (auto simp: current_def)
  then have "current ttl (evictIfNeeded log2 ?d, noted ttl op m)" by (rule current_filter [OF d]) simp
  moreover have "cache_step log2 op c = evictIfNeeded log2 ?d"
    using Ca_set ok by (cases "ca_adaptive c"; cases t) (simp_all add: set_c_def Let_def current_def)
  ultimately show ?thesis by simp
next
  case (Ca_delete k)
  assume "current ttl (c, m)"
  then show ?thesis using Ca_delete by (auto simp: delete_c_def current_def AList.delete_eq distinct_map_filter)
next
  case (Ca_prune now)
  assume "current ttl (c, m)"
  then show ?thesis using Ca_prune by (simp add: pruneExpired_def Let_def) (erule current_filter; simp)
qed (simp_all add: current_def clear_c_def resetMetrics_def)

definition noted_step ::
  "(nat \<Rightarrow> js_num) \<Rightarrow> int \<Rightarrow> ('k, 'v) cache_op \<Rightarrow> ('k, 'v) cache \<times> ('k \<Rightarrow> ('v \<times> int) option) \<Rightarrow>
   ('k, 'v) cache \<times> ('k \<Rightarrow> ('v \<times> int) option)" where
  "noted_step log2 ttl op s = (cache_step log2 op (fst s), noted ttl op (snd s))"

interpretation fresh: step_invariant "noted_step log2 ttl" "\<lambda>op s. True" "current ttl" for log2 ttl
  by unfold_locales (metis current_step noted_step_def prod.collapse)

lemma noted_run: "fold (noted_step log2 ttl) ops (c, m) = (fold (cache_step log2) ops c, fold (noted ttl) ops m)"
  by (induction ops arbitrary: c m) (simp_all add: noted_step_def)

text \<open>
  C34. In every history of a cache, whatever it evicts, a value that is read is the one last set for its key,
  which was not deleted since, and its time is not over; looking without counting reads the same.
\<close>
theorem cached_values_current:
  assumes "new_cache memory opts = Inr c0" and "get_c now k (fold (cache_step log2) ops c0) = (Some v, c)"
  shows "peek_c now k (fold (cache_step log2) ops c0) = Some v \<and>
    (\<exists>e. fold (noted (co_ttlMs opts)) ops (\<lambda>k. None) k = Some (v, e) \<and> now \<le> e)"
proof -
  let ?ttl = "co_ttlMs opts"
  let ?c = "fold (cache_step log2) ops c0"
  have "current ?ttl (c0, \<lambda>k. None)"
    using assms(1) by (auto simp: new_cache_def current_def split: option.splits)
  then have ok: "current ?ttl (?c, fold (noted ?ttl) ops (\<lambda>k. None))"
    using fresh.good_run [of ?ttl "(c0, \<lambda>k. None)" log2 ops] by (simp add: noted_run)
  obtain e where e: "map_of (ca_store ?c) k = Some e" "now \<le> en_expiresAt e" "en_value e = v"
    using assms(2) by (auto simp: get_c_def split: option.splits if_splits)
  then have "fold (noted ?ttl) ops (\<lambda>k. None) k = Some (v, en_expiresAt e)"
    using ok map_of_SomeD [OF e(1)] by (auto simp: current_def)
  then show ?thesis using e by (simp add: peek_c_def)
qed

section \<open>What is kept\<close>

text \<open>The keys that operations use.\<close>

fun used_keys :: "('k, 'v) cache_op \<Rightarrow> ('k, 'v) cache \<Rightarrow> 'k list" where
  "used_keys (Ca_get now k) c = (if fst (get_c now k c) = None then [] else [k])"
| "used_keys (Ca_set memory now k v t) c = [k]"
| "used_keys _ c = []"

definition used_step ::
  "(nat \<Rightarrow> js_num) \<Rightarrow> ('k, 'v) cache_op \<Rightarrow> ('k, 'v) cache \<times> 'k list \<Rightarrow> ('k, 'v) cache \<times> 'k list" where
  "used_step log2 op s = (cache_step log2 op (fst s), snd s @ used_keys op (fst s))"

text \<open>Keys in the order of their last use: \<open>remdups\<close> keeps last occurrences.\<close>

definition by_use :: "'k list \<Rightarrow> 'k list \<Rightarrow> bool" where
  "by_use uses keys = (keys = filter (\<lambda>k. k \<in> set keys) (remdups uses))"

lemma remdups_snoc: "remdups (xs @ [k]) = filter (\<lambda>j. j \<noteq> k) (remdups xs) @ [k]"
  by (induction xs) auto

lemma by_use_filter:
  assumes "by_use uses keys"
  shows "by_use uses (filter p keys)"
proof -
  have "filter p keys = filter p (filter (\<lambda>k. k \<in> set keys) (remdups uses))"
    using assms unfolding by_use_def by (rule arg_cong)
  also have "\<dots> = filter (\<lambda>k. k \<in> set (filter p keys)) (remdups uses)"
    unfolding filter_filter by (rule filter_cong) auto
  finally show ?thesis unfolding by_use_def .
qed

lemma by_use_put:
  assumes "by_use uses keys"
  shows "by_use (uses @ [k]) (filter (\<lambda>j. j \<noteq> k) keys @ [k])"
proof -
  let ?ks = "filter (\<lambda>j. j \<noteq> k) keys"
  have ks: "filter (\<lambda>j. j \<in> set ?ks) (remdups uses) = ?ks"
    using by_use_filter [OF assms, of "\<lambda>j. j \<noteq> k"] unfolding by_use_def by (rule sym)
  have old: "filter (\<lambda>j. j \<in> set (?ks @ [k])) (filter (\<lambda>j. j \<noteq> k) (remdups uses)) = filter (\<lambda>j. j \<in> set ?ks) (remdups uses)"
    unfolding filter_filter by (rule filter_cong) auto
  have new: "filter (\<lambda>j. j \<in> set (?ks @ [k])) [k] = [k]" by simp
  show ?thesis unfolding by_use_def remdups_snoc filter_append [of _ "filter (\<lambda>j. j \<noteq> k) (remdups uses)"] old new ks ..
qed

definition lru_ok :: "('k, 'v) cache \<times> 'k list \<Rightarrow> bool" where
  "lru_ok s =
     (ca_weight (fst s) = Num 0 \<and> distinct (map fst (ca_store (fst s))) \<and> by_use (snd s) (map fst (ca_store (fst s))) \<and>
      int (length (ca_store (fst s))) \<le> max 0 (ca_max (fst s)))"

text \<open>Removing entries.\<close>

lemma lru_ok_filter:
  assumes "lru_ok (c, uses)" and "map fst (ca_store c') = filter p (map fst (ca_store c))"
    and "ca_weight c' = ca_weight c" "ca_max c' = ca_max c"
  shows "lru_ok (c', uses)"
proof -
  have "length (ca_store c') \<le> length (ca_store c)"
    using assms(2) length_filter_le [of p "map fst (ca_store c)"] by (metis length_map)
  then show ?thesis using assms(1,3,4) by_use_filter unfolding lru_ok_def fst_conv snd_conv assms(2) by fastforce
qed

lemma lru_ok_same:
  "lru_ok (c, uses) \<Longrightarrow> ca_store c' = ca_store c \<Longrightarrow> ca_weight c' = ca_weight c \<Longrightarrow> ca_max c' = ca_max c \<Longrightarrow> lru_ok (c', uses)"
  by (simp add: lru_ok_def)

text \<open>An insertion keeps the last keys.\<close>

lemma set_keeps_last:
  assumes "ca_weight c = Num 0" and c'_def: "c' = set_c log2 memory now k v t c"
  shows "map fst (ca_store c') = drop (Suc (length (filter (\<lambda>j. j \<noteq> k) (map fst (ca_store c)))) - nat (ca_max c'))
      (filter (\<lambda>j. j \<noteq> k) (map fst (ca_store c)) @ [k])" and "ca_weight c' = Num 0"
proof -
  let ?c = "case ca_adaptive c of None \<Rightarrow> c | Some a \<Rightarrow> c\<lparr>ca_max := getAdaptiveCacheSize memory a\<rparr>"
  have same: "ca_store ?c = ca_store c" "ca_weight ?c = Num 0" using assms(1) by (simp_all split: option.split)
  obtain e where c': "c' = evictIfNeeded log2 (?c\<lparr>ca_store := AList.delete k (ca_store c) @ [(k, e)]\<rparr>)"
    unfolding c'_def set_c_def Let_def same by blast
  let ?store = "AList.delete k (ca_store c) @ [(k, e)]"
  have keys: "map fst ?store = filter (\<lambda>j. j \<noteq> k) (map fst (ca_store c)) @ [k]" by (simp add: keys_delete)
  have size: "length ?store = Suc (length (filter (\<lambda>j. j \<noteq> k) (map fst (ca_store c))))"
    using arg_cong [OF keys, of length] by simp
  have store: "ca_store c' = drop (length ?store - nat (ca_max c')) ?store"
    using same(2) unfolding c' by (simp add: evictIfNeeded_def evict_oldest_drop)
  show "map fst (ca_store c') = drop (Suc (length (filter (\<lambda>j. j \<noteq> k) (map fst (ca_store c)))) - nat (ca_max c'))
      (filter (\<lambda>j. j \<noteq> k) (map fst (ca_store c)) @ [k])"
    unfolding store size drop_map [symmetric] keys ..
  show "ca_weight c' = Num 0" using same(2) by (simp add: c')
qed

lemma lru_ok_set:
  assumes "lru_ok (c, uses)"
  shows "lru_ok (set_c log2 memory now k v t c, uses @ [k])"
proof -
  let ?c = "set_c log2 memory now k v t c"
  let ?keys = "filter (\<lambda>j. j \<noteq> k) (map fst (ca_store c)) @ [k]"
  have w: "ca_weight c = Num 0" using assms by (simp add: lru_ok_def)
  let ?n = "Suc (length (filter (\<lambda>j. j \<noteq> k) (map fst (ca_store c)))) - nat (ca_max ?c)"
  note keys = set_keeps_last(1) [OF w refl, of log2 memory now k v t]
  have dist: "distinct ?keys" using assms by (auto simp: lru_ok_def)
  have "by_use (uses @ [k]) ?keys" using assms by (simp add: lru_ok_def by_use_put)
  then have "by_use (uses @ [k]) (filter (\<lambda>x. x \<in> set (drop ?n ?keys)) ?keys)" by (rule by_use_filter)
  then have "by_use (uses @ [k]) (map fst (ca_store ?c))" unfolding keys drop_part [OF dist, of ?n, symmetric] .
  moreover have "distinct (map fst (ca_store ?c))" unfolding keys using dist by (rule distinct_drop)
  moreover have "length (ca_store ?c) \<le> nat (ca_max ?c)"
  proof -
    have "length (ca_store ?c) = length ?keys - ?n" using arg_cong [OF keys, of length] by (simp only: length_map length_drop)
    moreover have "length ?keys = Suc (length (filter (\<lambda>j. j \<noteq> k) (map fst (ca_store c))))" by (simp only: length_append_singleton)
    ultimately show ?thesis by arith
  qed
  ultimately show ?thesis using set_keeps_last(2) [OF w refl] by (simp add: lru_ok_def)
qed

lemma length_without: "distinct xs \<Longrightarrow> k \<in> set xs \<Longrightarrow> Suc (length (filter (\<lambda>j. j \<noteq> k) xs)) = length xs"
proof (induction xs)
  case (Cons x xs)
  show ?case
  proof (cases "x = k")
    case True
    then have "filter (\<lambda>j. j \<noteq> k) xs = xs" using Cons.prems by (auto simp: filter_id_conv)
    then show ?thesis using True by simp
  qed (use Cons in auto)
qed simp

lemma lru_ok_get:
  assumes ok: "lru_ok (c, uses)"
  shows "lru_ok (snd (get_c now k c), uses @ used_keys (Ca_get now k) c)"
proof (cases "map_of (ca_store c) k")
  case None
  then show ?thesis using lru_ok_same [OF ok] by (simp add: get_c_def)
next
  case (Some e)
  show ?thesis
  proof (cases "en_expiresAt e < now")
    case True
    then show ?thesis using Some by (auto simp: get_c_def keys_delete intro!: lru_ok_filter [OF ok])
  next
    case False
    let ?keys = "filter (\<lambda>j. j \<noteq> k) (map fst (ca_store c)) @ [k]"
    have "k \<in> set (map fst (ca_store c))" using map_of_SomeD [OF Some] by force
    moreover have "distinct (map fst (ca_store c))" using ok by (simp add: lru_ok_def)
    ultimately have size: "length ?keys = length (ca_store c)" using length_without by (metis length_append_singleton length_map)
    let ?c = "snd (get_c now k c)"
    have keys: "map fst (ca_store ?c) = ?keys" using Some False by (simp add: get_c_def keys_delete)
    have "length (ca_store ?c) = length (ca_store c)" using arg_cong [OF keys, of length] size by simp
    moreover have "distinct ?keys" "by_use (uses @ [k]) ?keys" using ok by (auto simp: lru_ok_def by_use_put)
    moreover have "ca_weight ?c = ca_weight c" "ca_max ?c = ca_max c" "used_keys (Ca_get now k) c = [k]"
      using Some False by (simp_all add: get_c_def)
    ultimately show ?thesis using ok keys by (simp add: lru_ok_def)
  qed
qed

lemma keys_remaining:
  assumes "distinct (map fst xs)"
  shows "map fst (filter p xs) = filter (\<lambda>k. k \<in> fst ` set (filter p xs)) (map fst xs)"
proof -
  have "p x = (fst x \<in> fst ` set (filter p xs))" if "x \<in> set xs" for x
    using assms that by (auto simp: distinct_map inj_on_def)
  then have "filter p xs = filter (\<lambda>x. fst x \<in> fst ` set (filter p xs)) xs" by (rule filter_cong [OF refl])
  then show ?thesis unfolding filter_map o_def by (rule arg_cong)
qed

lemma lru_ok_step: "lru_ok s \<Longrightarrow> lru_ok (used_step log2 op s)"
proof (cases s; cases op)
  fix c uses now k
  assume "lru_ok s" "s = (c, uses)" "op = Ca_get now k"
  then show ?thesis using lru_ok_get [of c uses now k] by (simp add: used_step_def del: used_keys.simps)
next
  fix c uses now
  assume ok: "lru_ok s" and s: "s = (c, uses)" "op = Ca_prune now"
  then have dist: "distinct (map fst (ca_store c))" by (simp add: lru_ok_def)
  let ?c = "snd (pruneExpired now c)"
  have store: "ca_store ?c = filter (\<lambda>(k, e). \<not> en_expiresAt e < now) (ca_store c)"
    and fields: "ca_weight ?c = ca_weight c" "ca_max ?c = ca_max c" by (simp_all add: pruneExpired_def Let_def)
  have "lru_ok (?c, uses)"
    using ok [unfolded s(1)] keys_remaining [OF dist, of "\<lambda>(k, e). \<not> en_expiresAt e < now", folded store] fields
    by (rule lru_ok_filter)
  then show ?thesis using s by (simp add: used_step_def)
next
  fix c uses k
  assume "lru_ok s" "s = (c, uses)" "op = Ca_delete k"
  then show ?thesis by (simp add: used_step_def) (erule lru_ok_filter; simp add: delete_c_def keys_delete)
next
  fix c uses
  assume "lru_ok s" "s = (c, uses)" "op = Ca_reset"
  then show ?thesis by (simp add: used_step_def) (erule lru_ok_same; simp add: resetMetrics_def)
next
  fix c uses
  assume "lru_ok s" "s = (c, uses)" "op = Ca_clear"
  then show ?thesis by (simp add: used_step_def clear_c_def lru_ok_def by_use_def)
qed (simp add: used_step_def lru_ok_set)

interpretation lru: step_invariant "used_step log2" "\<lambda>op s. True" lru_ok for log2
  by unfold_locales (rule lru_ok_step)

lemma used_run_cache: "fst (fold (used_step log2) ops s) = fold (cache_step log2) ops (fst s)"
  by (induction ops arbitrary: s) (simp_all add: used_step_def)

text \<open>
  C33. A cache without a weight for frequency holds its keys in the order of their last use and never more
  than it may; when a value is set it evicts as many keys as it must, the least recently used ones.
\<close>
theorem recently_used_kept:
  assumes "new_cache memory opts = Inr c0" and "co_frequencyWeightMs opts = None"
    and "(c, uses) = fold (used_step log2) ops (c0, [])" and "after = set_c log2 memory' now k v t c"
  shows "map fst (ca_store c) = filter (\<lambda>j. j \<in> set (map fst (ca_store c))) (remdups uses) \<and>
    int (length (ca_store c)) \<le> max 0 (ca_max c) \<and>
    map fst (ca_store after) = drop (Suc (length (filter (\<lambda>j. j \<noteq> k) (map fst (ca_store c)))) - nat (ca_max after))
      (filter (\<lambda>j. j \<noteq> k) (map fst (ca_store c)) @ [k])"
proof -
  have "lru_ok (c0, [])"
    using assms(1,2) by (auto simp: new_cache_def lru_ok_def by_use_def split: option.splits)
  from lru.good_run [OF this, of log2 ops] have ok: "lru_ok (c, uses)" using assms(3) by simp
  then have "ca_weight c = Num 0" by (simp add: lru_ok_def)
  from set_keeps_last(1) [OF this assms(4)] show ?thesis using ok unfolding lru_ok_def by_use_def fst_conv snd_conv by blast
qed

text \<open>A cache of two entries: the one used least recently gives way.\<close>

definition two_entries :: cache_options where
  "two_entries = \<lparr>co_maxSize = Some 2, co_adaptiveSize = None, co_ttlMs = 100, co_frequencyWeightMs = None\<rparr>"

definition no_log :: "nat \<Rightarrow> js_num" where
  "no_log n = Num 0"

definition two_ops :: "(string, nat) cache_op list" where
  "two_ops = [Ca_set (0, 0) 1 ''a'' 10 None, Ca_set (0, 0) 2 ''b'' 20 None, Ca_get 3 ''a'']"

definition small_cache :: "(string, nat) cache" where
  "small_cache =
     \<lparr>ca_store = [], ca_ttl = 100, ca_adaptive = None, ca_weight = Num 0, ca_max = 2, ca_hits = 0, ca_misses = 0,
      ca_evictions = 0, ca_expirations = 0\<rparr>"

lemma small_cache_new: "new_cache (0, 0) two_entries = Inr small_cache"
  by (simp add: new_cache_def two_entries_def small_cache_def)

theorem recently_used_kept_witness:
  "map fst (ca_store (set_c no_log (0, 0) 4 ''c'' 30 None (fold (cache_step no_log) two_ops small_cache))) = [''a'', ''c''] \<and>
   map fst (ca_store (fold (cache_step no_log) two_ops small_cache)) =
     filter (\<lambda>j. j \<in> set (map fst (ca_store (fold (cache_step no_log) two_ops small_cache)))) (remdups [''a'', ''b'', ''a''])"
proof -
  obtain c uses where run: "(c, uses) = fold (used_step no_log) two_ops (small_cache, [])" by (metis prod.collapse)
  have "snd (fold (used_step no_log) two_ops (small_cache, [])) = [''a'', ''b'', ''a'']" by code_simp
  then have uses: "uses = [''a'', ''b'', ''a'']" and c: "c = fold (cache_step no_log) two_ops small_cache"
    using run used_run_cache [of no_log two_ops "(small_cache, [])"] by (metis snd_conv, metis fst_conv)
  have "co_frequencyWeightMs two_entries = None" by (simp add: two_entries_def)
  note kept = recently_used_kept [OF small_cache_new this run refl]
  have "map fst (ca_store (set_c no_log (0, 0) 4 ''c'' 30 None (fold (cache_step no_log) two_ops small_cache))) = [''a'', ''c'']"
    by code_simp
  then show ?thesis using kept unfolding uses c by blast
qed

theorem cached_values_current_witness:
  "get_c 50 ''a'' (fold (cache_step no_log) two_ops small_cache) =
     (Some 10, snd (get_c 50 ''a'' (fold (cache_step no_log) two_ops small_cache))) \<and>
   (\<exists>e. fold (noted 100) two_ops (\<lambda>k. None) ''a'' = Some (10, e) \<and> 50 \<le> e)"
proof -
  have "fst (get_c 50 ''a'' (fold (cache_step no_log) two_ops small_cache)) = Some 10" by code_simp
  then have read: "get_c 50 ''a'' (fold (cache_step no_log) two_ops small_cache) =
     (Some 10, snd (get_c 50 ''a'' (fold (cache_step no_log) two_ops small_cache)))" by (metis prod.collapse)
  from cached_values_current [OF small_cache_new read] show ?thesis using read by (simp add: two_entries_def)
qed

text \<open>
  With a weight for frequency the entry that was just set can be the one that is evicted: while the others
  are used often, a new key cannot enter.
\<close>

definition log2_two :: "nat \<Rightarrow> js_num" where
  "log2_two n = (if n = 2 then Num 1 else Num 0)"

lemma new_entry_evicted:
  "ca_store (fold (cache_step log2_two)
     [Ca_set (0, 0) 1 ''a'' 10 None, Ca_get 2 ''a'', Ca_set (0, 0) 3 ''b'' (20 :: nat) None]
     (small_cache\<lparr>ca_max := 1, ca_weight := Num 60000\<rparr>)) =
   [(''a'', \<lparr>en_value = 10, en_expiresAt = 101, en_accessCount = 1, en_lastAccessed = 2\<rparr>)]"
  by code_simp

end
